(* ===== verification/Prelude.thy ===== *)
theory Prelude
  imports Main "HOL-Library.Word"
begin

unbundle bit_operations_syntax

text \<open>
  Shared vocabulary of the development: the machine types of the C sources, the constants of
  \<open>include/linux/errno.h\<close> the components return, the arithmetic helpers of
  \<open>include/util/misc.h\<close> and \<open>include/x86/vm.h\<close>, the collections of rules the component
  theories feed, and the generic lemmas on lists and words they share.
\<close>

section \<open>Types of the C sources\<close>

text \<open>A guest address (\<open>gaddr_t\<close>), a host pointer, a C \<open>int\<close> used as a bit set, a byte.\<close>

type_synonym gaddr = "64 word"
type_synonym haddr = "64 word"
type_synonym flags = "32 word"
type_synonym byte = "8 word"

section \<open>Runs that can die\<close>

text \<open>
  A failed \<open>assert\<close>, a call of \<open>panic\<close>, a dereference of \<open>NULL\<close>, an access outside of an array
  or to freed memory and a \<open>free\<close> of a pointer that was never set (which C leaves undefined) and a call of \<open>exit\<close>
  end the process, as does a signal that it sends to itself (\<open>Killed\<close>); \<open>Out_of_fuel\<close> is a loop that used more passes than its bound.
\<close>

datatype crash = Assert_failed | Panicked | Null_deref | Out_of_bounds | Wild_free | Freed_access | Exited | Killed | Out_of_fuel

type_synonym 'a run = "crash + 'a"

primrec bind_run :: "'a run \<Rightarrow> ('a \<Rightarrow> 'b run) \<Rightarrow> 'b run" where
  "bind_run (Inl e) f = Inl e"
| "bind_run (Inr x) f = f x"

definition deref :: "'a option \<Rightarrow> 'a run" where
  "deref p = (case p of None \<Rightarrow> Inl Null_deref | Some x \<Rightarrow> Inr x)"

lemma deref_simps [simp]: "deref None = Inl Null_deref" "deref (Some x) = Inr x"
  by (simp_all add: deref_def)

section \<open>Linked lists as sequences\<close>

text \<open>\<open>list_add(new, entry)\<close> after an entry, and \<open>entry->next\<close> (\<open>None\<close> is the list head).\<close>

fun insert_after :: "'a \<Rightarrow> 'a \<Rightarrow> 'a list \<Rightarrow> 'a list" where
  "insert_after new e [] = []"
| "insert_after new e (x # xs) = (if x = e then x # new # xs else x # insert_after new e xs)"

fun list_next :: "'a \<Rightarrow> 'a list \<Rightarrow> 'a option" where
  "list_next e [] = None"
| "list_next e (x # xs) = (if x = e then (case xs of [] \<Rightarrow> None | y # _ \<Rightarrow> Some y) else list_next e xs)"

lemma insert_after_split [simp]:
  "e \<notin> set xs \<Longrightarrow> insert_after new e (xs @ e # ys) = xs @ e # new # ys"
  by (induction xs) auto

lemma list_next_split [simp]:
  "e \<notin> set xs \<Longrightarrow> list_next e (xs @ e # ys) = (case ys of [] \<Rightarrow> None | y # _ \<Rightarrow> Some y)"
  by (induction xs) auto

lemma remove1_split [simp]: "e \<notin> set xs \<Longrightarrow> remove1 e (xs @ e # ys) = xs @ ys"
  by (induction xs) auto

section \<open>Rule collections\<close>

named_theorems layout "rules on page rounding and alignment"
named_theorems store_simps "rewrite rules of the explicit stores (records of maps)"
named_theorems inv_intros "introduction rules of the component invariants"

section \<open>Linux error numbers\<close>

text \<open>The error numbers of \<open>include/linux/errno.h\<close> that handlers return negated.\<close>

abbreviation (input) LINUX_EPERM :: int where "LINUX_EPERM \<equiv> 1"
abbreviation (input) LINUX_ENOENT :: int where "LINUX_ENOENT \<equiv> 2"
abbreviation (input) LINUX_EINTR :: int where "LINUX_EINTR \<equiv> 4"
abbreviation (input) LINUX_ENXIO :: int where "LINUX_ENXIO \<equiv> 6"
abbreviation (input) LINUX_E2BIG :: int where "LINUX_E2BIG \<equiv> 7"
abbreviation (input) LINUX_ENOEXEC :: int where "LINUX_ENOEXEC \<equiv> 8"
abbreviation (input) LINUX_EBADF :: int where "LINUX_EBADF \<equiv> 9"
abbreviation (input) LINUX_EAGAIN :: int where "LINUX_EAGAIN \<equiv> 11"
abbreviation (input) LINUX_ENOMEM :: int where "LINUX_ENOMEM \<equiv> 12"
abbreviation (input) LINUX_EACCES :: int where "LINUX_EACCES \<equiv> 13"
abbreviation (input) LINUX_EFAULT :: int where "LINUX_EFAULT \<equiv> 14"
abbreviation (input) LINUX_ENOTDIR :: int where "LINUX_ENOTDIR \<equiv> 20"
abbreviation (input) LINUX_EINVAL :: int where "LINUX_EINVAL \<equiv> 22"
abbreviation (input) LINUX_EMFILE :: int where "LINUX_EMFILE \<equiv> 24"
abbreviation (input) LINUX_ENOTTY :: int where "LINUX_ENOTTY \<equiv> 25"
abbreviation (input) LINUX_ENAMETOOLONG :: int where "LINUX_ENAMETOOLONG \<equiv> 36"
abbreviation (input) LINUX_ENOSYS :: int where "LINUX_ENOSYS \<equiv> 38"
abbreviation (input) LINUX_ELOOP :: int where "LINUX_ELOOP \<equiv> 40"
abbreviation (input) LINUX_EOPNOTSUPP :: int where "LINUX_EOPNOTSUPP \<equiv> 95"
abbreviation (input) LINUX_ETIMEDOUT :: int where "LINUX_ETIMEDOUT \<equiv> 110"

section \<open>Rounding (include/util/misc.h) and pages (include/x86/vm.h)\<close>

definition rounddown :: "64 word \<Rightarrow> 64 word \<Rightarrow> 64 word" where
  "rounddown x y = x div y * y"

definition roundup :: "64 word \<Rightarrow> 64 word \<Rightarrow> 64 word" where
  "roundup x y = (x + y - 1) div y * y"

datatype page_type = PAGE_4KB | PAGE_2MB | PAGE_1GB | PAGE_PML4E

primrec page_index :: "page_type \<Rightarrow> nat" where
  "page_index PAGE_4KB = 0"
| "page_index PAGE_2MB = 1"
| "page_index PAGE_1GB = 2"
| "page_index PAGE_PML4E = 3"

definition PAGE_SHIFTOF :: "page_type \<Rightarrow> nat" where
  "PAGE_SHIFTOF p = 12 + page_index p * 9"

definition PAGE_SIZEOF :: "page_type \<Rightarrow> 64 word" where
  "PAGE_SIZEOF p = push_bit (PAGE_SHIFTOF p) 1"

definition is_page_aligned :: "64 word \<Rightarrow> page_type \<Rightarrow> bool" where
  "is_page_aligned addr p \<longleftrightarrow> addr AND (PAGE_SIZEOF p - 1) = 0"

lemma PAGE_SIZEOF_4KB [simp, layout]: "PAGE_SIZEOF PAGE_4KB = 0x1000"
  by (simp add: PAGE_SIZEOF_def PAGE_SHIFTOF_def push_bit_eq_mult)

lemma is_page_aligned_4KB [layout]: "is_page_aligned a PAGE_4KB \<longleftrightarrow> unat a mod 4096 = 0"
proof -
  have "a AND (PAGE_SIZEOF PAGE_4KB - 1) = a AND mask 12"
    by (simp add: mask_eq_exp_minus_1)
  also have "\<dots> = take_bit 12 a" by (simp add: take_bit_eq_mask)
  finally have "is_page_aligned a PAGE_4KB \<longleftrightarrow> take_bit 12 a = 0"
    by (simp add: is_page_aligned_def)
  also have "\<dots> \<longleftrightarrow> unat (take_bit 12 a) = 0" by (simp add: unat_eq_zero)
  also have "\<dots> \<longleftrightarrow> unat a mod 4096 = 0"
    by (simp add: take_bit_eq_mod unat_mod)
  finally show ?thesis .
qed

lemma unat_less_64: "unat (x :: 64 word) < 2 ^ 64"
  by (rule order_less_le_trans [OF unsigned_less]) simp

text \<open>Cutting to a C \<open>int\<close> and sign extending again loses nothing below 2 GiB.\<close>

lemma scast_ucast_small:
  assumes "unat (x :: 64 word) < 2 ^ 31"
  shows "scast (ucast x :: 32 word) = x"
proof -
  have e: "take_bit 31 x = x" 
  proof -
    have "take_bit 31 (unat x) = unat x" using assms by (simp add: take_bit_nat_eq_self_iff)
    then show ?thesis by (metis unsigned_take_bit_eq unsigned_word_eqI)
  qed
  have hi: "\<not> bit x n" if "31 \<le> n" for n
    using that by (subst e [symmetric]) (simp add: bit_take_bit_iff)
  show ?thesis
    by (rule bit_word_eqI) (use hi in \<open>auto simp: bit_signed_iff bit_unsigned_iff min_def not_le\<close>)
qed

text \<open>A C \<open>int\<close> made from a wider integer.\<close>

definition to_cint :: "int \<Rightarrow> int" where
  "to_cint x = sint (word_of_int x :: 32 word)"

lemma to_cint_id: "- (2 ^ 31) \<le> x \<Longrightarrow> x < 2 ^ 31 \<Longrightarrow> to_cint x = x"
  by (simp add: to_cint_def sint_sbintrunc' signed_take_bit_int_eq_self)

text \<open>Rounding in natural numbers, as long as the addition does not wrap.\<close>

lemma unat_roundup_4KB [layout]:
  assumes "unat x + 4095 < 2 ^ 64"
  shows "unat (roundup x 0x1000) = (unat x + 4095) div 4096 * 4096"
proof -
  have e: "x + 0x1000 - 1 = x + (0xfff :: 64 word)" by simp
  have u: "unat (x + (0xfff :: 64 word)) = unat x + 4095"
    using assms by (subst unat_add_lem [THEN iffD1]) simp_all
  have d: "unat ((x + (0xfff :: 64 word)) div 0x1000) = (unat x + 4095) div 4096"
    by (simp add: unat_div u)
  have "(unat x + 4095) div 4096 * 4096 < 2 ^ 64"
    using assms by (meson div_times_less_eq_dividend le_less_trans)
  then show ?thesis
    unfolding roundup_def e
    by (subst unat_mult_lem [THEN iffD1]) (simp_all add: d)
qed

lemma unat_rounddown_4KB [layout]: "unat (rounddown x 0x1000) = unat x div 4096 * 4096"
proof -
  have "unat x < 2 ^ 64" by (rule unat_less_64)
  then have "unat x div 4096 * 4096 < 2 ^ 64"
    using div_times_less_eq_dividend [of "unat x" 4096] by (rule le_less_trans [rotated])
  then show ?thesis
    unfolding rounddown_def
    by (subst unat_mult_lem [THEN iffD1]) (simp_all add: unat_div)
qed

end
