(* ===== verification/RBTree.thy ===== *)
theory RBTree
  imports Prelude
begin

text \<open>
  The red-black trees of \<open>include/util/tree.h\<close> (\<open>RB_GENERATE\<close>), which index the memory
  regions of a process.  A tree is a value of \<open>'a rb_tree\<close>; a node pointer together with its
  chain of \<open>rbe_parent\<close> links is a subtree with the list of frames around it, innermost first,
  so that the two fix-up loops climb exactly the links the macros climb.  A dereference of a
  \<open>NULL\<close> link is the result \<open>None\<close>.  The lemmas show that it never happens on a red-black
  tree and that insertion and removal keep the colour invariants and the in-order sequence.
\<close>

section \<open>Trees, frames and the macros\<close>

datatype rb_color = RB_BLACK | RB_RED

datatype 'a rb_tree =
    Null
  | Node rb_color "'a rb_tree" 'a "'a rb_tree"

datatype 'a rb_frame =
    In_Left rb_color 'a "'a rb_tree"
  | In_Right rb_color "'a rb_tree" 'a

fun is_red :: "'a rb_tree \<Rightarrow> bool" where
  "is_red Null = False"
| "is_red (Node c l x r) = (c = RB_RED)"

fun set_color :: "rb_color \<Rightarrow> 'a rb_tree \<Rightarrow> 'a rb_tree" where
  "set_color c Null = Null"
| "set_color c (Node c' l x r) = Node c l x r"

fun plug :: "'a rb_frame list \<Rightarrow> 'a rb_tree \<Rightarrow> 'a rb_tree" where
  "plug [] t = t"
| "plug (In_Left c p s # rest) t = plug rest (Node c t p s)"
| "plug (In_Right c s p # rest) t = plug rest (Node c s p t)"

fun rb_rotate_left :: "'a rb_tree \<Rightarrow> 'a rb_tree option" where
  "rb_rotate_left (Node c a x (Node c' b y d)) = Some (Node c' (Node c a x b) y d)"
| "rb_rotate_left _ = None"

fun rb_rotate_right :: "'a rb_tree \<Rightarrow> 'a rb_tree option" where
  "rb_rotate_right (Node c (Node c' a x b) y d) = Some (Node c' a x (Node c b y d))"
| "rb_rotate_right _ = None"

subsection \<open>Insertion\<close>

text \<open>The loop of \<open>RB_INSERT_COLOR\<close>: the frames around \<open>elm\<close> and the subtree at \<open>elm\<close>.\<close>

fun rb_insert_color :: "'a rb_frame list \<Rightarrow> 'a rb_tree \<Rightarrow> 'a rb_tree option" where
  "rb_insert_color [] t = Some (set_color RB_BLACK t)"
| "rb_insert_color (In_Left RB_RED p s # In_Left gc g u # rest) t =
    (if is_red u
     then rb_insert_color rest (Node RB_RED (Node RB_BLACK t p s) g (set_color RB_BLACK u))
     else map_option (\<lambda>q. set_color RB_BLACK (plug rest q))
            (rb_rotate_right (Node RB_RED (Node RB_BLACK t p s) g u)))"
| "rb_insert_color (In_Right RB_RED s p # In_Left gc g u # rest) t =
    (if is_red u
     then rb_insert_color rest (Node RB_RED (Node RB_BLACK s p t) g (set_color RB_BLACK u))
     else case rb_rotate_left (Node RB_RED s p t) of
            None \<Rightarrow> None
          | Some e \<Rightarrow> map_option (\<lambda>q. set_color RB_BLACK (plug rest q))
              (rb_rotate_right (Node RB_RED (set_color RB_BLACK e) g u)))"
| "rb_insert_color (In_Right RB_RED s p # In_Right gc u g # rest) t =
    (if is_red u
     then rb_insert_color rest (Node RB_RED (set_color RB_BLACK u) g (Node RB_BLACK s p t))
     else map_option (\<lambda>q. set_color RB_BLACK (plug rest q))
            (rb_rotate_left (Node RB_RED u g (Node RB_BLACK s p t))))"
| "rb_insert_color (In_Left RB_RED p s # In_Right gc u g # rest) t =
    (if is_red u
     then rb_insert_color rest (Node RB_RED (set_color RB_BLACK u) g (Node RB_BLACK t p s))
     else case rb_rotate_right (Node RB_RED t p s) of
            None \<Rightarrow> None
          | Some e \<Rightarrow> map_option (\<lambda>q. set_color RB_BLACK (plug rest q))
              (rb_rotate_left (Node RB_RED u g (set_color RB_BLACK e))))"
| "rb_insert_color [In_Left RB_RED p s] t = None"
| "rb_insert_color [In_Right RB_RED s p] t = None"
| "rb_insert_color (In_Left RB_BLACK p s # rest) t =
    Some (set_color RB_BLACK (plug (In_Left RB_BLACK p s # rest) t))"
| "rb_insert_color (In_Right RB_BLACK s p # rest) t =
    Some (set_color RB_BLACK (plug (In_Right RB_BLACK s p # rest) t))"

text \<open>The search loop of \<open>RB_INSERT\<close>; \<open>k y\<close> is \<open>cmp(elm, y)\<close>.\<close>

fun rb_descend :: "('a \<Rightarrow> int) \<Rightarrow> 'a rb_tree \<Rightarrow> 'a rb_frame list \<Rightarrow> 'a + 'a rb_frame list" where
  "rb_descend k Null path = Inr path"
| "rb_descend k (Node c l y r) path =
    (if k y < 0 then rb_descend k l (In_Left c y r # path)
     else if k y > 0 then rb_descend k r (In_Right c l y # path)
     else Inl y)"

definition rb_insert ::
  "('a \<Rightarrow> 'a \<Rightarrow> int) \<Rightarrow> 'a \<Rightarrow> 'a rb_tree \<Rightarrow> ('a option \<times> 'a rb_tree) option" where
  "rb_insert cmp elm t =
    (case rb_descend (cmp elm) t [] of
       Inl y \<Rightarrow> Some (Some y, t)
     | Inr path \<Rightarrow> map_option (Pair None) (rb_insert_color path (Node RB_RED Null elm Null)))"

subsection \<open>Removal\<close>

text \<open>
  One pass of the loop of \<open>RB_REMOVE_COLOR\<close> after the case of a red sibling: \<open>Inl\<close> is the
  subtree at the new \<open>elm\<close> (the parent), \<open>Inr\<close> the subtree left by the final rotation.
\<close>

fun rb_remove_left :: "rb_color \<Rightarrow> 'a \<Rightarrow> 'a rb_tree \<Rightarrow> 'a rb_tree \<Rightarrow> ('a rb_tree + 'a rb_tree) option" where
  "rb_remove_left pc p elm Null = None"
| "rb_remove_left pc p elm (Node tc l x r) =
    (if \<not> is_red l \<and> \<not> is_red r then Some (Inl (Node pc elm p (Node RB_RED l x r)))
     else if \<not> is_red r then
       (case rb_rotate_right (Node RB_RED (set_color RB_BLACK l) x r) of
          Some (Node _ l' x' r') \<Rightarrow>
            map_option Inr
              (rb_rotate_left (Node RB_BLACK elm p (Node pc l' x' (set_color RB_BLACK r'))))
        | _ \<Rightarrow> None)
     else map_option Inr (rb_rotate_left (Node RB_BLACK elm p (Node pc l x (set_color RB_BLACK r)))))"

fun rb_remove_right :: "rb_color \<Rightarrow> 'a \<Rightarrow> 'a rb_tree \<Rightarrow> 'a rb_tree \<Rightarrow> ('a rb_tree + 'a rb_tree) option" where
  "rb_remove_right pc p elm Null = None"
| "rb_remove_right pc p elm (Node tc l x r) =
    (if \<not> is_red l \<and> \<not> is_red r then Some (Inl (Node pc (Node RB_RED l x r) p elm))
     else if \<not> is_red l then
       (case rb_rotate_left (Node RB_RED l x (set_color RB_BLACK r)) of
          Some (Node _ l' x' r') \<Rightarrow>
            map_option Inr
              (rb_rotate_right (Node RB_BLACK (Node pc (set_color RB_BLACK l') x' r') p elm))
        | _ \<Rightarrow> None)
     else map_option Inr (rb_rotate_right (Node RB_BLACK (Node pc (set_color RB_BLACK l) x r) p elm)))"

text \<open>
  A red sibling is first rotated above the parent, which becomes red; \<open>rb_red_sibling_*\<close> give
  the frames that are then around the parent, the parent's colour and its new sibling.
\<close>

fun rb_red_sibling_left ::
  "rb_color \<Rightarrow> 'a rb_tree \<Rightarrow> 'a rb_frame list \<Rightarrow> rb_color \<times> 'a rb_tree \<times> 'a rb_frame list" where
  "rb_red_sibling_left pc (Node RB_RED a t b) rest = (RB_RED, a, In_Left RB_BLACK t b # rest)"
| "rb_red_sibling_left pc tmp rest = (pc, tmp, rest)"

fun rb_red_sibling_right ::
  "rb_color \<Rightarrow> 'a rb_tree \<Rightarrow> 'a rb_frame list \<Rightarrow> rb_color \<times> 'a rb_tree \<times> 'a rb_frame list" where
  "rb_red_sibling_right pc (Node RB_RED a t b) rest = (RB_RED, b, In_Right RB_BLACK a t # rest)"
| "rb_red_sibling_right pc tmp rest = (pc, tmp, rest)"

text \<open>
  \<open>rb_red_sibling_*\<close> makes the path at most as long as before, and then the parent is red, so
  the loop stops there at the latest: the measure counts a black \<open>elm\<close>.
\<close>

function rb_remove_color :: "'a rb_frame list \<Rightarrow> 'a rb_tree \<Rightarrow> 'a rb_tree option" where
  "rb_remove_color [] elm = Some (set_color RB_BLACK elm)"
| "rb_remove_color (In_Left pc p tmp # rest) elm =
    (if is_red elm then Some (plug (In_Left pc p tmp # rest) (set_color RB_BLACK elm))
     else case rb_red_sibling_left pc tmp rest of (pc', tmp', rest') \<Rightarrow>
       (case rb_remove_left pc' p elm tmp' of
          None \<Rightarrow> None
        | Some (Inl up) \<Rightarrow> rb_remove_color rest' up
        | Some (Inr done) \<Rightarrow> Some (set_color RB_BLACK (plug rest' done))))"
| "rb_remove_color (In_Right pc tmp p # rest) elm =
    (if is_red elm then Some (plug (In_Right pc tmp p # rest) (set_color RB_BLACK elm))
     else case rb_red_sibling_right pc tmp rest of (pc', tmp', rest') \<Rightarrow>
       (case rb_remove_right pc' p elm tmp' of
          None \<Rightarrow> None
        | Some (Inl up) \<Rightarrow> rb_remove_color rest' up
        | Some (Inr done) \<Rightarrow> Some (set_color RB_BLACK (plug rest' done))))"
  by pat_completeness auto

lemma rb_remove_left_Inl_color:
  "rb_remove_left pc p elm tmp = Some (Inl up) \<Longrightarrow> is_red up \<longleftrightarrow> pc = RB_RED"
  by (cases tmp) (auto split: if_splits option.splits rb_tree.splits)

lemma rb_remove_right_Inl_color:
  "rb_remove_right pc p elm tmp = Some (Inl up) \<Longrightarrow> is_red up \<longleftrightarrow> pc = RB_RED"
  by (cases tmp) (auto split: if_splits option.splits rb_tree.splits)

lemma rb_red_sibling_left_cases:
  "rb_red_sibling_left pc tmp rest = (pc', tmp', rest') \<Longrightarrow>
     rest' = rest \<or> pc' = RB_RED \<and> length rest' = Suc (length rest)"
  by (cases "(pc, tmp, rest)" rule: rb_red_sibling_left.cases) auto

lemma rb_red_sibling_right_cases:
  "rb_red_sibling_right pc tmp rest = (pc', tmp', rest') \<Longrightarrow>
     rest' = rest \<or> pc' = RB_RED \<and> length rest' = Suc (length rest)"
  by (cases "(pc, tmp, rest)" rule: rb_red_sibling_right.cases) auto

termination rb_remove_color
proof (relation "measure (\<lambda>(path, elm). 2 * length path + (if is_red elm then 0 else 1))",
    goal_cases)
  case 1
  then show ?case by simp
next
  case 2
  then show ?case
    by (auto dest!: rb_remove_left_Inl_color rb_red_sibling_left_cases [OF sym])
next
  case 3
  then show ?case
    by (auto dest!: rb_remove_right_Inl_color rb_red_sibling_right_cases [OF sym])
qed

text \<open>The leftmost node of a subtree: the frames above it, its colour, element and right child.\<close>

fun rb_leftmost ::
  "'a rb_tree \<Rightarrow> 'a rb_frame list \<Rightarrow> ('a rb_frame list \<times> rb_color \<times> 'a \<times> 'a rb_tree) option" where
  "rb_leftmost Null path = None"
| "rb_leftmost (Node c Null x r) path = Some (path, c, x, r)"
| "rb_leftmost (Node c l x r) path = rb_leftmost l (In_Left c x r # path)"

text \<open>The node of an element, with the frames its \<open>rbe_parent\<close> links lead through.\<close>

fun rb_focus :: "'a \<Rightarrow> 'a rb_tree \<Rightarrow> 'a rb_frame list \<Rightarrow> ('a rb_frame list \<times> 'a rb_tree) option" where
  "rb_focus x Null path = None"
| "rb_focus x (Node c l y r) path =
    (if x = y then Some (path, Node c l y r)
     else case rb_focus x l (In_Left c y r # path) of
            Some z \<Rightarrow> Some z
          | None \<Rightarrow> rb_focus x r (In_Right c l y # path))"

definition rb_unlink :: "rb_color \<Rightarrow> 'a rb_frame list \<Rightarrow> 'a rb_tree \<Rightarrow> 'a rb_tree option" where
  "rb_unlink color path child =
    (if color = RB_BLACK then rb_remove_color path child else Some (plug path child))"

definition rb_remove :: "'a \<Rightarrow> 'a rb_tree \<Rightarrow> 'a rb_tree option" where
  "rb_remove elm t =
    (case rb_focus elm t [] of
       Some (path, Node c l y r) \<Rightarrow>
         if l = Null then rb_unlink c path r
         else if r = Null then rb_unlink c path l
         else (case rb_leftmost r [] of
                 None \<Rightarrow> None
               | Some (mpath, mc, m, child) \<Rightarrow> rb_unlink mc (mpath @ In_Right c l m # path) child)
     | _ \<Rightarrow> None)"

subsection \<open>Searching and walking\<close>

fun rb_find :: "('a \<Rightarrow> int) \<Rightarrow> 'a rb_tree \<Rightarrow> 'a option" where
  "rb_find k Null = None"
| "rb_find k (Node c l y r) =
    (if k y < 0 then rb_find k l else if k y > 0 then rb_find k r else Some y)"

fun rb_nfind :: "('a \<Rightarrow> int) \<Rightarrow> 'a rb_tree \<Rightarrow> 'a option \<Rightarrow> 'a option" where
  "rb_nfind k Null res = res"
| "rb_nfind k (Node c l y r) res =
    (if k y < 0 then rb_nfind k l (Some y) else if k y > 0 then rb_nfind k r res else Some y)"

fun rb_minmax :: "int \<Rightarrow> 'a rb_tree \<Rightarrow> 'a option \<Rightarrow> 'a option" where
  "rb_minmax val Null parent = parent"
| "rb_minmax val (Node c l y r) parent = rb_minmax val (if val < 0 then l else r) (Some y)"

fun rb_climb_next :: "'a rb_frame list \<Rightarrow> 'a option" where
  "rb_climb_next [] = None"
| "rb_climb_next (In_Left c p s # rest) = Some p"
| "rb_climb_next (In_Right c s p # rest) = rb_climb_next rest"

fun rb_climb_prev :: "'a rb_frame list \<Rightarrow> 'a option" where
  "rb_climb_prev [] = None"
| "rb_climb_prev (In_Right c s p # rest) = Some p"
| "rb_climb_prev (In_Left c p s # rest) = rb_climb_prev rest"

definition rb_next :: "'a \<Rightarrow> 'a rb_tree \<Rightarrow> 'a option" where
  "rb_next elm t =
    (case rb_focus elm t [] of
       Some (path, Node c l y r) \<Rightarrow> if r \<noteq> Null then rb_minmax (-1) r None else rb_climb_next path
     | _ \<Rightarrow> None)"

definition rb_prev :: "'a \<Rightarrow> 'a rb_tree \<Rightarrow> 'a option" where
  "rb_prev elm t =
    (case rb_focus elm t [] of
       Some (path, Node c l y r) \<Rightarrow> if l \<noteq> Null then rb_minmax 1 l None else rb_climb_prev path
     | _ \<Rightarrow> None)"


section \<open>Invariants\<close>

fun inorder :: "'a rb_tree \<Rightarrow> 'a list" where
  "inorder Null = []"
| "inorder (Node c l x r) = inorder l @ x # inorder r"

fun bheight :: "'a rb_tree \<Rightarrow> nat" where
  "bheight Null = 0"
| "bheight (Node c l x r) = bheight l + (if c = RB_BLACK then 1 else 0)"

text \<open>No red node has a red child, and every path to a \<open>NULL\<close> has the same black nodes.\<close>

fun rb_inv :: "'a rb_tree \<Rightarrow> bool" where
  "rb_inv Null = True"
| "rb_inv (Node c l x r) =
    (rb_inv l \<and> rb_inv r \<and> bheight l = bheight r \<and> (c = RB_RED \<longrightarrow> \<not> is_red l \<and> \<not> is_red r))"

definition rb_tree_ok :: "'a rb_tree \<Rightarrow> bool" where
  "rb_tree_ok t \<longleftrightarrow> rb_inv t \<and> \<not> is_red t"

fun lefts :: "'a rb_frame list \<Rightarrow> 'a list" where
  "lefts [] = []"
| "lefts (In_Left c p s # rest) = lefts rest"
| "lefts (In_Right c s p # rest) = lefts rest @ inorder s @ [p]"

fun rights :: "'a rb_frame list \<Rightarrow> 'a list" where
  "rights [] = []"
| "rights (In_Left c p s # rest) = p # inorder s @ rights rest"
| "rights (In_Right c s p # rest) = rights rest"

fun red_above :: "'a rb_frame list \<Rightarrow> bool" where
  "red_above [] = False"
| "red_above (In_Left c p s # rest) = (c = RB_RED)"
| "red_above (In_Right c s p # rest) = (c = RB_RED)"

text \<open>A context into which a subtree of black height \<open>n\<close> fits, with a black root.\<close>

fun ctx_ok :: "'a rb_frame list \<Rightarrow> nat \<Rightarrow> bool" where
  "ctx_ok [] n = True"
| "ctx_ok (In_Left c p s # rest) n =
    (rb_inv s \<and> bheight s = n \<and>
     (if c = RB_RED then \<not> is_red s \<and> \<not> red_above rest \<and> rest \<noteq> [] \<and> ctx_ok rest n
      else ctx_ok rest (Suc n)))"
| "ctx_ok (In_Right c s p # rest) n =
    (rb_inv s \<and> bheight s = n \<and>
     (if c = RB_RED then \<not> is_red s \<and> \<not> red_above rest \<and> rest \<noteq> [] \<and> ctx_ok rest n
      else ctx_ok rest (Suc n)))"

lemma inorder_set_color [simp]: "inorder (set_color c t) = inorder t"
  by (cases t) auto

lemma inorder_plug [simp]: "inorder (plug path t) = lefts path @ inorder t @ rights path"
  by (induction path t rule: plug.induct) auto

lemma rb_inv_set_black: "rb_inv t \<Longrightarrow> rb_inv (set_color RB_BLACK t)"
  by (cases t) auto

lemma not_red_set_black [simp]: "\<not> is_red (set_color RB_BLACK t)"
  by (cases t) auto

lemma set_color_id: "\<not> is_red t \<Longrightarrow> set_color RB_BLACK t = t"
  by (cases t rule: is_red.cases) (auto, metis rb_color.exhaust)

lemma bheight_set_black [simp]: "is_red t \<Longrightarrow> bheight (set_color RB_BLACK t) = Suc (bheight t)"
  by (cases t) auto

lemma rb_inv_plug:
  "ctx_ok path (bheight t) \<Longrightarrow> rb_inv t \<Longrightarrow> is_red t \<longrightarrow> \<not> red_above path \<Longrightarrow> rb_inv (plug path t)"
proof (induction path t rule: plug.induct)
  case (2 c p s rest t)
  show ?case unfolding plug.simps
    by (rule "2.IH"; use "2.prems" in \<open>cases c; simp split: if_splits\<close>)
next
  case (3 c s p rest t)
  show ?case unfolding plug.simps
    by (rule "3.IH"; use "3.prems" in \<open>cases c; simp split: if_splits\<close>)
qed simp

text \<open>A path is nonempty below a red node, so its outermost frame is black.\<close>

lemma not_red_plug:
  "ctx_ok path n \<Longrightarrow> path \<noteq> [] \<Longrightarrow> \<not> is_red (plug path t)"
proof (induction path t arbitrary: n rule: plug.induct)
  case (2 c p s rest t)
  then show ?case by (cases rest) (auto split: if_splits)
next
  case (3 c s p rest t)
  then show ?case by (cases rest) (auto split: if_splits)
qed auto

lemma rb_tree_ok_finish:
  assumes "ctx_ok path (bheight t)" "rb_inv t" "is_red t \<longrightarrow> \<not> red_above path"
  shows "rb_tree_ok (set_color RB_BLACK (plug path t))"
  using rb_inv_plug [OF assms] by (simp add: rb_tree_ok_def rb_inv_set_black)

section \<open>Insertion\<close>

lemma rb_insert_color_ok:
  assumes "ctx_ok path (bheight t)" "rb_inv t" "is_red t"
  shows "\<exists>t'. rb_insert_color path t = Some t' \<and> rb_tree_ok t' \<and>
           inorder t' = lefts path @ inorder t @ rights path"
  using assms
proof (induction path t rule: rb_insert_color.induct)
  case (1 t)
  then show ?case by (simp add: rb_tree_ok_def rb_inv_set_black)
next
  case (2 p s gc g u rest t)
  show ?case
  proof (cases "is_red u")
    case True
    have "ctx_ok rest (bheight (Node RB_RED (Node RB_BLACK t p s) g (set_color RB_BLACK u)))" "rb_inv (Node RB_RED (Node RB_BLACK t p s) g (set_color RB_BLACK u))"
      using "2.prems" True by (cases gc; simp add: rb_inv_set_black)+
    then show ?thesis using "2.IH" True by simp
  next
    case False
    have "rb_tree_ok (set_color RB_BLACK (plug rest (Node RB_BLACK t p (Node RB_RED s g u))))"
      by (rule rb_tree_ok_finish; use "2.prems" False in \<open>cases gc; simp\<close>)
    then show ?thesis using False by simp
  qed
next
  case (3 s p gc g u rest t)
  obtain tc a e b where t: "t = Node tc a e b" using "3.prems" by (cases t) auto
  show ?case
  proof (cases "is_red u")
    case True
    have "ctx_ok rest (bheight (Node RB_RED (Node RB_BLACK s p t) g (set_color RB_BLACK u)))" "rb_inv (Node RB_RED (Node RB_BLACK s p t) g (set_color RB_BLACK u))"
      using "3.prems" True by (cases gc; simp add: rb_inv_set_black)+
    then show ?thesis using "3.IH" True by simp
  next
    case False
    have "rb_tree_ok (set_color RB_BLACK (plug rest (Node RB_BLACK (Node RB_RED s p a) e (Node RB_RED b g u))))"
      by (rule rb_tree_ok_finish; use "3.prems" False t in \<open>cases gc; simp\<close>)
    then show ?thesis using False t by simp
  qed
next
  case (4 s p gc u g rest t)
  show ?case
  proof (cases "is_red u")
    case True
    have "ctx_ok rest (bheight (Node RB_RED (set_color RB_BLACK u) g (Node RB_BLACK s p t)))" "rb_inv (Node RB_RED (set_color RB_BLACK u) g (Node RB_BLACK s p t))"
      using "4.prems" True by (cases gc; simp add: rb_inv_set_black)+
    then show ?thesis using "4.IH" True by simp
  next
    case False
    have "rb_tree_ok (set_color RB_BLACK (plug rest (Node RB_BLACK (Node RB_RED u g s) p t)))"
      by (rule rb_tree_ok_finish; use "4.prems" False in \<open>cases gc; simp\<close>)
    then show ?thesis using False by simp
  qed
next
  case (5 p s gc u g rest t)
  obtain tc a e b where t: "t = Node tc a e b" using "5.prems" by (cases t) auto
  show ?case
  proof (cases "is_red u")
    case True
    have "ctx_ok rest (bheight (Node RB_RED (set_color RB_BLACK u) g (Node RB_BLACK t p s)))" "rb_inv (Node RB_RED (set_color RB_BLACK u) g (Node RB_BLACK t p s))"
      using "5.prems" True by (cases gc; simp add: rb_inv_set_black)+
    then show ?thesis using "5.IH" True by simp
  next
    case False
    have "rb_tree_ok (set_color RB_BLACK (plug rest (Node RB_BLACK (Node RB_RED u g a) e (Node RB_RED b p s))))"
      by (rule rb_tree_ok_finish; use "5.prems" False t in \<open>cases gc; simp\<close>)
    then show ?thesis using False t by simp
  qed
next
  case (8 p s rest t)
  then show ?case
    using rb_tree_ok_finish [of "In_Left RB_BLACK p s # rest" t] by auto
next
  case (9 s p rest t)
  then show ?case
    using rb_tree_ok_finish [of "In_Right RB_BLACK s p # rest" t] by auto
qed auto


text \<open>\<open>k\<close> compares the key with the elements of a sequence in ascending order.\<close>

definition rank_sorted :: "('a \<Rightarrow> int) \<Rightarrow> 'a list \<Rightarrow> bool" where
  "rank_sorted k xs \<longleftrightarrow> sorted_wrt (\<lambda>x y. sgn (k y) \<le> sgn (k x)) xs"

lemma rank_sorted_append:
  "rank_sorted k (xs @ y # ys) \<longleftrightarrow>
     rank_sorted k xs \<and> rank_sorted k ys \<and>
     (\<forall>x \<in> set xs. sgn (k y) \<le> sgn (k x)) \<and> (\<forall>z \<in> set ys. sgn (k z) \<le> sgn (k y)) \<and>
     (\<forall>x \<in> set xs. \<forall>z \<in> set ys. sgn (k z) \<le> sgn (k x))"
  by (auto simp: rank_sorted_def sorted_wrt_append)

lemma rank_sorted_split:
  assumes "\<forall>y \<in> set ys. 0 < k y" "\<forall>z \<in> set zs. k z < 0"
  shows "rank_sorted k (ys @ zs)"
proof -
  have "rank_sorted k zs" using assms(2) by (induction zs) (auto simp: rank_sorted_def)
  with assms show ?thesis by (induction ys) (auto simp: rank_sorted_def sgn_if)
qed

lemma sgn_pos_le: "1 \<le> sgn (j :: int) \<longleftrightarrow> 0 < j"
  by (auto simp: sgn_if)

lemma sgn_neg_le: "sgn (j :: int) \<le> - 1 \<longleftrightarrow> j < 0"
  by (auto simp: sgn_if)

lemma rb_descend_Inl:
  "rb_descend k t path = Inl y \<Longrightarrow> y \<in> set (inorder t) \<and> k y = 0"
  by (induction k t path rule: rb_descend.induct) (auto split: if_splits)

lemma rb_descend_Inr:
  assumes "rb_descend k t path = Inr path'" "rank_sorted k (inorder t)"
  shows "lefts path' = lefts path @ filter (\<lambda>y. 0 < k y) (inorder t)"
    and "rights path' = filter (\<lambda>y. k y < 0) (inorder t) @ rights path"
    and "\<forall>y \<in> set (inorder t). k y \<noteq> 0"
proof -
  have "lefts path' = lefts path @ filter (\<lambda>y. 0 < k y) (inorder t) \<and>
        rights path' = filter (\<lambda>y. k y < 0) (inorder t) @ rights path \<and>
        (\<forall>y \<in> set (inorder t). k y \<noteq> 0)"
    using assms
  proof (induction k t path rule: rb_descend.induct)
    case (2 k c l y r path)
    consider "k y < 0" | "0 < k y" using "2.prems"(1) by fastforce
    then show ?case
    proof cases
      case 1
      then have "\<forall>z \<in> set (inorder r). k z < 0"
        using "2.prems"(2) by (simp add: rank_sorted_append sgn_neg_le)
      then have "filter (\<lambda>z. 0 < k z) (inorder r) = []" "filter (\<lambda>z. k z < 0) (inorder r) = inorder r"
        by (auto simp: filter_empty_conv filter_id_conv)
      then show ?thesis
        using 1 "2.IH"(1) "2.prems" \<open>\<forall>z \<in> set (inorder r). k z < 0\<close>
        by (auto simp: rank_sorted_append)
    next
      case 2
      then have "\<forall>z \<in> set (inorder l). 0 < k z"
        using "2.prems"(2) by (simp add: rank_sorted_append sgn_pos_le)
      then have "filter (\<lambda>z. k z < 0) (inorder l) = []" "filter (\<lambda>z. 0 < k z) (inorder l) = inorder l"
        by (auto simp: filter_empty_conv filter_id_conv)
      then show ?thesis
        using 2 "2.IH"(2) "2.prems" \<open>\<forall>z \<in> set (inorder l). 0 < k z\<close>
        by (auto simp: rank_sorted_append)
    qed
  qed simp
  then show "lefts path' = lefts path @ filter (\<lambda>y. 0 < k y) (inorder t)"
    "rights path' = filter (\<lambda>y. k y < 0) (inorder t) @ rights path"
    "\<forall>y \<in> set (inorder t). k y \<noteq> 0" by blast+
qed

lemma rb_descend_ctx:
  "rb_descend k t path = Inr path' \<Longrightarrow> rb_inv t \<Longrightarrow> ctx_ok path (bheight t) \<Longrightarrow>
   is_red t \<longrightarrow> \<not> red_above path \<and> path \<noteq> [] \<Longrightarrow> ctx_ok path' 0"
proof (induction k t path rule: rb_descend.induct)
  case (2 k c l y r path)
  consider "k y < 0" | "0 < k y" using "2.prems"(1) by fastforce
  then show ?case
  proof cases
    case 1
    have "ctx_ok (In_Left c y r # path) (bheight l)" "is_red l \<longrightarrow> c \<noteq> RB_RED"
      using "2.prems" by (cases c; simp)+
    then show ?thesis using 1 "2.IH"(1) "2.prems"(1,2) by simp
  next
    case 2
    have "ctx_ok (In_Right c l y # path) (bheight r)" "is_red r \<longrightarrow> c \<noteq> RB_RED"
      using "2.prems" by (cases c; simp)+
    then show ?thesis using 2 "2.IH"(2) "2.prems"(1,2) by simp
  qed
qed simp

text \<open>\<open>RB_INSERT\<close> of a new key, and of a key that compares equal to an element.\<close>

lemma rb_insert_new:
  assumes "rb_tree_ok t" "rank_sorted (cmp x) (inorder t)" "\<forall>y \<in> set (inorder t). cmp x y \<noteq> 0"
  shows "\<exists>t'. rb_insert cmp x t = Some (None, t') \<and> rb_tree_ok t' \<and>
           inorder t' = filter (\<lambda>y. 0 < cmp x y) (inorder t) @ x # filter (\<lambda>y. cmp x y < 0) (inorder t)"
proof (cases "rb_descend (cmp x) t []")
  case (Inl y)
  then show ?thesis using rb_descend_Inl [OF Inl] assms(3) by blast
next
  case (Inr path)
  have "ctx_ok path 0"
    using rb_descend_ctx [OF Inr] assms(1) by (simp add: rb_tree_ok_def)
  then have "\<exists>t'. rb_insert_color path (Node RB_RED Null x Null) = Some t' \<and> rb_tree_ok t' \<and>
      inorder t' = lefts path @ [x] @ rights path"
    using rb_insert_color_ok [of path "Node RB_RED Null x Null"] by simp
  then show ?thesis
    using rb_descend_Inr [OF Inr assms(2)] by (auto simp: rb_insert_def Inr)
qed

lemma rb_insert_dup:
  assumes "rank_sorted (cmp x) (inorder t)" "y \<in> set (inorder t)" "cmp x y = 0"
  shows "\<exists>z \<in> set (inorder t). cmp x z = 0 \<and> rb_insert cmp x t = Some (Some z, t)"
proof (cases "rb_descend (cmp x) t []")
  case (Inl z)
  then show ?thesis using rb_descend_Inl [OF Inl] by (auto simp: rb_insert_def)
next
  case (Inr path)
  then show ?thesis using rb_descend_Inr(3) [OF Inr assms(1)] assms by blast
qed

lemma rb_find_correct:
  assumes "rank_sorted k (inorder t)"
  shows "case rb_find k t of None \<Rightarrow> \<forall>y \<in> set (inorder t). k y \<noteq> 0
                           | Some y \<Rightarrow> y \<in> set (inorder t) \<and> k y = 0"
  using assms
proof (induction k t rule: rb_find.induct)
  case (2 k c l y r)
  consider "k y < 0" | "0 < k y" | "k y = 0" by linarith
  then show ?case
  proof cases
    case 1
    then have "\<forall>z \<in> set (inorder r). k z < 0"
      using "2.prems" by (simp add: rank_sorted_append sgn_neg_le)
    then show ?thesis using 1 "2.IH"(1) "2.prems"
      by (auto simp: rank_sorted_append split: option.splits)
  next
    case 2
    then have "\<forall>z \<in> set (inorder l). 0 < k z"
      using "2.prems" by (simp add: rank_sorted_append sgn_pos_le)
    then show ?thesis using 2 "2.IH"(2) "2.prems"
      by (auto simp: rank_sorted_append split: option.splits)
  qed simp
qed simp

section \<open>Removal\<close>

lemma rb_remove_left_ok:
  assumes "rb_inv elm" "\<not> is_red elm" "rb_inv tmp" "\<not> is_red tmp"
    and n: "bheight elm = n" "bheight tmp = Suc n"
  shows "case rb_remove_left pc p elm tmp of
           None \<Rightarrow> False
         | Some (Inl up) \<Rightarrow> rb_inv (set_color RB_BLACK up) \<and> bheight up = (if pc = RB_BLACK then Suc n else n) \<and>
             (is_red up \<longleftrightarrow> pc = RB_RED) \<and> inorder up = inorder elm @ p # inorder tmp
         | Some (Inr d) \<Rightarrow> rb_inv d \<and> bheight d = (if pc = RB_BLACK then Suc (Suc n) else Suc n) \<and>
             (is_red d \<longleftrightarrow> pc = RB_RED) \<and> inorder d = inorder elm @ p # inorder tmp"
proof (cases tmp)
  case Null
  then show ?thesis using assms by simp
next
  case (Node tc l x r)
  then have tc: "tc = RB_BLACK" using assms(4) by (cases tc) auto
  note N = Node [unfolded tc]
  have h: "rb_inv l" "rb_inv r" "bheight l = n" "bheight r = n" using assms(3) n(2) N by simp_all
  consider "\<not> is_red l" "\<not> is_red r" | "is_red l" "\<not> is_red r" | "is_red r" by blast
  then show ?thesis
  proof cases
    case 1
    then show ?thesis using assms(1,2) n(1) h N by (cases pc) simp_all
  next
    case 2
    then obtain a e b where e: "l = Node RB_RED a e b" by (cases l) auto
    have g: "rb_inv a" "rb_inv b" "\<not> is_red a" "\<not> is_red b" "bheight a = n" "bheight b = n"
      using h e by simp_all
    show ?thesis using assms(1,2) n(1) h(2,4) g 2 by (cases pc) (simp_all add: N e)
  next
    case 3
    then obtain a e b where e: "r = Node RB_RED a e b" by (cases r) auto
    have g: "rb_inv a" "rb_inv b" "\<not> is_red a" "\<not> is_red b" "bheight a = n" "bheight b = n"
      using h e by simp_all
    show ?thesis using assms(1,2) n(1) h(1,3) g 3 by (cases pc) (simp_all add: N e)
  qed
qed

lemma rb_remove_right_ok:
  assumes "rb_inv elm" "\<not> is_red elm" "rb_inv tmp" "\<not> is_red tmp"
    and n: "bheight elm = n" "bheight tmp = Suc n"
  shows "case rb_remove_right pc p elm tmp of
           None \<Rightarrow> False
         | Some (Inl up) \<Rightarrow> rb_inv (set_color RB_BLACK up) \<and> bheight up = (if pc = RB_BLACK then Suc n else n) \<and>
             (is_red up \<longleftrightarrow> pc = RB_RED) \<and> inorder up = inorder tmp @ p # inorder elm
         | Some (Inr d) \<Rightarrow> rb_inv d \<and> bheight d = (if pc = RB_BLACK then Suc (Suc n) else Suc n) \<and>
             (is_red d \<longleftrightarrow> pc = RB_RED) \<and> inorder d = inorder tmp @ p # inorder elm"
proof (cases tmp)
  case Null
  then show ?thesis using assms by simp
next
  case (Node tc l x r)
  then have tc: "tc = RB_BLACK" using assms(4) by (cases tc) auto
  note N = Node [unfolded tc]
  have h: "rb_inv l" "rb_inv r" "bheight l = n" "bheight r = n" using assms(3) n(2) N by simp_all
  consider "\<not> is_red l" "\<not> is_red r" | "\<not> is_red l" "is_red r" | "is_red l" by blast
  then show ?thesis
  proof cases
    case 1
    then show ?thesis using assms(1,2) n(1) h N by (cases pc) simp_all
  next
    case 2
    then obtain a e b where e: "r = Node RB_RED a e b" by (cases r) auto
    have g: "rb_inv a" "rb_inv b" "\<not> is_red a" "\<not> is_red b" "bheight a = n" "bheight b = n"
      using h e by simp_all
    show ?thesis using assms(1,2) n(1) h(1,3) g 2 by (cases pc) (simp_all add: N e)
  next
    case 3
    then obtain a e b where e: "l = Node RB_RED a e b" by (cases l) auto
    have g: "rb_inv a" "rb_inv b" "\<not> is_red a" "\<not> is_red b" "bheight a = n" "bheight b = n"
      using h e by simp_all
    show ?thesis using assms(1,2) n(1) h(2,4) g 3 by (cases pc) (simp_all add: N e)
  qed
qed

lemma rb_red_sibling_left_ok:
  assumes "ctx_ok (In_Left pc p tmp # rest) (Suc n)"
    and "rb_red_sibling_left pc tmp rest = (pc', tmp', rest')"
  shows "ctx_ok (In_Left pc' p tmp' # rest') (Suc n)" "\<not> is_red tmp'"
    "lefts (In_Left pc' p tmp' # rest') = lefts (In_Left pc p tmp # rest)"
    "rights (In_Left pc' p tmp' # rest') = rights (In_Left pc p tmp # rest)"
  using assms by (cases "(pc, tmp, rest)" rule: rb_red_sibling_left.cases; cases pc; auto)+

lemma rb_red_sibling_right_ok:
  assumes "ctx_ok (In_Right pc tmp p # rest) (Suc n)"
    and "rb_red_sibling_right pc tmp rest = (pc', tmp', rest')"
  shows "ctx_ok (In_Right pc' tmp' p # rest') (Suc n)" "\<not> is_red tmp'"
    "lefts (In_Right pc' tmp' p # rest') = lefts (In_Right pc tmp p # rest)"
    "rights (In_Right pc' tmp' p # rest') = rights (In_Right pc tmp p # rest)"
  using assms by (cases "(pc, tmp, rest)" rule: rb_red_sibling_right.cases; cases pc; auto)+

lemma rb_remove_color_red:
  assumes "ctx_ok path (Suc (bheight elm))" "rb_inv (set_color RB_BLACK elm)" "is_red elm" "path \<noteq> []"
  shows "rb_tree_ok (plug path (set_color RB_BLACK elm))"
  using rb_inv_plug [of path "set_color RB_BLACK elm"] not_red_plug [OF assms(1,4)] assms
  by (simp add: rb_tree_ok_def)

lemma rb_remove_color_ok:
  assumes "ctx_ok path (Suc (bheight elm))" "rb_inv (set_color RB_BLACK elm)"
  shows "\<exists>t'. rb_remove_color path elm = Some t' \<and> rb_tree_ok t' \<and>
           inorder t' = lefts path @ inorder elm @ rights path"
  using assms
proof (induction path elm rule: rb_remove_color.induct)
  case (1 elm)
  then show ?case by (simp add: rb_tree_ok_def)
next
  case (2 pc p tmp rest elm)
  show ?case
  proof (cases "is_red elm")
    case True
    then show ?thesis using rb_remove_color_red [OF "2.prems"] by simp
  next
    case False
    obtain pc' tmp' rest' where sib: "rb_red_sibling_left pc tmp rest = (pc', tmp', rest')"
      by (metis prod_cases3)
    note S = rb_red_sibling_left_ok [OF "2.prems"(1) sib]
    have elm: "rb_inv elm" using "2.prems"(2) False by (simp add: set_color_id)
    have tmp: "rb_inv tmp'" "bheight tmp' = Suc (bheight elm)" using S(1) by simp_all
    note R = rb_remove_left_ok [OF elm False tmp(1) S(2) refl tmp(2), of pc' p]
    show ?thesis
    proof (cases "rb_remove_left pc' p elm tmp'")
      case None
      then show ?thesis using R by simp
    next
      case (Some res)
      show ?thesis
      proof (cases res)
        case (Inl up)
        have "ctx_ok rest' (Suc (bheight up))" using R S(1) Some Inl by (cases pc') simp_all
        then show ?thesis
          using "2.IH" [OF False sib [symmetric] refl Some Inl] R S(3,4) Some Inl False sib by auto
      next
        case (Inr d)
        have "rb_tree_ok (set_color RB_BLACK (plug rest' d))"
          by (rule rb_tree_ok_finish; use R S(1) Some Inr in \<open>cases pc'; simp\<close>)
        then show ?thesis using R S(3,4) Some Inr False sib by auto
      qed
    qed
  qed
next
  case (3 pc tmp p rest elm)
  show ?case
  proof (cases "is_red elm")
    case True
    then show ?thesis using rb_remove_color_red [OF "3.prems"] by simp
  next
    case False
    obtain pc' tmp' rest' where sib: "rb_red_sibling_right pc tmp rest = (pc', tmp', rest')"
      by (metis prod_cases3)
    note S = rb_red_sibling_right_ok [OF "3.prems"(1) sib]
    have elm: "rb_inv elm" using "3.prems"(2) False by (simp add: set_color_id)
    have tmp: "rb_inv tmp'" "bheight tmp' = Suc (bheight elm)" using S(1) by simp_all
    note R = rb_remove_right_ok [OF elm False tmp(1) S(2) refl tmp(2), of pc' p]
    show ?thesis
    proof (cases "rb_remove_right pc' p elm tmp'")
      case None
      then show ?thesis using R by simp
    next
      case (Some res)
      show ?thesis
      proof (cases res)
        case (Inl up)
        have "ctx_ok rest' (Suc (bheight up))" using R S(1) Some Inl by (cases pc') simp_all
        then show ?thesis
          using "3.IH" [OF False sib [symmetric] refl Some Inl] R S(3,4) Some Inl False sib by auto
      next
        case (Inr d)
        have "rb_tree_ok (set_color RB_BLACK (plug rest' d))"
          by (rule rb_tree_ok_finish; use R S(1) Some Inr in \<open>cases pc'; simp\<close>)
        then show ?thesis using R S(3,4) Some Inr False sib by auto
      qed
    qed
  qed
qed

subsection \<open>Node pointers\<close>

lemma rb_focus_plug:
  "rb_focus x t path = Some (path', t') \<Longrightarrow>
     plug path' t' = plug path t \<and> (\<exists>c l r. t' = Node c l x r)"
  by (induction x t path rule: rb_focus.induct) (auto split: if_splits option.splits)

lemma rb_focus_some: "x \<in> set (inorder t) \<Longrightarrow> rb_focus x t path \<noteq> None"
  by (induction x t path rule: rb_focus.induct) (auto split: option.splits)

lemma rb_focus_ctx:
  "rb_focus x t path = Some (path', t') \<Longrightarrow> rb_inv t \<Longrightarrow> ctx_ok path (bheight t) \<Longrightarrow>
   is_red t \<longrightarrow> \<not> red_above path \<and> path \<noteq> [] \<Longrightarrow>
   rb_inv t' \<and> ctx_ok path' (bheight t') \<and> (is_red t' \<longrightarrow> \<not> red_above path' \<and> path' \<noteq> [])"
proof (induction x t path rule: rb_focus.induct)
  case (2 x c l y r path)
  have L: "ctx_ok (In_Left c y r # path) (bheight l)" "is_red l \<longrightarrow> c \<noteq> RB_RED" "rb_inv l"
    and R: "ctx_ok (In_Right c l y # path) (bheight r)" "is_red r \<longrightarrow> c \<noteq> RB_RED" "rb_inv r"
    using "2.prems"(2-4) by (cases c; simp)+
  show ?case
  proof (cases "x = y")
    case True
    then show ?thesis using "2.prems" by auto
  next
    case False
    then show ?thesis
      using "2.IH"(1) [OF False _ L(3,1)] "2.IH"(2) [OF False _ _ R(3,1)] "2.prems"(1) L(2) R(2)
      by (auto split: option.splits simp del: ctx_ok.simps)
  qed
qed simp

lemma rb_leftmost_append:
  "rb_leftmost t (p @ q) = map_option (\<lambda>(mp, c, m, r). (mp @ q, c, m, r)) (rb_leftmost t p)"
  by (induction t p rule: rb_leftmost.induct) auto

lemma rb_leftmost_inorder:
  "rb_leftmost t path = Some (mp, c, m, r) \<Longrightarrow>
     lefts mp = lefts path \<and> inorder t @ rights path = m # inorder r @ rights mp"
  by (induction t path rule: rb_leftmost.induct) auto

lemma rb_leftmost_some: "t \<noteq> Null \<Longrightarrow> rb_leftmost t path \<noteq> None"
  by (induction t path rule: rb_leftmost.induct) auto

lemma rb_leftmost_ctx:
  "rb_leftmost t path = Some (mp, c, m, r) \<Longrightarrow> rb_inv t \<Longrightarrow> ctx_ok path (bheight t) \<Longrightarrow>
   is_red t \<longrightarrow> \<not> red_above path \<and> path \<noteq> [] \<Longrightarrow>
   rb_inv r \<and> bheight r = 0 \<and> ctx_ok mp (if c = RB_BLACK then 1 else 0) \<and>
   (c = RB_RED \<longrightarrow> \<not> is_red r \<and> \<not> red_above mp \<and> mp \<noteq> [])"
proof (induction t path rule: rb_leftmost.induct)
  case (2 c' x r' path)
  then show ?case by (cases c') auto
next
  case (3 c' v va vb vc x r' path)
  have "ctx_ok (In_Left c' x r' # path) (bheight (Node v va vb vc))"
    "is_red (Node v va vb vc) \<longrightarrow> c' \<noteq> RB_RED" "rb_inv (Node v va vb vc)"
    using "3.prems"(2-4) by (cases c'; simp)+
  then show ?case using "3.IH" "3.prems"(1) by (simp del: bheight.simps ctx_ok.simps rb_inv.simps)
qed simp

subsection \<open>Unlinking a node\<close>

lemma rb_unlink_ok:
  assumes "ctx_ok path (if c = RB_BLACK then Suc (bheight child) else bheight child)"
    and "rb_inv child" "c = RB_RED \<longrightarrow> \<not> is_red child \<and> path \<noteq> []"
  shows "\<exists>t'. rb_unlink c path child = Some t' \<and> rb_tree_ok t' \<and>
           inorder t' = lefts path @ inorder child @ rights path"
proof (cases c)
  case RB_BLACK
  then show ?thesis
    using rb_remove_color_ok [of path child] assms by (simp add: rb_unlink_def rb_inv_set_black)
next
  case RB_RED
  then show ?thesis
    using rb_inv_plug [of path child] not_red_plug [of path "bheight child" child] assms
    by (auto simp: rb_unlink_def rb_tree_ok_def)
qed

lemma rb_remove_ok:
  assumes ok: "rb_tree_ok t" and "x \<in> set (inorder t)"
  shows "\<exists>t' ys zs. rb_remove x t = Some t' \<and> rb_tree_ok t' \<and>
           inorder t = ys @ x # zs \<and> inorder t' = ys @ zs"
proof -
  obtain path t0 where foc: "rb_focus x t [] = Some (path, t0)"
    using rb_focus_some [OF assms(2)] by fastforce
  obtain c l r where t0: "t0 = Node c l x r" using rb_focus_plug [OF foc] by blast
  have io: "inorder t = lefts path @ (inorder l @ x # inorder r) @ rights path"
    using rb_focus_plug [OF foc] t0 inorder_plug [of path t0] by simp
  have inv: "rb_inv (Node c l x r)" and ctx: "ctx_ok path (bheight (Node c l x r))"
    and red: "c = RB_RED \<longrightarrow> \<not> red_above path \<and> path \<noteq> []"
    using rb_focus_ctx [OF foc] ok t0 by (auto simp: rb_tree_ok_def)
  consider "l = Null" | "l \<noteq> Null" "r = Null" | "l \<noteq> Null" "r \<noteq> Null" by blast
  then show ?thesis
  proof cases
    case 1
    then have "rb_remove x t = rb_unlink c path r" by (simp add: rb_remove_def foc t0)
    moreover have "\<exists>t'. rb_unlink c path r = Some t' \<and> rb_tree_ok t' \<and>
        inorder t' = lefts path @ inorder r @ rights path"
      by (rule rb_unlink_ok; use 1 inv ctx red in \<open>cases c; simp\<close>)
    moreover have "inorder t = (lefts path) @ x # (inorder r @ rights path)" using io 1 by simp
    ultimately show ?thesis by (metis append_assoc)
  next
    case 2
    then have "rb_remove x t = rb_unlink c path l" by (simp add: rb_remove_def foc t0)
    moreover have "\<exists>t'. rb_unlink c path l = Some t' \<and> rb_tree_ok t' \<and>
        inorder t' = lefts path @ inorder l @ rights path"
      by (rule rb_unlink_ok; use 2 inv ctx red in \<open>cases c; simp\<close>)
    moreover have "inorder t = (lefts path @ inorder l) @ x # rights path" using io 2 by simp
    ultimately show ?thesis by (metis append_assoc)
  next
    case 3
    obtain mp mc m child where lm: "rb_leftmost r [] = Some (mp, mc, m, child)"
      using rb_leftmost_some [OF 3(2), of "[]"] by fastforce
    let ?path = "mp @ In_Right c l m # path"
    have lm': "rb_leftmost r (In_Right c l m # path) = Some (?path, mc, m, child)"
      using rb_leftmost_append [of r "[]" "In_Right c l m # path"] lm by simp
    have ctx': "rb_inv child \<and> bheight child = 0 \<and> ctx_ok ?path (if mc = RB_BLACK then 1 else 0) \<and>
        (mc = RB_RED \<longrightarrow> \<not> is_red child \<and> \<not> red_above ?path \<and> ?path \<noteq> [])"
      by (rule rb_leftmost_ctx [OF lm']; use inv ctx red in \<open>cases c; simp\<close>)
    have "\<exists>t'. rb_unlink mc ?path child = Some t' \<and> rb_tree_ok t' \<and>
        inorder t' = lefts ?path @ inorder child @ rights ?path"
      by (rule rb_unlink_ok; use ctx' in \<open>cases mc; simp\<close>)
    moreover have "lefts ?path = lefts path @ inorder l @ [m]"
      "inorder r @ rights path = m # inorder child @ rights ?path"
      using rb_leftmost_inorder [OF lm'] by simp_all
    moreover have "rb_remove x t = rb_unlink mc ?path child"
      using 3 by (simp add: rb_remove_def foc t0 lm)
    moreover have "inorder t = (lefts path @ inorder l) @ x # (inorder r @ rights path)"
      using io by simp
    ultimately show ?thesis by (metis append_assoc append_Cons append_Nil)
  qed
qed

subsection \<open>Neighbours\<close>

lemma rb_minmax_max: "rb_minmax 1 t d = (if inorder t = [] then d else Some (last (inorder t)))"
  by (induction "1 :: int" t d rule: rb_minmax.induct) auto

lemma rb_minmax_min: "rb_minmax (- 1) t d = (if inorder t = [] then d else Some (hd (inorder t)))"
  by (induction "- 1 :: int" t d rule: rb_minmax.induct) (auto simp: hd_append)

lemma rb_climb_prev_last: "rb_climb_prev path = (if lefts path = [] then None else Some (last (lefts path)))"
  by (induction path rule: rb_climb_prev.induct) auto

lemma rb_climb_next_hd: "rb_climb_next path = (if rights path = [] then None else Some (hd (rights path)))"
  by (induction path rule: rb_climb_next.induct) auto

lemma inorder_Nil_iff [simp]: "inorder t = [] \<longleftrightarrow> t = Null"
  by (cases t) auto

lemma distinct_split_unique:
  assumes "distinct (ys @ x # zs)" "ys @ x # zs = ys' @ x # zs'"
  shows "ys = ys' \<and> zs = zs'"
proof -
  have "x \<notin> set ys" "x \<notin> set zs" using assms(1) by auto
  then show ?thesis using append_Cons_eq_iff [of x ys zs ys' zs'] assms(2) by simp
qed

lemma rb_focus_inorder:
  assumes "distinct (inorder t)" "inorder t = ys @ x # zs"
  obtains path c l r where "rb_focus x t [] = Some (path, Node c l x r)"
    "ys = lefts path @ inorder l" "zs = inorder r @ rights path"
proof -
  have "x \<in> set (inorder t)" using assms by simp
  then obtain path t0 where foc: "rb_focus x t [] = Some (path, t0)"
    using rb_focus_some by fastforce
  obtain c l r where t0: "t0 = Node c l x r" using rb_focus_plug [OF foc] by blast
  have "inorder t = (lefts path @ inorder l) @ x # (inorder r @ rights path)"
    using rb_focus_plug [OF foc] t0 inorder_plug [of path t0] by simp
  then show thesis using that foc t0 distinct_split_unique assms by metis
qed

lemma rb_prev_correct:
  assumes "distinct (inorder t)" "inorder t = ys @ x # zs"
  shows "rb_prev x t = (if ys = [] then None else Some (last ys))"
proof -
  obtain path c l r where f: "rb_focus x t [] = Some (path, Node c l x r)"
    "ys = lefts path @ inorder l" "zs = inorder r @ rights path"
    using rb_focus_inorder [OF assms] .
  then show ?thesis
    by (auto simp: rb_prev_def rb_minmax_max rb_climb_prev_last)
qed

lemma rb_next_correct:
  assumes "distinct (inorder t)" "inorder t = ys @ x # zs"
  shows "rb_next x t = (if zs = [] then None else Some (hd zs))"
proof -
  obtain path c l r where f: "rb_focus x t [] = Some (path, Node c l x r)"
    "ys = lefts path @ inorder l" "zs = inorder r @ rights path"
    using rb_focus_inorder [OF assms] .
  then show ?thesis
    by (auto simp: rb_next_def rb_minmax_min rb_climb_next_hd)
qed

section \<open>The interface of an ordered index\<close>

text \<open>
  What the memory manager relies on: a container with a sequence of elements, searched with a
  comparison that is ascending along the sequence.
\<close>

locale ordered_index =
  fixes elems :: "'t \<Rightarrow> 'a list"
    and ok :: "'t \<Rightarrow> bool"
    and find :: "('a \<Rightarrow> int) \<Rightarrow> 't \<Rightarrow> 'a option"
    and ins :: "('a \<Rightarrow> 'a \<Rightarrow> int) \<Rightarrow> 'a \<Rightarrow> 't \<Rightarrow> ('a option \<times> 't) option"
    and del :: "'a \<Rightarrow> 't \<Rightarrow> 't option"
    and prev :: "'a \<Rightarrow> 't \<Rightarrow> 'a option"
  assumes find_law: "rank_sorted k (elems t) \<Longrightarrow>
      (case find k t of None \<Rightarrow> \<forall>y \<in> set (elems t). k y \<noteq> 0
                      | Some y \<Rightarrow> y \<in> set (elems t) \<and> k y = 0)"
    and ins_new: "ok t \<Longrightarrow> rank_sorted (cmp x) (elems t) \<Longrightarrow> \<forall>y \<in> set (elems t). cmp x y \<noteq> 0 \<Longrightarrow>
      \<exists>t'. ins cmp x t = Some (None, t') \<and> ok t' \<and>
        elems t' = filter (\<lambda>y. 0 < cmp x y) (elems t) @ x # filter (\<lambda>y. cmp x y < 0) (elems t)"
    and ins_dup: "rank_sorted (cmp x) (elems t) \<Longrightarrow> y \<in> set (elems t) \<Longrightarrow> cmp x y = 0 \<Longrightarrow>
      \<exists>z \<in> set (elems t). cmp x z = 0 \<and> ins cmp x t = Some (Some z, t)"
    and del_law: "ok t \<Longrightarrow> x \<in> set (elems t) \<Longrightarrow>
      \<exists>t' ys zs. del x t = Some t' \<and> ok t' \<and> elems t = ys @ x # zs \<and> elems t' = ys @ zs"
    and prev_law: "distinct (elems t) \<Longrightarrow> elems t = ys @ x # zs \<Longrightarrow>
      prev x t = (if ys = [] then None else Some (last ys))"
begin

lemma rank_sorted_partition:
  assumes "rank_sorted k xs" "\<forall>y \<in> set xs. k y \<noteq> 0"
  shows "xs = filter (\<lambda>y. 0 < k y) xs @ filter (\<lambda>y. k y < 0) xs"
  using assms
proof (induction xs)
  case (Cons y ys)
  have "rank_sorted k ys" "\<forall>z \<in> set ys. sgn (k z) \<le> sgn (k y)"
    using Cons.prems(1) by (simp_all add: rank_sorted_def)
  moreover have "filter (\<lambda>y. 0 < k y) ys = []" "filter (\<lambda>y. k y < 0) ys = ys" if "k y < 0"
    using that \<open>\<forall>z \<in> set ys. sgn (k z) \<le> sgn (k y)\<close>
    by (auto simp: filter_empty_conv filter_id_conv sgn_if split: if_splits)
  ultimately show ?case using Cons by (cases "0 < k y") auto
qed simp

lemma find_none_iff:
  "rank_sorted k (elems t) \<Longrightarrow> find k t = None \<longleftrightarrow> (\<forall>y \<in> set (elems t). k y \<noteq> 0)"
  using find_law [of k t] by (cases "find k t") auto

lemma find_some:
  "rank_sorted k (elems t) \<Longrightarrow> find k t = Some y \<Longrightarrow> y \<in> set (elems t) \<and> k y = 0"
  using find_law [of k t] by simp

lemma find_unique:
  assumes "rank_sorted k (elems t)" "y \<in> set (elems t)" "k y = 0"
    and "\<And>z. z \<in> set (elems t) \<Longrightarrow> k z = 0 \<Longrightarrow> z = y"
  shows "find k t = Some y"
proof (cases "find k t")
  case None
  then show ?thesis using find_none_iff [OF assms(1)] assms(2,3) by blast
next
  case (Some z)
  then show ?thesis using find_some [OF assms(1) Some] assms(4) by blast
qed

text \<open>A sequence split around the position where a new element goes.\<close>

lemma ins_split:
  assumes "ok t" "elems t = ys @ zs" "\<forall>y \<in> set ys. 0 < cmp x y" "\<forall>z \<in> set zs. cmp x z < 0"
  shows "\<exists>t'. ins cmp x t = Some (None, t') \<and> ok t' \<and> elems t' = ys @ x # zs"
proof -
  have "rank_sorted (cmp x) (elems t)" "\<forall>y \<in> set (elems t). cmp x y \<noteq> 0"
    using rank_sorted_split [OF assms(3,4)] assms(2-4) by auto
  moreover have "filter (\<lambda>y. 0 < cmp x y) ys = ys" "filter (\<lambda>y. 0 < cmp x y) zs = []"
    "filter (\<lambda>y. cmp x y < 0) ys = []" "filter (\<lambda>y. cmp x y < 0) zs = zs"
    using assms(3,4) by (auto simp: filter_id_conv filter_empty_conv)
  ultimately show ?thesis using ins_new [of t cmp x] assms(1,2) by auto
qed

lemma ins_new_insort:
  assumes "ok t" "rank_sorted (cmp x) (elems t)" "\<forall>y \<in> set (elems t). cmp x y \<noteq> 0"
  shows "\<exists>t' ys zs. ins cmp x t = Some (None, t') \<and> ok t' \<and> elems t = ys @ zs \<and>
           elems t' = ys @ x # zs \<and> (\<forall>y \<in> set ys. 0 < cmp x y) \<and> (\<forall>z \<in> set zs. cmp x z < 0)"
proof -
  let ?P = "\<lambda>y. 0 < cmp x y" and ?N = "\<lambda>y. cmp x y < 0"
  have "elems t = filter ?P (elems t) @ filter ?N (elems t)"
    by (rule rank_sorted_partition [OF assms(2,3)])
  moreover obtain t' where "ins cmp x t = Some (None, t')" "ok t'"
    "elems t' = filter ?P (elems t) @ x # filter ?N (elems t)"
    using ins_new [of t cmp x] assms by blast
  ultimately show ?thesis
    by (intro exI [of _ t'] exI [of _ "filter ?P (elems t)"] exI [of _ "filter ?N (elems t)"]) simp
qed

lemma del_distinct:
  assumes "ok t" "distinct (elems t)" "elems t = ys @ x # zs"
  shows "\<exists>t'. del x t = Some t' \<and> ok t' \<and> elems t' = ys @ zs"
proof -
  obtain t' ys' zs' where d: "del x t = Some t'" "ok t'" "elems t = ys' @ x # zs'" "elems t' = ys' @ zs'"
    using del_law [OF assms(1), of x] assms(3) by auto
  then have "ys = ys'" "zs = zs'" using distinct_split_unique [of ys x zs ys' zs'] assms(2,3) by auto
  then show ?thesis using d by simp
qed

end

interpretation rb: ordered_index inorder rb_tree_ok rb_find rb_insert rb_remove rb_prev
proof (unfold_locales, goal_cases)
  case (1 k t)
  then show ?case by (rule rb_find_correct)
next
  case (2 t cmp x)
  then show ?case by (rule rb_insert_new)
next
  case (3 cmp x t y)
  then show ?case by (rule rb_insert_dup)
next
  case (4 t x)
  then show ?case by (rule rb_remove_ok)
next
  case (5 t ys x zs)
  then show ?case by (rule rb_prev_correct)
qed

section \<open>Properties\<close>

text \<open>
  C20: \<open>RB_INSERT\<close> of an element that compares equal to none never dereferences \<open>NULL\<close>, keeps the
  colour and height invariants, and puts the element between the elements below it and those
  above it without changing their order.
\<close>

theorem rb_insert_spec:
  assumes "rb_tree_ok t" "rank_sorted (cmp x) (inorder t)" "\<forall>y \<in> set (inorder t). cmp x y \<noteq> 0"
  shows "\<exists>t' ys zs. rb_insert cmp x t = Some (None, t') \<and> rb_tree_ok t' \<and> inorder t = ys @ zs \<and>
           inorder t' = ys @ x # zs \<and> (\<forall>y \<in> set ys. 0 < cmp x y) \<and> (\<forall>z \<in> set zs. cmp x z < 0)"
  using assms by (rule rb.ins_new_insort)

theorem rb_insert_spec_witness:
  "\<exists>t' ys zs. rb_insert (\<lambda>x y. int x - int y) 25
        (Node RB_BLACK (Node RB_RED Null 10 Null) 20 (Node RB_RED Null 30 Null)) = Some (None, t') \<and>
     rb_tree_ok t' \<and> [10, 20, 30] = ys @ zs \<and> inorder t' = ys @ 25 # zs \<and>
     (\<forall>y \<in> set ys. 0 < int 25 - int y) \<and> (\<forall>z \<in> set zs. int 25 - int z < 0)"
  using rb_insert_spec [of "Node RB_BLACK (Node RB_RED Null 10 Null) 20 (Node RB_RED Null 30 Null)"
      "\<lambda>x y. int x - int y" 25]
  by (simp add: rb_tree_ok_def rank_sorted_def)

text \<open>
  C19: \<open>RB_REMOVE\<close> of an element of the tree never dereferences \<open>NULL\<close>, keeps the colour and height
  invariants and takes exactly that element out of the in-order sequence.
\<close>

theorem rb_remove_spec:
  assumes "rb_tree_ok t" "distinct (inorder t)" "x \<in> set (inorder t)"
  shows "\<exists>t'. rb_remove x t = Some t' \<and> rb_tree_ok t' \<and> inorder t' = remove1 x (inorder t)"
proof -
  obtain ys zs where i: "inorder t = ys @ x # zs" using assms(3) by (meson split_list)
  moreover have "x \<notin> set ys" using assms(2) i by simp
  ultimately show ?thesis using rb.del_distinct [OF assms(1,2) i] by simp
qed

theorem rb_remove_spec_witness:
  "\<exists>t'. rb_remove (20 :: nat) (Node RB_BLACK (Node RB_BLACK Null 10 Null) 20 (Node RB_BLACK Null 30 Null)) = Some t' \<and>
     rb_tree_ok t' \<and> inorder t' = [10, 30]"
  using rb_remove_spec [of "Node RB_BLACK (Node RB_BLACK Null 10 Null) 20 (Node RB_BLACK Null 30 Null)" "20 :: nat"]
  by (simp add: rb_tree_ok_def)

end
