(* ===== verification/Errno.thy ===== *)
theory Errno
  imports Prelude
begin

text \<open>
  The constant tables of \<open>include/linux/const.h\<close> and the error-number table of
  \<open>include/linux/errno.h\<close>.  A table is the list of its \<open>DECL_LINUX\<close>, \<open>DECL_ALIAS\<close> and
  \<open>FROM_DARWN\<close> lines; the two functions that \<open>DECLARE_CMAP_FUNC\<close> generates from it are one
  switch over that list each.  The Darwin numbers are those of Darwin's \<open>errno.h\<close>.
  \<open>syswrap\<close> of \<open>include/common.h\<close> turns a failed host call into a negated Linux number.
\<close>

section \<open>Constant tables (include/linux/const.h)\<close>

text \<open>
  \<open>LINUX_SPECIFIC k\<close> is the \<open>k\<close>-th use of that macro in a table.  Its value is \<open>-10\<close> minus
  the preprocessor counter, which starts at some number \<open>c\<close> for each expansion of the table.
\<close>

datatype darwin_const = Darwin int | LINUX_SPECIFIC nat

datatype const_decl =
    Decl_Linux int darwin_const
  | Decl_Alias int
  | From_Darwn int int

primrec darwin_value :: "nat \<Rightarrow> darwin_const \<Rightarrow> int" where
  "darwin_value c (Darwin v) = v"
| "darwin_value c (LINUX_SPECIFIC k) = - 10 - int (c + k)"

fun linux_to_darwin :: "nat \<Rightarrow> const_decl list \<Rightarrow> int \<Rightarrow> int" where
  "linux_to_darwin c [] v = - 1"
| "linux_to_darwin c (Decl_Linux l d # ds) v = (if v = l then darwin_value c d else linux_to_darwin c ds v)"
| "linux_to_darwin c (Decl_Alias l # ds) v = linux_to_darwin c ds v"
| "linux_to_darwin c (From_Darwn l d # ds) v = linux_to_darwin c ds v"

fun darwin_to_linux :: "nat \<Rightarrow> const_decl list \<Rightarrow> int \<Rightarrow> int" where
  "darwin_to_linux c [] v = - 1"
| "darwin_to_linux c (Decl_Linux l d # ds) v = (if v = darwin_value c d then l else darwin_to_linux c ds v)"
| "darwin_to_linux c (Decl_Alias l # ds) v = darwin_to_linux c ds v"
| "darwin_to_linux c (From_Darwn l d # ds) v = (if v = d then l else darwin_to_linux c ds v)"

text \<open>The linux numbers that have a Darwin counterpart, and the host numbers the table knows.\<close>

fun shared_consts :: "const_decl list \<Rightarrow> int list" where
  "shared_consts [] = []"
| "shared_consts (Decl_Linux l (Darwin d) # ds) = l # shared_consts ds"
| "shared_consts (_ # ds) = shared_consts ds"

fun linux_consts :: "const_decl list \<Rightarrow> int list" where
  "linux_consts [] = []"
| "linux_consts (Decl_Linux l d # ds) = l # linux_consts ds"
| "linux_consts (_ # ds) = linux_consts ds"

fun host_consts :: "const_decl list \<Rightarrow> int list" where
  "host_consts [] = []"
| "host_consts (Decl_Linux l (Darwin d) # ds) = d # host_consts ds"
| "host_consts (From_Darwn l d # ds) = d # host_consts ds"
| "host_consts (_ # ds) = host_consts ds"

lemma darwin_to_linux_counter:
  "- 10 < v \<Longrightarrow> darwin_to_linux c ds v = darwin_to_linux c' ds v"
proof (induction c ds v rule: darwin_to_linux.induct)
  case (2 c l d ds v)
  then show ?case by (cases d) auto
qed auto

lemma darwin_to_linux_unknown:
  "- 10 < v \<Longrightarrow> v \<notin> set (host_consts ds) \<Longrightarrow> darwin_to_linux c ds v = - 1"
proof (induction c ds v rule: darwin_to_linux.induct)
  case (2 c l d ds v)
  then show ?case by (cases d) auto
qed auto

text \<open>
  The two generated switches agree on shared constants when no number is declared twice: the
  general reason why the tables of the sources convert back and forth.
\<close>

lemma darwin_to_linux_of_shared:
  assumes "distinct (linux_consts ds)" "distinct (host_consts ds)" "\<forall>d \<in> set (host_consts ds). - 10 < d"
    and "v \<in> set (shared_consts ds)"
  shows "darwin_to_linux c ds (linux_to_darwin c' ds v) = v \<and> linux_to_darwin c' ds v \<in> set (host_consts ds)"
  using assms
proof (induction ds)
  case (Cons e ds)
  have sub: "v \<in> set (shared_consts xs) \<Longrightarrow> v \<in> set (linux_consts xs)" for xs
    by (induction xs rule: shared_consts.induct) auto
  show ?case
  proof (cases e)
    case (Decl_Linux l d)
    show ?thesis
    proof (cases d)
      case (Darwin x)
      then show ?thesis using Cons Decl_Linux sub [of ds] by auto
    next
      case (LINUX_SPECIFIC k)
      have "v \<noteq> l" using Cons.prems Decl_Linux LINUX_SPECIFIC sub [of ds] by auto
      then show ?thesis using Cons Decl_Linux LINUX_SPECIFIC by auto
    qed
  next
    case (From_Darwn l d)
    then show ?thesis using Cons by auto
  qed (use Cons in auto)
qed simp

section \<open>Error numbers (include/linux/errno.h)\<close>

definition LINUX_ERRNO :: "const_decl list" where
  "LINUX_ERRNO =
  [Decl_Linux 1 (Darwin 1), Decl_Linux 2 (Darwin 2), Decl_Linux 3 (Darwin 3),
   Decl_Linux 4 (Darwin 4), Decl_Linux 5 (Darwin 5), Decl_Linux 6 (Darwin 6),
   Decl_Linux 7 (Darwin 7), Decl_Linux 8 (Darwin 8), Decl_Linux 9 (Darwin 9),
   Decl_Linux 10 (Darwin 10), Decl_Linux 11 (Darwin 35), Decl_Linux 12 (Darwin 12),
   Decl_Linux 13 (Darwin 13), Decl_Linux 14 (Darwin 14), Decl_Linux 15 (Darwin 15),
   Decl_Linux 16 (Darwin 16), Decl_Linux 17 (Darwin 17), Decl_Linux 18 (Darwin 18),
   Decl_Linux 19 (Darwin 19), Decl_Linux 20 (Darwin 20), Decl_Linux 21 (Darwin 21),
   Decl_Linux 22 (Darwin 22), Decl_Linux 23 (Darwin 23), Decl_Linux 24 (Darwin 24),
   Decl_Linux 25 (Darwin 25), Decl_Linux 26 (Darwin 26), Decl_Linux 27 (Darwin 27),
   Decl_Linux 28 (Darwin 28), Decl_Linux 29 (Darwin 29), Decl_Linux 30 (Darwin 30),
   Decl_Linux 31 (Darwin 31), Decl_Linux 32 (Darwin 32), Decl_Linux 33 (Darwin 33),
   Decl_Linux 34 (Darwin 34), Decl_Linux 35 (Darwin 11), Decl_Linux 36 (Darwin 63),
   Decl_Linux 37 (Darwin 77), Decl_Linux 38 (Darwin 78), Decl_Linux 39 (Darwin 66),
   Decl_Linux 40 (Darwin 62), Decl_Alias 11, Decl_Linux 42 (Darwin 91),
   Decl_Linux 43 (Darwin 90), Decl_Linux 44 (LINUX_SPECIFIC 0), Decl_Linux 45 (LINUX_SPECIFIC 1),
   Decl_Linux 46 (LINUX_SPECIFIC 2), Decl_Linux 47 (LINUX_SPECIFIC 3),
   Decl_Linux 48 (LINUX_SPECIFIC 4), Decl_Linux 49 (LINUX_SPECIFIC 5),
   Decl_Linux 50 (LINUX_SPECIFIC 6), Decl_Linux 51 (LINUX_SPECIFIC 7),
   Decl_Linux 52 (LINUX_SPECIFIC 8), Decl_Linux 53 (LINUX_SPECIFIC 9),
   Decl_Linux 54 (LINUX_SPECIFIC 10), Decl_Linux 55 (LINUX_SPECIFIC 11),
   Decl_Linux 56 (LINUX_SPECIFIC 12), Decl_Linux 57 (LINUX_SPECIFIC 13), Decl_Alias 35,
   Decl_Linux 59 (LINUX_SPECIFIC 14), Decl_Linux 60 (Darwin 99), Decl_Linux 61 (Darwin 96),
   Decl_Linux 62 (Darwin 101), Decl_Linux 63 (Darwin 98), Decl_Linux 64 (LINUX_SPECIFIC 15),
   Decl_Linux 65 (LINUX_SPECIFIC 16), Decl_Linux 66 (Darwin 71), Decl_Linux 67 (Darwin 97),
   Decl_Linux 68 (LINUX_SPECIFIC 17), Decl_Linux 69 (LINUX_SPECIFIC 18),
   Decl_Linux 70 (LINUX_SPECIFIC 19), Decl_Linux 71 (Darwin 100), Decl_Linux 72 (Darwin 95),
   Decl_Linux 73 (LINUX_SPECIFIC 20), Decl_Linux 74 (Darwin 94), Decl_Linux 75 (Darwin 84),
   Decl_Linux 76 (LINUX_SPECIFIC 21), Decl_Linux 77 (LINUX_SPECIFIC 22),
   Decl_Linux 78 (LINUX_SPECIFIC 23), Decl_Linux 79 (LINUX_SPECIFIC 24),
   Decl_Linux 80 (LINUX_SPECIFIC 25), Decl_Linux 81 (LINUX_SPECIFIC 26),
   Decl_Linux 82 (LINUX_SPECIFIC 27), Decl_Linux 83 (LINUX_SPECIFIC 28),
   Decl_Linux 84 (Darwin 92), Decl_Linux 85 (LINUX_SPECIFIC 29),
   Decl_Linux 86 (LINUX_SPECIFIC 30), Decl_Linux 87 (Darwin 68), Decl_Linux 88 (Darwin 38),
   Decl_Linux 89 (Darwin 39), Decl_Linux 90 (Darwin 40), Decl_Linux 91 (Darwin 41),
   Decl_Linux 92 (Darwin 42), Decl_Linux 93 (Darwin 43), Decl_Linux 94 (Darwin 44),
   Decl_Linux 95 (Darwin 102), Decl_Alias 95, Decl_Linux 96 (Darwin 46),
   Decl_Linux 97 (Darwin 47), Decl_Linux 98 (Darwin 48), Decl_Linux 99 (Darwin 49),
   Decl_Linux 100 (Darwin 50), Decl_Linux 101 (Darwin 51), Decl_Linux 102 (Darwin 52),
   Decl_Linux 103 (Darwin 53), Decl_Linux 104 (Darwin 54), Decl_Linux 105 (Darwin 55),
   Decl_Linux 106 (Darwin 56), Decl_Linux 107 (Darwin 57), Decl_Linux 108 (Darwin 58),
   Decl_Linux 109 (Darwin 59), Decl_Linux 110 (Darwin 60), Decl_Linux 111 (Darwin 61),
   Decl_Linux 112 (Darwin 64), Decl_Linux 113 (Darwin 65), Decl_Linux 114 (Darwin 37),
   Decl_Linux 115 (Darwin 36), Decl_Linux 116 (Darwin 70), Decl_Linux 117 (LINUX_SPECIFIC 31),
   Decl_Linux 118 (LINUX_SPECIFIC 32), Decl_Linux 119 (LINUX_SPECIFIC 33),
   Decl_Linux 120 (LINUX_SPECIFIC 34), Decl_Linux 121 (LINUX_SPECIFIC 35),
   Decl_Linux 122 (Darwin 69), Decl_Linux 123 (LINUX_SPECIFIC 36),
   Decl_Linux 124 (LINUX_SPECIFIC 37), Decl_Linux 125 (Darwin 89),
   Decl_Linux 126 (LINUX_SPECIFIC 38), Decl_Linux 127 (LINUX_SPECIFIC 39),
   Decl_Linux 128 (LINUX_SPECIFIC 40), Decl_Linux 129 (LINUX_SPECIFIC 41),
   Decl_Linux 130 (Darwin 105), Decl_Linux 131 (Darwin 104), Decl_Linux 132 (LINUX_SPECIFIC 42),
   Decl_Linux 133 (LINUX_SPECIFIC 43), From_Darwn 1 79, From_Darwn 1 80, From_Darwn 1 81,
   From_Darwn 8 85, From_Darwn 8 86, From_Darwn 8 88, From_Darwn 61 93, From_Darwn 1 103,
   From_Darwn 1 72]"

definition darwin_to_linux_errno :: "int \<Rightarrow> int" where
  "darwin_to_linux_errno v = darwin_to_linux 0 LINUX_ERRNO v"

definition linux_to_darwin_errno :: "int \<Rightarrow> int" where
  "linux_to_darwin_errno v = linux_to_darwin 0 LINUX_ERRNO v"

text \<open>
  \<open>syswrap\<close> (include/common.h): the host call's result and the value it left in \<open>errno\<close>,
  which is cleared before the call.
\<close>

definition syswrap :: "int \<Rightarrow> int \<Rightarrow> int" where
  "syswrap sys_ret errno =
    (if sys_ret < 0 \<and> errno \<noteq> 0 then - darwin_to_linux_errno errno else sys_ret)"

section \<open>Properties\<close>

lemma LINUX_ERRNO_linux_distinct: "distinct (linux_consts LINUX_ERRNO)"
  unfolding LINUX_ERRNO_def by code_simp

lemma LINUX_ERRNO_host_distinct: "distinct (host_consts LINUX_ERRNO)"
  unfolding LINUX_ERRNO_def by code_simp

lemma LINUX_ERRNO_host_pos: "\<forall>d \<in> set (host_consts LINUX_ERRNO). 0 < d"
  unfolding LINUX_ERRNO_def by code_simp

lemma darwin_to_linux_known:
  "v \<in> set (host_consts ds) \<Longrightarrow> - 10 < v \<Longrightarrow>
     \<exists>l \<in> set (linux_consts ds) \<union> {l. \<exists>d. From_Darwn l d \<in> set ds}. darwin_to_linux c ds v = l"
proof (induction c ds v rule: darwin_to_linux.induct)
  case (2 c l d ds v)
  then show ?case by (cases d) auto
qed auto

lemma LINUX_ERRNO_range:
  "\<forall>l \<in> set (linux_consts LINUX_ERRNO). 1 \<le> l \<and> l \<le> 133"
  "\<forall>e \<in> set LINUX_ERRNO. case e of From_Darwn l d \<Rightarrow> 1 \<le> l \<and> l \<le> 133 | _ \<Rightarrow> True"
  unfolding LINUX_ERRNO_def by code_simp+

text \<open>
  Every Linux error number that has a Darwin counterpart is converted to it and back without
  loss: the two switches generated from the table are inverse on the shared numbers.
\<close>

theorem errno_roundtrip:
  assumes "v \<in> set (shared_consts LINUX_ERRNO)"
  shows "darwin_to_linux_errno (linux_to_darwin_errno v) = v"
  using darwin_to_linux_of_shared [OF LINUX_ERRNO_linux_distinct LINUX_ERRNO_host_distinct _ assms]
    LINUX_ERRNO_host_pos
  unfolding darwin_to_linux_errno_def linux_to_darwin_errno_def by force

theorem errno_roundtrip_witness:
  "linux_to_darwin_errno 35 = 11 \<and> darwin_to_linux_errno (linux_to_darwin_errno 35) = 35"
proof -
  have "35 \<in> set (shared_consts LINUX_ERRNO)" unfolding LINUX_ERRNO_def by code_simp
  moreover have "linux_to_darwin_errno 35 = 11"
    unfolding linux_to_darwin_errno_def LINUX_ERRNO_def by code_simp
  ultimately show ?thesis using errno_roundtrip by blast
qed

lemma syswrap_error:
  assumes "e \<in> set (host_consts LINUX_ERRNO)" "r < 0"
  shows "- 133 \<le> syswrap r e \<and> syswrap r e \<le> - 1"
proof -
  have pos: "0 < e" using assms(1) LINUX_ERRNO_host_pos by blast
  obtain l where "darwin_to_linux 0 LINUX_ERRNO e = l" "1 \<le> l" "l \<le> 133"
    using darwin_to_linux_known [OF assms(1), of 0] pos LINUX_ERRNO_range by fastforce
  then show ?thesis using pos assms(2) by (simp add: syswrap_def darwin_to_linux_errno_def)
qed

lemma syswrap_pos [simp]: "0 \<le> r \<Longrightarrow> syswrap r e = r"
  by (simp add: syswrap_def)

text \<open>
  Darwin's \<open>ENOTSUP\<close> (45) has no line in the table, since on Linux it is an alias of
  \<open>EOPNOTSUPP\<close>; the switch yields -1 and a host call that fails with it returns the positive
  value 1 to the guest, a success.
\<close>

theorem syswrap_enotsup: "syswrap (- 1) 45 = 1"
  unfolding syswrap_def darwin_to_linux_errno_def LINUX_ERRNO_def by code_simp

end
