(* ===== verification/Memory.thy ===== *)
theory Memory
  imports RBTree Errno
begin

text \<open>
  The region index of a process, \<open>src/mm/mm.c\<close>: \<open>struct mm_region\<close> and \<open>struct mm\<close> of
  \<open>include/mm.h\<close>, the comparison of regions, the lookups, \<open>split_region\<close> and
  \<open>record_region\<close>.  A region is an object of a store, named by a number that \<open>malloc\<close> never
  gave before; the red-black tree and the linked list hold such names, so a change of a region
  is seen through both.  The invariant says that tree and list hold the same regions in
  ascending order and that the regions are disjoint, page aligned and do not wrap around.
\<close>

section \<open>State\<close>

record mm_region =
  r_haddr :: haddr
  r_gaddr :: gaddr
  r_size :: "64 word"
  r_prot :: flags
  r_flags :: flags
  r_fd :: int
  r_pgoff :: int
  r_is_global :: bool

record mm =
  mm_region_tree :: "nat rb_tree"
  mm_regions :: "nat list"
  mm_store :: "nat \<Rightarrow> mm_region"
  mm_fresh :: nat
  start_brk :: gaddr
  current_brk :: gaddr
  current_mmap_top :: gaddr

definition init_mmap :: "mm \<Rightarrow> mm" where
  "init_mmap m = m\<lparr>current_mmap_top := 0xc0000000\<rparr>"

text \<open>\<open>bzero\<close> clears the structure; the store is whatever the heap holds.\<close>

definition init_mm :: "mm \<Rightarrow> mm" where
  "init_mm m =
    (init_mmap (m\<lparr>start_brk := 0, current_brk := 0, current_mmap_top := 0\<rparr>))
      \<lparr>mm_regions := [], mm_region_tree := Null\<rparr>"

section \<open>Lookups\<close>

definition region_compare :: "mm_region \<Rightarrow> mm_region \<Rightarrow> int" where
  "region_compare r1 r2 =
    (if r_gaddr r2 + r_size r2 \<le> r_gaddr r1 then 1
     else if r_gaddr r1 + r_size r1 \<le> r_gaddr r2 then - 1
     else 0)"

text \<open>The key of a lookup: a structure whose other members are zero.\<close>

definition region_key :: "gaddr \<Rightarrow> 64 word \<Rightarrow> mm_region" where
  "region_key g s = \<lparr>r_haddr = 0, r_gaddr = g, r_size = s, r_prot = 0, r_flags = 0, r_fd = 0,
     r_pgoff = 0, r_is_global = False\<rparr>"

abbreviation region_cmp :: "mm \<Rightarrow> nat \<Rightarrow> nat \<Rightarrow> int" where
  "region_cmp m i j \<equiv> region_compare (mm_store m i) (mm_store m j)"

abbreviation key_cmp :: "mm \<Rightarrow> mm_region \<Rightarrow> nat \<Rightarrow> int" where
  "key_cmp m key j \<equiv> region_compare key (mm_store m j)"

definition find_region :: "gaddr \<Rightarrow> mm \<Rightarrow> nat option" where
  "find_region g m = rb_find (key_cmp m (region_key g 1)) (mm_region_tree m)"

text \<open>The loop of \<open>find_region_range\<close> from a node down its left links.\<close>

fun walk_left :: "('a \<Rightarrow> int) \<Rightarrow> 'a rb_tree \<Rightarrow> 'a option" where
  "walk_left k Null = None"
| "walk_left k (Node c Null y r) = Some y"
| "walk_left k (Node c (Node c' l' z r') y r) =
    (if k z = 0 then walk_left k (Node c' l' z r') else Some y)"

definition find_region_range :: "gaddr \<Rightarrow> 64 word \<Rightarrow> mm \<Rightarrow> nat option" where
  "find_region_range g s m =
    (let k = key_cmp m (region_key g s) in
     case rb_find k (mm_region_tree m) of
       None \<Rightarrow> None
     | Some i \<Rightarrow> (case rb_focus i (mm_region_tree m) [] of
           None \<Rightarrow> None
         | Some (path, node) \<Rightarrow> walk_left k node))"

text \<open>\<open>guest_to_host\<close> looks in the process's regions first and then in the kernel's.\<close>

definition guest_to_host :: "mm \<Rightarrow> mm \<Rightarrow> gaddr \<Rightarrow> haddr option" where
  "guest_to_host proc_mm vkern_mm g =
    (case find_region g proc_mm of
       Some i \<Rightarrow> Some (r_haddr (mm_store proc_mm i) + g - r_gaddr (mm_store proc_mm i))
     | None \<Rightarrow> (case find_region g vkern_mm of
           Some i \<Rightarrow> Some (r_haddr (mm_store vkern_mm i) + g - r_gaddr (mm_store vkern_mm i))
         | None \<Rightarrow> None))"

definition LINUX_MAP_SHARED :: flags where "LINUX_MAP_SHARED = 0x1"

definition is_region_private :: "mm_region \<Rightarrow> bool" where
  "is_region_private r \<longleftrightarrow> r_flags r AND LINUX_MAP_SHARED = 0 \<and> r_fd r = - 1"

section \<open>Changing the index\<close>

text \<open>
  \<open>split_region\<close>: the offset is a C \<open>int\<close>, so the distance is cut to 32 bits and sign
  extended again; \<open>is_global\<close> of the new region stays what \<open>malloc\<close> returned; the result of
  \<open>RB_INSERT\<close> is ignored.
\<close>

definition split_offset :: "gaddr \<Rightarrow> gaddr \<Rightarrow> 64 word" where
  "split_offset g base = scast (ucast (g - base) :: 32 word)"

definition split_region :: "mm \<Rightarrow> nat \<Rightarrow> gaddr \<Rightarrow> mm run" where
  "split_region m i g =
    (if \<not> is_page_aligned g PAGE_4KB then Inl Assert_failed
     else
       let region = mm_store m i;
           tail = mm_fresh m;
           offset = split_offset g (r_gaddr region);
           st = (mm_store m)
             (tail := (mm_store m tail)
                \<lparr>r_haddr := r_haddr region + offset, r_gaddr := g, r_size := r_size region - offset,
                 r_prot := r_prot region, r_flags := r_flags region, r_fd := r_fd region,
                 r_pgoff := r_pgoff region\<rparr>,
              i := region\<lparr>r_size := offset\<rparr>);
           m' = m\<lparr>mm_store := st, mm_fresh := Suc tail,
                  mm_regions := insert_after tail i (mm_regions m)\<rparr>
       in case rb_insert (region_cmp m') tail (mm_region_tree m') of
            None \<Rightarrow> Inl Null_deref
          | Some (_, t) \<Rightarrow> Inr (m'\<lparr>mm_region_tree := t\<rparr>))"

definition record_region ::
  "mm \<Rightarrow> haddr \<Rightarrow> gaddr \<Rightarrow> 64 word \<Rightarrow> flags \<Rightarrow> flags \<Rightarrow> int \<Rightarrow> int \<Rightarrow> (nat \<times> mm) run" where
  "record_region m haddr g s prot mm_flags mm_fd pgoff =
    (if g = 0 then Inl Assert_failed
     else
       let region = mm_fresh m;
           m' = m\<lparr>mm_store := (mm_store m)(region :=
                    \<lparr>r_haddr = haddr, r_gaddr = g, r_size = s, r_prot = prot, r_flags = mm_flags,
                     r_fd = mm_fd, r_pgoff = pgoff, r_is_global = False\<rparr>),
                  mm_fresh := Suc region\<rparr>
       in case rb_insert (region_cmp m') region (mm_region_tree m') of
            None \<Rightarrow> Inl Null_deref
          | Some (Some _, _) \<Rightarrow> Inl Panicked
          | Some (None, t) \<Rightarrow>
              Inr (region, m'\<lparr>mm_region_tree := t,
                mm_regions := (case rb_prev region t of
                                 None \<Rightarrow> region # mm_regions m'
                               | Some prev \<Rightarrow> insert_after region prev (mm_regions m'))\<rparr>))"

text \<open>\<open>list_del\<close> and \<open>RB_REMOVE\<close> of a region, which every caller does together.\<close>

definition unlink_region :: "mm \<Rightarrow> nat \<Rightarrow> mm run" where
  "unlink_region m i =
    bind_run (deref (rb_remove i (mm_region_tree m)))
      (\<lambda>t. Inr (m\<lparr>mm_regions := remove1 i (mm_regions m), mm_region_tree := t\<rparr>))"

section \<open>Invariant\<close>

definition region_end :: "mm_region \<Rightarrow> nat" where
  "region_end r = unat (r_gaddr r) + unat (r_size r)"

definition region_ok :: "mm_region \<Rightarrow> bool" where
  "region_ok r \<longleftrightarrow> r_size r \<noteq> 0 \<and> region_end r < 2 ^ 64 \<and>
     is_page_aligned (r_gaddr r) PAGE_4KB \<and> is_page_aligned (r_size r) PAGE_4KB"

definition before :: "mm_region \<Rightarrow> mm_region \<Rightarrow> bool" where
  "before r r' \<longleftrightarrow> region_end r \<le> unat (r_gaddr r')"

text \<open>The regions of a process as the sequence the list holds.\<close>

definition regions :: "mm \<Rightarrow> mm_region list" where
  "regions m = map (mm_store m) (mm_regions m)"

definition regions_ok :: "mm_region list \<Rightarrow> bool" where
  "regions_ok rs \<longleftrightarrow> sorted_wrt before rs \<and> (\<forall>r \<in> set rs. region_ok r)"

definition mm_inv :: "mm \<Rightarrow> bool" where
  "mm_inv m \<longleftrightarrow> rb_tree_ok (mm_region_tree m) \<and> inorder (mm_region_tree m) = mm_regions m \<and>
     distinct (mm_regions m) \<and> (\<forall>i \<in> set (mm_regions m). i < mm_fresh m) \<and> regions_ok (regions m)"

section \<open>Comparison of regions in the naturals\<close>

lemma unat_end:
  assumes "unat a + unat b < 2 ^ 64"
  shows "unat (a + b :: 64 word) = unat a + unat b"
  using assms by (subst unat_add_lem [THEN iffD1]) simp_all

lemma region_ok_end: "region_ok r \<Longrightarrow> unat (r_gaddr r + r_size r) = region_end r"
  by (simp add: region_ok_def region_end_def unat_end)

lemma region_ok_pos: "region_ok r \<Longrightarrow> unat (r_gaddr r) < region_end r"
  by (simp add: region_ok_def region_end_def unat_gt_0)

lemma region_compare_nat:
  assumes "region_end key < 2 ^ 64" "region_ok r"
  shows "region_compare key r =
    (if region_end r \<le> unat (r_gaddr key) then 1
     else if region_end key \<le> unat (r_gaddr r) then - 1 else 0)"
proof -
  have "unat (r_gaddr key + r_size key) = region_end key"
    using assms(1) by (simp add: region_end_def unat_end)
  then show ?thesis
    by (simp add: region_compare_def word_le_nat_alt region_ok_end [OF assms(2)])
qed

lemma region_key_simps [simp]:
  "r_gaddr (region_key g s) = g" "r_size (region_key g s) = s"
  "region_end (region_key g s) = unat g + unat s"
  by (simp_all add: region_key_def region_end_def)

text \<open>The one-byte key of \<open>find_region\<close>, also at the last address, where its end wraps to 0.\<close>

lemma region_compare_byte:
  assumes "region_ok r"
  shows "region_compare (region_key g 1) r =
    (if region_end r \<le> unat g then 1 else if unat g < unat (r_gaddr r) then - 1 else 0)"
proof (cases "unat g + 1 < 2 ^ 64")
  case True
  then show ?thesis using region_compare_nat [of "region_key g 1" r] assms by auto
next
  case False
  then have "region_end r \<le> unat g" using assms by (simp add: region_ok_def)
  then show ?thesis
    by (simp add: region_compare_def word_le_nat_alt region_ok_end [OF assms])
qed

lemma rank_sorted_map: "rank_sorted k (map f xs) \<longleftrightarrow> rank_sorted (\<lambda>x. k (f x)) xs"
  by (simp add: rank_sorted_def sorted_wrt_map)

lemma rank_sorted_cong:
  assumes "rank_sorted k xs" "\<And>x. x \<in> set xs \<Longrightarrow> k' x = k x"
  shows "rank_sorted k' xs"
  using assms(1) unfolding rank_sorted_def
  by (rule sorted_wrt_mono_rel [rotated]) (simp add: assms(2))

lemma rank_sorted_regions:
  assumes "regions_ok rs"
    and k: "\<And>r. region_ok r \<Longrightarrow> k r = (if region_end r \<le> a then 1 else if b \<le> unat (r_gaddr r) then - 1 else (0 :: int))"
  shows "rank_sorted k rs"
  unfolding rank_sorted_def
proof (rule sorted_wrt_mono_rel)
  show "sorted_wrt before rs" using assms(1) by (simp add: regions_ok_def)
next
  fix r r' assume "r \<in> set rs" "r' \<in> set rs" "before r r'"
  then have "region_ok r" "region_ok r'" "region_end r \<le> unat (r_gaddr r')"
    using assms(1) by (simp_all add: regions_ok_def before_def)
  then show "sgn (k r') \<le> sgn (k r)"
    using region_ok_pos [of r] region_ok_pos [of r'] k [of r] k [of r'] by auto
qed

lemma rank_sorted_key:
  "regions_ok rs \<Longrightarrow> region_end key < 2 ^ 64 \<Longrightarrow> rank_sorted (region_compare key) rs"
  by (rule rank_sorted_regions [where a = "unat (r_gaddr key)" and b = "region_end key"])
    (simp_all add: region_compare_nat)

lemma rank_sorted_byte: "regions_ok rs \<Longrightarrow> rank_sorted (region_compare (region_key g 1)) rs"
  by (rule rank_sorted_regions [where a = "unat g" and b = "Suc (unat g)"])
    (simp_all add: region_compare_byte Suc_le_eq)

section \<open>Lookups are correct\<close>

definition contains :: "mm_region \<Rightarrow> gaddr \<Rightarrow> bool" where
  "contains r g \<longleftrightarrow> unat (r_gaddr r) \<le> unat g \<and> unat g < region_end r"

lemma regions_ok_disjoint:
  assumes "regions_ok (map f ids)" "i \<in> set ids" "j \<in> set ids" "contains (f i) g" "contains (f j) g"
  shows "i = j"
proof (rule ccontr)
  assume "i \<noteq> j"
  have "before (f i) (f j) \<or> before (f j) (f i)"
    using assms(1) \<open>i \<noteq> j\<close> assms(2,3)
    by (auto simp: regions_ok_def sorted_wrt_map sorted_wrt_iff_nth_less in_set_conv_nth)
      (metis linorder_neqE_nat)
  then show False using assms(4,5) by (auto simp: before_def contains_def)
qed

lemma find_region_iff:
  assumes "mm_inv m"
  shows "find_region g m = Some i \<longleftrightarrow> i \<in> set (mm_regions m) \<and> contains (mm_store m i) g"
proof -
  let ?k = "key_cmp m (region_key g 1)"
  have ok: "regions_ok (map (mm_store m) (mm_regions m))" and t: "inorder (mm_region_tree m) = mm_regions m"
    using assms by (simp_all add: mm_inv_def regions_def)
  have srt: "rank_sorted ?k (inorder (mm_region_tree m))"
    using rank_sorted_byte [OF ok, of g] by (simp add: rank_sorted_map t)
  have zero: "?k j = 0 \<longleftrightarrow> contains (mm_store m j) g" if "j \<in> set (mm_regions m)" for j
    using that ok region_compare_byte [of "mm_store m j" g]
    by (auto simp: regions_ok_def contains_def not_le not_less)
  show ?thesis
  proof
    assume "find_region g m = Some i"
    then have "i \<in> set (mm_regions m) \<and> ?k i = 0"
      using rb.find_some [OF srt, of i] by (simp add: find_region_def t)
    then show "i \<in> set (mm_regions m) \<and> contains (mm_store m i) g" using zero by blast
  next
    assume i: "i \<in> set (mm_regions m) \<and> contains (mm_store m i) g"
    show "find_region g m = Some i" unfolding find_region_def
      by (rule rb.find_unique [OF srt]) (use i zero regions_ok_disjoint [OF ok] t in auto)
  qed
qed

lemma find_region_None:
  assumes "mm_inv m"
  shows "find_region g m = None \<longleftrightarrow> (\<forall>i \<in> set (mm_regions m). \<not> contains (mm_store m i) g)"
  using find_region_iff [OF assms] by (metis not_None_eq option.distinct(1))

section \<open>Changing the index keeps the invariant\<close>

lemma unat_diff:
  assumes "unat b \<le> unat a"
  shows "unat (a - b :: 64 word) = unat a - unat b"
  using assms by (simp add: unat_sub_if_size)

text \<open>The two parts of a region cut at \<open>g\<close>.\<close>

definition region_head :: "mm_region \<Rightarrow> gaddr \<Rightarrow> mm_region" where
  "region_head r g = r\<lparr>r_size := g - r_gaddr r\<rparr>"

definition region_tail :: "mm_region \<Rightarrow> gaddr \<Rightarrow> mm_region" where
  "region_tail r g = r\<lparr>r_haddr := r_haddr r + (g - r_gaddr r), r_gaddr := g,
     r_size := r_size r - (g - r_gaddr r)\<rparr>"

definition inside :: "gaddr \<Rightarrow> mm_region \<Rightarrow> bool" where
  "inside g r \<longleftrightarrow> unat (r_gaddr r) < unat g \<and> unat g < region_end r"

lemma region_cut_gaddr [simp]:
  "r_gaddr (region_head r g) = r_gaddr r" "r_gaddr (region_tail r g) = g"
  by (simp_all add: region_head_def region_tail_def)

lemma split_offset_small:
  assumes "unat base \<le> unat g" "unat g - unat base < 2 ^ 31"
  shows "split_offset g base = g - base"
  unfolding split_offset_def
  by (rule scast_ucast_small) (use assms in \<open>simp add: unat_diff\<close>)

lemma is_page_aligned_diff:
  assumes "is_page_aligned a PAGE_4KB" "is_page_aligned b PAGE_4KB" "unat b \<le> unat a"
  shows "is_page_aligned (a - b) PAGE_4KB"
  using assms by (simp add: is_page_aligned_4KB unat_diff mod_eq_0_iff_dvd)

lemma region_cut_ok:
  assumes ok: "region_ok r" and ins: "inside g r" and al: "is_page_aligned g PAGE_4KB"
  shows "region_ok (region_head r g)" "region_ok (region_tail r g)"
    and "region_end (region_head r g) = unat g" "region_end (region_tail r g) = region_end r"
proof -
  have d: "unat (g - r_gaddr r) = unat g - unat (r_gaddr r)"
    using ins by (simp add: inside_def unat_diff)
  then have d2: "unat (r_size r - (g - r_gaddr r)) = region_end r - unat g"
    using ins by (subst unat_diff) (auto simp: inside_def region_end_def)
  show e: "region_end (region_head r g) = unat g" "region_end (region_tail r g) = region_end r"
    using ins d d2 by (simp_all add: region_head_def region_tail_def region_end_def inside_def)
  have a: "is_page_aligned (g - r_gaddr r) PAGE_4KB"
    using ok al ins by (intro is_page_aligned_diff) (auto simp: region_ok_def inside_def)
  have b: "is_page_aligned (r_size r - (g - r_gaddr r)) PAGE_4KB"
    by (rule is_page_aligned_diff [OF _ a])
      (use ok ins d in \<open>auto simp: region_ok_def inside_def region_end_def\<close>)
  show "region_ok (region_head r g)"
    using ok ins a d e(1) unat_less_64 [of g]
    by (auto simp: region_ok_def region_head_def inside_def simp flip: unat_gt_0)
  show "region_ok (region_tail r g)"
    using ok ins b al d2 e(2)
    by (auto simp: region_ok_def region_tail_def inside_def simp flip: unat_gt_0)
qed

lemma regions_ok_append:
  "regions_ok (xs @ ys) \<longleftrightarrow> regions_ok xs \<and> regions_ok ys \<and> (\<forall>x \<in> set xs. \<forall>y \<in> set ys. before x y)"
  by (auto simp: regions_ok_def sorted_wrt_append)

lemma regions_ok_Cons:
  "regions_ok (x # ys) \<longleftrightarrow> region_ok x \<and> regions_ok ys \<and> (\<forall>y \<in> set ys. before x y)"
  by (auto simp: regions_ok_def)

lemma regions_ok_mem: "regions_ok rs \<Longrightarrow> r \<in> set rs \<Longrightarrow> region_ok r"
  by (simp add: regions_ok_def)

lemma region_cmp_before:
  assumes "region_ok a" "region_ok b" "before a b"
  shows "region_compare b a = 1" "region_compare a b = - 1"
  using assms region_ok_pos [of a] region_ok_pos [of b]
  by (auto simp: region_compare_nat before_def region_ok_def)

text \<open>Linking a new region between its neighbours.\<close>

lemma link_region_ok:
  assumes ok: "rb_tree_ok (mm_region_tree m)" "inorder (mm_region_tree m) = xs @ ys"
    and new: "j \<notin> set (xs @ ys)"
    and rs: "regions_ok (map (mm_store m) (xs @ j # ys))"
  shows "\<exists>t. rb_insert (region_cmp m) j (mm_region_tree m) = Some (None, t) \<and> rb_tree_ok t \<and>
           inorder t = xs @ j # ys"
proof (rule rb.ins_split [OF ok])
  have ok': "region_ok (mm_store m y)" if "y \<in> set (xs @ j # ys)" for y
    using regions_ok_mem [OF rs] that by auto
  have bef: "\<forall>y \<in> set xs. before (mm_store m y) (mm_store m j)"
    "\<forall>y \<in> set ys. before (mm_store m j) (mm_store m y)"
    using rs by (simp_all add: regions_ok_append regions_ok_Cons)
  show "\<forall>y \<in> set xs. 0 < region_cmp m j y" using bef(1) ok' region_cmp_before(1) by simp
  show "\<forall>y \<in> set ys. region_cmp m j y < 0" using bef(2) ok' region_cmp_before(2) by simp
qed

definition split_store :: "mm \<Rightarrow> nat \<Rightarrow> gaddr \<Rightarrow> nat \<Rightarrow> mm_region" where
  "split_store m i g = (mm_store m)
     (mm_fresh m := (region_tail (mm_store m i) g)\<lparr>r_is_global := r_is_global (mm_store m (mm_fresh m))\<rparr>,
      i := region_head (mm_store m i) g)"

lemma region_global_irrelevant [simp]:
  "region_ok (r\<lparr>r_is_global := b\<rparr>) = region_ok r" "region_end (r\<lparr>r_is_global := b\<rparr>) = region_end r"
  "before (r\<lparr>r_is_global := b\<rparr>) r' = before r r'" "before r' (r\<lparr>r_is_global := b\<rparr>) = before r' r"
  by (simp_all add: region_ok_def region_end_def before_def)

lemma split_region_ok:
  assumes inv: "mm_inv m" and ids: "mm_regions m = xs @ i # ys"
    and al: "is_page_aligned g PAGE_4KB" and ins: "inside g (mm_store m i)"
    and small: "unat g - unat (r_gaddr (mm_store m i)) < 2 ^ 31"
  shows "\<exists>t. split_region m i g =
      Inr (m\<lparr>mm_store := split_store m i g, mm_fresh := Suc (mm_fresh m),
             mm_regions := xs @ i # mm_fresh m # ys, mm_region_tree := t\<rparr>) \<and>
      mm_inv (m\<lparr>mm_store := split_store m i g, mm_fresh := Suc (mm_fresh m),
             mm_regions := xs @ i # mm_fresh m # ys, mm_region_tree := t\<rparr>)"
proof -
  let ?r = "mm_store m i" and ?n = "mm_fresh m" and ?st = "split_store m i g"
  let ?m = "m\<lparr>mm_store := ?st, mm_fresh := Suc ?n, mm_regions := xs @ i # ?n # ys\<rparr>"
  have fresh: "?n \<notin> set (mm_regions m)" "i \<noteq> ?n" "distinct (xs @ i # ys)"
    using inv ids by (auto simp: mm_inv_def)
  have off: "split_offset g (r_gaddr ?r) = g - r_gaddr ?r"
    by (rule split_offset_small) (use ins small in \<open>simp_all add: inside_def\<close>)
  have keep: "map ?st xs = map (mm_store m) xs" "map ?st ys = map (mm_store m) ys"
    using fresh ids by (auto simp: split_store_def)
  have rs: "regions_ok (map (mm_store m) xs @ ?r # map (mm_store m) ys)"
    using inv ids by (simp add: mm_inv_def regions_def)
  then have r: "region_ok ?r" by (simp add: regions_ok_append regions_ok_Cons)
  note cut = region_cut_ok [OF r ins al]
  have st: "?st i = region_head ?r g" "r_gaddr (?st i) = r_gaddr ?r"
      "?st ?n = (region_tail ?r g)\<lparr>r_is_global := r_is_global (mm_store m ?n)\<rparr>" "r_gaddr (?st ?n) = g"
    using fresh(2) by (simp_all add: split_store_def region_head_def region_tail_def)
  have rs': "regions_ok (map ?st (xs @ i # ?n # ys))"
    using rs cut ins
    by (auto simp: regions_ok_append regions_ok_Cons keep st before_def inside_def)
  obtain t where t: "rb_insert (region_cmp ?m) ?n (mm_region_tree m) = Some (None, t)"
      "rb_tree_ok t" "inorder t = xs @ i # ?n # ys"
    using link_region_ok [of ?m "xs @ [i]" ys ?n] rs' inv ids fresh by (auto simp: mm_inv_def)
  have store: "(mm_store m)(?n := (mm_store m ?n)
        \<lparr>r_haddr := r_haddr ?r + (g - r_gaddr ?r), r_gaddr := g, r_size := r_size ?r - (g - r_gaddr ?r),
         r_prot := r_prot ?r, r_flags := r_flags ?r, r_fd := r_fd ?r, r_pgoff := r_pgoff ?r\<rparr>,
      i := ?r\<lparr>r_size := g - r_gaddr ?r\<rparr>) = ?st"
    by (auto simp: split_store_def region_head_def region_tail_def fun_eq_iff
        intro!: mm_region.equality)
  have after: "insert_after ?n i (mm_regions m) = xs @ i # ?n # ys"
    using fresh(3) by (simp add: ids)
  have "split_region m i g =
      (case rb_insert (region_cmp ?m) ?n (mm_region_tree ?m) of
         None \<Rightarrow> Inl Null_deref | Some (_, t) \<Rightarrow> Inr (?m\<lparr>mm_region_tree := t\<rparr>))"
    unfolding split_region_def Let_def off store after using al by simp
  then have "split_region m i g = Inr (?m\<lparr>mm_region_tree := t\<rparr>)" using t(1) by simp
  moreover have "mm_inv (?m\<lparr>mm_region_tree := t\<rparr>)"
    using t rs' fresh inv ids
    by (auto simp: mm_inv_def regions_def intro: less_SucI)
  ultimately show ?thesis by auto
qed

lemma unlink_region_ok:
  assumes inv: "mm_inv m" and ids: "mm_regions m = xs @ i # ys"
  shows "\<exists>t. unlink_region m i = Inr (m\<lparr>mm_regions := xs @ ys, mm_region_tree := t\<rparr>) \<and>
      mm_inv (m\<lparr>mm_regions := xs @ ys, mm_region_tree := t\<rparr>)"
proof -
  have "rb_tree_ok (mm_region_tree m)" "distinct (inorder (mm_region_tree m))"
    "inorder (mm_region_tree m) = xs @ i # ys" and fresh: "i \<notin> set xs"
    using inv ids by (simp_all add: mm_inv_def)
  then obtain t where t: "rb_remove i (mm_region_tree m) = Some t" "rb_tree_ok t" "inorder t = xs @ ys"
    using rb.del_distinct [of "mm_region_tree m" xs i ys] by auto
  have "regions_ok (map (mm_store m) (xs @ ys))"
    using inv ids by (auto simp: mm_inv_def regions_def regions_ok_append regions_ok_Cons)
  then have "mm_inv (m\<lparr>mm_regions := xs @ ys, mm_region_tree := t\<rparr>)"
    using inv ids t by (auto simp: mm_inv_def regions_def)
  then show ?thesis using t(1) ids fresh by (intro exI [of _ t]) (simp add: unlink_region_def)
qed

text \<open>A sequence of regions split around a new region that meets none of them.\<close>

definition disjoint_from :: "mm_region \<Rightarrow> mm_region \<Rightarrow> bool" where
  "disjoint_from r r' \<longleftrightarrow> before r r' \<or> before r' r"

lemma disjoint_cmp:
  assumes "region_ok r" "region_ok r'"
  shows "region_compare r r' = 0 \<longleftrightarrow> \<not> disjoint_from r r'"
  using assms region_ok_pos [of r] region_ok_pos [of r']
  by (auto simp: region_compare_nat disjoint_from_def before_def region_ok_def)

lemma regions_ok_insert:
  assumes "regions_ok (xs @ ys)" "region_ok r"
    and "\<forall>x \<in> set xs. before x r" "\<forall>y \<in> set ys. before r y"
  shows "regions_ok (xs @ r # ys)"
  using assms by (auto simp: regions_ok_append regions_ok_Cons)

definition new_region :: "haddr \<Rightarrow> gaddr \<Rightarrow> 64 word \<Rightarrow> flags \<Rightarrow> flags \<Rightarrow> int \<Rightarrow> int \<Rightarrow> mm_region" where
  "new_region haddr g s prot mm_flags mm_fd pgoff =
     \<lparr>r_haddr = haddr, r_gaddr = g, r_size = s, r_prot = prot, r_flags = mm_flags,
      r_fd = mm_fd, r_pgoff = pgoff, r_is_global = False\<rparr>"

lemma region_cmp_sign:
  assumes "region_ok a" "region_ok b"
  shows "0 < region_compare a b \<longleftrightarrow> before b a" "region_compare a b < 0 \<longleftrightarrow> before a b"
  using assms region_ok_pos [of a] region_ok_pos [of b]
  by (auto simp: region_compare_nat before_def region_ok_def)

lemma record_region_ok:
  fixes haddr g s prot mm_flags mm_fd pgoff
  defines "r \<equiv> new_region haddr g s prot mm_flags mm_fd pgoff"
  assumes inv: "mm_inv m" and g: "g \<noteq> 0" and ok: "region_ok r"
    and dis: "\<forall>r' \<in> set (regions m). disjoint_from r r'"
  shows "\<exists>t xs ys. mm_regions m = xs @ ys \<and>
      record_region m haddr g s prot mm_flags mm_fd pgoff =
        Inr (mm_fresh m, m\<lparr>mm_store := (mm_store m)(mm_fresh m := r), mm_fresh := Suc (mm_fresh m),
               mm_regions := xs @ mm_fresh m # ys, mm_region_tree := t\<rparr>) \<and>
      mm_inv (m\<lparr>mm_store := (mm_store m)(mm_fresh m := r), mm_fresh := Suc (mm_fresh m),
               mm_regions := xs @ mm_fresh m # ys, mm_region_tree := t\<rparr>)"
proof -
  let ?n = "mm_fresh m" and ?st = "(mm_store m)(mm_fresh m := r)"
  let ?m = "m\<lparr>mm_store := ?st, mm_fresh := Suc ?n\<rparr>"
  have fresh: "?n \<notin> set (mm_regions m)" using inv by (auto simp: mm_inv_def)
  have keep: "map ?st ids = map (mm_store m) ids" if "set ids \<subseteq> set (mm_regions m)" for ids
    using fresh that by auto
  have rs: "regions_ok (map (mm_store m) (mm_regions m))" and tr: "rb_tree_ok (mm_region_tree m)"
    and io: "inorder (mm_region_tree m) = mm_regions m" and dist: "distinct (mm_regions m)"
    using inv by (simp_all add: mm_inv_def regions_def)
  have cmp: "region_cmp ?m ?n i = region_compare r (mm_store m i)" if "i \<in> set (mm_regions m)" for i
    using that fresh by auto
  have okr: "region_ok (mm_store m i)" if "i \<in> set (mm_regions m)" for i
    using regions_ok_mem [OF rs] that by simp
  have "rank_sorted (region_compare r) (map (mm_store m) (mm_regions m))"
    using rank_sorted_key [OF rs] ok by (simp add: region_ok_def)
  then have "rank_sorted (region_cmp ?m ?n) (inorder (mm_region_tree m))"
    unfolding rank_sorted_map io by (rule rank_sorted_cong) (rule cmp)
  moreover have "\<forall>i \<in> set (inorder (mm_region_tree m)). region_cmp ?m ?n i \<noteq> 0"
    using dis okr disjoint_cmp [OF ok] cmp unfolding io regions_def by auto
  ultimately obtain t xs ys where t: "rb_insert (region_cmp ?m) ?n (mm_region_tree m) = Some (None, t)"
      "rb_tree_ok t" and xy: "mm_regions m = xs @ ys" "inorder t = xs @ ?n # ys"
      and side: "\<forall>y \<in> set xs. 0 < region_cmp ?m ?n y" "\<forall>z \<in> set ys. region_cmp ?m ?n z < 0"
    using rb.ins_new_insort [OF tr, of "region_cmp ?m" ?n] unfolding io by blast
  have "\<forall>x \<in> set (map (mm_store m) xs). before x r" "\<forall>y \<in> set (map (mm_store m) ys). before r y"
    using side cmp xy okr region_cmp_sign [OF ok] by auto
  then have rs': "regions_ok (map ?st (xs @ ?n # ys))"
    using regions_ok_insert [of "map (mm_store m) xs" "map (mm_store m) ys" r] rs ok xy(1)
      keep [of xs] keep [of ys] by (simp del: map_eq_conv)
  have dis': "distinct (xs @ ?n # ys)" using dist fresh xy by auto
  have prev: "rb_prev ?n t = (if xs = [] then None else Some (last xs))"
    using rb.prev_law [of t xs ?n ys] xy(2) dis' by simp
  have "insert_after ?n (last xs) (xs @ ys) = xs @ ?n # ys" if ne: "xs \<noteq> []"
  proof -
    obtain xs' x where x: "xs = xs' @ [x]" using ne by (cases xs rule: rev_cases) auto
    then have "x \<notin> set xs'" using dis' by simp
    then show ?thesis using insert_after_split [of x xs' ?n ys] by (simp add: x)
  qed
  then have lst: "(case rb_prev ?n t of None \<Rightarrow> ?n # mm_regions ?m
      | Some prev \<Rightarrow> insert_after ?n prev (mm_regions ?m)) = xs @ ?n # ys"
    using xy(1) by (simp add: prev)
  have "record_region m haddr g s prot mm_flags mm_fd pgoff =
      (case rb_insert (region_cmp ?m) ?n (mm_region_tree ?m) of
         None \<Rightarrow> Inl Null_deref
       | Some (Some _, _) \<Rightarrow> Inl Panicked
       | Some (None, t) \<Rightarrow> Inr (?n, ?m\<lparr>mm_region_tree := t, mm_regions :=
           (case rb_prev ?n t of None \<Rightarrow> ?n # mm_regions ?m
            | Some prev \<Rightarrow> insert_after ?n prev (mm_regions ?m))\<rparr>))"
    unfolding record_region_def Let_def r_def new_region_def using g by simp
  then have "record_region m haddr g s prot mm_flags mm_fd pgoff =
      Inr (?n, ?m\<lparr>mm_regions := xs @ ?n # ys, mm_region_tree := t\<rparr>)"
    using t(1) lst by simp
  moreover have "mm_inv (?m\<lparr>mm_regions := xs @ ?n # ys, mm_region_tree := t\<rparr>)"
  proof -
    have "\<forall>i \<in> set (xs @ ?n # ys). i < Suc ?n"
      using inv xy(1) by (auto simp: mm_inv_def intro: less_SucI)
    then show ?thesis using t(2) xy(2) dis' rs' unfolding mm_inv_def regions_def by simp
  qed
  ultimately show ?thesis using xy(1) by auto
qed

end
