(* ===== verification/Mmap.thy ===== *)
theory Mmap
  imports Memory
begin

text \<open>
  The memory system calls, \<open>src/mm/mmap.c\<close> with \<open>brk\<close>, \<open>msync\<close> and the others of
  \<open>src/mm/mm.c\<close> and the shared memory of \<open>src/mm/shm.c\<close>.  The state is the process's \<open>mm\<close>
  with the sequence of calls made to the hypervisor and to the host's memory calls; what the
  host answers to \<open>mmap\<close> and whether \<open>hv_vm_map\<close> succeeds are arguments.  The locks are not
  part of the state: every handler holds the write lock from its first to its last access.
\<close>

section \<open>State and host calls\<close>

datatype host_call =
    Hv_vm_unmap gaddr "64 word"
  | Hv_vm_map haddr gaddr "64 word" flags
  | Hv_vm_protect gaddr "64 word" flags
  | Host_munmap haddr "64 word"
  | Host_mprotect haddr "64 word" flags
  | Host_memcpy haddr haddr "64 word"
  | Host_msync haddr "64 word" flags

record vm =
  vm_mm :: mm
  vm_calls :: "host_call list"

definition call :: "host_call \<Rightarrow> vm \<Rightarrow> vm" where
  "call c v = v\<lparr>vm_calls := vm_calls v @ [c]\<rparr>"

type_synonym host_mmap = "64 word \<Rightarrow> flags \<Rightarrow> flags \<Rightarrow> int \<Rightarrow> int \<Rightarrow> int + haddr"
type_synonym hv_map = "haddr \<Rightarrow> gaddr \<Rightarrow> 64 word \<Rightarrow> flags \<Rightarrow> bool"

section \<open>Flags\<close>

definition LINUX_PROT_READ :: flags where "LINUX_PROT_READ = 0x1"
definition LINUX_PROT_WRITE :: flags where "LINUX_PROT_WRITE = 0x2"
definition LINUX_PROT_EXEC :: flags where "LINUX_PROT_EXEC = 0x4"
definition LINUX_MAP_PRIVATE :: flags where "LINUX_MAP_PRIVATE = 0x2"
definition LINUX_MAP_FIXED :: flags where "LINUX_MAP_FIXED = 0x10"
definition LINUX_MAP_ANON :: flags where "LINUX_MAP_ANON = 0x20"
definition LINUX_MAP_DENYWRITE :: flags where "LINUX_MAP_DENYWRITE = 0x800"
definition LINUX_MAP_EXECUTABLE :: flags where "LINUX_MAP_EXECUTABLE = 0x1000"
definition LINUX_MAP_NORESERVE :: flags where "LINUX_MAP_NORESERVE = 0x4000"
definition LINUX_MAP_STACK :: flags where "LINUX_MAP_STACK = 0x20000"
definition LINUX_MAP_HUGETLB :: flags where "LINUX_MAP_HUGETLB = 0x40000"
definition LINUX_MREMAP_MAYMOVE :: flags where "LINUX_MREMAP_MAYMOVE = 1"
definition LINUX_MREMAP_FIXED :: flags where "LINUX_MREMAP_FIXED = 2"
definition LINUX_MS_ASYNC :: flags where "LINUX_MS_ASYNC = 1"
definition LINUX_MS_SYNC :: flags where "LINUX_MS_SYNC = 2"
definition LINUX_MS_INVALIDATE :: flags where "LINUX_MS_INVALIDATE = 4"

text \<open>Constants of the hypervisor and of Darwin's \<open>sys/mman.h\<close>.\<close>

definition HV_MEMORY_READ :: flags where "HV_MEMORY_READ = 1"
definition HV_MEMORY_WRITE :: flags where "HV_MEMORY_WRITE = 2"
definition HV_MEMORY_EXEC :: flags where "HV_MEMORY_EXEC = 4"
definition MAP_SHARED :: flags where "MAP_SHARED = 0x1"
definition MAP_PRIVATE :: flags where "MAP_PRIVATE = 0x2"
definition MAP_ANON :: flags where "MAP_ANON = 0x1000"
definition VM_FLAGS_SUPERPAGE_SIZE_ANY :: flags where "VM_FLAGS_SUPERPAGE_SIZE_ANY = 0x10000"
definition MS_ASYNC :: flags where "MS_ASYNC = 0x1"
definition MS_INVALIDATE :: flags where "MS_INVALIDATE = 0x2"
definition MS_SYNC :: flags where "MS_SYNC = 0x10"

lemmas mman_flags = LINUX_PROT_READ_def LINUX_PROT_WRITE_def LINUX_PROT_EXEC_def
  LINUX_MAP_SHARED_def LINUX_MAP_PRIVATE_def LINUX_MAP_FIXED_def LINUX_MAP_ANON_def
  LINUX_MAP_DENYWRITE_def LINUX_MAP_EXECUTABLE_def LINUX_MAP_NORESERVE_def LINUX_MAP_STACK_def
  LINUX_MAP_HUGETLB_def LINUX_MREMAP_MAYMOVE_def LINUX_MREMAP_FIXED_def LINUX_MS_ASYNC_def
  LINUX_MS_SYNC_def LINUX_MS_INVALIDATE_def HV_MEMORY_READ_def HV_MEMORY_WRITE_def
  HV_MEMORY_EXEC_def MAP_SHARED_def MAP_PRIVATE_def MAP_ANON_def VM_FLAGS_SUPERPAGE_SIZE_ANY_def
  MS_ASYNC_def MS_INVALIDATE_def MS_SYNC_def

text \<open>\<open>if (x AND b) y |= c;\<close>, the step of every flag conversion.\<close>

definition flag_if :: "flags \<Rightarrow> flags \<Rightarrow> flags \<Rightarrow> flags \<Rightarrow> flags" where
  "flag_if x b c y = (if x AND b \<noteq> 0 then y OR c else y)"

definition hv_mflag_to_linux_mprot :: "flags \<Rightarrow> flags" where
  "hv_mflag_to_linux_mprot mflag =
    flag_if mflag HV_MEMORY_EXEC LINUX_PROT_EXEC
     (flag_if mflag HV_MEMORY_WRITE LINUX_PROT_WRITE
      (flag_if mflag HV_MEMORY_READ LINUX_PROT_READ 0))"

definition linux_mprot_to_hv_mflag :: "flags \<Rightarrow> flags" where
  "linux_mprot_to_hv_mflag mprot =
    flag_if mprot LINUX_PROT_EXEC HV_MEMORY_EXEC
     (flag_if mprot LINUX_PROT_WRITE HV_MEMORY_WRITE
      (flag_if mprot LINUX_PROT_READ HV_MEMORY_READ 0))"

definition linux_to_darwin_mflags :: "flags \<Rightarrow> flags" where
  "linux_to_darwin_mflags l_flags =
    flag_if l_flags LINUX_MAP_HUGETLB VM_FLAGS_SUPERPAGE_SIZE_ANY
     (flag_if l_flags LINUX_MAP_ANON MAP_ANON
      (flag_if l_flags LINUX_MAP_PRIVATE MAP_PRIVATE
       (flag_if l_flags LINUX_MAP_SHARED MAP_SHARED 0)))"

section \<open>The extended page table (lib/vmm.c)\<close>

definition vmm_mmap :: "hv_map \<Rightarrow> gaddr \<Rightarrow> 64 word \<Rightarrow> flags \<Rightarrow> haddr \<Rightarrow> vm \<Rightarrow> vm run" where
  "vmm_mmap hv_vm_map g s prot haddr v =
    (if \<not> is_page_aligned haddr PAGE_4KB \<or> \<not> is_page_aligned g PAGE_4KB \<or> \<not> is_page_aligned s PAGE_4KB
     then Inl Assert_failed
     else let v' = call (Hv_vm_map haddr g s prot) (call (Hv_vm_unmap g s) v) in
       if hv_vm_map haddr g s prot then Inr v' else Inl Panicked)"

definition vmm_munmap :: "gaddr \<Rightarrow> 64 word \<Rightarrow> vm \<Rightarrow> vm run" where
  "vmm_munmap g s v =
    (if \<not> is_page_aligned s PAGE_4KB then Inl Assert_failed else Inr (call (Hv_vm_unmap g s) v))"

section \<open>Unmapping\<close>

definition munmap_head :: "gaddr \<Rightarrow> nat \<Rightarrow> mm \<Rightarrow> (nat \<times> mm) run" where
  "munmap_head g overlapping m =
    (if r_gaddr (mm_store m overlapping) < g
     then bind_run (split_region m overlapping g)
       (\<lambda>m'. bind_run (deref (list_next overlapping (mm_regions m'))) (\<lambda>i. Inr (i, m')))
     else Inr (overlapping, m))"

definition munmap_cut :: "gaddr \<Rightarrow> nat \<Rightarrow> mm \<Rightarrow> mm run" where
  "munmap_cut g_end overlapping m =
    (let r = mm_store m overlapping in
     if g_end < r_gaddr r + r_size r then split_region m overlapping g_end else Inr m)"

text \<open>The loop of \<open>do_munmap\<close>; the fuel bounds the number of its passes.\<close>

fun munmap_loop :: "nat \<Rightarrow> gaddr \<Rightarrow> 64 word \<Rightarrow> nat \<Rightarrow> vm \<Rightarrow> vm run" where
  "munmap_loop 0 g s overlapping v = Inl Out_of_fuel"
| "munmap_loop (Suc n) g s overlapping v =
    (if key_cmp (vm_mm v) (region_key g s) overlapping \<noteq> 0 then Inr v
     else bind_run (munmap_head g overlapping (vm_mm v)) (\<lambda>(i, m1).
          bind_run (munmap_cut (g + s) i m1) (\<lambda>m2.
          bind_run (unlink_region m2 i) (\<lambda>m3.
          bind_run (vmm_munmap (r_gaddr (mm_store m2 i)) (r_size (mm_store m2 i)) (v\<lparr>vm_mm := m3\<rparr>)) (\<lambda>v'.
          let v'' = call (Host_munmap (r_haddr (mm_store m2 i)) (r_size (mm_store m2 i))) v' in
          case list_next i (mm_regions m2) of
            None \<Rightarrow> Inr v''
          | Some next \<Rightarrow> munmap_loop n g s next v'')))))"

definition do_munmap :: "gaddr \<Rightarrow> 64 word \<Rightarrow> vm \<Rightarrow> (int \<times> vm) run" where
  "do_munmap g sz v =
    (if \<not> is_page_aligned g PAGE_4KB then Inr (- LINUX_EINVAL, v)
     else
       let s = roundup sz (PAGE_SIZEOF PAGE_4KB) in
       case find_region_range g s (vm_mm v) of
         None \<Rightarrow> Inr (- LINUX_ENOMEM, v)
       | Some overlapping \<Rightarrow>
           bind_run (munmap_loop (length (mm_regions (vm_mm v)) + 2) g s overlapping v)
             (\<lambda>v'. Inr (0, v')))"

section \<open>Mapping\<close>

definition alloc_region :: "64 word \<Rightarrow> vm \<Rightarrow> gaddr \<times> vm" where
  "alloc_region len0 v =
    (let len = roundup len0 (PAGE_SIZEOF PAGE_4KB);
         top = current_mmap_top (vm_mm v) + len
     in (top - len, v\<lparr>vm_mm := (vm_mm v)\<lparr>current_mmap_top := top\<rparr>\<rparr>))"

definition mmap_ignored_flags :: flags where
  "mmap_ignored_flags = LINUX_MAP_DENYWRITE OR LINUX_MAP_EXECUTABLE OR LINUX_MAP_NORESERVE OR LINUX_MAP_STACK"

definition mmap_known_flags :: flags where
  "mmap_known_flags = LINUX_MAP_SHARED OR LINUX_MAP_PRIVATE OR LINUX_MAP_FIXED OR LINUX_MAP_ANON OR LINUX_MAP_HUGETLB"

definition do_mmap ::
  "host_mmap \<Rightarrow> hv_map \<Rightarrow> gaddr \<Rightarrow> 64 word \<Rightarrow> flags \<Rightarrow> flags \<Rightarrow> flags \<Rightarrow> int \<Rightarrow> int \<Rightarrow> vm \<Rightarrow> (64 word \<times> vm) run" where
  "do_mmap host_mmap hv_vm_map addr0 len0 d_prot l_prot l_flags0 fd0 offset0 v =
    (if addr0 AND 0xfff \<noteq> 0 then Inl Assert_failed
     else
       let l_flags = l_flags0 AND NOT mmap_ignored_flags;
           len = roundup len0 (PAGE_SIZEOF PAGE_4KB)
       in if l_flags AND NOT mmap_known_flags \<noteq> 0 then Inl Exited
       else
         let anon = l_flags AND LINUX_MAP_ANON \<noteq> 0;
             fd = (if anon then - 1 else fd0);
             offset = (if anon then 0 else offset0);
             (addr, v1) = (if l_flags AND LINUX_MAP_FIXED = 0 then alloc_region len v else (addr0, v))
         in case host_mmap len d_prot (linux_to_darwin_mflags l_flags) fd offset of
              Inl errno \<Rightarrow> Inr (of_int (- darwin_to_linux_errno errno), v1)
            | Inr ptr \<Rightarrow>
                bind_run (do_munmap addr len v1) (\<lambda>(_, v2).
                bind_run (record_region (vm_mm v2) ptr addr len l_prot l_flags fd (to_cint offset)) (\<lambda>(_, m3).
                bind_run (vmm_mmap hv_vm_map addr len (linux_mprot_to_hv_mflag l_prot) ptr (v2\<lparr>vm_mm := m3\<rparr>))
                  (\<lambda>v4. Inr (addr, v4)))))"

definition sys_mmap ::
  "host_mmap \<Rightarrow> hv_map \<Rightarrow> gaddr \<Rightarrow> 64 word \<Rightarrow> flags \<Rightarrow> flags \<Rightarrow> int \<Rightarrow> int \<Rightarrow> vm \<Rightarrow> (64 word \<times> vm) run" where
  "sys_mmap host_mmap hv_vm_map addr len prot flgs fd offset v =
    do_mmap host_mmap hv_vm_map addr len prot prot flgs fd offset v"

definition sys_munmap :: "gaddr \<Rightarrow> 64 word \<Rightarrow> vm \<Rightarrow> (64 word \<times> vm) run" where
  "sys_munmap g s v = bind_run (do_munmap g s v) (\<lambda>(ret, v'). Inr (of_int ret, v'))"

definition sys_brk :: "host_mmap \<Rightarrow> hv_map \<Rightarrow> 64 word \<Rightarrow> vm \<Rightarrow> (64 word \<times> vm) run" where
  "sys_brk host_mmap hv_vm_map brk0 v =
    (let brk = roundup brk0 (PAGE_SIZEOF PAGE_4KB);
         m = vm_mm v;
         set_brk = (\<lambda>v'. v'\<lparr>vm_mm := (vm_mm v')\<lparr>current_brk := brk\<rparr>\<rparr>)
     in if brk < start_brk m then Inr (start_brk m, v)
        else if brk < current_brk m then
          bind_run (do_munmap brk (current_brk m - brk) v) (\<lambda>(_, v'). Inr (brk, set_brk v'))
        else
          bind_run
            (do_mmap host_mmap hv_vm_map (current_brk m) (brk - current_brk m)
               (LINUX_PROT_READ OR LINUX_PROT_WRITE) (LINUX_PROT_READ OR LINUX_PROT_WRITE)
               (LINUX_MAP_PRIVATE OR LINUX_MAP_FIXED OR LINUX_MAP_ANON) (- 1) 0 v)
            (\<lambda>(_, v'). Inr (brk, set_brk v')))"

section \<open>Remapping and protection\<close>

definition sys_mremap ::
  "host_mmap \<Rightarrow> hv_map \<Rightarrow> gaddr \<Rightarrow> 64 word \<Rightarrow> 64 word \<Rightarrow> flags \<Rightarrow> gaddr \<Rightarrow> vm \<Rightarrow> (64 word \<times> vm) run" where
  "sys_mremap host_mmap hv_vm_map old_addr old_size0 new_size0 flgs new_addr v =
    (if flgs AND NOT (LINUX_MREMAP_FIXED OR LINUX_MREMAP_MAYMOVE) \<noteq> 0 then Inr (of_int (- LINUX_EINVAL), v)
     else if flgs AND LINUX_MREMAP_FIXED \<noteq> 0 \<and> flgs AND LINUX_MREMAP_MAYMOVE = 0
       then Inr (of_int (- LINUX_EINVAL), v)
     else if \<not> is_page_aligned old_addr PAGE_4KB then Inr (of_int (- LINUX_EINVAL), v)
     else if flgs AND LINUX_MREMAP_MAYMOVE = 0 then Inr (of_int (- LINUX_EINVAL), v)
     else if new_size0 = 0 then Inr (of_int (- LINUX_EINVAL), v)
     else
       let old_size = roundup old_size0 (PAGE_SIZEOF PAGE_4KB);
           new_size = roundup new_size0 (PAGE_SIZEOF PAGE_4KB);
           m = vm_mm v
       in case find_region old_addr m of
            None \<Rightarrow> Inr (of_int (- LINUX_EFAULT), v)
          | Some i \<Rightarrow>
              let region = mm_store m i in
              if r_gaddr region \<noteq> old_addr then Inr (of_int (- LINUX_EFAULT), v)
              else if r_size region < old_size then Inr (of_int (- LINUX_EFAULT), v)
              else if new_size \<le> old_size then
                bind_run (vmm_munmap (r_gaddr region + new_size) (r_size region - new_size)
                    (call (Host_munmap (r_haddr region + new_size) (r_size region - new_size)) v))
                  (\<lambda>v'. Inr (old_addr,
                     v'\<lparr>vm_mm := m\<lparr>mm_store := (mm_store m)(i := region\<lparr>r_size := new_size\<rparr>)\<rparr>\<rparr>))
              else (case host_mmap new_size 0 (linux_to_darwin_mflags (r_flags region)) (r_fd region) (r_pgoff region) of
                  Inl errno \<Rightarrow> Inl Panicked
                | Inr moved_to \<Rightarrow>
                    let v1 =
                      (if r_flags region AND LINUX_MAP_ANON = 0 then
                         call (Host_mprotect moved_to new_size
                           (flag_if (r_prot region) LINUX_PROT_WRITE LINUX_PROT_WRITE
                             (flag_if (r_prot region) LINUX_PROT_READ LINUX_PROT_READ 0))) v
                       else
                         call (Host_memcpy moved_to (r_haddr region) old_size)
                           (call (Host_mprotect moved_to new_size (LINUX_PROT_READ OR LINUX_PROT_WRITE)) v))
                    in bind_run (if old_size < r_size region
                                 then split_region m i (r_gaddr region + old_size) else Inr m) (\<lambda>m1.
                       bind_run (unlink_region m1 i) (\<lambda>m2.
                       let r1 = mm_store m1 i in
                       bind_run (vmm_munmap (r_gaddr r1) (r_size r1)
                           (call (Host_munmap (r_haddr r1) (r_size r1)) (v1\<lparr>vm_mm := m2\<rparr>))) (\<lambda>v2.
                       let (ret, v3) = alloc_region new_size v2 in
                       bind_run (record_region (vm_mm v3) moved_to ret new_size (r_prot r1) (r_flags r1)
                           (r_fd r1) (r_pgoff r1)) (\<lambda>(j, m4).
                       let new = mm_store m4 j in
                       bind_run (vmm_mmap hv_vm_map (r_gaddr new) (r_size new) (r_prot new) (r_haddr new)
                           (v3\<lparr>vm_mm := m4\<rparr>)) (\<lambda>v5. Inr (ret, v5))))))))"

text \<open>\<open>hv_vm_protect\<close>, the host's \<open>mprotect\<close> and the region's own protection, done together.\<close>

definition protect_region :: "nat \<Rightarrow> flags \<Rightarrow> flags \<Rightarrow> vm \<Rightarrow> vm" where
  "protect_region i hvprot prot v =
    (let m = vm_mm v; r = mm_store m i;
         v' = call (Host_mprotect (r_haddr r) (r_size r) prot) (call (Hv_vm_protect (r_gaddr r) (r_size r) hvprot) v)
     in v'\<lparr>vm_mm := m\<lparr>mm_store := (mm_store m)(i := r\<lparr>r_prot := hvprot\<rparr>)\<rparr>\<rparr>)"

text \<open>The loop of \<open>mprotect\<close>: \<open>Inl\<close> is the early exit with \<open>-ENOMEM\<close>.\<close>

fun mprotect_loop :: "nat \<Rightarrow> gaddr \<Rightarrow> flags \<Rightarrow> flags \<Rightarrow> nat \<Rightarrow> vm \<Rightarrow> (vm + nat \<times> vm) run" where
  "mprotect_loop 0 g_end hvprot prot i v = Inl Out_of_fuel"
| "mprotect_loop (Suc n) g_end hvprot prot i v =
    (let r = mm_store (vm_mm v) i in
     if r_gaddr r + r_size r \<le> g_end then
       let v' = protect_region i hvprot prot v in
       (case list_next i (mm_regions (vm_mm v')) of
          None \<Rightarrow> Inr (Inl v')
        | Some next \<Rightarrow>
            if r_gaddr (mm_store (vm_mm v') next) \<noteq> r_gaddr r + r_size r then Inr (Inl v')
            else mprotect_loop n g_end hvprot prot next v')
     else Inr (Inr (i, v)))"

definition sys_mprotect :: "gaddr \<Rightarrow> 64 word \<Rightarrow> flags \<Rightarrow> vm \<Rightarrow> (int \<times> vm) run" where
  "sys_mprotect addr len0 prot v =
    (if \<not> is_page_aligned addr PAGE_4KB \<or> len0 = 0 then Inr (- LINUX_EINVAL, v)
     else
       let g_end = addr + roundup len0 (PAGE_SIZEOF PAGE_4KB);
           hvprot = flag_if prot LINUX_PROT_EXEC HV_MEMORY_EXEC
             (flag_if prot LINUX_PROT_WRITE HV_MEMORY_WRITE (flag_if prot LINUX_PROT_READ HV_MEMORY_READ 0))
       in case find_region addr (vm_mm v) of
            None \<Rightarrow> Inr (- LINUX_ENOMEM, v)
          | Some i \<Rightarrow>
              bind_run
                (if r_gaddr (mm_store (vm_mm v) i) < addr then
                   bind_run (split_region (vm_mm v) i addr) (\<lambda>m1.
                   bind_run (deref (list_next i (mm_regions m1))) (\<lambda>j.
                   Inr (j, protect_region j hvprot prot (v\<lparr>vm_mm := m1\<rparr>))))
                 else Inr (i, v)) (\<lambda>(i1, v1).
              bind_run (mprotect_loop (length (mm_regions (vm_mm v1)) + 1) g_end hvprot prot i1 v1) (\<lambda>res.
              case res of
                Inl v2 \<Rightarrow> Inr (- LINUX_ENOMEM, v2)
              | Inr (j, v2) \<Rightarrow>
                  if r_gaddr (mm_store (vm_mm v2) j) < g_end then
                    bind_run (split_region (vm_mm v2) j g_end)
                      (\<lambda>m3. Inr (0, protect_region j hvprot prot (v2\<lparr>vm_mm := m3\<rparr>)))
                  else Inr (0, v2))))"

text \<open>\<open>msync\<close>: the host's answer is its result and \<open>errno\<close>.\<close>

definition sys_msync :: "(haddr \<Rightarrow> 64 word \<Rightarrow> flags \<Rightarrow> int \<times> int) \<Rightarrow> gaddr \<Rightarrow> 64 word \<Rightarrow> flags \<Rightarrow> vm \<Rightarrow> int \<times> vm" where
  "sys_msync host_msync addr len flgs v =
    (case find_region addr (vm_mm v) of
       None \<Rightarrow> (- LINUX_ENOMEM, v)
     | Some i \<Rightarrow>
         let r = mm_store (vm_mm v) i in
         if len \<le> addr - r_gaddr r \<or> r_size r < len + addr - r_gaddr r then (- LINUX_ENOMEM, v)
         else if flgs AND NOT (LINUX_MS_ASYNC OR LINUX_MS_SYNC OR LINUX_MS_INVALIDATE) \<noteq> 0
         then (- LINUX_EINVAL, v)
         else
           let dflags = flag_if flgs LINUX_MS_INVALIDATE MS_INVALIDATE
                 (flag_if flgs LINUX_MS_SYNC MS_SYNC (flag_if flgs LINUX_MS_ASYNC MS_ASYNC 0));
               h = addr - r_gaddr r + r_haddr r
           in (case host_msync h len dflags of (ret, errno) \<Rightarrow>
                 (syswrap ret errno, call (Host_msync h len dflags) v)))"

definition sys_madvise :: "gaddr \<Rightarrow> 64 word \<Rightarrow> int \<Rightarrow> int" where
  "sys_madvise addr len advice = 0"

definition sys_mlock :: "gaddr \<Rightarrow> 64 word \<Rightarrow> int" where
  "sys_mlock addr len = 0"

definition sys_munlock :: "gaddr \<Rightarrow> 64 word \<Rightarrow> int" where
  "sys_munlock addr len = 0"

section \<open>Tearing down\<close>

fun destroy_loop :: "nat list \<Rightarrow> vm \<Rightarrow> vm run" where
  "destroy_loop [] v = Inr v"
| "destroy_loop (i # is) v =
    (let r = mm_store (vm_mm v) i in
     bind_run (vmm_munmap (r_gaddr r) (r_size r) (call (Host_munmap (r_haddr r) (r_size r)) v)) (destroy_loop is))"

definition destroy_mm :: "vm \<Rightarrow> vm run" where
  "destroy_mm v = bind_run (destroy_loop (mm_regions (vm_mm v)) v)
     (\<lambda>v'. Inr (v'\<lparr>vm_mm := (vm_mm v')\<lparr>mm_region_tree := Null, mm_regions := []\<rparr>\<rparr>))"

text \<open>Mapping the memory of the kernel above the user's addresses: \<open>kmap\<close> with its static break.\<close>

definition user_addr_max :: gaddr where "user_addr_max = 0x7fc0000000"

definition kmap :: "hv_map \<Rightarrow> haddr \<Rightarrow> 64 word \<Rightarrow> flags \<Rightarrow> gaddr \<Rightarrow> vm \<Rightarrow> (gaddr \<times> gaddr \<times> vm) run" where
  "kmap hv_vm_map ptr s flgs noah_kern_brk v =
    (if s AND 0xfff \<noteq> 0 \<or> ptr AND 0xfff \<noteq> 0 then Inl Assert_failed
     else
       bind_run (record_region (vm_mm v) ptr noah_kern_brk s (hv_mflag_to_linux_mprot flgs) (- 1) (- 1) 0)
         (\<lambda>(_, m1).
       bind_run (vmm_mmap hv_vm_map noah_kern_brk s flgs ptr (v\<lparr>vm_mm := m1\<rparr>)) (\<lambda>v2.
       let brk = noah_kern_brk + s in Inr (brk - s, brk, v2))))"

section \<open>Shared memory segments (src/mm/shm.c)\<close>

definition sys_shmat ::
  "(int \<Rightarrow> int + haddr) \<Rightarrow> (int \<Rightarrow> 64 word) \<Rightarrow> hv_map \<Rightarrow> int \<Rightarrow> gaddr \<Rightarrow> flags \<Rightarrow> vm \<Rightarrow> (64 word \<times> vm) run" where
  "sys_shmat host_shmat shm_segsz hv_vm_map shmid addr shmflg v =
    (if addr \<noteq> 0 then Inr (of_int (- LINUX_ENOSYS), v)
     else if shmflg \<noteq> 0 then Inl Assert_failed
     else case host_shmat shmid of
       Inl errno \<Rightarrow> Inr (of_int (- linux_to_darwin_errno errno), v)
     | Inr ptr \<Rightarrow>
         let len = shm_segsz shmid;
             (a, v1) = alloc_region len v
         in bind_run (do_munmap a len v1) (\<lambda>(_, v2).
            bind_run (record_region (vm_mm v2) ptr a len (LINUX_PROT_READ OR LINUX_PROT_WRITE)
                (LINUX_MAP_PRIVATE OR LINUX_MAP_FIXED) (- 1) 0) (\<lambda>(_, m3).
            bind_run (vmm_mmap hv_vm_map a len (HV_MEMORY_READ OR HV_MEMORY_WRITE) ptr (v2\<lparr>vm_mm := m3\<rparr>))
              (\<lambda>v4. Inr (a, v4)))))"

section \<open>What the guest sees\<close>

text \<open>
  The abstract state of a process's memory: for each address the host address behind it and the
  protection, flags and file of its region.
\<close>

type_synonym mm_view = "gaddr \<Rightarrow> (haddr \<times> flags \<times> flags \<times> int) option"

definition cell :: "mm_region \<Rightarrow> gaddr \<Rightarrow> haddr \<times> flags \<times> flags \<times> int" where
  "cell r a = (r_haddr r + (a - r_gaddr r), r_prot r, r_flags r, r_fd r)"

definition view :: "mm \<Rightarrow> mm_view" where
  "view m a = map_option (\<lambda>i. cell (mm_store m i) a) (find_region a m)"

definition in_range :: "gaddr \<Rightarrow> gaddr \<Rightarrow> 64 word \<Rightarrow> bool" where
  "in_range a g s \<longleftrightarrow> unat g \<le> unat a \<and> unat a < unat g + unat s"

lemma view_eq:
  assumes "mm_inv m" "i \<in> set (mm_regions m)" "contains (mm_store m i) a"
  shows "view m a = Some (cell (mm_store m i) a)"
  using find_region_iff [OF assms(1), of a i] assms(2,3) by (simp add: view_def)

lemma view_None:
  assumes "mm_inv m" "\<forall>i \<in> set (mm_regions m). \<not> contains (mm_store m i) a"
  shows "view m a = None"
  using find_region_None [OF assms(1), of a] assms(2) by (simp add: view_def)

lemma view_cong:
  assumes "mm_inv m" "mm_inv m'"
    and "\<And>i. i \<in> set (mm_regions m) \<Longrightarrow> contains (mm_store m i) a \<Longrightarrow>
           \<exists>j \<in> set (mm_regions m'). contains (mm_store m' j) a \<and> cell (mm_store m' j) a = cell (mm_store m i) a"
    and "\<And>j. j \<in> set (mm_regions m') \<Longrightarrow> contains (mm_store m' j) a \<Longrightarrow>
           \<exists>i \<in> set (mm_regions m). contains (mm_store m i) a"
  shows "view m' a = view m a"
proof (cases "\<exists>i \<in> set (mm_regions m). contains (mm_store m i) a")
  case True
  then show ?thesis using assms(3) view_eq [OF assms(1)] view_eq [OF assms(2)] by metis
next
  case False
  then show ?thesis using assms(4) view_None [OF assms(1)] view_None [OF assms(2)] by metis
qed

definition same_brk :: "mm \<Rightarrow> mm \<Rightarrow> bool" where
  "same_brk m m' \<longleftrightarrow> start_brk m' = start_brk m \<and> current_brk m' = current_brk m \<and>
     current_mmap_top m' = current_mmap_top m"

lemma same_brk_refl [simp]: "same_brk m m"
  by (simp add: same_brk_def)

lemma same_brk_trans: "same_brk a b \<Longrightarrow> same_brk b c \<Longrightarrow> same_brk a c"
  by (simp add: same_brk_def)

text \<open>Regions below 2 GiB, so that the \<open>int\<close> offset of \<open>split_region\<close> is exact.\<close>

definition regions_small :: "mm_region list \<Rightarrow> bool" where
  "regions_small rs \<longleftrightarrow> (\<forall>r \<in> set rs. unat (r_size r) \<le> 2 ^ 31)"

lemma cut_cells:
  assumes "region_ok r" "inside g r"
  shows "contains (region_head r g) a \<Longrightarrow> contains r a \<and> cell (region_head r g) a = cell r a"
    and "contains (region_tail r g) a \<Longrightarrow> contains r a \<and> cell (region_tail r g) a = cell r a"
    and "contains r a \<Longrightarrow> contains (region_head r g) a \<or> contains (region_tail r g) a"
    and "unat (r_size (region_head r g)) \<le> unat (r_size r)"
    and "unat (r_size (region_tail r g)) \<le> unat (r_size r)"
proof -
  have d: "unat (g - r_gaddr r) = unat g - unat (r_gaddr r)"
    using assms(2) by (simp add: inside_def unat_diff)
  then have d2: "unat (r_size r - (g - r_gaddr r)) = region_end r - unat g"
    using assms(2) by (subst unat_diff) (auto simp: inside_def region_end_def)
  have e: "region_end (region_head r g) = unat g" "region_end (region_tail r g) = region_end r"
    using assms(2) d d2 by (simp_all add: region_head_def region_tail_def region_end_def inside_def)
  show "contains (region_head r g) a \<Longrightarrow> contains r a \<and> cell (region_head r g) a = cell r a"
    using assms(2) e by (auto simp: contains_def inside_def cell_def region_head_def)
  show "contains (region_tail r g) a \<Longrightarrow> contains r a \<and> cell (region_tail r g) a = cell r a"
    using assms(2) e by (auto simp: contains_def inside_def cell_def region_tail_def)
  show "contains r a \<Longrightarrow> contains (region_head r g) a \<or> contains (region_tail r g) a"
    using e by (auto simp: contains_def)
  show "unat (r_size (region_head r g)) \<le> unat (r_size r)"
    using assms(2) d by (auto simp: region_head_def inside_def region_end_def)
  show "unat (r_size (region_tail r g)) \<le> unat (r_size r)"
    using assms(2) d2 by (auto simp: region_tail_def inside_def region_end_def)
qed

lemma global_irrelevant [simp]:
  "contains (r\<lparr>r_is_global := b\<rparr>) a = contains r a" "cell (r\<lparr>r_is_global := b\<rparr>) a = cell r a"
  by (simp_all add: contains_def cell_def)

lemma inside_small:
  assumes "inside g r" "unat (r_size r) \<le> 2 ^ 31"
  shows "unat g - unat (r_gaddr r) < 2 ^ 31"
  using assms by (auto simp: inside_def region_end_def)

text \<open>Splitting a region changes nothing the guest sees.\<close>

lemma split_region_view:
  assumes inv: "mm_inv m" and ids: "mm_regions m = xs @ i # ys"
    and al: "is_page_aligned g PAGE_4KB" and ins: "inside g (mm_store m i)"
    and small: "regions_small (regions m)"
  shows "\<exists>m'. split_region m i g = Inr m' \<and> mm_inv m' \<and> regions_small (regions m') \<and>
      mm_regions m' = xs @ i # mm_fresh m # ys \<and> same_brk m m' \<and> view m' = view m \<and>
      mm_store m' = split_store m i g"
proof -
  let ?r = "mm_store m i" and ?n = "mm_fresh m"
  have ir: "unat (r_size ?r) \<le> 2 ^ 31" and rest: "\<forall>j \<in> set (xs @ ys). unat (r_size (mm_store m j)) \<le> 2 ^ 31"
    using small ids by (auto simp: regions_small_def regions_def)
  have ok: "region_ok ?r" using inv ids by (auto simp: mm_inv_def regions_def regions_ok_def)
  obtain t where "split_region m i g = Inr (m\<lparr>mm_store := split_store m i g, mm_fresh := Suc ?n,
        mm_regions := xs @ i # ?n # ys, mm_region_tree := t\<rparr>) \<and>
      mm_inv (m\<lparr>mm_store := split_store m i g, mm_fresh := Suc ?n,
        mm_regions := xs @ i # ?n # ys, mm_region_tree := t\<rparr>)"
    (is "_ = Inr ?m \<and> _")
    using split_region_ok [OF inv ids al ins inside_small [OF ins ir]] by blast
  then have sp: "split_region m i g = Inr ?m" and inv': "mm_inv ?m" by blast+
  have fresh: "?n \<notin> set (xs @ i # ys)" and dist: "i \<notin> set (xs @ ys)"
    using inv ids by (auto simp: mm_inv_def)
  have st: "split_store m i g i = region_head ?r g"
      "split_store m i g ?n = (region_tail ?r g)\<lparr>r_is_global := r_is_global (mm_store m ?n)\<rparr>"
      "\<And>j. j \<in> set (xs @ ys) \<Longrightarrow> split_store m i g j = mm_store m j"
    using fresh dist by (auto simp: split_store_def)
  note c = cut_cells [OF ok ins]
  have "view ?m a = view m a" for a
    by (rule view_cong [OF inv inv']) (use c st ids in auto)
  moreover have "regions_small (regions ?m)"
    using c(4,5) ir rest st(1,2) st(3) by (fastforce simp: regions_small_def regions_def)
  ultimately show ?thesis using sp inv' by (intro exI [of _ ?m]) (simp add: same_brk_def fun_eq_iff)
qed

lemma unlink_region_view:
  assumes inv: "mm_inv m" and ids: "mm_regions m = xs @ i # ys"
    and small: "regions_small (regions m)"
  shows "\<exists>m'. unlink_region m i = Inr m' \<and> mm_inv m' \<and> regions_small (regions m') \<and>
      mm_regions m' = xs @ ys \<and> same_brk m m' \<and> mm_store m' = mm_store m \<and>
      view m' = (\<lambda>a. if contains (mm_store m i) a then None else view m a)"
proof -
  obtain t where "unlink_region m i = Inr (m\<lparr>mm_regions := xs @ ys, mm_region_tree := t\<rparr>) \<and>
      mm_inv (m\<lparr>mm_regions := xs @ ys, mm_region_tree := t\<rparr>)"
    (is "_ = Inr ?m \<and> _")
    using unlink_region_ok [OF inv ids] by blast
  then have un: "unlink_region m i = Inr ?m" and inv': "mm_inv ?m" by blast+
  have dis: "contains (mm_store m i) a \<Longrightarrow> j \<in> set (xs @ ys) \<Longrightarrow> \<not> contains (mm_store m j) a" for a j
    using regions_ok_disjoint [of "mm_store m" "mm_regions m" i j a] inv ids
    by (auto simp: mm_inv_def regions_def)
  have "view ?m a = (if contains (mm_store m i) a then None else view m a)" for a
  proof (cases "contains (mm_store m i) a")
    case True
    then show ?thesis using view_None [OF inv'] dis [OF True] by simp
  next
    case False
    have "view ?m a = view m a"
      by (rule view_cong [OF inv inv']) (use False ids in auto)
    then show ?thesis using False by simp
  qed
  then show ?thesis using un inv' small ids
    by (intro exI [of _ ?m]) (auto simp: same_brk_def fun_eq_iff regions_small_def regions_def)
qed

section \<open>Unmapping\<close>

lemma region_ok_of: "mm_inv m \<Longrightarrow> i \<in> set (mm_regions m) \<Longrightarrow> region_ok (mm_store m i)"
  by (auto simp: mm_inv_def regions_def regions_ok_def)

text \<open>Between two neighbours of the list, and after the last region, nothing is mapped.\<close>

lemma view_gap:
  assumes inv: "mm_inv m" and ids: "mm_regions m = xs @ i # ys"
    and lo: "region_end (mm_store m i) \<le> unat a"
    and hi: "case ys of [] \<Rightarrow> True | j # _ \<Rightarrow> unat a < unat (r_gaddr (mm_store m j))"
  shows "view m a = None"
proof (rule view_None [OF inv], intro ballI notI)
  fix k assume k: "k \<in> set (mm_regions m)" "contains (mm_store m k) a"
  have rs: "regions_ok (map (mm_store m) (xs @ i # ys))" using inv ids by (simp add: mm_inv_def regions_def)
  consider "k \<in> set xs" | "k = i" | "k \<in> set ys" using k(1) ids by auto
  then show False
  proof cases
    case 1
    then have "region_end (mm_store m k) \<le> unat (r_gaddr (mm_store m i))" "region_ok (mm_store m i)"
      using rs by (auto simp: regions_ok_append regions_ok_Cons before_def)
    then show False using k(2) lo region_ok_pos by (fastforce simp: contains_def)
  next
    case 2
    then show False using k(2) lo by (simp add: contains_def)
  next
    case 3
    then obtain j zs where ys: "ys = j # zs" by (cases ys) auto
    have "unat (r_gaddr (mm_store m j)) \<le> unat (r_gaddr (mm_store m k))"
    proof (cases "k = j")
      case False
      then have "before (mm_store m j) (mm_store m k)" "region_ok (mm_store m j)"
        using rs 3 ys by (auto simp: regions_ok_append regions_ok_Cons)
      then show ?thesis using region_ok_pos by (fastforce simp: before_def)
    qed simp
    then show False using k(2) hi ys by (simp add: contains_def)
  qed
qed

lemma munmap_head_ok:
  assumes inv: "mm_inv m" and small: "regions_small (regions m)" and ids: "mm_regions m = xs @ i # ys"
    and al: "is_page_aligned g PAGE_4KB" and hi: "unat g < region_end (mm_store m i)"
  shows "\<exists>j m' xs'. munmap_head g i m = Inr (j, m') \<and> mm_inv m' \<and> regions_small (regions m') \<and>
      mm_regions m' = xs' @ j # ys \<and> same_brk m m' \<and> view m' = view m \<and>
      unat (r_gaddr (mm_store m' j)) = max (unat g) (unat (r_gaddr (mm_store m i))) \<and>
      region_end (mm_store m' j) = region_end (mm_store m i)"
proof (cases "r_gaddr (mm_store m i) < g")
  case True
  have ins: "inside g (mm_store m i)" using True hi by (simp add: inside_def word_less_nat_alt)
  have ok: "region_ok (mm_store m i)" using region_ok_of [OF inv] ids by simp
  have fresh: "i \<noteq> mm_fresh m" "i \<notin> set xs" using inv ids by (auto simp: mm_inv_def)
  obtain m' where m': "split_region m i g = Inr m'" "mm_inv m'" "regions_small (regions m')"
      "mm_regions m' = xs @ i # mm_fresh m # ys" "same_brk m m'" "view m' = view m"
      "mm_store m' = split_store m i g"
    using split_region_view [OF inv ids al ins small] by blast
  have "munmap_head g i m = Inr (mm_fresh m, m')"
    using True m'(1,4) fresh by (simp add: munmap_head_def)
  moreover have "mm_store m' (mm_fresh m) = (region_tail (mm_store m i) g)\<lparr>r_is_global := r_is_global (mm_store m (mm_fresh m))\<rparr>"
    using fresh by (simp add: m'(7) split_store_def)
  moreover have "mm_regions m' = (xs @ [i]) @ mm_fresh m # ys" using m'(4) by simp
  ultimately show ?thesis
    using m'(2,3,5,6) region_cut_ok(4) [OF ok ins al] True
    by (intro exI [of _ "mm_fresh m"] exI [of _ m'] exI [of _ "xs @ [i]"])
      (simp add: max_def word_less_nat_alt)
next
  case False
  then show ?thesis using assms
    by (intro exI [of _ i] exI [of _ m] exI [of _ xs])
      (simp add: munmap_head_def max_def word_less_nat_alt)
qed

lemma munmap_cut_ok:
  assumes inv: "mm_inv m" and small: "regions_small (regions m)" and ids: "mm_regions m = xs @ i # ys"
    and al: "is_page_aligned g PAGE_4KB" and lo: "unat (r_gaddr (mm_store m i)) < unat g"
  shows "\<exists>m' ys'. munmap_cut g i m = Inr m' \<and> mm_inv m' \<and> regions_small (regions m') \<and>
      mm_regions m' = xs @ i # ys' \<and> same_brk m m' \<and> view m' = view m \<and>
      r_gaddr (mm_store m' i) = r_gaddr (mm_store m i) \<and>
      region_end (mm_store m' i) = min (unat g) (region_end (mm_store m i)) \<and>
      (ys' = ys \<or> (\<exists>t. ys' = t # ys \<and> r_gaddr (mm_store m' t) = g))"
proof (cases "unat g < region_end (mm_store m i)")
  case True
  have ins: "inside g (mm_store m i)" using True lo by (simp add: inside_def)
  have ok: "region_ok (mm_store m i)" using region_ok_of [OF inv] ids by simp
  have fresh: "i \<noteq> mm_fresh m" using inv ids by (auto simp: mm_inv_def)
  obtain m' where m': "split_region m i g = Inr m'" "mm_inv m'" "regions_small (regions m')"
      "mm_regions m' = xs @ i # mm_fresh m # ys" "same_brk m m'" "view m' = view m"
      "mm_store m' = split_store m i g"
    using split_region_view [OF inv ids al ins small] by blast
  have "munmap_cut g i m = Inr m'"
    using True m'(1) by (simp add: munmap_cut_def Let_def word_less_nat_alt region_ok_end [OF ok])
  moreover have "mm_store m' i = region_head (mm_store m i) g" "r_gaddr (mm_store m' (mm_fresh m)) = g"
    using fresh by (simp_all add: m'(7) split_store_def)
  ultimately show ?thesis
    using m'(2-6) region_cut_ok(3) [OF ok ins al] True
    by (intro exI [of _ m'] exI [of _ "mm_fresh m # ys"]) (simp add: min_def)
next
  case False
  have ok: "region_ok (mm_store m i)" using region_ok_of [OF inv] ids by simp
  have "munmap_cut g i m = Inr m"
    using False by (simp add: munmap_cut_def Let_def word_less_nat_alt region_ok_end [OF ok])
  then show ?thesis using False assms by (intro exI [of _ m] exI [of _ ys]) (simp add: min_def)
qed

definition unmapped_from :: "nat \<Rightarrow> gaddr \<Rightarrow> 64 word \<Rightarrow> mm_view \<Rightarrow> mm_view" where
  "unmapped_from lo g s w = (\<lambda>a. if in_range a g s \<and> lo \<le> unat a then None else w a)"

lemma range_aligned:
  assumes "is_page_aligned g PAGE_4KB" "is_page_aligned s PAGE_4KB" "unat g + unat s < 2 ^ 64"
  shows "is_page_aligned (g + s) PAGE_4KB" "unat (g + s) = unat g + unat s"
  using assms by (simp_all add: is_page_aligned_4KB unat_end mod_eq_0_iff_dvd)

text \<open>One pass of the loop: the part of a region that lies in the range is cut out and unmapped.\<close>

lemma munmap_pass:
  fixes v :: vm
  assumes al: "is_page_aligned g PAGE_4KB" "is_page_aligned s PAGE_4KB"
    and rng: "unat g + unat s < 2 ^ 64" "0 < unat s"
    and inv: "mm_inv (vm_mm v)" and small: "regions_small (regions (vm_mm v))" and ids: "mm_regions (vm_mm v) = xs @ i # ys"
    and hi: "unat g < region_end (mm_store (vm_mm v) i)" and lo: "unat (r_gaddr (mm_store (vm_mm v) i)) < unat g + unat s"
  obtains r m3 xs' ys' where
    "munmap_loop (Suc n) g s i v =
      (let v' = call (Host_munmap (r_haddr r) (r_size r)) (call (Hv_vm_unmap (r_gaddr r) (r_size r)) (v\<lparr>vm_mm := m3\<rparr>)) in
       case ys' of [] \<Rightarrow> Inr v' | k # _ \<Rightarrow> munmap_loop n g s k v')"
    "mm_inv m3" "regions_small (regions m3)" "mm_regions m3 = xs' @ ys'" "same_brk (vm_mm v) m3"
    "view m3 = (\<lambda>a. if contains r a then None else view (vm_mm v) a)"
    "unat (r_gaddr r) = max (unat g) (unat (r_gaddr (mm_store (vm_mm v) i)))" "unat (r_gaddr r) < region_end r"
    "region_end r = min (unat g + unat s) (region_end (mm_store (vm_mm v) i))"
    "ys' = ys \<or> (\<exists>t. ys' = t # ys \<and> r_gaddr (mm_store m3 t) = g + s)"
    "\<And>a. region_end r \<le> unat a \<Longrightarrow> (case ys' of [] \<Rightarrow> True | k # _ \<Rightarrow> unat a < unat (r_gaddr (mm_store m3 k))) \<Longrightarrow> view (vm_mm v) a = None"
    "\<And>k zs. ys' = k # zs \<Longrightarrow> region_end r \<le> unat (r_gaddr (mm_store m3 k)) \<and> region_ok (mm_store m3 k)"
proof -
  let ?m = "vm_mm v"
  have ok: "region_ok (mm_store ?m i)" using region_ok_of [OF inv] ids by simp
  have cmp: "key_cmp ?m (region_key g s) i = 0"
    using region_compare_nat [of "region_key g s" "mm_store ?m i"] rng(1) ok hi lo by simp
  obtain j m1 xs' where h: "munmap_head g i ?m = Inr (j, m1)" "mm_inv m1" "regions_small (regions m1)"
      "mm_regions m1 = xs' @ j # ys" "same_brk ?m m1" "view m1 = view ?m"
      "unat (r_gaddr (mm_store m1 j)) = max (unat g) (unat (r_gaddr (mm_store ?m i)))"
      "region_end (mm_store m1 j) = region_end (mm_store ?m i)"
    using munmap_head_ok [OF inv small ids al(1) hi] by blast
  have "unat (r_gaddr (mm_store m1 j)) < unat (g + s)"
    using h(7) lo rng range_aligned(2) [OF al rng(1)] by simp
  then obtain m2 ys' where c: "munmap_cut (g + s) j m1 = Inr m2" "mm_inv m2" "regions_small (regions m2)"
      "mm_regions m2 = xs' @ j # ys'" "same_brk m1 m2" "view m2 = view m1"
      "r_gaddr (mm_store m2 j) = r_gaddr (mm_store m1 j)"
      "region_end (mm_store m2 j) = min (unat g + unat s) (region_end (mm_store m1 j))"
      "ys' = ys \<or> (\<exists>t. ys' = t # ys \<and> r_gaddr (mm_store m2 t) = g + s)"
    using munmap_cut_ok [OF h(2,3,4) range_aligned(1) [OF al rng(1)]] range_aligned(2) [OF al rng(1)] by auto
  obtain m3 where u: "unlink_region m2 j = Inr m3" "mm_inv m3" "regions_small (regions m3)"
      "mm_regions m3 = xs' @ ys'" "same_brk m2 m3" "mm_store m3 = mm_store m2"
      "view m3 = (\<lambda>a. if contains (mm_store m2 j) a then None else view m2 a)"
    using unlink_region_view [OF c(2,4,3)] by blast
  have okj: "region_ok (mm_store m2 j)" using region_ok_of [OF c(2), of j] c(4) by simp
  have "j \<notin> set xs'" using c(2,4) by (auto simp: mm_inv_def)
  then have next': "list_next j (mm_regions m2) = (case ys' of [] \<Rightarrow> None | k # _ \<Rightarrow> Some k)"
    using c(4) by (cases ys') simp_all
  have step: "munmap_loop (Suc n) g s i v =
      (let v' = call (Host_munmap (r_haddr (mm_store m2 j)) (r_size (mm_store m2 j)))
           (call (Hv_vm_unmap (r_gaddr (mm_store m2 j)) (r_size (mm_store m2 j))) (v\<lparr>vm_mm := m3\<rparr>)) in
       case ys' of [] \<Rightarrow> Inr v' | k # _ \<Rightarrow> munmap_loop n g s k v')"
    using cmp h(1) c(1) u(1) next' okj by (cases ys') (simp_all add: vmm_munmap_def region_ok_def)
  show ?thesis
  proof (rule that [OF step u(2,3,4)])
    show "same_brk ?m m3" using h(5) c(5) u(5) same_brk_trans by blast
    show "view m3 = (\<lambda>a. if contains (mm_store m2 j) a then None else view ?m a)" using u(7) unfolding c(6) h(6) .
    show "view ?m a = None" if "region_end (mm_store m2 j) \<le> unat a"
        "case ys' of [] \<Rightarrow> True | k # _ \<Rightarrow> unat a < unat (r_gaddr (mm_store m3 k))" for a
      using view_gap [OF c(2,4) that(1)] that(2) unfolding u(6) c(6) h(6) .
    show "region_end (mm_store m2 j) \<le> unat (r_gaddr (mm_store m3 k)) \<and> region_ok (mm_store m3 k)" if "ys' = k # zs" for k zs
      using c(2,4) that by (simp add: mm_inv_def regions_def regions_ok_append regions_ok_Cons before_def u(6))
  qed (use h(7,8) c(7-9) u(6) region_ok_pos [OF okj] in auto)
qed

lemma munmap_loop_ok:
  assumes al: "is_page_aligned g PAGE_4KB" "is_page_aligned s PAGE_4KB"
    and rng: "unat g + unat s < 2 ^ 64" "0 < unat s"
  shows "\<lbrakk>mm_inv (vm_mm v); regions_small (regions (vm_mm v)); mm_regions (vm_mm v) = xs @ i # ys;
      unat g < region_end (mm_store (vm_mm v) i); 1 \<le> n;
      unat (r_gaddr (mm_store (vm_mm v) i)) < unat g + unat s \<longrightarrow> length ys + 2 \<le> n\<rbrakk> \<Longrightarrow>
    \<exists>v'. munmap_loop n g s i v = Inr v' \<and> mm_inv (vm_mm v') \<and> regions_small (regions (vm_mm v')) \<and>
      same_brk (vm_mm v) (vm_mm v') \<and>
      view (vm_mm v') = unmapped_from (unat (r_gaddr (mm_store (vm_mm v) i))) g s (view (vm_mm v))"
proof (induction n arbitrary: v xs i ys)
  case 0
  then show ?case by simp
next
  case (Suc n)
  let ?m = "vm_mm v"
  note inv = Suc.prems(1) and small = Suc.prems(2) and ids = Suc.prems(3) and hi = Suc.prems(4)
  show ?case
  proof (cases "unat (r_gaddr (mm_store ?m i)) < unat g + unat s")
    case False
    have "region_ok (mm_store ?m i)" using region_ok_of [OF inv] ids by simp
    then have "munmap_loop (Suc n) g s i v = Inr v"
      using False region_compare_nat [of "region_key g s" "mm_store ?m i"] rng(1) hi by simp
    moreover have "unmapped_from (unat (r_gaddr (mm_store ?m i))) g s (view ?m) = view ?m"
      using False by (auto simp: unmapped_from_def in_range_def fun_eq_iff)
    ultimately show ?thesis using inv small by simp
  next
    case True
    obtain r m3 xs' ys' where p: "munmap_loop (Suc n) g s i v =
        (let v' = call (Host_munmap (r_haddr r) (r_size r)) (call (Hv_vm_unmap (r_gaddr r) (r_size r)) (v\<lparr>vm_mm := m3\<rparr>)) in
         case ys' of [] \<Rightarrow> Inr v' | k # _ \<Rightarrow> munmap_loop n g s k v')"
        "mm_inv m3" "regions_small (regions m3)" "mm_regions m3 = xs' @ ys'" "same_brk ?m m3"
        "view m3 = (\<lambda>a. if contains r a then None else view ?m a)"
        "unat (r_gaddr r) = max (unat g) (unat (r_gaddr (mm_store ?m i)))" "unat (r_gaddr r) < region_end r"
        "region_end r = min (unat g + unat s) (region_end (mm_store ?m i))"
        "ys' = ys \<or> (\<exists>t. ys' = t # ys \<and> r_gaddr (mm_store m3 t) = g + s)"
        "\<And>a. region_end r \<le> unat a \<Longrightarrow> (case ys' of [] \<Rightarrow> True | k # _ \<Rightarrow> unat a < unat (r_gaddr (mm_store m3 k))) \<Longrightarrow> view ?m a = None"
        "\<And>k zs. ys' = k # zs \<Longrightarrow> region_end r \<le> unat (r_gaddr (mm_store m3 k)) \<and> region_ok (mm_store m3 k)"
      by (rule munmap_pass [OF al rng inv small ids hi True, of n]) (rule that)
    define v3 where "v3 = call (Host_munmap (r_haddr r) (r_size r)) (call (Hv_vm_unmap (r_gaddr r) (r_size r)) (v\<lparr>vm_mm := m3\<rparr>))"
    have mm3: "vm_mm v3 = m3" by (simp add: v3_def call_def)
    have fin: "view m3 a = unmapped_from (unat (r_gaddr (mm_store ?m i))) g s (view ?m) a"
      if "unat a < region_end r \<or> unat g + unat s \<le> unat a \<or> view ?m a = None" for a
      using that p(6,7,9) by (auto simp: unmapped_from_def in_range_def contains_def max_def min_def split: if_splits)
    show ?thesis
    proof (cases ys')
      case Nil
      have "view m3 = unmapped_from (unat (r_gaddr (mm_store ?m i))) g s (view ?m)"
      proof
        fix a
        show "view m3 a = unmapped_from (unat (r_gaddr (mm_store ?m i))) g s (view ?m) a"
          using fin [of a] p(11) [of a] Nil by (cases "unat a < region_end r") simp_all
      qed
      then show ?thesis using p(1-3,5) Nil mm3 by (simp add: v3_def)
    next
      case (Cons k zs)
      note k = p(12) [OF Cons]
      have "unat g < region_end (mm_store m3 k)" using k region_ok_pos [of "mm_store m3 k"] p(7,8) by simp
      moreover have "1 \<le> n" using Suc.prems(6) True by simp
      moreover have "unat (r_gaddr (mm_store m3 k)) < unat g + unat s \<longrightarrow> length zs + 2 \<le> n"
        using p(10) Cons Suc.prems(6) True range_aligned(2) [OF al rng(1)] by auto
      ultimately obtain v' where v': "munmap_loop n g s k v3 = Inr v'" "mm_inv (vm_mm v')"
          "regions_small (regions (vm_mm v'))" "same_brk m3 (vm_mm v')"
          "view (vm_mm v') = unmapped_from (unat (r_gaddr (mm_store m3 k))) g s (view m3)"
        using Suc.IH [of v3 xs' k zs] p(2-4) unfolding mm3 Cons by blast
      have "view (vm_mm v') a = unmapped_from (unat (r_gaddr (mm_store ?m i))) g s (view ?m) a" for a
      proof (cases "in_range a g s \<and> unat (r_gaddr (mm_store m3 k)) \<le> unat a")
        case T: True
        then have "unat (r_gaddr (mm_store ?m i)) \<le> unat a" using k p(7,8) by simp
        then show ?thesis using T v'(5) by (simp add: unmapped_from_def)
      next
        case F: False
        then have "view (vm_mm v') a = view m3 a" using v'(5) by (auto simp: unmapped_from_def)
        moreover have "unat a < region_end r \<or> unat g + unat s \<le> unat a \<or> view ?m a = None"
          using F p(11) [of a] p(7,8) unfolding Cons in_range_def by (simp add: not_less) linarith
        ultimately show ?thesis using fin by simp
      qed
      then show ?thesis
        using p(1) Cons v'(1-3) same_brk_trans [OF p(5) v'(4)]
        by (intro exI [of _ v']) (simp add: fun_eq_iff v3_def)
    qed
  qed
qed

text \<open>What \<open>find_region_range\<close> returns overlaps the range, and it finds nothing only if nothing does.\<close>

definition overlaps :: "mm_region \<Rightarrow> gaddr \<Rightarrow> 64 word \<Rightarrow> bool" where
  "overlaps r g s \<longleftrightarrow> unat g < region_end r \<and> unat (r_gaddr r) < unat g + unat s"

lemma overlaps_cmp:
  assumes "region_ok r" "unat g + unat s < 2 ^ 64"
  shows "region_compare (region_key g s) r = 0 \<longleftrightarrow> overlaps r g s"
  using region_compare_nat [of "region_key g s" r] assms by (auto simp: overlaps_def)

lemma walk_left_mem:
  "walk_left k t = Some z \<Longrightarrow> t = Node c l y r \<Longrightarrow> k y = 0 \<Longrightarrow> z \<in> set (inorder t) \<and> k z = 0"
  by (induction k t arbitrary: c l y r rule: walk_left.induct) (auto split: if_splits)

lemma walk_left_some: "t \<noteq> Null \<Longrightarrow> walk_left k t \<noteq> None"
  by (induction k t rule: walk_left.induct) auto

lemma find_region_range_some:
  assumes inv: "mm_inv m" and rng: "unat g + unat s < 2 ^ 64"
  shows "find_region_range g s m = Some i \<Longrightarrow> i \<in> set (mm_regions m) \<and> overlaps (mm_store m i) g s"
    and "find_region_range g s m = None \<longleftrightarrow> (\<forall>i \<in> set (mm_regions m). \<not> overlaps (mm_store m i) g s)"
proof -
  let ?k = "key_cmp m (region_key g s)" and ?t = "mm_region_tree m"
  have io: "inorder ?t = mm_regions m" using inv by (simp add: mm_inv_def)
  have srt: "rank_sorted ?k (inorder ?t)"
    using rank_sorted_key [of "regions m" "region_key g s"] inv rng
    by (simp add: mm_inv_def regions_def rank_sorted_map)
  have zero: "?k j = 0 \<longleftrightarrow> overlaps (mm_store m j) g s" if "j \<in> set (mm_regions m)" for j
    using overlaps_cmp [OF region_ok_of [OF inv that] rng] .
  have found: "\<exists>j \<in> set (mm_regions m). find_region_range g s m = Some j \<and> ?k j = 0" if "rb_find ?k ?t = Some i" for i
  proof -
    have i: "i \<in> set (inorder ?t)" "?k i = 0" using rb.find_some [OF srt that] by simp_all
    obtain path node where foc: "rb_focus i ?t [] = Some (path, node)"
      using rb_focus_some [OF i(1), of "[]"] by fastforce
    obtain c l r where node: "node = Node c l i r" "plug path node = ?t"
      using rb_focus_plug [OF foc] by auto
    obtain z where z: "walk_left ?k node = Some z"
      using walk_left_some [of node ?k] node(1) by auto
    have "z \<in> set (inorder node)" "?k z = 0" using walk_left_mem [OF z node(1)] i(2) by simp_all
    moreover have "set (inorder node) \<subseteq> set (inorder ?t)"
      using inorder_plug [of path node] node(2) by auto
    ultimately show ?thesis
      using that foc z io by (auto simp: find_region_range_def)
  qed
  show "find_region_range g s m = Some i \<Longrightarrow> i \<in> set (mm_regions m) \<and> overlaps (mm_store m i) g s"
  proof -
    assume f: "find_region_range g s m = Some i"
    then obtain j where "rb_find ?k ?t = Some j"
      by (auto simp: find_region_range_def Let_def split: option.splits)
    then show ?thesis using found f zero by fastforce
  qed
  show "find_region_range g s m = None \<longleftrightarrow> (\<forall>i \<in> set (mm_regions m). \<not> overlaps (mm_store m i) g s)"
  proof (cases "rb_find ?k ?t")
    case None
    then have "find_region_range g s m = None" by (simp add: find_region_range_def)
    then show ?thesis using rb.find_none_iff [OF srt] None zero io by auto
  next
    case (Some i)
    then show ?thesis using found [OF Some] zero by auto
  qed
qed

lemma do_munmap_ok:
  assumes inv: "mm_inv (vm_mm v)" and small: "regions_small (regions (vm_mm v))"
    and al: "is_page_aligned g PAGE_4KB" "is_page_aligned s PAGE_4KB"
    and s: "roundup sz 0x1000 = s" "s \<noteq> 0" and rng: "unat g + unat s < 2 ^ 64"
  shows "case find_region_range g s (vm_mm v) of
      None \<Rightarrow> do_munmap g sz v = Inr (- LINUX_ENOMEM, v)
    | Some i \<Rightarrow> \<exists>v'. do_munmap g sz v = Inr (0, v') \<and> mm_inv (vm_mm v') \<and>
        regions_small (regions (vm_mm v')) \<and> same_brk (vm_mm v) (vm_mm v') \<and>
        view (vm_mm v') = unmapped_from (unat (r_gaddr (mm_store (vm_mm v) i))) g s (view (vm_mm v))"
proof (cases "find_region_range g s (vm_mm v)")
  case None
  then show ?thesis using al s by (simp add: do_munmap_def)
next
  case (Some i)
  have i: "i \<in> set (mm_regions (vm_mm v))" "overlaps (mm_store (vm_mm v) i) g s"
    using find_region_range_some(1) [OF inv rng Some] by simp_all
  then obtain xs ys where ids: "mm_regions (vm_mm v) = xs @ i # ys" by (meson split_list)
  have "0 < unat s" using s(2) by (simp add: unat_gt_0)
  then have "\<exists>v'. munmap_loop (length (mm_regions (vm_mm v)) + 2) g s i v = Inr v' \<and> mm_inv (vm_mm v') \<and>
      regions_small (regions (vm_mm v')) \<and> same_brk (vm_mm v) (vm_mm v') \<and>
      view (vm_mm v') = unmapped_from (unat (r_gaddr (mm_store (vm_mm v) i))) g s (view (vm_mm v))"
    by (intro munmap_loop_ok [OF al rng _ inv small ids]) (use i(2) ids in \<open>simp_all add: overlaps_def\<close>)
  then show ?thesis using Some al s by (auto simp: do_munmap_def)
qed

text \<open>
  When the region found is the lowest one that overlaps, the whole range is unmapped.  The
  predicate is trivially true when at most one region meets the range.
\<close>

definition finds_lowest :: "mm \<Rightarrow> gaddr \<Rightarrow> 64 word \<Rightarrow> bool" where
  "finds_lowest m g s \<longleftrightarrow>
    (case find_region_range g s m of
       None \<Rightarrow> True
     | Some i \<Rightarrow> list_all (\<lambda>j. overlaps (mm_store m j) g s \<longrightarrow> r_gaddr (mm_store m i) \<le> r_gaddr (mm_store m j))
         (mm_regions m))"

definition unmapped :: "gaddr \<Rightarrow> 64 word \<Rightarrow> mm_view \<Rightarrow> mm_view" where
  "unmapped g s w = (\<lambda>a. if in_range a g s then None else w a)"

lemma view_in_range_overlaps:
  assumes "mm_inv m" "view m a \<noteq> None" "in_range a g s"
  shows "\<exists>i \<in> set (mm_regions m). overlaps (mm_store m i) g s \<and> unat (r_gaddr (mm_store m i)) \<le> unat a"
proof -
  obtain i where "find_region a m = Some i" using assms(2) by (auto simp: view_def)
  then have "i \<in> set (mm_regions m)" "contains (mm_store m i) a" using find_region_iff [OF assms(1)] by auto
  then show ?thesis using assms(3)
    by (intro bexI [of _ i]) (auto simp: overlaps_def contains_def in_range_def)
qed

lemma do_munmap_exact:
  assumes inv: "mm_inv (vm_mm v)" and small: "regions_small (regions (vm_mm v))"
    and al: "is_page_aligned g PAGE_4KB" "is_page_aligned s PAGE_4KB"
    and s: "roundup sz 0x1000 = s" "s \<noteq> 0" and rng: "unat g + unat s < 2 ^ 64"
    and low: "finds_lowest (vm_mm v) g s"
  shows "\<exists>ret v'. do_munmap g sz v = Inr (ret, v') \<and> mm_inv (vm_mm v') \<and>
      regions_small (regions (vm_mm v')) \<and> same_brk (vm_mm v) (vm_mm v') \<and>
      view (vm_mm v') = unmapped g s (view (vm_mm v)) \<and>
      ret = (if \<exists>a. in_range a g s \<and> view (vm_mm v) a \<noteq> None then 0 else - LINUX_ENOMEM)"
proof (cases "find_region_range g s (vm_mm v)")
  case None
  then have none: "\<forall>i \<in> set (mm_regions (vm_mm v)). \<not> overlaps (mm_store (vm_mm v) i) g s"
    using find_region_range_some(2) [OF inv rng] by simp
  then have "view (vm_mm v) a = None" if "in_range a g s" for a
    using view_in_range_overlaps [OF inv _ that] by blast
  moreover from this have "unmapped g s (view (vm_mm v)) = view (vm_mm v)"
    by (auto simp: unmapped_def fun_eq_iff)
  ultimately show ?thesis
    using do_munmap_ok [OF inv small al s rng] None inv small by auto
next
  case (Some i)
  let ?r = "mm_store (vm_mm v) i"
  have i: "i \<in> set (mm_regions (vm_mm v))" "overlaps ?r g s"
    using find_region_range_some(1) [OF inv rng Some] by simp_all
  have "\<exists>a. in_range a g s \<and> view (vm_mm v) a \<noteq> None"
  proof (cases "unat g \<le> unat (r_gaddr ?r)")
    case True
    have "contains ?r (r_gaddr ?r)" using region_ok_pos [OF region_ok_of [OF inv i(1)]] by (simp add: contains_def)
    then show ?thesis using view_eq [OF inv i(1)] True i(2)
      by (intro exI [of _ "r_gaddr ?r"]) (simp add: in_range_def overlaps_def)
  next
    case False
    then have "contains ?r g" using i(2) by (simp add: contains_def overlaps_def)
    then show ?thesis using view_eq [OF inv i(1)] s(2)
      by (intro exI [of _ g]) (simp add: in_range_def unat_gt_0)
  qed
  moreover have "unmapped_from (unat (r_gaddr ?r)) g s (view (vm_mm v)) = unmapped g s (view (vm_mm v))"
  proof
    fix a
    show "unmapped_from (unat (r_gaddr ?r)) g s (view (vm_mm v)) a = unmapped g s (view (vm_mm v)) a"
    proof (cases "in_range a g s \<and> view (vm_mm v) a \<noteq> None")
      case True
      then obtain j where "j \<in> set (mm_regions (vm_mm v))" "overlaps (mm_store (vm_mm v) j) g s"
          "unat (r_gaddr (mm_store (vm_mm v) j)) \<le> unat a"
        using view_in_range_overlaps [OF inv] by blast
      then have "unat (r_gaddr ?r) \<le> unat a"
        using low Some by (fastforce simp: finds_lowest_def list_all_iff word_le_nat_alt)
      then show ?thesis using True by (simp add: unmapped_from_def unmapped_def)
    next
      case False
      then show ?thesis by (cases "view (vm_mm v) a") (auto simp: unmapped_from_def unmapped_def)
    qed
  qed
  ultimately show ?thesis using do_munmap_ok [OF inv small al s rng] Some by auto
qed

section \<open>Mapping\<close>

definition mapped :: "gaddr \<Rightarrow> 64 word \<Rightarrow> haddr \<Rightarrow> flags \<Rightarrow> flags \<Rightarrow> int \<Rightarrow> mm_view \<Rightarrow> mm_view" where
  "mapped g s ptr prot flgs fd w =
    (\<lambda>a. if in_range a g s then Some (ptr + (a - g), prot, flgs, fd) else w a)"

lemma roundup_aligned:
  assumes "is_page_aligned s PAGE_4KB" "unat s + 4095 < 2 ^ 64"
  shows "roundup s 0x1000 = s"
proof -
  have "unat s mod 4096 = 0" using assms(1) by (simp add: is_page_aligned_4KB)
  then obtain q where q: "unat s = 4096 * q" by (auto simp: mod_eq_0_iff_dvd)
  then have "(unat s + 4095) div 4096 * 4096 = unat s" by simp
  then show ?thesis using unat_roundup_4KB [OF assms(2)] by (metis unsigned_word_eqI)
qed

lemma roundup_is_aligned:
  assumes "unat s + 4095 < 2 ^ 64"
  shows "is_page_aligned (roundup s 0x1000) PAGE_4KB" "unat s \<le> unat (roundup s 0x1000)"
    "unat (roundup s 0x1000) < unat s + 4096"
proof -
  show "is_page_aligned (roundup s 0x1000) PAGE_4KB"
    by (simp add: is_page_aligned_4KB unat_roundup_4KB [OF assms])
  show "unat s \<le> unat (roundup s 0x1000)" "unat (roundup s 0x1000) < unat s + 4096"
    using div_mult_mod_eq [of "unat s + 4095" 4096] mod_less_divisor [of 4096 "unat s + 4095"]
    unfolding unat_roundup_4KB [OF assms] by linarith+
qed

lemma new_region_simps [simp]:
  "r_gaddr (new_region h g s p f d po) = g" "r_size (new_region h g s p f d po) = s"
  "contains (new_region h g s p f d po) a \<longleftrightarrow> in_range a g s"
  "cell (new_region h g s p f d po) a = (h + (a - g), p, f, d)"
  "region_end (new_region h g s p f d po) = unat g + unat s"
  by (auto simp: new_region_def contains_def cell_def in_range_def region_end_def)

lemma unmapped_disjoint:
  assumes inv: "mm_inv m" and free: "\<And>a. in_range a g s \<Longrightarrow> view m a = None" and "0 < unat s"
  shows "\<forall>r \<in> set (regions m). disjoint_from (new_region h g s p f d po) r"
proof (rule ballI, rule ccontr)
  fix r assume r: "r \<in> set (regions m)" "\<not> disjoint_from (new_region h g s p f d po) r"
  then obtain i where i: "i \<in> set (mm_regions m)" "r = mm_store m i" by (auto simp: regions_def)
  have ov: "unat g < region_end r" "unat (r_gaddr r) < unat g + unat s"
    using r(2) by (auto simp: disjoint_from_def before_def)
  have ok: "unat (r_gaddr r) < region_end r" using region_ok_pos [OF region_ok_of [OF inv i(1)]] i(2) by simp
  let ?a = "if unat g \<le> unat (r_gaddr r) then r_gaddr r else g"
  have "contains r ?a" "in_range ?a g s" using ov ok assms(3) by (auto simp: contains_def in_range_def)
  then show False using free view_eq [OF inv i(1)] i(2) by fastforce
qed

lemma record_region_view:
  assumes inv: "mm_inv m" and small: "regions_small (regions m)" "unat s \<le> 2 ^ 31"
    and g: "g \<noteq> 0" and al: "is_page_aligned g PAGE_4KB" "is_page_aligned s PAGE_4KB"
    and rng: "unat g + unat s < 2 ^ 64" "0 < unat s"
    and free: "\<And>a. in_range a g s \<Longrightarrow> view m a = None"
  shows "\<exists>j m'. record_region m h g s p f d po = Inr (j, m') \<and> mm_inv m' \<and> regions_small (regions m') \<and>
      same_brk m m' \<and> mm_store m' j = new_region h g s p f d po \<and> view m' = mapped g s h p f d (view m)"
proof -
  let ?r = "new_region h g s p f d po" and ?n = "mm_fresh m"
  have ok: "region_ok ?r" using al rng by (simp add: region_ok_def unat_gt_0)
  obtain t xs ys where *: "mm_regions m = xs @ ys \<and>
      record_region m h g s p f d po =
        Inr (?n, m\<lparr>mm_store := (mm_store m)(?n := ?r), mm_fresh := Suc ?n,
               mm_regions := xs @ ?n # ys, mm_region_tree := t\<rparr>) \<and>
      mm_inv (m\<lparr>mm_store := (mm_store m)(?n := ?r), mm_fresh := Suc ?n,
               mm_regions := xs @ ?n # ys, mm_region_tree := t\<rparr>)"
    (is "_ \<and> _ = Inr (_, ?m) \<and> _")
    using record_region_ok [OF inv g ok unmapped_disjoint [OF inv free rng(2)]] by blast
  then have ids: "mm_regions m = xs @ ys" and rec: "record_region m h g s p f d po = Inr (?n, ?m)"
    and inv': "mm_inv ?m" by blast+
  have fresh: "?n \<notin> set (xs @ ys)" using inv ids by (auto simp: mm_inv_def)
  have "view ?m a = mapped g s h p f d (view m) a" for a
  proof (cases "in_range a g s")
    case True
    then show ?thesis using view_eq [OF inv', of ?n a] by (simp add: mapped_def)
  next
    case False
    have "view ?m a = view m a"
    proof (rule view_cong [OF inv inv'])
      fix i assume i: "i \<in> set (mm_regions m)" "contains (mm_store m i) a"
      then have "i \<noteq> ?n" using ids fresh by auto
      then show "\<exists>j \<in> set (mm_regions ?m). contains (mm_store ?m j) a \<and>
          cell (mm_store ?m j) a = cell (mm_store m i) a"
        using i ids by (intro bexI [of _ i]) auto
    next
      fix j assume j: "j \<in> set (mm_regions ?m)" "contains (mm_store ?m j) a"
      then have "j \<noteq> ?n" using False by auto
      then show "\<exists>i \<in> set (mm_regions m). contains (mm_store m i) a"
        using j ids by (intro bexI [of _ j]) auto
    qed
    then show ?thesis using False by (simp add: mapped_def)
  qed
  moreover have "regions_small (regions ?m)"
    using small ids fresh by (auto simp: regions_small_def regions_def)
  ultimately show ?thesis using rec inv'
    by (intro exI [of _ ?n] exI [of _ ?m]) (simp add: same_brk_def fun_eq_iff)
qed

text \<open>Unmapping a range, recording a region there and entering it in the page table.\<close>

lemma map_at_ok:
  assumes inv: "mm_inv (vm_mm v)" and small: "regions_small (regions (vm_mm v))" "unat s \<le> 2 ^ 31"
    and g: "g \<noteq> 0" and al: "is_page_aligned g PAGE_4KB" "is_page_aligned s PAGE_4KB" "is_page_aligned h PAGE_4KB"
    and rng: "unat g + unat s < 2 ^ 64" "s \<noteq> 0"
    and low: "finds_lowest (vm_mm v) g s" and hv: "hv_vm_map h g s hp"
  shows "\<exists>v'. bind_run (do_munmap g s v) (\<lambda>(_, v2).
        bind_run (record_region (vm_mm v2) h g s p f d po) (\<lambda>(_, m3).
        bind_run (vmm_mmap hv_vm_map g s hp h (v2\<lparr>vm_mm := m3\<rparr>)) (\<lambda>v4. Inr (g, v4)))) = Inr (g, v') \<and>
      mm_inv (vm_mm v') \<and> regions_small (regions (vm_mm v')) \<and> same_brk (vm_mm v) (vm_mm v') \<and>
      view (vm_mm v') = mapped g s h p f d (view (vm_mm v))"
proof -
  have "roundup s 0x1000 = s" using roundup_aligned [OF al(2)] small(2) by simp
  then obtain ret v2 where u: "do_munmap g s v = Inr (ret, v2)" "mm_inv (vm_mm v2)"
      "regions_small (regions (vm_mm v2))" "same_brk (vm_mm v) (vm_mm v2)"
      "view (vm_mm v2) = unmapped g s (view (vm_mm v))"
    using do_munmap_exact [OF inv small(1) al(1,2) _ rng(2,1) low] by blast
  have free: "view (vm_mm v2) a = None" if "in_range a g s" for a
    using that u(5) by (simp add: unmapped_def)
  have pos: "0 < unat s" using rng(2) by (simp add: unat_gt_0)
  obtain j m3 where r: "record_region (vm_mm v2) h g s p f d po = Inr (j, m3)" "mm_inv m3"
      "regions_small (regions m3)" "same_brk (vm_mm v2) m3" "view m3 = mapped g s h p f d (view (vm_mm v2))"
    using record_region_view [OF u(2,3) small(2) g al(1,2) rng(1) pos free] by blast
  have "view m3 = mapped g s h p f d (view (vm_mm v))"
    using r(5) u(5) by (auto simp: mapped_def unmapped_def fun_eq_iff)
  then show ?thesis
    using u(1,4) r(1-4) al hv same_brk_trans by (auto simp: vmm_mmap_def call_def Let_def)
qed

end
