(* ===== verification/MmapProps.thy ===== *)
theory MmapProps
  imports Mmap
begin

text \<open>
  The properties of the memory system calls.  They are stated over \<open>view\<close>, what the guest sees
  of its address space, for every state that satisfies \<open>mm_inv\<close>.
\<close>

section \<open>Helper lemmas\<close>

text \<open>The break and the mapping top are no part of the region index.\<close>

lemma find_region_brk [simp]:
  "find_region a (m\<lparr>current_mmap_top := t\<rparr>) = find_region a m"
  "find_region a (m\<lparr>current_brk := b\<rparr>) = find_region a m"
  by (simp_all add: find_region_def)

lemma mm_inv_brk [simp]:
  "mm_inv (m\<lparr>current_mmap_top := t\<rparr>) = mm_inv m" "mm_inv (m\<lparr>current_brk := b\<rparr>) = mm_inv m"
  by (simp_all add: mm_inv_def regions_def)

lemma regions_brk [simp]:
  "regions (m\<lparr>current_mmap_top := t\<rparr>) = regions m" "regions (m\<lparr>current_brk := b\<rparr>) = regions m"
  by (simp_all add: regions_def)

lemma view_brk [simp]:
  "view (m\<lparr>current_mmap_top := t\<rparr>) = view m" "view (m\<lparr>current_brk := b\<rparr>) = view m"
  by (simp_all add: view_def fun_eq_iff)

lemma finds_lowest_brk [simp]: "finds_lowest (m\<lparr>current_mmap_top := t\<rparr>) g s = finds_lowest m g s"
  by (simp add: finds_lowest_def find_region_range_def Let_def split: option.split)

text \<open>A memory state in which the calls below run: the invariant and regions below 2 GiB.\<close>

definition mm_state :: "vm \<Rightarrow> bool" where
  "mm_state v \<longleftrightarrow> mm_inv (vm_mm v) \<and> regions_small (regions (vm_mm v))"

lemma aligned_mask: "a AND 0xfff = 0 \<longleftrightarrow> is_page_aligned a PAGE_4KB"
  by (simp add: is_page_aligned_def)

text \<open>A process with the regions [0x10000, 0x13000) and [0x20000, 0x22000).\<close>

definition ex_store :: "nat \<Rightarrow> mm_region" where
  "ex_store i =
    (if i = 0 then new_region 0x100000 0x10000 0x3000 3 0x22 (- 1) 0
     else new_region 0x200000 0x20000 0x2000 1 0x22 (- 1) 0)"

definition ex_vm :: vm where
  "ex_vm = \<lparr>vm_mm = \<lparr>mm_region_tree = Node RB_BLACK Null 0 (Node RB_RED Null 1 Null), mm_regions = [0, 1],
     mm_store = ex_store, mm_fresh = 2, start_brk = 0x30000, current_brk = 0x31000,
     current_mmap_top = 0xc0000000\<rparr>, vm_calls = []\<rparr>"

lemmas region_eval = mm_inv_def regions_def regions_ok_def region_ok_def before_def regions_small_def
  rb_tree_ok_def is_page_aligned_def region_end_def new_region_def finds_lowest_def
  find_region_range_def region_compare_def region_key_def overlaps_def mm_state_def roundup_def

lemmas ex_eval = region_eval ex_vm_def ex_store_def

lemma ex_vm_state: "mm_state ex_vm"
  by (simp add: ex_eval)

section \<open>Unmapping\<close>

text \<open>
  C4: \<open>munmap\<close> of a page range keeps the region invariant, changes nothing outside the range and
  inside it only unmaps; it returns 0, or -ENOMEM with nothing changed.
\<close>

theorem munmap_safe:
  assumes "mm_state v" "is_page_aligned g PAGE_4KB" "sz \<noteq> 0" "unat g + unat sz + 4096 < 2 ^ 64"
  shows "\<exists>ret v'. do_munmap g sz v = Inr (ret, v') \<and> mm_state v' \<and>
      (ret = 0 \<or> ret = - LINUX_ENOMEM \<and> v' = v) \<and>
      (\<forall>a. view (vm_mm v') a = view (vm_mm v) a \<or>
           in_range a g (roundup sz 0x1000) \<and> view (vm_mm v') a = None)"
proof -
  let ?s = "roundup sz 0x1000"
  have r: "is_page_aligned ?s PAGE_4KB" "unat sz \<le> unat ?s" "unat ?s < unat sz + 4096"
    using roundup_is_aligned [of sz] assms(4) by simp_all
  have "0 < unat sz" using assms(3) by (simp add: unat_gt_0)
  then have s: "?s \<noteq> 0" "unat g + unat ?s < 2 ^ 64" using r(2,3) assms(4) by auto
  show ?thesis
  proof (cases "find_region_range g ?s (vm_mm v)")
    case None
    then show ?thesis
      using do_munmap_ok [of v g ?s sz] assms(1,2) r(1) s by (simp add: mm_state_def)
  next
    case (Some i)
    then show ?thesis
      using do_munmap_ok [of v g ?s sz] assms(1,2) r(1) s
      by (auto simp: mm_state_def unmapped_from_def)
  qed
qed

theorem munmap_safe_witness:
  "\<exists>ret v'. do_munmap 0x11000 0xf800 ex_vm = Inr (ret, v') \<and> mm_state v' \<and>
      (ret = 0 \<or> ret = - LINUX_ENOMEM \<and> v' = ex_vm) \<and>
      (\<forall>a. view (vm_mm v') a = view (vm_mm ex_vm) a \<or>
           in_range a 0x11000 (roundup 0xf800 0x1000) \<and> view (vm_mm v') a = None)"
  by (rule munmap_safe [OF ex_vm_state]; simp add: ex_eval)

text \<open>
  C5: When the lookup finds the lowest overlapping region, \<open>munmap\<close> unmaps exactly the page range:
  it implements removal of the range from the view, and returns 0 when something was mapped
  there and -ENOMEM when nothing was.
\<close>

theorem munmap_exact:
  assumes "mm_state v" "is_page_aligned g PAGE_4KB" "sz \<noteq> 0" "unat g + unat sz + 4096 < 2 ^ 64"
    and "finds_lowest (vm_mm v) g (roundup sz 0x1000)"
  shows "\<exists>ret v'. do_munmap g sz v = Inr (ret, v') \<and> mm_state v' \<and>
      view (vm_mm v') = unmapped g (roundup sz 0x1000) (view (vm_mm v)) \<and>
      (ret = 0 \<longleftrightarrow> (\<exists>a. in_range a g (roundup sz 0x1000) \<and> view (vm_mm v) a \<noteq> None)) \<and>
      (ret = 0 \<or> ret = - LINUX_ENOMEM)"
proof -
  let ?s = "roundup sz 0x1000"
  have r: "is_page_aligned ?s PAGE_4KB" "unat sz \<le> unat ?s" "unat ?s < unat sz + 4096"
    using roundup_is_aligned [of sz] assms(4) by simp_all
  have "0 < unat sz" using assms(3) by (simp add: unat_gt_0)
  then have s: "?s \<noteq> 0" "unat g + unat ?s < 2 ^ 64" using r(2,3) assms(4) by auto
  then show ?thesis
    using do_munmap_exact [of v g ?s sz] assms(1,2,5) r(1) unfolding mm_state_def by fastforce
qed

theorem munmap_exact_witness:
  "\<exists>ret v'. do_munmap 0x11000 0xf800 ex_vm = Inr (ret, v') \<and> mm_state v' \<and>
      view (vm_mm v') = unmapped 0x11000 (roundup 0xf800 0x1000) (view (vm_mm ex_vm)) \<and>
      (ret = 0 \<longleftrightarrow> (\<exists>a. in_range a 0x11000 (roundup 0xf800 0x1000) \<and> view (vm_mm ex_vm) a \<noteq> None)) \<and>
      (ret = 0 \<or> ret = - LINUX_ENOMEM)"
  by (rule munmap_exact [OF ex_vm_state]; simp add: ex_eval)

section \<open>Mapping\<close>

definition mmap_flags :: "flags \<Rightarrow> flags" where
  "mmap_flags l_flags = l_flags AND NOT mmap_ignored_flags"

definition mmap_target :: "flags \<Rightarrow> gaddr \<Rightarrow> vm \<Rightarrow> gaddr" where
  "mmap_target l_flags addr v =
    (if mmap_flags l_flags AND LINUX_MAP_FIXED = 0 then current_mmap_top (vm_mm v) else addr)"

lemma do_mmap_ok:
  assumes st: "mm_state v" and al: "is_page_aligned addr0 PAGE_4KB" "is_page_aligned addr PAGE_4KB"
      "is_page_aligned len PAGE_4KB" "is_page_aligned ptr PAGE_4KB"
    and eqs: "mmap_target l_flags0 addr0 v = addr" "mmap_flags l_flags0 = f" "roundup len0 0x1000 = len"
      "fd' = (if f AND LINUX_MAP_ANON \<noteq> 0 then - 1 else fd)"
      "off' = (if f AND LINUX_MAP_ANON \<noteq> 0 then 0 else off)"
    and rng: "addr \<noteq> 0" "len \<noteq> 0" "unat len \<le> 2 ^ 31" "unat addr + unat len < 2 ^ 64"
    and known: "f AND NOT mmap_known_flags = 0" and low: "finds_lowest (vm_mm v) addr len"
    and host: "host_mmap len d_prot (linux_to_darwin_mflags f) fd' off' = Inr ptr"
    and hv: "hv_vm_map ptr addr len (linux_mprot_to_hv_mflag l_prot)"
  shows "\<exists>v'. do_mmap host_mmap hv_vm_map addr0 len0 d_prot l_prot l_flags0 fd off v = Inr (addr, v') \<and>
      mm_state v' \<and> view (vm_mm v') = mapped addr len ptr l_prot f fd' (view (vm_mm v)) \<and>
      current_mmap_top (vm_mm v') =
        (if f AND LINUX_MAP_FIXED = 0 then current_mmap_top (vm_mm v) + len else current_mmap_top (vm_mm v)) \<and>
      current_brk (vm_mm v') = current_brk (vm_mm v) \<and> start_brk (vm_mm v') = start_brk (vm_mm v)"
proof -
  define v1 where "v1 = (if f AND LINUX_MAP_FIXED = 0
      then v\<lparr>vm_mm := (vm_mm v)\<lparr>current_mmap_top := current_mmap_top (vm_mm v) + len\<rparr>\<rparr> else v)"
  have again: "roundup len 0x1000 = len" using roundup_aligned [OF al(3)] rng(3) by simp
  have v1: "mm_inv (vm_mm v1)" "regions_small (regions (vm_mm v1))" "view (vm_mm v1) = view (vm_mm v)"
      "finds_lowest (vm_mm v1) addr len"
    using st low by (auto simp: v1_def mm_state_def)
  have pick: "(if f AND LINUX_MAP_FIXED = 0 then alloc_region len v else (addr0, v)) = (addr, v1)"
    using again eqs(1,2) by (auto simp: mmap_target_def v1_def alloc_region_def Let_def)
  have "do_mmap host_mmap hv_vm_map addr0 len0 d_prot l_prot l_flags0 fd off v =
      bind_run (do_munmap addr len v1) (\<lambda>(_, v2).
      bind_run (record_region (vm_mm v2) ptr addr len l_prot f fd' (to_cint off')) (\<lambda>(_, m3).
      bind_run (vmm_mmap hv_vm_map addr len (linux_mprot_to_hv_mflag l_prot) ptr (v2\<lparr>vm_mm := m3\<rparr>))
        (\<lambda>v4. Inr (addr, v4))))"
    using al(1) known host pick
    unfolding do_mmap_def Let_def aligned_mask PAGE_SIZEOF_4KB
      mmap_flags_def [symmetric] eqs(2,3) eqs(4,5) [symmetric] by simp
  moreover note map_at_ok [where v = v1 and g = addr and s = len and h = ptr and p = l_prot and
      f = f and d = fd' and po = "to_cint off'" and hv_vm_map = hv_vm_map and
      hp = "linux_mprot_to_hv_mflag l_prot",
      OF v1(1,2) rng(3,1) al(2,3,4) rng(4,2) v1(4) hv]
  ultimately obtain v' where v': "do_mmap host_mmap hv_vm_map addr0 len0 d_prot l_prot l_flags0 fd off v = Inr (addr, v')"
      "mm_state v'" "same_brk (vm_mm v1) (vm_mm v')"
      "view (vm_mm v') = mapped addr len ptr l_prot f fd' (view (vm_mm v))"
    unfolding mm_state_def v1(3) by auto
  then show ?thesis by (intro exI [of _ v']) (auto simp: same_brk_def v1_def)
qed

text \<open>
  C6: A successful \<open>mmap\<close> maps exactly the page range at the fixed address, or at the mapping top
  when none is fixed, to the memory the host gave, with the requested protection, and leaves
  every other address as it was; the mapping top moves past the range.
\<close>

theorem mmap_maps:
  fixes v addr0 len0 l_flags0
  defines "len \<equiv> roundup len0 0x1000" and "addr \<equiv> mmap_target l_flags0 addr0 v"
    and "anon \<equiv> mmap_flags l_flags0 AND LINUX_MAP_ANON \<noteq> 0"
  assumes "mm_state v" "is_page_aligned addr0 PAGE_4KB" "is_page_aligned addr PAGE_4KB" "addr \<noteq> 0"
    and "len0 \<noteq> 0" "unat len0 \<le> 2 ^ 31 - 4096" "unat addr + unat len0 + 4096 < 2 ^ 64"
    and "mmap_flags l_flags0 AND NOT mmap_known_flags = 0" "finds_lowest (vm_mm v) addr len"
    and "host_mmap len d_prot (linux_to_darwin_mflags (mmap_flags l_flags0))
           (if anon then - 1 else fd) (if anon then 0 else off) = Inr ptr" "is_page_aligned ptr PAGE_4KB"
    and "hv_vm_map ptr addr len (linux_mprot_to_hv_mflag l_prot)"
  shows "\<exists>v'. do_mmap host_mmap hv_vm_map addr0 len0 d_prot l_prot l_flags0 fd off v = Inr (addr, v') \<and>
      mm_state v' \<and>
      view (vm_mm v') = mapped addr len ptr l_prot (mmap_flags l_flags0) (if anon then - 1 else fd) (view (vm_mm v)) \<and>
      current_mmap_top (vm_mm v') =
        (if mmap_flags l_flags0 AND LINUX_MAP_FIXED = 0 then current_mmap_top (vm_mm v) + len
         else current_mmap_top (vm_mm v)) \<and>
      current_brk (vm_mm v') = current_brk (vm_mm v) \<and> start_brk (vm_mm v') = start_brk (vm_mm v)"
proof -
  have r: "is_page_aligned len PAGE_4KB" "unat len0 \<le> unat len" "unat len < unat len0 + 4096"
    using roundup_is_aligned [of len0] assms(9) unfolding len_def by simp_all
  have "0 < unat len0" using assms(8) by (simp add: unat_gt_0)
  then have len: "len \<noteq> 0" "unat addr + unat len < 2 ^ 64" "unat len \<le> 2 ^ 31"
    using r(2,3) assms(9,10) by auto
  show ?thesis
    by (rule do_mmap_ok [where off' = "if anon then 0 else off"])
      (use assms(4-15) r len in \<open>simp_all add: addr_def len_def anon_def\<close>)
qed

theorem mmap_maps_witness:
  "\<exists>v'. do_mmap (\<lambda>_ _ _ _ _. Inr 0x500000) (\<lambda>_ _ _ _. True) 0x12000 0xd234 3 3 0x32 7 0x1000 ex_vm =
        Inr (0x12000, v') \<and> mm_state v' \<and>
      view (vm_mm v') = mapped 0x12000 0xe000 0x500000 3 0x32 (- 1) (view (vm_mm ex_vm)) \<and>
      current_mmap_top (vm_mm v') = 0xc0000000"
proof -
  have e: "mmap_target 0x32 0x12000 ex_vm = 0x12000" "mmap_flags 0x32 = 0x32"
    "roundup 0xd234 0x1000 = 0xe000" "(0x32 :: flags) AND LINUX_MAP_FIXED \<noteq> 0"
    "(0x32 :: flags) AND LINUX_MAP_ANON \<noteq> 0" "current_mmap_top (vm_mm ex_vm) = 0xc0000000"
    by (simp_all add: ex_eval mmap_target_def mmap_flags_def mmap_ignored_flags_def mman_flags)
  have "finds_lowest (vm_mm ex_vm) 0x12000 0xe000" "(0x32 :: flags) AND NOT mmap_known_flags = 0"
    "unat (0x12000 :: gaddr) + unat (0xd234 :: 64 word) + 4096 < 2 ^ 64"
    by (simp_all add: ex_eval mmap_known_flags_def mman_flags)
  then show ?thesis
    using mmap_maps [where v = ex_vm and ?addr0.0 = "0x12000" and ?len0.0 = "0xd234" and ?l_flags0.0 = "0x32" and
        host_mmap = "\<lambda>_ _ _ _ _. Inr 0x500000" and hv_vm_map = "\<lambda>_ _ _ _. True" and d_prot = "3" and
        l_prot = "3" and fd = "7" and off = "0x1000" and ptr = "0x500000"] ex_vm_state
    unfolding e by (auto simp: is_page_aligned_4KB e)
qed

section \<open>The break\<close>

text \<open>
  Raising the break maps exactly the pages between the old and the new break as private
  anonymous memory that can be read and written, and moves the break there.
\<close>

theorem brk_grows:
  fixes v brk0
  defines "brk \<equiv> roundup brk0 0x1000" and "cur \<equiv> current_brk (vm_mm v)"
  assumes "mm_state v" "is_page_aligned cur PAGE_4KB" "cur \<noteq> 0" "start_brk (vm_mm v) \<le> cur"
    and "unat brk0 + 4096 < 2 ^ 64" "unat brk0 \<le> unat cur + (2 ^ 31 - 4096)" "cur < brk0"
    and "finds_lowest (vm_mm v) cur (brk - cur)"
    and "host_mmap (brk - cur) 3 0x1002 (- 1) 0 = Inr ptr" "is_page_aligned ptr PAGE_4KB"
    and "hv_vm_map ptr cur (brk - cur) 3"
  shows "\<exists>v'. sys_brk host_mmap hv_vm_map brk0 v = Inr (brk, v') \<and> mm_state v' \<and>
      current_brk (vm_mm v') = brk \<and> start_brk (vm_mm v') = start_brk (vm_mm v) \<and>
      view (vm_mm v') = mapped cur (brk - cur) ptr 3 0x32 (- 1) (view (vm_mm v))"
proof -
  have r: "is_page_aligned brk PAGE_4KB" "unat brk0 \<le> unat brk" "unat brk < unat brk0 + 4096"
    using roundup_is_aligned [of brk0] assms(7) unfolding brk_def by simp_all
  have lt: "unat cur < unat brk" using assms(9) r(2) by (simp add: word_less_nat_alt)
  then have d: "unat (brk - cur) = unat brk - unat cur" by (simp add: unat_diff)
  have len: "is_page_aligned (brk - cur) PAGE_4KB" "brk - cur \<noteq> 0" "unat (brk - cur) \<le> 2 ^ 31"
    using is_page_aligned_diff [OF r(1) assms(4)] lt d r(3) assms(8) by (auto simp flip: unat_gt_0)
  have again: "roundup (brk - cur) 0x1000 = brk - cur" using roundup_aligned [OF len(1)] len(3) by simp
  have e: "LINUX_PROT_READ OR LINUX_PROT_WRITE = 3"
      "LINUX_MAP_PRIVATE OR LINUX_MAP_FIXED OR LINUX_MAP_ANON = 0x32" "mmap_flags 0x32 = 0x32"
      "linux_to_darwin_mflags 0x32 = 0x1002" "linux_mprot_to_hv_mflag 3 = 3" "(0x32 :: flags) AND NOT mmap_known_flags = 0"
      "(0x32 :: flags) AND LINUX_MAP_ANON \<noteq> 0" "(0x32 :: flags) AND LINUX_MAP_FIXED \<noteq> 0"
    by (simp_all add: mman_flags mmap_flags_def mmap_ignored_flags_def mmap_known_flags_def
        linux_to_darwin_mflags_def linux_mprot_to_hv_mflag_def flag_if_def)
  have "unat cur + unat (brk - cur) < 2 ^ 64" using d lt unat_less_64 [of brk] by simp
  then obtain v' where v': "do_mmap host_mmap hv_vm_map cur (brk - cur) 3 3 0x32 (- 1) 0 v = Inr (cur, v')"
      "mm_state v'" "view (vm_mm v') = mapped cur (brk - cur) ptr 3 0x32 (- 1) (view (vm_mm v))"
      "start_brk (vm_mm v') = start_brk (vm_mm v)"
    using do_mmap_ok [where v = v and ?addr0.0 = cur and addr = cur and len = "brk - cur" and
        ?len0.0 = "brk - cur" and ptr = ptr and ?l_flags0.0 = "0x32" and f = "0x32" and fd' = "- 1" and
        fd = "- 1" and off' = 0 and off = 0 and l_prot = 3 and d_prot = 3 and host_mmap = host_mmap and
        hv_vm_map = hv_vm_map] assms(3,4,5,10-13) len again
    by (auto simp: e mmap_target_def)
  have "\<not> brk < start_brk (vm_mm v)" "\<not> brk < cur"
    using lt assms(6) by (auto simp: word_less_nat_alt word_le_nat_alt)
  then have "sys_brk host_mmap hv_vm_map brk0 v = Inr (brk, v'\<lparr>vm_mm := (vm_mm v')\<lparr>current_brk := brk\<rparr>\<rparr>)"
    using v'(1) unfolding sys_brk_def Let_def e PAGE_SIZEOF_4KB brk_def [symmetric] cur_def [symmetric] by simp
  then show ?thesis using v'(2-4) by (auto simp: mm_state_def)
qed

theorem brk_grows_witness:
  "\<exists>v'. sys_brk (\<lambda>_ _ _ _ _. Inr 0x500000) (\<lambda>_ _ _ _. True) 0x33001 ex_vm = Inr (0x34000, v') \<and>
      current_brk (vm_mm v') = 0x34000 \<and>
      view (vm_mm v') = mapped 0x31000 0x3000 0x500000 3 0x32 (- 1) (view (vm_mm ex_vm))"
proof -
  have e: "roundup 0x33001 0x1000 = 0x34000" "current_brk (vm_mm ex_vm) = 0x31000" "start_brk (vm_mm ex_vm) = 0x30000"
    "finds_lowest (vm_mm ex_vm) 0x31000 0x3000"
    by (simp_all add: ex_eval)
  then show ?thesis
    using brk_grows [where v = ex_vm and ?brk0.0 = "0x33001" and host_mmap = "\<lambda>_ _ _ _ _. Inr 0x500000" and
        hv_vm_map = "\<lambda>_ _ _ _. True" and ptr = "0x500000"] ex_vm_state
    unfolding e by (auto simp: is_page_aligned_4KB)
qed

text \<open>
  Lowering the break to a page at or above the start of the heap unmaps the pages from the new
  to the old break, moves the break and changes nothing else; a request below the start of the
  heap changes nothing and returns the start.
\<close>

theorem brk_shrinks:
  fixes v brk0
  defines "brk \<equiv> roundup brk0 0x1000" and "cur \<equiv> current_brk (vm_mm v)"
  assumes "mm_state v" "is_page_aligned cur PAGE_4KB" "unat brk0 + 4096 < 2 ^ 64" "brk < cur"
    and "unat cur + 8192 < 2 ^ 64" "finds_lowest (vm_mm v) brk (cur - brk)"
  shows "if brk < start_brk (vm_mm v) then sys_brk host_mmap hv_vm_map brk0 v = Inr (start_brk (vm_mm v), v)
    else \<exists>v'. sys_brk host_mmap hv_vm_map brk0 v = Inr (brk, v') \<and> mm_state v' \<and>
      current_brk (vm_mm v') = brk \<and> start_brk (vm_mm v') = start_brk (vm_mm v) \<and>
      view (vm_mm v') = unmapped brk (cur - brk) (view (vm_mm v))"
proof -
  have r: "is_page_aligned brk PAGE_4KB"
    using roundup_is_aligned [of brk0] assms(5) unfolding brk_def by simp_all
  have lt: "unat brk < unat cur" using assms(6) by (simp add: word_less_nat_alt)
  then have d: "unat (cur - brk) = unat cur - unat brk" by (simp add: unat_diff)
  have len: "is_page_aligned (cur - brk) PAGE_4KB" "cur - brk \<noteq> 0"
    using is_page_aligned_diff [OF assms(4) r] lt d by (auto simp flip: unat_gt_0)
  have again: "roundup (cur - brk) 0x1000 = cur - brk"
    by (rule roundup_aligned [OF len(1)]) (use d assms(7) in simp)
  have "unat brk + unat (cur - brk) < 2 ^ 64" using d lt unat_less_64 [of cur] by simp
  then obtain ret v' where v': "do_munmap brk (cur - brk) v = Inr (ret, v')" "mm_state v'"
      "view (vm_mm v') = unmapped brk (cur - brk) (view (vm_mm v))" "start_brk (vm_mm v') = start_brk (vm_mm v)"
    using do_munmap_exact [of v brk "cur - brk" "cur - brk"] assms(3,8) r len again
    unfolding mm_state_def same_brk_def by blast
  show ?thesis
  proof (cases "brk < start_brk (vm_mm v)")
    case True
    then show ?thesis by (simp add: sys_brk_def Let_def brk_def)
  next
    case False
    have "sys_brk host_mmap hv_vm_map brk0 v = Inr (brk, v'\<lparr>vm_mm := (vm_mm v')\<lparr>current_brk := brk\<rparr>\<rparr>)"
      using v'(1) False assms(6)
      unfolding sys_brk_def Let_def PAGE_SIZEOF_4KB brk_def [symmetric] cur_def [symmetric] by simp
    then show ?thesis using v'(2-4) False by (auto simp: mm_state_def)
  qed
qed

theorem brk_shrinks_witness:
  "\<exists>v'. sys_brk (\<lambda>_ _ _ _ _. Inl 12) (\<lambda>_ _ _ _. True) 0x30000 ex_vm = Inr (0x30000, v') \<and> mm_state v' \<and>
      current_brk (vm_mm v') = 0x30000"
proof -
  have e: "roundup 0x30000 0x1000 = 0x30000" "current_brk (vm_mm ex_vm) = 0x31000" "start_brk (vm_mm ex_vm) = 0x30000"
    "finds_lowest (vm_mm ex_vm) 0x30000 0x1000"
    by (simp_all add: ex_eval)
  then show ?thesis
    using brk_shrinks [where v = ex_vm and ?brk0.0 = "0x30000" and host_mmap = "\<lambda>_ _ _ _ _. Inl 12" and
        hv_vm_map = "\<lambda>_ _ _ _. True"] ex_vm_state
    unfolding e by (auto simp: is_page_aligned_4KB)
qed

section \<open>Lookups\<close>

text \<open>
  A lookup of an address finds the region that contains it, exactly when there is one, and
  \<open>guest_to_host\<close> then gives the host address at the same offset; kernel regions are only
  consulted for addresses the process does not map.
\<close>

theorem guest_to_host_correct:
  assumes "mm_inv m" "mm_inv kern"
  shows "guest_to_host m kern a =
    (if \<exists>i \<in> set (mm_regions m). contains (mm_store m i) a then map_option fst (view m a)
     else map_option fst (view kern a)) \<and>
    (find_region a m = Some i \<longleftrightarrow> i \<in> set (mm_regions m) \<and> contains (mm_store m i) a)"
proof -
  have s: "r_haddr r + a - r_gaddr r = r_haddr r + (a - r_gaddr r)" for r by simp
  have "guest_to_host m kern a =
    (if \<exists>i \<in> set (mm_regions m). contains (mm_store m i) a then map_option fst (view m a)
     else map_option fst (view kern a))"
  proof (cases "find_region a m")
    case None
    then show ?thesis using find_region_None [OF assms(1), of a]
      by (auto simp: guest_to_host_def view_def cell_def s split: option.splits)
  next
    case (Some j)
    then have "\<exists>i \<in> set (mm_regions m). contains (mm_store m i) a"
      using find_region_iff [OF assms(1), of a j] by auto
    then show ?thesis using Some by (simp add: guest_to_host_def view_def cell_def s)
  qed
  then show ?thesis using find_region_iff [OF assms(1), of a i] by simp
qed

theorem guest_to_host_correct_witness:
  "guest_to_host (vm_mm ex_vm) (vm_mm ex_vm) 0x12345 = Some 0x102345"
proof -
  have "\<exists>i \<in> set (mm_regions (vm_mm ex_vm)). contains (mm_store (vm_mm ex_vm) i) 0x12345"
    "map_option fst (view (vm_mm ex_vm) 0x12345) = Some 0x102345"
    by (simp_all add: ex_eval contains_def view_def find_region_def cell_def)
  then show ?thesis
    using guest_to_host_correct [of "vm_mm ex_vm" "vm_mm ex_vm" "0x12345" 0] ex_vm_state
    by (simp add: mm_state_def)
qed

text \<open>Four regions recorded one after the other, and the tree they make.\<close>

definition empty_mm :: mm where
  "empty_mm = init_mm \<lparr>mm_region_tree = Null, mm_regions = [], mm_store = (\<lambda>_. new_region 0 0 0 0 0 0 0),
     mm_fresh = 0, start_brk = 0, current_brk = 0, current_mmap_top = 0\<rparr>"

definition record_all :: "(haddr \<times> gaddr) list \<Rightarrow> mm run" where
  "record_all hs = fold (\<lambda>(h, g) r. bind_run r (\<lambda>m. bind_run (record_region m h g 0x2000 3 0x22 (- 1) 0) (\<lambda>(_, m'). Inr m')))
     hs (Inr empty_mm)"

definition four_vm :: vm where
  "four_vm = \<lparr>vm_mm = (case record_all [(0x100000, 0xa000), (0x200000, 0x1e000), (0x300000, 0x28000), (0x400000, 0x14000)] of
      Inr m \<Rightarrow> m | Inl _ \<Rightarrow> empty_mm), vm_calls = []\<rparr>"

lemmas mm_eval = record_region_def rb_insert_def rb_prev_def region_compare_def new_region_def
  init_mm_def init_mmap_def

lemma four_vm_eval: "record_all [(0x100000, 0xa000), (0x200000, 0x1e000), (0x300000, 0x28000), (0x400000, 0x14000)] = 
  Inr (vm_mm four_vm)"
  "mm_region_tree (vm_mm four_vm) = Node RB_BLACK (Node RB_BLACK Null 0 (Node RB_RED Null 3 Null)) 1 (Node RB_BLACK Null 2 Null)"
  "mm_regions (vm_mm four_vm) = [0, 3, 1, 2]"
  by (simp_all add: four_vm_def record_all_def empty_mm_def mm_eval)

lemmas run_eval = do_mmap_def do_munmap_def find_region_range_def munmap_head_def munmap_cut_def
  split_region_def split_offset_def unlink_region_def vmm_munmap_def vmm_mmap_def call_def
  rb_remove_def rb_unlink_def is_page_aligned_def roundup_def region_key_def Let_def
  mmap_ignored_flags_def mmap_known_flags_def mman_flags linux_to_darwin_mflags_def flag_if_def

lemma four_store: "mm_store (vm_mm four_vm) 0 = new_region 0x100000 0xa000 0x2000 3 0x22 (- 1) 0"
 "mm_store (vm_mm four_vm) 1 = new_region 0x200000 0x1e000 0x2000 3 0x22 (- 1) 0"
 "mm_store (vm_mm four_vm) (Suc 0) = new_region 0x200000 0x1e000 0x2000 3 0x22 (- 1) 0"
 "mm_store (vm_mm four_vm) 2 = new_region 0x300000 0x28000 0x2000 3 0x22 (- 1) 0"
 "mm_store (vm_mm four_vm) 3 = new_region 0x400000 0x14000 0x2000 3 0x22 (- 1) 0"
 "mm_fresh (vm_mm four_vm) = 4" "vm_calls four_vm = []"
  by (simp_all add: four_vm_def record_all_def empty_mm_def mm_eval)

lemma loop_step: "munmap_loop 6 = munmap_loop (Suc 5)" "munmap_loop 5 = munmap_loop (Suc 4)"
  by simp_all

text \<open>
  After recording regions at pages 10, 30, 40 and 20, the lookup of the range of pages 20 to 34
  returns the region at page 30 although the one at page 20 overlaps too: the walk only
  follows left children that overlap.  A fixed \<open>mmap\<close> over that range then dies in
  \<open>record_region\<close>, because \<open>do_munmap\<close> left the region at page 20 in place.
\<close>

theorem find_region_range_not_lowest:
  "record_all [(0x100000, 0xa000), (0x200000, 0x1e000), (0x300000, 0x28000), (0x400000, 0x14000)] =
     Inr (vm_mm four_vm) \<and>
   find_region_range 0x14000 0xf000 (vm_mm four_vm) = Some 1 \<and>
   r_gaddr (mm_store (vm_mm four_vm) 1) = 0x1e000 \<and>
   3 \<in> set (mm_regions (vm_mm four_vm)) \<and> r_gaddr (mm_store (vm_mm four_vm) 3) = 0x14000 \<and>
   overlaps (mm_store (vm_mm four_vm) 3) 0x14000 0xf000 \<and>
   do_mmap (\<lambda>_ _ _ _ _. Inr 0x500000) (\<lambda>_ _ _ _. True) 0x14000 0xf000 3 3 0x32 (- 1) 0 four_vm = Inl Panicked"
proof (intro conjI)
  show "find_region_range 0x14000 0xf000 (vm_mm four_vm) = Some 1"
    by (simp add: run_eval four_vm_eval four_store mm_eval)
  show "do_mmap (\<lambda>_ _ _ _ _. Inr 0x500000) (\<lambda>_ _ _ _. True) 0x14000 0xf000 3 3 0x32 (- 1) 0 four_vm = Inl Panicked"
    by (simp add: run_eval four_vm_eval four_store mm_eval loop_step)
qed (simp_all add: four_vm_eval four_store overlaps_def)

definition big_vm :: vm where
  "big_vm = \<lparr>vm_mm = \<lparr>mm_region_tree = Node RB_BLACK Null 0 Null, mm_regions = [0],
     mm_store = (\<lambda>_. new_region 0x7f0000000000 0x100000000 0x100000000 3 0x22 (- 1) 0), mm_fresh = 1,
     start_brk = 0, current_brk = 0, current_mmap_top = 0x200000000\<rparr>, vm_calls = []\<rparr>"

text \<open>
  \<open>split_region\<close> keeps the offset in a C \<open>int\<close>: splitting a region of 4 GiB in its middle makes
  the first part wrap around the address space, and the invariant is lost.
\<close>

theorem split_region_overflow:
  "mm_inv (vm_mm big_vm) \<and>
   (\<exists>m'. split_region (vm_mm big_vm) 0 0x180000000 = Inr m' \<and>
      r_size (mm_store m' 0) = 0xffffffff80000000 \<and> \<not> mm_inv m')"
  by (simp add: big_vm_def region_eval split_region_def split_offset_def Let_def rb_insert_def)

section \<open>Protection and synchronisation\<close>

definition protected :: "gaddr \<Rightarrow> 64 word \<Rightarrow> flags \<Rightarrow> mm_view \<Rightarrow> mm_view" where
  "protected g s hvprot w =
    (\<lambda>a. if in_range a g s then map_option (\<lambda>(h, p, f, d). (h, hvprot, f, d)) (w a) else w a)"

lemma region_prot_irrelevant [simp]:
  "region_ok (r\<lparr>r_prot := b\<rparr>) = region_ok r" "region_end (r\<lparr>r_prot := b\<rparr>) = region_end r"
  "contains (r\<lparr>r_prot := b\<rparr>) a = contains r a" "before (r\<lparr>r_prot := b\<rparr>) r' = before r r'"
  "before r' (r\<lparr>r_prot := b\<rparr>) = before r' r"
  by (simp_all add: region_ok_def region_end_def contains_def before_def)

lemma protect_region_view:
  assumes "mm_state v" "i \<in> set (mm_regions (vm_mm v))"
  shows "mm_state (protect_region i hvprot prot v)"
    and "view (vm_mm (protect_region i hvprot prot v)) =
      (\<lambda>a. if contains (mm_store (vm_mm v) i) a
           then map_option (\<lambda>(h, p, f, d). (h, hvprot, f, d)) (view (vm_mm v) a) else view (vm_mm v) a)"
proof -
  let ?m = "vm_mm v" and ?m' = "vm_mm (protect_region i hvprot prot v)"
  have st: "mm_store ?m' = (mm_store ?m)(i := (mm_store ?m i)\<lparr>r_prot := hvprot\<rparr>)"
    "mm_regions ?m' = mm_regions ?m" "mm_region_tree ?m' = mm_region_tree ?m" "mm_fresh ?m' = mm_fresh ?m"
    by (simp_all add: protect_region_def Let_def)
  have inv: "mm_inv ?m" using assms(1) by (simp add: mm_state_def)
  have bef: "before (mm_store ?m' x) (mm_store ?m' y) = before (mm_store ?m x) (mm_store ?m y)"
    "region_ok (mm_store ?m' x) = region_ok (mm_store ?m x)" for x y
    by (simp_all add: st(1))
  have inv': "mm_inv ?m'"
    using inv by (simp add: mm_inv_def regions_def regions_ok_def sorted_wrt_map bef st(2-4))
  then show "mm_state (protect_region i hvprot prot v)"
    using assms(1) by (auto simp: mm_state_def regions_small_def regions_def st)
  show "view ?m' = (\<lambda>a. if contains (mm_store ?m i) a
      then map_option (\<lambda>(h, p, f, d). (h, hvprot, f, d)) (view ?m a) else view ?m a)"
  proof
    fix a
    have "contains (mm_store ?m' j) a = contains (mm_store ?m j) a" for j by (simp add: st(1))
    then have "find_region a ?m' = Some j \<longleftrightarrow> find_region a ?m = Some j" for j
      using find_region_iff [OF inv, of a j] find_region_iff [OF inv', of a j] by (simp add: st(2))
    then have "find_region a ?m' = find_region a ?m"
      by (metis option.exhaust)
    moreover have "find_region a ?m = Some j \<Longrightarrow> contains (mm_store ?m i) a \<longleftrightarrow> j = i" for j
      using find_region_iff [OF inv, of a] assms(2) by (metis option.inject)
    ultimately show "view ?m' a = (if contains (mm_store ?m i) a
        then map_option (\<lambda>(h, p, f, d). (h, hvprot, f, d)) (view ?m a) else view ?m a)"
      by (cases "find_region a ?m") (auto simp: view_def st cell_def)
  qed
qed

text \<open>
  \<open>mprotect\<close> of a range that begins at the start of a region and ends inside it gives exactly the
  pages of the range the new protection, keeps the invariant and returns 0.
\<close>

theorem mprotect_region_start:
  fixes len0 prot
  defines "len \<equiv> roundup len0 0x1000" and "hvprot \<equiv> linux_mprot_to_hv_mflag prot"
  assumes "mm_state v" "i \<in> set (mm_regions (vm_mm v))" "addr = r_gaddr (mm_store (vm_mm v) i)"
    and "len0 \<noteq> 0" "unat len0 + 4096 \<le> unat (r_size (mm_store (vm_mm v) i))"
  shows "\<exists>v'. sys_mprotect addr len0 prot v = Inr (0, v') \<and> mm_state v' \<and>
      view (vm_mm v') = protected addr len hvprot (view (vm_mm v))"
proof -
  let ?m = "vm_mm v" let ?r = "mm_store ?m i"
  have inv: "mm_inv ?m" and small: "regions_small (regions ?m)" using assms(3) by (simp_all add: mm_state_def)
  have ok: "region_ok ?r" using region_ok_of [OF inv assms(4)] .
  have al: "is_page_aligned addr PAGE_4KB" and e64: "region_end ?r < 2 ^ 64"
    using ok assms(5) by (simp_all add: region_ok_def)
  have r: "is_page_aligned len PAGE_4KB" "unat len0 \<le> unat len" "unat len < unat len0 + 4096"
    using roundup_is_aligned [of len0] assms(7) e64 unfolding len_def by (simp_all add: region_end_def)
  have pos: "0 < unat len" using assms(6) r(2) by (simp add: unat_gt_0 flip: unat_gt_0)
  have sum: "unat (addr + len) = unat addr + unat len"
    by (rule unat_end) (use assms(5,7) r(3) e64 in \<open>simp add: region_end_def\<close>)
  have ins: "inside (addr + len) ?r"
    using pos sum assms(5,7) r(3) by (simp add: inside_def region_end_def)
  have al2: "is_page_aligned (addr + len) PAGE_4KB"
    using range_aligned(1) [OF al r(1)] sum unat_less_64 [of "addr + len"] by simp
  obtain xs ys where ids: "mm_regions ?m = xs @ i # ys" using assms(4) by (meson split_list)
  obtain m3 where m3: "split_region ?m i (addr + len) = Inr m3" "mm_inv m3" "regions_small (regions m3)"
      "mm_regions m3 = xs @ i # mm_fresh ?m # ys" "view m3 = view ?m" "mm_store m3 = split_store ?m i (addr + len)"
    using split_region_view [OF inv ids al2 ins small] by blast
  have "i \<noteq> mm_fresh ?m" using inv assms(4) by (auto simp: mm_inv_def)
  then have head: "mm_store m3 i = region_head ?r (addr + len)" by (simp add: m3(6) split_store_def)
  have cont: "contains (mm_store m3 i) a \<longleftrightarrow> in_range a addr len" for a
    using region_cut_ok(3) [OF ok ins al2] assms(5) sum by (simp add: head contains_def in_range_def)
  have find: "find_region addr ?m = Some i"
    using find_region_iff [OF inv] assms(4,5) region_ok_pos [OF ok] by (simp add: contains_def)
  have "\<not> r_gaddr ?r + r_size ?r \<le> addr + len"
    using ins by (simp add: word_le_nat_alt region_ok_end [OF ok] inside_def)
  moreover have "addr < addr + len" using pos sum by (simp add: word_less_nat_alt)
  ultimately have "sys_mprotect addr len0 prot v = Inr (0, protect_region i hvprot prot (v\<lparr>vm_mm := m3\<rparr>))"
    using al assms(6) find m3(1)
    unfolding sys_mprotect_def Let_def PAGE_SIZEOF_4KB len_def [symmetric] hvprot_def linux_mprot_to_hv_mflag_def
    by (simp add: assms(5))
  moreover have "mm_state (v\<lparr>vm_mm := m3\<rparr>)" "i \<in> set (mm_regions m3)"
    using m3 by (simp_all add: mm_state_def)
  ultimately show ?thesis
    using protect_region_view [of "v\<lparr>vm_mm := m3\<rparr>" i hvprot prot] m3(5)
    by (auto simp: protected_def cont)
qed

theorem mprotect_region_start_witness:
  "\<exists>v'. sys_mprotect 0x10000 0x1800 1 ex_vm = Inr (0, v') \<and> mm_state v' \<and>
      view (vm_mm v') = protected 0x10000 0x2000 (linux_mprot_to_hv_mflag 1) (view (vm_mm ex_vm))"
proof -
  have "0 \<in> set (mm_regions (vm_mm ex_vm))" "r_gaddr (mm_store (vm_mm ex_vm) 0) = 0x10000"
    "r_size (mm_store (vm_mm ex_vm) 0) = 0x3000" "roundup 0x1800 0x1000 = 0x2000"
    by (simp_all add: ex_eval)
  then show ?thesis
    using mprotect_region_start [of ex_vm 0 "0x10000" "0x1800" 1] ex_vm_state by simp
qed

text \<open>
  Elsewhere \<open>mprotect\<close> changes more or reports less than it should: from the middle of a region it
  also protects the pages after the range, and a range that ends at the end of the last
  region of a run is protected but answered with -ENOMEM.
\<close>

theorem mprotect_divergence:
  "(\<exists>v'. sys_mprotect 0x11000 0x1000 0 ex_vm = Inr (0, v') \<and>
      view (vm_mm ex_vm) 0x12000 = Some (0x102000, 3, 0x22, - 1) \<and>
      view (vm_mm v') 0x12000 = Some (0x102000, 0, 0x22, - 1)) \<and>
   (\<exists>v'. sys_mprotect 0x10000 0x3000 1 ex_vm = Inr (- LINUX_ENOMEM, v') \<and>
      view (vm_mm v') 0x12000 = Some (0x102000, 1, 0x22, - 1))"
proof (rule conjI)
  have steps: "mprotect_loop 3 = mprotect_loop (Suc 2)" "mprotect_loop 4 = mprotect_loop (Suc 3)" by simp_all
  note e = sys_mprotect_def run_eval ex_eval mm_eval protect_region_def view_def find_region_def cell_def steps
  show "\<exists>v'. sys_mprotect 0x11000 0x1000 0 ex_vm = Inr (0, v') \<and>
      view (vm_mm ex_vm) 0x12000 = Some (0x102000, 3, 0x22, - 1) \<and>
      view (vm_mm v') 0x12000 = Some (0x102000, 0, 0x22, - 1)"
    by (simp add: e)
  show "\<exists>v'. sys_mprotect 0x10000 0x3000 1 ex_vm = Inr (- LINUX_ENOMEM, v') \<and>
      view (vm_mm v') 0x12000 = Some (0x102000, 1, 0x22, - 1)"
    by (simp add: e)
qed

text \<open>
  \<open>msync\<close> of the last page of a region of three pages is refused with -ENOMEM whatever the host
  would answer, because its offset in the region is compared with the length of the range.
\<close>

theorem msync_refuses_mapped:
  "view (vm_mm ex_vm) 0x12000 \<noteq> None \<and> sys_msync host_msync 0x12000 0x1000 4 ex_vm = (- LINUX_ENOMEM, ex_vm)"
  by (simp add: ex_eval view_def find_region_def sys_msync_def)

end
