(* ===== verification/UserMem.thy ===== *)
theory UserMem
  imports MmapProps
begin

text \<open>
  Access of the handlers to the guest's memory, \<open>src/base.c\<close>.  The state is the process's and
  the kernel's region index and the bytes of the host; each loop handles at most one page of
  the guest per pass, which \<open>guest_to_host\<close> translates as a whole.  The specification is the
  byte behind each guest address.
\<close>

section \<open>Definitions\<close>

record user_mem =
  um_proc :: mm
  um_kern :: mm
  um_host :: "haddr \<Rightarrow> byte"

abbreviation um_ptr :: "user_mem \<Rightarrow> gaddr \<Rightarrow> haddr option" where
  "um_ptr u a \<equiv> guest_to_host (um_proc u) (um_kern u) a"

definition addr_ok :: "user_mem \<Rightarrow> gaddr \<Rightarrow> flags \<Rightarrow> bool" where
  "addr_ok u a access =
    (if user_addr_max \<le> a then False
     else case find_region a (um_proc u) of
            None \<Rightarrow> False
          | Some i \<Rightarrow> if access AND NOT (r_prot (mm_store (um_proc u) i)) \<noteq> 0 then False else True)"

text \<open>The bytes up to the end of the page, at most \<open>n\<close>; a \<open>size_t\<close> count is a natural number.\<close>

definition chunk :: "gaddr \<Rightarrow> nat \<Rightarrow> nat" where
  "chunk a n = min (unat (rounddown (a + 4096) 4096 - a)) n"

definition host_read :: "(haddr \<Rightarrow> byte) \<Rightarrow> haddr \<Rightarrow> nat \<Rightarrow> byte list" where
  "host_read mem h n = map (\<lambda>i. mem (h + of_nat i)) [0..<n]"

definition host_write :: "(haddr \<Rightarrow> byte) \<Rightarrow> haddr \<Rightarrow> byte list \<Rightarrow> haddr \<Rightarrow> byte" where
  "host_write mem h bs = (\<lambda>x. if unat (x - h) < length bs then bs ! unat (x - h) else mem x)"

lemma mod_sub_multiple:
  assumes "c \<le> x" "d dvd c"
  shows "x mod d = (x - c :: nat) mod d"
proof -
  obtain q where "c = d * q" using assms(2) by blast
  then have "x = (x - c) + d * q" using assms(1) by simp
  then show ?thesis by (metis mod_mult_self2)
qed

lemma page_rest: "unat (rounddown (a + 4096) 4096 - a) = 4096 - unat a mod 4096"
proof (cases "unat a + 4096 < 2 ^ 64")
  case True
  then have s: "unat (a + 4096) = unat a + 4096" by (simp add: unat_end)
  have "(unat a + 4096) div 4096 = unat a div 4096 + 1" by simp
  moreover have "unat a div 4096 * 4096 + unat a mod 4096 = unat a" by (rule div_mult_mod_eq)
  moreover have "unat a mod 4096 < 4096" by simp
  ultimately have "(unat a + 4096) div 4096 * 4096 = unat a + (4096 - unat a mod 4096)" by linarith
  then have "unat (rounddown (a + 4096) 4096) = unat a + (4096 - unat a mod 4096)"
    using unat_rounddown_4KB [of "a + 4096"] s by simp
  then show ?thesis by (simp add: unat_diff)
next
  case False
  then have "unat (a + 4096) = unat a + 4096 - 2 ^ 64"
    using unat_less_64 [of a] by (simp add: unat_plus_if')
  then have "unat (rounddown (a + 4096) 4096) = 0"
    using unat_less_64 [of a] by (simp add: unat_rounddown_4KB)
  moreover have "0 < unat a" using False by simp
  ultimately have "unat (rounddown (a + 4096) 4096 - a) = 2 ^ 64 - unat a"
    using unat_sub_if_size [of "rounddown (a + 4096) 4096" a] by (simp add: word_size)
  moreover have "unat a mod 4096 = (unat a - 18446744073709547520) mod 4096"
    by (rule mod_sub_multiple) (use False in simp_all)
  ultimately show ?thesis using False unat_less_64 [of a] by simp
qed

lemma chunk_pos [simp]: "0 < n \<Longrightarrow> 0 < chunk a n"
  by (simp add: chunk_def page_rest)

text \<open>The bytes not copied, and the bytes copied.\<close>

function copy_from_user :: "user_mem \<Rightarrow> gaddr \<Rightarrow> nat \<Rightarrow> nat \<times> byte list" where
  "copy_from_user u src n =
    (if 0 < n then
       case um_ptr u src of
         None \<Rightarrow> (n, [])
       | Some h \<Rightarrow>
           let size = chunk src n;
               (rest, bs) = copy_from_user u (src + of_nat size) (n - size)
           in (rest, host_read (um_host u) h size @ bs)
     else (0, []))"
  by pat_completeness auto
termination
  by (relation "measure (\<lambda>(u, src, n). n)") auto

function copy_to_user :: "user_mem \<Rightarrow> gaddr \<Rightarrow> byte list \<Rightarrow> nat \<times> user_mem" where
  "copy_to_user u dst bs =
    (if 0 < length bs then
       case um_ptr u dst of
         None \<Rightarrow> (length bs, u)
       | Some h \<Rightarrow>
           let size = chunk dst (length bs)
           in copy_to_user (u\<lparr>um_host := host_write (um_host u) h (take size bs)\<rparr>)
                (dst + of_nat size) (drop size bs)
     else (0, u))"
  by pat_completeness auto
termination
  by (relation "measure (\<lambda>(u, dst, bs). length bs)") auto

text \<open>\<open>strnlen\<close> on the host: the bytes before the first zero, at most \<open>n\<close>.\<close>

definition host_strnlen :: "(haddr \<Rightarrow> byte) \<Rightarrow> haddr \<Rightarrow> nat \<Rightarrow> nat" where
  "host_strnlen mem h n = length (takeWhile (\<lambda>b. b \<noteq> 0) (host_read mem h n))"

text \<open>The loop of \<open>strnlen_user\<close>; \<open>len\<close> is a C \<open>int\<close> and \<open>n\<close> is compared as signed.\<close>

function strnlen_loop :: "user_mem \<Rightarrow> gaddr \<Rightarrow> int \<Rightarrow> int \<Rightarrow> int" where
  "strnlen_loop u src n len =
    (if 0 < n then
       case um_ptr u src of
         None \<Rightarrow> 0
       | Some h \<Rightarrow>
           let size = chunk src (nat n);
               i = host_strnlen (um_host u) h size
           in if i < size then len + int i + 1
              else strnlen_loop u (src + of_nat size) (n - int size) (to_cint (len + int size))
     else len + 1)"
  by pat_completeness auto
termination
  by (relation "measure (\<lambda>(u, src, n, len). nat n)") auto

definition strnlen_user :: "user_mem \<Rightarrow> gaddr \<Rightarrow> nat \<Rightarrow> int" where
  "strnlen_user u src n = strnlen_loop u src (sint (of_nat n :: 64 word)) 0"

text \<open>The result of \<open>strncpy_from_user\<close> and the bytes it put into the buffer.\<close>

definition strncpy_from_user :: "user_mem \<Rightarrow> gaddr \<Rightarrow> nat \<Rightarrow> int \<times> byte list" where
  "strncpy_from_user u src n =
    (let len = unat (of_int (strnlen_user u src n) :: 64 word) in
     if len = 0 then (- LINUX_EFAULT, [])
     else if n < len then
       (case copy_from_user u src n of (rest, bs) \<Rightarrow>
          if rest \<noteq> 0 then (- LINUX_EFAULT, bs) else (int n, bs))
     else
       (case copy_from_user u src len of (rest, bs) \<Rightarrow>
          if rest \<noteq> 0 then (- LINUX_EFAULT, bs) else (int len - 1, bs)))"

section \<open>The byte behind an address\<close>

definition um_ok :: "user_mem \<Rightarrow> bool" where
  "um_ok u \<longleftrightarrow> mm_inv (um_proc u) \<and> mm_inv (um_kern u)"

definition user_byte :: "user_mem \<Rightarrow> gaddr \<Rightarrow> byte option" where
  "user_byte u a = map_option (um_host u) (um_ptr u a)"

lemma unat_page_offset:
  assumes "j < 4096 - unat a mod 4096"
  shows "unat (a + of_nat j :: gaddr) = unat a + j" "(unat a + j) div 4096 = unat a div 4096"
proof -
  have d: "unat a div 4096 * 4096 + unat a mod 4096 = unat a" by (rule div_mult_mod_eq)
  have "unat a div 4096 < 2 ^ 52" using unat_less_64 [of a] by (simp add: less_mult_imp_div_less)
  then have q: "unat a div 4096 \<le> 4503599627370495" by simp
  have m: "unat a mod 4096 + j < 4096" using assms by simp
  have "unat a + j < 18446744073709551616" using d q m by linarith
  then have "unat a + j < 2 ^ 64" by simp
  moreover have "unat (of_nat j :: gaddr) = j" using assms by (simp add: unat_of_nat)
  ultimately show "unat (a + of_nat j :: gaddr) = unat a + j" by (simp add: unat_end)
  show "(unat a + j) div 4096 = unat a div 4096"
  proof -
    have "unat a + j = (unat a mod 4096 + j) + unat a div 4096 * 4096" using d by simp
    then show ?thesis using m by (metis div_less div_mult_self1 add.right_neutral zero_neq_numeral)
  qed
qed

lemma le_page_iff: "s mod 4096 = 0 \<Longrightarrow> s \<le> (x :: nat) \<longleftrightarrow> s div 4096 \<le> x div 4096"
  by (metis div_le_mono div_mult_mod_eq add.right_neutral div_times_less_eq_dividend le_trans mult_le_mono1)

lemma contains_same_page:
  assumes "region_ok r" "j < 4096 - unat a mod 4096"
  shows "contains r (a + of_nat j) \<longleftrightarrow> contains r a"
proof -
  have al: "unat (r_gaddr r) mod 4096 = 0" "region_end r mod 4096 = 0"
    using assms(1) by (simp_all add: region_ok_def is_page_aligned_4KB region_end_def mod_eq_0_iff_dvd)
  show ?thesis
    using le_page_iff [OF al(1)] le_page_iff [OF al(2)] unat_page_offset [OF assms(2)]
    by (simp add: contains_def not_le [symmetric])
qed

lemma find_region_same_page:
  assumes "mm_inv m" "j < 4096 - unat a mod 4096"
  shows "find_region (a + of_nat j) m = find_region a m"
proof -
  have "find_region (a + of_nat j) m = Some i \<longleftrightarrow> find_region a m = Some i" for i
    using find_region_iff [OF assms(1)] contains_same_page [OF region_ok_of [OF assms(1)] assms(2)] by blast
  then show ?thesis by (metis option.exhaust)
qed

lemma um_ptr_same_page:
  assumes "um_ok u" "j < 4096 - unat a mod 4096"
  shows "um_ptr u (a + of_nat j) = map_option (\<lambda>h. h + of_nat j) (um_ptr u a)"
  using find_region_same_page [of "um_proc u" j a] find_region_same_page [of "um_kern u" j a] assms
  by (simp add: um_ok_def guest_to_host_def algebra_simps split: option.split)

lemma um_ptr_chunk:
  assumes "um_ok u" "um_ptr u a = Some h" "i < chunk a n"
  shows "um_ptr u (a + of_nat i) = Some (h + of_nat i)"
  using um_ptr_same_page [OF assms(1), of i a] assms(2,3) by (simp add: chunk_def page_rest)

lemma chunk_le: "chunk a n \<le> n" "chunk a n \<le> 4096"
  by (simp_all add: chunk_def page_rest)

declare copy_from_user.simps [simp del] copy_to_user.simps [simp del] strnlen_loop.simps [simp del]

section \<open>Copying from the guest\<close>

lemma host_read_bytes:
  assumes "um_ok u" "um_ptr u a = Some h"
  shows "map Some (host_read (um_host u) h (chunk a n)) = map (\<lambda>i. user_byte u (a + of_nat i)) [0..<chunk a n]"
  using um_ptr_chunk [OF assms] by (simp add: host_read_def user_byte_def)

lemma nth_bytes:
  assumes "map Some bs = map f [0..<length bs]" "i < length bs"
  shows "f i = Some (bs ! i)"
proof -
  have "map Some bs ! i = map f [0..<length bs] ! i" using assms(1) by simp
  then show ?thesis using assms(2) by simp
qed

lemma upt_split: "m \<le> n \<Longrightarrow> map f [0..<n] = map f [0..<m] @ map (\<lambda>i. f (m + i)) [0..<n - m]"
  by (rule nth_equalityI) (auto simp: nth_append)

lemma copy_from_user_spec:
  assumes "um_ok u" "copy_from_user u src n = (rest, bs)"
  shows "length bs + rest = n \<and> map Some bs = map (\<lambda>i. user_byte u (src + of_nat i)) [0..<length bs] \<and>
    (rest \<noteq> 0 \<longrightarrow> user_byte u (src + of_nat (length bs)) = None)"
  using assms
proof (induction u src n arbitrary: rest bs rule: copy_from_user.induct)
  case (1 u src n)
  show ?case
  proof (cases "0 < n")
    case False
    then show ?thesis using "1.prems"(2) by (simp add: copy_from_user.simps [of u src 0])
  next
    case True
    show ?thesis
    proof (cases "um_ptr u src")
      case None
      then show ?thesis using True "1.prems"(2) by (auto simp: copy_from_user.simps [of u src n] user_byte_def)
    next
      case (Some h)
      define k where "k = chunk src n"
      obtain rest' bs' where rec: "copy_from_user u (src + of_nat k) (n - k) = (rest', bs')"
        by fastforce
      have res: "rest = rest'" "bs = host_read (um_host u) h k @ bs'"
        using "1.prems"(2) True Some rec by (simp_all add: copy_from_user.simps [of u src n] k_def Let_def)
      have len: "length (host_read (um_host u) h k) = k" by (simp add: host_read_def)
      note IH = "1.IH" [OF True Some refl "1.prems"(1), folded k_def, OF rec]
      have "map Some bs = map (\<lambda>i. user_byte u (src + of_nat i)) [0..<k] @
          map (\<lambda>i. user_byte u (src + of_nat (k + i))) [0..<length bs']"
        using IH host_read_bytes [OF "1.prems"(1) Some, of n]
        by (simp add: res(2) k_def algebra_simps)
      moreover have "length bs = k + length bs'" by (simp add: res(2) len)
      ultimately have "map Some bs = map (\<lambda>i. user_byte u (src + of_nat i)) [0..<length bs]"
        using upt_split [of k "k + length bs'" "\<lambda>i. user_byte u (src + of_nat i)"] by simp
      then show ?thesis
        using IH \<open>length bs = k + length bs'\<close> chunk_le(1) [of src n]
        by (auto simp: res(1) k_def algebra_simps)
    qed
  qed
qed

section \<open>Copying to the guest\<close>

text \<open>The host bytes behind the first \<open>n\<close> addresses of a range.\<close>

definition targets :: "user_mem \<Rightarrow> gaddr \<Rightarrow> nat \<Rightarrow> haddr set" where
  "targets u dst n = {h. \<exists>i < n. um_ptr u (dst + of_nat i) = Some h}"

text \<open>No two addresses of the range share a host byte.\<close>

definition unaliased :: "user_mem \<Rightarrow> gaddr \<Rightarrow> nat \<Rightarrow> bool" where
  "unaliased u dst n \<longleftrightarrow> (\<forall>i j. i < j \<longrightarrow> j < n \<longrightarrow> um_ptr u (dst + of_nat i) \<noteq> None \<longrightarrow>
     um_ptr u (dst + of_nat i) \<noteq> um_ptr u (dst + of_nat j))"

lemma host_write_at:
  assumes "i < length bs" "length bs \<le> 4096"
  shows "host_write mem h bs (h + of_nat i) = bs ! i"
proof -
  have "unat (of_nat i :: haddr) = i" using assms by (simp add: unat_of_nat)
  then show ?thesis using assms(1) by (simp add: host_write_def)
qed

lemma host_write_other:
  assumes "\<And>i. i < length bs \<Longrightarrow> x \<noteq> h + of_nat i"
  shows "host_write mem h bs x = mem x"
proof -
  have "x = h + of_nat (unat (x - h))" by simp
  then have "\<not> unat (x - h) < length bs" using assms by blast
  then show ?thesis by (simp add: host_write_def)
qed

lemma copy_to_user_spec:
  assumes "um_ok u" "copy_to_user u dst bs = (rest, u')"
  shows "um_proc u' = um_proc u \<and> um_kern u' = um_kern u \<and> rest \<le> length bs \<and>
    (\<forall>i < length bs - rest. um_ptr u (dst + of_nat i) \<noteq> None) \<and>
    (rest \<noteq> 0 \<longrightarrow> um_ptr u (dst + of_nat (length bs - rest)) = None) \<and>
    (\<forall>x. x \<notin> targets u dst (length bs - rest) \<longrightarrow> um_host u' x = um_host u x) \<and>
    (unaliased u dst (length bs) \<longrightarrow>
       (\<forall>i < length bs - rest. \<forall>h. um_ptr u (dst + of_nat i) = Some h \<longrightarrow> um_host u' h = bs ! i))"
  using assms
proof (induction u dst bs arbitrary: rest u' rule: copy_to_user.induct)
  case (1 u dst bs)
  show ?case
  proof (cases "bs = []")
    case True
    then show ?thesis using "1.prems"(2) by (simp add: copy_to_user.simps [of u dst "[]"])
  next
    case False
    show ?thesis
    proof (cases "um_ptr u dst")
      case None
      then show ?thesis using False "1.prems"(2) by (auto simp: copy_to_user.simps [of u dst bs])
    next
      case (Some h)
      define k where "k = chunk dst (length bs)"
      define u1 where "u1 = u\<lparr>um_host := host_write (um_host u) h (take k bs)\<rparr>"
      have k: "k \<le> length bs" "k \<le> 4096" using chunk_le by (simp_all add: k_def)
      have rec: "copy_to_user u1 (dst + of_nat k) (drop k bs) = (rest, u')"
        using "1.prems"(2) False Some by (simp add: copy_to_user.simps [of u dst bs] k_def u1_def Let_def)
      have u1: "um_ok u1" "\<And>a. um_ptr u1 a = um_ptr u a"
        using "1.prems"(1) by (simp_all add: u1_def um_ok_def)
      have shift: "dst + of_nat k + of_nat i = dst + of_nat (k + i)" for i by simp
      have ne: "0 < length bs" using False by simp
      note IH = "1.IH" [OF ne Some refl, folded k_def, folded u1_def, OF u1(1) rec, unfolded u1(2) shift]
      define n where "n = length bs - rest"
      have rest: "rest \<le> length bs" "length (drop k bs) - rest = n - k" "k \<le> n" "n \<le> length bs"
        using IH k by (auto simp: n_def)
      have ptr: "i < k \<Longrightarrow> um_ptr u (dst + of_nat i) = Some (h + of_nat i)" for i
        using um_ptr_chunk [OF "1.prems"(1) Some] by (simp add: k_def)
      have IH2: "\<And>i. i < n - k \<Longrightarrow> um_ptr u (dst + of_nat (k + i)) \<noteq> None"
        and IH3: "unaliased u1 (dst + of_nat k) (length (drop k bs)) \<Longrightarrow> i < n - k \<Longrightarrow>
          um_ptr u (dst + of_nat (k + i)) = Some x \<Longrightarrow> um_host u' x = drop k bs ! i" for i x
        using IH unfolding rest(2) by blast+
      have maps: "\<forall>i < n. um_ptr u (dst + of_nat i) \<noteq> None"
      proof (intro allI impI)
        fix i assume "i < n"
        then show "um_ptr u (dst + of_nat i) \<noteq> None"
          using ptr [of i] IH2 [of "i - k"] by (cases "i < k") (auto simp del: of_nat_add)
      qed
      have stop: "rest \<noteq> 0 \<longrightarrow> um_ptr u (dst + of_nat n) = None"
        using IH rest(2,3) by (auto simp del: of_nat_add)
      have sub: "targets u1 (dst + of_nat k) (n - k) \<subseteq> targets u dst n"
      proof
        fix x assume "x \<in> targets u1 (dst + of_nat k) (n - k)"
        then obtain i where "i < n - k" "um_ptr u (dst + of_nat (k + i)) = Some x"
          unfolding targets_def u1(2) shift by blast
        then show "x \<in> targets u dst n"
          unfolding targets_def by (intro CollectI exI [of _ "k + i"]) (simp del: of_nat_add)
      qed
      have frame: "\<forall>x. x \<notin> targets u dst n \<longrightarrow> um_host u' x = um_host u x"
      proof (intro allI impI)
        fix x assume x: "x \<notin> targets u dst n"
        have "x \<noteq> h + of_nat i" if "i < length (take k bs)" for i
          using x ptr [of i] that rest(3) by (auto simp: targets_def)
        then have "um_host u1 x = um_host u x"
          using host_write_other [of "take k bs" x h] by (simp add: u1_def)
        moreover have "x \<notin> targets u1 (dst + of_nat k) (n - k)" using x sub by blast
        ultimately show "um_host u' x = um_host u x" using IH rest(2) by simp
      qed
      have vals: "um_host u' h' = bs ! i"
        if un: "unaliased u dst (length bs)" and i: "i < n" "um_ptr u (dst + of_nat i) = Some h'" for i h'
      proof (cases "i < k")
        case True
        then have h': "h' = h + of_nat i" using ptr i(2) by simp
        have "h' \<notin> targets u1 (dst + of_nat k) (n - k)"
        proof
          assume "h' \<in> targets u1 (dst + of_nat k) (n - k)"
          then obtain j where j: "j < n - k" "um_ptr u (dst + of_nat (k + j)) = Some h'"
            unfolding targets_def u1(2) shift by blast
          moreover have "i < k + j" "k + j < length bs" using True j(1) rest(4) by linarith+
          ultimately show False using un i(2) unfolding unaliased_def by (metis option.distinct(1))
        qed
        then have "um_host u' h' = um_host u1 h'" using IH rest(2) by simp
        also have "\<dots> = bs ! i"
          using host_write_at [of i "take k bs" "um_host u" h] True k by (simp add: u1_def h')
        finally show ?thesis .
      next
        case False
        have "unaliased u1 (dst + of_nat k) (length (drop k bs))"
          using un unfolding unaliased_def u1(2) shift by (auto simp del: of_nat_add)
        then have "um_host u' h' = drop k bs ! (i - k)"
          using IH3 [of "i - k" h'] i False by (simp del: of_nat_add)
        then show ?thesis using False rest(4) i(1) by simp
      qed
      have "um_proc u' = um_proc u" "um_kern u' = um_kern u" using IH by (simp_all add: u1_def)
      then show ?thesis using rest(1) maps stop frame vals unfolding n_def by blast
    qed
  qed
qed

text \<open>Inside of one page both copies are one access of the host.\<close>

lemma chunk_in_page:
  assumes "unat a mod 4096 + n \<le> 4096"
  shows "chunk a n = n"
  using assms by (simp add: chunk_def page_rest)

lemma copy_none [simp]: "copy_to_user u a [] = (0, u)" "copy_from_user u a 0 = (0, [])"
  by (subst copy_to_user.simps copy_from_user.simps, simp)+

lemma copy_to_page:
  assumes "um_ptr u a = Some h" "unat a mod 4096 + length bs \<le> 4096"
  shows "copy_to_user u a bs = (0, u\<lparr>um_host := host_write (um_host u) h bs\<rparr>)"
proof (cases "bs = []")
  case True
  then show ?thesis by (simp add: host_write_def)
next
  case False
  then show ?thesis
    by (subst copy_to_user.simps) (simp add: assms(1) chunk_in_page [OF assms(2)] Let_def)
qed

lemma copy_from_page:
  assumes "um_ptr u a = Some h" "unat a mod 4096 + n \<le> 4096"
  shows "copy_from_user u a n = (0, host_read (um_host u) h n)"
proof (cases "n = 0")
  case True
  then show ?thesis by (simp add: host_read_def)
next
  case False
  then show ?thesis
    by (subst copy_from_user.simps) (simp add: assms(1) chunk_in_page [OF assms(2)] Let_def)
qed

lemma unaliased_page:
  assumes "um_ok u" "um_ptr u a = Some h" "unat a mod 4096 + n \<le> 4096"
  shows "unaliased u a n"
proof -
  have "um_ptr u (a + of_nat i) = Some (h + of_nat i)" if "i < n" for i
    using um_ptr_same_page [OF assms(1), of i a] assms(2,3) that by simp
  moreover have "(h + of_nat i :: haddr) \<noteq> h + of_nat j" if "i < j" "j < n" for i j
  proof
    assume "(h + of_nat i :: haddr) = h + of_nat j"
    then have "unat (of_nat i :: haddr) = unat (of_nat j :: haddr)" by simp
    moreover have "j < 4096" using assms(3) that by simp
    ultimately show False using that by (simp add: unat_of_nat)
  qed
  ultimately show ?thesis unfolding unaliased_def by auto
qed

lemma host_read_write:
  assumes "length bs \<le> 4096"
  shows "host_read (host_write mem h bs) h (length bs) = bs"
  by (rule nth_equalityI) (simp_all add: host_read_def host_write_at [OF _ assms])

lemma copy_read_back:
  assumes "um_ok u" "unaliased u dst (length bs)" "copy_to_user u dst bs = (0, u')"
  shows "copy_from_user u' dst (length bs) = (0, bs) \<and>
    (\<forall>x. x \<notin> targets u dst (length bs) \<longrightarrow> um_host u' x = um_host u x)"
proof -
  note S = copy_to_user_spec [OF assms(1,3), simplified]
  have ok: "um_ok u'" and ptr: "um_ptr u' = um_ptr u" using S assms(1) by (auto simp: um_ok_def)
  have byte: "user_byte u' (dst + of_nat i) = Some (bs ! i)" if i: "i < length bs" for i
  proof -
    obtain h where h: "um_ptr u (dst + of_nat i) = Some h" using S i by auto
    then show ?thesis using S i assms(2) by (simp add: user_byte_def ptr)
  qed
  obtain rest bs' where c: "copy_from_user u' dst (length bs) = (rest, bs')" by fastforce
  note R = copy_from_user_spec [OF ok c]
  have rest: "rest = 0"
  proof (rule ccontr)
    assume "rest \<noteq> 0"
    then have "length bs' < length bs" "user_byte u' (dst + of_nat (length bs')) = None" using R by auto
    then show False using byte by simp
  qed
  then have len: "length bs' = length bs" using R by simp
  have "bs' ! i = bs ! i" if "i < length bs" for i
    using nth_bytes [of bs' "\<lambda>i. user_byte u' (dst + of_nat i)" i] R that byte len by simp
  then have "bs' = bs" using len by (simp add: nth_equalityI)
  then show ?thesis using c rest S by simp
qed

section \<open>Strings\<close>

text \<open>A string of \<open>k\<close> nonzero bytes and its terminator.\<close>

definition string_at :: "user_mem \<Rightarrow> gaddr \<Rightarrow> nat \<Rightarrow> bool" where
  "string_at u a k \<longleftrightarrow> (\<forall>i < k. \<exists>b. user_byte u (a + of_nat i) = Some b \<and> b \<noteq> 0) \<and>
     user_byte u (a + of_nat k) = Some 0"

lemma takeWhile_prefix:
  assumes "\<And>i. i < k \<Longrightarrow> P (xs ! i)" "k < length xs" "\<not> P (xs ! k)"
  shows "length (takeWhile P xs) = k"
  using assms
proof (induction xs arbitrary: k)
  case (Cons x xs)
  show ?case
  proof (cases k)
    case 0
    then show ?thesis using Cons.prems by simp
  next
    case (Suc m)
    have "P x" using Cons.prems(1) [of 0] Suc by simp
    moreover have "length (takeWhile P xs) = m"
    proof (rule Cons.IH)
      show "P (xs ! i)" if "i < m" for i using Cons.prems(1) [of "Suc i"] Suc that by simp
    qed (use Cons.prems(2,3) Suc in simp_all)
    ultimately show ?thesis using Suc by simp
  qed
qed simp

lemma strnlen_loop_found:
  assumes "um_ok u" "string_at u src k" "int k < n" "len + n < 2 ^ 31" "0 \<le> len"
  shows "strnlen_loop u src n len = len + int k + 1"
  using assms
proof (induction u src n len arbitrary: k rule: strnlen_loop.induct)
  case (1 u src n len)
  have pos: "0 < n" using "1.prems"(3) by simp
  have "user_byte u src \<noteq> None"
    using "1.prems"(2) by (cases k) (auto simp: string_at_def)
  then obtain h where h: "um_ptr u src = Some h" by (auto simp: user_byte_def)
  define c where "c = chunk src (nat n)"
  have c: "0 < c" "int c \<le> n" "c \<le> 4096"
    using chunk_le [of src "nat n"] chunk_pos [of "nat n" src] pos by (auto simp: c_def)
  have rd: "host_read (um_host u) h c ! i = b" if "i < c" "user_byte u (src + of_nat i) = Some b" for i b
    using that um_ptr_chunk [OF "1.prems"(1) h, of i "nat n"]
    by (simp add: host_read_def user_byte_def c_def)
  have len: "length (host_read (um_host u) h c) = c" by (simp add: host_read_def)
  have nz: "\<exists>b. user_byte u (src + of_nat i) = Some b \<and> b \<noteq> 0" if "i < k" for i
    using "1.prems"(2) that by (simp add: string_at_def)
  show ?case
  proof (cases "k < c")
    case True
    have "host_strnlen (um_host u) h c = k" unfolding host_strnlen_def
    proof (rule takeWhile_prefix)
      show "host_read (um_host u) h c ! i \<noteq> 0" if "i < k" for i
        using nz [OF that] rd [of i] that True by auto
      show "k < length (host_read (um_host u) h c)" using True len by simp
      show "\<not> host_read (um_host u) h c ! k \<noteq> 0"
        using rd [OF True, of 0] "1.prems"(2) by (simp add: string_at_def)
    qed
    then show ?thesis using pos h True by (simp add: strnlen_loop.simps [of u src n len] c_def Let_def)
  next
    case False
    have full: "host_strnlen (um_host u) h c = c"
    proof -
      have "\<forall>b \<in> set (host_read (um_host u) h c). b \<noteq> 0"
      proof
        fix b assume "b \<in> set (host_read (um_host u) h c)"
        then obtain i where i: "i < c" "b = host_read (um_host u) h c ! i" by (auto simp: in_set_conv_nth len)
        then obtain b' where "user_byte u (src + of_nat i) = Some b'" "b' \<noteq> 0" using nz [of i] False by auto
        then show "b \<noteq> 0" using rd [OF i(1)] i(2) by simp
      qed
      then show ?thesis by (simp add: host_strnlen_def takeWhile_eq_all_conv [THEN iffD2] len)
    qed
    have str: "string_at u (src + of_nat c) (k - c)"
    proof -
      have shift: "src + of_nat c + of_nat i = src + of_nat (c + i)" for i by simp
      have "\<exists>b. user_byte u (src + of_nat (c + i)) = Some b \<and> b \<noteq> 0" if "i < k - c" for i
        by (rule nz) (use that in simp)
      moreover have "user_byte u (src + of_nat (c + (k - c))) = Some 0"
        using "1.prems"(2) False by (simp add: string_at_def del: of_nat_add)
      ultimately show ?thesis unfolding string_at_def shift by blast
    qed
    have cint: "to_cint (len + int c) = len + int c"
      using "1.prems"(4,5) c(2) by (simp add: to_cint_id)
    have "strnlen_loop u src n len = strnlen_loop u (src + of_nat c) (n - int c) (to_cint (len + int c))"
      using pos h full by (simp add: strnlen_loop.simps [of u src n len] c_def Let_def)
    also have "\<dots> = to_cint (len + int c) + int (k - c) + 1"
      using "1.IH" [OF pos h refl refl, folded c_def, unfolded full, OF _ "1.prems"(1) str]
        "1.prems"(3-5) False c by (simp add: cint of_nat_diff)
    finally show ?thesis using False by (simp add: cint of_nat_diff)
  qed
qed

section \<open>Properties\<close>

text \<open>The process of the examples above, with a kernel that maps one page at the user limit.\<close>

definition ex_kern :: mm where
  "ex_kern = \<lparr>mm_region_tree = Node RB_BLACK Null 0 Null, mm_regions = [0],
     mm_store = (\<lambda>_. new_region 0x900000 user_addr_max 0x1000 3 (- 1) (- 1) 0), mm_fresh = 1,
     start_brk = 0, current_brk = 0, current_mmap_top = 0\<rparr>"

definition ex_um :: user_mem where
  "ex_um = \<lparr>um_proc = vm_mm ex_vm, um_kern = ex_kern,
     um_host = (\<lambda>h. if h = 0x101002 then 0 else if h = 0x101000 then 0x68 else 0x69)\<rparr>"

lemma ex_um_ok: "um_ok ex_um"
  using ex_vm_state by (simp add: um_ok_def ex_um_def ex_kern_def region_eval user_addr_max_def)

lemma ex_um_ptr:
  "um_ptr ex_um 0x11000 = Some 0x101000" "um_ptr ex_um 0x11001 = Some 0x101001" "um_ptr ex_um 0x11002 = Some 0x101002"
  by (simp_all add: ex_um_def guest_to_host_def find_region_def ex_eval)

text \<open>
  C21: \<open>copy_from_user\<close> copies the bytes behind the guest addresses in order, page by page, and
  reports how many are left; it reports none left exactly when every address is mapped.
\<close>

theorem copy_from_user_correct:
  assumes "um_ok u"
  shows "case copy_from_user u src n of (rest, bs) \<Rightarrow>
    length bs + rest = n \<and> map Some bs = map (\<lambda>i. user_byte u (src + of_nat i)) [0..<length bs] \<and>
    (rest = 0 \<longleftrightarrow> (\<forall>i < n. user_byte u (src + of_nat i) \<noteq> None))"
proof -
  obtain rest bs where c: "copy_from_user u src n = (rest, bs)" by fastforce
  note S = copy_from_user_spec [OF assms c]
  have "user_byte u (src + of_nat i) \<noteq> None" if "i < length bs" for i
    using nth_bytes [of bs "\<lambda>i. user_byte u (src + of_nat i)" i] S that by simp
  then have "rest = 0 \<longleftrightarrow> (\<forall>i < n. user_byte u (src + of_nat i) \<noteq> None)"
  proof (cases "rest = 0")
    case False
    then have "length bs < n" "user_byte u (src + of_nat (length bs)) = None" using S by auto
    then show ?thesis using False by blast
  qed (use S in simp)
  then show ?thesis using c S by simp
qed

theorem copy_from_user_correct_witness:
  "case copy_from_user ex_um 0x11000 3 of (rest, bs) \<Rightarrow> rest = 0 \<and> bs = [0x68, 0x69, 0]"
proof -
  have b: "user_byte ex_um 0x11000 = Some 0x68" "user_byte ex_um 0x11001 = Some 0x69"
      "user_byte ex_um 0x11002 = Some 0"
    using ex_um_ptr by (simp_all add: user_byte_def) (simp_all add: ex_um_def)
  obtain rest bs where c: "copy_from_user ex_um 0x11000 3 = (rest, bs)" by fastforce
  note T = copy_from_user_correct [OF ex_um_ok, where src = "0x11000" and n = 3, unfolded c, simplified]
  have all: "\<forall>i < 3. user_byte ex_um (0x11000 + of_nat i) \<noteq> None"
    using b by (auto simp: less_Suc_eq numeral_3_eq_3)
  then have "rest = 0" "length bs = 3" using T by auto
  moreover from this have "map Some bs = [Some 0x68, Some 0x69, Some 0]"
    using T b by (simp add: upt_rec)
  ultimately show ?thesis using c by auto
qed

text \<open>
  What \<open>copy_to_user\<close> wrote is what \<open>copy_from_user\<close> reads back, when no two addresses of the
  range share a host byte; nothing else on the host changes.
\<close>

theorem copy_roundtrip:
  assumes "um_ok u" "unaliased u dst (length bs)" "copy_to_user u dst bs = (0, u')"
  shows "copy_from_user u' dst (length bs) = (0, bs) \<and>
    (\<forall>x. x \<notin> targets u dst (length bs) \<longrightarrow> um_host u' x = um_host u x)"
  using assms by (rule copy_read_back)

theorem copy_roundtrip_witness:
  "\<exists>u'. copy_to_user ex_um 0x11000 [1, 2] = (0, u') \<and> copy_from_user u' 0x11000 2 = (0, [1, 2])"
proof -
  have un: "unaliased ex_um 0x11000 (length [1 :: byte, 2])"
    using ex_um_ptr by (auto simp: unaliased_def less_Suc_eq)
  obtain rest u' where c: "copy_to_user ex_um 0x11000 [1, 2] = (rest, u')" by fastforce
  have "rest = 0"
    using copy_to_user_spec [OF ex_um_ok c] ex_um_ptr
    by (cases rest) (auto simp: le_Suc_eq)
  then show ?thesis using copy_roundtrip [OF ex_um_ok un, of u'] c by (auto simp: numeral_2_eq_2)
qed

text \<open>
  C22: A string of \<open>k\<close> bytes that ends before the buffer does is copied by \<open>strncpy_from_user\<close> with its
  terminator, also across pages, and the result is its length.
\<close>

theorem strncpy_from_user_string:
  assumes "um_ok u" "string_at u src k" "k < n" "n < 2 ^ 31"
  shows "\<exists>bs. strncpy_from_user u src n = (int k, bs) \<and> length bs = Suc k \<and>
    (\<forall>i < Suc k. user_byte u (src + of_nat i) = Some (bs ! i))"
proof -
  have "sint (word_of_int (int n) :: 64 word) = signed_take_bit (LENGTH(64) - 1) (int n)"
    by (rule sint_sbintrunc')
  moreover have "signed_take_bit (LENGTH(64) - 1) (int n) = int n"
    using assms(4) by (simp add: signed_take_bit_int_eq_self)
  ultimately have n: "sint (of_nat n :: 64 word) = int n" by simp
  have len: "strnlen_user u src n = int (Suc k)"
    using strnlen_loop_found [OF assms(1,2), of "int n" 0] assms(3,4) by (simp add: strnlen_user_def n)
  have u: "unat (of_int (int (Suc k)) :: 64 word) = Suc k"
    using assms(3,4) by (simp add: unat_of_nat del: of_nat_Suc)
  obtain rest bs where c: "copy_from_user u src (Suc k) = (rest, bs)" by fastforce
  note S = copy_from_user_spec [OF assms(1) c]
  have mapd: "user_byte u (src + of_nat i) \<noteq> None" if "i < Suc k" for i
    using assms(2) that unfolding string_at_def by (metis less_Suc_eq option.distinct(1))
  have rest: "rest = 0"
    using S mapd [of "length bs"] by (cases rest) auto
  then have lb: "length bs = Suc k" using S by simp
  have "user_byte u (src + of_nat i) = Some (bs ! i)" if "i < Suc k" for i
    using nth_bytes [of bs "\<lambda>i. user_byte u (src + of_nat i)" i] S that lb by simp
  moreover have "strncpy_from_user u src n = (int k, bs)"
    using c rest assms(3) unfolding strncpy_from_user_def len u Let_def by simp
  ultimately show ?thesis using lb by blast
qed

theorem strncpy_from_user_string_witness:
  "\<exists>bs. strncpy_from_user ex_um 0x11000 16 = (2, bs) \<and> length bs = 3"
proof -
  have "string_at ex_um 0x11000 2"
    using ex_um_ptr unfolding string_at_def user_byte_def
    by (auto dest!: less_2_cases) (auto simp: ex_um_def)
  then show ?thesis using strncpy_from_user_string [OF ex_um_ok, of "0x11000" 2 16] by auto
qed

text \<open>
  \<open>copy_to_user\<close> does not consult \<open>addr_ok\<close>: an address at or above the user limit that the
  process does not map and the kernel does (page tables, descriptor tables) is written.
\<close>

theorem copy_to_user_kernel:
  assumes "user_addr_max \<le> a" "find_region a (um_proc u) = None" "find_region a (um_kern u) = Some i"
  shows "\<not> addr_ok u a access \<and>
    (\<exists>h u'. um_ptr u a = Some h \<and> copy_to_user u a [b] = (0, u') \<and> um_host u' h = b)"
proof -
  obtain h where h: "um_ptr u a = Some h" using assms(2,3) by (simp add: guest_to_host_def)
  have "chunk a (Suc 0) = Suc 0" by (simp add: chunk_def page_rest)
  then have "copy_to_user u a [b] = (0, u\<lparr>um_host := host_write (um_host u) h [b]\<rparr>)"
    using h by (simp add: copy_to_user.simps [of u a "[b]"] copy_to_user.simps [of _ _ "[]"])
  then show ?thesis using h assms(1) by (simp add: addr_ok_def host_write_def)
qed

theorem copy_to_user_kernel_witness:
  "\<not> addr_ok ex_um user_addr_max 2 \<and>
    (\<exists>h u'. um_ptr ex_um user_addr_max = Some h \<and> copy_to_user ex_um user_addr_max [7] = (0, u') \<and> um_host u' h = 7)"
proof -
  have "find_region user_addr_max (um_proc ex_um) = None" "find_region user_addr_max (um_kern ex_um) = Some 0"
    by (simp_all add: ex_um_def ex_kern_def user_addr_max_def find_region_def ex_eval)
  then show ?thesis using copy_to_user_kernel [of user_addr_max ex_um 0 2 7] by simp
qed

end
