(* ===== verification/Conv.thy ===== *)
theory Conv
  imports Errno
begin

text \<open>
  The conversions of \<open>src/conv.c\<close> between the structures and flag words of Linux and those of
  Darwin: open and \<open>at\<close> flags, \<open>stat\<close>, \<open>statfs\<close>, terminal settings, signals, signal sets and
  actions, record locks and resource limits.  The Darwin values are those of Darwin's headers.
  A sequence of \<open>if (x AND a) y |= b;\<close> lines is a table of pairs \<open>(a, b)\<close> and the fold
  \<open>flag_conv\<close>; what such a sequence does is proved once in the locale \<open>flag_table\<close> and reused
  for every table.
\<close>

section \<open>Sequences of flag tests\<close>

definition flag_step :: "'a::len word \<Rightarrow> 'b::len word \<Rightarrow> 'a word \<times> 'b word \<Rightarrow> 'b word" where
  "flag_step x y ab = (if x AND fst ab \<noteq> 0 then y OR snd ab else y)"

definition flag_conv :: "('a::len word \<times> 'b::len word) list \<Rightarrow> 'a word \<Rightarrow> 'b word \<Rightarrow> 'b word" where
  "flag_conv tbl x y = foldl (flag_step x) y tbl"

fun disjoint_masks :: "'a::len word list \<Rightarrow> bool" where
  "disjoint_masks [] \<longleftrightarrow> True"
| "disjoint_masks (a # as) \<longleftrightarrow> a \<noteq> 0 \<and> list_all (\<lambda>b. a AND b = 0) as \<and> disjoint_masks as"

lemma flag_conv_simps [simp]:
  "flag_conv [] x y = y" "flag_conv (ab # tbl) x y = flag_conv tbl x (flag_step x y ab)"
  by (simp_all add: flag_conv_def)

lemma bit_flag_conv:
  "bit (flag_conv tbl x y) n \<longleftrightarrow> bit y n \<or> (\<exists>(a, b) \<in> set tbl. x AND a \<noteq> 0 \<and> bit b n)"
  by (induction tbl arbitrary: y) (auto simp: flag_step_def bit_or_iff)

lemma disjoint_masks_nonzero: "disjoint_masks as \<Longrightarrow> a \<in> set as \<Longrightarrow> a \<noteq> 0"
  by (induction as) auto

lemma word_and_eq_0_iff: "(x :: 'a::len word) AND a = 0 \<longleftrightarrow> (\<forall>n. \<not> (bit x n \<and> bit a n))"
  using bit_imp_le_length by (auto simp: bit_eq_iff bit_and_iff)

lemma disjoint_masks_pair:
  assumes "disjoint_masks (map f tbl)" "p \<in> set tbl" "q \<in> set tbl" "f p AND f q \<noteq> 0"
  shows "f p = f q"
  using assms
proof (induction tbl)
  case (Cons r tbl)
  then show ?case by (auto simp: list_all_iff and.commute)
qed simp

text \<open>
  A table whose left masks are disjoint, whose right masks are disjoint, and whose left masks
  decide the right ones.
\<close>

locale flag_table =
  fixes tbl :: "('a::len word \<times> 'b::len word) list"
  assumes lefts: "disjoint_masks (map fst tbl)"
    and rights: "disjoint_masks (map snd tbl)"
begin

lemma left_unique:
  assumes "(a, b) \<in> set tbl" "(a', b') \<in> set tbl" "b AND b' \<noteq> 0"
  shows "b = b'"
  using disjoint_masks_pair [OF rights assms(1,2)] assms(3) by simp

lemma snd_distinct: "distinct (map snd tbl)"
proof -
  have "disjoint_masks as \<Longrightarrow> distinct as" for as :: "'b word list"
    by (induction as) (auto simp: list_all_iff)
  then show ?thesis using rights by blast
qed

lemma same_row:
  assumes "(a, b) \<in> set tbl" "(a', b') \<in> set tbl" "b AND b' \<noteq> 0"
  shows "a = a'"
proof -
  have "distinct (map fst (map prod.swap tbl))" using snd_distinct by (simp add: comp_def)
  moreover have "(b, a) \<in> set (map prod.swap tbl)" "(b, a') \<in> set (map prod.swap tbl)"
    using left_unique [OF assms] assms(1,2) by force+
  ultimately show ?thesis by (rule eq_key_imp_eq_value)
qed

lemma conv_mask:
  assumes "(a, b) \<in> set tbl" "y AND b = 0"
  shows "flag_conv tbl x y AND b \<noteq> 0 \<longleftrightarrow> x AND a \<noteq> 0"
proof
  assume "flag_conv tbl x y AND b \<noteq> 0"
  then obtain n where n: "bit (flag_conv tbl x y) n" "bit b n"
    by (auto simp: word_and_eq_0_iff)
  moreover have "\<not> bit y n" using assms(2) n(2) by (auto simp: word_and_eq_0_iff)
  ultimately obtain a' b' where row: "(a', b') \<in> set tbl" "x AND a' \<noteq> 0" "bit b' n"
    by (auto simp: bit_flag_conv)
  have "b AND b' \<noteq> 0" using n(2) row(3) by (auto simp: word_and_eq_0_iff)
  then show "x AND a \<noteq> 0" using same_row [OF assms(1) row(1)] row(2) by simp
next
  assume "x AND a \<noteq> 0"
  moreover have "b \<noteq> 0" using disjoint_masks_nonzero [OF rights] assms(1) by force
  then obtain n where "bit b n" by (auto simp: bit_eq_iff)
  ultimately have "bit (flag_conv tbl x y) n \<and> bit b n" using assms(1) by (auto simp: bit_flag_conv)
  then show "flag_conv tbl x y AND b \<noteq> 0" by (auto simp: word_and_eq_0_iff)
qed

text \<open>There and back: every mask that is hit comes back whole, nothing else does.\<close>

lemma roundtrip:
  assumes "\<forall>b \<in> set (map snd tbl). y AND b = 0"
  shows "flag_conv (map prod.swap tbl) (flag_conv tbl x y) z = flag_conv (map (\<lambda>(a, b). (a, a)) tbl) x z"
proof (rule bit_eqI)
  fix n
  have "(a, b) \<in> set tbl \<Longrightarrow> flag_conv tbl x y AND b \<noteq> 0 \<longleftrightarrow> x AND a \<noteq> 0" for a b
    using conv_mask [of a b y x] assms by force
  then show "bit (flag_conv (map prod.swap tbl) (flag_conv tbl x y) z) n =
      bit (flag_conv (map (\<lambda>(a, b). (a, a)) tbl) x z) n"
    by (fastforce simp: bit_flag_conv)
qed

end

text \<open>When the left masks are single bits, the hit masks are the bits of the word itself.\<close>

locale bit_table = flag_table tbl for tbl :: "('a::len word \<times> 'b::len word) list" +
  fixes positions :: "nat list"
  assumes positions: "map fst tbl = map (\<lambda>n. 2 ^ n) positions"
begin

lemma hit_bits: "flag_conv (map (\<lambda>(a, b). (a, a)) tbl) x z = z OR x AND foldr (OR) (map fst tbl) 0"
proof (rule bit_eqI)
  fix n
  have single: "(a, b) \<in> set tbl \<Longrightarrow> (x AND a \<noteq> 0 \<and> bit a n) = (bit x n \<and> bit a n)" for a b
  proof -
    assume "(a, b) \<in> set tbl"
    then have "a \<in> set (map fst tbl)" by force
    then obtain k where "a = 2 ^ k" unfolding positions by auto
    then show ?thesis by (auto simp: and_exp_eq_0_iff_not_bit bit_exp_iff)
  qed
  have ors: "bit (foldr (OR) as 0) n \<longleftrightarrow> (\<exists>a \<in> set as. bit a n)" for as :: "'a word list"
    by (induction as) (auto simp: bit_or_iff)
  have "bit (flag_conv (map (\<lambda>(a, b). (a, a)) tbl) x z) n \<longleftrightarrow>
      bit z n \<or> (\<exists>(a, b) \<in> set tbl. x AND a \<noteq> 0 \<and> bit a n)"
    by (simp add: bit_flag_conv case_prod_beta)
  also have "\<dots> \<longleftrightarrow> bit z n \<or> (\<exists>(a, b) \<in> set tbl. bit x n \<and> bit a n)"
    using single by blast
  also have "\<dots> \<longleftrightarrow> bit (z OR x AND foldr (OR) (map fst tbl) 0) n"
    by (auto simp: bit_or_iff bit_and_iff ors case_prod_beta)
  finally show "bit (flag_conv (map (\<lambda>(a, b). (a, a)) tbl) x z) n =
      bit (z OR x AND foldr (OR) (map fst tbl) 0) n" .
qed

lemma bit_roundtrip:
  assumes "\<forall>b \<in> set (map snd tbl). y AND b = 0"
  shows "flag_conv (map prod.swap tbl) (flag_conv tbl x y) 0 = x AND foldr (OR) (map fst tbl) 0"
  by (simp add: roundtrip [OF assms] hit_bits)

end

section \<open>Terminal settings\<close>

text \<open>Darwin's \<open>termios.h\<close> beside the Linux values of \<open>include/linux/ioctl.h\<close>.\<close>

abbreviation (input) IGNBRK :: "64 word" where "IGNBRK \<equiv> 1"
abbreviation (input) LINUX_IGNBRK :: flags where "LINUX_IGNBRK \<equiv> 1"
abbreviation (input) BRKINT :: "64 word" where "BRKINT \<equiv> 2"
abbreviation (input) LINUX_BRKINT :: flags where "LINUX_BRKINT \<equiv> 2"
abbreviation (input) IGNPAR :: "64 word" where "IGNPAR \<equiv> 4"
abbreviation (input) LINUX_IGNPAR :: flags where "LINUX_IGNPAR \<equiv> 4"
abbreviation (input) PARMRK :: "64 word" where "PARMRK \<equiv> 8"
abbreviation (input) LINUX_PARMRK :: flags where "LINUX_PARMRK \<equiv> 8"
abbreviation (input) INPCK :: "64 word" where "INPCK \<equiv> 0x10"
abbreviation (input) LINUX_INPCK :: flags where "LINUX_INPCK \<equiv> 0x10"
abbreviation (input) ISTRIP :: "64 word" where "ISTRIP \<equiv> 0x20"
abbreviation (input) LINUX_ISTRIP :: flags where "LINUX_ISTRIP \<equiv> 0x20"
abbreviation (input) INLCR :: "64 word" where "INLCR \<equiv> 0x40"
abbreviation (input) LINUX_INLCR :: flags where "LINUX_INLCR \<equiv> 0x40"
abbreviation (input) IGNCR :: "64 word" where "IGNCR \<equiv> 0x80"
abbreviation (input) LINUX_IGNCR :: flags where "LINUX_IGNCR \<equiv> 0x80"
abbreviation (input) ICRNL :: "64 word" where "ICRNL \<equiv> 0x100"
abbreviation (input) LINUX_ICRNL :: flags where "LINUX_ICRNL \<equiv> 0x100"
abbreviation (input) IXON :: "64 word" where "IXON \<equiv> 0x200"
abbreviation (input) LINUX_IXON :: flags where "LINUX_IXON \<equiv> 0x400"
abbreviation (input) IXANY :: "64 word" where "IXANY \<equiv> 0x800"
abbreviation (input) LINUX_IXANY :: flags where "LINUX_IXANY \<equiv> 0x800"
abbreviation (input) IXOFF :: "64 word" where "IXOFF \<equiv> 0x400"
abbreviation (input) LINUX_IXOFF :: flags where "LINUX_IXOFF \<equiv> 0x1000"
abbreviation (input) IMAXBEL :: "64 word" where "IMAXBEL \<equiv> 0x2000"
abbreviation (input) LINUX_IMAXBEL :: flags where "LINUX_IMAXBEL \<equiv> 0x2000"
abbreviation (input) OPOST :: "64 word" where "OPOST \<equiv> 1"
abbreviation (input) LINUX_OPOST :: flags where "LINUX_OPOST \<equiv> 1"
abbreviation (input) ONLCR :: "64 word" where "ONLCR \<equiv> 2"
abbreviation (input) LINUX_ONLCR :: flags where "LINUX_ONLCR \<equiv> 4"
abbreviation (input) TAB3 :: "64 word" where "TAB3 \<equiv> 4"
abbreviation (input) LINUX_XTABS :: flags where "LINUX_XTABS \<equiv> 0x1800"
abbreviation (input) CSTOPB :: "64 word" where "CSTOPB \<equiv> 0x400"
abbreviation (input) LINUX_CSTOPB :: flags where "LINUX_CSTOPB \<equiv> 0x40"
abbreviation (input) CREAD :: "64 word" where "CREAD \<equiv> 0x800"
abbreviation (input) LINUX_CREAD :: flags where "LINUX_CREAD \<equiv> 0x80"
abbreviation (input) PARENB :: "64 word" where "PARENB \<equiv> 0x1000"
abbreviation (input) LINUX_PARENB :: flags where "LINUX_PARENB \<equiv> 0x100"
abbreviation (input) PARODD :: "64 word" where "PARODD \<equiv> 0x2000"
abbreviation (input) LINUX_PARODD :: flags where "LINUX_PARODD \<equiv> 0x200"
abbreviation (input) HUPCL :: "64 word" where "HUPCL \<equiv> 0x4000"
abbreviation (input) LINUX_HUPCL :: flags where "LINUX_HUPCL \<equiv> 0x400"
abbreviation (input) CLOCAL :: "64 word" where "CLOCAL \<equiv> 0x8000"
abbreviation (input) LINUX_CLOCAL :: flags where "LINUX_CLOCAL \<equiv> 0x800"
abbreviation (input) CRTSCTS :: "64 word" where "CRTSCTS \<equiv> 0x30000"
abbreviation (input) LINUX_CRTSCTS :: flags where "LINUX_CRTSCTS \<equiv> 0x80000000"
abbreviation (input) ISIG :: "64 word" where "ISIG \<equiv> 0x80"
abbreviation (input) LINUX_ISIG :: flags where "LINUX_ISIG \<equiv> 1"
abbreviation (input) ICANON :: "64 word" where "ICANON \<equiv> 0x100"
abbreviation (input) LINUX_ICANON :: flags where "LINUX_ICANON \<equiv> 2"
abbreviation (input) ECHO :: "64 word" where "ECHO \<equiv> 8"
abbreviation (input) LINUX_ECHO :: flags where "LINUX_ECHO \<equiv> 8"
abbreviation (input) ECHOE :: "64 word" where "ECHOE \<equiv> 2"
abbreviation (input) LINUX_ECHOE :: flags where "LINUX_ECHOE \<equiv> 0x10"
abbreviation (input) ECHOK :: "64 word" where "ECHOK \<equiv> 4"
abbreviation (input) LINUX_ECHOK :: flags where "LINUX_ECHOK \<equiv> 0x20"
abbreviation (input) ECHONL :: "64 word" where "ECHONL \<equiv> 0x10"
abbreviation (input) LINUX_ECHONL :: flags where "LINUX_ECHONL \<equiv> 0x40"
abbreviation (input) NOFLSH :: "64 word" where "NOFLSH \<equiv> 0x80000000"
abbreviation (input) LINUX_NOFLSH :: flags where "LINUX_NOFLSH \<equiv> 0x80"
abbreviation (input) TOSTOP :: "64 word" where "TOSTOP \<equiv> 0x400000"
abbreviation (input) LINUX_TOSTOP :: flags where "LINUX_TOSTOP \<equiv> 0x100"
abbreviation (input) ECHOCTL :: "64 word" where "ECHOCTL \<equiv> 0x40"
abbreviation (input) LINUX_ECHOCTL :: flags where "LINUX_ECHOCTL \<equiv> 0x200"
abbreviation (input) ECHOPRT :: "64 word" where "ECHOPRT \<equiv> 0x20"
abbreviation (input) LINUX_ECHOPRT :: flags where "LINUX_ECHOPRT \<equiv> 0x400"
abbreviation (input) ECHOKE :: "64 word" where "ECHOKE \<equiv> 1"
abbreviation (input) LINUX_ECHOKE :: flags where "LINUX_ECHOKE \<equiv> 0x800"
abbreviation (input) FLUSHO :: "64 word" where "FLUSHO \<equiv> 0x800000"
abbreviation (input) LINUX_FLUSHO :: flags where "LINUX_FLUSHO \<equiv> 0x1000"
abbreviation (input) PENDIN :: "64 word" where "PENDIN \<equiv> 0x20000000"
abbreviation (input) LINUX_PENDIN :: flags where "LINUX_PENDIN \<equiv> 0x2000"
abbreviation (input) IEXTEN :: "64 word" where "IEXTEN \<equiv> 0x400"
abbreviation (input) LINUX_IEXTEN :: flags where "LINUX_IEXTEN \<equiv> 0x8000"
abbreviation (input) CSIZE :: "64 word" where "CSIZE \<equiv> 0x300"
abbreviation (input) LINUX_CSIZE :: flags where "LINUX_CSIZE \<equiv> 0x30"
abbreviation (input) LINUX_CBAUD :: flags where "LINUX_CBAUD \<equiv> 0x100f"
abbreviation (input) VINTR :: nat where "VINTR \<equiv> 8"
abbreviation (input) LINUX_VINTR :: nat where "LINUX_VINTR \<equiv> 0"
abbreviation (input) VQUIT :: nat where "VQUIT \<equiv> 9"
abbreviation (input) LINUX_VQUIT :: nat where "LINUX_VQUIT \<equiv> 1"
abbreviation (input) VERASE :: nat where "VERASE \<equiv> 3"
abbreviation (input) LINUX_VERASE :: nat where "LINUX_VERASE \<equiv> 2"
abbreviation (input) VKILL :: nat where "VKILL \<equiv> 5"
abbreviation (input) LINUX_VKILL :: nat where "LINUX_VKILL \<equiv> 3"
abbreviation (input) VEOF :: nat where "VEOF \<equiv> 0"
abbreviation (input) LINUX_VEOF :: nat where "LINUX_VEOF \<equiv> 4"
abbreviation (input) VEOL :: nat where "VEOL \<equiv> 1"
abbreviation (input) LINUX_VEOL :: nat where "LINUX_VEOL \<equiv> 11"
abbreviation (input) VMIN :: nat where "VMIN \<equiv> 16"
abbreviation (input) LINUX_VMIN :: nat where "LINUX_VMIN \<equiv> 6"
abbreviation (input) VTIME :: nat where "VTIME \<equiv> 17"
abbreviation (input) LINUX_VTIME :: nat where "LINUX_VTIME \<equiv> 5"
abbreviation (input) VEOL2 :: nat where "VEOL2 \<equiv> 2"
abbreviation (input) LINUX_VEOL2 :: nat where "LINUX_VEOL2 \<equiv> 16"
abbreviation (input) VSUSP :: nat where "VSUSP \<equiv> 10"
abbreviation (input) LINUX_VSUSP :: nat where "LINUX_VSUSP \<equiv> 10"
abbreviation (input) VSTART :: nat where "VSTART \<equiv> 12"
abbreviation (input) LINUX_VSTART :: nat where "LINUX_VSTART \<equiv> 8"
abbreviation (input) VSTOP :: nat where "VSTOP \<equiv> 13"
abbreviation (input) LINUX_VSTOP :: nat where "LINUX_VSTOP \<equiv> 9"
abbreviation (input) VREPRINT :: nat where "VREPRINT \<equiv> 6"
abbreviation (input) LINUX_VREPRINT :: nat where "LINUX_VREPRINT \<equiv> 12"
abbreviation (input) VDISCARD :: nat where "VDISCARD \<equiv> 15"
abbreviation (input) LINUX_VDISCARD :: nat where "LINUX_VDISCARD \<equiv> 13"
abbreviation (input) VWERASE :: nat where "VWERASE \<equiv> 4"
abbreviation (input) LINUX_VWERASE :: nat where "LINUX_VWERASE \<equiv> 14"
abbreviation (input) VLNEXT :: nat where "VLNEXT \<equiv> 14"
abbreviation (input) LINUX_VLNEXT :: nat where "LINUX_VLNEXT \<equiv> 15"
abbreviation (input) NCCS :: nat where "NCCS \<equiv> 20"
abbreviation (input) LINUX_NCCS :: nat where "LINUX_NCCS \<equiv> 19"
abbreviation (input) POSIX_VDISABLE :: byte where "POSIX_VDISABLE \<equiv> 0xff"
abbreviation (input) LINUX_POSIX_VDISABLE :: byte where "LINUX_POSIX_VDISABLE \<equiv> 0"

text \<open>Each pair of test and assignment of the two functions, Darwin's mask first.\<close>

definition termios_iflags :: "(64 word \<times> flags) list" where
  "termios_iflags =
  [(IGNBRK, LINUX_IGNBRK), (BRKINT, LINUX_BRKINT), (IGNPAR, LINUX_IGNPAR), (PARMRK, LINUX_PARMRK),
   (INPCK, LINUX_INPCK), (ISTRIP, LINUX_ISTRIP), (INLCR, LINUX_INLCR), (IGNCR, LINUX_IGNCR),
   (ICRNL, LINUX_ICRNL), (IXON, LINUX_IXON), (IXANY, LINUX_IXANY), (IXOFF, LINUX_IXOFF),
   (IMAXBEL, LINUX_IMAXBEL)]"

definition termios_oflags :: "(64 word \<times> flags) list" where
  "termios_oflags =
  [(OPOST, LINUX_OPOST), (ONLCR, LINUX_ONLCR), (TAB3, LINUX_XTABS)]"

definition termios_cflags :: "(64 word \<times> flags) list" where
  "termios_cflags =
  [(CSTOPB, LINUX_CSTOPB), (CREAD, LINUX_CREAD), (PARENB, LINUX_PARENB), (PARODD, LINUX_PARODD),
   (HUPCL, LINUX_HUPCL), (CLOCAL, LINUX_CLOCAL), (CRTSCTS, LINUX_CRTSCTS)]"

definition termios_lflags :: "(64 word \<times> flags) list" where
  "termios_lflags =
  [(ISIG, LINUX_ISIG), (ICANON, LINUX_ICANON), (ECHO, LINUX_ECHO), (ECHOE, LINUX_ECHOE),
   (ECHOK, LINUX_ECHOK), (ECHONL, LINUX_ECHONL), (NOFLSH, LINUX_NOFLSH), (TOSTOP, LINUX_TOSTOP),
   (ECHOCTL, LINUX_ECHOCTL), (ECHOPRT, LINUX_ECHOPRT), (ECHOKE, LINUX_ECHOKE),
   (FLUSHO, LINUX_FLUSHO), (PENDIN, LINUX_PENDIN), (IEXTEN, LINUX_IEXTEN)]"

definition termios_cc :: "(nat \<times> nat) list" where
  "termios_cc =
  [(LINUX_VINTR, VINTR), (LINUX_VQUIT, VQUIT), (LINUX_VERASE, VERASE), (LINUX_VKILL, VKILL),
   (LINUX_VEOF, VEOF), (LINUX_VEOL, VEOL), (LINUX_VMIN, VMIN), (LINUX_VTIME, VTIME),
   (LINUX_VEOL2, VEOL2), (LINUX_VSUSP, VSUSP), (LINUX_VSTART, VSTART), (LINUX_VSTOP, VSTOP),
   (LINUX_VREPRINT, VREPRINT), (LINUX_VDISCARD, VDISCARD), (LINUX_VWERASE, VWERASE),
   (LINUX_VLNEXT, VLNEXT)]"

text \<open>The lines \<open>{ B<n>, LINUX_B<n> }\<close> of \<open>sptab\<close>; Darwin's \<open>B<n>\<close> is \<open>n\<close>.\<close>

definition sptab :: "(int \<times> int) list" where
  "sptab =
  [(0, 0), (50, 1), (75, 2), (110, 3), (134, 4), (150, 5), (200, 6), (300, 7), (600, 8),
   (1200, 9), (1800, 0xa), (2400, 0xb), (4800, 0xc), (9600, 0xd), (19200, 0xe), (38400, 0xf),
   (57600, 0x1001), (115200, 0x1002),
   (- 1, - 1)]"

record termios =
  dt_iflag :: "64 word"
  dt_oflag :: "64 word"
  dt_cflag :: "64 word"
  dt_lflag :: "64 word"
  dt_cc :: "byte list"
  dt_ispeed :: "64 word"
  dt_ospeed :: "64 word"

record linux_termios =
  lt_iflag :: flags
  lt_oflag :: flags
  lt_cflag :: flags
  lt_lflag :: flags
  lt_line :: byte
  lt_cc :: "byte list"

text \<open>The table ends with its sentinel line; a search that passed it would leave the array.\<close>

fun darwin_to_linux_speed :: "int \<Rightarrow> (int \<times> int) list \<Rightarrow> int" where
  "darwin_to_linux_speed speed [] = - 1"
| "darwin_to_linux_speed speed ((sp_speed, sp_code) # table) =
    (if sp_speed = - 1 then - 1
     else if sp_speed = speed then sp_code else darwin_to_linux_speed speed table)"

fun linux_to_darwin_speed :: "int \<Rightarrow> (int \<times> int) list \<Rightarrow> int" where
  "linux_to_darwin_speed code [] = - 1"
| "linux_to_darwin_speed code ((sp_speed, sp_code) # table) =
    (if sp_code = - 1 then - 1
     else if sp_code = code then sp_speed else linux_to_darwin_speed code table)"

definition assign_cc :: "byte list \<Rightarrow> (nat \<times> nat) list \<Rightarrow> byte list \<Rightarrow> byte list" where
  "assign_cc src tbl dst = foldl (\<lambda>cc (d, s). cc[d := src ! s]) dst tbl"

definition replace_disabled :: "nat \<Rightarrow> nat \<Rightarrow> byte \<Rightarrow> byte \<Rightarrow> byte list \<Rightarrow> byte list" where
  "replace_disabled vmin vtime old new cc =
    map (\<lambda>i. if i \<noteq> vmin \<and> i \<noteq> vtime \<and> cc ! i = old then new else cc ! i) [0..<length cc]"

definition darwin_to_linux_termios :: "termios \<Rightarrow> linux_termios" where
  "darwin_to_linux_termios bios =
    \<lparr>lt_iflag = flag_conv termios_iflags (dt_iflag bios) 0,
     lt_oflag = flag_conv termios_oflags (dt_oflag bios) 0,
     lt_cflag =
       flag_conv termios_cflags (dt_cflag bios)
         (word_of_int (darwin_to_linux_speed (sint (ucast (dt_ispeed bios) :: 32 word)) sptab)
          OR ucast (drop_bit 4 (dt_cflag bios AND CSIZE))),
     lt_lflag = flag_conv termios_lflags (dt_lflag bios) 0,
     lt_line = 0,
     lt_cc =
       replace_disabled LINUX_VMIN LINUX_VTIME POSIX_VDISABLE LINUX_POSIX_VDISABLE
         (assign_cc (dt_cc bios) termios_cc (replicate LINUX_NCCS LINUX_POSIX_VDISABLE))\<rparr>"

definition linux_to_darwin_termios :: "linux_termios \<Rightarrow> termios" where
  "linux_to_darwin_termios lios =
    (let speed = word_of_int (linux_to_darwin_speed (sint (lt_cflag lios AND LINUX_CBAUD)) sptab) in
    \<lparr>dt_iflag = flag_conv (map prod.swap termios_iflags) (lt_iflag lios) 0,
     dt_oflag = flag_conv (map prod.swap termios_oflags) (lt_oflag lios) 0,
     dt_cflag =
       flag_conv (map prod.swap termios_cflags) (lt_cflag lios)
         (ucast (push_bit 4 (lt_cflag lios AND LINUX_CSIZE))),
     dt_lflag = flag_conv (map prod.swap termios_lflags) (lt_lflag lios) 0,
     dt_cc =
       replace_disabled VMIN VTIME LINUX_POSIX_VDISABLE POSIX_VDISABLE
         (assign_cc (lt_cc lios) (map prod.swap termios_cc) (replicate NCCS POSIX_VDISABLE)),
     dt_ispeed = speed, dt_ospeed = speed\<rparr>)"

record winsize =
  ws_row :: "16 word"
  ws_col :: "16 word"
  ws_xpixel :: "16 word"
  ws_ypixel :: "16 word"

record linux_winsize =
  lws_row :: "16 word"
  lws_col :: "16 word"
  lws_xpixel :: "16 word"
  lws_ypixel :: "16 word"

definition darwin_to_linux_winsize :: "winsize \<Rightarrow> linux_winsize" where
  "darwin_to_linux_winsize ws =
    \<lparr>lws_row = ws_row ws, lws_col = ws_col ws, lws_xpixel = ws_xpixel ws, lws_ypixel = ws_ypixel ws\<rparr>"

definition linux_to_darwin_winsize :: "linux_winsize \<Rightarrow> winsize" where
  "linux_to_darwin_winsize lws =
    \<lparr>ws_row = lws_row lws, ws_col = lws_col lws, ws_xpixel = lws_xpixel lws, ws_ypixel = lws_ypixel lws\<rparr>"

section \<open>Flags of path calls and of open files\<close>

abbreviation (input) LINUX_AT_FDCWD :: flags where "LINUX_AT_FDCWD \<equiv> - 100"
abbreviation (input) AT_FDCWD :: flags where "AT_FDCWD \<equiv> - 2"

text \<open>\<open>AT_SYMLINK_NOFOLLOW\<close>, \<open>AT_EACCESS\<close> and \<open>AT_SYMLINK_FOLLOW\<close>.\<close>

definition at_table :: "(flags \<times> flags) list" where
  "at_table = [(0x100, 0x20), (0x200, 0x10), (0x400, 0x40)]"

text \<open>Each test clears its bit in \<open>flags\<close>; what is left over is only reported.\<close>

definition linux_to_darwin_at_flags :: "flags \<Rightarrow> flags" where
  "linux_to_darwin_at_flags flgs =
    (if flgs = LINUX_AT_FDCWD then AT_FDCWD else flag_conv at_table flgs 0)"

abbreviation (input) LINUX_O_WRONLY :: flags where "LINUX_O_WRONLY \<equiv> 0x1"
abbreviation (input) LINUX_O_RDWR :: flags where "LINUX_O_RDWR \<equiv> 0x2"
abbreviation (input) LINUX_O_ACCMODE :: flags where "LINUX_O_ACCMODE \<equiv> 0x3"
abbreviation (input) LINUX_O_CREAT :: flags where "LINUX_O_CREAT \<equiv> 0x40"
abbreviation (input) LINUX_O_EXCL :: flags where "LINUX_O_EXCL \<equiv> 0x80"
abbreviation (input) LINUX_O_NOCTTY :: flags where "LINUX_O_NOCTTY \<equiv> 0x100"
abbreviation (input) LINUX_O_TRUNC :: flags where "LINUX_O_TRUNC \<equiv> 0x200"
abbreviation (input) LINUX_O_APPEND :: flags where "LINUX_O_APPEND \<equiv> 0x400"
abbreviation (input) LINUX_O_NONBLOCK :: flags where "LINUX_O_NONBLOCK \<equiv> 0x800"
abbreviation (input) LINUX_O_NDELAY :: flags where "LINUX_O_NDELAY \<equiv> 0x800"
abbreviation (input) LINUX_O_SYNC :: flags where "LINUX_O_SYNC \<equiv> 0x1000"
abbreviation (input) LINUX_FASYNC :: flags where "LINUX_FASYNC \<equiv> 0x2000"
abbreviation (input) LINUX_O_DIRECTORY :: flags where "LINUX_O_DIRECTORY \<equiv> 0x10000"
abbreviation (input) LINUX_O_NOFOLLOW :: flags where "LINUX_O_NOFOLLOW \<equiv> 0x20000"
abbreviation (input) LINUX_O_CLOEXEC :: flags where "LINUX_O_CLOEXEC \<equiv> 0x80000"
abbreviation (input) LINUX_O_PATH :: flags where "LINUX_O_PATH \<equiv> 0x200000"
abbreviation (input) O_RDONLY :: flags where "O_RDONLY \<equiv> 0"
abbreviation (input) O_WRONLY :: flags where "O_WRONLY \<equiv> 1"
abbreviation (input) O_RDWR :: flags where "O_RDWR \<equiv> 2"
abbreviation (input) O_NONBLOCK :: flags where "O_NONBLOCK \<equiv> 4"
abbreviation (input) O_APPEND :: flags where "O_APPEND \<equiv> 8"
abbreviation (input) O_ASYNC :: flags where "O_ASYNC \<equiv> 0x40"
abbreviation (input) O_FSYNC :: flags where "O_FSYNC \<equiv> 0x80"
abbreviation (input) O_NOFOLLOW :: flags where "O_NOFOLLOW \<equiv> 0x100"
abbreviation (input) O_CREAT :: flags where "O_CREAT \<equiv> 0x200"
abbreviation (input) O_TRUNC :: flags where "O_TRUNC \<equiv> 0x400"
abbreviation (input) O_EXCL :: flags where "O_EXCL \<equiv> 0x800"
abbreviation (input) O_NOCTTY :: flags where "O_NOCTTY \<equiv> 0x20000"
abbreviation (input) O_DIRECTORY :: flags where "O_DIRECTORY \<equiv> 0x100000"
abbreviation (input) O_SYMLINK :: flags where "O_SYMLINK \<equiv> 0x200000"
abbreviation (input) O_CLOEXEC :: flags where "O_CLOEXEC \<equiv> 0x1000000"

definition o_path_table :: "(flags \<times> flags) list" where
  "o_path_table =
  [(LINUX_O_CLOEXEC, O_CLOEXEC), (LINUX_O_NOFOLLOW, O_SYMLINK), (LINUX_O_DIRECTORY, O_DIRECTORY)]"

definition o_table :: "(flags \<times> flags) list" where
  "o_table =
  [(LINUX_O_NDELAY, O_NONBLOCK), (LINUX_O_APPEND, O_APPEND), (LINUX_O_SYNC, O_FSYNC),
   (LINUX_O_NONBLOCK, O_NONBLOCK), (LINUX_FASYNC, O_ASYNC), (LINUX_O_CREAT, O_CREAT),
   (LINUX_O_TRUNC, O_TRUNC), (LINUX_O_EXCL, O_EXCL), (LINUX_O_NOCTTY, O_NOCTTY),
   (LINUX_O_NOFOLLOW, O_NOFOLLOW), (LINUX_O_DIRECTORY, O_DIRECTORY)]"

definition linux_to_darwin_o_flags :: "flags \<Rightarrow> flags" where
  "linux_to_darwin_o_flags l_flags =
    (if l_flags AND LINUX_O_PATH \<noteq> 0 then flag_conv o_path_table l_flags 0
     else
       let acc = l_flags AND LINUX_O_ACCMODE in
       flag_conv o_table l_flags
         (if acc = LINUX_O_WRONLY then O_WRONLY else if acc = LINUX_O_RDWR then O_RDWR else O_RDONLY))"

definition o_back_table :: "(flags \<times> flags) list" where
  "o_back_table =
  [(O_RDONLY, 0), (O_WRONLY, LINUX_O_WRONLY), (O_RDWR, LINUX_O_RDWR), (O_APPEND, LINUX_O_APPEND),
   (O_NONBLOCK, LINUX_O_NONBLOCK), (O_FSYNC, LINUX_FASYNC), (O_CREAT, LINUX_O_CREAT),
   (O_TRUNC, LINUX_O_TRUNC), (O_EXCL, LINUX_O_EXCL), (O_NOCTTY, LINUX_O_NOCTTY),
   (O_NOFOLLOW, LINUX_O_NOFOLLOW), (O_DIRECTORY, LINUX_O_DIRECTORY), (O_CLOEXEC, LINUX_O_CLOEXEC)]"

text \<open>\<open>TEST(X, Y)\<close> also clears \<open>X\<close> in \<open>r\<close>; the function asserts that nothing is left.\<close>

fun test_flags :: "(flags \<times> flags) list \<Rightarrow> flags \<Rightarrow> flags \<Rightarrow> flags \<times> flags" where
  "test_flags [] r flgs = (r, flgs)"
| "test_flags ((x, y) # tbl) r flgs =
    (if r AND x \<noteq> 0 then test_flags tbl (r AND NOT x) (flgs OR y) else test_flags tbl r flgs)"

definition darwin_to_linux_o_flags :: "flags \<Rightarrow> flags run" where
  "darwin_to_linux_o_flags r =
    (let (rest, flgs) = test_flags o_back_table r 0 in
     if rest = 0 then Inr flgs else Inl Assert_failed)"

section \<open>File status\<close>

record timespec =
  tv_sec :: "64 word"
  tv_nsec :: "64 word"

record darwin_stat =
  d_dev :: "32 word"
  d_mode :: "16 word"
  d_nlink :: "16 word"
  d_ino :: "64 word"
  d_uid :: "32 word"
  d_gid :: "32 word"
  d_rdev :: "32 word"
  d_atimespec :: timespec
  d_mtimespec :: timespec
  d_ctimespec :: timespec
  d_size :: "64 word"
  d_blocks :: "64 word"
  d_blksize :: "32 word"

record l_newstat =
  st_dev :: "64 word"
  st_ino :: "64 word"
  st_nlink :: "64 word"
  st_mode :: "32 word"
  st_uid :: "32 word"
  st_gid :: "32 word"
  st_rdev :: "64 word"
  st_size :: "64 word"
  st_blksize :: "64 word"
  st_blocks :: "64 word"
  st_atim :: timespec
  st_mtim :: timespec
  st_ctim :: timespec

text \<open>Darwin's \<open>major\<close> and \<open>minor\<close>: eight bits over twenty-four.\<close>

definition dev_major :: "32 word \<Rightarrow> 32 word" where
  "dev_major x = drop_bit 24 x AND 0xff"

definition dev_minor :: "32 word \<Rightarrow> 32 word" where
  "dev_minor x = x AND 0xffffff"

text \<open>\<open>dev_t\<close> and \<open>blksize_t\<close> are signed 32-bit types: widening them repeats the sign bit.\<close>

definition stat_darwin_to_linux :: "darwin_stat \<Rightarrow> l_newstat" where
  "stat_darwin_to_linux st =
    \<lparr>st_dev = scast (dev_minor (d_dev st) OR push_bit 8 (dev_major (d_dev st))),
     st_ino = d_ino st, st_nlink = ucast (d_nlink st), st_mode = ucast (d_mode st),
     st_uid = d_uid st, st_gid = d_gid st, st_rdev = scast (d_rdev st), st_size = d_size st,
     st_blksize = scast (d_blksize st), st_blocks = d_blocks st,
     st_atim = d_atimespec st, st_mtim = d_mtimespec st, st_ctim = d_ctimespec st\<rparr>"

record darwin_statfs =
  df_bsize :: "32 word"
  df_blocks :: "64 word"
  df_bfree :: "64 word"
  df_bavail :: "64 word"
  df_files :: "64 word"
  df_ffree :: "64 word"
  df_fsid :: "32 word \<times> 32 word"
  df_flags :: "32 word"

record l_statfs =
  f_type :: "64 word"
  f_bsize :: "64 word"
  f_blocks :: "64 word"
  f_bfree :: "64 word"
  f_bavail :: "64 word"
  f_files :: "64 word"
  f_ffree :: "64 word"
  f_fsid :: "32 word \<times> 32 word"
  f_namelen :: "64 word"
  f_frsize :: "64 word"
  f_flags :: "64 word"

text \<open>\<open>MNT_RDONLY\<close>, \<open>MNT_NOSUID\<close>, \<open>MNT_NODEV\<close>, \<open>MNT_NOEXEC\<close> and \<open>MNT_SYNCHRONOUS\<close>.\<close>

definition mount_table :: "(32 word \<times> 64 word) list" where
  "mount_table = [(0x1, 0x1), (0x8, 0x2), (0x10, 0x4), (0x4, 0x8), (0x2, 0x10)]"

abbreviation (input) HFS_SUPER_MAGIC :: "64 word" where "HFS_SUPER_MAGIC \<equiv> 0x4244"
abbreviation (input) NAME_MAX :: "64 word" where "NAME_MAX \<equiv> 255"
abbreviation (input) LINUX_ST_VALID :: "64 word" where "LINUX_ST_VALID \<equiv> 0x20"

definition statfs_darwin_to_linux :: "darwin_statfs \<Rightarrow> l_statfs" where
  "statfs_darwin_to_linux s =
    \<lparr>f_type = HFS_SUPER_MAGIC, f_bsize = ucast (df_bsize s), f_blocks = df_blocks s,
     f_bfree = df_bfree s, f_bavail = df_bavail s, f_files = df_files s, f_ffree = df_ffree s,
     f_fsid = df_fsid s, f_namelen = NAME_MAX, f_frsize = ucast (df_bsize s),
     f_flags = flag_conv mount_table (df_flags s) LINUX_ST_VALID\<rparr>"

section \<open>Signals\<close>

abbreviation (input) LINUX_SIGRTMIN :: int where "LINUX_SIGRTMIN \<equiv> 32"
abbreviation (input) LINUX_SIGRTMAX :: int where "LINUX_SIGRTMAX \<equiv> 64"
abbreviation (input) LINUX_SIGSTKFLT :: int where "LINUX_SIGSTKFLT \<equiv> 16"
abbreviation (input) LINUX_SIGPWR :: int where "LINUX_SIGPWR \<equiv> 30"

definition LINUX_STSIGNUM :: "const_decl list" where
  "LINUX_STSIGNUM =
  [Decl_Linux 1 (Darwin 1), Decl_Linux 2 (Darwin 2), Decl_Linux 3 (Darwin 3),
   Decl_Linux 4 (Darwin 4), Decl_Linux 5 (Darwin 5), Decl_Linux 6 (Darwin 6), Decl_Alias 6,
   Decl_Linux 7 (Darwin 10), Decl_Linux 8 (Darwin 8), Decl_Linux 9 (Darwin 9),
   Decl_Linux 10 (Darwin 30), Decl_Linux 11 (Darwin 11), Decl_Linux 12 (Darwin 31),
   Decl_Linux 13 (Darwin 13), Decl_Linux 14 (Darwin 14), Decl_Linux 15 (Darwin 15),
   Decl_Linux 16 (LINUX_SPECIFIC 0), Decl_Linux 17 (Darwin 20), Decl_Linux 18 (Darwin 19),
   Decl_Linux 19 (Darwin 17), Decl_Linux 20 (Darwin 18), Decl_Linux 21 (Darwin 21),
   Decl_Linux 22 (Darwin 22), Decl_Linux 23 (Darwin 16), Decl_Linux 24 (Darwin 24),
   Decl_Linux 25 (Darwin 25), Decl_Linux 26 (Darwin 26), Decl_Linux 27 (Darwin 27),
   Decl_Linux 28 (Darwin 28), Decl_Linux 29 (Darwin 23), Decl_Alias 29,
   Decl_Linux 30 (LINUX_SPECIFIC 1), Decl_Linux 31 (Darwin 12)]"

definition linux_to_darwin_signum :: "int \<Rightarrow> int" where
  "linux_to_darwin_signum = linux_to_darwin 0 LINUX_STSIGNUM"

definition darwin_to_linux_signum :: "int \<Rightarrow> int" where
  "darwin_to_linux_signum = darwin_to_linux 0 LINUX_STSIGNUM"

definition linux_to_darwin_signal :: "int \<Rightarrow> int" where
  "linux_to_darwin_signal signum = (if signum < LINUX_SIGRTMIN then linux_to_darwin_signum signum else 0)"

definition darwin_to_linux_signal :: "int \<Rightarrow> int" where
  "darwin_to_linux_signal signum = (if signum < LINUX_SIGRTMIN then darwin_to_linux_signum signum else 0)"

type_synonym l_sigset = "64 word"
type_synonym sigset = "32 word"

definition LINUX_SIGISMEMBER :: "l_sigset \<Rightarrow> int \<Rightarrow> bool" where
  "LINUX_SIGISMEMBER s sig \<longleftrightarrow> 1 AND drop_bit (nat (sig - 1)) s \<noteq> 0"

definition LINUX_SIGADDSET :: "l_sigset \<Rightarrow> int \<Rightarrow> l_sigset" where
  "LINUX_SIGADDSET s sig = s OR push_bit (nat (sig - 1)) 1"

definition LINUX_SIGDELSET :: "l_sigset \<Rightarrow> int \<Rightarrow> l_sigset" where
  "LINUX_SIGDELSET s sig = s AND NOT (push_bit (nat (sig - 1)) 1)"

text \<open>
  Darwin's \<open>sigaddset\<close> and \<open>sigismember\<close> shift by the signal number less one.  C does not define
  the shift by a negative count; \<open>u\<close> is the value the machine gives there.
\<close>

definition sigbits :: "sigset \<Rightarrow> int \<Rightarrow> sigset" where
  "sigbits u signo = (if signo > 32 then 0 else if signo \<le> 0 then u else push_bit (nat (signo - 1)) 1)"

definition sigaddset :: "sigset \<Rightarrow> sigset \<Rightarrow> int \<Rightarrow> sigset" where
  "sigaddset u s signo = s OR sigbits u signo"

definition sigismember :: "sigset \<Rightarrow> sigset \<Rightarrow> int \<Rightarrow> bool" where
  "sigismember u s signo \<longleftrightarrow> s AND sigbits u signo \<noteq> 0"

definition linux_to_darwin_sigset :: "sigset \<Rightarrow> l_sigset \<Rightarrow> sigset" where
  "linux_to_darwin_sigset u lset =
    foldl (\<lambda>dset i.
      if \<not> LINUX_SIGISMEMBER lset i then dset
      else if i = LINUX_SIGSTKFLT \<or> i = LINUX_SIGPWR then dset
      else sigaddset u dset (linux_to_darwin_signal i)) 0 [1..LINUX_SIGRTMAX]"

definition darwin_to_linux_sigset :: "sigset \<Rightarrow> sigset \<Rightarrow> l_sigset" where
  "darwin_to_linux_sigset u dset =
    foldl (\<lambda>lset i.
      if sigismember u dset i then
        let num = darwin_to_linux_signal i in if num > 0 then LINUX_SIGADDSET lset num else lset
      else lset) 0 [1..LINUX_SIGRTMIN]"

record l_sigaction =
  lsa_handler :: gaddr
  lsa_flags :: "64 word"
  lsa_restorer :: "64 word"
  lsa_mask :: l_sigset

record sigaction =
  sa_handler :: haddr
  sa_mask :: sigset
  sa_flags :: flags

text \<open>
  \<open>SA_NOCLDSTOP\<close>, \<open>SA_NOCLDWAIT\<close>, \<open>SA_SIGINFO\<close>, \<open>SA_ONSTACK\<close>, \<open>SA_RESTART\<close>, \<open>SA_ONESHOT\<close>
  (\<open>SA_RESETHAND\<close>) and \<open>SA_NOMASK\<close> (\<open>SA_NODEFER\<close>).
\<close>

definition sa_table :: "(64 word \<times> flags) list" where
  "sa_table =
  [(0x1, 0x8), (0x2, 0x20), (0x4, 0x40), (0x08000000, 0x1), (0x10000000, 0x2), (0x80000000, 0x4),
   (0x40000000, 0x10)]"

definition linux_to_darwin_sigaction :: "sigset \<Rightarrow> l_sigaction \<Rightarrow> haddr \<Rightarrow> sigaction" where
  "linux_to_darwin_sigaction u lsa handler =
    \<lparr>sa_handler = handler, sa_mask = linux_to_darwin_sigset u (lsa_mask lsa),
     sa_flags = flag_conv sa_table (lsa_flags lsa) 0\<rparr>"

definition darwin_to_linux_sigaction :: "sigset \<Rightarrow> sigaction \<Rightarrow> gaddr \<Rightarrow> l_sigaction" where
  "darwin_to_linux_sigaction u dsa handler =
    \<lparr>lsa_handler = handler, lsa_flags = flag_conv (map prod.swap sa_table) (sa_flags dsa) 0,
     lsa_restorer = 0, lsa_mask = darwin_to_linux_sigset u (sa_mask dsa)\<rparr>"

section \<open>Record locks and resource limits\<close>

record l_flock =
  ll_type :: int
  ll_whence :: int
  ll_start :: int
  ll_len :: int
  ll_pid :: int

record flock =
  l_type :: int
  l_whence :: int
  l_start :: int
  l_len :: int
  l_pid :: int

abbreviation (input) LINUX_F_RDLCK :: int where "LINUX_F_RDLCK \<equiv> 0"
abbreviation (input) LINUX_F_WRLCK :: int where "LINUX_F_WRLCK \<equiv> 1"
abbreviation (input) LINUX_F_UNLCK :: int where "LINUX_F_UNLCK \<equiv> 2"
abbreviation (input) F_RDLCK :: int where "F_RDLCK \<equiv> 1"
abbreviation (input) F_UNLCK :: int where "F_UNLCK \<equiv> 2"
abbreviation (input) F_WRLCK :: int where "F_WRLCK \<equiv> 3"

definition linux_to_darwin_flock :: "l_flock \<Rightarrow> flock" where
  "linux_to_darwin_flock lf =
    \<lparr>l_type = (if ll_type lf = LINUX_F_RDLCK then F_RDLCK
       else if ll_type lf = LINUX_F_WRLCK then F_WRLCK
       else if ll_type lf = LINUX_F_UNLCK then F_UNLCK else - 1),
     l_whence = ll_whence lf, l_start = ll_start lf, l_len = ll_len lf, l_pid = ll_pid lf\<rparr>"

text \<open>The second argument is the structure written to: an unknown type leaves its old one.\<close>

definition darwin_to_linux_flock :: "flock \<Rightarrow> l_flock \<Rightarrow> l_flock" where
  "darwin_to_linux_flock df lf =
    \<lparr>ll_type = (if l_type df = F_RDLCK then LINUX_F_RDLCK
       else if l_type df = F_WRLCK then LINUX_F_WRLCK
       else if l_type df = F_UNLCK then LINUX_F_UNLCK else ll_type lf),
     ll_whence = l_whence df, ll_start = l_start df, ll_len = l_len df, ll_pid = l_pid df\<rparr>"

record rlimit =
  rlim_cur :: "64 word"
  rlim_max :: "64 word"

abbreviation (input) RLIMIT_NOFILE :: int where "RLIMIT_NOFILE \<equiv> 8"
abbreviation (input) RLIM_INFINITY :: "64 word" where "RLIM_INFINITY \<equiv> 0x7fffffffffffffff"
abbreviation (input) LINUX_RLIM_INFINITY :: "64 word" where "LINUX_RLIM_INFINITY \<equiv> - 1"
abbreviation (input) vkern_fdtable_maxsize :: int where "vkern_fdtable_maxsize \<equiv> 64"

definition darwin_to_linux_rlimit_nofile :: "rlimit \<Rightarrow> rlimit" where
  "darwin_to_linux_rlimit_nofile d =
    \<lparr>rlim_cur = rlim_cur d, rlim_max = rlim_max d - word_of_int vkern_fdtable_maxsize\<rparr>"

definition darwin_to_linux_rlimit :: "int \<Rightarrow> rlimit \<Rightarrow> rlimit" where
  "darwin_to_linux_rlimit resource d =
    (if resource = RLIMIT_NOFILE then darwin_to_linux_rlimit_nofile d
     else \<lparr>rlim_cur = (if rlim_cur d = RLIM_INFINITY then LINUX_RLIM_INFINITY else rlim_cur d),
           rlim_max = (if rlim_max d = RLIM_INFINITY then LINUX_RLIM_INFINITY else rlim_max d)\<rparr>)"

end
