(* ===== verification/ConvProps.thy ===== *)
theory ConvProps
  imports Conv
begin

text \<open>
  Properties of the conversions: what the tables of \<open>Conv\<close> lose and what they keep when a value
  goes to the guest and comes back.
\<close>

section \<open>The tables as flag tables\<close>

interpretation iflags: bit_table termios_iflags "[0, 1, 2, 3, 4, 5, 6, 7, 8, 9, 11, 10, 13]"
  by unfold_locales (simp_all add: termios_iflags_def)

interpretation oflags: bit_table termios_oflags "[0, 1, 2]"
  by unfold_locales (simp_all add: termios_oflags_def)

interpretation cflags: flag_table termios_cflags
  by unfold_locales (simp_all add: termios_cflags_def)

interpretation cbits: bit_table "take 6 termios_cflags" "[10, 11, 12, 13, 14, 15]"
  by unfold_locales (simp_all add: termios_cflags_def)

interpretation lflags: bit_table termios_lflags "[7, 8, 3, 1, 2, 4, 31, 22, 6, 5, 0, 23, 29, 10]"
  by unfold_locales (simp_all add: termios_lflags_def)

interpretation sa: bit_table sa_table "[0, 1, 2, 27, 28, 31, 30]"
  by unfold_locales (simp_all add: sa_table_def)

interpretation at: bit_table at_table "[8, 9, 10]"
  by unfold_locales (simp_all add: at_table_def)

lemma sigaction_flags_roundtrip:
  "lsa_flags (darwin_to_linux_sigaction u (linux_to_darwin_sigaction u lsa h) g) = lsa_flags lsa AND 0xd8000007"
  using sa.bit_roundtrip [of 0 "lsa_flags lsa"]
  by (simp add: darwin_to_linux_sigaction_def linux_to_darwin_sigaction_def sa_table_def)

section \<open>Terminal settings\<close>

lemma flag_conv_and:
  assumes "\<forall>b \<in> set (map snd tbl). b AND m = 0"
  shows "flag_conv tbl x y AND m = y AND m"
proof (rule bit_eqI)
  fix n
  have "(a, b) \<in> set tbl \<Longrightarrow> \<not> (bit b n \<and> bit m n)" for a b
    using assms by (force simp: word_and_eq_0_iff)
  then show "bit (flag_conv tbl x y AND m) n = bit (y AND m) n"
    by (auto simp: bit_and_iff bit_flag_conv)
qed

lemma length_assign_cc [simp]: "length (assign_cc src tbl dst) = length dst"
  unfolding assign_cc_def by (induction tbl arbitrary: dst) auto

lemma nth_replace_disabled [simp]:
  "i < length cc \<Longrightarrow> replace_disabled vmin vtime a b cc ! i =
    (if i \<noteq> vmin \<and> i \<noteq> vtime \<and> cc ! i = a then b else cc ! i)"
  by (simp add: replace_disabled_def)

lemma assign_cc_notin: "i \<notin> set (map fst tbl) \<Longrightarrow> assign_cc src tbl dst ! i = dst ! i"
  unfolding assign_cc_def by (induction tbl arbitrary: dst) auto

lemma assign_cc_simps:
  "assign_cc src [] dst = dst" "assign_cc src ((d, s) # tbl) dst = assign_cc src tbl (dst[d := src ! s])"
  by (simp_all add: assign_cc_def)

lemma assign_cc_in:
  assumes "distinct (map fst tbl)" "(d, s) \<in> set tbl" "d < length dst"
  shows "assign_cc src tbl dst ! d = src ! s"
  using assms
proof (induction tbl arbitrary: dst)
  case (Cons e tbl)
  show ?case
  proof (cases "e = (d, s)")
    case True
    then have "d \<notin> set (map fst tbl)" using Cons.prems by auto
    then show ?thesis using True Cons.prems by (simp add: assign_cc_simps assign_cc_notin)
  next
    case False
    then have "(d, s) \<in> set tbl" using Cons.prems by auto
    then show ?thesis using Cons by (cases e) (simp add: assign_cc_simps)
  qed
qed simp

lemma termios_cc_distinct: "distinct (map fst termios_cc)" "distinct (map fst (map prod.swap termios_cc))"
  by (simp_all add: termios_cc_def)

lemma termios_cc_range: "(l, k) \<in> set termios_cc \<Longrightarrow> l < LINUX_NCCS \<and> k < NCCS"
  by (auto simp: termios_cc_def)

lemma termios_cc_min: "(l, k) \<in> set termios_cc \<Longrightarrow> (l = LINUX_VMIN \<or> l = LINUX_VTIME) = (k = VMIN \<or> k = VTIME)"
  by (auto simp: termios_cc_def)

lemma cc_roundtrip:
  assumes "(l, k) \<in> set termios_cc"
  shows "dt_cc (linux_to_darwin_termios (darwin_to_linux_termios t)) ! k =
    (if dt_cc t ! k = 0 \<and> k \<noteq> VMIN \<and> k \<noteq> VTIME then POSIX_VDISABLE else dt_cc t ! k)"
proof -
  have lk: "l < 19" "k < 20" using termios_cc_range [OF assms] by auto
  have l: "lt_cc (darwin_to_linux_termios t) ! l =
      (if l \<noteq> LINUX_VMIN \<and> l \<noteq> LINUX_VTIME \<and> dt_cc t ! k = POSIX_VDISABLE then 0 else dt_cc t ! k)"
    using lk by (simp add: darwin_to_linux_termios_def assign_cc_in [OF termios_cc_distinct(1) assms] cong: if_cong split del: if_split)
  have "(k, l) \<in> set (map prod.swap termios_cc)" using assms by force
  then have "dt_cc (linux_to_darwin_termios (darwin_to_linux_termios t)) ! k =
      (if k \<noteq> VMIN \<and> k \<noteq> VTIME \<and> lt_cc (darwin_to_linux_termios t) ! l = 0
       then POSIX_VDISABLE else lt_cc (darwin_to_linux_termios t) ! l)"
    using lk by (simp add: linux_to_darwin_termios_def Let_def assign_cc_in [OF termios_cc_distinct(2)] cong: if_cong split del: if_split)
  then show ?thesis using l termios_cc_min [OF assms] by auto
qed

text \<open>The bits of \<open>c_cflag\<close>: the speed code, the character size, the other flags.\<close>

lemma csize_masks:
  "(0x300 :: 64 word) = push_bit 8 (mask 2)" "(0x30 :: 32 word) = push_bit 4 (mask 2)"
  by (simp_all add: mask_numeral)

lemma csize_shift:
  fixes x :: "64 word"
  defines "cs \<equiv> (ucast (drop_bit 4 (x AND 0x300)) :: flags)"
  shows "cs AND 0x100f = 0" "cs AND 0x30 = cs" "ucast (push_bit 4 cs) = x AND 0x300"
    "\<forall>b \<in> set (map snd termios_cflags). cs AND b = 0"
proof -
  show "cs AND 0x30 = cs" "ucast (push_bit 4 cs) = x AND 0x300"
    unfolding cs_def csize_masks by (auto simp: bit_simps intro!: bit_word_eqI)
  have "cs = cs AND 0x30" unfolding cs_def csize_masks by (auto simp: bit_simps intro!: bit_word_eqI)
  then have "0x30 AND b = 0 \<Longrightarrow> cs AND b = 0" for b by (metis and.assoc and_zero_eq)
  then show "cs AND 0x100f = 0" "\<forall>b \<in> set (map snd termios_cflags). cs AND b = 0" by (simp_all add: termios_cflags_def)
qed

lemma speed_code:
  assumes "s \<in> set (map fst (butlast sptab))"
  shows "linux_to_darwin_speed (darwin_to_linux_speed s sptab) sptab = s \<and>
    (let w = word_of_int (darwin_to_linux_speed s sptab) :: flags in
      sint w = darwin_to_linux_speed s sptab \<and> w AND 0x100f = w \<and> w AND 0x30 = 0 \<and>
      (\<forall>b \<in> set (map snd termios_cflags). w AND b = 0))"
proof -
  have "s \<in> {0, 50, 75, 110, 134, 150, 200, 300, 600, 1200, 1800, 2400, 4800, 9600, 19200, 38400, 57600, 115200}"
    using assms by (simp add: sptab_def)
  then show ?thesis
    by (elim insertE emptyE; hypsubst; simp add: sptab_def termios_cflags_def Let_def)
qed

lemma cflag_roundtrip:
  assumes "sint (ucast (dt_ispeed t) :: 32 word) \<in> set (map fst (butlast sptab))"
  defines "l \<equiv> darwin_to_linux_termios t"
  shows "dt_cflag (linux_to_darwin_termios l) =
      dt_cflag t AND 0xff00 OR (if dt_cflag t AND CRTSCTS = 0 then 0 else CRTSCTS)"
    and "linux_to_darwin_speed (sint (lt_cflag l AND LINUX_CBAUD)) sptab = sint (ucast (dt_ispeed t) :: 32 word)"
proof -
  let ?x = "dt_cflag t" and ?s = "sint (ucast (dt_ispeed t) :: 32 word)"
  define w :: flags where "w = word_of_int (darwin_to_linux_speed ?s sptab)"
  define cs :: flags where "cs = ucast (drop_bit 4 (?x AND 0x300))"
  note speed = speed_code [OF assms(1), unfolded Let_def, folded w_def]
  note size = csize_shift [of ?x, folded cs_def]
  have l: "lt_cflag l = flag_conv termios_cflags ?x (w OR cs)"
    by (simp add: l_def darwin_to_linux_termios_def w_def cs_def)
  have free: "\<forall>b \<in> set (map snd termios_cflags). (w OR cs) AND b = 0"
    using speed size(4) by (simp add: bit.conj_disj_distrib2)
  have "lt_cflag l AND 0x100f = (w OR cs) AND 0x100f" "lt_cflag l AND 0x30 = (w OR cs) AND 0x30"
    unfolding l by (rule flag_conv_and, simp add: termios_cflags_def)+
  then have m: "lt_cflag l AND 0x100f = w" "lt_cflag l AND 0x30 = cs"
    using speed size by (simp_all add: bit.conj_disj_distrib2)
  show "linux_to_darwin_speed (sint (lt_cflag l AND LINUX_CBAUD)) sptab = ?s"
    using speed by (simp add: m(1))
  have "dt_cflag (linux_to_darwin_termios l) =
      flag_conv (map (\<lambda>(a, b). (a, a)) termios_cflags) ?x (?x AND 0x300)"
    unfolding linux_to_darwin_termios_def Let_def
    by (simp add: m(2) size(3)) (simp add: l cflags.roundtrip [OF free])
  also have "\<dots> = flag_step ?x (flag_conv (map (\<lambda>(a, b). (a, a)) (take 6 termios_cflags)) ?x (?x AND 0x300)) (CRTSCTS, CRTSCTS)"
    by (simp add: termios_cflags_def)
  also have "\<dots> = flag_step ?x (?x AND 0x300 OR ?x AND 0xfc00) (CRTSCTS, CRTSCTS)"
    unfolding cbits.hit_bits by (simp add: termios_cflags_def)
  also have "?x AND 0x300 OR ?x AND 0xfc00 = ?x AND 0xff00"
    by (simp flip: bit.conj_disj_distrib)
  finally show "dt_cflag (linux_to_darwin_termios l) =
      ?x AND 0xff00 OR (if ?x AND CRTSCTS = 0 then 0 else CRTSCTS)"
    by (simp add: flag_step_def)
qed

lemma known_speed:
  assumes "uint (dt_ispeed t) \<in> set (map fst (butlast sptab))"
  shows "sint (ucast (dt_ispeed t) :: 32 word) = uint (dt_ispeed t)"
proof -
  have "uint (dt_ispeed t) < 2 ^ 31" using assms by (auto simp: sptab_def)
  then have "uint (ucast (dt_ispeed t) :: 32 word) = uint (dt_ispeed t)"
    by (simp add: unsigned_ucast_eq take_bit_int_eq_self)
  then show ?thesis
    using \<open>uint (dt_ispeed t) < 2 ^ 31\<close> by (simp add: sint_uint) (intro signed_take_bit_int_eq_self, auto intro: order_trans [of _ 0])
qed

text \<open>
  A guest that reads the settings of its terminal and writes them back unchanged leaves the
  host's terminal with the same speed, the same character size, the same value of every flag that
  both systems have and the same special characters; a flag Linux lacks is cleared, and a special
  character set to the byte 0 comes back as disabled.
\<close>

theorem termios_roundtrip:
  assumes "uint (dt_ispeed t) \<in> set (map fst (butlast sptab))" "(l, k) \<in> set termios_cc"
  shows "let t' = linux_to_darwin_termios (darwin_to_linux_termios t) in
    dt_iflag t' = dt_iflag t AND 0x2fff \<and>
    dt_oflag t' = dt_oflag t AND 0x7 \<and>
    dt_cflag t' = dt_cflag t AND 0xff00 OR (if dt_cflag t AND CRTSCTS = 0 then 0 else CRTSCTS) \<and>
    dt_lflag t' = dt_lflag t AND 0xa0c005ff \<and>
    dt_ispeed t' = dt_ispeed t \<and> dt_ospeed t' = dt_ispeed t \<and>
    dt_cc t' ! k = (if dt_cc t ! k = 0 \<and> k \<noteq> VMIN \<and> k \<noteq> VTIME then POSIX_VDISABLE else dt_cc t ! k)"
proof -
  note speed = known_speed [OF assms(1)]
  note cflag = cflag_roundtrip [of t, unfolded speed, OF assms(1)]
  have flgs: "dt_iflag (linux_to_darwin_termios (darwin_to_linux_termios t)) = dt_iflag t AND 0x2fff"
    "dt_oflag (linux_to_darwin_termios (darwin_to_linux_termios t)) = dt_oflag t AND 0x7"
    "dt_lflag (linux_to_darwin_termios (darwin_to_linux_termios t)) = dt_lflag t AND 0xa0c005ff"
    using iflags.bit_roundtrip [of 0 "dt_iflag t"] oflags.bit_roundtrip [of 0 "dt_oflag t"]
      lflags.bit_roundtrip [of 0 "dt_lflag t"]
    by (simp_all add: linux_to_darwin_termios_def darwin_to_linux_termios_def Let_def
      termios_iflags_def termios_oflags_def termios_lflags_def)
  have "dt_ispeed (linux_to_darwin_termios (darwin_to_linux_termios t)) = dt_ispeed t"
    "dt_ospeed (linux_to_darwin_termios (darwin_to_linux_termios t)) = dt_ispeed t"
    using cflag(2) by (simp_all add: linux_to_darwin_termios_def Let_def)
  then show ?thesis using flgs cflag(1) cc_roundtrip [OF assms(2)] by (simp only: Let_def simp_thms)
qed

definition ex_termios :: termios where
  "ex_termios = \<lparr>dt_iflag = 0x2b02, dt_oflag = 0x3, dt_cflag = 0x4b00, dt_lflag = 0x200005cb,
     dt_cc = [4, 255, 255, 127, 23, 21, 18, 0, 3, 28, 26, 25, 17, 19, 22, 15, 1, 0, 20, 0],
     dt_ispeed = 9600, dt_ospeed = 9600\<rparr>"

theorem termios_roundtrip_witness:
  "let t' = linux_to_darwin_termios (darwin_to_linux_termios ex_termios) in
    dt_iflag t' = 0x2b02 \<and> dt_oflag t' = 0x3 \<and> dt_cflag t' = 0x4b00 \<and> dt_lflag t' = 0x200005cb \<and>
    dt_ispeed t' = 9600 \<and> dt_cc t' ! VINTR = 3"
  using termios_roundtrip [of ex_termios LINUX_VINTR VINTR]
  by (simp add: ex_termios_def sptab_def termios_cc_def Let_def)

section \<open>Signal sets\<close>

lemma LINUX_SIGISMEMBER_bit: "LINUX_SIGISMEMBER s i \<longleftrightarrow> bit s (nat (i - 1))"
  by (simp add: LINUX_SIGISMEMBER_def one_and_eq bit_iff_odd_drop_bit odd_iff_mod_2_eq_one)

lemma bit_LINUX_SIGADDSET:
  "bit (LINUX_SIGADDSET s i) n \<longleftrightarrow> bit s n \<or> n = nat (i - 1) \<and> n < 64"
  by (auto simp: LINUX_SIGADDSET_def bit_or_iff bit_simps)

lemma bit_LINUX_SIGDELSET: "n < 64 \<Longrightarrow> bit (LINUX_SIGDELSET s i) n \<longleftrightarrow> bit s n \<and> n \<noteq> nat (i - 1)"
  by (auto simp: LINUX_SIGDELSET_def bit_simps)

lemma bit_sigbits: "1 \<le> i \<Longrightarrow> i \<le> 32 \<Longrightarrow> bit (sigbits u i) n \<longleftrightarrow> n = nat (i - 1)"
  by (auto simp: sigbits_def bit_simps)

lemma sigismember_bit: "1 \<le> i \<Longrightarrow> i \<le> 32 \<Longrightarrow> sigismember u s i \<longleftrightarrow> bit s (nat (i - 1))"
  by (auto simp: sigismember_def word_and_eq_0_iff bit_sigbits)

lemma bit_linux_to_darwin_sigset:
  "bit (linux_to_darwin_sigset u s) n \<longleftrightarrow>
    (\<exists>i \<in> {1..64}. bit s (nat (i - 1)) \<and> i \<noteq> 16 \<and> i \<noteq> 30 \<and> bit (sigbits u (linux_to_darwin_signal i)) n)"
proof -
  have "bit (foldl (\<lambda>dset i.
      if \<not> LINUX_SIGISMEMBER s i then dset
      else if i = LINUX_SIGSTKFLT \<or> i = LINUX_SIGPWR then dset
      else sigaddset u dset (linux_to_darwin_signal i)) d is) n \<longleftrightarrow> bit d n \<or>
    (\<exists>i \<in> set is. bit s (nat (i - 1)) \<and> i \<noteq> 16 \<and> i \<noteq> 30 \<and> bit (sigbits u (linux_to_darwin_signal i)) n)" for d "is"
    by (induction "is" arbitrary: d) (auto simp: LINUX_SIGISMEMBER_bit sigaddset_def bit_or_iff)
  then show ?thesis by (simp add: linux_to_darwin_sigset_def)
qed

lemma bit_darwin_to_linux_sigset:
  "bit (darwin_to_linux_sigset u d) n \<longleftrightarrow>
    (\<exists>i \<in> {1..32}. bit d (nat (i - 1)) \<and> 0 < darwin_to_linux_signal i \<and>
       n = nat (darwin_to_linux_signal i - 1) \<and> n < 64)"
proof -
  have "set is \<subseteq> {1..32} \<Longrightarrow> bit (foldl (\<lambda>lset i.
      if sigismember u d i then
        let num = darwin_to_linux_signal i in if num > 0 then LINUX_SIGADDSET lset num else lset
      else lset) l is) n \<longleftrightarrow> bit l n \<or>
    (\<exists>i \<in> set is. bit d (nat (i - 1)) \<and> 0 < darwin_to_linux_signal i \<and>
       n = nat (darwin_to_linux_signal i - 1) \<and> n < 64)" for l "is"
    by (induction "is" arbitrary: l) (auto simp: sigismember_bit bit_LINUX_SIGADDSET Let_def)
  from this [of "[1..32]" 0] show ?thesis by (simp add: darwin_to_linux_sigset_def)
qed

lemma signal_shared:
  assumes "1 \<le> i" "i \<le> 31" "i \<noteq> 16" "i \<noteq> 30"
  shows "darwin_to_linux_signal (linux_to_darwin_signal i) = i"
    "1 \<le> linux_to_darwin_signal i" "linux_to_darwin_signal i \<le> 31"
proof -
  have "i \<in> {1..31} - {16, 30}" using assms by simp
  also have "{1..31} - {16, 30} = set (shared_consts LINUX_STSIGNUM)"
    unfolding LINUX_STSIGNUM_def by code_simp
  finally have "darwin_to_linux_signum (linux_to_darwin_signum i) = i \<and>
      linux_to_darwin_signum i \<in> set (host_consts LINUX_STSIGNUM)"
    unfolding darwin_to_linux_signum_def linux_to_darwin_signum_def
    by (rule darwin_to_linux_of_shared [rotated 3]) (simp_all add: LINUX_STSIGNUM_def)
  moreover have "\<forall>d \<in> set (host_consts LINUX_STSIGNUM). 1 \<le> d \<and> d \<le> 31"
    by (simp add: LINUX_STSIGNUM_def)
  ultimately show "darwin_to_linux_signal (linux_to_darwin_signal i) = i"
    "1 \<le> linux_to_darwin_signal i" "linux_to_darwin_signal i \<le> 31"
    using assms by (auto simp: darwin_to_linux_signal_def linux_to_darwin_signal_def)
qed

text \<open>
  A signal set with no real-time signal that is handed to the host and read back contains the
  same signals, except \<open>SIGSTKFLT\<close> and \<open>SIGPWR\<close>, which Darwin does not have; the result does not
  depend on the undefined shift.
\<close>

theorem sigset_roundtrip:
  assumes "take_bit 31 s = s"
  shows "darwin_to_linux_sigset u (linux_to_darwin_sigset u s) =
    LINUX_SIGDELSET (LINUX_SIGDELSET s LINUX_SIGSTKFLT) LINUX_SIGPWR"
proof (rule bit_word_eqI)
  fix n :: nat assume n: "n < LENGTH(64)"
  have low: "bit s m \<Longrightarrow> m < 31" for m using assms bit_take_bit_iff [of 31 s m] by simp
  let ?d = "linux_to_darwin_sigset u s" and ?f = linux_to_darwin_signal
  have d: "bit ?d m \<longleftrightarrow> (\<exists>i \<in> {1..31}. bit s (nat (i - 1)) \<and> i \<noteq> 16 \<and> i \<noteq> 30 \<and> m = nat (?f i - 1))" for m
  proof -
    have "i \<in> {1..64} \<and> bit s (nat (i - 1)) \<longleftrightarrow> i \<in> {1..31} \<and> bit s (nat (i - 1))" for i
      using low [of "nat (i - 1)"] by auto
    moreover have "i \<in> {1..31} \<Longrightarrow> i \<noteq> 16 \<Longrightarrow> i \<noteq> 30 \<Longrightarrow> bit (sigbits u (?f i)) m \<longleftrightarrow> m = nat (?f i - 1)" for i
      using signal_shared [of i] by (intro bit_sigbits) auto
    ultimately show ?thesis unfolding bit_linux_to_darwin_sigset by blast
  qed
  have "bit (darwin_to_linux_sigset u ?d) n \<longleftrightarrow> bit s n \<and> n \<noteq> 15 \<and> n \<noteq> 29"
  proof
    assume "bit (darwin_to_linux_sigset u ?d) n"
    then obtain j i where j: "1 \<le> j" "n = nat (darwin_to_linux_signal j - 1)"
      and i: "i \<in> {1..31}" "bit s (nat (i - 1))" "i \<noteq> 16" "i \<noteq> 30" "nat (j - 1) = nat (?f i - 1)"
      by (auto simp: bit_darwin_to_linux_sigset d)
    then have "j = ?f i" using signal_shared(2) [of i] by auto
    then have "n = nat (i - 1)" using j(2) i signal_shared(1) [of i] by simp
    then show "bit s n \<and> n \<noteq> 15 \<and> n \<noteq> 29" using i by auto
  next
    assume b: "bit s n \<and> n \<noteq> 15 \<and> n \<noteq> 29"
    let ?i = "int n + 1"
    have "n < 31" using low b by blast
    then have i: "1 \<le> ?i" "?i \<le> 31" "?i \<noteq> 16" "?i \<noteq> 30" using b by auto
    note sh = signal_shared [OF i]
    have "bit ?d (nat (?f ?i - 1))" using d i b by (auto intro!: bexI [of _ ?i])
    then show "bit (darwin_to_linux_sigset u ?d) n"
      unfolding bit_darwin_to_linux_sigset using sh i n by (intro bexI [of _ "?f ?i"]) auto
  qed
  then show "bit (darwin_to_linux_sigset u ?d) n =
      bit (LINUX_SIGDELSET (LINUX_SIGDELSET s LINUX_SIGSTKFLT) LINUX_SIGPWR) n"
    using n by (auto simp: bit_LINUX_SIGDELSET)
qed

theorem sigset_roundtrip_witness:
  "darwin_to_linux_sigset 0 (linux_to_darwin_sigset 0 0x20018002) = 0x10002"
  using sigset_roundtrip [where s = "0x20018002" and u = 0] by (simp add: LINUX_SIGDELSET_def)

section \<open>Open flags\<close>

text \<open>The rows of the two tables that answer each other, with the access modes as bits.\<close>

definition o_shared :: "(flags \<times> flags) list" where
  "o_shared =
  [(LINUX_O_WRONLY, O_WRONLY), (LINUX_O_RDWR, O_RDWR), (LINUX_O_APPEND, O_APPEND),
   (LINUX_O_NONBLOCK, O_NONBLOCK), (LINUX_O_CREAT, O_CREAT), (LINUX_O_TRUNC, O_TRUNC),
   (LINUX_O_EXCL, O_EXCL), (LINUX_O_NOCTTY, O_NOCTTY), (LINUX_O_NOFOLLOW, O_NOFOLLOW),
   (LINUX_O_DIRECTORY, O_DIRECTORY)]"

interpretation o_bits: bit_table o_shared "[0, 1, 10, 11, 6, 9, 7, 8, 17, 16]"
  by unfold_locales (simp_all add: o_shared_def)

fun hit_mask :: "'a::len word \<Rightarrow> ('a word \<times> 'b) list \<Rightarrow> 'a word" where
  "hit_mask r [] = 0"
| "hit_mask r ((x, y) # tbl) = (if r AND x \<noteq> 0 then x OR hit_mask r tbl else hit_mask r tbl)"

lemma flag_conv_cong:
  assumes "\<forall>p \<in> set tbl. r' AND fst p = r AND fst p"
  shows "flag_conv tbl r' f = flag_conv tbl r f" "hit_mask r' tbl = hit_mask r tbl"
  using assms by (induction tbl arbitrary: f) (auto simp: flag_step_def)

lemma test_flags_conv:
  assumes "disjoint_masks (map fst tbl)"
  shows "test_flags tbl r f = (r AND NOT (hit_mask r tbl), flag_conv tbl r f)"
  using assms
proof (induction tbl arbitrary: r f)
  case (Cons e tbl)
  obtain x y where e: "e = (x, y)" by (cases e)
  have "(r AND NOT x) AND fst p = r AND fst p" if "p \<in> set tbl" for p
  proof -
    have "x AND fst p = 0" using that Cons.prems e by (force simp: list_all_iff)
    then show ?thesis by (auto simp: bit_eq_iff bit_and_iff bit_not_iff word_and_eq_0_iff)
  qed
  then have "flag_conv tbl (r AND NOT x) g = flag_conv tbl r g" "hit_mask (r AND NOT x) tbl = hit_mask r tbl" for g
    by (auto intro!: flag_conv_cong)
  then show ?case using Cons e by (simp add: flag_step_def and.assoc bit.de_Morgan_disj)
qed simp

lemma and_single_bit: "(x :: 'a::len word) AND 2 ^ k \<noteq> 0 \<Longrightarrow> x AND 2 ^ k = 2 ^ k"
  by (rule bit_word_eqI) (auto simp: and_exp_eq_0_iff_not_bit bit_and_iff bit_exp_iff)

lemma hits_are_bits:
  assumes "map fst tbl = map (\<lambda>n. 2 ^ n) ns"
  shows "hit_mask r tbl = r AND foldr (OR) (map fst tbl) 0"
  using assms
proof (induction tbl arbitrary: ns)
  case (Cons e tbl)
  obtain x y k ks where e: "e = (x, y)" "ns = k # ks" using Cons.prems by (cases ns; cases e) auto
  then have "x = 2 ^ k" using Cons.prems by simp
  moreover have "hit_mask r tbl = r AND foldr (OR) (map fst tbl) 0" using Cons e by simp
  ultimately show ?case using and_single_bit [of r k] e by (auto simp: bit.conj_disj_distrib)
qed simp

lemma and_not_and: "(r :: 'a::len word) AND NOT (r AND m) = r AND NOT m"
  by (rule bit_word_eqI) (auto simp: bit_and_iff bit_not_iff simp del: bit.de_Morgan_conj)

lemma darwin_to_linux_o_flags_conv:
  "darwin_to_linux_o_flags r =
    (if r AND NOT 0x1120f8f = 0 then Inr (flag_conv (tl o_back_table) r 0) else Inl Assert_failed)"
proof -
  let ?tbl = "tl o_back_table"
  have "test_flags o_back_table r 0 = test_flags ?tbl r 0"
    by (simp add: o_back_table_def)
  moreover have dis: "disjoint_masks (map fst ?tbl)"
    by (simp add: o_back_table_def)
  moreover have "hit_mask r ?tbl = r AND 0x1120f8f"
    using hits_are_bits [of ?tbl "[0, 1, 3, 2, 7, 9, 10, 11, 17, 8, 20, 24]" r] by (simp add: o_back_table_def)
  ultimately show ?thesis using test_flags_conv [OF dis, of r 0]
    by (simp add: darwin_to_linux_o_flags_def and_not_and del: bit.de_Morgan_conj)
qed

lemma access_mode:
  fixes l :: flags
  assumes "l AND 3 \<noteq> 3"
  shows "(if l AND 3 = 1 then O_WRONLY else if l AND 3 = 2 then O_RDWR else O_RDONLY) =
    flag_conv [(LINUX_O_WRONLY, O_WRONLY), (LINUX_O_RDWR, O_RDWR)] l 0"
proof -
  have "l AND 3 = l AND 1 OR l AND 2" by (simp flip: bit.conj_disj_distrib)
  moreover have "l AND 1 \<noteq> 0 \<Longrightarrow> l AND 1 = 1" "l AND 2 \<noteq> 0 \<Longrightarrow> l AND 2 = 2"
    using and_single_bit [of l 0] and_single_bit [of l 1] by simp_all
  ultimately show ?thesis using assms by (cases "l AND 1 = 0"; cases "l AND 2 = 0") (simp_all add: flag_step_def)
qed

lemma flag_conv_append: "flag_conv (tbl @ tbl') x y = flag_conv tbl' x (flag_conv tbl x y)"
  by (simp add: flag_conv_def)

lemma flag_conv_dead_rows:
  assumes "set tbl' \<subseteq> set tbl" "set tbl \<subseteq> set tbl' \<union> set dead" "\<forall>p \<in> set dead. x AND fst p = 0"
  shows "flag_conv tbl x y = flag_conv tbl' x y"
proof (rule bit_eqI)
  fix n
  have "(\<exists>(a, b) \<in> set tbl. x AND a \<noteq> 0 \<and> bit b n) \<longleftrightarrow> (\<exists>(a, b) \<in> set tbl'. x AND a \<noteq> 0 \<and> bit b n)"
    using assms by force
  then show "bit (flag_conv tbl x y) n = bit (flag_conv tbl' x y) n" by (simp add: bit_flag_conv)
qed

lemma o_flags_shared:
  assumes "l AND 0x203000 = 0" "l AND 3 \<noteq> 3"
  shows "linux_to_darwin_o_flags l = flag_conv o_shared l 0"
proof -
  have clear: "l AND LINUX_O_PATH = 0" "l AND LINUX_O_SYNC = 0" "l AND LINUX_FASYNC = 0"
  proof -
    have "l AND m = 0" if "0x203000 AND m = m" for m
      using that assms(1) by (metis and.assoc and_zero_eq zero_and_eq)
    then show "l AND LINUX_O_PATH = 0" "l AND LINUX_O_SYNC = 0" "l AND LINUX_FASYNC = 0" by simp_all
  qed
  have "linux_to_darwin_o_flags l = flag_conv (take 2 o_shared @ o_table) l 0"
    using access_mode [OF assms(2)] clear(1)
    by (simp add: linux_to_darwin_o_flags_def Let_def o_shared_def flag_conv_append)
  also have "\<dots> = flag_conv o_shared l 0"
    by (rule flag_conv_dead_rows [of _ _ "[(LINUX_O_SYNC, O_FSYNC), (LINUX_FASYNC, O_ASYNC)]"])
      (simp_all add: o_table_def o_shared_def clear)
  finally show ?thesis .
qed

text \<open>
  Open flags that are set on a host file and read back are unchanged on the access mode and on
  the eight flags both directions know, and reading them back does not fail; this holds for every
  flag word without \<open>O_PATH\<close>, \<open>O_SYNC\<close> and \<open>FASYNC\<close> whose access mode is valid.
\<close>

theorem o_flags_roundtrip:
  assumes "l AND 0x203000 = 0" "l AND LINUX_O_ACCMODE \<noteq> 3"
  shows "darwin_to_linux_o_flags (linux_to_darwin_o_flags l) = Inr (l AND 0x30fc3)"
proof -
  let ?d = "flag_conv o_shared l 0"
  have "?d AND NOT 0x1120f8f = 0 AND NOT 0x1120f8f" "?d AND O_FSYNC = 0 AND O_FSYNC" "?d AND O_CLOEXEC = 0 AND O_CLOEXEC"
    by (rule flag_conv_and, simp add: o_shared_def)+
  then have free: "?d AND NOT 0x1120f8f = 0" "?d AND O_FSYNC = 0" "?d AND O_CLOEXEC = 0" by simp_all
  have "flag_conv (tl o_back_table) ?d 0 = flag_conv (map prod.swap o_shared) ?d 0"
    by (rule flag_conv_dead_rows [of _ _ "[(O_FSYNC, LINUX_FASYNC), (O_CLOEXEC, LINUX_O_CLOEXEC)]"])
      (simp add: o_back_table_def o_shared_def, simp add: o_back_table_def o_shared_def, simp add: free(2,3))
  also have "\<dots> = l AND 0x30fc3"
    using o_bits.bit_roundtrip [of 0 l] by (simp add: o_shared_def)
  finally show ?thesis
    using free(1) by (simp add: darwin_to_linux_o_flags_conv o_flags_shared [OF assms])
qed

theorem o_flags_roundtrip_witness:
  "darwin_to_linux_o_flags (linux_to_darwin_o_flags 0x80c42) = Inr 0xc42"
  using o_flags_roundtrip [of "0x80c42"] by simp

text \<open>
  The two directions disagree on synchronous and on signal-driven files: a file opened with
  \<open>O_SYNC\<close> is reported back as \<open>FASYNC\<close>, and one set to \<open>FASYNC\<close> makes the conversion back
  fail its assertion, which ends the process.
\<close>

theorem o_flags_async:
  "darwin_to_linux_o_flags (linux_to_darwin_o_flags LINUX_O_SYNC) = Inr LINUX_FASYNC \<and>
   darwin_to_linux_o_flags (linux_to_darwin_o_flags LINUX_FASYNC) = Inl Assert_failed"
  by (simp add: darwin_to_linux_o_flags_def linux_to_darwin_o_flags_def Let_def o_table_def
    o_back_table_def flag_step_def)

section \<open>Record locks\<close>

lemma flock_roundtrip:
  "ll_type f \<in> {LINUX_F_RDLCK, LINUX_F_WRLCK, LINUX_F_UNLCK} \<Longrightarrow>
    darwin_to_linux_flock (linux_to_darwin_flock f) g = f"
  by (auto simp: darwin_to_linux_flock_def linux_to_darwin_flock_def)

lemma winsize_roundtrip: "linux_to_darwin_winsize (darwin_to_linux_winsize w) = w"
  by (simp add: darwin_to_linux_winsize_def linux_to_darwin_winsize_def)

text \<open>
  The device number of \<open>stat\<close> packs Darwin's 24-bit minor number over the major number: two
  devices can get the same number.
\<close>

lemma stat_dev_collision:
  "dev_minor 0x100 OR push_bit 8 (dev_major 0x100) = dev_minor 0x1000000 OR push_bit 8 (dev_major 0x1000000)"
  by (simp add: dev_minor_def dev_major_def)

end
