(* ===== verification/Layout.thy ===== *)
theory Layout
  imports Prelude
begin

text \<open>
  The memory image of C structures on x86-64: little-endian scalars at fixed offsets of a byte
  list.  The handlers copy such images between the guest and the kernel.
\<close>

definition le_bytes :: "nat \<Rightarrow> 'a::len word \<Rightarrow> byte list" where
  "le_bytes n w = map (\<lambda>i. ucast (drop_bit (8 * i) w)) [0..<n]"

definition le_word :: "byte list \<Rightarrow> 'a::len word" where
  "le_word bs = foldr (\<lambda>b w. push_bit 8 w OR ucast b) bs 0"

definition get_field :: "nat \<Rightarrow> nat \<Rightarrow> byte list \<Rightarrow> byte list" where
  "get_field off n buf = take n (drop off buf)"

definition put_field :: "nat \<Rightarrow> byte list \<Rightarrow> byte list \<Rightarrow> byte list" where
  "put_field off bs buf = take off buf @ bs @ drop (off + length bs) buf"

lemma length_le_bytes [simp]: "length (le_bytes n w) = n"
  by (simp add: le_bytes_def)

lemma length_put_field [simp]:
  "off + length bs \<le> length buf \<Longrightarrow> length (put_field off bs buf) = length buf"
  by (simp add: put_field_def)

lemma bit_le_word:
  "bit (le_word bs :: 'a::len word) n \<longleftrightarrow> n < LENGTH('a) \<and> n div 8 < length bs \<and> bit (bs ! (n div 8)) (n mod 8)"
proof (induction bs arbitrary: n)
  case Nil
  then show ?case by (simp add: le_word_def)
next
  case (Cons b bs)
  have step: "le_word (b # bs) = push_bit 8 (le_word bs) OR (ucast b :: 'a word)"
    by (simp add: le_word_def)
  show ?case
  proof (cases "n < 8")
    case True
    then show ?thesis by (auto simp: step bit_simps)
  next
    case False
    then have "n div 8 = Suc ((n - 8) div 8)" "n mod 8 = (n - 8) mod 8"
      by (simp_all add: le_div_geq le_mod_geq)
    moreover have "\<not> bit b n" using False bit_imp_le_length [of b n] by auto
    ultimately show ?thesis using False Cons.IH [of "n - 8"] by (auto simp: step bit_simps)
  qed
qed

lemma nth_le_bytes: "i < n \<Longrightarrow> le_bytes n w ! i = ucast (drop_bit (8 * i) w)"
  by (simp add: le_bytes_def)

lemma le_word_bytes:
  fixes w :: "'a::len word"
  assumes "LENGTH('a) \<le> 8 * n"
  shows "le_word (le_bytes n w) = w"
proof (rule bit_word_eqI)
  fix k assume k: "k < LENGTH('a)"
  then have "k div 8 < n" using assms by (simp add: div_less_iff_less_mult)
  moreover have "8 * (k div 8) + k mod 8 = k" by simp
  ultimately show "bit (le_word (le_bytes n w) :: 'a word) k = bit w k"
    using k by (simp add: bit_le_word nth_le_bytes bit_simps)
qed

lemma le_bytes_word:
  assumes "length bs = n" "8 * n \<le> LENGTH('a::len)"
  shows "le_bytes n (le_word bs :: 'a word) = bs"
proof (rule nth_equalityI)
  fix i assume "i < length (le_bytes n (le_word bs :: 'a word))"
  then have i: "i < n" by simp
  show "le_bytes n (le_word bs :: 'a word) ! i = bs ! i"
  proof (rule bit_word_eqI)
    fix k assume k: "k < LENGTH(8)"
    have "8 * i + k < 8 * n" using i k by simp
    then show "bit (le_bytes n (le_word bs :: 'a word) ! i) k = bit (bs ! i) k"
      using i k assms by (simp add: nth_le_bytes bit_simps bit_le_word)
  qed
qed (simp add: assms)

lemma get_put_same [simp]:
  "off + length bs \<le> length buf \<Longrightarrow> n = length bs \<Longrightarrow> get_field off n (put_field off bs buf) = bs"
  by (simp add: get_field_def put_field_def)

lemma get_put_other [simp]:
  assumes "off + length bs \<le> length buf" "k + n \<le> off \<or> off + length bs \<le> k"
  shows "get_field k n (put_field off bs buf) = get_field k n buf"
  using assms(2)
proof
  assume "k + n \<le> off"
  then show ?thesis using assms(1) by (simp add: get_field_def put_field_def take_drop min_def)
next
  assume k: "off + length bs \<le> k"
  then have "drop k (put_field off bs buf) = drop (k - off - length bs) (drop (off + length bs) buf)"
    using assms(1) by (simp add: put_field_def)
  then show ?thesis using k by (simp add: get_field_def)
qed

section \<open>Structures\<close>

text \<open>
  A structure as the list of its fields, each an offset and its bytes.  \<open>fields_ok\<close> says that they
  lie inside of the image in ascending order.
\<close>

definition put_fields :: "(nat \<times> byte list) list \<Rightarrow> byte list \<Rightarrow> byte list" where
  "put_fields fs buf = foldl (\<lambda>b (off, bs). put_field off bs b) buf fs"

fun fields_ok :: "nat \<Rightarrow> nat \<Rightarrow> (nat \<times> byte list) list \<Rightarrow> bool" where
  "fields_ok lo n [] \<longleftrightarrow> lo \<le> n"
| "fields_ok lo n ((off, bs) # fs) \<longleftrightarrow> lo \<le> off \<and> fields_ok (off + length bs) n fs"

lemma put_fields_simps [simp]:
  "put_fields [] buf = buf" "put_fields ((off, bs) # fs) buf = put_fields fs (put_field off bs buf)"
  by (simp_all add: put_fields_def)

lemma fields_ok_le: "fields_ok lo n fs \<Longrightarrow> lo \<le> n"
  by (induction fs arbitrary: lo) (auto, fastforce)

lemma length_put_fields: "fields_ok lo (length buf) fs \<Longrightarrow> length (put_fields fs buf) = length buf"
proof (induction fs arbitrary: lo buf)
  case (Cons f fs)
  obtain off bs where f: "f = (off, bs)" by fastforce
  have "off + length bs \<le> length buf" using Cons.prems fields_ok_le f by auto
  then show ?case using Cons.IH [of "off + length bs" "put_field off bs buf"] Cons.prems f by simp
qed simp

lemma get_put_fields_before:
  "fields_ok lo (length buf) fs \<Longrightarrow> k + n \<le> lo \<Longrightarrow> get_field k n (put_fields fs buf) = get_field k n buf"
proof (induction fs arbitrary: lo buf)
  case (Cons f fs)
  obtain off bs where f: "f = (off, bs)" by fastforce
  have le: "off + length bs \<le> length buf" using Cons.prems fields_ok_le f by auto
  have "get_field k n (put_fields fs (put_field off bs buf)) = get_field k n (put_field off bs buf)"
    using Cons.prems f le by (intro Cons.IH [of "off + length bs"]) auto
  then show ?case using Cons.prems f le by simp
qed simp

text \<open>Each field reads back as it was written.\<close>

lemma get_put_fields:
  "fields_ok lo (length buf) fs \<Longrightarrow> (off, bs) \<in> set fs \<Longrightarrow> get_field off (length bs) (put_fields fs buf) = bs"
proof (induction fs arbitrary: lo buf)
  case (Cons f fs)
  obtain off' bs' where f: "f = (off', bs')" by fastforce
  have le: "off' + length bs' \<le> length buf" using Cons.prems fields_ok_le f by auto
  then have okay: "fields_ok (off' + length bs') (length (put_field off' bs' buf)) fs" using Cons.prems f by simp
  show ?case
  proof (cases "(off, bs) = f")
    case True
    then show ?thesis using f le get_put_fields_before [OF okay, of off "length bs"] by simp
  next
    case False
    then show ?thesis using Cons.IH [OF okay] Cons.prems f by auto
  qed
qed simp

section \<open>The floating point unit\<close>

text \<open>
  The image that \<open>init_fpu\<close> (\<open>src/main.c\<close>) builds: the members of \<open>struct fxregs_state\<close> that are
  set; the registers behind them keep what the stack held.
\<close>

definition fx_image :: "byte list \<Rightarrow> byte list" where
  "fx_image stack =
    le_bytes 2 (0x037f :: 16 word) @ le_bytes 2 (0 :: 16 word) @ le_bytes 2 (0xffff :: 16 word) @
    le_bytes 2 (0 :: 16 word) @ le_bytes 8 (0 :: 64 word) @ le_bytes 8 (0 :: 64 word) @
    le_bytes 4 (0x1f80 :: 32 word) @ le_bytes 4 (0 :: 32 word) @ take 480 (drop 32 stack)"

end
