(* ===== verification/FdTable.thy ===== *)
theory FdTable
  imports UserMem Conv Layout
begin

text \<open>
  The tables of file descriptors of \<open>src/fs/fs.c\<close>: the bitmaps of open and of close-on-exec
  descriptors, the array of \<open>struct file\<close>, and the operations that register, duplicate and close
  descriptors.  A table access outside of the allocated arrays is the crash \<open>Out_of_bounds\<close>, so
  a theorem that an operation returns says that its accesses stay inside.
  The state \<open>kern\<close> holds the tables, the guest's memory and the trace of what the handler did:
  every host call, and every operation on the lock \<open>fdtable_lock\<close>.  What the host answers is an
  argument.
\<close>

section \<open>Tables\<close>

text \<open>There is one \<open>struct file_operations\<close>; \<open>fl_ops\<close> says whether the pointer to it is set.\<close>

record vfile =
  fl_ops :: bool
  fl_fd :: int

record fdtable =
  ft_start :: int
  ft_size :: int
  ft_files :: "vfile list list"
  ft_open :: "64 word list"
  ft_cloexec :: "64 word list"

record fileinfo =
  fi_rootfd :: int
  fi_fdtable :: fdtable
  fi_vkern :: fdtable

abbreviation (input) user_fdtable_initsize :: int where "user_fdtable_initsize \<equiv> 64"
abbreviation (input) fdtable_alloc_unit :: int where "fdtable_alloc_unit \<equiv> 64"

definition div_ceil :: "int \<Rightarrow> int \<Rightarrow> int" where
  "div_ceil x y = (x + y - 1) div y"

text \<open>The allocations whose failure the code handles: four of \<open>alloc_fdtable\<close>, and \<open>malloc\<close>.\<close>

datatype alloc = Realloc_files | Calloc_unit nat | Realloc_open | Realloc_cloexec | Malloc nat

definition alloc_fdtable :: "(alloc \<Rightarrow> bool) \<Rightarrow> fdtable \<Rightarrow> int \<Rightarrow> int \<times> fdtable" where
  "alloc_fdtable mem t req =
    (let newsize = div_ceil req fdtable_alloc_unit * fdtable_alloc_unit; oldsize = ft_size t in
     if newsize \<le> oldsize then (0, t)
     else
       let newunit = nat (newsize div fdtable_alloc_unit); oldunit = nat (oldsize div fdtable_alloc_unit) in
       if \<not> mem Realloc_files then (- LINUX_ENOMEM, t\<lparr>ft_files := []\<rparr>)
       else
         let n = length (takeWhile (\<lambda>i. mem (Calloc_unit i)) [oldunit..<newunit]);
             t1 = t\<lparr>ft_files := take oldunit (ft_files t) @ replicate n (replicate 64 \<lparr>fl_ops = False, fl_fd = 0\<rparr>)\<rparr> in
         if n < newunit - oldunit then (- LINUX_ENOMEM, t1)
         else if \<not> mem Realloc_open then (- LINUX_ENOMEM, t1\<lparr>ft_open := []\<rparr>)
         else if \<not> mem Realloc_cloexec then (- LINUX_ENOMEM, t1\<lparr>ft_cloexec := []\<rparr>)
         else (0, t1\<lparr>ft_open := take oldunit (ft_open t) @ replicate (newunit - oldunit) 0,
                    ft_cloexec := take oldunit (ft_cloexec t) @ replicate (newunit - oldunit) 0,
                    ft_size := newsize\<rparr>))"

definition in_userfd :: "fileinfo \<Rightarrow> int \<Rightarrow> bool" where
  "in_userfd fi fd \<longleftrightarrow> 0 \<le> fd \<and> fd < ft_start (fi_vkern fi)"

definition fdbit_index :: "fdtable \<Rightarrow> 64 word list \<Rightarrow> int \<Rightarrow> (nat \<times> nat) run" where
  "fdbit_index t fdbits fd =
    (let off = fd - ft_start t; idx_table = off div 64; idx_bit = off - idx_table * 64 in
     if 0 \<le> off \<and> nat idx_table < length fdbits then Inr (nat idx_table, nat idx_bit) else Inl Out_of_bounds)"

definition set_fdbit :: "fdtable \<Rightarrow> 64 word list \<Rightarrow> int \<Rightarrow> 64 word list run" where
  "set_fdbit t fdbits fd =
    bind_run (fdbit_index t fdbits fd) (\<lambda>(i, j). Inr (fdbits[i := fdbits ! i OR push_bit j 1]))"

definition clear_fdbit :: "fdtable \<Rightarrow> 64 word list \<Rightarrow> int \<Rightarrow> 64 word list run" where
  "clear_fdbit t fdbits fd =
    bind_run (fdbit_index t fdbits fd) (\<lambda>(i, j). Inr (fdbits[i := fdbits ! i AND NOT (push_bit j 1)]))"

definition test_fdbit :: "fdtable \<Rightarrow> 64 word list \<Rightarrow> int \<Rightarrow> bool run" where
  "test_fdbit t fdbits fd =
    bind_run (fdbit_index t fdbits fd) (\<lambda>(i, j). Inr (fdbits ! i AND push_bit j 1 \<noteq> 0))"

definition file_index :: "fdtable \<Rightarrow> int \<Rightarrow> (nat \<times> nat) run" where
  "file_index t fd =
    (let off = fd - ft_start t; i = nat (off div fdtable_alloc_unit); j = nat (off mod fdtable_alloc_unit) in
     if 0 \<le> off \<and> i < length (ft_files t) \<and> j < length (ft_files t ! i) then Inr (i, j) else Inl Out_of_bounds)"

definition alloc_file :: "fdtable \<Rightarrow> int \<Rightarrow> fdtable run" where
  "alloc_file t fd =
    bind_run (file_index t fd) (\<lambda>(i, j).
      Inr (t\<lparr>ft_files := (ft_files t)[i := (ft_files t ! i)[j := \<lparr>fl_ops = True, fl_fd = fd\<rparr>]]\<rparr>))"

definition mark_fd :: "fdtable \<Rightarrow> int \<Rightarrow> bool \<Rightarrow> fdtable run" where
  "mark_fd t fd is_cloexec =
    bind_run (set_fdbit t (ft_open t) fd) (\<lambda>opn.
    bind_run (if is_cloexec then set_fdbit t (ft_cloexec t) fd else clear_fdbit t (ft_cloexec t) fd) (\<lambda>cle.
    alloc_file (t\<lparr>ft_open := opn, ft_cloexec := cle\<rparr>) fd))"

definition unmark_fd :: "fdtable \<Rightarrow> int \<Rightarrow> fdtable run" where
  "unmark_fd t fd =
    bind_run (clear_fdbit t (ft_open t) fd) (\<lambda>opn.
    bind_run (clear_fdbit t (ft_cloexec t) fd) (\<lambda>cle. Inr (t\<lparr>ft_open := opn, ft_cloexec := cle\<rparr>)))"

definition register_fd :: "(alloc \<Rightarrow> bool) \<Rightarrow> int \<Rightarrow> bool \<Rightarrow> fileinfo \<Rightarrow> (int \<times> fileinfo) run" where
  "register_fd mem fd is_cloexec fi =
    (if ft_start (fi_vkern fi) \<le> fd then Inr (- LINUX_EMFILE, fi)
     else
       let (err, t) = (if ft_size (fi_fdtable fi) \<le> fd then alloc_fdtable mem (fi_fdtable fi) (fd + 1)
                       else (0, fi_fdtable fi)) in
       if err < 0 then Inr (err, fi\<lparr>fi_fdtable := t\<rparr>)
       else bind_run (mark_fd t fd is_cloexec) (\<lambda>t'. Inr (0, fi\<lparr>fi_fdtable := t'\<rparr>)))"

text \<open>\<open>ffs\<close> takes an \<open>int\<close>: the 64-bit word is cut to its low half.\<close>

definition ffs :: "32 word \<Rightarrow> int" where
  "ffs w = (case find (bit w) [0..<32] of None \<Rightarrow> 0 | Some i \<Rightarrow> int i + 1)"

fun find_empty_word :: "64 word list \<Rightarrow> nat \<Rightarrow> int option" where
  "find_empty_word [] i = None"
| "find_empty_word (w # ws) i =
    (let r = ffs (ucast (NOT w)) in if r > 0 then Some (r - 1 + int i * 64) else find_empty_word ws (Suc i))"

definition find_emptyfd :: "fdtable \<Rightarrow> int run" where
  "find_emptyfd t =
    (if nat (ft_size t div 64) \<le> length (ft_open t) then
       case find_empty_word (take (nat (ft_size t div 64)) (ft_open t)) 0 of
         None \<Rightarrow> Inr (- 1)
       | Some off \<Rightarrow> Inr (ft_start t + off)
     else Inl Out_of_bounds)"

definition do_get_file :: "fdtable \<Rightarrow> int \<Rightarrow> vfile option run" where
  "do_get_file t fd =
    bind_run (test_fdbit t (ft_open t) fd) (\<lambda>set.
      if \<not> set then Inr None
      else bind_run (file_index t fd) (\<lambda>(i, j). Inr (Some (ft_files t ! i ! j))))"

section \<open>Host calls and the state of a handler\<close>

type_synonym path = "byte list"

datatype fd_call =
    Close int
  | Dup int
  | Dup2 int int
  | Getfd int
  | Fcntl int int "64 word"
  | Fcntl_lock int int flock
  | Pipe

datatype path_call =
    Openat int path flags int
  | Symlinkat path int path
  | Faccessat int path int
  | Renameat int path int path
  | Linkat int path int path flags
  | Unlinkat int path flags
  | Readlinkat int path int
  | Mkdirat int path int
  | Fstatat int path flags
  | Statfs path
  | Getpath int
  | Fchownat int path int int flags
  | Fchmodat int path int
  | Mkfifo path int

datatype io_call =
    Readv int "nat list"
  | Writev int "byte list list"
  | Pread int nat int
  | Pwrite int "byte list" int
  | Lseek int int int
  | Fsync int
  | Fstat int
  | Fstatfs int
  | Fchown int int int
  | Fchmod int int
  | Fchdir int
  | Umask int
  | Getcwd nat
  | Ftruncate int "64 word"
  | Flock int int

datatype tty_call =
    Tcgetattr int
  | Tcsetattr int int termios
  | Tcflow int int
  | Tcflush int int
  | Ioctl int flags
  | Ioctl_int int flags int
  | Ioctl_winsize int winsize

text \<open>A descriptor set, a structure \<open>timeval\<close> and a structure \<open>timespec\<close> are their bytes.\<close>

datatype misc_call =
    Select int "byte list option" "byte list option" "byte list option" "byte list option"
  | Pselect int "byte list option" "byte list option" "byte list option" "byte list option"
  | Poll "(int \<times> 16 word) list" int
  | Fdopendir int
  | Readdir int
  | Seekdir int nat
  | Closedir int
  | Getuid
  | Preallocate int int
  | Sync

text \<open>
  The calls on sockets.  An address is its bytes; a buffer for one is its length, absent when no
  address is asked for.  What a call wrote is data, address and control data in \<open>out_sets\<close>, the
  length of the address or of the option in \<open>out_int\<close>, and the lengths of address and control data
  of \<open>recvmsg\<close> in \<open>out_fds\<close>.
\<close>

datatype sock_call =
    Socket int flags int
  | Connect int "byte list" nat
  | Setsockopt int int int "byte list"
  | Getsockopt int int int nat
  | Shutdown int int
  | Sendto int "byte list" flags "byte list option" nat
  | Recvfrom int nat flags "nat option"
  | Sendmsg int "byte list option" "byte list list" flags
  | Recvmsg int "nat option" "nat list" nat flags
  | Listen int int
  | Accept int "nat option"
  | Bind int "byte list" nat
  | Getsockname int "nat option"
  | Getpeername int "nat option"
  | Socketpair int flags int

text \<open>
  Time, the system and the calls between processes.  A structure \<open>timeval\<close> is its seconds and its
  microseconds, of which Darwin has 32 bits.  What a call wrote is in \<open>out_bytes\<close>, as Darwin lays it out.
\<close>

type_synonym timeval = "64 word \<times> 32 word"

datatype sys_call =
    Time
  | Gettimeofday
  | Nanosleep "64 word" "64 word"
  | Futimes int "(timeval \<times> timeval) option"
  | Clock_gettime int
  | Clock_getres int
  | Getitimer int
  | Setitimer int timeval timeval
  | Sysctlbyname string
  | Getloadavg
  | Open_device string flags
  | Read_device int nat
  | Semget int int flags
  | Semop int "(16 word \<times> 16 word \<times> 16 word) list"
  | Shmget int "64 word" flags
  | Shmctl_rmid int

datatype fs_call = Fd fd_call | Path path_call | Io io_call | Tty tty_call | Misc misc_call | Sock sock_call | Sys sys_call

record dirent =
  de_ino :: "64 word"
  de_seekoff :: "64 word"
  de_type :: byte
  de_name :: "byte list"

text \<open>
  The answer to a call is its result and \<open>errno\<close>; the other fields are what it wrote, which
  allocations succeed and what memory holds that was never written.
\<close>

record host =
  answer :: "fs_call \<Rightarrow> int \<times> int"
  out_bytes :: "fs_call \<Rightarrow> byte list"
  out_int :: "fs_call \<Rightarrow> int"
  out_fds :: "fs_call \<Rightarrow> int \<times> int"
  out_stat :: "fs_call \<Rightarrow> darwin_stat"
  out_statfs :: "fs_call \<Rightarrow> darwin_statfs"
  out_termios :: "fs_call \<Rightarrow> termios"
  out_winsize :: "fs_call \<Rightarrow> winsize"
  out_flock :: "fs_call \<Rightarrow> flock"
  out_sets :: "fs_call \<Rightarrow> byte list \<times> byte list \<times> byte list"
  out_revents :: "fs_call \<Rightarrow> 16 word list"
  out_dents :: "fs_call \<Rightarrow> dirent list"
  h_alloc :: "alloc \<Rightarrow> bool"
  h_junk :: "nat \<Rightarrow> byte"

datatype event = Rdlock | Wrlock | Unlock | Call fs_call

record kern =
  k_files :: fileinfo
  k_user :: user_mem
  k_trace :: "event list"

type_synonym 'a act = "kern \<Rightarrow> ('a \<times> kern) run"

definition act_ret :: "'a \<Rightarrow> 'a act" where
  "act_ret x s = Inr (x, s)"

definition act_bind :: "'a act \<Rightarrow> ('a \<Rightarrow> 'b act) \<Rightarrow> 'b act" where
  "act_bind m f s = bind_run (m s) (\<lambda>(x, s'). f x s')"

definition emit :: "event \<Rightarrow> unit act" where
  "emit e s = Inr ((), s\<lparr>k_trace := k_trace s @ [e]\<rparr>)"

text \<open>A host call as it is, and one inside \<open>syswrap\<close>.\<close>

definition raw_call :: "host \<Rightarrow> fs_call \<Rightarrow> int act" where
  "raw_call h c = act_bind (emit (Call c)) (\<lambda>_. act_ret (fst (answer h c)))"

definition wrap_call :: "host \<Rightarrow> fs_call \<Rightarrow> int act" where
  "wrap_call h c = act_bind (emit (Call c)) (\<lambda>_. act_ret (syswrap (fst (answer h c)) (snd (answer h c))))"

text \<open>A part of a handler under the lock, as \<open>pthread_rwlock_wrlock\<close> to \<open>pthread_rwlock_unlock\<close>.\<close>

definition locked :: "event \<Rightarrow> 'a act \<Rightarrow> 'a act" where
  "locked l m = act_bind (emit l) (\<lambda>_. act_bind m (\<lambda>x. act_bind (emit Unlock) (\<lambda>_. act_ret x)))"

definition with_files :: "(fileinfo \<Rightarrow> ('a \<times> fileinfo) run) \<Rightarrow> 'a act" where
  "with_files f s = bind_run (f (k_files s)) (\<lambda>(x, fi). Inr (x, s\<lparr>k_files := fi\<rparr>))"

definition look :: "(kern \<Rightarrow> 'a run) \<Rightarrow> 'a act" where
  "look f s = bind_run (f s) (\<lambda>x. Inr (x, s))"

section \<open>Descriptors of the guest and of the kernel\<close>

definition act_register :: "host \<Rightarrow> int \<Rightarrow> bool \<Rightarrow> int act" where
  "act_register h fd is_cloexec = with_files (register_fd (h_alloc h) fd is_cloexec)"

definition get_file :: "int \<Rightarrow> vfile option act" where
  "get_file fd =
    locked Rdlock (look (\<lambda>s. let t = fi_fdtable (k_files s) in
      if fd < 0 \<or> ft_size t \<le> fd then Inr None else do_get_file t fd))"

definition vkern_dup_fd :: "host \<Rightarrow> int \<Rightarrow> bool \<Rightarrow> int act" where
  "vkern_dup_fd h fd is_cloexec =
    act_bind (look (\<lambda>s. find_emptyfd (fi_vkern (k_files s)))) (\<lambda>vkern_fd.
    if vkern_fd = - 1 then (\<lambda>s. Inl Panicked)
    else act_bind (raw_call h (Fd (Dup2 fd vkern_fd))) (\<lambda>_.
      with_files (\<lambda>fi. bind_run (mark_fd (fi_vkern fi) vkern_fd is_cloexec)
        (\<lambda>t. Inr (vkern_fd, fi\<lparr>fi_vkern := t\<rparr>)))))"

definition darwinfs_close :: "host \<Rightarrow> vfile \<Rightarrow> int act" where
  "darwinfs_close h f = (if fl_ops f then wrap_call h (Fd (Close (fl_fd f))) else (\<lambda>s. Inl Null_deref))"

text \<open>\<open>do_close\<close> on the table that \<open>get\<close> reads and \<open>put\<close> writes back.\<close>

definition do_close :: "host \<Rightarrow> (fileinfo \<Rightarrow> fdtable) \<Rightarrow> (fdtable \<Rightarrow> fileinfo \<Rightarrow> fileinfo) \<Rightarrow> int \<Rightarrow> int act" where
  "do_close h get put fd =
    act_bind (look (\<lambda>s. Inr (get (k_files s)))) (\<lambda>t.
    if fd < ft_start t \<or> ft_start t + ft_size t \<le> fd then act_ret (- LINUX_EBADF)
    else act_bind (look (\<lambda>s. test_fdbit t (ft_open t) fd)) (\<lambda>set.
      if \<not> set then act_ret (- LINUX_EBADF)
      else act_bind (look (\<lambda>s. do_get_file t fd)) (\<lambda>file.
        case file of
          None \<Rightarrow> act_ret (- LINUX_EBADF)
        | Some f \<Rightarrow>
            act_bind (darwinfs_close h f) (\<lambda>n.
            act_bind (with_files (\<lambda>fi. bind_run (unmark_fd t fd) (\<lambda>t'. Inr ((), put t' fi)))) (\<lambda>_. act_ret n)))))"

definition put_user :: "fdtable \<Rightarrow> fileinfo \<Rightarrow> fileinfo" where
  "put_user t fi = fi\<lparr>fi_fdtable := t\<rparr>"

definition put_vkern :: "fdtable \<Rightarrow> fileinfo \<Rightarrow> fileinfo" where
  "put_vkern t fi = fi\<lparr>fi_vkern := t\<rparr>"

definition user_close :: "host \<Rightarrow> int \<Rightarrow> int act" where
  "user_close h fd = locked Wrlock (do_close h fi_fdtable put_user fd)"

definition vkern_close :: "host \<Rightarrow> int \<Rightarrow> int act" where
  "vkern_close h fd = locked Wrlock (do_close h fi_vkern put_vkern fd)"

definition sys_close :: "host \<Rightarrow> int \<Rightarrow> int act" where
  "sys_close h fd = user_close h fd"

text \<open>The loops of \<open>close_cloexec\<close>: the bits of word \<open>i\<close>, and the words.\<close>

fun close_cloexec_bits :: "host \<Rightarrow> nat \<Rightarrow> nat list \<Rightarrow> unit act" where
  "close_cloexec_bits h i [] = act_ret ()"
| "close_cloexec_bits h i (j # js) =
    act_bind (look (\<lambda>s. let cle = ft_cloexec (fi_fdtable (k_files s)) in
      if i < length cle then Inr (cle ! i) else Inl Out_of_bounds)) (\<lambda>w.
    if w = 0 then act_ret ()
    else act_bind (if drop_bit j w AND 1 \<noteq> 0
                   then act_bind (do_close h fi_fdtable put_user (int (j + i * 64))) (\<lambda>_. act_ret ())
                   else act_ret ()) (\<lambda>_. close_cloexec_bits h i js))"

fun close_cloexec_words :: "host \<Rightarrow> nat list \<Rightarrow> unit act" where
  "close_cloexec_words h [] = act_ret ()"
| "close_cloexec_words h (i # is) =
    act_bind (close_cloexec_bits h i [0..<64]) (\<lambda>_. close_cloexec_words h is)"

definition close_cloexec :: "host \<Rightarrow> unit act" where
  "close_cloexec h =
    locked Wrlock (act_bind (look (\<lambda>s. Inr (ft_size (fi_fdtable (k_files s))))) (\<lambda>size.
      close_cloexec_words h [0..<nat (size div 64)]))"

section \<open>What a table means\<close>

text \<open>
  The abstract content of a table: which descriptors are open, and which of those are closed on
  \<open>exec\<close>.  A well-formed table has arrays of the size it claims, no close-on-exec bit without an
  open bit, and for every open bit a file structure with the right number.
\<close>

definition fdbit :: "64 word list \<Rightarrow> nat \<Rightarrow> bool" where
  "fdbit ws n \<longleftrightarrow> n div 64 < length ws \<and> bit (ws ! (n div 64)) (n mod 64)"

definition table_ok :: "fdtable \<Rightarrow> bool" where
  "table_ok t \<longleftrightarrow>
    0 \<le> ft_size t \<and> ft_size t mod 64 = 0 \<and> int (length (ft_open t)) = ft_size t div 64 \<and>
    length (ft_cloexec t) = length (ft_open t) \<and> length (ft_files t) = length (ft_open t) \<and>
    (\<forall>u \<in> set (ft_files t). length u = 64) \<and>
    (\<forall>n. fdbit (ft_cloexec t) n \<longrightarrow> fdbit (ft_open t) n) \<and>
    (\<forall>n. fdbit (ft_open t) n \<longrightarrow>
       ft_files t ! (n div 64) ! (n mod 64) = \<lparr>fl_ops = True, fl_fd = ft_start t + int n\<rparr>)"

definition fd_view :: "fdtable \<Rightarrow> int \<Rightarrow> bool option" where
  "fd_view t fd =
    (if ft_start t \<le> fd \<and> fdbit (ft_open t) (nat (fd - ft_start t))
     then Some (fdbit (ft_cloexec t) (nat (fd - ft_start t))) else None)"

definition in_table :: "fdtable \<Rightarrow> int \<Rightarrow> bool" where
  "in_table t fd \<longleftrightarrow> ft_start t \<le> fd \<and> fd < ft_start t + ft_size t"

lemma table_ok_size: "table_ok t \<Longrightarrow> ft_size t = 64 * int (length (ft_open t))"
  unfolding table_ok_def by (metis add.right_neutral mult_div_mod_eq)

lemma in_table_length:
  assumes "table_ok t" "in_table t fd"
  shows "nat (fd - ft_start t) div 64 < length (ft_open t)"
proof -
  have "nat (fd - ft_start t) < length (ft_open t) * 64"
    using assms(2) table_ok_size [OF assms(1)] unfolding in_table_def by linarith
  then show ?thesis by (simp add: div_less_iff_less_mult)
qed

lemma fdbit_index_ok:
  assumes "ft_start t \<le> fd" "nat (fd - ft_start t) div 64 < length ws"
  shows "fdbit_index t ws fd = Inr (nat (fd - ft_start t) div 64, nat (fd - ft_start t) mod 64)"
proof -
  have "nat (fd - ft_start t - (fd - ft_start t) div 64 * 64) = nat (fd - ft_start t) mod 64"
    using assms(1) by (simp add: minus_div_mult_eq_mod nat_mod_distrib)
  then show ?thesis using assms by (simp add: fdbit_index_def Let_def nat_div_distrib)
qed

lemma nat_index_eq: "(n :: nat) div 64 = m div 64 \<and> n mod 64 = m mod 64 \<longleftrightarrow> n = m"
  by (metis div_mult_mod_eq)

lemma fdbit_update:
  assumes "m div 64 < length ws"
  shows "fdbit (ws[m div 64 := w]) n \<longleftrightarrow> (if n div 64 = m div 64 then bit w (n mod 64) else fdbit ws n)"
  using assms by (auto simp: fdbit_def nth_list_update)

lemma set_fdbit_ok:
  assumes "ft_start t \<le> fd" "nat (fd - ft_start t) div 64 < length ws"
  shows "\<exists>ws'. set_fdbit t ws fd = Inr ws' \<and> length ws' = length ws \<and>
    (\<forall>n. fdbit ws' n \<longleftrightarrow> fdbit ws n \<or> n = nat (fd - ft_start t))"
proof -
  let ?m = "nat (fd - ft_start t)"
  let ?w = "ws ! (?m div 64) OR push_bit (?m mod 64) 1"
  have "bit ?w (n mod 64) \<longleftrightarrow> bit (ws ! (?m div 64)) (n mod 64) \<or> n mod 64 = ?m mod 64" for n
    by (auto simp: bit_or_iff bit_simps)
  then have "fdbit (ws[?m div 64 := ?w]) n \<longleftrightarrow> fdbit ws n \<or> n = ?m" for n
    using nat_index_eq [of n ?m] fdbit_update [OF assms(2)] assms(2) by (auto simp: fdbit_def)
  then show ?thesis by (simp add: set_fdbit_def fdbit_index_ok [OF assms])
qed

lemma clear_fdbit_ok:
  assumes "ft_start t \<le> fd" "nat (fd - ft_start t) div 64 < length ws"
  shows "\<exists>ws'. clear_fdbit t ws fd = Inr ws' \<and> length ws' = length ws \<and>
    (\<forall>n. fdbit ws' n \<longleftrightarrow> fdbit ws n \<and> n \<noteq> nat (fd - ft_start t))"
proof -
  let ?m = "nat (fd - ft_start t)"
  let ?w = "ws ! (?m div 64) AND NOT (push_bit (?m mod 64) 1)"
  have "bit ?w (n mod 64) \<longleftrightarrow> bit (ws ! (?m div 64)) (n mod 64) \<and> n mod 64 \<noteq> ?m mod 64" for n
    by (auto simp: bit_simps)
  then have "fdbit (ws[?m div 64 := ?w]) n \<longleftrightarrow> fdbit ws n \<and> n \<noteq> ?m" for n
    using nat_index_eq [of n ?m] fdbit_update [OF assms(2)] assms(2) by (auto simp: fdbit_def)
  then show ?thesis by (simp add: clear_fdbit_def fdbit_index_ok [OF assms])
qed

lemma test_fdbit_ok:
  assumes "ft_start t \<le> fd" "nat (fd - ft_start t) div 64 < length ws"
  shows "test_fdbit t ws fd = Inr (fdbit ws (nat (fd - ft_start t)))"
proof -
  have "(w :: 64 word) AND push_bit j 1 \<noteq> 0 \<longleftrightarrow> bit w j" if "j < 64" for w j
    using that by (auto simp: word_and_eq_0_iff bit_simps)
  then show ?thesis using assms by (simp add: test_fdbit_def fdbit_index_ok [OF assms] fdbit_def)
qed

lemma file_index_ok:
  assumes "table_ok t" "in_table t fd"
  shows "file_index t fd = Inr (nat (fd - ft_start t) div 64, nat (fd - ft_start t) mod 64)"
proof -
  have "nat (fd - ft_start t) div 64 < length (ft_files t)"
    using in_table_length [OF assms] assms(1) by (simp add: table_ok_def)
  moreover from this have "length (ft_files t ! (nat (fd - ft_start t) div 64)) = 64"
    using assms(1) by (simp add: table_ok_def)
  ultimately show ?thesis using assms(2)
    by (simp add: file_index_def Let_def in_table_def nat_div_distrib nat_mod_distrib)
qed

lemma do_get_file_ok:
  assumes "table_ok t" "in_table t fd"
  shows "do_get_file t fd = Inr (map_option (\<lambda>_. \<lparr>fl_ops = True, fl_fd = fd\<rparr>) (fd_view t fd))"
  using assms in_table_length [OF assms] file_index_ok [OF assms]
  by (auto simp: do_get_file_def test_fdbit_ok in_table_def fd_view_def table_ok_def)

lemma mark_fd_ok:
  assumes "table_ok t" "in_table t fd"
  shows "\<exists>t'. mark_fd t fd c = Inr t' \<and> table_ok t' \<and> ft_start t' = ft_start t \<and> ft_size t' = ft_size t \<and>
    fd_view t' = (fd_view t)(fd := Some c)"
proof -
  let ?m = "nat (fd - ft_start t)"
  have m: "ft_start t \<le> fd" "?m div 64 < length (ft_open t)" "?m div 64 < length (ft_cloexec t)"
    using assms in_table_length [OF assms] by (auto simp: in_table_def table_ok_def)
  obtain opn where opn: "set_fdbit t (ft_open t) fd = Inr opn" "length opn = length (ft_open t)"
    "\<And>n. fdbit opn n \<longleftrightarrow> fdbit (ft_open t) n \<or> n = ?m"
    using set_fdbit_ok [OF m(1,2)] by blast
  obtain cle where cle: "(if c then set_fdbit t (ft_cloexec t) fd else clear_fdbit t (ft_cloexec t) fd) = Inr cle"
    "length cle = length (ft_cloexec t)"
    "\<And>n. fdbit cle n \<longleftrightarrow> (if n = ?m then c else fdbit (ft_cloexec t) n)"
    using set_fdbit_ok [OF m(1,3)] clear_fdbit_ok [OF m(1,3)] by (cases c) fastforce+
  let ?t = "t\<lparr>ft_open := opn, ft_cloexec := cle\<rparr>"
  let ?files = "(ft_files t)[?m div 64 := (ft_files t ! (?m div 64))[?m mod 64 := \<lparr>fl_ops = True, fl_fd = fd\<rparr>]]"
  have "file_index ?t fd = file_index t fd" by (simp add: file_index_def)
  then have mark: "mark_fd t fd c = Inr (?t\<lparr>ft_files := ?files\<rparr>)"
    using opn(1) cle(1) file_index_ok [OF assms] by (simp add: mark_fd_def alloc_file_def)
  have len: "\<forall>u \<in> set (ft_files t). length u = 64" "?m div 64 < length (ft_files t)"
    using assms(1) m(2) by (auto simp: table_ok_def)
  have units: "\<forall>u \<in> set ?files. length u = 64"
    using len by (auto dest!: set_update_subset_insert [THEN subsetD])
  have files: "?files ! (n div 64) ! (n mod 64) =
      (if n = ?m then \<lparr>fl_ops = True, fl_fd = fd\<rparr> else ft_files t ! (n div 64) ! (n mod 64))"
    if "fdbit opn n" for n
    using that nat_index_eq [of n ?m] len opn(2) by (auto simp: fdbit_def nth_list_update)
  have "table_ok (?t\<lparr>ft_files := ?files\<rparr>)"
    using assms(1) opn(2,3) cle(2,3) units files m(1) unfolding table_ok_def by auto
  moreover have "fd_view (?t\<lparr>ft_files := ?files\<rparr>) = (fd_view t)(fd := Some c)"
    using opn(3) cle(3) m(1) by (auto simp: fd_view_def fun_eq_iff)
  ultimately show ?thesis using mark by simp
qed

lemma fdbit_append_zero [simp]: "fdbit (ws @ replicate n 0) m = fdbit ws m"
  by (auto simp: fdbit_def nth_append)

lemma takeWhile_True [simp]: "takeWhile (\<lambda>i. True) xs = xs"
  by (simp add: takeWhile_eq_all_conv)

lemma div_ceil_bounds:
  assumes "0 < req"
  shows "req \<le> div_ceil req 64 * 64" "div_ceil req 64 * 64 < req + 64"
  using div_mult_mod_eq [of "req + 63" 64] pos_mod_bound [of 64 "req + 63"] pos_mod_sign [of 64 "req + 63"]
  unfolding div_ceil_def by linarith+

lemma alloc_fdtable_ok:
  assumes "table_ok t" "mem = (\<lambda>_. True)" "0 < req"
  shows "\<exists>t'. alloc_fdtable mem t req = (0, t') \<and> table_ok t' \<and> ft_start t' = ft_start t \<and>
    ft_size t' = max (ft_size t) (div_ceil req 64 * 64) \<and> fd_view t' = fd_view t"
proof (cases "div_ceil req 64 * 64 \<le> ft_size t")
  case True
  then show ?thesis using assms by (simp add: alloc_fdtable_def Let_def)
next
  case False
  let ?old = "length (ft_open t)" and ?new = "nat (div_ceil req 64)"
  note size = table_ok_size [OF assms(1)]
  have units: "nat (ft_size t div 64) = ?old" "nat (div_ceil req 64 * 64 div 64) = ?new" "?old \<le> ?new"
    using False size by auto
  have takes: "take ?old (ft_open t) = ft_open t" "take ?old (ft_cloexec t) = ft_cloexec t"
    "take ?old (ft_files t) = ft_files t"
    using assms(1) by (simp_all add: table_ok_def)
  let ?t = "t\<lparr>ft_files := ft_files t @ replicate (?new - ?old) (replicate 64 \<lparr>fl_ops = False, fl_fd = 0\<rparr>),
    ft_open := ft_open t @ replicate (?new - ?old) 0,
    ft_cloexec := ft_cloexec t @ replicate (?new - ?old) 0, ft_size := div_ceil req 64 * 64\<rparr>"
  have alloc: "alloc_fdtable mem t req = (0, ?t)"
    using False by (simp add: alloc_fdtable_def Let_def assms(2) units takes)
  have "0 \<le> div_ceil req 64" using False size by simp
  then have "int (length (ft_open ?t)) = ft_size ?t div 64" using units(3) by simp
  moreover have "n div 64 < ?old" if "fdbit (ft_open t) n" for n using that by (simp add: fdbit_def)
  ultimately have "table_ok ?t"
    using assms(1) \<open>0 \<le> div_ceil req 64\<close> unfolding table_ok_def by (auto simp: nth_append)
  moreover have "fd_view ?t = fd_view t" by (simp add: fd_view_def fun_eq_iff)
  ultimately show ?thesis using alloc False by simp
qed

definition files_ok :: "fileinfo \<Rightarrow> bool" where
  "files_ok fi \<longleftrightarrow> table_ok (fi_fdtable fi) \<and> table_ok (fi_vkern fi) \<and> ft_start (fi_fdtable fi) = 0"

abbreviation user_view :: "fileinfo \<Rightarrow> int \<Rightarrow> bool option" where
  "user_view fi \<equiv> fd_view (fi_fdtable fi)"

lemma register_fd_ok:
  assumes "files_ok fi" "mem = (\<lambda>_. True)" "in_userfd fi fd"
  shows "\<exists>t. register_fd mem fd c fi = Inr (0, fi\<lparr>fi_fdtable := t\<rparr>) \<and> table_ok t \<and> ft_start t = 0 \<and>
    fd_view t = (user_view fi)(fd := Some c)"
proof -
  have ok: "table_ok (fi_fdtable fi)" "ft_start (fi_fdtable fi) = 0" and fd: "0 \<le> fd" "fd < ft_start (fi_vkern fi)"
    using assms by (auto simp: files_ok_def in_userfd_def)
  obtain t where t: "(if ft_size (fi_fdtable fi) \<le> fd then alloc_fdtable mem (fi_fdtable fi) (fd + 1)
      else (0, fi_fdtable fi)) = (0, t)" "table_ok t" "ft_start t = 0" "fd < ft_size t" "fd_view t = user_view fi"
  proof (cases "ft_size (fi_fdtable fi) \<le> fd")
    case True
    then obtain t' where "alloc_fdtable mem (fi_fdtable fi) (fd + 1) = (0, t')" "table_ok t'"
      "ft_start t' = 0" "ft_size t' = max (ft_size (fi_fdtable fi)) (div_ceil (fd + 1) 64 * 64)"
      "fd_view t' = user_view fi"
      using alloc_fdtable_ok [OF ok(1) assms(2), of "fd + 1"] fd ok(2) by auto
    moreover have "fd < div_ceil (fd + 1) 64 * 64" using div_ceil_bounds(1) [of "fd + 1"] fd(1) by linarith
    ultimately show ?thesis using that True by simp
  next
    case False
    then show ?thesis using that ok by simp
  qed
  have "in_table t fd" using t(3,4) fd(1) by (simp add: in_table_def)
  then obtain t' where t': "mark_fd t fd c = Inr t'" "table_ok t'" "ft_start t' = 0"
    "fd_view t' = (user_view fi)(fd := Some c)"
    using mark_fd_ok [OF t(2)] t(3,5) by metis
  then show ?thesis using fd(2) t(1) by (auto simp: register_fd_def)
qed

lemma register_fd_full:
  "ft_start (fi_vkern fi) \<le> fd \<Longrightarrow> register_fd mem fd c fi = Inr (- LINUX_EMFILE, fi)"
  by (simp add: register_fd_def)

section \<open>Closing\<close>

lemmas act_simps [simp] = act_ret_def act_bind_def emit_def raw_call_def wrap_call_def look_def with_files_def
  locked_def

lemma unmark_fd_ok:
  assumes "table_ok t" "in_table t fd"
  shows "\<exists>t'. unmark_fd t fd = Inr t' \<and> table_ok t' \<and> ft_start t' = ft_start t \<and> ft_size t' = ft_size t \<and>
    fd_view t' = (fd_view t)(fd := None)"
proof -
  let ?m = "nat (fd - ft_start t)"
  have m: "ft_start t \<le> fd" "?m div 64 < length (ft_open t)" "?m div 64 < length (ft_cloexec t)"
    using assms in_table_length [OF assms] by (auto simp: in_table_def table_ok_def)
  obtain opn where opn: "clear_fdbit t (ft_open t) fd = Inr opn" "length opn = length (ft_open t)"
    "\<And>n. fdbit opn n \<longleftrightarrow> fdbit (ft_open t) n \<and> n \<noteq> ?m"
    using clear_fdbit_ok [OF m(1,2)] by blast
  obtain cle where cle: "clear_fdbit t (ft_cloexec t) fd = Inr cle" "length cle = length (ft_cloexec t)"
    "\<And>n. fdbit cle n \<longleftrightarrow> fdbit (ft_cloexec t) n \<and> n \<noteq> ?m"
    using clear_fdbit_ok [OF m(1,3)] by blast
  have "table_ok (t\<lparr>ft_open := opn, ft_cloexec := cle\<rparr>)"
    using assms(1) opn(2,3) cle(2,3) unfolding table_ok_def by auto
  moreover have "fd_view (t\<lparr>ft_open := opn, ft_cloexec := cle\<rparr>) x = ((fd_view t)(fd := None)) x" for x
  proof (cases "ft_start t \<le> x \<and> x \<noteq> fd")
    case True
    then have "nat (x - ft_start t) \<noteq> ?m" using m(1) by auto
    then show ?thesis using True opn(3) cle(3) by (simp add: fd_view_def)
  next
    case False
    then show ?thesis using opn(3) by (auto simp: fd_view_def)
  qed
  ultimately show ?thesis using opn(1) cle(1) by (auto simp: unmark_fd_def fun_eq_iff)
qed

text \<open>
  The interface of a table towards its clients: what is open after a descriptor is marked and
  after it is unmarked.  Both tables of a process are instances.
\<close>

locale descriptor_table =
  fixes view :: "'t \<Rightarrow> int \<Rightarrow> bool option"
    and inv :: "'t \<Rightarrow> bool"
    and room :: "'t \<Rightarrow> int \<Rightarrow> bool"
    and mark :: "'t \<Rightarrow> int \<Rightarrow> bool \<Rightarrow> 't run"
    and unmark :: "'t \<Rightarrow> int \<Rightarrow> 't run"
  assumes mark: "inv t \<Longrightarrow> room t fd \<Longrightarrow>
      \<exists>t'. mark t fd c = Inr t' \<and> inv t' \<and> room t' = room t \<and> view t' = (view t)(fd := Some c)"
    and unmark: "inv t \<Longrightarrow> room t fd \<Longrightarrow>
      \<exists>t'. unmark t fd = Inr t' \<and> inv t' \<and> room t' = room t \<and> view t' = (view t)(fd := None)"
begin

text \<open>A descriptor that is marked and unmarked again leaves no trace in a table where it was free.\<close>

lemma mark_unmark:
  assumes "inv t" "room t fd" "view t fd = None"
  shows "\<exists>t1 t2. mark t fd c = Inr t1 \<and> unmark t1 fd = Inr t2 \<and> inv t2 \<and> view t2 = view t"
proof -
  obtain t1 where t1: "mark t fd c = Inr t1" "inv t1" "room t1 = room t" "view t1 = (view t)(fd := Some c)"
    using mark [OF assms(1,2)] by blast
  obtain t2 where "unmark t1 fd = Inr t2" "inv t2" "view t2 = (view t1)(fd := None)"
    using unmark [OF t1(2), of fd] t1(3) assms(2) by auto
  then show ?thesis using t1 assms(3) by (auto simp: fun_upd_idem)
qed

text \<open>Two descriptors, as a pipe has them: both are open with the same flag, nothing else changes.\<close>

lemma mark_two:
  assumes "inv t" "room t a" "room t b"
  shows "\<exists>t1 t2. mark t a c = Inr t1 \<and> mark t1 b c = Inr t2 \<and> inv t2 \<and> room t2 = room t \<and>
    view t2 = (view t)(a := Some c, b := Some c)"
proof -
  obtain t1 where t1: "mark t a c = Inr t1" "inv t1" "room t1 = room t" "view t1 = (view t)(a := Some c)"
    using mark [OF assms(1,2)] by blast
  then show ?thesis using mark [OF t1(2), of b c] assms(3) by auto
qed

end

lemma in_table_cong: "ft_start t' = ft_start t \<Longrightarrow> ft_size t' = ft_size t \<Longrightarrow> in_table t' = in_table t"
  by (simp add: in_table_def fun_eq_iff)

interpretation fdt: descriptor_table fd_view table_ok in_table mark_fd unmark_fd
proof
  show "\<exists>t'. mark_fd t fd c = Inr t' \<and> table_ok t' \<and> in_table t' = in_table t \<and> fd_view t' = (fd_view t)(fd := Some c)"
    if "table_ok t" "in_table t fd" for t fd c
    using mark_fd_ok [OF that, of c] in_table_cong [of _ t] by blast
  show "\<exists>t'. unmark_fd t fd = Inr t' \<and> table_ok t' \<and> in_table t' = in_table t \<and> fd_view t' = (fd_view t)(fd := None)"
    if "table_ok t" "in_table t fd" for t fd
    using unmark_fd_ok [OF that] in_table_cong [of _ t] by blast
qed

lemma fd_view_in_table:
  assumes "table_ok t" "fd_view t fd = Some c"
  shows "in_table t fd"
proof -
  have "ft_start t \<le> fd" "nat (fd - ft_start t) div 64 < length (ft_open t)"
    using assms(2) by (auto simp: fd_view_def fdbit_def split: if_splits)
  then have "nat (fd - ft_start t) < length (ft_open t) * 64" by (simp add: div_less_iff_less_mult)
  then show ?thesis using \<open>ft_start t \<le> fd\<close> table_ok_size [OF assms(1)] by (simp add: in_table_def)
qed

lemma do_close_bad:
  assumes "table_ok (get (k_files s))" "fd_view (get (k_files s)) fd = None"
  shows "do_close h get put fd s = Inr (- LINUX_EBADF, s)"
proof (cases "in_table (get (k_files s)) fd")
  case True
  then show ?thesis using assms in_table_length [OF assms(1) True] do_get_file_ok [OF assms(1) True]
    by (auto simp: do_close_def in_table_def test_fdbit_ok fd_view_def)
next
  case False
  then show ?thesis by (auto simp: do_close_def in_table_def)
qed

lemma do_close_open:
  assumes "table_ok (get (k_files s))" "fd_view (get (k_files s)) fd = Some c"
  shows "\<exists>t. do_close h get put fd s =
      Inr (syswrap (fst (answer h (Fd (Close fd)))) (snd (answer h (Fd (Close fd)))),
        s\<lparr>k_files := put t (k_files s), k_trace := k_trace s @ [Call (Fd (Close fd))]\<rparr>) \<and>
    table_ok t \<and> ft_start t = ft_start (get (k_files s)) \<and> ft_size t = ft_size (get (k_files s)) \<and>
    fd_view t = (fd_view (get (k_files s)))(fd := None)"
proof -
  let ?t = "get (k_files s)"
  have fd: "in_table ?t fd" using fd_view_in_table [OF assms] .
  obtain t where c: "unmark_fd ?t fd = Inr t" "table_ok t" "ft_start t = ft_start ?t" "ft_size t = ft_size ?t"
    "fd_view t = (fd_view ?t)(fd := None)"
    using unmark_fd_ok [OF assms(1) fd] by blast
  have "test_fdbit ?t (ft_open ?t) fd = Inr True"
    using in_table_length [OF assms(1) fd] fd assms(2)
    by (auto simp: test_fdbit_ok in_table_def fd_view_def split: if_splits)
  then show ?thesis using c fd do_get_file_ok [OF assms(1) fd] assms(2)
    by (intro exI [of _ t]) (auto simp: do_close_def in_table_def darwinfs_close_def)
qed

text \<open>What \<open>close_cloexec\<close> has closed when it has passed the descriptors of \<open>D\<close>.\<close>

definition cloexec_closed :: "int set \<Rightarrow> (int \<Rightarrow> bool option) \<Rightarrow> int \<Rightarrow> bool option" where
  "cloexec_closed D v fd = (if fd \<in> D \<and> v fd = Some True then None else v fd)"

definition same_but_user :: "kern \<Rightarrow> kern \<Rightarrow> bool" where
  "same_but_user s s' \<longleftrightarrow> k_user s' = k_user s \<and> fi_vkern (k_files s') = fi_vkern (k_files s) \<and>
    fi_rootfd (k_files s') = fi_rootfd (k_files s) \<and>
    ft_size (fi_fdtable (k_files s')) = ft_size (fi_fdtable (k_files s))"

lemma cloexec_word:
  assumes "table_ok t" "ft_start t = 0" "i < length (ft_open t)" "j < 64"
  shows "drop_bit j (ft_cloexec t ! i) AND 1 \<noteq> 0 \<longleftrightarrow> fd_view t (int (j + i * 64)) = Some True"
proof -
  have idx: "(j + i * 64) div 64 = i" "(j + i * 64) mod 64 = j" using assms(4) by simp_all
  have "drop_bit j (ft_cloexec t ! i) AND 1 \<noteq> 0 \<longleftrightarrow> bit (ft_cloexec t ! i) j"
    by (simp add: and_one_eq bit_iff_odd_drop_bit odd_iff_mod_2_eq_one)
  also have "\<dots> \<longleftrightarrow> fdbit (ft_cloexec t) (j + i * 64)"
    using assms(1,3) idx by (simp add: fdbit_def table_ok_def)
  also have "\<dots> \<longleftrightarrow> fdbit (ft_open t) (j + i * 64) \<and> fdbit (ft_cloexec t) (j + i * 64)"
    using assms(1) by (auto simp: table_ok_def)
  finally show ?thesis using assms(2) by (simp add: fd_view_def del: of_nat_add of_nat_mult)
qed

lemma close_cloexec_bits_ok:
  assumes "files_ok (k_files s)" "i < length (ft_open (fi_fdtable (k_files s)))" "\<forall>j \<in> set js. j < 64" "distinct js"
  shows "\<exists>s'. close_cloexec_bits h i js s = Inr ((), s') \<and> files_ok (k_files s') \<and> same_but_user s s' \<and>
    user_view (k_files s') = cloexec_closed ((\<lambda>j. int (j + i * 64)) ` set js) (user_view (k_files s)) \<and>
    k_trace s' = k_trace s @
      map (\<lambda>j. Call (Fd (Close (int (j + i * 64))))) (filter (\<lambda>j. user_view (k_files s) (int (j + i * 64)) = Some True) js)"
  using assms
proof (induction js arbitrary: s)
  case Nil
  then show ?case by (simp add: cloexec_closed_def same_but_user_def)
next
  case (Cons j js)
  let ?t = "fi_fdtable (k_files s)" and ?v = "user_view (k_files s)" and ?fd = "\<lambda>j. int (j + i * 64)"
  have t: "table_ok ?t" "ft_start ?t = 0" using Cons.prems(1) by (auto simp: files_ok_def)
  have word: "drop_bit j (ft_cloexec ?t ! i) AND 1 \<noteq> 0 \<longleftrightarrow> ?v (?fd j) = Some True" if "j < 64" for j
    using cloexec_word [OF t Cons.prems(2) that] .
  have len: "i < length (ft_cloexec ?t)" using t(1) Cons.prems(2) by (simp add: table_ok_def)
  show ?case
  proof (cases "ft_cloexec ?t ! i = 0")
    case True
    have none: "?v (?fd k) \<noteq> Some True" if "k \<in> set (j # js)" for k
      using word [of k] that Cons.prems(3) True by auto
    have "close_cloexec_bits h i (j # js) s = Inr ((), s)" using len True by simp
    moreover have "cloexec_closed (?fd ` set (j # js)) ?v = ?v"
      using none by (auto simp: cloexec_closed_def fun_eq_iff)
    moreover have "filter (\<lambda>j. ?v (?fd j) = Some True) (j # js) = []"
      unfolding filter_empty_conv using none by blast
    ultimately show ?thesis using Cons.prems(1) by (simp add: same_but_user_def)
  next
    case nz: False
    show ?thesis
    proof (cases "?v (?fd j) = Some True")
      case True
      obtain t' where t': "do_close h fi_fdtable put_user (?fd j) s =
          Inr (syswrap (fst (answer h (Fd (Close (?fd j))))) (snd (answer h (Fd (Close (?fd j))))),
            s\<lparr>k_files := put_user t' (k_files s), k_trace := k_trace s @ [Call (Fd (Close (?fd j)))]\<rparr>)"
        "table_ok t'" "ft_start t' = 0" "ft_size t' = ft_size ?t" "fd_view t' = ?v(?fd j := None)"
        using do_close_open [of fi_fdtable s "?fd j" True h put_user] t True by auto
      let ?s = "s\<lparr>k_files := put_user t' (k_files s), k_trace := k_trace s @ [Call (Fd (Close (?fd j)))]\<rparr>"
      have ok: "files_ok (k_files ?s)" using Cons.prems(1) t' by (simp add: files_ok_def put_user_def)
      have "i < length (ft_open (fi_fdtable (k_files ?s)))"
        using t' table_ok_size [OF t'(2)] table_ok_size [OF t(1)] Cons.prems(2) by (simp add: put_user_def)
      then obtain s' where s': "close_cloexec_bits h i js ?s = Inr ((), s')" "files_ok (k_files s')"
        "same_but_user ?s s'" "user_view (k_files s') = cloexec_closed (?fd ` set js) (user_view (k_files ?s))"
        "k_trace s' = k_trace ?s @
          map (\<lambda>j. Call (Fd (Close (?fd j)))) (filter (\<lambda>j. user_view (k_files ?s) (?fd j) = Some True) js)"
        using Cons.IH [OF ok] Cons.prems(3,4) by auto
      have "filter (\<lambda>k. user_view (k_files ?s) (?fd k) = Some True) js = filter (\<lambda>k. ?v (?fd k) = Some True) js"
        using Cons.prems(4) t'(5) by (intro filter_cong) (auto simp: put_user_def)
      moreover have "cloexec_closed (?fd ` set js) (user_view (k_files ?s)) = cloexec_closed (?fd ` set (j # js)) ?v"
        using t'(5) True by (auto simp: cloexec_closed_def put_user_def fun_eq_iff)
      moreover have "close_cloexec_bits h i (j # js) s = Inr ((), s')"
        using len nz word [of j] True Cons.prems(3) t'(1) s'(1) by simp
      ultimately show ?thesis using s' True t'(4)
        by (intro exI [of _ s']) (simp add: same_but_user_def put_user_def)
    next
      case False
      obtain s' where s': "close_cloexec_bits h i js s = Inr ((), s')" "files_ok (k_files s')" "same_but_user s s'"
        "user_view (k_files s') = cloexec_closed (?fd ` set js) ?v"
        "k_trace s' = k_trace s @ map (\<lambda>j. Call (Fd (Close (?fd j)))) (filter (\<lambda>j. ?v (?fd j) = Some True) js)"
        using Cons.IH [OF Cons.prems(1,2)] Cons.prems(3,4) by auto
      moreover have "cloexec_closed (?fd ` set js) ?v = cloexec_closed (?fd ` set (j # js)) ?v"
        using False by (auto simp: cloexec_closed_def fun_eq_iff)
      moreover have "close_cloexec_bits h i (j # js) s = Inr ((), s')"
        using len nz word [of j] False Cons.prems(3) s'(1) by simp
      ultimately show ?thesis using False by (intro exI [of _ s']) simp
    qed
  qed
qed

lemma cloexec_closed_twice:
  "cloexec_closed D (cloexec_closed D' v) = cloexec_closed (D' \<union> D) v"
  by (auto simp: cloexec_closed_def fun_eq_iff)

lemma close_cloexec_words_ok:
  assumes "files_ok (k_files s)" "\<forall>i \<in> set is. i < length (ft_open (fi_fdtable (k_files s)))" "distinct is"
  shows "\<exists>s'. close_cloexec_words h is s = Inr ((), s') \<and> files_ok (k_files s') \<and> same_but_user s s' \<and>
    user_view (k_files s') = cloexec_closed {int (j + i * 64) | i j. i \<in> set is \<and> j < 64} (user_view (k_files s)) \<and>
    k_trace s' = k_trace s @ map (\<lambda>n. Call (Fd (Close (int n))))
      (filter (\<lambda>n. user_view (k_files s) (int n) = Some True) (concat (map (\<lambda>i. map (\<lambda>j. j + i * 64) [0..<64]) is)))"
  using assms
proof (induction "is" arbitrary: s)
  case Nil
  then show ?case by (simp add: cloexec_closed_def same_but_user_def)
next
  case (Cons i "is")
  let ?v = "user_view (k_files s)" and ?D = "(\<lambda>j. int (j + i * 64)) ` set [0..<64]"
  obtain s1 where s1: "close_cloexec_bits h i [0..<64] s = Inr ((), s1)" "files_ok (k_files s1)" "same_but_user s s1"
    "user_view (k_files s1) = cloexec_closed ?D ?v"
    "k_trace s1 = k_trace s @ map (\<lambda>j. Call (Fd (Close (int (j + i * 64))))) (filter (\<lambda>j. ?v (int (j + i * 64)) = Some True) [0..<64])"
    using close_cloexec_bits_ok [OF Cons.prems(1), of i "[0..<64]" h] Cons.prems(2) by auto
  have "length (ft_open (fi_fdtable (k_files s1))) = length (ft_open (fi_fdtable (k_files s)))"
    using s1(2,3) Cons.prems(1) table_ok_size [of "fi_fdtable (k_files s1)"] table_ok_size [of "fi_fdtable (k_files s)"]
    by (simp add: files_ok_def same_but_user_def)
  then obtain s' where s': "close_cloexec_words h is s1 = Inr ((), s')" "files_ok (k_files s')" "same_but_user s1 s'"
    "user_view (k_files s') = cloexec_closed {int (j + i * 64) | i j. i \<in> set is \<and> j < 64} (user_view (k_files s1))"
    "k_trace s' = k_trace s1 @ map (\<lambda>n. Call (Fd (Close (int n))))
      (filter (\<lambda>n. user_view (k_files s1) (int n) = Some True) (concat (map (\<lambda>i. map (\<lambda>j. j + i * 64) [0..<64]) is)))"
    using Cons.IH [OF s1(2)] Cons.prems(2,3) by auto
  have fresh: "int n \<notin> ?D" if n: "n \<in> set (concat (map (\<lambda>i. map (\<lambda>j. j + i * 64) [0..<64]) is))" for n
  proof
    assume "int n \<in> ?D"
    then obtain j where "n = j + i * 64" "j < 64" by (auto simp del: of_nat_add of_nat_mult)
    then have "n div 64 = i" by simp
    moreover obtain i' where i': "i' * 64 \<le> n" "n < 64 + i' * 64" "i' \<in> set is" using n by auto
    then have "n div 64 = i'" by (intro div_nat_eqI) simp_all
    ultimately have "i' = i" by simp
    then show False using Cons.prems(3) i'(3) by simp
  qed
  have "filter (\<lambda>n. user_view (k_files s1) (int n) = Some True) (concat (map (\<lambda>i. map (\<lambda>j. j + i * 64) [0..<64]) is)) =
      filter (\<lambda>n. ?v (int n) = Some True) (concat (map (\<lambda>i. map (\<lambda>j. j + i * 64) [0..<64]) is))"
    unfolding s1(4) by (intro filter_cong) (use fresh in \<open>auto simp: cloexec_closed_def\<close>)
  moreover have "?D \<union> {int (j + i * 64) | i j. i \<in> set is \<and> j < 64} = {int (j + k * 64) | k j. k \<in> set (i # is) \<and> j < 64}"
    by (auto simp del: of_nat_add of_nat_mult) blast
  ultimately show ?case using s' s1 by (intro exI [of _ s'])
    (simp add: same_but_user_def cloexec_closed_twice filter_map comp_def)
qed

lemma close_cloexec_ok:
  assumes "files_ok (k_files s)"
  shows "\<exists>s'. close_cloexec h s = Inr ((), s') \<and> files_ok (k_files s') \<and> same_but_user s s' \<and>
    user_view (k_files s') = (\<lambda>fd. if user_view (k_files s) fd = Some True then None else user_view (k_files s) fd) \<and>
    k_trace s' = k_trace s @ [Wrlock] @ map (\<lambda>n. Call (Fd (Close (int n))))
      (filter (\<lambda>n. user_view (k_files s) (int n) = Some True) [0..<nat (ft_size (fi_fdtable (k_files s)))]) @ [Unlock]"
proof -
  let ?t = "fi_fdtable (k_files s)" and ?n = "length (ft_open (fi_fdtable (k_files s)))"
  have t: "table_ok ?t" "ft_start ?t = 0" using assms by (auto simp: files_ok_def)
  note size = table_ok_size [OF t(1)]
  let ?s = "s\<lparr>k_trace := k_trace s @ [Wrlock]\<rparr>"
  obtain s' where s': "close_cloexec_words h [0..<?n] ?s = Inr ((), s')" "files_ok (k_files s')" "same_but_user ?s s'"
    "user_view (k_files s') = cloexec_closed {int (j + i * 64) | i j. i \<in> set [0..<?n] \<and> j < 64} (user_view (k_files s))"
    "k_trace s' = k_trace ?s @ map (\<lambda>n. Call (Fd (Close (int n))))
      (filter (\<lambda>n. user_view (k_files s) (int n) = Some True) (concat (map (\<lambda>i. map (\<lambda>j. j + i * 64) [0..<64]) [0..<?n])))"
    using close_cloexec_words_ok [of ?s "[0..<?n]" h] assms by auto
  have "concat (map (\<lambda>i. map (\<lambda>j. j + i * 64) [0..<64]) [0..<m]) = [0..<m * 64]" for m :: nat
    using upt_add_eq_append [of 0 "k * 64" 64 for k] by (induction m) (simp_all add: map_add_upt add.commute)
  then have list: "concat (map (\<lambda>i. map (\<lambda>j. j + i * 64) [0..<64]) [0..<?n]) = [0..<nat (ft_size ?t)]"
    using size by (simp add: nat_mult_distrib mult.commute)
  have "cloexec_closed {int (j + i * 64) | i j. i \<in> set [0..<?n] \<and> j < 64} (user_view (k_files s)) fd =
      (if user_view (k_files s) fd = Some True then None else user_view (k_files s) fd)" for fd
  proof (cases "user_view (k_files s) fd = Some True")
    case True
    then have "0 \<le> fd" "nat fd div 64 < ?n"
      using t(2) by (auto simp: fd_view_def fdbit_def split: if_splits)
    then have "fd \<in> {int (j + i * 64) | i j. i \<in> set [0..<?n] \<and> j < 64}"
      by (intro CollectI exI [of _ "nat fd div 64"] exI [of _ "nat fd mod 64"]) (auto simp flip: of_nat_mult of_nat_add)
    then show ?thesis using True by (simp add: cloexec_closed_def)
  qed (simp add: cloexec_closed_def)
  moreover have "nat (ft_size ?t div 64) = ?n" using size by simp
  ultimately show ?thesis using s' list
    by (intro exI [of _ "s'\<lparr>k_trace := k_trace s' @ [Unlock]\<rparr>"])
      (auto simp: close_cloexec_def same_but_user_def fun_eq_iff)
qed

section \<open>A free descriptor for the kernel\<close>

lemma ffs_pos:
  assumes "0 < ffs w"
  shows "nat (ffs w - 1) < 32 \<and> bit w (nat (ffs w - 1))"
proof (cases "find (bit w) [0..<32]")
  case None
  then show ?thesis using assms unfolding ffs_def by simp
next
  case (Some i)
  then have "i < 32" "bit w i" by (auto simp: find_Some_iff)
  then show ?thesis using Some by (simp add: ffs_def)
qed

lemma find_empty_word_ok:
  "find_empty_word ws i = Some r \<Longrightarrow>
    \<exists>k < length ws. \<exists>j < 32. r = int (64 * (i + k) + j) \<and> \<not> bit (ws ! k) j"
proof (induction ws i rule: find_empty_word.induct)
  case (2 w ws i)
  show ?case
  proof (cases "0 < ffs (ucast (NOT w))")
    case True
    let ?j = "nat (ffs (ucast (NOT w)) - 1)"
    have "?j < 32" "\<not> bit w ?j" using ffs_pos [OF True] by (auto simp: bit_simps)
    moreover have "r = int (64 * (i + 0) + ?j)" using 2(2) True by (simp add: Let_def)
    ultimately show ?thesis by fastforce
  next
    case False
    then have "find_empty_word ws (Suc i) = Some r" using 2(2) by (simp add: Let_def)
    then obtain k j where "k < length ws" "j < 32" "r = int (64 * (Suc i + k) + j)" "\<not> bit (ws ! k) j"
      using 2(1) [OF refl False] by blast
    then show ?thesis by (intro exI [of _ "Suc k"] conjI exI [of _ j]) auto
  qed
qed simp

lemma find_emptyfd_ok:
  assumes "table_ok t"
  shows "\<exists>r. find_emptyfd t = Inr r \<and> (r = - 1 \<or> in_table t r \<and> fd_view t r = None)"
proof -
  note size = table_ok_size [OF assms]
  have n: "nat (ft_size t div 64) = length (ft_open t)" using size by simp
  show ?thesis
  proof (cases "find_empty_word (ft_open t) 0")
    case None
    then show ?thesis by (simp add: find_emptyfd_def n)
  next
    case (Some off)
    then obtain k j where kj: "k < length (ft_open t)" "j < 32" "off = int (64 * k + j)" "\<not> bit (ft_open t ! k) j"
      using find_empty_word_ok [of "ft_open t" 0 off] by auto
    have idx: "(64 * k + j) div 64 = k" "(64 * k + j) mod 64 = j" using kj(2) by simp_all
    have "\<not> fdbit (ft_open t) (64 * k + j)" using kj(2,4) by (simp add: fdbit_def idx)
    then have "fd_view t (ft_start t + off) = None" by (simp add: fd_view_def kj(3) del: of_nat_add of_nat_mult)
    moreover have "in_table t (ft_start t + off)" using kj(1,2,3) size by (simp add: in_table_def)
    ultimately show ?thesis using Some by (simp add: find_emptyfd_def n)
  qed
qed

end
