(* ===== verification/FdCalls.thy ===== *)
theory FdCalls
  imports FdTable
begin

text \<open>
  The system calls of \<open>src/fs/fs.c\<close> that change the table of descriptors: \<open>fcntl\<close>, \<open>dup\<close>,
  \<open>dup2\<close>, \<open>dup3\<close>, \<open>pipe\<close>, \<open>pipe2\<close>, and the start of a process, \<open>init_fileinfo\<close>.  An unsigned
  descriptor argument is the \<open>int\<close> with the same bits, which is what every callee reads.
\<close>

section \<open>fcntl\<close>

abbreviation (input) LINUX_F_DUPFD :: int where "LINUX_F_DUPFD \<equiv> 0"
abbreviation (input) LINUX_F_GETFD :: int where "LINUX_F_GETFD \<equiv> 1"
abbreviation (input) LINUX_F_SETFD :: int where "LINUX_F_SETFD \<equiv> 2"
abbreviation (input) LINUX_F_GETFL :: int where "LINUX_F_GETFL \<equiv> 3"
abbreviation (input) LINUX_F_SETFL :: int where "LINUX_F_SETFL \<equiv> 4"
abbreviation (input) LINUX_F_GETLK :: int where "LINUX_F_GETLK \<equiv> 5"
abbreviation (input) LINUX_F_SETLK :: int where "LINUX_F_SETLK \<equiv> 6"
abbreviation (input) LINUX_F_SETLKW :: int where "LINUX_F_SETLKW \<equiv> 7"
abbreviation (input) LINUX_F_DUPFD_CLOEXEC :: int where "LINUX_F_DUPFD_CLOEXEC \<equiv> 1030"
abbreviation (input) F_DUPFD :: int where "F_DUPFD \<equiv> 0"
abbreviation (input) F_SETFD :: int where "F_SETFD \<equiv> 2"
abbreviation (input) F_GETFL :: int where "F_GETFL \<equiv> 3"
abbreviation (input) F_SETFL :: int where "F_SETFL \<equiv> 4"
abbreviation (input) F_GETLK :: int where "F_GETLK \<equiv> 7"
abbreviation (input) F_SETLK :: int where "F_SETLK \<equiv> 8"
abbreviation (input) F_SETLKW :: int where "F_SETLKW \<equiv> 9"
abbreviation (input) F_NOCACHE :: int where "F_NOCACHE \<equiv> 48"
abbreviation (input) F_DUPFD_CLOEXEC :: int where "F_DUPFD_CLOEXEC \<equiv> 67"
abbreviation (input) FD_CLOEXEC :: "64 word" where "FD_CLOEXEC \<equiv> 1"

text \<open>The image of a \<open>struct l_flock\<close>: 32 bytes, with two gaps.\<close>

definition decode_flock :: "byte list \<Rightarrow> l_flock" where
  "decode_flock bs =
    \<lparr>ll_type = sint (le_word (get_field 0 2 bs) :: 16 word), ll_whence = sint (le_word (get_field 2 2 bs) :: 16 word),
     ll_start = sint (le_word (get_field 8 8 bs) :: 64 word), ll_len = sint (le_word (get_field 16 8 bs) :: 64 word),
     ll_pid = sint (le_word (get_field 24 4 bs) :: 32 word)\<rparr>"

definition encode_flock :: "l_flock \<Rightarrow> byte list \<Rightarrow> byte list" where
  "encode_flock f buf =
    put_field 24 (le_bytes 4 (word_of_int (ll_pid f) :: 32 word))
     (put_field 16 (le_bytes 8 (word_of_int (ll_len f) :: 64 word))
      (put_field 8 (le_bytes 8 (word_of_int (ll_start f) :: 64 word))
       (put_field 2 (le_bytes 2 (word_of_int (ll_whence f) :: 16 word))
        (put_field 0 (le_bytes 2 (word_of_int (ll_type f) :: 16 word)) buf))))"

text \<open>Copies between the guest and a buffer of the handler: \<open>None\<close> is a fault.\<close>

definition fetch :: "gaddr \<Rightarrow> nat \<Rightarrow> byte list option act" where
  "fetch a n s = (case copy_from_user (k_user s) a n of (rest, bs) \<Rightarrow> Inr (if rest = 0 then Some bs else None, s))"

definition store :: "gaddr \<Rightarrow> byte list \<Rightarrow> bool act" where
  "store a bs s = (case copy_to_user (k_user s) a bs of (rest, u) \<Rightarrow> Inr (rest = 0, s\<lparr>k_user := u\<rparr>))"

text \<open>A descriptor the host made is registered, or closed again when that fails.\<close>

definition register_or_close :: "host \<Rightarrow> int \<Rightarrow> bool \<Rightarrow> int act" where
  "register_or_close h r is_cloexec =
    (if 0 \<le> r then
       act_bind (act_register h r is_cloexec) (\<lambda>err.
       if err < 0 then act_bind (raw_call h (Fd (Close r))) (\<lambda>_. act_ret err) else act_ret r)
     else act_ret r)"

definition cloexec_bit :: "bool \<Rightarrow> int \<Rightarrow> unit act" where
  "cloexec_bit on fd = with_files (\<lambda>fi. let t = fi_fdtable fi in
    bind_run (if on then set_fdbit t (ft_cloexec t) fd else clear_fdbit t (ft_cloexec t) fd)
      (\<lambda>cle. Inr ((), fi\<lparr>fi_fdtable := t\<lparr>ft_cloexec := cle\<rparr>\<rparr>)))"

definition darwinfs_fcntl :: "host \<Rightarrow> vfile \<Rightarrow> int \<Rightarrow> 64 word \<Rightarrow> int act" where
  "darwinfs_fcntl h f cmd arg =
    (if cmd = LINUX_F_DUPFD then
       locked Wrlock (act_bind (wrap_call h (Fd (Fcntl (fl_fd f) F_DUPFD arg))) (\<lambda>r. register_or_close h r False))
     else if cmd = LINUX_F_DUPFD_CLOEXEC then
       locked Wrlock (act_bind (wrap_call h (Fd (Fcntl (fl_fd f) F_DUPFD_CLOEXEC arg))) (\<lambda>r. register_or_close h r True))
     else if cmd = LINUX_F_GETFD then wrap_call h (Fd (Getfd (fl_fd f)))
     else if cmd = LINUX_F_SETFD then
       locked Wrlock (act_bind (wrap_call h (Fd (Fcntl (fl_fd f) F_SETFD arg))) (\<lambda>r.
         if 0 \<le> r then act_bind (cloexec_bit (arg AND FD_CLOEXEC \<noteq> 0) (fl_fd f)) (\<lambda>_. act_ret r) else act_ret r))
     else if cmd = LINUX_F_GETFL then
       act_bind (wrap_call h (Fd (Fcntl (fl_fd f) F_GETFL 0))) (\<lambda>r.
         if r < 0 then act_ret r
         else look (\<lambda>s. bind_run (darwin_to_linux_o_flags (word_of_int r)) (\<lambda>w. Inr (sint w))))
     else if cmd = LINUX_F_SETFL then
       wrap_call h (Fd (Fcntl (fl_fd f) F_SETFL (scast (linux_to_darwin_o_flags (ucast arg)))))
     else if cmd = LINUX_F_GETLK then
       act_bind (fetch arg 32) (\<lambda>buf. case buf of
         None \<Rightarrow> act_ret (- LINUX_EFAULT)
       | Some bs \<Rightarrow>
           let lflock = decode_flock bs; c = Fd (Fcntl_lock (fl_fd f) F_GETLK (linux_to_darwin_flock lflock)) in
           act_bind (wrap_call h c) (\<lambda>r.
           if r < 0 then act_ret r
           else act_bind (store arg (encode_flock (darwin_to_linux_flock (out_flock h c) lflock) bs)) (\<lambda>fine.
             act_ret (if fine then 0 else - LINUX_EFAULT))))
     else if cmd = LINUX_F_SETLK \<or> cmd = LINUX_F_SETLKW then
       act_bind (fetch arg 32) (\<lambda>buf. case buf of
         None \<Rightarrow> act_ret (- LINUX_EFAULT)
       | Some bs \<Rightarrow>
           wrap_call h (Fd (Fcntl_lock (fl_fd f) (if cmd = LINUX_F_SETLK then F_SETLK else F_SETLKW)
             (linux_to_darwin_flock (decode_flock bs)))))
     else act_ret (- LINUX_EINVAL))"

definition with_file :: "int \<Rightarrow> (vfile \<Rightarrow> int act) \<Rightarrow> int act" where
  "with_file fd op =
    act_bind (get_file fd) (\<lambda>file. case file of
      None \<Rightarrow> act_ret (- LINUX_EBADF)
    | Some f \<Rightarrow> if fl_ops f then op f else (\<lambda>s. Inl Null_deref))"

definition sys_fcntl :: "host \<Rightarrow> int \<Rightarrow> int \<Rightarrow> 64 word \<Rightarrow> int act" where
  "sys_fcntl h fd cmd arg = with_file fd (\<lambda>f. darwinfs_fcntl h f cmd arg)"

section \<open>dup and pipe\<close>

definition sys_dup :: "host \<Rightarrow> int \<Rightarrow> int act" where
  "sys_dup h fd =
    locked Wrlock (act_bind (sys_fcntl h fd LINUX_F_DUPFD 0) (\<lambda>ret. register_or_close h ret False))"

definition sys_dup2 :: "host \<Rightarrow> int \<Rightarrow> int \<Rightarrow> int act" where
  "sys_dup2 h fd1 fd2 =
    act_bind (look (\<lambda>s. Inr (in_userfd (k_files s) fd1 \<and> in_userfd (k_files s) fd2))) (\<lambda>fine.
    if \<not> fine then act_ret (- LINUX_EBADF)
    else locked Wrlock (act_bind (wrap_call h (Fd (Dup2 fd1 fd2))) (\<lambda>ret. register_or_close h ret False)))"

definition sys_dup3 :: "host \<Rightarrow> int \<Rightarrow> int \<Rightarrow> flags \<Rightarrow> int act" where
  "sys_dup3 h oldfd newfd flgs =
    (if flgs AND NOT LINUX_O_CLOEXEC \<noteq> 0 then act_ret (- LINUX_EINVAL)
     else if oldfd = newfd then act_ret (- LINUX_EINVAL)
     else locked Wrlock
       (act_bind (wrap_call h (Fd (Dup2 oldfd newfd))) (\<lambda>ret.
        if ret < 0 then act_ret ret
        else if flgs AND LINUX_O_CLOEXEC \<noteq> 0 then
          act_bind (wrap_call h (Fd (Fcntl newfd F_SETFD FD_CLOEXEC))) (\<lambda>fcntl_err.
          if fcntl_err < 0 then act_bind (raw_call h (Fd (Close ret))) (\<lambda>_. act_ret fcntl_err)
          else register_or_close h ret True)
        else register_or_close h ret False)))"

text \<open>The two descriptors as the guest's array of two \<open>int\<close>s.\<close>

definition fd_pair :: "int \<times> int \<Rightarrow> byte list" where
  "fd_pair fds = le_bytes 4 (word_of_int (fst fds) :: 32 word) @ le_bytes 4 (word_of_int (snd fds) :: 32 word)"

definition sys_pipe :: "host \<Rightarrow> gaddr \<Rightarrow> int act" where
  "sys_pipe h fildes_ptr =
    locked Wrlock
      (act_bind (wrap_call h (Fd Pipe)) (\<lambda>r.
       if r < 0 then act_ret r
       else
         let fds = out_fds h (Fd Pipe) in
         act_bind (store fildes_ptr (fd_pair fds)) (\<lambda>fine.
         if \<not> fine then act_ret (- LINUX_EFAULT)
         else
           act_bind (act_register h (fst fds) False) (\<lambda>err0.
           act_bind (act_register h (snd fds) False) (\<lambda>err1.
           if err0 < 0 \<or> err1 < 0 then
             act_bind (raw_call h (Fd (Close err0))) (\<lambda>_.
             act_bind (raw_call h (Fd (Close err1))) (\<lambda>_.
             act_ret (if err0 < 0 then err0 else err1)))
           else act_ret r)))))"

abbreviation (input) LINUX_O_DIRECT :: flags where "LINUX_O_DIRECT \<equiv> 0x4000"

text \<open>One of the three \<open>fcntl\<close> pairs of \<open>pipe2\<close>; \<open>Some\<close> is the jump to \<open>close_by_fail\<close>.\<close>

definition pipe2_set :: "host \<Rightarrow> int \<times> int \<Rightarrow> bool \<Rightarrow> int \<Rightarrow> 64 word \<Rightarrow> (int \<times> int) option act" where
  "pipe2_set h fds cond cmd arg =
    (if \<not> cond then act_ret None
     else
       act_bind (wrap_call h (Fd (Fcntl (fst fds) cmd arg))) (\<lambda>err0.
       act_bind (wrap_call h (Fd (Fcntl (snd fds) cmd arg))) (\<lambda>err1.
       act_ret (if err0 < 0 \<or> err1 < 0 then Some (err0, err1) else None))))"

definition close_by_fail :: "host \<Rightarrow> int \<times> int \<Rightarrow> int \<times> int \<Rightarrow> int act" where
  "close_by_fail h fds errs =
    act_bind (raw_call h (Fd (Close (fst fds)))) (\<lambda>_.
    act_bind (raw_call h (Fd (Close (snd fds)))) (\<lambda>_.
    act_ret (if fst errs < 0 then fst errs else snd errs)))"

definition or_fail :: "host \<Rightarrow> int \<times> int \<Rightarrow> (int \<times> int) option act \<Rightarrow> int act \<Rightarrow> int act" where
  "or_fail h fds m k = act_bind m (\<lambda>x. case x of Some errs \<Rightarrow> close_by_fail h fds errs | None \<Rightarrow> k)"

definition sys_pipe2 :: "host \<Rightarrow> gaddr \<Rightarrow> flags \<Rightarrow> int act" where
  "sys_pipe2 h fildes_ptr flgs =
    (if flgs AND NOT (LINUX_O_NONBLOCK OR LINUX_O_CLOEXEC OR LINUX_O_DIRECT) \<noteq> 0 then act_ret (- LINUX_EINVAL)
     else locked Wrlock
       (act_bind (raw_call h (Fd Pipe)) (\<lambda>ret.
        if ret < 0 then act_ret ret
        else
          let fds = out_fds h (Fd Pipe); cle = flgs AND LINUX_O_CLOEXEC \<noteq> 0 in
          or_fail h fds (pipe2_set h fds cle F_SETFD FD_CLOEXEC)
          (or_fail h fds (pipe2_set h fds (flgs AND LINUX_O_NONBLOCK \<noteq> 0) F_SETFL (ucast O_NONBLOCK))
           (or_fail h fds (pipe2_set h fds (flgs AND LINUX_O_DIRECT \<noteq> 0) F_NOCACHE 1)
            (act_bind (act_register h (fst fds) cle) (\<lambda>err0.
             act_bind (act_register h (snd fds) cle) (\<lambda>err1.
             if err0 < 0 \<or> err1 < 0 then close_by_fail h fds (err0, err1)
             else act_bind (store fildes_ptr (fd_pair fds)) (\<lambda>fine.
               act_ret (if fine then ret else - LINUX_EFAULT))))))))))"

section \<open>The start of a process\<close>

definition empty_fdtable :: fdtable where
  "empty_fdtable = \<lparr>ft_start = 0, ft_size = 0, ft_files = [], ft_open = [], ft_cloexec = []\<rparr>"

text \<open>The loop over the descriptors the process was started with.\<close>

fun init_fds :: "host \<Rightarrow> int \<Rightarrow> int list \<Rightarrow> unit act" where
  "init_fds h rootfd [] = act_ret ()"
| "init_fds h rootfd (i # is) =
    act_bind
      (if i = rootfd then act_ret ()
       else act_bind (raw_call h (Fd (Getfd i))) (\<lambda>flag.
         if flag < 0 then act_ret ()
         else act_bind (look (\<lambda>s. Inr (in_userfd (k_files s) i))) (\<lambda>user.
           if user then act_bind (act_register h i (word_of_int flag AND FD_CLOEXEC \<noteq> 0)) (\<lambda>_. act_ret ())
           else act_bind (raw_call h (Fd (Close i))) (\<lambda>_. act_ret ()))))
      (\<lambda>_. init_fds h rootfd is)"

definition init_fileinfo :: "host \<Rightarrow> int \<Rightarrow> int \<Rightarrow> unit act" where
  "init_fileinfo h limit rootfd =
    act_bind (with_files (\<lambda>fi. Inr ((), fi
      \<lparr>fi_vkern := snd (alloc_fdtable (h_alloc h) (empty_fdtable\<lparr>ft_start := limit - vkern_fdtable_maxsize\<rparr>) vkern_fdtable_maxsize),
       fi_fdtable := snd (alloc_fdtable (h_alloc h) empty_fdtable user_fdtable_initsize)\<rparr>))) (\<lambda>_.
    act_bind (init_fds h rootfd [0..limit - 1]) (\<lambda>_.
    act_bind (vkern_dup_fd h rootfd False) (\<lambda>fd.
    with_files (\<lambda>fi. Inr ((), fi\<lparr>fi_rootfd := fd\<rparr>)))))"

section \<open>Total correctness of handlers\<close>

text \<open>
  \<open>triple P m Q\<close>: from a state with \<open>P\<close> the action returns, with a result and a state in \<open>Q\<close>.
  The rules follow the structure of an action.
\<close>

definition triple :: "(kern \<Rightarrow> bool) \<Rightarrow> 'a act \<Rightarrow> ('a \<Rightarrow> kern \<Rightarrow> bool) \<Rightarrow> bool" where
  "triple P m Q \<longleftrightarrow> (\<forall>s. P s \<longrightarrow> (\<exists>x s'. m s = Inr (x, s') \<and> Q x s'))"

named_theorems triples "rules of total correctness"

lemma triple_ret [triples]: "(\<And>s. P s \<Longrightarrow> Q x s) \<Longrightarrow> triple P (act_ret x) Q"
  by (simp add: triple_def)

lemma triple_bind: "triple P m R \<Longrightarrow> (\<And>x. triple (R x) (f x) Q) \<Longrightarrow> triple P (act_bind m f) Q"
  by (fastforce simp: triple_def)

lemma triple_weaken: "triple P m Q \<Longrightarrow> (\<And>s. P' s \<Longrightarrow> P s) \<Longrightarrow> (\<And>x s. Q x s \<Longrightarrow> Q' x s) \<Longrightarrow> triple P' m Q'"
  by (fastforce simp: triple_def)

text \<open>An invariant that depends on the tables only survives every host call and copy.\<close>

definition on_files :: "(fileinfo \<Rightarrow> bool) \<Rightarrow> kern \<Rightarrow> bool" where
  "on_files F s \<longleftrightarrow> F (k_files s)"

abbreviation keeps :: "(fileinfo \<Rightarrow> bool) \<Rightarrow> 'a act \<Rightarrow> bool" where
  "keeps F m \<equiv> triple (on_files F) m (\<lambda>_. on_files F)"

lemma keeps_bind [triples]: "keeps F m \<Longrightarrow> (\<And>x. keeps F (f x)) \<Longrightarrow> keeps F (act_bind m f)"
  by (rule triple_bind)

lemma keeps_ret [triples]: "keeps F (act_ret x)"
  by (simp add: triple_def)

lemma keeps_emit [triples]: "keeps F (emit e)"
  by (simp add: triple_def on_files_def)

lemma keeps_call [triples]: "keeps F (raw_call h c)" "keeps F (wrap_call h c)"
  by (simp_all add: triple_def on_files_def)

lemma keeps_locked [triples]: "keeps F m \<Longrightarrow> keeps F (locked l m)"
  unfolding locked_def by (intro triples)

lemma keeps_fetch [triples]: "keeps F (fetch a n)"
  by (simp add: triple_def on_files_def fetch_def split: prod.split)

lemma keeps_store [triples]: "keeps F (store a bs)"
  by (simp add: triple_def on_files_def store_def split: prod.split)

lemma keeps_look [triples]: "keeps F (look (\<lambda>s. Inr (f s)))"
  by (simp add: triple_def on_files_def)

lemma keeps_if [triples]: "(b \<Longrightarrow> keeps F m) \<Longrightarrow> (\<not> b \<Longrightarrow> keeps F m') \<Longrightarrow> keeps F (if b then m else m')"
  by simp

lemma keeps_option [triples]:
  "keeps F m \<Longrightarrow> (\<And>x. keeps F (f x)) \<Longrightarrow> keeps F (case p of None \<Rightarrow> m | Some x \<Rightarrow> f x)"
  by (cases p) auto

text \<open>
  The invariant of the tables with the border between the guest's and the kernel's descriptors:
  the guest has none open above it.
\<close>

definition fds_inv :: "int \<Rightarrow> fileinfo \<Rightarrow> bool" where
  "fds_inv border fi \<longleftrightarrow> files_ok fi \<and> ft_start (fi_vkern fi) = border \<and> (\<forall>fd \<ge> border. user_view fi fd = None)"

lemma keeps_register [triples]:
  assumes "h_alloc h = (\<lambda>_. True)" "0 \<le> fd"
  shows "keeps (fds_inv b) (act_register h fd c)"
proof -
  have "\<exists>x s'. act_register h fd c s = Inr (x, s') \<and> on_files (fds_inv b) s'" if "on_files (fds_inv b) s" for s
  proof (cases "in_userfd (k_files s) fd")
    case True
    have "files_ok (k_files s)" using that by (simp add: on_files_def fds_inv_def)
    then obtain t where "register_fd (h_alloc h) fd c (k_files s) = Inr (0, (k_files s)\<lparr>fi_fdtable := t\<rparr>)"
      "table_ok t" "ft_start t = 0" "fd_view t = (user_view (k_files s))(fd := Some c)"
      using register_fd_ok [OF _ assms(1) True] by blast
    then show ?thesis using that True
      by (auto simp: act_register_def on_files_def fds_inv_def files_ok_def in_userfd_def)
  next
    case False
    then have "ft_start (fi_vkern (k_files s)) \<le> fd" using assms(2) by (simp add: in_userfd_def)
    then show ?thesis using that by (simp add: act_register_def register_fd_full)
  qed
  then show ?thesis by (simp add: triple_def)
qed

lemma keeps_register_or_close [triples]:
  "h_alloc h = (\<lambda>_. True) \<Longrightarrow> keeps (fds_inv b) (register_or_close h r c)"
  unfolding register_or_close_def by (intro triples) auto

lemma keeps_do_close [triples]: "keeps (fds_inv b) (do_close h fi_fdtable put_user fd)"
proof -
  have "\<exists>x s'. do_close h fi_fdtable put_user fd s = Inr (x, s') \<and> on_files (fds_inv b) s'"
    if inv: "on_files (fds_inv b) s" for s
  proof (cases "user_view (k_files s) fd")
    case None
    then show ?thesis
      using do_close_bad [of fi_fdtable s fd h put_user] inv by (auto simp: on_files_def fds_inv_def files_ok_def)
  next
    case (Some c)
    then show ?thesis
      using do_close_open [of fi_fdtable s fd c h put_user] inv
      by (fastforce simp: on_files_def fds_inv_def files_ok_def put_user_def)
  qed
  then show ?thesis by (simp add: triple_def)
qed

lemma keeps_close_cloexec [triples]: "keeps (fds_inv b) (close_cloexec h)"
  using close_cloexec_ok by (fastforce simp: triple_def on_files_def fds_inv_def same_but_user_def)

text \<open>\<open>get_file\<close> finds exactly the open descriptors, with their file structure.\<close>

lemma get_file_ok:
  assumes "files_ok (k_files s)"
  shows "get_file fd s =
    Inr (map_option (\<lambda>_. \<lparr>fl_ops = True, fl_fd = fd\<rparr>) (user_view (k_files s) fd),
      s\<lparr>k_trace := k_trace s @ [Rdlock, Unlock]\<rparr>)"
proof (cases "in_table (fi_fdtable (k_files s)) fd")
  case True
  then show ?thesis using assms do_get_file_ok [OF _ True]
    by (auto simp: get_file_def Let_def files_ok_def in_table_def)
next
  case False
  moreover have "user_view (k_files s) fd = None"
    using False assms fd_view_in_table [of "fi_fdtable (k_files s)" fd]
    by (cases "user_view (k_files s) fd") (auto simp: files_ok_def)
  ultimately show ?thesis using assms by (auto simp: get_file_def Let_def files_ok_def in_table_def)
qed

definition fd_open :: "int \<Rightarrow> int \<Rightarrow> fileinfo \<Rightarrow> bool" where
  "fd_open b fd fi \<longleftrightarrow> fds_inv b fi \<and> user_view fi fd \<noteq> None"

lemma keeps_with_file:
  assumes "triple (on_files (fd_open b fd)) (op \<lparr>fl_ops = True, fl_fd = fd\<rparr>) (\<lambda>_. on_files (fds_inv b))"
  shows "keeps (fds_inv b) (with_file fd op)"
proof -
  have "\<exists>x s'. with_file fd op s = Inr (x, s') \<and> on_files (fds_inv b) s'" if inv: "on_files (fds_inv b) s" for s
  proof -
    let ?s = "s\<lparr>k_trace := k_trace s @ [Rdlock, Unlock]\<rparr>"
    note get = get_file_ok [of s fd]
    show ?thesis
    proof (cases "user_view (k_files s) fd")
      case None
      then show ?thesis using get inv by (auto simp: with_file_def on_files_def fds_inv_def)
    next
      case (Some c)
      then have "on_files (fd_open b fd) ?s" using inv by (simp add: on_files_def fd_open_def)
      then have "\<exists>x s'. op \<lparr>fl_ops = True, fl_fd = fd\<rparr> ?s = Inr (x, s') \<and> on_files (fds_inv b) s'"
        using assms by (auto simp: triple_def)
      then show ?thesis using get inv Some by (auto simp: with_file_def on_files_def fds_inv_def)
    qed
  qed
  then show ?thesis by (simp add: triple_def)
qed

lemma open_then_keeps: "keeps (fds_inv b) m \<Longrightarrow> triple (on_files (fd_open b fd)) m (\<lambda>_. on_files (fds_inv b))"
  by (erule triple_weaken) (auto simp: on_files_def fd_open_def)

lemma cloexec_bit_ok:
  "triple (on_files (fd_open b fd)) (cloexec_bit on fd) (\<lambda>_. on_files (fds_inv b))"
proof -
  have "\<exists>s'. cloexec_bit on fd s = Inr ((), s') \<and> on_files (fds_inv b) s'" if inv: "on_files (fd_open b fd) s" for s
  proof -
    let ?t = "fi_fdtable (k_files s)"
    let ?m = "nat (fd - ft_start ?t)"
    have ok: "table_ok ?t" "ft_start ?t = 0" and view: "user_view (k_files s) fd \<noteq> None"
      using inv by (auto simp: on_files_def fd_open_def fds_inv_def files_ok_def)
    then have fd: "in_table ?t fd" using fd_view_in_table [OF ok(1)] by auto
    have m: "ft_start ?t \<le> fd" "?m div 64 < length (ft_cloexec ?t)"
      using in_table_length [OF ok(1) fd] fd ok(1) by (auto simp: in_table_def table_ok_def)
    obtain cle where cle: "(if on then set_fdbit ?t (ft_cloexec ?t) fd else clear_fdbit ?t (ft_cloexec ?t) fd) = Inr cle"
      "length cle = length (ft_cloexec ?t)" "\<And>n. fdbit cle n \<Longrightarrow> fdbit (ft_cloexec ?t) n \<or> n = ?m"
      using set_fdbit_ok [OF m] clear_fdbit_ok [OF m] by (cases on) fastforce+
    have "fdbit (ft_open ?t) ?m" using view by (auto simp: fd_view_def split: if_splits)
    then have "table_ok (?t\<lparr>ft_cloexec := cle\<rparr>)"
      using ok(1) cle(2,3) unfolding table_ok_def by auto
    moreover have "fd_view (?t\<lparr>ft_cloexec := cle\<rparr>) x = None" if "fd_view ?t x = None" for x
      using that by (auto simp: fd_view_def split: if_splits)
    ultimately show ?thesis using cle(1) inv
      by (auto simp: cloexec_bit_def Let_def on_files_def fd_open_def fds_inv_def files_ok_def)
  qed
  then show ?thesis by (simp add: triple_def)
qed

text \<open>Every command but the one that reads the flags, whose assertion can fail.\<close>

lemma darwinfs_fcntl_ok:
  assumes "h_alloc h = (\<lambda>_. True)" "cmd \<noteq> LINUX_F_GETFL"
  shows "triple (on_files (fd_open b fd)) (darwinfs_fcntl h \<lparr>fl_ops = True, fl_fd = fd\<rparr> cmd arg) (\<lambda>_. on_files (fds_inv b))"
proof (cases "cmd = LINUX_F_SETFD")
  case True
  let ?c = "Fd (Fcntl fd F_SETFD arg)"
  have "triple (on_files (fd_open b fd)) (act_bind (cloexec_bit (arg AND FD_CLOEXEC \<noteq> 0) fd) (\<lambda>_. act_ret r)) (\<lambda>_. on_files (fds_inv b))" for r
    by (rule triple_bind [OF cloexec_bit_ok keeps_ret])
  then have "triple (on_files (fd_open b fd))
      (if 0 \<le> r then act_bind (cloexec_bit (arg AND FD_CLOEXEC \<noteq> 0) fd) (\<lambda>_. act_ret r) else act_ret r)
      (\<lambda>_. on_files (fds_inv b))" for r
    using open_then_keeps [OF keeps_ret] by (cases "0 \<le> r") simp_all
  then have "triple (on_files (fd_open b fd))
      (locked Wrlock (act_bind (wrap_call h ?c) (\<lambda>r.
        if 0 \<le> r then act_bind (cloexec_bit (arg AND FD_CLOEXEC \<noteq> 0) fd) (\<lambda>_. act_ret r) else act_ret r)))
      (\<lambda>_. on_files (fds_inv b))"
    unfolding locked_def
    by (rule triple_bind [OF keeps_emit triple_bind [OF triple_bind [OF keeps_call(2)] keeps_bind [OF keeps_emit keeps_ret]]])
  then show ?thesis using True by (simp only: darwinfs_fcntl_def) (simp only: vfile.select_convs, simp)
next
  case False
  then show ?thesis using assms unfolding darwinfs_fcntl_def Let_def
    by (intro open_then_keeps keeps_if keeps_locked keeps_bind keeps_call keeps_option keeps_ret keeps_fetch keeps_store
      keeps_register_or_close) auto
qed

end
