(* ===== verification/Vfs.thy ===== *)
theory Vfs
  imports FdCalls
begin

text \<open>
  Paths, \<open>src/fs/fs.c\<close>: the resolution of a path of the guest to a directory of the host and a
  path below it, \<open>resolve_path\<close> and \<open>vfs_grab_dir\<close>, and the system calls that take a path.  A path
  is the bytes of a C string without the final zero.  An array of \<open>LINUX_PATH_MAX\<close> bytes that a
  \<open>strcpy\<close> or a loop leaves ends the run with \<open>Out_of_bounds\<close>; \<open>malloc\<close> is taken to succeed where
  the code does not check it.
\<close>

section \<open>Strings and buffers\<close>

abbreviation (input) LINUX_PATH_MAX :: nat where "LINUX_PATH_MAX \<equiv> 4096"
abbreviation (input) DARWIN_PATH_MAX :: nat where "DARWIN_PATH_MAX \<equiv> 1024"
abbreviation (input) SLASH :: byte where "SLASH \<equiv> 0x2F"
abbreviation (input) DOT :: byte where "DOT \<equiv> 0x2E"

definition crash_with :: "crash \<Rightarrow> 'a act" where
  "crash_with e s = Inl e"

text \<open>A buffer nobody wrote to, and one that the host filled from its start.\<close>

definition uninit :: "host \<Rightarrow> nat \<Rightarrow> byte list" where
  "uninit h n = map (h_junk h) [0..<n]"

definition filled :: "host \<Rightarrow> byte list \<Rightarrow> nat \<Rightarrow> byte list" where
  "filled h bs n = take n (bs @ drop (length bs) (uninit h n))"

text \<open>The string at the start of a buffer; without a zero its reader leaves the buffer.\<close>

definition cstr :: "byte list \<Rightarrow> path run" where
  "cstr buf = (if 0 \<in> set buf then Inr (takeWhile (\<lambda>b. b \<noteq> 0) buf) else Inl Out_of_bounds)"

text \<open>
  \<open>strncpy_from_user\<close> into an array of \<open>n\<close> bytes: its result, and the string a caller finds there
  whether or not it looked at the result.
\<close>

definition user_string :: "host \<Rightarrow> gaddr \<Rightarrow> nat \<Rightarrow> (int \<times> byte list) act" where
  "user_string h ptr n = look (\<lambda>s. case strncpy_from_user (k_user s) ptr n of (r, bs) \<Rightarrow> Inr (r, filled h bs n))"

definition path_arg :: "host \<Rightarrow> gaddr \<Rightarrow> path act" where
  "path_arg h ptr = act_bind (user_string h ptr LINUX_PATH_MAX) (\<lambda>(r, buf). look (\<lambda>_. cstr buf))"

definition checked_path_arg :: "host \<Rightarrow> gaddr \<Rightarrow> (path \<Rightarrow> int act) \<Rightarrow> int act" where
  "checked_path_arg h ptr k =
    act_bind (user_string h ptr LINUX_PATH_MAX) (\<lambda>(r, buf).
      if r < 0 then act_ret (- LINUX_EFAULT) else act_bind (look (\<lambda>_. cstr buf)) k)"

text \<open>A call whose result is wider than the \<open>int\<close> that \<open>_syswrap\<close> takes.\<close>

definition wide_call :: "host \<Rightarrow> fs_call \<Rightarrow> int act" where
  "wide_call h c = act_bind (raw_call h c) (\<lambda>r. act_ret (syswrap (to_cint r) (snd (answer h c))))"

section \<open>Operations on a directory\<close>

record vpath =
  p_dir :: int
  p_sub :: path

definition darwinfs_openat :: "host \<Rightarrow> vpath \<Rightarrow> flags \<Rightarrow> int \<Rightarrow> int act" where
  "darwinfs_openat h p l_flags mode =
    wrap_call h (Path (Openat (p_dir p) (p_sub p) (linux_to_darwin_o_flags l_flags) mode))"

definition darwinfs_symlinkat :: "host \<Rightarrow> path \<Rightarrow> vpath \<Rightarrow> int act" where
  "darwinfs_symlinkat h target p = wrap_call h (Path (Symlinkat target (p_dir p) (p_sub p)))"

definition darwinfs_faccessat :: "host \<Rightarrow> vpath \<Rightarrow> int \<Rightarrow> int act" where
  "darwinfs_faccessat h p mode = wrap_call h (Path (Faccessat (p_dir p) (p_sub p) mode))"

definition darwinfs_renameat :: "host \<Rightarrow> vpath \<Rightarrow> vpath \<Rightarrow> int act" where
  "darwinfs_renameat h p1 p2 = wrap_call h (Path (Renameat (p_dir p1) (p_sub p1) (p_dir p2) (p_sub p2)))"

definition darwinfs_linkat :: "host \<Rightarrow> vpath \<Rightarrow> vpath \<Rightarrow> flags \<Rightarrow> int act" where
  "darwinfs_linkat h p1 p2 l_flags =
    wrap_call h (Path (Linkat (p_dir p1) (p_sub p1) (p_dir p2) (p_sub p2) (linux_to_darwin_at_flags l_flags)))"

abbreviation (input) AT_EACCESS :: flags where "AT_EACCESS \<equiv> 0x10"
abbreviation (input) AT_REMOVEDIR :: flags where "AT_REMOVEDIR \<equiv> 0x80"

definition darwinfs_unlinkat :: "host \<Rightarrow> vpath \<Rightarrow> flags \<Rightarrow> int act" where
  "darwinfs_unlinkat h p l_flags =
    (let flgs = linux_to_darwin_at_flags l_flags;
         flgs = (if flgs AND AT_EACCESS \<noteq> 0 then (flgs AND NOT AT_EACCESS) OR AT_REMOVEDIR else flgs) in
     wrap_call h (Path (Unlinkat (p_dir p) (p_sub p) flgs)))"

definition darwinfs_readlinkat :: "host \<Rightarrow> vpath \<Rightarrow> int \<Rightarrow> int act" where
  "darwinfs_readlinkat h p bufsize = wide_call h (Path (Readlinkat (p_dir p) (p_sub p) bufsize))"

definition darwinfs_mkdirat :: "host \<Rightarrow> vpath \<Rightarrow> int \<Rightarrow> int act" where
  "darwinfs_mkdirat h p mode = wrap_call h (Path (Mkdirat (p_dir p) (p_sub p) mode))"

text \<open>An error, or the result and the structure that the caller passed in.\<close>

definition darwinfs_fstatat :: "host \<Rightarrow> vpath \<Rightarrow> flags \<Rightarrow> (int + int \<times> l_newstat) act" where
  "darwinfs_fstatat h p l_flags =
    (let c = Path (Fstatat (p_dir p) (p_sub p) (linux_to_darwin_at_flags l_flags)) in
     act_bind (wrap_call h c) (\<lambda>ret. act_ret (if ret < 0 then Inl ret else Inr (ret, stat_darwin_to_linux (out_stat h c)))))"

definition darwinfs_statfs :: "host \<Rightarrow> vpath \<Rightarrow> (int + int \<times> l_statfs) act" where
  "darwinfs_statfs h p =
    act_bind
      (if p_dir p \<noteq> sint AT_FDCWD then
         let c = Path (Getpath (p_dir p)) in
         act_bind (raw_call h c) (\<lambda>r.
           if r \<noteq> 0 then crash_with Panicked
           else let full_path = takeWhile (\<lambda>b. b \<noteq> 0) (out_bytes h c) @ [SLASH] @ p_sub p in
             act_ret (if DARWIN_PATH_MAX \<le> length full_path then None else Some full_path))
       else act_ret (Some (p_sub p)))
      (\<lambda>path_to_statfs. case path_to_statfs of
         None \<Rightarrow> act_ret (Inl (- LINUX_ENAMETOOLONG))
       | Some f \<Rightarrow>
           act_bind (wrap_call h (Path (Statfs f))) (\<lambda>r.
             act_ret (if r < 0 then Inl r else Inr (r, statfs_darwin_to_linux (out_statfs h (Path (Statfs f)))))))"

definition darwinfs_fchownat :: "host \<Rightarrow> vpath \<Rightarrow> int \<Rightarrow> int \<Rightarrow> flags \<Rightarrow> int act" where
  "darwinfs_fchownat h p uid gid l_flags =
    wrap_call h (Path (Fchownat (p_dir p) (p_sub p) uid gid (linux_to_darwin_at_flags l_flags)))"

definition darwinfs_fchmodat :: "host \<Rightarrow> vpath \<Rightarrow> int \<Rightarrow> int act" where
  "darwinfs_fchmodat h p mode = wrap_call h (Path (Fchmodat (p_dir p) (p_sub p) mode))"

section \<open>Resolution\<close>

abbreviation (input) LOOKUP_NOFOLLOW :: flags where "LOOKUP_NOFOLLOW \<equiv> 1"
abbreviation (input) LOOKUP_DIRECTORY :: flags where "LOOKUP_DIRECTORY \<equiv> 2"
abbreviation (input) LOOP_MAX :: nat where "LOOP_MAX \<equiv> 20"

text \<open>\<open>/Users\<close>, \<open>/Volumes\<close>, \<open>/dev\<close>, \<open>/tmp\<close> and \<open>/private\<close> are paths of the host.\<close>

definition host_prefixes :: "path list" where
  "host_prefixes =
    [[0x2F, 0x55, 0x73, 0x65, 0x72, 0x73], [0x2F, 0x56, 0x6F, 0x6C, 0x75, 0x6D, 0x65, 0x73], [0x2F, 0x64, 0x65, 0x76],
     [0x2F, 0x74, 0x6D, 0x70], [0x2F, 0x70, 0x72, 0x69, 0x76, 0x61, 0x74, 0x65]]"

definition host_path :: "path \<Rightarrow> bool" where
  "host_path name \<longleftrightarrow> list_ex (\<lambda>p. take (length p) name = p) host_prefixes"

text \<open>
  Removal of the last component: the loop goes back to the slash before it, or to the start.
\<close>

definition parent_prefix :: "path \<Rightarrow> path" where
  "parent_prefix sub = rev (dropWhile (\<lambda>b. b \<noteq> SLASH) (rev sub))"

text \<open>A walk ends with the whole path, or at a link with the name to resolve instead.\<close>

datatype walk = Walked path | Linked path

text \<open>The contents of a link at \<open>sub\<close> of which \<open>n\<close> bytes were read, with \<open>rest\<close> still to walk.\<close>

definition follow_link :: "byte list \<Rightarrow> nat \<Rightarrow> path \<Rightarrow> path \<Rightarrow> walk run" where
  "follow_link link n sub rest =
    (if LINUX_PATH_MAX \<le> n + length rest then Inl Out_of_bounds
     else
       let buf = takeWhile (\<lambda>b. b \<noteq> 0) (take n link @ rest) in
       if take 1 buf = [SLASH] then Inr (Linked buf)
       else if LINUX_PATH_MAX \<le> length (parent_prefix sub) + length buf then Inl Out_of_bounds
       else Inr (Linked (parent_prefix sub @ buf)))"

function walk_path :: "host \<Rightarrow> int \<Rightarrow> flags \<Rightarrow> path \<Rightarrow> path \<Rightarrow> walk act" where
  "walk_path h fd flgs sub c =
    (if c = [] then act_ret (Walked sub)
     else
       let sub = sub @ takeWhile (\<lambda>b. b \<noteq> SLASH) c; rest = dropWhile (\<lambda>b. b \<noteq> SLASH) c;
           link = Path (Readlinkat fd sub (int LINUX_PATH_MAX)) in
       if LINUX_PATH_MAX \<le> length sub then crash_with Out_of_bounds
       else
         act_bind
           (if flgs AND LOOKUP_NOFOLLOW = 0 then darwinfs_readlinkat h \<lparr>p_dir = fd, p_sub = sub\<rparr> (int LINUX_PATH_MAX)
            else act_ret 0)
           (\<lambda>n. if 0 < n then look (\<lambda>_. follow_link (out_bytes h link) (nat n) sub rest)
             else if rest = [] then act_ret (Walked sub)
             else if LINUX_PATH_MAX \<le> length sub + 1 then crash_with Out_of_bounds
             else walk_path h fd flgs (sub @ [SLASH]) (tl rest)))"
  by pat_completeness auto
termination
proof (relation "measure (\<lambda>(h, fd, flgs, sub, c). length c)", goal_cases)
  case (2 h fd flgs sub c sub' rest link n)
  have "0 < length c" using 2 by simp
  then have "length (dropWhile (\<lambda>b. b \<noteq> SLASH) c) - 1 < length c"
    using length_dropWhile_le [of "\<lambda>b. b \<noteq> SLASH" c] by linarith
  then show ?case using 2 by simp
qed simp

text \<open>\<open>Inl\<close> is an error number; the last argument counts the links followed.\<close>

function resolve_path :: "host \<Rightarrow> int \<Rightarrow> path \<Rightarrow> flags \<Rightarrow> nat \<Rightarrow> (int + vpath) act" where
  "resolve_path h parent name flgs loop =
    (if LOOP_MAX < loop then act_ret (Inl (- LINUX_ELOOP))
     else if name = [SLASH] then
       act_bind (look (\<lambda>s. Inr (fi_rootfd (k_files s)))) (\<lambda>rootfd. act_ret (Inr \<lparr>p_dir = rootfd, p_sub = [DOT]\<rparr>))
     else
       act_bind (look (\<lambda>s. Inr (fi_rootfd (k_files s)))) (\<lambda>rootfd.
         let rooted = take 1 name = [SLASH] \<and> \<not> host_path name;
             fd = if rooted then rootfd else parent;
             c = if rooted then tl name else name in
         if c = [] then crash_with Assert_failed
         else act_bind (walk_path h fd flgs [] c) (\<lambda>w. case w of
             Walked sub \<Rightarrow> act_ret (Inr \<lparr>p_dir = fd, p_sub = sub\<rparr>)
           | Linked name' \<Rightarrow> resolve_path h fd name' flgs (Suc loop))))"
  by pat_completeness auto
termination
  by (relation "measure (\<lambda>(h, parent, name, flgs, loop). 21 - loop)") auto

definition vfs_grab_dir :: "host \<Rightarrow> int \<Rightarrow> path \<Rightarrow> flags \<Rightarrow> (int + vpath) act" where
  "vfs_grab_dir h dirfd name flgs =
    (if flgs AND NOT (LOOKUP_NOFOLLOW OR LOOKUP_DIRECTORY) \<noteq> 0 then act_ret (Inl (- LINUX_EINVAL))
     else if name = [] then act_ret (Inl (- LINUX_ENOENT))
     else if dirfd = sint LINUX_AT_FDCWD then resolve_path h (sint AT_FDCWD) name flgs 0
     else act_bind (look (\<lambda>s. Inr (in_userfd (k_files s) dirfd))) (\<lambda>user.
       if \<not> user then act_ret (Inl (- LINUX_EBADF)) else resolve_path h dirfd name flgs 0))"

text \<open>The use of a resolved path; \<open>vfs_ungrab_dir\<close> only frees the structure.\<close>

definition with_path :: "(int + vpath) act \<Rightarrow> (vpath \<Rightarrow> int act) \<Rightarrow> int act" where
  "with_path grab op = act_bind grab (\<lambda>g. case g of Inl r \<Rightarrow> act_ret r | Inr p \<Rightarrow> op p)"

section \<open>Opening\<close>

definition do_openat :: "host \<Rightarrow> int \<Rightarrow> path \<Rightarrow> flags \<Rightarrow> int \<Rightarrow> int act" where
  "do_openat h dirfd name flgs mode =
    (let lkflag = (if flgs AND LINUX_O_NOFOLLOW \<noteq> 0 then LOOKUP_NOFOLLOW else 0) OR
                  (if flgs AND LINUX_O_DIRECTORY \<noteq> 0 then LOOKUP_DIRECTORY else 0) in
     with_path (vfs_grab_dir h dirfd name lkflag) (\<lambda>p. darwinfs_openat h p flgs mode))"

definition vkern_openat :: "host \<Rightarrow> int \<Rightarrow> path \<Rightarrow> flags \<Rightarrow> int \<Rightarrow> int act" where
  "vkern_openat h atdirfd name flgs mode =
    locked Wrlock (act_bind (do_openat h atdirfd name flgs mode) (\<lambda>fd.
      if fd < 0 then act_ret fd
      else act_bind (vkern_dup_fd h fd (flgs AND LINUX_O_CLOEXEC \<noteq> 0)) (\<lambda>ret.
        act_bind (raw_call h (Fd (Close fd))) (\<lambda>_. act_ret ret))))"

definition vkern_open :: "host \<Rightarrow> path \<Rightarrow> flags \<Rightarrow> int \<Rightarrow> int act" where
  "vkern_open h path l_flags mode = vkern_openat h (sint LINUX_AT_FDCWD) path l_flags mode"

text \<open>When the registration fails, the error number is closed and not the descriptor.\<close>

definition user_openat :: "host \<Rightarrow> int \<Rightarrow> path \<Rightarrow> flags \<Rightarrow> int \<Rightarrow> int act" where
  "user_openat h atdirfd name flgs mode =
    locked Wrlock (act_bind (do_openat h atdirfd name flgs mode) (\<lambda>fd.
      if fd < 0 then act_ret fd
      else act_bind (act_register h fd (flgs AND LINUX_O_CLOEXEC \<noteq> 0)) (\<lambda>err.
        if err < 0 then act_bind (raw_call h (Fd (Close err))) (\<lambda>_. act_ret err) else act_ret fd)))"

definition user_open :: "host \<Rightarrow> path \<Rightarrow> flags \<Rightarrow> int \<Rightarrow> int act" where
  "user_open h path l_flags mode = user_openat h (sint LINUX_AT_FDCWD) path l_flags mode"

definition sys_openat :: "host \<Rightarrow> int \<Rightarrow> gaddr \<Rightarrow> flags \<Rightarrow> int \<Rightarrow> int act" where
  "sys_openat h dirfd path_ptr flgs mode = act_bind (path_arg h path_ptr) (\<lambda>path. user_openat h dirfd path flgs mode)"

definition sys_open :: "host \<Rightarrow> gaddr \<Rightarrow> flags \<Rightarrow> int \<Rightarrow> int act" where
  "sys_open h path_ptr flgs mode = sys_openat h (sint LINUX_AT_FDCWD) path_ptr flgs mode"

definition sys_creat :: "host \<Rightarrow> gaddr \<Rightarrow> int \<Rightarrow> int act" where
  "sys_creat h path_ptr mode = sys_open h path_ptr (LINUX_O_CREAT OR LINUX_O_TRUNC OR LINUX_O_WRONLY) mode"

end
