(* ===== verification/PathCalls.thy ===== *)
theory PathCalls
  imports Vfs
begin

text \<open>
  The system calls of \<open>src/fs/fs.c\<close> that take a path, each over \<open>vfs_grab_dir\<close>, and the images of
  the structures they copy to the guest.  A handler that does not look at the result of
  \<open>strncpy_from_user\<close> uses whatever its array holds.
\<close>

abbreviation (input) LINUX_EISDIR :: int where "LINUX_EISDIR \<equiv> 21"

section \<open>Structures\<close>

definition put_fields :: "(nat \<times> byte list) list \<Rightarrow> byte list \<Rightarrow> byte list" where
  "put_fields fs buf = foldl (\<lambda>b (off, bs). put_field off bs b) buf fs"

definition timespec_bytes :: "timespec \<Rightarrow> byte list" where
  "timespec_bytes t = le_bytes 8 (tv_sec t) @ le_bytes 8 (tv_nsec t)"

text \<open>\<open>struct l_newstat\<close> has 144 bytes; the padding and the unused fields keep what was there.\<close>

definition newstat_bytes :: "l_newstat \<Rightarrow> byte list \<Rightarrow> byte list" where
  "newstat_bytes st = put_fields
    [(0, le_bytes 8 (st_dev st)), (8, le_bytes 8 (st_ino st)), (16, le_bytes 8 (st_nlink st)),
     (24, le_bytes 4 (st_mode st)), (28, le_bytes 4 (st_uid st)), (32, le_bytes 4 (st_gid st)),
     (40, le_bytes 8 (st_rdev st)), (48, le_bytes 8 (st_size st)), (56, le_bytes 8 (st_blksize st)),
     (64, le_bytes 8 (st_blocks st)), (72, timespec_bytes (st_atim st)), (88, timespec_bytes (st_mtim st)),
     (104, timespec_bytes (st_ctim st))]"

text \<open>\<open>struct l_statfs\<close> has 120 bytes.\<close>

definition statfs_bytes :: "l_statfs \<Rightarrow> byte list \<Rightarrow> byte list" where
  "statfs_bytes st = put_fields
    [(0, le_bytes 8 (f_type st)), (8, le_bytes 8 (f_bsize st)), (16, le_bytes 8 (f_blocks st)),
     (24, le_bytes 8 (f_bfree st)), (32, le_bytes 8 (f_bavail st)), (40, le_bytes 8 (f_files st)),
     (48, le_bytes 8 (f_ffree st)), (56, le_bytes 4 (fst (f_fsid st))), (60, le_bytes 4 (snd (f_fsid st))),
     (64, le_bytes 8 (f_namelen st)), (72, le_bytes 8 (f_frsize st)), (80, le_bytes 8 (f_flags st))]"

text \<open>The last step of a call that fills a structure: the result, or a fault.\<close>

definition store_result :: "gaddr \<Rightarrow> byte list \<Rightarrow> int \<Rightarrow> int act" where
  "store_result ptr bs r = act_bind (store ptr bs) (\<lambda>fine. act_ret (if fine then r else - LINUX_EFAULT))"

section \<open>Links, names and directories\<close>

definition sys_symlinkat :: "host \<Rightarrow> gaddr \<Rightarrow> int \<Rightarrow> gaddr \<Rightarrow> int act" where
  "sys_symlinkat h path1_ptr dirfd path2_ptr =
    act_bind (path_arg h path1_ptr) (\<lambda>path1. act_bind (path_arg h path2_ptr) (\<lambda>path2.
      with_path (vfs_grab_dir h dirfd path2 0) (\<lambda>p. darwinfs_symlinkat h path1 p)))"

definition sys_symlink :: "host \<Rightarrow> gaddr \<Rightarrow> gaddr \<Rightarrow> int act" where
  "sys_symlink h path1_ptr path2_ptr = sys_symlinkat h path1_ptr (sint LINUX_AT_FDCWD) path2_ptr"

abbreviation (input) LINUX_AT_SYMLINK_NOFOLLOW :: flags where "LINUX_AT_SYMLINK_NOFOLLOW \<equiv> 0x100"
abbreviation (input) LINUX_AT_REMOVEDIR :: flags where "LINUX_AT_REMOVEDIR \<equiv> 0x200"
abbreviation (input) LINUX_AT_SYMLINK_FOLLOW :: flags where "LINUX_AT_SYMLINK_FOLLOW \<equiv> 0x400"

definition nofollow_flag :: "flags \<Rightarrow> flags" where
  "nofollow_flag flgs = (if flgs AND LINUX_AT_SYMLINK_NOFOLLOW \<noteq> 0 then LOOKUP_NOFOLLOW else 0)"

definition sys_newfstatat :: "host \<Rightarrow> int \<Rightarrow> gaddr \<Rightarrow> gaddr \<Rightarrow> flags \<Rightarrow> int act" where
  "sys_newfstatat h dirfd path_ptr st_ptr flgs =
    act_bind (path_arg h path_ptr) (\<lambda>pathname.
      if flgs AND NOT LINUX_AT_SYMLINK_NOFOLLOW \<noteq> 0 then act_ret (- LINUX_EINVAL)
      else with_path (vfs_grab_dir h dirfd pathname (nofollow_flag flgs)) (\<lambda>p.
        act_bind (darwinfs_fstatat h p flgs) (\<lambda>x. case x of
          Inl r \<Rightarrow> act_ret r
        | Inr (r, st) \<Rightarrow> store_result st_ptr (newstat_bytes st (uninit h 144)) r)))"

definition sys_stat :: "host \<Rightarrow> gaddr \<Rightarrow> gaddr \<Rightarrow> int act" where
  "sys_stat h path st = sys_newfstatat h (sint LINUX_AT_FDCWD) path st 0"

definition sys_lstat :: "host \<Rightarrow> gaddr \<Rightarrow> gaddr \<Rightarrow> int act" where
  "sys_lstat h path st = sys_newfstatat h (sint LINUX_AT_FDCWD) path st LINUX_AT_SYMLINK_NOFOLLOW"

definition sys_fchownat :: "host \<Rightarrow> int \<Rightarrow> gaddr \<Rightarrow> int \<Rightarrow> int \<Rightarrow> flags \<Rightarrow> int act" where
  "sys_fchownat h dirfd path_ptr owner grp flgs =
    act_bind (path_arg h path_ptr) (\<lambda>pathname.
      if flgs AND NOT LINUX_AT_SYMLINK_NOFOLLOW \<noteq> 0 then act_ret (- LINUX_EINVAL)
      else with_path (vfs_grab_dir h dirfd pathname (nofollow_flag flgs)) (\<lambda>p. darwinfs_fchownat h p owner grp flgs))"

definition sys_chown :: "host \<Rightarrow> gaddr \<Rightarrow> int \<Rightarrow> int \<Rightarrow> int act" where
  "sys_chown h path uid gid = sys_fchownat h (sint LINUX_AT_FDCWD) path uid gid 0"

definition sys_lchown :: "host \<Rightarrow> gaddr \<Rightarrow> int \<Rightarrow> int \<Rightarrow> int act" where
  "sys_lchown h path uid gid = sys_fchownat h (sint LINUX_AT_FDCWD) path uid gid LINUX_AT_SYMLINK_NOFOLLOW"

definition sys_fchmodat :: "host \<Rightarrow> int \<Rightarrow> gaddr \<Rightarrow> int \<Rightarrow> int act" where
  "sys_fchmodat h dirfd path_ptr mode =
    act_bind (path_arg h path_ptr) (\<lambda>pathname.
      with_path (vfs_grab_dir h dirfd pathname 0) (\<lambda>p. darwinfs_fchmodat h p mode))"

definition sys_chmod :: "host \<Rightarrow> gaddr \<Rightarrow> int \<Rightarrow> int act" where
  "sys_chmod h path mode = sys_fchmodat h (sint LINUX_AT_FDCWD) path mode"

definition sys_statfs :: "host \<Rightarrow> gaddr \<Rightarrow> gaddr \<Rightarrow> int act" where
  "sys_statfs h path_ptr buf_ptr =
    act_bind (path_arg h path_ptr) (\<lambda>pathname.
      with_path (vfs_grab_dir h (sint LINUX_AT_FDCWD) pathname 0) (\<lambda>p.
        act_bind (darwinfs_statfs h p) (\<lambda>x. case x of
          Inl r \<Rightarrow> act_ret r
        | Inr (r, st) \<Rightarrow> store_result buf_ptr (statfs_bytes st (uninit h 120)) r)))"

definition do_faccessat :: "host \<Rightarrow> int \<Rightarrow> path \<Rightarrow> int \<Rightarrow> int act" where
  "do_faccessat h dirfd name mode = with_path (vfs_grab_dir h dirfd name 0) (\<lambda>p. darwinfs_faccessat h p mode)"

definition do_access :: "host \<Rightarrow> path \<Rightarrow> int \<Rightarrow> int act" where
  "do_access h path mode = do_faccessat h (sint LINUX_AT_FDCWD) path mode"

definition sys_faccessat :: "host \<Rightarrow> int \<Rightarrow> gaddr \<Rightarrow> int \<Rightarrow> int act" where
  "sys_faccessat h dirfd path_ptr mode = checked_path_arg h path_ptr (\<lambda>path. do_faccessat h dirfd path mode)"

definition sys_access :: "host \<Rightarrow> gaddr \<Rightarrow> int \<Rightarrow> int act" where
  "sys_access h path_ptr mode = sys_faccessat h (sint LINUX_AT_FDCWD) path_ptr mode"

definition sys_renameat :: "host \<Rightarrow> int \<Rightarrow> gaddr \<Rightarrow> int \<Rightarrow> gaddr \<Rightarrow> int act" where
  "sys_renameat h oldfd oldpath_ptr newfd newpath_ptr =
    act_bind (path_arg h oldpath_ptr) (\<lambda>oldname. act_bind (path_arg h newpath_ptr) (\<lambda>newname.
      with_path (vfs_grab_dir h oldfd oldname LOOKUP_NOFOLLOW) (\<lambda>oldpath.
      with_path (vfs_grab_dir h newfd newname LOOKUP_NOFOLLOW) (\<lambda>newpath. darwinfs_renameat h oldpath newpath))))"

definition sys_rename :: "host \<Rightarrow> gaddr \<Rightarrow> gaddr \<Rightarrow> int act" where
  "sys_rename h oldpath_ptr newpath_ptr = sys_renameat h (sint LINUX_AT_FDCWD) oldpath_ptr (sint LINUX_AT_FDCWD) newpath_ptr"

definition sys_unlinkat :: "host \<Rightarrow> int \<Rightarrow> gaddr \<Rightarrow> flags \<Rightarrow> int act" where
  "sys_unlinkat h dirfd path_ptr flgs =
    act_bind (path_arg h path_ptr) (\<lambda>name.
      with_path (vfs_grab_dir h dirfd name LOOKUP_NOFOLLOW) (\<lambda>p.
        act_bind (darwinfs_unlinkat h p flgs) (\<lambda>r.
          if r = - LINUX_EPERM then
            act_bind (darwinfs_fstatat h p LINUX_AT_SYMLINK_NOFOLLOW) (\<lambda>x. case x of
              Inl r2 \<Rightarrow> act_ret r
            | Inr (r2, st) \<Rightarrow> act_ret (if r2 = 0 \<and> st_mode st AND 0xF000 = 0x4000 then - LINUX_EISDIR else r))
          else act_ret r)))"

definition sys_unlink :: "host \<Rightarrow> gaddr \<Rightarrow> int act" where
  "sys_unlink h path = sys_unlinkat h (sint LINUX_AT_FDCWD) path 0"

definition sys_rmdir :: "host \<Rightarrow> gaddr \<Rightarrow> int act" where
  "sys_rmdir h path = sys_unlinkat h (sint LINUX_AT_FDCWD) path LINUX_AT_REMOVEDIR"

definition sys_linkat :: "host \<Rightarrow> int \<Rightarrow> gaddr \<Rightarrow> int \<Rightarrow> gaddr \<Rightarrow> flags \<Rightarrow> int act" where
  "sys_linkat h oldfd oldpath_ptr newfd newpath_ptr flgs =
    act_bind (path_arg h oldpath_ptr) (\<lambda>oldname. act_bind (path_arg h newpath_ptr) (\<lambda>newname.
      if flgs AND NOT LINUX_AT_SYMLINK_FOLLOW \<noteq> 0 then act_ret (- LINUX_EINVAL)
      else
        with_path (vfs_grab_dir h oldfd oldname (if flgs AND LINUX_AT_SYMLINK_FOLLOW \<noteq> 0 then 0 else LOOKUP_NOFOLLOW)) (\<lambda>oldpath.
        with_path (vfs_grab_dir h newfd newname 0) (\<lambda>newpath. darwinfs_linkat h oldpath newpath flgs))))"

definition sys_link :: "host \<Rightarrow> gaddr \<Rightarrow> gaddr \<Rightarrow> int act" where
  "sys_link h oldpath newpath = sys_linkat h (sint LINUX_AT_FDCWD) oldpath (sint LINUX_AT_FDCWD) newpath 0"

text \<open>The size of the buffer is an \<open>int\<close> that \<open>malloc\<close> and \<open>copy_to_user\<close> read as a \<open>size_t\<close>.\<close>

definition size_t :: "int \<Rightarrow> nat" where
  "size_t n = unat (word_of_int n :: 64 word)"

definition sys_readlinkat :: "host \<Rightarrow> int \<Rightarrow> gaddr \<Rightarrow> gaddr \<Rightarrow> int \<Rightarrow> int act" where
  "sys_readlinkat h dirfd path_ptr buf_ptr bufsize =
    act_bind (path_arg h path_ptr) (\<lambda>name.
      with_path (vfs_grab_dir h dirfd name LOOKUP_NOFOLLOW) (\<lambda>p.
        if \<not> h_alloc h (Malloc (size_t bufsize)) then act_ret (- LINUX_ENOMEM)
        else act_bind (darwinfs_readlinkat h p bufsize) (\<lambda>r.
          if r < 0 then act_ret r
          else store_result buf_ptr
            (filled h (out_bytes h (Path (Readlinkat (p_dir p) (p_sub p) bufsize))) (size_t bufsize)) r)))"

definition sys_readlink :: "host \<Rightarrow> gaddr \<Rightarrow> gaddr \<Rightarrow> int \<Rightarrow> int act" where
  "sys_readlink h path_ptr buf_ptr bufsize = sys_readlinkat h (sint LINUX_AT_FDCWD) path_ptr buf_ptr bufsize"

definition sys_mkdirat :: "host \<Rightarrow> int \<Rightarrow> gaddr \<Rightarrow> int \<Rightarrow> int act" where
  "sys_mkdirat h dirfd path_ptr mode =
    act_bind (path_arg h path_ptr) (\<lambda>name. with_path (vfs_grab_dir h dirfd name 0) (\<lambda>p. darwinfs_mkdirat h p mode))"

definition sys_mkdir :: "host \<Rightarrow> gaddr \<Rightarrow> int \<Rightarrow> int act" where
  "sys_mkdir h path_ptr mode = sys_mkdirat h (sint LINUX_AT_FDCWD) path_ptr mode"

section \<open>The working directory\<close>

definition vfs_getcwd :: "host \<Rightarrow> nat \<Rightarrow> int act" where
  "vfs_getcwd h sz =
    act_bind (raw_call h (Io (Getcwd sz))) (\<lambda>ptr.
      act_ret (if ptr < 0 then - darwin_to_linux_errno (snd (answer h (Io (Getcwd sz)))) else 0))"

definition vfs_fchdir :: "host \<Rightarrow> int \<Rightarrow> int act" where
  "vfs_fchdir h fd =
    act_bind (look (\<lambda>s. Inr (in_userfd (k_files s) fd))) (\<lambda>user.
      if \<not> user then act_ret (- LINUX_EBADF) else wrap_call h (Io (Fchdir fd)))"

definition vfs_umask :: "host \<Rightarrow> int \<Rightarrow> int act" where
  "vfs_umask h msk = wrap_call h (Io (Umask msk))"

definition sys_getcwd :: "host \<Rightarrow> gaddr \<Rightarrow> nat \<Rightarrow> int act" where
  "sys_getcwd h buf_ptr sz =
    (if \<not> h_alloc h (Malloc sz) then act_ret (- LINUX_ENOMEM)
     else act_bind (vfs_getcwd h sz) (\<lambda>r.
       if r < 0 then act_ret r
       else
         let cwd = out_bytes h (Io (Getcwd sz)); buf = take sz (cwd @ replicate (sz - length cwd) 0) in
         act_bind (store buf_ptr buf) (\<lambda>fine.
           if \<not> fine then act_ret (- LINUX_EFAULT)
           else act_bind (look (\<lambda>_. cstr buf)) (\<lambda>path. act_ret (to_cint (int (length path) + 1))))))"

definition sys_fchdir :: "host \<Rightarrow> int \<Rightarrow> int act" where
  "sys_fchdir h fd = vfs_fchdir h fd"

definition sys_chdir :: "host \<Rightarrow> gaddr \<Rightarrow> int act" where
  "sys_chdir h path_ptr =
    act_bind (path_arg h path_ptr) (\<lambda>path.
    act_bind (user_openat h (sint LINUX_AT_FDCWD) path LINUX_O_DIRECTORY 0) (\<lambda>fd.
      if fd < 0 then act_ret fd
      else act_bind (sys_fchdir h fd) (\<lambda>r. act_bind (user_close h fd) (\<lambda>_. act_ret r))))"

definition sys_umask :: "host \<Rightarrow> int \<Rightarrow> int act" where
  "sys_umask h msk = vfs_umask h msk"

section \<open>Devices and the root\<close>

abbreviation (input) S_IFMT :: flags where "S_IFMT \<equiv> 0xF000"
abbreviation (input) S_IFIFO :: flags where "S_IFIFO \<equiv> 0x1000"

text \<open>When the path is not resolved, \<open>vfs_ungrab_dir\<close> frees the directory that was not set.\<close>

definition sys_mknodat :: "host \<Rightarrow> int \<Rightarrow> gaddr \<Rightarrow> flags \<Rightarrow> int act" where
  "sys_mknodat h dirfd path_ptr mode =
    checked_path_arg h path_ptr (\<lambda>name.
      if mode AND S_IFMT = S_IFIFO then
        act_bind (vfs_grab_dir h dirfd name 0) (\<lambda>g. case g of
          Inl r \<Rightarrow> crash_with Wild_free
        | Inr p \<Rightarrow> wrap_call h (Path (Mkfifo (p_sub p) (uint (ucast mode :: 16 word)))))
      else act_ret (- LINUX_EINVAL))"

definition sys_mknod :: "host \<Rightarrow> gaddr \<Rightarrow> flags \<Rightarrow> int act" where
  "sys_mknod h path_ptr mode = sys_mknodat h (sint LINUX_AT_FDCWD) path_ptr mode"

definition sys_chroot :: "host \<Rightarrow> gaddr \<Rightarrow> int act" where
  "sys_chroot h path_ptr =
    act_bind (user_string h path_ptr DARWIN_PATH_MAX) (\<lambda>(len, buf).
      if len = int DARWIN_PATH_MAX then act_ret (- LINUX_ENAMETOOLONG)
      else if len < 0 then act_ret (- LINUX_EFAULT)
      else act_bind (raw_call h (Misc Getuid)) (\<lambda>uid.
        act_ret (if uid \<noteq> 0 then - LINUX_EPERM else if take 2 buf \<noteq> [SLASH, 0] then - LINUX_EACCES else 0)))"

end
