(* ===== verification/FileIo.thy ===== *)
theory FileIo
  imports PathCalls
begin

text \<open>
  The system calls of \<open>src/fs/fs.c\<close> on an open descriptor: reading and writing, also to several
  buffers, directory entries, terminal control, status, and waiting with \<open>select\<close> and \<open>poll\<close>.
  The host reports at most as many bytes as it was asked for; the stack is taken to have room for
  what \<open>alloca\<close> asks.
\<close>

section \<open>Reading and writing\<close>

definition darwinfs_writev :: "host \<Rightarrow> vfile \<Rightarrow> byte list list \<Rightarrow> int act" where
  "darwinfs_writev h f iov = wide_call h (Io (Writev (fl_fd f) iov))"

definition darwinfs_readv :: "host \<Rightarrow> vfile \<Rightarrow> nat list \<Rightarrow> int act" where
  "darwinfs_readv h f lens = wide_call h (Io (Readv (fl_fd f) lens))"

definition darwinfs_lseek :: "host \<Rightarrow> vfile \<Rightarrow> int \<Rightarrow> int \<Rightarrow> int act" where
  "darwinfs_lseek h f offset whence = wide_call h (Io (Lseek (fl_fd f) offset whence))"

definition sys_write :: "host \<Rightarrow> int \<Rightarrow> gaddr \<Rightarrow> nat \<Rightarrow> int act" where
  "sys_write h fd buf_ptr sz =
    act_bind (fetch buf_ptr sz) (\<lambda>buf. case buf of
      None \<Rightarrow> act_ret (- LINUX_EFAULT)
    | Some bs \<Rightarrow> with_file fd (\<lambda>f. darwinfs_writev h f [bs]))"

definition sys_read :: "host \<Rightarrow> int \<Rightarrow> gaddr \<Rightarrow> nat \<Rightarrow> int act" where
  "sys_read h fd buf_ptr sz =
    with_file fd (\<lambda>f.
      act_bind (darwinfs_readv h f [sz]) (\<lambda>r.
        if r < 0 then act_ret r
        else store_result buf_ptr (take (nat r) (filled h (out_bytes h (Io (Readv (fl_fd f) [sz]))) sz)) r))"

text \<open>The array of \<open>struct l_iovec\<close>: base and length of each buffer.\<close>

definition decode_iovec :: "byte list \<Rightarrow> int \<Rightarrow> (gaddr \<times> nat) list" where
  "decode_iovec bs iovcnt =
    map (\<lambda>i. (le_word (get_field (16 * i) 8 bs), unat (le_word (get_field (16 * i + 8) 8 bs) :: 64 word))) [0..<nat iovcnt]"

fun gather :: "(gaddr \<times> nat) list \<Rightarrow> byte list list option act" where
  "gather [] = act_ret (Some [])"
| "gather ((base, len) # liov) =
    act_bind (fetch base len) (\<lambda>buf. case buf of
      None \<Rightarrow> act_ret None
    | Some bs \<Rightarrow> act_bind (gather liov) (\<lambda>rest. act_ret (map_option (Cons bs) rest)))"

definition sys_writev :: "host \<Rightarrow> int \<Rightarrow> gaddr \<Rightarrow> int \<Rightarrow> int act" where
  "sys_writev h fd iov_ptr iovcnt =
    act_bind (fetch iov_ptr (size_t (16 * iovcnt))) (\<lambda>liov. case liov of
      None \<Rightarrow> act_ret (- LINUX_EFAULT)
    | Some bs \<Rightarrow> act_bind (gather (decode_iovec bs iovcnt)) (\<lambda>iov. case iov of
        None \<Rightarrow> act_ret (- LINUX_EFAULT)
      | Some bufs \<Rightarrow> with_file fd (\<lambda>f. darwinfs_writev h f bufs)))"

text \<open>The buffers the host filled one after the other, and the loop that copies them out.\<close>

fun split_at :: "nat list \<Rightarrow> byte list \<Rightarrow> byte list list" where
  "split_at [] bs = []"
| "split_at (n # ns) bs = take n bs # split_at ns (drop n bs)"

fun scatter :: "(gaddr \<times> nat) list \<Rightarrow> byte list list \<Rightarrow> nat \<Rightarrow> bool act" where
  "scatter ((base, len) # liov) (buf # bufs) sz =
    (let n = min sz len in
     act_bind (store base (take n buf)) (\<lambda>fine.
       if \<not> fine then act_ret False
       else if sz - n = 0 then act_ret True
       else scatter liov bufs (sz - n)))"
| "scatter _ _ sz = act_ret True"

definition sys_readv :: "host \<Rightarrow> int \<Rightarrow> gaddr \<Rightarrow> int \<Rightarrow> int act" where
  "sys_readv h fd iov_ptr iovcnt =
    act_bind (fetch iov_ptr (size_t (16 * iovcnt))) (\<lambda>iov. case iov of
      None \<Rightarrow> act_ret (- LINUX_EFAULT)
    | Some bs \<Rightarrow>
        let liov = decode_iovec bs iovcnt; lens = map snd liov in
        with_file fd (\<lambda>f.
          act_bind (darwinfs_readv h f lens) (\<lambda>r.
            if r < 0 then act_ret r
            else
              let bufs = split_at lens (filled h (out_bytes h (Io (Readv (fl_fd f) lens))) (sum_list lens)) in
              act_bind (scatter liov bufs (nat r)) (\<lambda>fine. act_ret (if fine then r else - LINUX_EFAULT)))))"

definition sys_lseek :: "host \<Rightarrow> int \<Rightarrow> int \<Rightarrow> int \<Rightarrow> int act" where
  "sys_lseek h fd offset whence = with_file fd (\<lambda>f. darwinfs_lseek h f offset whence)"

definition if_user :: "int \<Rightarrow> int act \<Rightarrow> int act" where
  "if_user fd m = act_bind (look (\<lambda>s. Inr (in_userfd (k_files s) fd))) (\<lambda>user. if \<not> user then act_ret (- LINUX_EBADF) else m)"

definition sys_pread64 :: "host \<Rightarrow> int \<Rightarrow> gaddr \<Rightarrow> nat \<Rightarrow> int \<Rightarrow> int act" where
  "sys_pread64 h fd buf_ptr count pos =
    if_user fd (act_bind (wide_call h (Io (Pread fd count pos))) (\<lambda>r.
      if r < 0 then act_ret r
      else store_result buf_ptr (take (nat r) (filled h (out_bytes h (Io (Pread fd count pos))) count)) r))"

definition sys_pwrite64 :: "host \<Rightarrow> int \<Rightarrow> gaddr \<Rightarrow> nat \<Rightarrow> int \<Rightarrow> int act" where
  "sys_pwrite64 h fd buf_ptr count pos =
    if_user fd (act_bind (fetch buf_ptr count) (\<lambda>buf. case buf of
      None \<Rightarrow> act_ret (- LINUX_EFAULT)
    | Some bs \<Rightarrow> wide_call h (Io (Pwrite fd bs pos))))"

section \<open>Status\<close>

definition darwinfs_fsync :: "host \<Rightarrow> vfile \<Rightarrow> int act" where
  "darwinfs_fsync h f = wrap_call h (Io (Fsync (fl_fd f)))"

definition darwinfs_fstat :: "host \<Rightarrow> vfile \<Rightarrow> (int + int \<times> l_newstat) act" where
  "darwinfs_fstat h f =
    act_bind (wrap_call h (Io (Fstat (fl_fd f)))) (\<lambda>ret.
      act_ret (if ret < 0 then Inl ret else Inr (ret, stat_darwin_to_linux (out_stat h (Io (Fstat (fl_fd f)))))))"

definition darwinfs_fchown :: "host \<Rightarrow> vfile \<Rightarrow> int \<Rightarrow> int \<Rightarrow> int act" where
  "darwinfs_fchown h f uid gid = wrap_call h (Io (Fchown (fl_fd f) uid gid))"

definition darwinfs_fchmod :: "host \<Rightarrow> vfile \<Rightarrow> int \<Rightarrow> int act" where
  "darwinfs_fchmod h f mode = wrap_call h (Io (Fchmod (fl_fd f) mode))"

definition darwinfs_fstatfs :: "host \<Rightarrow> vfile \<Rightarrow> (int + int \<times> l_statfs) act" where
  "darwinfs_fstatfs h f =
    act_bind (wrap_call h (Io (Fstatfs (fl_fd f)))) (\<lambda>r.
      act_ret (if r < 0 then Inl r else Inr (r, statfs_darwin_to_linux (out_statfs h (Io (Fstatfs (fl_fd f)))))))"

definition sys_fstat :: "host \<Rightarrow> int \<Rightarrow> gaddr \<Rightarrow> int act" where
  "sys_fstat h fd st_ptr =
    with_file fd (\<lambda>f. act_bind (darwinfs_fstat h f) (\<lambda>x. case x of
      Inl n \<Rightarrow> act_ret n
    | Inr (n, st) \<Rightarrow> store_result st_ptr (newstat_bytes st (uninit h 144)) n))"

definition sys_fchown :: "host \<Rightarrow> int \<Rightarrow> int \<Rightarrow> int \<Rightarrow> int act" where
  "sys_fchown h fd uid gid = with_file fd (\<lambda>f. darwinfs_fchown h f uid gid)"

definition sys_fchmod :: "host \<Rightarrow> int \<Rightarrow> int \<Rightarrow> int act" where
  "sys_fchmod h fd mode = with_file fd (\<lambda>f. darwinfs_fchmod h f mode)"

definition sys_fstatfs :: "host \<Rightarrow> int \<Rightarrow> gaddr \<Rightarrow> int act" where
  "sys_fstatfs h fd buf_ptr =
    with_file fd (\<lambda>f. act_bind (darwinfs_fstatfs h f) (\<lambda>x. case x of
      Inl n \<Rightarrow> act_ret n
    | Inr (n, st) \<Rightarrow> store_result buf_ptr (statfs_bytes st (uninit h 120)) n))"

definition sys_fsync :: "host \<Rightarrow> int \<Rightarrow> int act" where
  "sys_fsync h fd = with_file fd (\<lambda>f. darwinfs_fsync h f)"

definition sys_ftruncate :: "host \<Rightarrow> int \<Rightarrow> 64 word \<Rightarrow> int act" where
  "sys_ftruncate h fd len = wrap_call h (Io (Ftruncate fd len))"

definition sys_flock :: "host \<Rightarrow> int \<Rightarrow> int \<Rightarrow> int act" where
  "sys_flock h fd operation = wrap_call h (Io (Flock fd operation))"

abbreviation (input) DARWIN_ENOSYS :: int where "DARWIN_ENOSYS \<equiv> 78"
abbreviation (input) LINUX_ENOTSUP :: int where "LINUX_ENOTSUP \<equiv> 95"

definition sys_fallocate :: "host \<Rightarrow> int \<Rightarrow> int \<Rightarrow> int \<Rightarrow> int \<Rightarrow> int act" where
  "sys_fallocate h fd mode offset len =
    (if mode \<noteq> 0 then act_ret (- DARWIN_ENOSYS)
     else if offset \<noteq> 0 then crash_with Assert_failed
     else wrap_call h (Misc (Preallocate fd len)))"

definition sys_sync :: "host \<Rightarrow> int act" where
  "sys_sync h = act_bind (raw_call h (Misc Sync)) (\<lambda>_. act_ret 0)"

definition sys_getxattr :: "int act" where
  "sys_getxattr = act_ret (- LINUX_ENOTSUP)"

definition sys_fgetxattr :: "int act" where
  "sys_fgetxattr = act_ret (- LINUX_ENOTSUP)"

definition sys_setxattr :: "int act" where
  "sys_setxattr = act_ret 0"

definition sys_fsetxattr :: "int act" where
  "sys_fsetxattr = act_ret 0"

definition sys_flistxattr :: "nat \<Rightarrow> int act" where
  "sys_flistxattr sz = (if sz \<noteq> 0 then crash_with Assert_failed else act_ret 0)"

definition sys_fadvise64 :: "int act" where
  "sys_fadvise64 = act_ret 0"

section \<open>Directory entries\<close>

text \<open>A write into the buffer of the handler.\<close>

definition poke :: "nat \<Rightarrow> byte list \<Rightarrow> byte list \<Rightarrow> byte list run" where
  "poke off bs buf = (if off + length bs \<le> length buf then Inr (put_field off bs buf) else Inl Out_of_bounds)"

fun pokes :: "(nat \<times> byte list) list \<Rightarrow> byte list \<Rightarrow> byte list run" where
  "pokes [] buf = Inr buf"
| "pokes ((off, bs) # ws) buf = bind_run (poke off bs buf) (pokes ws)"

text \<open>
  The condition of \<open>?:\<close> reaches to the end of the argument: for \<open>getdents64\<close> the length of the
  name is not added.
\<close>

definition dent_reclen :: "dirent \<Rightarrow> bool \<Rightarrow> nat" where
  "dent_reclen d is64 = (let x = (if is64 then 19 else 18 + length (de_name d) + 2) in (x + 7) div 8 * 8)"

definition darwin_to_linux_dent :: "dirent \<Rightarrow> nat \<Rightarrow> nat \<Rightarrow> bool \<Rightarrow> byte list \<Rightarrow> (nat option \<times> byte list) run" where
  "darwin_to_linux_dent d pos buflen is64 buf =
    (let reclen = dent_reclen d is64 in
     if buflen < reclen then Inr (None, buf)
     else
       bind_run (pokes
         ([(pos + 16, le_bytes 2 (of_nat reclen :: 16 word)), (pos, le_bytes 8 (de_ino d)), (pos + 8, le_bytes 8 (de_seekoff d))] @
          (if is64 then [(pos + 18, [de_type d]), (pos + 19, de_name d @ [0])]
           else [(pos + 18, de_name d @ [0]), (pos + reclen - 1, [de_type d])])) buf)
       (\<lambda>buf'. Inr (Some reclen, buf')))"

text \<open>The loop over the stream: the position reached, how many entries were taken, whether it ended early.\<close>

fun fill_dents :: "dirent list \<Rightarrow> nat \<Rightarrow> nat \<Rightarrow> bool \<Rightarrow> nat \<Rightarrow> byte list \<Rightarrow> (nat \<times> nat \<times> bool \<times> byte list) run" where
  "fill_dents [] pos count is64 k buf = Inr (pos, k, False, buf)"
| "fill_dents (d # ds) pos count is64 k buf =
    bind_run (darwin_to_linux_dent d pos (count - pos) is64 buf) (\<lambda>(reclen, buf'). case reclen of
      None \<Rightarrow> Inr (pos, k, True, buf')
    | Some n \<Rightarrow> fill_dents ds (pos + n) count is64 (Suc k) buf')"

definition darwinfs_getdents :: "host \<Rightarrow> vfile \<Rightarrow> nat \<Rightarrow> bool \<Rightarrow> (int \<times> byte list) act" where
  "darwinfs_getdents h f count is64 =
    act_bind (raw_call h (Fd (Dup (fl_fd f)))) (\<lambda>fd.
    act_bind (raw_call h (Misc (Fdopendir fd))) (\<lambda>dir.
      if dir < 0 then act_ret (- darwin_to_linux_errno (snd (answer h (Misc (Fdopendir fd)))), uninit h count)
      else
        act_bind (raw_call h (Misc (Readdir fd))) (\<lambda>_.
        act_bind (look (\<lambda>_. fill_dents (out_dents h (Misc (Readdir fd))) 0 count is64 0 (uninit h count))) (\<lambda>(pos, k, early, buf).
          let errno = snd (answer h (Misc (Readdir fd))) in
          if \<not> early \<and> errno \<noteq> 0 then act_ret (- darwin_to_linux_errno errno, buf)
          else act_bind (if early then raw_call h (Misc (Seekdir fd k)) else act_ret 0) (\<lambda>_.
            act_bind (raw_call h (Misc (Closedir fd))) (\<lambda>_. act_ret (to_cint (int pos), buf)))))))"

definition do_getdents :: "host \<Rightarrow> bool \<Rightarrow> int \<Rightarrow> gaddr \<Rightarrow> nat \<Rightarrow> int act" where
  "do_getdents h is64 fd dirent_ptr count =
    with_file fd (\<lambda>f. act_bind (darwinfs_getdents h f count is64) (\<lambda>(r, buf).
      if r < 0 then act_ret r else store_result dirent_ptr buf r))"

definition sys_getdents64 :: "host \<Rightarrow> int \<Rightarrow> gaddr \<Rightarrow> nat \<Rightarrow> int act" where
  "sys_getdents64 h = do_getdents h True"

definition sys_getdents :: "host \<Rightarrow> int \<Rightarrow> gaddr \<Rightarrow> nat \<Rightarrow> int act" where
  "sys_getdents h = do_getdents h False"

end
