(* ===== verification/TtyPoll.thy ===== *)
theory TtyPoll
  imports FileIo
begin

text \<open>
  Terminal control through \<open>ioctl\<close> and waiting for descriptors with \<open>select\<close>, \<open>pselect6\<close> and
  \<open>poll\<close>, \<open>src/fs/fs.c\<close>.
\<close>

section \<open>Terminal control\<close>

abbreviation (input) LINUX_TCGETS :: int where "LINUX_TCGETS \<equiv> 0x5401"
abbreviation (input) LINUX_TCSETS :: int where "LINUX_TCSETS \<equiv> 0x5402"
abbreviation (input) LINUX_TCSETSW :: int where "LINUX_TCSETSW \<equiv> 0x5403"
abbreviation (input) LINUX_TCXONC :: int where "LINUX_TCXONC \<equiv> 0x540A"
abbreviation (input) LINUX_TCFLSH :: int where "LINUX_TCFLSH \<equiv> 0x540B"
abbreviation (input) LINUX_TIOCGPGRP :: int where "LINUX_TIOCGPGRP \<equiv> 0x540F"
abbreviation (input) LINUX_TIOCSPGRP :: int where "LINUX_TIOCSPGRP \<equiv> 0x5410"
abbreviation (input) LINUX_TIOCGWINSZ :: int where "LINUX_TIOCGWINSZ \<equiv> 0x5413"
abbreviation (input) LINUX_TIOCSWINSZ :: int where "LINUX_TIOCSWINSZ \<equiv> 0x5414"
abbreviation (input) LINUX_FIONREAD :: int where "LINUX_FIONREAD \<equiv> 0x541B"
abbreviation (input) LINUX_FIONBIO :: int where "LINUX_FIONBIO \<equiv> 0x5421"
abbreviation (input) LINUX_FIOCLEX :: int where "LINUX_FIOCLEX \<equiv> 0x5451"
abbreviation (input) TIOCGPGRP :: flags where "TIOCGPGRP \<equiv> 0x40047477"
abbreviation (input) TIOCSPGRP :: flags where "TIOCSPGRP \<equiv> 0x80047476"
abbreviation (input) TIOCGWINSZ :: flags where "TIOCGWINSZ \<equiv> 0x40087468"
abbreviation (input) FIONREAD :: flags where "FIONREAD \<equiv> 0x4004667F"
abbreviation (input) FIONBIO :: flags where "FIONBIO \<equiv> 0x8004667E"
abbreviation (input) TCSANOW :: int where "TCSANOW \<equiv> 0"
abbreviation (input) TCSADRAIN :: int where "TCSADRAIN \<equiv> 1"

text \<open>\<open>struct linux_termios\<close> has 36 bytes, \<open>struct linux_winsize\<close> 8.\<close>

definition termios_bytes :: "linux_termios \<Rightarrow> byte list" where
  "termios_bytes t = le_bytes 4 (lt_iflag t) @ le_bytes 4 (lt_oflag t) @ le_bytes 4 (lt_cflag t) @ le_bytes 4 (lt_lflag t) @
    [lt_line t] @ lt_cc t"

definition decode_termios :: "byte list \<Rightarrow> linux_termios" where
  "decode_termios bs =
    \<lparr>lt_iflag = le_word (get_field 0 4 bs), lt_oflag = le_word (get_field 4 4 bs), lt_cflag = le_word (get_field 8 4 bs),
     lt_lflag = le_word (get_field 12 4 bs), lt_line = le_word (get_field 16 1 bs), lt_cc = get_field 17 19 bs\<rparr>"

definition winsize_bytes :: "linux_winsize \<Rightarrow> byte list" where
  "winsize_bytes w = le_bytes 2 (lws_row w) @ le_bytes 2 (lws_col w) @ le_bytes 2 (lws_xpixel w) @ le_bytes 2 (lws_ypixel w)"

definition decode_winsize :: "byte list \<Rightarrow> linux_winsize" where
  "decode_winsize bs =
    \<lparr>lws_row = le_word (get_field 0 2 bs), lws_col = le_word (get_field 2 2 bs),
     lws_xpixel = le_word (get_field 4 2 bs), lws_ypixel = le_word (get_field 6 2 bs)\<rparr>"

definition int_bytes :: "int \<Rightarrow> byte list" where
  "int_bytes x = le_bytes 4 (word_of_int x :: 32 word)"

definition decode_int :: "byte list \<Rightarrow> int" where
  "decode_int bs = sint (le_word bs :: 32 word)"

text \<open>A copy from the guest that ends the command with a fault, and a value read from the host.\<close>

definition with_arg :: "gaddr \<Rightarrow> nat \<Rightarrow> (byte list \<Rightarrow> int act) \<Rightarrow> int act" where
  "with_arg ptr n k = act_bind (fetch ptr n) (\<lambda>buf. case buf of None \<Rightarrow> act_ret (- LINUX_EFAULT) | Some bs \<Rightarrow> k bs)"

definition read_out :: "host \<Rightarrow> fs_call \<Rightarrow> gaddr \<Rightarrow> byte list \<Rightarrow> int act" where
  "read_out h c ptr bs = act_bind (wrap_call h c) (\<lambda>r. if r < 0 then act_ret r else store_result ptr bs r)"

definition darwinfs_ioctl :: "host \<Rightarrow> vfile \<Rightarrow> int \<Rightarrow> 64 word \<Rightarrow> int act" where
  "darwinfs_ioctl h f cmd val0 =
    (let fd = fl_fd f in
     if cmd = LINUX_TCGETS then
       read_out h (Tty (Tcgetattr fd)) val0 (termios_bytes (darwin_to_linux_termios (out_termios h (Tty (Tcgetattr fd)))))
     else if cmd = LINUX_TCSETS then
       with_arg val0 36 (\<lambda>bs. wrap_call h (Tty (Tcsetattr fd TCSANOW (linux_to_darwin_termios (decode_termios bs)))))
     else if cmd = LINUX_TCSETSW then
       with_arg val0 36 (\<lambda>bs. wrap_call h (Tty (Tcsetattr fd TCSADRAIN (linux_to_darwin_termios (decode_termios bs)))))
     else if cmd = LINUX_TIOCGPGRP then
       read_out h (Tty (Ioctl fd TIOCGPGRP)) val0 (int_bytes (out_int h (Tty (Ioctl fd TIOCGPGRP))))
     else if cmd = LINUX_TIOCSPGRP then
       with_arg val0 4 (\<lambda>bs. act_bind (wrap_call h (Tty (Ioctl_int fd TIOCSPGRP (decode_int bs)))) (\<lambda>r.
         act_ret (if r < 0 then r else 0)))
     else if cmd = LINUX_TIOCGWINSZ then
       read_out h (Tty (Ioctl fd TIOCGWINSZ)) val0 (winsize_bytes (darwin_to_linux_winsize (out_winsize h (Tty (Ioctl fd TIOCGWINSZ)))))
     else if cmd = LINUX_TIOCSWINSZ then
       with_arg val0 8 (\<lambda>bs. wrap_call h (Tty (Ioctl_winsize fd (linux_to_darwin_winsize (decode_winsize bs)))))
     else if cmd = LINUX_TCXONC then
       (if val0 < 4 then wrap_call h (Tty (Tcflow fd (uint val0 + 1))) else act_ret (- LINUX_EINVAL))
     else if cmd = LINUX_TCFLSH then
       (if val0 < 3 then wrap_call h (Tty (Tcflush fd (uint val0 + 1))) else act_ret (- LINUX_EINVAL))
     else if cmd = LINUX_FIONREAD then
       read_out h (Tty (Ioctl fd FIONREAD)) val0 (int_bytes (out_int h (Tty (Ioctl fd FIONREAD))))
     else if cmd = LINUX_FIONBIO then
       with_arg val0 4 (\<lambda>bs. wrap_call h (Tty (Ioctl_int fd FIONBIO (decode_int bs))))
     else if cmd = LINUX_FIOCLEX then
       locked Wrlock (act_bind (sys_fcntl h fd LINUX_F_SETFD 1) (\<lambda>r.
         if 0 \<le> r then act_bind (cloexec_bit True fd) (\<lambda>_. act_ret r) else act_ret r))
     else act_ret (- LINUX_EPERM))"

definition sys_ioctl :: "host \<Rightarrow> int \<Rightarrow> int \<Rightarrow> 64 word \<Rightarrow> int act" where
  "sys_ioctl h fd cmd val0 = with_file fd (\<lambda>f. darwinfs_ioctl h f cmd val0)"

section \<open>Waiting\<close>

text \<open>A pointer argument of which \<open>NULL\<close> means that there is none; \<open>Inl\<close> ends the call.\<close>

definition opt_arg :: "gaddr \<Rightarrow> nat \<Rightarrow> (byte list option \<Rightarrow> int act) \<Rightarrow> int act" where
  "opt_arg ptr n k =
    (if ptr = 0 then k None
     else act_bind (fetch ptr n) (\<lambda>buf. case buf of None \<Rightarrow> act_ret (- LINUX_EFAULT) | Some bs \<Rightarrow> k (Some bs)))"

definition opt_store :: "gaddr \<Rightarrow> byte list \<Rightarrow> int act \<Rightarrow> int act" where
  "opt_store ptr bs k =
    (if ptr = 0 then k else act_bind (store ptr bs) (\<lambda>fine. if fine then k else act_ret (- LINUX_EFAULT)))"

text \<open>
  The common part of \<open>select\<close> and \<open>pselect6\<close>, which differ in the host call and in the structure
  of the timeout; a set has 128 bytes and both structures 16.
\<close>

definition do_select ::
  "(int \<Rightarrow> byte list option \<Rightarrow> byte list option \<Rightarrow> byte list option \<Rightarrow> byte list option \<Rightarrow> misc_call) \<Rightarrow>
   host \<Rightarrow> int \<Rightarrow> gaddr \<Rightarrow> gaddr \<Rightarrow> gaddr \<Rightarrow> gaddr \<Rightarrow> int act" where
  "do_select sel h nfds readfds_ptr writefds_ptr errorfds_ptr timeout_ptr =
    act_bind (look (\<lambda>s. Inr (ft_start (fi_vkern (k_files s)) \<le> to_cint (nfds - 1)))) (\<lambda>high.
      if high then act_ret (- LINUX_EBADF)
      else
        opt_arg timeout_ptr 16 (\<lambda>to. opt_arg readfds_ptr 128 (\<lambda>rfds. opt_arg writefds_ptr 128 (\<lambda>wfds.
        opt_arg errorfds_ptr 128 (\<lambda>efds.
          let c = Misc (sel nfds rfds wfds efds to) in
          act_bind (wrap_call h c) (\<lambda>r.
            if r < 0 then act_ret r
            else case out_sets h c of (ro, wo, eo) \<Rightarrow>
              opt_store readfds_ptr ro (opt_store writefds_ptr wo (opt_store errorfds_ptr eo (act_ret r)))))))))"

definition sys_select :: "host \<Rightarrow> int \<Rightarrow> gaddr \<Rightarrow> gaddr \<Rightarrow> gaddr \<Rightarrow> gaddr \<Rightarrow> int act" where
  "sys_select = do_select Select"

text \<open>The signal mask of \<open>pselect6\<close> is not used.\<close>

definition sys_pselect6 :: "host \<Rightarrow> int \<Rightarrow> gaddr \<Rightarrow> gaddr \<Rightarrow> gaddr \<Rightarrow> gaddr \<Rightarrow> int act" where
  "sys_pselect6 = do_select Pselect"

record pollfd =
  pf_fd :: int
  pf_events :: "16 word"
  pf_revents :: "16 word"

definition decode_pollfds :: "byte list \<Rightarrow> int \<Rightarrow> pollfd list" where
  "decode_pollfds bs nfds =
    map (\<lambda>i. \<lparr>pf_fd = decode_int (get_field (8 * i) 4 bs), pf_events = le_word (get_field (8 * i + 4) 2 bs),
             pf_revents = le_word (get_field (8 * i + 6) 2 bs)\<rparr>) [0..<nat nfds]"

definition pollfd_bytes :: "pollfd \<Rightarrow> byte list" where
  "pollfd_bytes p = int_bytes (pf_fd p) @ le_bytes 2 (pf_events p) @ le_bytes 2 (pf_revents p)"

definition hide_fd :: "fileinfo \<Rightarrow> pollfd \<Rightarrow> int \<times> 16 word" where
  "hide_fd fi p = (if in_userfd fi (pf_fd p) then pf_fd p else - 1, pf_events p)"

abbreviation (input) LINUX_POLLNVAL :: "16 word" where "LINUX_POLLNVAL \<equiv> 0x20"
abbreviation (input) OPEN_MAX :: int where "OPEN_MAX \<equiv> 10240"

text \<open>The second loop: the events of each descriptor, and how many were refused.\<close>

definition poll_result :: "fileinfo \<Rightarrow> pollfd \<Rightarrow> 16 word \<Rightarrow> pollfd" where
  "poll_result fi p revents =
    (if in_userfd fi (pf_fd p) \<or> pf_fd p < 0 \<or> pf_events p = 0 then p\<lparr>pf_revents := revents\<rparr>
     else p\<lparr>pf_revents := LINUX_POLLNVAL\<rparr>)"

definition poll_refused :: "fileinfo \<Rightarrow> pollfd \<Rightarrow> bool" where
  "poll_refused fi p \<longleftrightarrow> \<not> (in_userfd fi (pf_fd p) \<or> pf_fd p < 0 \<or> pf_events p = 0)"

definition sys_poll :: "host \<Rightarrow> gaddr \<Rightarrow> int \<Rightarrow> int \<Rightarrow> int act" where
  "sys_poll h fds_ptr nfds timeout =
    (if \<not> h_alloc h (Malloc (size_t (8 * nfds))) then act_ret (- LINUX_ENOMEM)
     else if OPEN_MAX < nfds then act_ret (- LINUX_EINVAL)
     else
       with_arg fds_ptr (size_t (8 * nfds)) (\<lambda>bs.
       act_bind (look (\<lambda>s. Inr (k_files s))) (\<lambda>fi.
         let l_fds = decode_pollfds bs nfds; c = Misc (Poll (map (hide_fd fi) l_fds) timeout) in
         act_bind (wrap_call h c) (\<lambda>r.
           if r < 0 then act_ret r
           else
             store_result fds_ptr (concat (map pollfd_bytes (map2 (poll_result fi) l_fds (out_revents h c))))
               (r + int (length (filter (poll_refused fi) l_fds)))))))"

end
