(* ===== verification/FdProps.thy ===== *)
theory FdProps
  imports FdCalls
begin

text \<open>
  Properties of the descriptor tables: no sequence of system calls breaks them or reads outside
  of them, \<open>exec\<close> closes what it should, and the discipline of the lock \<open>fdtable_lock\<close>.
\<close>

section \<open>Reachable states\<close>

datatype fd_request =
    R_close int
  | R_fcntl int int "64 word"
  | R_dup int
  | R_dup2 int int
  | R_dup3 int int flags
  | R_pipe gaddr
  | R_pipe2 gaddr flags
  | R_exec

primrec run_request :: "host \<Rightarrow> fd_request \<Rightarrow> int act" where
  "run_request h (R_close fd) = sys_close h fd"
| "run_request h (R_fcntl fd cmd arg) = sys_fcntl h fd cmd arg"
| "run_request h (R_dup fd) = sys_dup h fd"
| "run_request h (R_dup2 fd1 fd2) = sys_dup2 h fd1 fd2"
| "run_request h (R_dup3 oldfd newfd flgs) = sys_dup3 h oldfd newfd flgs"
| "run_request h (R_pipe p) = sys_pipe h p"
| "run_request h (R_pipe2 p flgs) = sys_pipe2 h p flgs"
| "run_request h R_exec = act_bind (close_cloexec h) (\<lambda>_. act_ret 0)"

text \<open>A host whose allocations succeed and whose \<open>pipe\<close> returns descriptors.\<close>

definition host_ok :: "host \<Rightarrow> bool" where
  "host_ok h \<longleftrightarrow> h_alloc h = (\<lambda>_. True) \<and> 0 \<le> fst (out_fds h (Fd Pipe)) \<and> 0 \<le> snd (out_fds h (Fd Pipe))"

text \<open>\<open>F_GETFL\<close>, whose conversion of the host's flags can fail its assertion.\<close>

fun reads_flags :: "fd_request \<Rightarrow> bool" where
  "reads_flags (R_fcntl fd cmd arg) \<longleftrightarrow> cmd = LINUX_F_GETFL"
| "reads_flags r \<longleftrightarrow> False"

inductive fd_reachable :: "int \<Rightarrow> kern \<Rightarrow> bool" where
  start: "64 \<le> limit \<Longrightarrow> host_ok h \<Longrightarrow> init_fileinfo h limit rootfd s0 = Inr ((), s) \<Longrightarrow> fd_reachable limit s"
| step: "fd_reachable limit s \<Longrightarrow> host_ok h \<Longrightarrow> run_request h r s = Inr (x, s') \<Longrightarrow> fd_reachable limit s'"

lemma keeps_pipe2_set [triples]: "keeps F (pipe2_set h fds c cmd arg)"
  unfolding pipe2_set_def by (intro triples)

lemma keeps_close_by_fail [triples]: "keeps F (close_by_fail h fds errs)"
  unfolding close_by_fail_def by (intro triples)

lemma keeps_or_fail [triples]: "keeps F m \<Longrightarrow> keeps F k \<Longrightarrow> keeps F (or_fail h fds m k)"
  unfolding or_fail_def by (intro triples)

lemma keeps_request:
  assumes "host_ok h" "\<not> reads_flags r"
  shows "keeps (fds_inv b) (run_request h r)"
proof (cases r)
  case (R_close fd)
  then show ?thesis by (simp only: run_request.simps sys_close_def user_close_def) (intro triples)
next
  case (R_fcntl fd cmd arg)
  then show ?thesis using assms
    by (simp only: run_request.simps sys_fcntl_def) (intro keeps_with_file darwinfs_fcntl_ok; simp add: host_ok_def)
next
  case (R_dup fd)
  then show ?thesis using assms
    by (simp only: run_request.simps sys_dup_def sys_fcntl_def)
      (intro triples keeps_with_file darwinfs_fcntl_ok; simp add: host_ok_def)
next
  case (R_dup2 fd1 fd2)
  then show ?thesis using assms
    by (simp only: run_request.simps sys_dup2_def) (intro triples; simp add: host_ok_def)
next
  case (R_dup3 oldfd newfd flgs)
  then show ?thesis using assms
    by (simp only: run_request.simps sys_dup3_def) (intro triples; simp add: host_ok_def)
next
  case (R_pipe p)
  then show ?thesis using assms
    by (simp only: run_request.simps sys_pipe_def Let_def) (intro triples; simp add: host_ok_def)
next
  case (R_pipe2 p flgs)
  then show ?thesis using assms
    by (simp only: run_request.simps sys_pipe2_def Let_def) (intro triples; simp add: host_ok_def)
next
  case R_exec
  then show ?thesis by (simp only: run_request.simps) (intro triples)
qed

lemma getfl_ok:
  assumes "fds_inv b (k_files s)"
  shows "(\<exists>x s'. sys_fcntl h fd LINUX_F_GETFL arg s = Inr (x, s') \<and> fds_inv b (k_files s')) \<or>
    sys_fcntl h fd LINUX_F_GETFL arg s = Inl Assert_failed"
proof -
  have "files_ok (k_files s)" using assms by (simp add: fds_inv_def)
  moreover have "darwin_to_linux_o_flags w = Inl e \<Longrightarrow> e = Assert_failed" for w e
    by (auto simp: darwin_to_linux_o_flags_def Let_def split: prod.splits if_splits)
  ultimately show ?thesis using assms
    by (auto simp: sys_fcntl_def with_file_def get_file_ok darwinfs_fcntl_def look_def act_bind_def bind_run_def
        split: option.split sum.split)
qed

text \<open>Whatever the request: the invariant is kept, or the assertion on the flags fails.\<close>

lemma request_ok:
  assumes "host_ok h" "fds_inv b (k_files s)"
  shows "(\<exists>x s'. run_request h r s = Inr (x, s') \<and> fds_inv b (k_files s')) \<or> reads_flags r \<and> run_request h r s = Inl Assert_failed"
proof (cases "reads_flags r")
  case True
  then obtain fd arg where "r = R_fcntl fd LINUX_F_GETFL arg" by (cases r) auto
  then show ?thesis using getfl_ok [OF assms(2), of h fd arg] by simp
next
  case False
  then show ?thesis using keeps_request [OF assms(1), of r b] assms(2) by (auto simp: triple_def on_files_def)
qed

lemma keeps_init_fds: "host_ok h \<Longrightarrow> \<forall>i \<in> set is. 0 \<le> i \<Longrightarrow> keeps (fds_inv b) (init_fds h rootfd is)"
proof (induction "is")
  case Nil
  then show ?case by (simp only: init_fds.simps) (rule triples)
next
  case (Cons i "is")
  then show ?case by (simp only: init_fds.simps) (intro triples; simp add: host_ok_def)
qed

lemma vkern_dup_fd_inv:
  assumes "fds_inv b (k_files s)" "vkern_dup_fd h fd c s = Inr (x, s')"
  shows "fds_inv b (k_files s')"
proof -
  let ?t = "fi_vkern (k_files s)"
  have ok: "table_ok ?t" using assms(1) by (simp add: fds_inv_def files_ok_def)
  obtain r where r: "find_emptyfd ?t = Inr r" "r = - 1 \<or> in_table ?t r"
    using find_emptyfd_ok [OF ok] by blast
  have "r \<noteq> - 1" using assms(2) r(1) by (auto simp: vkern_dup_fd_def)
  then obtain t' where t': "mark_fd ?t r c = Inr t'" "table_ok t'" "ft_start t' = ft_start ?t"
    using mark_fd_ok [OF ok] r(2) by blast
  then show ?thesis using assms r(1) \<open>r \<noteq> - 1\<close>
    by (auto simp: vkern_dup_fd_def fds_inv_def files_ok_def)
qed

lemma table_ok_empty: "table_ok (empty_fdtable\<lparr>ft_start := n\<rparr>)" "table_ok empty_fdtable"
  by (simp_all add: table_ok_def empty_fdtable_def fdbit_def)

lemma init_fileinfo_inv:
  assumes "64 \<le> limit" "host_ok h" "init_fileinfo h limit rootfd s0 = Inr ((), s)"
  shows "fds_inv (limit - 64) (k_files s)"
proof -
  have mem: "h_alloc h = (\<lambda>_. True)" using assms(2) by (simp add: host_ok_def)
  let ?vk = "snd (alloc_fdtable (h_alloc h) (empty_fdtable\<lparr>ft_start := limit - 64\<rparr>) 64)"
  let ?us = "snd (alloc_fdtable (h_alloc h) empty_fdtable 64)"
  let ?s = "s0\<lparr>k_files := (k_files s0)\<lparr>fi_vkern := ?vk, fi_fdtable := ?us\<rparr>\<rparr>"
  have "fd_view empty_fdtable = (\<lambda>_. None)" by (simp add: fun_eq_iff fd_view_def empty_fdtable_def fdbit_def)
  then have "table_ok ?vk" "ft_start ?vk = limit - 64" "table_ok ?us" "ft_start ?us = 0" "fd_view ?us = (\<lambda>_. None)"
    using alloc_fdtable_ok [OF table_ok_empty(1) mem, of 64 "limit - 64"] alloc_fdtable_ok [OF table_ok_empty(2) mem, of 64]
    by (auto simp: empty_fdtable_def)
  then have "on_files (fds_inv (limit - 64)) ?s" by (simp add: on_files_def fds_inv_def files_ok_def)
  moreover have "keeps (fds_inv (limit - 64)) (init_fds h rootfd [0..limit - 1])"
    by (rule keeps_init_fds [OF assms(2)]) simp
  ultimately have "\<exists>x s1. init_fds h rootfd [0..limit - 1] ?s = Inr (x, s1) \<and> on_files (fds_inv (limit - 64)) s1"
    unfolding triple_def by blast
  then obtain s1 where s1: "init_fds h rootfd [0..limit - 1] ?s = Inr ((), s1)" "fds_inv (limit - 64) (k_files s1)"
    by (auto simp: on_files_def)
  then obtain fd s2 where s2: "vkern_dup_fd h rootfd False s1 = Inr (fd, s2)" "s = s2\<lparr>k_files := (k_files s2)\<lparr>fi_rootfd := fd\<rparr>\<rparr>"
    using assms(3) by (cases "vkern_dup_fd h rootfd False s1") (auto simp: init_fileinfo_def)
  then show ?thesis using vkern_dup_fd_inv [OF s1(2) s2(1)] by (simp add: fds_inv_def files_ok_def)
qed

lemma fd_reachable_inv: "fd_reachable limit s \<Longrightarrow> fds_inv (limit - 64) (k_files s)"
proof (induction rule: fd_reachable.induct)
  case (start limit h rootfd s0 s)
  then show ?case by (rule init_fileinfo_inv)
next
  case (step limit s h r x s')
  then show ?case using request_ok [of h "limit - 64" s r] by auto
qed

text \<open>
  C1: As long as the host grants the memory for the tables, in every state that a process reaches from its
  start by calls of \<open>close\<close>, \<open>fcntl\<close>, \<open>dup\<close>, \<open>dup2\<close>, \<open>dup3\<close>, \<open>pipe\<close>, \<open>pipe2\<close> and by \<open>exec\<close>, both
  descriptor tables are well formed, the kernel's descriptors start where they started, and every
  descriptor open for the guest is below them.  The next such call neither leaves an array nor calls
  through an unset file structure nor fails an assertion, with one exception: \<open>fcntl\<close> with
  \<open>F_GETFL\<close> can fail the assertion on the host's flags.  The lock of the tables is recorded and never
  waited for, so nothing is said about \<open>dup\<close> blocking on the lock that it takes twice.
\<close>

theorem fd_tables_safe:
  assumes "fd_reachable limit s" "host_ok h"
  shows "files_ok (k_files s) \<and> ft_start (fi_vkern (k_files s)) = limit - 64 \<and>
    (\<forall>fd. user_view (k_files s) fd \<noteq> None \<longrightarrow> 0 \<le> fd \<and> fd < limit - 64) \<and>
    (case run_request h r s of Inl e \<Rightarrow> reads_flags r \<and> e = Assert_failed | Inr (x, s') \<Rightarrow> files_ok (k_files s'))"
proof -
  have inv: "fds_inv (limit - 64) (k_files s)" by (rule fd_reachable_inv [OF assms(1)])
  moreover have "case run_request h r s of Inl e \<Rightarrow> reads_flags r \<and> e = Assert_failed | Inr (x, s') \<Rightarrow> files_ok (k_files s')"
    using request_ok [OF assms(2) inv, of r] by (auto simp: fds_inv_def)
  moreover have "0 \<le> fd" if "user_view (k_files s) fd \<noteq> None" for fd
    using that inv by (auto simp: fds_inv_def files_ok_def fd_view_def split: if_splits)
  ultimately show ?thesis by (force simp: fds_inv_def not_le)
qed

text \<open>A host without open descriptors whose calls succeed with 3.\<close>

definition ex_host :: host where
  "ex_host = \<lparr>answer = (\<lambda>c. case c of Fd (Getfd _) \<Rightarrow> (- 1, 9) | _ \<Rightarrow> (3, 0)), out_bytes = (\<lambda>_. []), out_int = (\<lambda>_. 0),
     out_fds = (\<lambda>_. (3, 4)), out_stat = undefined, out_statfs = undefined, out_termios = (\<lambda>_. undefined),
     out_winsize = (\<lambda>_. undefined), out_flock = (\<lambda>_. undefined), out_sets = (\<lambda>_. ([], [], [])),
     out_revents = (\<lambda>_. []), out_dents = (\<lambda>_. []), h_alloc = (\<lambda>_. True), h_junk = (\<lambda>_. 0)\<rparr>"

lemma init_fds_closed:
  "\<forall>i \<in> set is. fst (answer h (Fd (Getfd i))) < 0 \<Longrightarrow>
    init_fds h rootfd is s = Inr ((), s\<lparr>k_trace := k_trace s @ map (\<lambda>i. Call (Fd (Getfd i))) (filter (\<lambda>i. i \<noteq> rootfd) is)\<rparr>)"
  by (induction "is" arbitrary: s) auto

lemma ffs_all: "ffs (ucast (- 1 :: 64 word)) = 1"
  by code_simp

lemma ex_reachable:
  assumes "64 \<le> limit"
  shows "\<exists>s. init_fileinfo ex_host limit 0 s0 = Inr ((), s) \<and> fd_reachable limit s"
proof -
  have "\<exists>s. init_fileinfo ex_host limit 0 s0 = Inr ((), s)"
    using assms by (simp add: init_fileinfo_def init_fds_closed ex_host_def mark_fd_def set_fdbit_def clear_fdbit_def
      fdbit_index_def alloc_file_def file_index_def vkern_dup_fd_def find_emptyfd_def
      alloc_fdtable_def empty_fdtable_def div_ceil_def Let_def ffs_all)
  then show ?thesis using fd_reachable.start [OF assms, of ex_host 0 s0] by (auto simp: host_ok_def ex_host_def)
qed

theorem fd_tables_safe_witness:
  "\<exists>s. fd_reachable 256 s \<and> files_ok (k_files s) \<and> (\<exists>x s'. run_request ex_host (R_dup2 0 1) s = Inr (x, s') \<and> files_ok (k_files s'))"
proof -
  obtain s where s: "fd_reachable 256 s" using ex_reachable [of 256] by auto
  have "host_ok ex_host" by (simp add: host_ok_def ex_host_def)
  from fd_tables_safe [OF s this, of "R_dup2 0 1"] s show ?thesis
    by (cases "run_request ex_host (R_dup2 0 1) s") auto
qed

section \<open>Close on exec\<close>

text \<open>
  C29: \<open>close_cloexec\<close> returns, closes on the host exactly the descriptors marked close-on-exec, each
  once and in increasing order, between taking and releasing the lock for writing, removes exactly
  those from the guest's table, whatever the host answers, and changes nothing else.
\<close>

theorem close_cloexec_exact:
  assumes "files_ok (k_files s)"
  shows "\<exists>s'. close_cloexec h s = Inr ((), s') \<and> files_ok (k_files s') \<and> k_user s' = k_user s \<and>
    fi_vkern (k_files s') = fi_vkern (k_files s) \<and> fi_rootfd (k_files s') = fi_rootfd (k_files s) \<and>
    user_view (k_files s') = (\<lambda>fd. if user_view (k_files s) fd = Some True then None else user_view (k_files s) fd) \<and>
    k_trace s' = k_trace s @ [Wrlock] @ map (\<lambda>n. Call (Fd (Close (int n))))
      (filter (\<lambda>n. user_view (k_files s) (int n) = Some True) [0..<nat (ft_size (fi_fdtable (k_files s)))]) @ [Unlock]"
  using close_cloexec_ok [OF assms, of h] by (auto simp: same_but_user_def)

text \<open>Two descriptors, 0 and 1; the second is closed on \<open>exec\<close>.\<close>

definition ex_table :: fdtable where
  "ex_table = \<lparr>ft_start = 0, ft_size = 64,
     ft_files = [map (\<lambda>n. \<lparr>fl_ops = True, fl_fd = int n\<rparr>) [0..<64]], ft_open = [3], ft_cloexec = [2]\<rparr>"

definition ex_files :: fileinfo where
  "ex_files = \<lparr>fi_rootfd = 192, fi_fdtable = ex_table, fi_vkern = ex_table\<lparr>ft_start := 192, ft_open := [0], ft_cloexec := [0]\<rparr>\<rparr>"

definition ex_kern :: kern where
  "ex_kern = \<lparr>k_files = ex_files, k_user = undefined, k_trace = []\<rparr>"

lemma fdbit_ex:
  "fdbit [2] n \<longleftrightarrow> n = 1" "fdbit [3] n \<longleftrightarrow> n = 0 \<or> n = 1" "\<not> fdbit [0] n"
proof -
  have "fdbit [w] n \<longleftrightarrow> n < 64 \<and> bit w n" for w by (auto simp: fdbit_def)
  then show "fdbit [2] n \<longleftrightarrow> n = 1" "fdbit [3] n \<longleftrightarrow> n = 0 \<or> n = 1" "\<not> fdbit [0] n"
    by (cases n; auto simp: bit_Suc bit_1_iff)+
qed

lemma ex_files_ok: "files_ok ex_files"
  by (auto simp: files_ok_def ex_files_def ex_table_def table_ok_def fdbit_ex)

lemma ex_view: "user_view ex_files = (\<lambda>fd. if fd = 0 then Some False else if fd = 1 then Some True else None)"
  by (rule ext) (auto simp: ex_files_def ex_table_def fd_view_def fdbit_ex)

theorem close_cloexec_exact_witness:
  "\<exists>s'. close_cloexec ex_host ex_kern = Inr ((), s') \<and> user_view (k_files s') 1 = None \<and> user_view (k_files s') 0 = Some False"
  using close_cloexec_exact [of ex_kern ex_host] by (auto simp: ex_kern_def ex_files_ok ex_view)

section \<open>dup2\<close>

lemma register_or_close_ok:
  assumes "files_ok (k_files s)" "h_alloc h = (\<lambda>_. True)" "in_userfd (k_files s) r"
  shows "\<exists>s'. register_or_close h r c s = Inr (r, s') \<and> files_ok (k_files s') \<and>
    user_view (k_files s') = (user_view (k_files s))(r := Some c) \<and> fi_vkern (k_files s') = fi_vkern (k_files s) \<and>
    k_trace s' = k_trace s"
proof -
  obtain t where "register_fd (h_alloc h) r c (k_files s) = Inr (0, (k_files s)\<lparr>fi_fdtable := t\<rparr>)" "table_ok t"
    "ft_start t = 0" "fd_view t = (user_view (k_files s))(r := Some c)"
    using register_fd_ok [OF assms] by blast
  then show ?thesis using assms by (auto simp: register_or_close_def act_register_def in_userfd_def files_ok_def)
qed

text \<open>
  C25: \<open>dup2\<close> on the view of the table: with either argument outside of the guest's range it is
  \<open>EBADF\<close> and neither the host nor the table is touched; when the host refuses, its error is
  returned and the table stays; when the host answers with the second descriptor, as it
  does on success, that descriptor is open without close-on-exec and every other entry is as before.
\<close>

theorem dup2_refines:
  assumes "files_ok (k_files s)" "h_alloc h = (\<lambda>_. True)"
    and host: "fst (answer h (Fd (Dup2 fd1 fd2))) = fd2 \<or>
      fst (answer h (Fd (Dup2 fd1 fd2))) = - 1 \<and> snd (answer h (Fd (Dup2 fd1 fd2))) \<in> set (host_consts LINUX_ERRNO)"
  shows "\<exists>r s'. sys_dup2 h fd1 fd2 s = Inr (r, s') \<and> files_ok (k_files s') \<and> fi_vkern (k_files s') = fi_vkern (k_files s) \<and>
    (if \<not> (in_userfd (k_files s) fd1 \<and> in_userfd (k_files s) fd2) then r = - LINUX_EBADF \<and> s' = s
     else k_trace s' = k_trace s @ [Wrlock, Call (Fd (Dup2 fd1 fd2)), Unlock] \<and>
       (if fst (answer h (Fd (Dup2 fd1 fd2))) < 0 then r < 0 \<and> k_files s' = k_files s
        else r = fd2 \<and> user_view (k_files s') = (user_view (k_files s))(fd2 := Some False)))"
proof (cases "in_userfd (k_files s) fd1 \<and> in_userfd (k_files s) fd2")
  case False
  then show ?thesis using assms by (auto simp: sys_dup2_def)
next
  case True
  let ?c = "Fd (Dup2 fd1 fd2)"
  let ?s = "s\<lparr>k_trace := k_trace s @ [Wrlock, Call ?c]\<rparr>"
  show ?thesis
  proof (cases "fst (answer h ?c) < 0")
    case neg: True
    then have "syswrap (fst (answer h ?c)) (snd (answer h ?c)) < 0" using host syswrap_error [of "snd (answer h ?c)" "- 1"] True by (auto simp: in_userfd_def)
    then show ?thesis using True neg assms by (auto simp: sys_dup2_def locked_def register_or_close_def)
  next
    case pos: False
    then have "syswrap (fst (answer h ?c)) (snd (answer h ?c)) = fd2" using host by (simp add: syswrap_def)
    then show ?thesis using True pos assms(1,2) register_or_close_ok [of ?s h fd2 False]
      by (fastforce simp: sys_dup2_def locked_def)
  qed
qed

theorem dup2_refines_witness:
  "\<exists>r s'. sys_dup2 (ex_host\<lparr>answer := \<lambda>_. (7, 0)\<rparr>) 0 7 ex_kern = Inr (r, s') \<and> r = 7 \<and> user_view (k_files s') 7 = Some False"
  using dup2_refines [of ex_kern "ex_host\<lparr>answer := \<lambda>_. (7, 0)\<rparr>" 0 7]
  by (auto simp: ex_kern_def ex_files_ok ex_host_def in_userfd_def) (auto simp: ex_files_def)

section \<open>The lock\<close>

text \<open>
  The state of \<open>fdtable_lock\<close> as the calling thread sees it.  \<open>lock_run\<close> has no value when a
  thread takes the lock it holds, which POSIX leaves undefined, or releases it when it has not
  taken it.
\<close>

datatype lock = Unheld | Shared | Exclusive

fun lock_step :: "lock \<Rightarrow> event \<Rightarrow> lock option" where
  "lock_step l (Call c) = Some l"
| "lock_step Unheld Rdlock = Some Shared"
| "lock_step Unheld Wrlock = Some Exclusive"
| "lock_step Shared Unlock = Some Unheld"
| "lock_step Exclusive Unlock = Some Unheld"
| "lock_step _ _ = None"

fun lock_run :: "lock \<Rightarrow> event list \<Rightarrow> lock option" where
  "lock_run l [] = Some l"
| "lock_run l (e # es) = Option.bind (lock_step l e) (\<lambda>l'. lock_run l' es)"

lemma lock_run_append: "lock_run l (xs @ ys) = Option.bind (lock_run l xs) (\<lambda>l'. lock_run l' ys)"
  by (induction l xs rule: lock_run.induct) (auto split: bind_split)

definition lock_moves :: "lock \<Rightarrow> lock \<Rightarrow> 'a act \<Rightarrow> bool" where
  "lock_moves l l' m \<longleftrightarrow> (\<forall>s x s'. m s = Inr (x, s') \<longrightarrow> (\<exists>es. k_trace s' = k_trace s @ es \<and> lock_run l es = Some l'))"

named_theorems lock_rules "rules of the lock discipline"

lemma lock_movesD: "lock_moves l l' m \<Longrightarrow> m s = Inr (x, s') \<Longrightarrow> \<exists>es. k_trace s' = k_trace s @ es \<and> lock_run l es = Some l'"
  by (simp add: lock_moves_def)

lemma lock_seq: 
  assumes "lock_moves l k m" "\<And>x. lock_moves k l' (f x)"
  shows "lock_moves l l' (act_bind m f)"
proof (unfold lock_moves_def, intro allI impI)
  fix s y s'
  assume run: "act_bind m f s = Inr (y, s')"
  then obtain x s1 where s1: "m s = Inr (x, s1)" "f x s1 = Inr (y, s')" by (cases "m s") auto
  obtain es where "k_trace s1 = k_trace s @ es" "lock_run l es = Some k" using lock_movesD [OF assms(1) s1(1)] by blast
  moreover obtain es' where "k_trace s' = k_trace s1 @ es'" "lock_run k es' = Some l'" using lock_movesD [OF assms(2) s1(2)] by blast
  ultimately show "\<exists>es. k_trace s' = k_trace s @ es \<and> lock_run l es = Some l'" by (auto simp: lock_run_append)
qed

lemma lock_bind [lock_rules]: "lock_moves l l m \<Longrightarrow> (\<And>x. lock_moves l l (f x)) \<Longrightarrow> lock_moves l l (act_bind m f)"
  by (rule lock_seq)

lemma lock_quiet:
  "(\<And>s x s'. m s = Inr (x, s') \<Longrightarrow> k_trace s' = k_trace s) \<Longrightarrow> lock_moves l l m"
  by (auto simp: lock_moves_def)

lemma lock_basic [lock_rules]:
  "lock_moves l l (act_ret x)" "lock_moves l l (look f)" "lock_moves l l (with_files g)"
  "lock_moves l l (fetch a n)" "lock_moves l l (store a bs)" "lock_moves l l (act_register h fd c)"
  by (rule lock_quiet; auto simp: fetch_def store_def act_register_def bind_run_def split: prod.splits sum.splits)+

lemma lock_crash [lock_rules]: "lock_moves l l' (\<lambda>s. Inl e)"
  by (simp add: lock_moves_def)

lemma lock_emit: "lock_step l e = Some l' \<Longrightarrow> lock_moves l l' (emit e)"
  by (simp add: lock_moves_def)

lemma lock_call [lock_rules]: "lock_moves l l (raw_call h c)" "lock_moves l l (wrap_call h c)"
  unfolding raw_call_def wrap_call_def by (rule lock_seq [OF lock_emit lock_basic(1)]; simp)+

lemma lock_locked:
  assumes "lock_step Unheld e = Some l" "lock_step l Unlock = Some Unheld" "lock_moves l l m"
  shows "lock_moves Unheld Unheld (locked e m)"
  unfolding locked_def
  by (rule lock_seq [OF lock_emit [OF assms(1)] lock_seq [OF assms(3) lock_seq [OF lock_emit [OF assms(2)] lock_basic(1)]]])

lemma lock_wrlock [lock_rules]: "lock_moves Exclusive Exclusive m \<Longrightarrow> lock_moves Unheld Unheld (locked Wrlock m)"
  by (rule lock_locked [of _ Exclusive]) simp_all

lemma lock_rdlock [lock_rules]: "lock_moves Shared Shared m \<Longrightarrow> lock_moves Unheld Unheld (locked Rdlock m)"
  by (rule lock_locked [of _ Shared]) simp_all

lemma lock_if [lock_rules]: "lock_moves l l m \<Longrightarrow> lock_moves l l m' \<Longrightarrow> lock_moves l l (if b then m else m')"
  by simp

lemma lock_option [lock_rules]:
  "lock_moves l l m \<Longrightarrow> (\<And>x. lock_moves l l (f x)) \<Longrightarrow> lock_moves l l (case p of None \<Rightarrow> m | Some x \<Rightarrow> f x)"
  by (cases p) auto

lemma lock_get_file [lock_rules]: "lock_moves Unheld Unheld (get_file fd)"
  unfolding get_file_def by (intro lock_rules)

lemma lock_register_or_close [lock_rules]: "lock_moves l l (register_or_close h r c)"
  unfolding register_or_close_def by (intro lock_rules)

lemma lock_do_close [lock_rules]: "lock_moves l l (do_close h get put fd)"
  unfolding do_close_def darwinfs_close_def by (intro lock_rules)

lemma lock_close_cloexec [lock_rules]: "lock_moves Unheld Unheld (close_cloexec h)"
proof -
  have bits: "lock_moves l l (close_cloexec_bits h i js)" for l i js
    by (induction js) (simp_all only: close_cloexec_bits.simps, (intro lock_rules; assumption?)+)
  have "lock_moves l l (close_cloexec_words h is)" for l "is"
    by (induction "is") (simp_all only: close_cloexec_words.simps, (intro lock_rules bits; assumption?)+)
  then show ?thesis unfolding close_cloexec_def by (intro lock_rules)
qed

lemma lock_pipe2 [lock_rules]:
  "lock_moves l l (pipe2_set h fds c cmd arg)" "lock_moves l l (close_by_fail h fds errs)"
  "lock_moves l l m \<Longrightarrow> lock_moves l l k \<Longrightarrow> lock_moves l l (or_fail h fds m k)"
  unfolding pipe2_set_def close_by_fail_def or_fail_def by (intro lock_rules; assumption?)+

lemma lock_with_file [lock_rules]: "(\<And>f. lock_moves Unheld Unheld (op f)) \<Longrightarrow> lock_moves Unheld Unheld (with_file fd op)"
  unfolding with_file_def by (intro lock_rules)

lemma lock_fcntl [lock_rules]: "lock_moves Unheld Unheld (darwinfs_fcntl h f cmd arg)"
  unfolding darwinfs_fcntl_def cloexec_bit_def Let_def by (intro lock_rules)

text \<open>
  C30: Every system call on descriptors but \<open>dup\<close> takes the lock of the table only when it does not
  hold it, releases only what it took, and returns without holding it, on all of its paths.
\<close>

theorem fd_lock_discipline:
  assumes "run_request h r s = Inr (x, s')" "\<nexists>fd. r = R_dup fd"
  shows "\<exists>es. k_trace s' = k_trace s @ es \<and> lock_run Unheld es = Some Unheld"
proof -
  have "lock_moves Unheld Unheld (run_request h r)"
    using assms(2) by (cases r; simp only: run_request.simps sys_close_def user_close_def sys_fcntl_def sys_dup2_def
      sys_dup3_def sys_pipe_def sys_pipe2_def Let_def fd_request.inject; (intro lock_rules)?) auto
  then show ?thesis using assms(1) by (rule lock_movesD)
qed

theorem fd_lock_discipline_witness:
  "\<exists>s' es. sys_dup2 (ex_host\<lparr>answer := \<lambda>_. (- 1, 9)\<rparr>) 0 7 ex_kern = Inr (- 9, s') \<and> k_trace s' = es \<and>
     length es = 3 \<and> lock_run Unheld es = Some Unheld"
proof -
  let ?h = "ex_host\<lparr>answer := \<lambda>_. (- 1, 9)\<rparr>"
  have e: "syswrap (- 1) 9 = - 9" unfolding syswrap_def darwin_to_linux_errno_def LINUX_ERRNO_def by code_simp
  have run: "run_request ?h (R_dup2 0 7) ex_kern = Inr (- 9, ex_kern\<lparr>k_trace := [Wrlock, Call (Fd (Dup2 0 7)), Unlock]\<rparr>)"
    by (simp add: sys_dup2_def ex_kern_def ex_files_def in_userfd_def locked_def register_or_close_def e)
  show ?thesis using fd_lock_discipline [OF run] run by (auto simp: ex_kern_def)
qed

text \<open>The events of an action come after those before it; the first of them where it is known.\<close>

definition adds :: "event list \<Rightarrow> 'a act \<Rightarrow> bool" where
  "adds first m \<longleftrightarrow> (\<forall>s x s'. m s = Inr (x, s') \<longrightarrow> (\<exists>es. k_trace s' = k_trace s @ first @ es))"

lemma adds_lock: "lock_moves l l' m \<Longrightarrow> adds [] m"
  by (fastforce simp: adds_def lock_moves_def)

lemma adds_bind: "adds es m \<Longrightarrow> (\<And>x. adds es' (f x)) \<Longrightarrow> adds es (act_bind m f)"
  unfolding adds_def by (fastforce simp: bind_run_def split: sum.splits)

lemma adds_then: "(\<And>x. adds es (f x)) \<Longrightarrow> adds (e # es) (act_bind (emit e) f)"
  unfolding adds_def by fastforce

lemma adds_locked: "adds es m \<Longrightarrow> adds (l # es) (locked l m)"
  unfolding locked_def by (intro adds_then adds_bind [of es m "[Unlock]"]) (auto simp: adds_def)

text \<open>
  \<open>dup\<close> takes the lock for writing and then, through \<open>fcntl\<close> and \<open>get_file\<close>, again for
  reading while it holds it, on every path.
\<close>

theorem dup_relocks:
  assumes "sys_dup h fd s = Inr (x, s')"
  shows "\<exists>es. k_trace s' = k_trace s @ Wrlock # Rdlock # es \<and> lock_run Unheld (Wrlock # Rdlock # es) = None"
proof -
  have "adds [Rdlock] (get_file fd)" unfolding get_file_def by (rule adds_locked [OF adds_lock [OF lock_basic(2)]])
  moreover have "adds [] (case f of None \<Rightarrow> act_ret (- LINUX_EBADF)
      | Some f \<Rightarrow> if fl_ops f then darwinfs_fcntl h f LINUX_F_DUPFD 0 else (\<lambda>s. Inl Null_deref))" for f
    by (rule adds_lock [of Unheld Unheld]) (intro lock_rules)
  ultimately have "adds [Rdlock] (sys_fcntl h fd LINUX_F_DUPFD 0)" unfolding sys_fcntl_def with_file_def by (rule adds_bind)
  then have "adds [Wrlock, Rdlock] (sys_dup h fd)"
    unfolding sys_dup_def by (intro adds_locked adds_bind [OF _ adds_lock [OF lock_register_or_close]])
  then show ?thesis using assms by (auto simp: adds_def)
qed

theorem dup_relocks_witness:
  "\<exists>x s'. sys_dup ex_host 40 ex_kern = Inr (x, s') \<and> lock_run Unheld (k_trace s') = None"
proof -
  have "\<exists>x s'. sys_dup ex_host 40 ex_kern = Inr (x, s')"
    by (simp add: sys_dup_def sys_fcntl_def with_file_def locked_def register_or_close_def get_file_ok ex_kern_def ex_files_ok ex_view)
  then show ?thesis using dup_relocks [of ex_host 40 ex_kern] by (fastforce simp: ex_kern_def)
qed

section \<open>The kernel's descriptors\<close>

text \<open>
  \<open>dup3\<close> checks neither descriptor against the range of the guest, as \<open>dup2\<close> does: a new
  descriptor in the kernel's range, the root directory's among them, is replaced on the host, the
  registration then fails with \<open>EMFILE\<close>, and the kernel's descriptor is closed while its table
  still holds it open.
\<close>

theorem dup3_destroys_kernel_fd:
  assumes "ft_start (fi_vkern (k_files s)) \<le> newfd" "0 \<le> newfd" "oldfd \<noteq> newfd"
    and host: "fst (answer h (Fd (Dup2 oldfd newfd))) = newfd"
  shows "sys_dup3 h oldfd newfd 0 s = Inr (- LINUX_EMFILE, s\<lparr>k_trace := k_trace s @
    [Wrlock, Call (Fd (Dup2 oldfd newfd)), Call (Fd (Close newfd)), Unlock]\<rparr>)"
  using assms by (simp add: sys_dup3_def locked_def register_or_close_def act_register_def register_fd_full)

theorem dup3_destroys_kernel_fd_witness:
  "fi_rootfd (k_files ex_kern) = 192 \<and>
   sys_dup3 (ex_host\<lparr>answer := \<lambda>_. (192, 0)\<rparr>) 0 192 0 ex_kern =
     Inr (- 24, ex_kern\<lparr>k_trace := [Wrlock, Call (Fd (Dup2 0 192)), Call (Fd (Close 192)), Unlock]\<rparr>)"
  using dup3_destroys_kernel_fd [of ex_kern 192 0 "ex_host\<lparr>answer := \<lambda>_. (192, 0)\<rparr>"]
  by (simp add: ex_kern_def ex_files_def)

lemma ffs_none: "\<forall>n < 32. \<not> bit w n \<Longrightarrow> ffs w = 0"
proof -
  assume "\<forall>n < 32. \<not> bit w n"
  then have "find (bit w) [0..<32] = None" by (simp add: find_None_iff)
  then show ?thesis by (simp add: ffs_def)
qed

text \<open>
  The search for a free kernel descriptor reads only the low half of the word: with the 32
  descriptors of that half open, the next use of a kernel descriptor panics although the table
  has room for 64.
\<close>

theorem vkern_table_half:
  assumes "ft_size (fi_vkern (k_files s)) = 64" "ft_open (fi_vkern (k_files s)) = [w]" "\<forall>n < 32. bit w n"
  shows "vkern_dup_fd h fd c s = Inl Panicked"
proof -
  have "ffs (ucast (NOT w)) = 0" using assms(3) by (intro ffs_none) (simp add: bit_simps)
  then show ?thesis using assms(1,2) by (simp add: vkern_dup_fd_def find_emptyfd_def)
qed

theorem vkern_table_half_witness:
  "vkern_dup_fd ex_host 0 False (ex_kern\<lparr>k_files := ex_files\<lparr>fi_vkern := (fi_vkern ex_files)\<lparr>ft_open := [0xFFFFFFFF]\<rparr>\<rparr>\<rparr>) =
    Inl Panicked"
proof -
  have "\<forall>n < 32. bit (0xFFFFFFFF :: 64 word) n" by code_simp
  then show ?thesis
    using vkern_table_half [of "ex_kern\<lparr>k_files := ex_files\<lparr>fi_vkern := (fi_vkern ex_files)\<lparr>ft_open := [0xFFFFFFFF]\<rparr>\<rparr>\<rparr>"]
    by (simp add: ex_files_def ex_table_def)
qed

end
