(* ===== verification/VfsProps.thy ===== *)
theory VfsProps
  imports TtyPoll FdProps
begin

text \<open>
  Properties of paths and of file access: the resolution of a path stops whatever links the host
  has, what it yields, opening as an update of the table, \<open>readv\<close> against its specification, and
  the descriptors that reach the host.
\<close>

section \<open>Resolution\<close>

text \<open>
  What \<open>readlinkat\<close> documents: it fails with a known error number, or it returns the length of the
  contents, which have no zero byte and of which at most the size of the buffer is written.
\<close>

definition links_ok :: "host \<Rightarrow> bool" where
  "links_ok h \<longleftrightarrow> (\<forall>fd sub. let c = Path (Readlinkat fd sub 4096) in
    fst (answer h c) = - 1 \<and> snd (answer h c) \<in> set (host_consts LINUX_ERRNO) \<or>
    0 < fst (answer h c) \<and> fst (answer h c) \<le> 4096 \<and> length (out_bytes h c) = nat (fst (answer h c)) \<and>
      0 \<notin> set (out_bytes h c))"

definition quiet_calls :: "kern \<Rightarrow> kern \<Rightarrow> nat \<Rightarrow> bool" where
  "quiet_calls s s' n \<longleftrightarrow> (\<exists>es. s' = s\<lparr>k_trace := k_trace s @ es\<rparr> \<and> length es \<le> n)"

lemma quiet_refl [simp]: "quiet_calls s s n"
  unfolding quiet_calls_def by (rule exI [of _ "[]"]) simp

lemma quiet_call [simp]: "0 < n \<Longrightarrow> quiet_calls s (s\<lparr>k_trace := k_trace s @ [e]\<rparr>) n"
  unfolding quiet_calls_def by (rule exI [of _ "[e]"]) simp

lemma quiet_trans: "quiet_calls s s1 m \<Longrightarrow> quiet_calls s1 s2 n \<Longrightarrow> m + n \<le> k \<Longrightarrow> quiet_calls s s2 k"
proof -
  assume "quiet_calls s s1 m" "quiet_calls s1 s2 n" "m + n \<le> k"
  then obtain es es' where "s1 = s\<lparr>k_trace := k_trace s @ es\<rparr>" "length es \<le> m"
    "s2 = s1\<lparr>k_trace := k_trace s1 @ es'\<rparr>" "length es' \<le> n" by (auto simp: quiet_calls_def)
  then show ?thesis using \<open>m + n \<le> k\<close> unfolding quiet_calls_def by (intro exI [of _ "es @ es'"]) simp
qed

lemma wide_answer:
  assumes "links_ok h"
  obtains (bad) n where "wide_call h (Path (Readlinkat fd sub 4096)) =
      (\<lambda>s. Inr (n, s\<lparr>k_trace := k_trace s @ [Call (Path (Readlinkat fd sub 4096))]\<rparr>))" "n < 0"
  | (good) n where "wide_call h (Path (Readlinkat fd sub 4096)) =
      (\<lambda>s. Inr (n, s\<lparr>k_trace := k_trace s @ [Call (Path (Readlinkat fd sub 4096))]\<rparr>))" "0 < n" "n \<le> 4096"
      "length (out_bytes h (Path (Readlinkat fd sub 4096))) = nat n" "0 \<notin> set (out_bytes h (Path (Readlinkat fd sub 4096)))"
proof -
  let ?c = "Path (Readlinkat fd sub 4096)"
  have run: "wide_call h ?c = (\<lambda>s. Inr (syswrap (to_cint (fst (answer h ?c))) (snd (answer h ?c)),
      s\<lparr>k_trace := k_trace s @ [Call ?c]\<rparr>))"
    by (simp add: wide_call_def fun_eq_iff)
  have "to_cint (fst (answer h ?c)) = fst (answer h ?c)"
    using assms by (intro to_cint_id) (auto simp: links_ok_def Let_def dest!: spec [of _ fd] spec [of _ sub])
  moreover have "fst (answer h ?c) = - 1 \<and> snd (answer h ?c) \<in> set (host_consts LINUX_ERRNO) \<or>
      0 < fst (answer h ?c) \<and> fst (answer h ?c) \<le> 4096 \<and> length (out_bytes h ?c) = nat (fst (answer h ?c)) \<and> 0 \<notin> set (out_bytes h ?c)"
    using assms by (simp add: links_ok_def Let_def)
  ultimately show ?thesis using run bad good syswrap_error [of "snd (answer h ?c)" "- 1"] by auto
qed

text \<open>A link that fits yields a name that fits.\<close>

lemma follow_link_ok:
  assumes "0 < n" "length link = n" "0 \<notin> set link"
  shows "follow_link link n sub rest = Inl Out_of_bounds \<or>
    (\<exists>name. follow_link link n sub rest = Inr (Linked name) \<and> name \<noteq> [] \<and> length name < 4096)"
proof -
  let ?buf = "takeWhile (\<lambda>b. b \<noteq> 0) (take n link @ rest)"
  have "?buf \<noteq> []" using assms by (cases link) auto
  moreover have "length ?buf \<le> n + length rest" using length_takeWhile_le [of "\<lambda>b. b \<noteq> 0" "take n link @ rest"] assms by simp
  ultimately show ?thesis by (auto simp: follow_link_def Let_def)
qed

declare walk_path.simps [simp del] resolve_path.simps [simp del]

text \<open>One pass of the loop over the components.\<close>

lemma walk_path_step:
  assumes "c \<noteq> []" "length sub + length c < 4096"
  obtains comp rest where "c = comp @ rest" "rest = [] \<or> take 1 rest = [SLASH]" "SLASH \<notin> set comp"
    "walk_path h fd flgs sub c =
      act_bind (if flgs AND 1 = 0 then wide_call h (Path (Readlinkat fd (sub @ comp) 4096)) else act_ret 0)
        (\<lambda>n. if 0 < n then look (\<lambda>_. follow_link (out_bytes h (Path (Readlinkat fd (sub @ comp) 4096))) (nat n) (sub @ comp) rest)
          else if rest = [] then act_ret (Walked (sub @ comp)) else walk_path h fd flgs (sub @ comp @ [SLASH]) (tl rest))"
proof -
  define comp where "comp = takeWhile (\<lambda>b. b \<noteq> SLASH) c"
  define rest where "rest = dropWhile (\<lambda>b. b \<noteq> SLASH) c"
  have c: "c = comp @ rest" by (simp add: comp_def rest_def)
  have slash: "rest = [] \<or> take 1 rest = [SLASH]"
    unfolding rest_def by (induction c) auto
  have short: "\<not> 4096 \<le> length sub + length comp" "rest \<noteq> [] \<Longrightarrow> \<not> 4095 \<le> length sub + length comp"
    using assms(2) c by (auto simp: Suc_le_eq [symmetric] neq_Nil_conv)
  have comp: "SLASH \<notin> set comp" using set_takeWhileD [of SLASH "\<lambda>b. b \<noteq> SLASH" c] by (auto simp: comp_def)
  have "walk_path h fd flgs sub c =
      act_bind (if flgs AND 1 = 0 then wide_call h (Path (Readlinkat fd (sub @ comp) 4096)) else act_ret 0)
        (\<lambda>n. if 0 < n then look (\<lambda>_. follow_link (out_bytes h (Path (Readlinkat fd (sub @ comp) 4096))) (nat n) (sub @ comp) rest)
          else if rest = [] then act_ret (Walked (sub @ comp)) else walk_path h fd flgs (sub @ comp @ [SLASH]) (tl rest))"
    using assms(1) short
    by (subst walk_path.simps)
      (simp add: Let_def comp_def [symmetric] rest_def [symmetric] darwinfs_readlinkat_def del: act_simps
        cong: if_cong split del: if_split)
  then show ?thesis by (rule that [OF c slash comp])
qed

definition walk_good :: "path \<Rightarrow> nat \<Rightarrow> kern \<Rightarrow> (walk \<times> kern) run \<Rightarrow> bool" where
  "walk_good full n s R \<longleftrightarrow> R = Inl Out_of_bounds \<or>
    (\<exists>w s'. R = Inr (w, s') \<and> quiet_calls s s' n \<and> (w = Walked full \<or> (\<exists>name. w = Linked name \<and> name \<noteq> [] \<and> length name < 4096)))"

lemma walk_good_after: "walk_good full m s1 R \<Longrightarrow> quiet_calls s s1 k \<Longrightarrow> k + m \<le> n \<Longrightarrow> walk_good full n s R"
  unfolding walk_good_def by (blast intro: quiet_trans)

lemma walk_path_ok:
  assumes "links_ok h" "length sub + length c < 4096"
  shows "walk_good (sub @ c) (length c) s (walk_path h fd flgs sub c s)"
  using assms(2)
proof (induction c arbitrary: sub s rule: length_induct)
  case (1 c)
  show ?case
  proof (cases "c = []")
    case True
    then show ?thesis by (simp add: walk_path.simps walk_good_def)
  next
    case False
    then obtain comp rest where c: "c = comp @ rest" "rest = [] \<or> take 1 rest = [SLASH]"
      and run: "walk_path h fd flgs sub c =
        act_bind (if flgs AND 1 = 0 then wide_call h (Path (Readlinkat fd (sub @ comp) 4096)) else act_ret 0)
        (\<lambda>n. if 0 < n then look (\<lambda>_. follow_link (out_bytes h (Path (Readlinkat fd (sub @ comp) 4096))) (nat n) (sub @ comp) rest)
          else if rest = [] then act_ret (Walked (sub @ comp)) else walk_path h fd flgs (sub @ comp @ [SLASH]) (tl rest))"
      using walk_path_step [OF False 1(2), of h fd flgs] by blast
    let ?k = "Path (Readlinkat fd (sub @ comp) 4096)"
    let ?m = "\<lambda>s1. (if rest = [] then act_ret (Walked (sub @ comp)) else walk_path h fd flgs (sub @ comp @ [SLASH]) (tl rest)) s1"
    have tail: "walk_good (sub @ c) (length c - 1) s1 (?m s1)" for s1
    proof (cases rest)
      case Nil
      then show ?thesis using c by (simp add: walk_good_def)
    next
      case (Cons x cs)
      then have x: "x = SLASH" using c(2) by simp
      have "length cs < length c" "length (sub @ comp @ [SLASH]) + length cs < 4096" using c(1) Cons 1(2) by simp_all
      then have "walk_good ((sub @ comp @ [SLASH]) @ cs) (length cs) s1 (walk_path h fd flgs (sub @ comp @ [SLASH]) cs s1)"
        using 1(1) by blast
      then show ?thesis using c(1) Cons x walk_good_after [of _ _ s1 _ s1 0 "length c - 1"] by simp
    qed
    show ?thesis
    proof (cases "flgs AND 1 = 0")
      case False
      then have "walk_path h fd flgs sub c s = ?m s" by (simp add: run)
      then show ?thesis using walk_good_after [OF tail [of s], of s 0 "length c"] by simp
    next
      case True
      let ?s = "s\<lparr>k_trace := k_trace s @ [Call ?k]\<rparr>"
      have q: "quiet_calls s ?s 1" by simp
      have len: "1 + (length c - 1) \<le> length c" using \<open>c \<noteq> []\<close> by (cases c) simp_all
      show ?thesis
      proof (cases rule: wide_answer [OF assms(1), of fd "sub @ comp"])
        case (1 n)
        then have "walk_path h fd flgs sub c s = ?m ?s" using True by (simp add: run)
        then show ?thesis using walk_good_after [OF tail [of ?s] q len] by simp
      next
        case (2 n)
        then have "walk_path h fd flgs sub c s = bind_run (follow_link (out_bytes h ?k) (nat n) (sub @ comp) rest) (\<lambda>x. Inr (x, ?s))"
          using True by (simp add: run)
        then show ?thesis using follow_link_ok [of "nat n" "out_bytes h ?k" "sub @ comp" rest] 2 \<open>c \<noteq> []\<close>
          by (auto simp: walk_good_def)
      qed
    qed
  qed
qed

text \<open>Where a name starts: the root of the guest for an absolute one, unless it is a path of the host.\<close>

definition rooted :: "path \<Rightarrow> bool" where
  "rooted name \<longleftrightarrow> take 1 name = [SLASH] \<and> \<not> host_path name"

definition start_dir :: "kern \<Rightarrow> int \<Rightarrow> path \<Rightarrow> int" where
  "start_dir s parent name = (if rooted name then fi_rootfd (k_files s) else parent)"

definition start_path :: "path \<Rightarrow> path" where
  "start_path name = (if rooted name then tl name else name)"

lemma start_path_ok:
  assumes "name \<noteq> []" "name \<noteq> [SLASH]"
  shows "start_path name \<noteq> []" "length (start_path name) \<le> length name"
  using assms by (cases name; cases "tl name"; auto simp: start_path_def rooted_def)+

lemma resolve_path_step:
  assumes "loop \<le> 20" "name \<noteq> []" "name \<noteq> [SLASH]"
  shows "resolve_path h parent name flgs loop s =
    act_bind (walk_path h (start_dir s parent name) flgs [] (start_path name)) (\<lambda>w. case w of
      Walked sub \<Rightarrow> act_ret (Inr \<lparr>p_dir = start_dir s parent name, p_sub = sub\<rparr>)
    | Linked name' \<Rightarrow> resolve_path h (start_dir s parent name) name' flgs (Suc loop)) s"
  using assms start_path_ok [OF assms(2,3)]
  by (subst resolve_path.simps) (simp add: Let_def start_dir_def start_path_def rooted_def cong: if_cong)

lemma resolve_path_ok:
  assumes "links_ok h"
  shows "name \<noteq> [] \<Longrightarrow> length name < 4096 \<Longrightarrow>
    resolve_path h parent name flgs loop s = Inl Out_of_bounds \<or>
    (\<exists>g s'. resolve_path h parent name flgs loop s = Inr (g, s') \<and> quiet_calls s s' ((21 - loop) * 4095))"
proof (induction "21 - loop" arbitrary: parent name loop s)
  case 0
  then show ?case by (subst resolve_path.simps) auto
next
  case (Suc k)
  then have loop: "loop \<le> 20" by simp
  show ?case
  proof (cases "name = [SLASH]")
    case True
    then show ?thesis using loop by (subst resolve_path.simps) simp
  next
    case False
    let ?fd = "start_dir s parent name" and ?c = "start_path name"
    note step = resolve_path_step [OF loop \<open>name \<noteq> []\<close> False, of h parent flgs s]
    have c: "length ?c \<le> 4095" using start_path_ok [OF \<open>name \<noteq> []\<close> False] Suc.prems by simp
    then have "walk_good ?c (length ?c) s (walk_path h ?fd flgs [] ?c s)" using walk_path_ok [OF assms, of "[]" ?c] by simp
    then consider (bad) "walk_path h ?fd flgs [] ?c s = Inl Out_of_bounds"
      | (full) s' where "walk_path h ?fd flgs [] ?c s = Inr (Walked ?c, s')" "quiet_calls s s' (length ?c)"
      | (link) name' s' where "walk_path h ?fd flgs [] ?c s = Inr (Linked name', s')" "quiet_calls s s' (length ?c)" "name' \<noteq> []" "length name' < 4096"
      unfolding walk_good_def by blast
    then show ?thesis
    proof cases
      case bad
      then show ?thesis by (simp add: step)
    next
      case full
      moreover have "length ?c + 0 \<le> (21 - loop) * 4095" using c Suc.hyps(2) by simp
      ultimately show ?thesis using quiet_trans [of s s' "length ?c" s' 0] by (simp add: step)
    next
      case link
      have "resolve_path h ?fd name' flgs (Suc loop) s' = Inl Out_of_bounds \<or>
        (\<exists>g s''. resolve_path h ?fd name' flgs (Suc loop) s' = Inr (g, s'') \<and> quiet_calls s' s'' ((21 - Suc loop) * 4095))"
        using Suc.hyps link(3,4) by (intro Suc.hyps(1)) auto
      moreover have "length ?c + (21 - Suc loop) * 4095 \<le> (21 - loop) * 4095"
        using c Suc.hyps(2) by (simp add: diff_mult_distrib)
      ultimately show ?thesis using link quiet_trans [OF link(2)] by (auto simp: step)
    qed
  qed
qed

text \<open>
  C33: The resolution of a path stops whatever links the host has: it returns after at most 21 times
  4095 calls of \<open>readlinkat\<close>, with an error number or a path, and has changed neither the tables nor
  the memory of the guest; or it leaves one of its buffers, into which it copies a link and the
  rest of the path without a check.
\<close>

theorem resolve_path_stops:
  assumes "links_ok h" "name \<noteq> []" "length name < 4096"
  shows "resolve_path h parent name flgs 0 s = Inl Out_of_bounds \<or>
    (\<exists>g es. resolve_path h parent name flgs 0 s = Inr (g, s\<lparr>k_trace := k_trace s @ es\<rparr>) \<and> length es \<le> 21 * 4095)"
  using resolve_path_ok [OF assms, of parent flgs 0 s] by (auto simp: quiet_calls_def)

text \<open>A host on which \<open>a\<close> is a link to itself and nothing else is a link.\<close>

definition loop_host :: host where
  "loop_host = ex_host\<lparr>answer := \<lambda>c. case c of Path (Readlinkat fd sub n) \<Rightarrow> if sub = [0x61] then (1, 0) else (- 1, 22) | _ \<Rightarrow> (3, 0),
     out_bytes := \<lambda>c. [0x61]\<rparr>"

lemma loop_links: "links_ok loop_host"
proof -
  have "22 \<in> set (host_consts LINUX_ERRNO)" unfolding LINUX_ERRNO_def by code_simp
  then show ?thesis by (auto simp: links_ok_def loop_host_def)
qed

theorem resolve_path_stops_witness:
  "resolve_path loop_host (- 2) [0x62] 0 0 ex_kern = Inl Out_of_bounds \<or>
   (\<exists>g es. resolve_path loop_host (- 2) [0x62] 0 0 ex_kern = Inr (g, ex_kern\<lparr>k_trace := k_trace ex_kern @ es\<rparr>) \<and> length es \<le> 21 * 4095)"
  using resolve_path_stops [OF loop_links, of "[0x62]" "- 2" 0 ex_kern] by simp

section \<open>What a name resolves to\<close>

lemma parent_prefix_plain: "SLASH \<notin> set sub \<Longrightarrow> parent_prefix sub = []"
  by (auto simp: parent_prefix_def dropWhile_eq_Nil_conv)

lemma walk_self_link:
  assumes "name \<noteq> []" "SLASH \<notin> set name" "0 \<notin> set name" "length name < 4096"
    and "fst (answer h (Path (Readlinkat fd name 4096))) = int (length name)" "out_bytes h (Path (Readlinkat fd name 4096)) = name"
  shows "walk_path h fd 0 [] name s = Inr (Linked name, s\<lparr>k_trace := k_trace s @ [Call (Path (Readlinkat fd name 4096))]\<rparr>)"
proof -
  have "length ([] :: path) + length name < 4096" using assms(4) by simp
  from walk_path_step [OF assms(1) this, of h fd 0]
  obtain comp rest where c: "name = comp @ rest" "rest = [] \<or> take 1 rest = [SLASH]" "SLASH \<notin> set comp"
    "walk_path h fd 0 [] name =
      act_bind (if (0 :: flags) AND 1 = 0 then wide_call h (Path (Readlinkat fd ([] @ comp) 4096)) else act_ret 0)
        (\<lambda>n. if 0 < n then look (\<lambda>_. follow_link (out_bytes h (Path (Readlinkat fd ([] @ comp) 4096))) (nat n) ([] @ comp) rest)
          else if rest = [] then act_ret (Walked ([] @ comp)) else walk_path h fd 0 ([] @ comp @ [SLASH]) (tl rest))"
    by blast
  have rest: "rest = []" using c(1,2) assms(2) by (cases rest) auto
  have all: "takeWhile (\<lambda>b. b \<noteq> 0) name = name" using assms(3) by (auto simp: takeWhile_eq_all_conv)
  have first: "take 1 name \<noteq> [SLASH]" using assms(1,2) by (cases name) auto
  have "follow_link name (length name) name [] = Inr (Linked name)"
    using first assms(2,4) by (simp add: follow_link_def Let_def parent_prefix_plain all del: takeWhile_eq_all_conv)
  moreover have "to_cint (int (length name)) = int (length name)" using assms(4) by (intro to_cint_id) auto
  ultimately show ?thesis using c(1,4) rest assms(1,5,6) by (simp add: wide_call_def)
qed

lemma resolve_self_link:
  assumes "name \<noteq> []" "SLASH \<notin> set name" "0 \<notin> set name" "length name < 4096"
    and "fst (answer h (Path (Readlinkat fd name 4096))) = int (length name)" "out_bytes h (Path (Readlinkat fd name 4096)) = name"
  shows "loop \<le> 21 \<Longrightarrow> resolve_path h fd name 0 loop s =
    Inr (Inl (- LINUX_ELOOP), s\<lparr>k_trace := k_trace s @ replicate (21 - loop) (Call (Path (Readlinkat fd name 4096)))\<rparr>)"
proof (induction "21 - loop" arbitrary: loop s)
  case 0
  then show ?case by (subst resolve_path.simps) simp
next
  case (Suc k)
  have plain: "\<not> rooted name" "name \<noteq> [SLASH]" using assms(1,2) by (cases name; auto simp: rooted_def)+
  have "resolve_path h fd name 0 loop s = resolve_path h fd name 0 (Suc loop) (s\<lparr>k_trace := k_trace s @ [Call (Path (Readlinkat fd name 4096))]\<rparr>)"
    using Suc.hyps(2) plain assms(1) walk_self_link [OF assms] by (simp add: resolve_path_step start_dir_def start_path_def)
  also have "\<dots> = Inr (Inl (- LINUX_ELOOP), s\<lparr>k_trace := k_trace s @ replicate (21 - loop) (Call (Path (Readlinkat fd name 4096)))\<rparr>)"
  proof -
    have "21 - loop = Suc (21 - Suc loop)" using Suc.hyps(2) by simp
    then show ?thesis using Suc.hyps by simp
  qed
  finally show ?case .
qed

text \<open>
  A link to itself does not hold up the guest: its resolution ends with \<open>ELOOP\<close>, after exactly
  21 reads of the link.
\<close>

theorem resolve_path_loop:
  assumes "name \<noteq> []" "SLASH \<notin> set name" "0 \<notin> set name" "length name < 4096"
    and "fst (answer h (Path (Readlinkat fd name 4096))) = int (length name)" "out_bytes h (Path (Readlinkat fd name 4096)) = name"
  shows "resolve_path h fd name 0 0 s =
    Inr (Inl (- LINUX_ELOOP), s\<lparr>k_trace := k_trace s @ replicate 21 (Call (Path (Readlinkat fd name 4096)))\<rparr>)"
  using resolve_self_link [OF assms, of 0] by simp

theorem resolve_path_loop_witness:
  "resolve_path loop_host (- 2) [0x61] 0 0 ex_kern =
    Inr (Inl (- 40), ex_kern\<lparr>k_trace := k_trace ex_kern @ replicate 21 (Call (Path (Readlinkat (- 2) [0x61] 4096)))\<rparr>)"
  by (rule resolve_path_loop) (simp_all add: loop_host_def)

lemma walk_nofollow:
  "flgs AND 1 \<noteq> 0 \<Longrightarrow> length sub + length c < 4096 \<Longrightarrow> walk_path h fd flgs sub c s = Inr (Walked (sub @ c), s)"
proof (induction c arbitrary: sub s rule: length_induct)
  case (1 c)
  show ?case
  proof (cases "c = []")
    case True
    then show ?thesis by (simp add: walk_path.simps)
  next
    case False
    then obtain comp rest where c: "c = comp @ rest" "rest = [] \<or> take 1 rest = [SLASH]"
      and run: "walk_path h fd flgs sub c = act_bind (if flgs AND 1 = 0 then wide_call h (Path (Readlinkat fd (sub @ comp) 4096)) else act_ret 0)
        (\<lambda>n. if 0 < n then look (\<lambda>_. follow_link (out_bytes h (Path (Readlinkat fd (sub @ comp) 4096))) (nat n) (sub @ comp) rest)
          else if rest = [] then act_ret (Walked (sub @ comp)) else walk_path h fd flgs (sub @ comp @ [SLASH]) (tl rest))"
      using walk_path_step [OF False 1(3), of h fd flgs] by blast
    show ?thesis
    proof (cases rest)
      case Nil
      then show ?thesis unfolding run using c 1(2) by simp
    next
      case (Cons x cs)
      then have "x = SLASH" using c(2) by simp
      moreover have "length cs < length c" "length (sub @ comp @ [SLASH]) + length cs < 4096" using c(1) Cons 1(3) by simp_all
      ultimately show ?thesis using 1(1) [rule_format, of cs "sub @ comp @ [SLASH]"] 1(2) c(1) Cons unfolding run by simp
    qed
  qed
qed

text \<open>
  Without following links a name resolves without a call of the host: an absolute name that is
  not a path of the host to the root directory and the name without its slash, any other name to
  the given directory and the name itself; the name \<open>/\<close> is the root directory.
\<close>

theorem resolve_nofollow:
  assumes "flgs AND LOOKUP_NOFOLLOW \<noteq> 0" "name \<noteq> []" "length name < 4096"
  shows "resolve_path h parent name flgs 0 s =
    Inr (Inr (if name = [SLASH] then \<lparr>p_dir = fi_rootfd (k_files s), p_sub = [DOT]\<rparr>
      else if take 1 name = [SLASH] \<and> \<not> host_path name then \<lparr>p_dir = fi_rootfd (k_files s), p_sub = tl name\<rparr>
      else \<lparr>p_dir = parent, p_sub = name\<rparr>), s)"
proof (cases "name = [SLASH]")
  case True
  then show ?thesis by (subst resolve_path.simps) simp
next
  case False
  have "length (start_path name) < 4096" using start_path_ok [OF assms(2) False] assms(3) by simp
  then show ?thesis using False walk_nofollow [OF assms(1), of "[]"] resolve_path_step [OF _ assms(2) False, of 0]
    by (simp add: start_dir_def start_path_def rooted_def)
qed

theorem resolve_nofollow_witness:
  "resolve_path loop_host (- 2) [0x2F, 0x65] 1 0 ex_kern = Inr (Inr \<lparr>p_dir = 192, p_sub = [0x65]\<rparr>, ex_kern)"
  using resolve_nofollow [of 1 "[0x2F, 0x65]" loop_host "- 2" ex_kern]
  by (simp add: host_path_def host_prefixes_def) (simp add: ex_kern_def ex_files_def)

text \<open>
  No part of a path up to one of its bytes is a symbolic link of the host: each \<open>readlinkat\<close> fails with a
  known error number.
\<close>

definition plain_path :: "host \<Rightarrow> int \<Rightarrow> path \<Rightarrow> bool" where
  "plain_path h fd p \<longleftrightarrow> (\<forall>n. let c = Path (Readlinkat fd (take n p) 4096) in
    fst (answer h c) = - 1 \<and> snd (answer h c) \<in> set (host_consts LINUX_ERRNO))"

lemma walk_plain:
  assumes "flgs AND 1 \<noteq> 0 \<or> plain_path h fd (sub @ c)" "length sub + length c < 4096"
  shows "\<exists>es. walk_path h fd flgs sub c s = Inr (Walked (sub @ c), s\<lparr>k_trace := k_trace s @ es\<rparr>)"
  using assms
proof (induction c arbitrary: sub s rule: length_induct)
  case (1 c)
  show ?case
  proof (cases "c = []")
    case True
    then show ?thesis by (simp add: walk_path.simps exI [of _ "[]"])
  next
    case False
    then obtain comp rest where c: "c = comp @ rest" "rest = [] \<or> take 1 rest = [SLASH]"
      and run: "walk_path h fd flgs sub c = act_bind (if flgs AND 1 = 0 then wide_call h (Path (Readlinkat fd (sub @ comp) 4096)) else act_ret 0)
        (\<lambda>n. if 0 < n then look (\<lambda>_. follow_link (out_bytes h (Path (Readlinkat fd (sub @ comp) 4096))) (nat n) (sub @ comp) rest)
          else if rest = [] then act_ret (Walked (sub @ comp)) else walk_path h fd flgs (sub @ comp @ [SLASH]) (tl rest))"
      using walk_path_step [OF False 1(3), of h fd flgs] by blast
    let ?k = "Path (Readlinkat fd (sub @ comp) 4096)"
    let ?m = "if rest = [] then act_ret (Walked (sub @ comp)) else walk_path h fd flgs (sub @ comp @ [SLASH]) (tl rest)"
    have "sub @ comp = take (length sub + length comp) (sub @ c)" using c(1) by simp
    then have "fst (answer h ?k) = - 1 \<and> snd (answer h ?k) \<in> set (host_consts LINUX_ERRNO)" if "flgs AND 1 = 0"
      using 1(2) that unfolding plain_path_def Let_def by metis
    then have bad: "syswrap (to_cint (fst (answer h ?k))) (snd (answer h ?k)) < 0" if "flgs AND 1 = 0"
      using that syswrap_error [of "snd (answer h ?k)" "- 1"] to_cint_id [of "- 1"] by simp
    have "\<exists>es. walk_path h fd flgs sub c s = ?m (s\<lparr>k_trace := k_trace s @ es\<rparr>)"
      using bad by (cases "flgs AND 1 = 0") (auto simp: run wide_call_def exI [of _ "[]"])
    then obtain es where es: "walk_path h fd flgs sub c s = ?m (s\<lparr>k_trace := k_trace s @ es\<rparr>)" by blast
    show ?thesis
    proof (cases rest)
      case Nil
      then show ?thesis unfolding es using c by auto
    next
      case (Cons x cs)
      then have "x = SLASH" using c(2) by simp
      moreover have "length cs < length c" "length (sub @ comp @ [SLASH]) + length cs < 4096" using c(1) Cons 1(3) by simp_all
      ultimately show ?thesis
        using 1(1) [rule_format, of cs "sub @ comp @ [SLASH]" "s\<lparr>k_trace := k_trace s @ es\<rparr>"] 1(2) c(1) Cons unfolding es by auto
    qed
  qed
qed

text \<open>
  C36: A name that starts with two slashes leaves the root of the guest.  Whether links are to be followed or
  not, and from whatever directory of the guest, when no part of the rest is a symbolic link of the host or
  links are not to be followed, it resolves to the root directory and a name that still is absolute, for
  which the host ignores the directory.
\<close>

theorem double_slash_escapes:
  assumes "length rest < 4094" "flgs AND NOT (LOOKUP_NOFOLLOW OR LOOKUP_DIRECTORY) = 0"
    and "dirfd = sint LINUX_AT_FDCWD \<or> in_userfd (k_files s) dirfd"
    and "flgs AND LOOKUP_NOFOLLOW \<noteq> 0 \<or> plain_path h (fi_rootfd (k_files s)) (SLASH # rest)"
  shows "\<exists>es. vfs_grab_dir h dirfd (SLASH # SLASH # rest) flgs s =
    Inr (Inr \<lparr>p_dir = fi_rootfd (k_files s), p_sub = SLASH # rest\<rparr>, s\<lparr>k_trace := k_trace s @ es\<rparr>)"
proof -
  let ?n = "SLASH # SLASH # rest"
  have n: "start_path ?n = SLASH # rest" "start_dir s d ?n = fi_rootfd (k_files s)" for d
    by (simp_all add: start_path_def start_dir_def rooted_def host_path_def host_prefixes_def)
  obtain es where "walk_path h (fi_rootfd (k_files s)) flgs [] (SLASH # rest) s = Inr (Walked (SLASH # rest), s\<lparr>k_trace := k_trace s @ es\<rparr>)"
    using walk_plain [of flgs h "fi_rootfd (k_files s)" "[]" "SLASH # rest" s] assms(1,4) by auto
  then have "resolve_path h d ?n flgs 0 s =
      Inr (Inr \<lparr>p_dir = fi_rootfd (k_files s), p_sub = SLASH # rest\<rparr>, s\<lparr>k_trace := k_trace s @ es\<rparr>)" for d
    using resolve_path_step [of 0 ?n h d flgs s] unfolding n by simp
  then show ?thesis using assms(2,3) unfolding vfs_grab_dir_def by auto
qed

theorem double_slash_escapes_witness:
  "\<exists>es. vfs_grab_dir loop_host (sint LINUX_AT_FDCWD) [0x2F, 0x2F, 0x65, 0x74, 0x63] 0 ex_kern =
    Inr (Inr \<lparr>p_dir = 192, p_sub = [0x2F, 0x65, 0x74, 0x63]\<rparr>, ex_kern\<lparr>k_trace := k_trace ex_kern @ es\<rparr>)"
proof -
  have "22 \<in> set (host_consts LINUX_ERRNO)" unfolding LINUX_ERRNO_def by code_simp
  moreover have "take n [0x2F, 0x65, 0x74, 0x63] \<noteq> [0x61 :: byte]" for n by (cases n) simp_all
  ultimately have "plain_path loop_host (fi_rootfd (k_files ex_kern)) [0x2F, 0x65, 0x74, 0x63]"
    by (auto simp: plain_path_def loop_host_def Let_def)
  then show ?thesis
    using double_slash_escapes [of "[0x65, 0x74, 0x63]" 0 "sint LINUX_AT_FDCWD" ex_kern loop_host] by (simp add: ex_kern_def ex_files_def)
qed

end
