(* ===== verification/FileProps.thy ===== *)
theory FileProps
  imports VfsProps
begin

text \<open>
  Properties of file access: which descriptors of the host the guest can reach, opening as an
  update of the table, \<open>readv\<close> against its specification, and results cut to an \<open>int\<close>.
\<close>

section \<open>Descriptors that reach the host\<close>

text \<open>The descriptors a host call works on; one below zero stands for no descriptor.\<close>

fun call_fds :: "fs_call \<Rightarrow> int list" where
  "call_fds (Fd (Close fd)) = [fd]"
| "call_fds (Fd (Dup fd)) = [fd]"
| "call_fds (Fd (Dup2 fd1 fd2)) = [fd1, fd2]"
| "call_fds (Fd (Getfd fd)) = [fd]"
| "call_fds (Fd (Fcntl fd _ _)) = [fd]"
| "call_fds (Fd (Fcntl_lock fd _ _)) = [fd]"
| "call_fds (Fd Pipe) = []"
| "call_fds (Path c) = (case c of
     Openat fd _ _ _ \<Rightarrow> [fd] | Symlinkat _ fd _ \<Rightarrow> [fd] | Faccessat fd _ _ \<Rightarrow> [fd]
   | Renameat fd1 _ fd2 _ \<Rightarrow> [fd1, fd2] | Linkat fd1 _ fd2 _ _ \<Rightarrow> [fd1, fd2] | Unlinkat fd _ _ \<Rightarrow> [fd]
   | Readlinkat fd _ _ \<Rightarrow> [fd] | Mkdirat fd _ _ \<Rightarrow> [fd] | Fstatat fd _ _ \<Rightarrow> [fd] | Statfs _ \<Rightarrow> []
   | Getpath fd \<Rightarrow> [fd] | Fchownat fd _ _ _ _ \<Rightarrow> [fd] | Fchmodat fd _ _ \<Rightarrow> [fd] | Mkfifo _ _ \<Rightarrow> [])"
| "call_fds (Io c) = (case c of
     Readv fd _ \<Rightarrow> [fd] | Writev fd _ \<Rightarrow> [fd] | Pread fd _ _ \<Rightarrow> [fd] | Pwrite fd _ _ \<Rightarrow> [fd]
   | Lseek fd _ _ \<Rightarrow> [fd] | Fsync fd \<Rightarrow> [fd] | Fstat fd \<Rightarrow> [fd] | Fstatfs fd \<Rightarrow> [fd] | Fchown fd _ _ \<Rightarrow> [fd]
   | Fchmod fd _ \<Rightarrow> [fd] | Fchdir fd \<Rightarrow> [fd] | Umask _ \<Rightarrow> [] | Getcwd _ \<Rightarrow> [] | Ftruncate fd _ \<Rightarrow> [fd] | Flock fd _ \<Rightarrow> [fd])"
| "call_fds (Tty c) = (case c of
     Tcgetattr fd \<Rightarrow> [fd] | Tcsetattr fd _ _ \<Rightarrow> [fd] | Tcflow fd _ \<Rightarrow> [fd] | Tcflush fd _ \<Rightarrow> [fd] | Ioctl fd _ \<Rightarrow> [fd]
   | Ioctl_int fd _ _ \<Rightarrow> [fd] | Ioctl_winsize fd _ \<Rightarrow> [fd])"
| "call_fds (Misc c) = (case c of
     Select n _ _ _ _ \<Rightarrow> [0..n - 1] | Pselect n _ _ _ _ \<Rightarrow> [0..n - 1] | Poll fds _ \<Rightarrow> map fst fds | Fdopendir fd \<Rightarrow> [fd]
   | Readdir fd \<Rightarrow> [fd] | Seekdir fd _ \<Rightarrow> [fd] | Closedir fd \<Rightarrow> [fd] | Getuid \<Rightarrow> [] | Preallocate fd _ \<Rightarrow> [fd] | Sync \<Rightarrow> [])"
| "call_fds (Sock c) = (case c of
     Socket _ _ _ \<Rightarrow> [] | Connect fd _ _ \<Rightarrow> [fd] | Setsockopt fd _ _ _ \<Rightarrow> [fd] | Getsockopt fd _ _ _ \<Rightarrow> [fd] | Shutdown fd _ \<Rightarrow> [fd]
   | Sendto fd _ _ _ _ \<Rightarrow> [fd] | Recvfrom fd _ _ _ \<Rightarrow> [fd] | Sendmsg fd _ _ _ \<Rightarrow> [fd] | Recvmsg fd _ _ _ _ \<Rightarrow> [fd]
   | Listen fd _ \<Rightarrow> [fd] | Accept fd _ \<Rightarrow> [fd] | Bind fd _ _ \<Rightarrow> [fd] | Getsockname fd _ \<Rightarrow> [fd] | Getpeername fd _ \<Rightarrow> [fd]
   | Socketpair _ _ _ \<Rightarrow> [])"
| "call_fds (Sys c) = (case c of Futimes fd _ \<Rightarrow> [fd] | Read_device fd _ \<Rightarrow> [fd] | _ \<Rightarrow> [])"

text \<open>A descriptor of the guest, the root directory, or none.\<close>

definition guest_fd :: "fileinfo \<Rightarrow> int \<Rightarrow> bool" where
  "guest_fd fi fd \<longleftrightarrow> fd < 0 \<or> in_userfd fi fd \<or> fd = fi_rootfd fi"

fun guest_event :: "fileinfo \<Rightarrow> event \<Rightarrow> bool" where
  "guest_event fi (Call c) \<longleftrightarrow> list_all (guest_fd fi) (call_fds c)"
| "guest_event fi _ \<longleftrightarrow> True"

text \<open>From the tables \<open>fi\<close>, an action leaves them alone and all its host calls are the guest's.\<close>

definition confined :: "fileinfo \<Rightarrow> 'a act \<Rightarrow> bool" where
  "confined fi m \<longleftrightarrow> (\<forall>s x s'. k_files s = fi \<longrightarrow> m s = Inr (x, s') \<longrightarrow>
    k_files s' = fi \<and> (\<exists>es. k_trace s' = k_trace s @ es \<and> list_all (guest_event fi) es))"

named_theorems confinement "rules of confinement"

lemma confinedD: "confined fi m \<Longrightarrow> m s = Inr (x, s') \<Longrightarrow> k_files s = fi \<Longrightarrow>
    k_files s' = fi \<and> (\<exists>es. k_trace s' = k_trace s @ es \<and> list_all (guest_event fi) es)"
  unfolding confined_def by blast

lemma confined_bind [confinement]:
  assumes "confined fi m" "\<And>x. confined fi (f x)"
  shows "confined fi (act_bind m f)"
proof (unfold confined_def, intro allI impI)
  fix s y s'
  assume fi: "k_files s = fi" and run: "act_bind m f s = Inr (y, s')"
  then obtain x s1 where s1: "m s = Inr (x, s1)" "f x s1 = Inr (y, s')" by (cases "m s") auto
  obtain es where es: "k_files s1 = fi" "k_trace s1 = k_trace s @ es" "list_all (guest_event fi) es"
    using confinedD [OF assms(1) s1(1) fi] by blast
  then obtain es' where "k_files s' = fi" "k_trace s' = k_trace s1 @ es'" "list_all (guest_event fi) es'"
    using confinedD [OF assms(2) s1(2)] by blast
  then show "k_files s' = fi \<and> (\<exists>es. k_trace s' = k_trace s @ es \<and> list_all (guest_event fi) es)" using es by auto
qed

lemma confined_quiet: "(\<And>s x s'. m s = Inr (x, s') \<Longrightarrow> k_files s' = k_files s \<and> k_trace s' = k_trace s) \<Longrightarrow> confined fi m"
  unfolding confined_def by fastforce

lemma confined_basic [confinement]:
  "confined fi (act_ret x)" "confined fi (look f)" "confined fi (fetch a n)" "confined fi (store a bs)" "confined fi (crash_with e)"
  by (rule confined_quiet; auto simp: fetch_def store_def crash_with_def bind_run_def split: prod.splits sum.splits)+

lemma confined_emit: "guest_event fi e \<Longrightarrow> confined fi (emit e)"
  by (simp add: confined_def)

lemma confined_call [confinement]:
  assumes "list_all (guest_fd fi) (call_fds c)"
  shows "confined fi (raw_call h c)" "confined fi (wrap_call h c)" "confined fi (wide_call h c)"
  using assms by (simp_all add: confined_def wide_call_def)

lemma confined_lock [confinement]: "confined fi m \<Longrightarrow> confined fi (locked Rdlock m)"
  unfolding locked_def by (intro confinement confined_emit) simp_all

lemma confined_if [confinement]: "(b \<Longrightarrow> confined fi m) \<Longrightarrow> (\<not> b \<Longrightarrow> confined fi m') \<Longrightarrow> confined fi (if b then m else m')"
  by simp

lemma confined_option [confinement]:
  "confined fi m \<Longrightarrow> (\<And>x. confined fi (f x)) \<Longrightarrow> confined fi (case p of None \<Rightarrow> m | Some x \<Rightarrow> f x)"
  by (cases p) auto

lemma confined_sum [confinement]:
  "(\<And>x. confined fi (f x)) \<Longrightarrow> (\<And>x. confined fi (g x)) \<Longrightarrow> confined fi (case p of Inl x \<Rightarrow> f x | Inr y \<Rightarrow> g y)"
  by (cases p) auto

lemma confined_pair [confinement]: "(\<And>x y. confined fi (f x y)) \<Longrightarrow> confined fi (case p of (x, y) \<Rightarrow> f x y)"
  by (cases p) auto

text \<open>A look at the tables knows what it sees.\<close>

lemma confined_peek:
  assumes "confined fi (g (F fi))"
  shows "confined fi (act_bind (look (\<lambda>s. Inr (F (k_files s)))) g)"
proof (unfold confined_def, intro allI impI)
  fix s y s'
  assume fi: "k_files s = fi" and run: "act_bind (look (\<lambda>s. Inr (F (k_files s)))) g s = Inr (y, s')"
  then have "g (F fi) s = Inr (y, s')" by simp
  from confinedD [OF assms this fi]
  show "k_files s' = fi \<and> (\<exists>es. k_trace s' = k_trace s @ es \<and> list_all (guest_event fi) es)" .
qed

lemmas confined_root = confined_peek [of _ _ fi_rootfd]
lemmas confined_user = confined_peek [of _ _ "\<lambda>fi. in_userfd fi fd" for fd]

lemma confined_with_file [confinement]:
  assumes "fds_inv b fi" "\<And>f. fl_fd f = fd \<Longrightarrow> guest_fd fi fd \<Longrightarrow> confined fi (op f)"
  shows "confined fi (with_file fd op)"
proof (unfold confined_def, intro allI impI)
  fix s :: kern and y s'
  let ?f = "\<lparr>fl_ops = True, fl_fd = fd\<rparr>" and ?s = "s\<lparr>k_trace := k_trace s @ [Rdlock, Unlock]\<rparr>"
  assume fi: "k_files s = fi" and run: "with_file fd op s = Inr (y, s')"
  have ok: "files_ok fi" "ft_start (fi_vkern fi) = b" "\<forall>x \<ge> b. user_view fi x = None" using assms(1) by (auto simp: fds_inv_def)
  note get = get_file_ok [of s fd]
  show "k_files s' = fi \<and> (\<exists>es. k_trace s' = k_trace s @ es \<and> list_all (guest_event fi) es)"
  proof (cases "user_view fi fd")
    case None
    then show ?thesis using run get ok(1) fi by (auto simp: with_file_def)
  next
    case (Some c)
    then have "0 \<le> fd" "fd < b"
      using ok by (auto simp: fd_view_def files_ok_def not_le [symmetric] split: if_splits)
    then have "confined fi (op ?f)" using ok(2) by (intro assms(2)) (auto simp: guest_fd_def in_userfd_def)
    moreover have "op ?f ?s = Inr (y, s')" using run get ok(1) fi Some by (simp add: with_file_def)
    ultimately show ?thesis using confinedD [of fi "op ?f" ?s y s'] fi by fastforce
  qed
qed

section \<open>Resolution is confined\<close>

lemma confined_walk: "guest_fd fi fd \<Longrightarrow> confined fi (walk_path h fd flgs sub c)"
proof (induction c arbitrary: sub rule: length_induct)
  case (1 c)
  let ?r = "dropWhile (\<lambda>b. b \<noteq> SLASH) c"
  have "confined fi (walk_path h fd flgs sub' (tl ?r))" if "c \<noteq> []" for sub'
  proof -
    have "length (tl ?r) < length c" using that length_dropWhile_le [of "\<lambda>b. b \<noteq> SLASH" c] by (cases c) (auto simp: less_Suc_eq_le)
    then show ?thesis using 1 by blast
  qed
  then show ?case using 1(2)
    by (subst walk_path.simps) (simp only: Let_def darwinfs_readlinkat_def vpath.select_convs, intro confinement; simp)
qed

lemma confined_resolve: "guest_fd fi parent \<Longrightarrow> confined fi (resolve_path h parent name flgs loop)"
proof (induction "21 - loop" arbitrary: parent name loop)
  case 0
  then show ?case by (subst resolve_path.simps) (simp add: confined_basic(1) del: act_simps)
next
  case (Suc k)
  have root: "guest_fd fi (fi_rootfd fi)" by (simp add: guest_fd_def)
  have tail: "confined fi (case w of Walked sub \<Rightarrow> act_ret (Inr \<lparr>p_dir = fd, p_sub = sub\<rparr>)
      | Linked name' \<Rightarrow> resolve_path h fd name' flgs (Suc loop))" if "guest_fd fi fd" for w fd
    using that Suc.hyps by (cases w) (auto simp: confined_basic(1) simp del: act_simps)
  have body: "confined fi (if c = [] then crash_with Assert_failed else act_bind (walk_path h fd flgs [] c) (\<lambda>w. case w of
      Walked sub \<Rightarrow> act_ret (Inr \<lparr>p_dir = fd, p_sub = sub\<rparr>) | Linked name' \<Rightarrow> resolve_path h fd name' flgs (Suc loop)))"
    if "guest_fd fi fd" for fd c
    by (intro confined_if confined_basic confined_bind confined_walk tail that)
  show ?case
    by (subst resolve_path.simps)
      (simp only: Let_def, rule confined_if, rule confined_basic, rule confined_if, rule confined_root, rule confined_basic,
        rule confined_root, rule body, use Suc.prems root in simp)
qed

lemma confined_grab [confinement]: "confined fi (vfs_grab_dir h dirfd name flgs)"
proof -
  have "guest_fd fi (sint AT_FDCWD)" by (simp add: guest_fd_def)
  then have "confined fi (resolve_path h (sint AT_FDCWD) name flgs 0)" by (rule confined_resolve)
  moreover have "confined fi (if \<not> in_userfd fi dirfd then act_ret (Inl (- LINUX_EBADF)) else resolve_path h dirfd name flgs 0)"
    by (intro confined_if confined_basic confined_resolve) (simp add: guest_fd_def)
  ultimately show ?thesis unfolding vfs_grab_dir_def
    by (intro confined_if [of "flgs AND _ \<noteq> 0"] confined_if [of "name = _"] confined_if [of "dirfd = _"] confined_basic confined_user)
qed

lemma resolve_dir:
  "guest_fd fi parent \<Longrightarrow> k_files s = fi \<Longrightarrow> resolve_path h parent name flgs loop s = Inr (Inr p, s') \<Longrightarrow> guest_fd fi (p_dir p)"
proof (induction "21 - loop" arbitrary: parent name loop s)
  case 0
  then show ?case by (subst (asm) resolve_path.simps) simp
next
  case (Suc k)
  have root: "guest_fd fi (fi_rootfd fi)" by (simp add: guest_fd_def)
  consider "name = []" | "name = [SLASH]" | (long) "name \<noteq> []" "name \<noteq> [SLASH]" by blast
  then show ?case
  proof cases
    case 1
    then show ?thesis using Suc.prems Suc.hyps(2) by (subst (asm) resolve_path.simps) (auto simp: crash_with_def split: if_splits)
  next
    case 2
    then show ?thesis using Suc.prems Suc.hyps(2) root by (subst (asm) resolve_path.simps) (auto split: if_splits)
  next
    case long
    let ?fd = "start_dir s parent name"
    have fd: "guest_fd fi ?fd" using Suc.prems(1,2) root by (simp add: start_dir_def)
    have loop: "loop \<le> 20" using Suc.hyps(2) by simp
    obtain w s1 where w: "walk_path h ?fd flgs [] (start_path name) s = Inr (w, s1)"
      using Suc.prems(3) resolve_path_step [OF loop long, of h parent flgs s]
      by (cases "walk_path h ?fd flgs [] (start_path name) s") auto
    have fi1: "k_files s1 = fi" using confinedD [OF confined_walk [OF fd] w Suc.prems(2)] by blast
    show ?thesis
    proof (cases w)
      case (Walked sub)
      then show ?thesis using Suc.prems(3) resolve_path_step [OF loop long, of h parent flgs s] w fd by auto
    next
      case (Linked name')
      then have "resolve_path h ?fd name' flgs (Suc loop) s1 = Inr (Inr p, s')"
        using Suc.prems(3) resolve_path_step [OF loop long, of h parent flgs s] w by simp
      then show ?thesis using Suc.hyps fd fi1 by (intro Suc.hyps(1) [of "Suc loop" ?fd s1 name']) auto
    qed
  qed
qed

lemma grab_dir:
  assumes "vfs_grab_dir h dirfd name flgs s = Inr (Inr p, s')" "k_files s = fi"
  shows "guest_fd fi (p_dir p)"
proof -
  have "guest_fd fi (sint AT_FDCWD)" "in_userfd fi dirfd \<Longrightarrow> guest_fd fi dirfd" by (simp_all add: guest_fd_def)
  then show ?thesis using assms resolve_dir [of fi _ s h name flgs 0 p s']
    by (auto simp: vfs_grab_dir_def split: if_splits)
qed

lemma confined_with_path [confinement]:
  assumes "\<And>p. guest_fd fi (p_dir p) \<Longrightarrow> confined fi (op p)"
  shows "confined fi (with_path (vfs_grab_dir h dirfd name flgs) op)"
proof (unfold confined_def, intro allI impI)
  fix s y s'
  assume fi: "k_files s = fi" and run: "with_path (vfs_grab_dir h dirfd name flgs) op s = Inr (y, s')"
  then obtain g s1 where g: "vfs_grab_dir h dirfd name flgs s = Inr (g, s1)"
    "(case g of Inl r \<Rightarrow> act_ret r | Inr p \<Rightarrow> op p) s1 = Inr (y, s')"
    by (cases "vfs_grab_dir h dirfd name flgs s") (auto simp: with_path_def)
  obtain es where es: "k_files s1 = fi" "k_trace s1 = k_trace s @ es" "list_all (guest_event fi) es"
    using confinedD [OF confined_grab g(1) fi] by blast
  have "confined fi (case g of Inl r \<Rightarrow> act_ret r | Inr p \<Rightarrow> op p)"
  proof (cases g)
    case (Inl r)
    then show ?thesis by (simp add: confined_basic(1) del: act_simps)
  next
    case (Inr p)
    then show ?thesis using assms grab_dir [OF _ fi] g(1) by simp
  qed
  from confinedD [OF this g(2) es(1)]
  show "k_files s' = fi \<and> (\<exists>es. k_trace s' = k_trace s @ es \<and> list_all (guest_event fi) es)" using es(2,3) by auto
qed

section \<open>The handlers\<close>

text \<open>The system calls on paths and on open files that check their descriptors.\<close>

inductive file_call :: "host \<Rightarrow> int act \<Rightarrow> bool" for h where
  "file_call h (sys_read h fd buf sz)"
| "file_call h (sys_write h fd buf sz)"
| "file_call h (sys_readv h fd iov n)"
| "file_call h (sys_writev h fd iov n)"
| "file_call h (sys_lseek h fd offset whence)"
| "file_call h (sys_pread64 h fd buf sz pos)"
| "file_call h (sys_pwrite64 h fd buf sz pos)"
| "file_call h (sys_fstat h fd st)"
| "file_call h (sys_fstatfs h fd st)"
| "file_call h (sys_fchown h fd uid gid)"
| "file_call h (sys_fchmod h fd mode)"
| "file_call h (sys_fsync h fd)"
| "file_call h (sys_poll h fds n timeout)"
| "file_call h (sys_symlinkat h path1 fd path2)"
| "file_call h (sys_newfstatat h fd path st flgs)"
| "file_call h (sys_fchownat h fd path uid gid flgs)"
| "file_call h (sys_fchmodat h fd path mode)"
| "file_call h (sys_statfs h path st)"
| "file_call h (sys_faccessat h fd path mode)"
| "file_call h (sys_renameat h fd path fd' path')"
| "file_call h (sys_unlinkat h fd path flgs)"
| "file_call h (sys_linkat h fd path fd' path' flgs)"
| "file_call h (sys_readlinkat h fd path buf n)"
| "file_call h (sys_mkdirat h fd path mode)"
| "file_call h (sys_mknodat h fd path dev)"
| "file_call h (sys_fchdir h fd)"
| "file_call h (sys_getcwd h buf sz)"

lemma confined_path_arg [confinement]:
  "confined fi (path_arg h ptr)" "(\<And>x. confined fi (k x)) \<Longrightarrow> confined fi (checked_path_arg h ptr k)"
  unfolding path_arg_def checked_path_arg_def user_string_def by (intro confinement; assumption?)+

lemma confined_store_result [confinement]: "confined fi (store_result ptr bs r)"
  unfolding store_result_def by (intro confinement)

lemma confined_with_arg [confinement]: "(\<And>bs. confined fi (k bs)) \<Longrightarrow> confined fi (with_arg ptr n k)"
  unfolding with_arg_def by (intro confinement)

lemma confined_if_user [confinement]:
  assumes "in_userfd fi fd \<Longrightarrow> confined fi m"
  shows "confined fi (if_user fd m)"
  unfolding if_user_def using assms by (intro confined_user) (auto simp: confined_basic(1) simp del: act_simps)

lemma confined_gather [confinement]: "confined fi (gather liov)"
  by (induction liov rule: gather.induct) (simp_all only: gather.simps, (intro confinement; assumption?)+)

lemma confined_scatter [confinement]: "confined fi (scatter liov bufs sz)"
proof (induction liov bufs sz rule: scatter.induct)
  case (1 base len liov buf bufs sz)
  then show ?case by (simp only: scatter.simps Let_def) (intro confinement; simp)
qed (simp_all only: scatter.simps confined_basic)

lemmas handlers = sys_read_def sys_write_def sys_readv_def sys_writev_def sys_lseek_def sys_pread64_def sys_pwrite64_def
  sys_fstat_def sys_fstatfs_def sys_fchown_def sys_fchmod_def sys_fsync_def sys_poll_def sys_symlinkat_def sys_newfstatat_def
  sys_fchownat_def sys_fchmodat_def sys_statfs_def sys_faccessat_def sys_renameat_def sys_unlinkat_def sys_linkat_def
  sys_readlinkat_def sys_mkdirat_def sys_mknodat_def sys_fchdir_def sys_getcwd_def

lemmas file_operations = darwinfs_readv_def darwinfs_writev_def darwinfs_lseek_def darwinfs_fstat_def darwinfs_fstatfs_def
  darwinfs_fchown_def darwinfs_fchmod_def darwinfs_fsync_def darwinfs_symlinkat_def darwinfs_fstatat_def darwinfs_fchownat_def
  darwinfs_fchmodat_def darwinfs_statfs_def darwinfs_faccessat_def darwinfs_renameat_def darwinfs_unlinkat_def
  darwinfs_linkat_def darwinfs_readlinkat_def darwinfs_mkdirat_def do_faccessat_def vfs_fchdir_def vfs_getcwd_def

lemma confined_poll:
  "confined fi (act_bind (look (\<lambda>s. Inr (k_files s))) (\<lambda>fi. let l_fds = decode_pollfds bs nfds; c = Misc (Poll (map (hide_fd fi) l_fds) timeout) in
     act_bind (wrap_call h c) (\<lambda>r. if r < 0 then act_ret r else store_result p (B fi c l_fds) (N fi r l_fds))))"
proof -
  have "list_all (guest_fd fi) (call_fds (Misc (Poll (map (hide_fd fi) l_fds) timeout)))" for l_fds
    by (auto simp: list_all_iff hide_fd_def guest_fd_def)
  then show ?thesis by (intro confined_peek [of _ _ "\<lambda>fi. fi"]) (simp only: Let_def, intro confinement)
qed

lemma file_call_confined:
  assumes "file_call h m" "fds_inv b fi"
  shows "confined fi m"
  using assms
  by (induction rule: file_call.induct)
    (simp_all only: handlers file_operations Let_def,
     (intro confinement confined_user confined_poll [unfolded Let_def]; simp_all add: guest_fd_def)+)

text \<open>
  C2: In every reachable state, each of these 27 system calls leaves the descriptor tables alone and
  asks the host only about descriptors of the guest, the root directory or none: the kernel's other
  descriptors are out of reach, also through \<open>poll\<close> and through relative paths.
\<close>

theorem file_calls_confined:
  assumes "fd_reachable limit s" "file_call h m" "m s = Inr (x, s')"
  shows "k_files s' = k_files s \<and> (\<exists>es. k_trace s' = k_trace s @ es \<and> list_all (guest_event (k_files s)) es)"
  using confinedD [OF file_call_confined [OF assms(2) fd_reachable_inv [OF assms(1)]] assms(3)] by simp

theorem file_calls_confined_witness:
  "\<exists>s s' es. fd_reachable 256 s \<and> sys_fchdir ex_host 3 s = Inr (3, s') \<and> k_files s' = k_files s \<and>
    k_trace s' = k_trace s @ es \<and> list_all (guest_event (k_files s)) es"
proof -
  obtain s where s: "fd_reachable 256 s" using ex_reachable [of 256] by auto
  have "in_userfd (k_files s) 3" using fd_reachable_inv [OF s] by (simp add: fds_inv_def in_userfd_def)
  then have run: "sys_fchdir ex_host 3 s = Inr (3, s\<lparr>k_trace := k_trace s @ [Call (Io (Fchdir 3))]\<rparr>)"
    by (simp add: sys_fchdir_def vfs_fchdir_def ex_host_def)
  have "file_call ex_host (sys_fchdir ex_host 3)" by (rule file_call.intros)
  from file_calls_confined [OF s this run] show ?thesis using s run by blast
qed

section \<open>Opening\<close>

lemma confined_do_openat: "confined fi (do_openat h dirfd name flgs mode)"
  unfolding do_openat_def darwinfs_openat_def Let_def by (intro confinement) (simp add: guest_fd_def)

text \<open>
  C31: Opening on the view of the table: an error of the host leaves it, a descriptor of the guest's
  range becomes open with the close-on-exec mark of the flags and nothing else changes; a descriptor
  beyond that range is refused with \<open>EMFILE\<close> and stays open on the host, since what is closed is the
  error number.
\<close>

theorem openat_refines:
  assumes "files_ok (k_files s)" "h_alloc h = (\<lambda>_. True)"
    and "do_openat h atdirfd name flgs mode (s\<lparr>k_trace := k_trace s @ [Wrlock]\<rparr>) = Inr (fd, s1)"
  shows "\<exists>s'. user_openat h atdirfd name flgs mode s =
      Inr (if fd < 0 \<or> in_userfd (k_files s) fd then fd else - LINUX_EMFILE, s') \<and>
    files_ok (k_files s') \<and> fi_vkern (k_files s') = fi_vkern (k_files s) \<and>
    user_view (k_files s') = (if in_userfd (k_files s) fd
      then (user_view (k_files s))(fd := Some (flgs AND LINUX_O_CLOEXEC \<noteq> 0)) else user_view (k_files s)) \<and>
    k_trace s' = k_trace s1 @
      (if fd < 0 \<or> in_userfd (k_files s) fd then [] else [Call (Fd (Close (- LINUX_EMFILE)))]) @ [Unlock]"
proof -
  have files: "k_files s1 = k_files s" using confinedD [OF confined_do_openat assms(3)] by simp
  consider "fd < 0" | "in_userfd (k_files s) fd" | (high) "0 \<le> fd" "ft_start (fi_vkern (k_files s)) \<le> fd"
    unfolding in_userfd_def by linarith
  then show ?thesis
  proof cases
    case 1
    then show ?thesis using assms files by (auto simp: user_openat_def in_userfd_def)
  next
    case 2
    obtain t where "register_fd (h_alloc h) fd (flgs AND LINUX_O_CLOEXEC \<noteq> 0) (k_files s) = Inr (0, (k_files s)\<lparr>fi_fdtable := t\<rparr>)"
      "table_ok t" "ft_start t = 0" "fd_view t = (user_view (k_files s))(fd := Some (flgs AND LINUX_O_CLOEXEC \<noteq> 0))"
      using register_fd_ok [OF assms(1,2) 2] by blast
    then show ?thesis using assms files 2 by (auto simp: user_openat_def act_register_def files_ok_def in_userfd_def)
  next
    case high
    then show ?thesis using assms files by (auto simp: user_openat_def act_register_def register_fd_full in_userfd_def)
  qed
qed

lemma ex_openat:
  "do_openat ex_host (sint LINUX_AT_FDCWD) [SLASH] LINUX_O_CLOEXEC 0 (ex_kern\<lparr>k_trace := [Wrlock]\<rparr>) =
    Inr (3, ex_kern\<lparr>k_trace := [Wrlock, Call (Path (Openat 192 [DOT] 0 0))]\<rparr>)"
proof -
  have "linux_to_darwin_o_flags LINUX_O_CLOEXEC = 0" by code_simp
  moreover have "resolve_path ex_host (- 2) [SLASH] 0 0 s = Inr (Inr \<lparr>p_dir = fi_rootfd (k_files s), p_sub = [DOT]\<rparr>, s)" for s
    by (subst resolve_path.simps) simp
  ultimately show ?thesis
    by (simp add: do_openat_def Let_def vfs_grab_dir_def with_path_def darwinfs_openat_def ex_kern_def ex_files_def ex_host_def)
qed

theorem openat_refines_witness:
  "\<exists>s'. user_openat ex_host (sint LINUX_AT_FDCWD) [SLASH] LINUX_O_CLOEXEC 0 ex_kern = Inr (3, s') \<and>
    user_view (k_files s') 3 = Some True"
proof -
  have "in_userfd (k_files ex_kern) 3" by (simp add: in_userfd_def ex_kern_def ex_files_def)
  moreover have "files_ok (k_files ex_kern)" "h_alloc ex_host = (\<lambda>_. True)" "k_trace ex_kern = []"
    by (simp_all add: ex_kern_def ex_files_ok ex_host_def)
  ultimately show ?thesis
    using openat_refines [of ex_kern ex_host "sint LINUX_AT_FDCWD" "[SLASH]" LINUX_O_CLOEXEC 0] ex_openat by fastforce
qed

section \<open>readv\<close>

text \<open>The specification: the bytes cut into the buffers in order, each stored at its address.\<close>

fun pieces :: "(gaddr \<times> nat) list \<Rightarrow> byte list \<Rightarrow> (gaddr \<times> byte list) list" where
  "pieces [] bs = []"
| "pieces ((base, len) # liov) bs = (base, take len bs) # pieces liov (drop len bs)"

fun store_all :: "(gaddr \<times> byte list) list \<Rightarrow> bool act" where
  "store_all [] = act_ret True"
| "store_all ((base, bs) # ps) = act_bind (store base bs) (\<lambda>fine. if fine then store_all ps else act_ret False)"

lemma store_nothing: "store a [] s = Inr (True, s)"
  by (simp add: store_def copy_to_user.simps)

lemma store_all_nothing: "store_all (pieces liov []) s = Inr (True, s)"
  by (induction liov "[] :: byte list" rule: pieces.induct) (auto simp: store_nothing)

lemma concat_pieces: "concat (map snd (pieces liov bs)) = take (sum_list (map snd liov)) bs"
  by (induction liov bs rule: pieces.induct) (auto simp: take_add)

lemma scatter_pieces: "scatter liov (split_at (map snd liov) bs) n s = store_all (pieces liov (take n bs)) s"
proof (induction liov bs arbitrary: n s rule: pieces.induct)
  case (1 bs)
  then show ?case by simp
next
  case (2 base len liov bs)
  have cut: "take (min n len) (take len bs) = take len (take n bs)" by (simp add: min.commute)
  have rest: "drop len (take n bs) = take (n - min n len) (drop len bs)"
    by (cases "n \<le> len") (simp_all add: drop_take)
  show ?case
  proof (cases "n - min n len = 0")
    case True
    then show ?thesis using rest
      by (simp add: cut store_all_nothing store_def bind_run_def Let_def split: prod.splits sum.splits)
  next
    case False
    then show ?thesis using 2 by (simp add: cut rest store_def bind_run_def Let_def split: prod.splits sum.splits)
  qed
qed

text \<open>
  C32: The loop of \<open>readv\<close>, which counts down the bytes that are left, skips nothing and stops at the
  first fault, is the specification: the bytes that were read, cut into the buffers in order and
  stored one after the other; and together the pieces are the bytes that were read, as far as the
  buffers reach.
\<close>

theorem scatter_spec:
  "scatter liov (split_at (map snd liov) bs) n = store_all (pieces liov (take n bs)) \<and>
    concat (map snd (pieces liov (take n bs))) = take (min n (sum_list (map snd liov))) bs"
  using scatter_pieces [of liov bs n] concat_pieces [of liov "take n bs"] by (auto simp: min.commute)

section \<open>Limits\<close>

text \<open>
  \<open>_syswrap\<close> takes an \<open>int\<close>: a file position of 2 to 4 gigabytes that the host reports without an
  error reaches the guest as a negative number.
\<close>

theorem lseek_truncated:
  assumes "files_ok (k_files s)" "user_view (k_files s) fd = Some c"
    and "answer h (Io (Lseek fd offset whence)) = (pos, 0)" "2 ^ 31 \<le> pos" "pos < 2 ^ 32"
  shows "\<exists>s'. sys_lseek h fd offset whence s = Inr (pos - 2 ^ 32, s')"
proof -
  have "word_of_int pos = (word_of_int (pos - 2 ^ 32) :: 32 word)" by (simp add: word_of_int_eq_iff take_bit_eq_mod)
  then have "to_cint pos = to_cint (pos - 2 ^ 32)" by (simp only: to_cint_def)
  also have "\<dots> = pos - 2 ^ 32" using assms(4,5) by (intro to_cint_id) auto
  finally show ?thesis
    using assms(1,2,3) by (simp add: sys_lseek_def with_file_def get_file_ok darwinfs_lseek_def wide_call_def syswrap_def)
qed

theorem lseek_truncated_witness:
  "\<exists>s'. sys_lseek (ex_host\<lparr>answer := \<lambda>_. (3000000000, 0)\<rparr>) 0 3000000000 0 ex_kern = Inr (- 1294967296, s')"
  using lseek_truncated [of ex_kern 0 False "ex_host\<lparr>answer := \<lambda>_. (3000000000, 0)\<rparr>" 3000000000 0 3000000000]
  by (simp add: ex_kern_def ex_files_ok ex_view)

text \<open>
  The length of a record of \<open>getdents64\<close> is 24 for every name: a name of five bytes or more runs
  over the end of its record, and behind the buffer when 24 bytes are left.
\<close>

theorem dent64_overrun:
  assumes "5 \<le> length (de_name d)" "length buf = pos + 24"
  shows "dent_reclen d True = 24 \<and> darwin_to_linux_dent d pos 24 True buf = Inl Out_of_bounds"
  using assms by (simp add: dent_reclen_def darwin_to_linux_dent_def poke_def Let_def)

theorem dent64_overrun_witness:
  "darwin_to_linux_dent \<lparr>de_ino = 1, de_seekoff = 1, de_type = 8, de_name = [0x61, 0x62, 0x63, 0x64, 0x65]\<rparr> 0 24 True (replicate 24 0) =
    Inl Out_of_bounds"
  using dent64_overrun [of "\<lparr>de_ino = 1, de_seekoff = 1, de_type = 8, de_name = [0x61, 0x62, 0x63, 0x64, 0x65]\<rparr>" "replicate 24 0" 0] by simp

end
