(* ===== verification/Futex.thy ===== *)
theory Futex
  imports FdCalls
begin

text \<open>
  Futexes of one process, \<open>src/ipc/futex.c\<close>.  The hash table maps an address to the list of its
  waiters; a waiter is the address of its \<open>pfutex_entry\<close> in a heap of live entries.  A call runs
  under \<open>futex_mutex\<close> until it returns or sleeps; \<open>Sleep\<close> is the call of \<open>__cond_wait\<close>, which gives up
  the mutex, and \<open>private_wait_end\<close> is what the thread does when it has come back.  The address that
  \<open>malloc\<close> yields, the time and the thread's number are arguments.
\<close>

section \<open>State\<close>

record pfutex_entry =
  pe_uaddr :: gaddr
  pe_bitset :: flags

record futex_state =
  fx_lists :: "gaddr \<Rightarrow> nat list option"
  fx_mem :: "nat \<Rightarrow> pfutex_entry option"
  fx_user :: user_mem
  fx_signalled :: "nat set"

datatype outcome = Ret int | Sleep nat "timespec option" "gaddr option"

type_synonym 'a fx = "futex_state \<Rightarrow> ('a \<times> futex_state) run"

abbreviation (input) DARWIN_EWOULDBLOCK :: int where "DARWIN_EWOULDBLOCK \<equiv> 35"
abbreviation (input) FUTEX_BITSET_MATCH_ANY :: flags where "FUTEX_BITSET_MATCH_ANY \<equiv> 0xFFFFFFFF"
abbreviation (input) FUTEX_WAITERS :: flags where "FUTEX_WAITERS \<equiv> 0x80000000"

definition pfutex_get :: "gaddr \<Rightarrow> futex_state \<Rightarrow> nat list" where
  "pfutex_get uaddr st = (case fx_lists st uaddr of None \<Rightarrow> [] | Some l \<Rightarrow> l)"

definition pfutex_set :: "gaddr \<Rightarrow> nat list \<Rightarrow> futex_state \<Rightarrow> futex_state" where
  "pfutex_set uaddr l st = st\<lparr>fx_lists := (fx_lists st)(uaddr := Some l)\<rparr>"

section \<open>Waking\<close>

text \<open>
  The loop over the waiters reads each entry it reaches: how many were woken, who, and who stays.
\<close>

fun wake_loop :: "(nat \<Rightarrow> pfutex_entry option) \<Rightarrow> bool \<Rightarrow> flags \<Rightarrow> int \<Rightarrow> nat list \<Rightarrow> (int \<times> nat list \<times> nat list) run" where
  "wake_loop heap use_bitset bitset count [] = Inr (0, [], [])"
| "wake_loop heap use_bitset bitset count (p # ps) =
    (case heap p of
       None \<Rightarrow> Inl Freed_access
     | Some e \<Rightarrow>
         if count = 0 then Inr (0, [], p # ps)
         else if use_bitset \<and> pe_bitset e AND bitset = 0 then
           bind_run (wake_loop heap use_bitset bitset count ps) (\<lambda>(n, woken, kept). Inr (n, woken, p # kept))
         else
           bind_run (wake_loop heap use_bitset bitset (count - 1) ps) (\<lambda>(n, woken, kept). Inr (n + 1, p # woken, kept)))"

definition do_private_futex_wake :: "gaddr \<Rightarrow> int \<Rightarrow> bool \<Rightarrow> flags \<Rightarrow> int fx" where
  "do_private_futex_wake uaddr count use_bitset bitset st =
    bind_run (wake_loop (fx_mem st) use_bitset bitset count (pfutex_get uaddr st)) (\<lambda>(n, woken, kept).
      Inr (n, (pfutex_set uaddr kept st)\<lparr>fx_signalled := fx_signalled st \<union> set woken\<rparr>))"

definition do_futex_wake :: "gaddr \<Rightarrow> int \<Rightarrow> int fx" where
  "do_futex_wake uaddr count = do_private_futex_wake uaddr count False 0"

section \<open>Waiting\<close>

text \<open>\<open>list_add_tail\<close> writes to the last entry of the list.\<close>

definition list_add_tail :: "nat \<Rightarrow> gaddr \<Rightarrow> futex_state \<Rightarrow> futex_state run" where
  "list_add_tail p uaddr st =
    (let l = pfutex_get uaddr st in
     if l \<noteq> [] \<and> fx_mem st (last l) = None then Inl Freed_access else Inr (pfutex_set uaddr (l @ [p]) st))"

definition private_wait :: "nat \<Rightarrow> gaddr \<Rightarrow> timespec option \<Rightarrow> gaddr option \<Rightarrow> flags \<Rightarrow> outcome fx" where
  "private_wait new uaddr deadline requeue bitset st =
    bind_run (list_add_tail new uaddr (st\<lparr>fx_mem := (fx_mem st)(new := Some \<lparr>pe_uaddr = uaddr, pe_bitset = bitset\<rparr>)\<rparr>))
      (\<lambda>st'. Inr (Sleep new deadline requeue, st'))"

datatype wakeup = Signalled | Timed_out | Interrupted

definition private_wait_end :: "nat \<Rightarrow> wakeup \<Rightarrow> gaddr option \<Rightarrow> int fx" where
  "private_wait_end e cause requeue st =
    (case fx_mem st e of
       None \<Rightarrow> Inl Freed_access
     | Some entry \<Rightarrow>
         let r = (case cause of Signalled \<Rightarrow> 0 | Timed_out \<Rightarrow> - LINUX_ETIMEDOUT | Interrupted \<Rightarrow> - LINUX_EINTR);
             r = (case requeue of Some uaddr2 \<Rightarrow> if pe_uaddr entry \<noteq> uaddr2 then - LINUX_EAGAIN else r | None \<Rightarrow> r) in
         Inr (r, st\<lparr>fx_mem := (fx_mem st)(e := None), fx_signalled := fx_signalled st - {e}\<rparr>))"

section \<open>Operations\<close>

text \<open>A copy from the guest, \<open>None\<close> when it faults.\<close>

definition user_bytes :: "gaddr \<Rightarrow> nat \<Rightarrow> futex_state \<Rightarrow> byte list option" where
  "user_bytes a n st = (case copy_from_user (fx_user st) a n of (rest, bs) \<Rightarrow> if rest = 0 then Some bs else None)"

definition decode_timespec :: "byte list \<Rightarrow> timespec" where
  "decode_timespec bs = \<lparr>tv_sec = le_word (get_field 0 8 bs), tv_nsec = le_word (get_field 8 8 bs)\<rparr>"

text \<open>The timeout argument; it is taken as the time at which to stop.\<close>

definition with_timeout :: "gaddr \<Rightarrow> (timespec option \<Rightarrow> outcome fx) \<Rightarrow> outcome fx" where
  "with_timeout timeout_ptr k st =
    (if timeout_ptr = 0 then k None st
     else case user_bytes timeout_ptr 16 st of
       None \<Rightarrow> Inr (Ret (- LINUX_EFAULT), st)
     | Some bs \<Rightarrow> k (Some (decode_timespec bs)) st)"

definition futex_op :: "flags \<Rightarrow> flags \<Rightarrow> flags run" where
  "futex_op val3 oldval =
    (let op = drop_bit 28 val3 AND 0xF; arg = drop_bit 12 val3 AND 0xFFF in
     if op = 0 then Inr arg
     else if op = 1 then Inr (oldval + arg)
     else if op = 2 then Inr (oldval OR arg)
     else if op = 3 then Inr (oldval AND arg)
     else if op = 4 then Inr (oldval * arg)
     else Inl Panicked)"

definition futex_cmp :: "flags \<Rightarrow> flags \<Rightarrow> bool run" where
  "futex_cmp val3 oldval =
    (let op = drop_bit 24 val3 AND 0xF; arg = uint (val3 AND 0xFFF); old = sint oldval in
     if op = 0 then Inr (old = arg)
     else if op = 1 then Inr (old \<noteq> arg)
     else if op = 2 then Inr (old < arg)
     else if op = 3 then Inr (old \<le> arg)
     else if op = 4 then Inr (old > arg)
     else if op = 5 then Inr (old \<ge> arg)
     else Inl Panicked)"

definition futex_wake_op :: "gaddr \<Rightarrow> flags \<Rightarrow> flags \<Rightarrow> gaddr \<Rightarrow> flags \<Rightarrow> outcome fx" where
  "futex_wake_op uaddr val val2 uaddr2 val3 st =
    (case user_bytes uaddr2 4 st of
       None \<Rightarrow> Inr (Ret (- LINUX_EFAULT), st)
     | Some bs \<Rightarrow>
         let oldval = le_word bs in
         bind_run (futex_op val3 oldval) (\<lambda>newval.
         case copy_to_user (fx_user st) uaddr2 (le_bytes 4 newval) of (rest, u) \<Rightarrow>
           if rest \<noteq> 0 then Inr (Ret (- LINUX_EFAULT), st\<lparr>fx_user := u\<rparr>)
           else
             bind_run (do_private_futex_wake uaddr (sint val) False 0 (st\<lparr>fx_user := u\<rparr>)) (\<lambda>(ret, st1).
             bind_run (futex_cmp val3 oldval) (\<lambda>cond.
               if cond then bind_run (do_private_futex_wake uaddr2 (sint val2) False 0 st1) (\<lambda>(ret2, st2). Inr (Ret (ret + ret2), st2))
               else Inr (Ret ret, st1)))))"

text \<open>
  The loop that moves waiters to another list, at most \<open>k\<close> of them.  When both are the same list, a
  waiter that was moved comes up again, unless it was alone.
\<close>

fun requeue_loop :: "gaddr \<Rightarrow> gaddr \<Rightarrow> nat \<Rightarrow> nat list \<Rightarrow> int \<Rightarrow> int fx" where
  "requeue_loop uaddr uaddr2 k [] num st = Inr (num, st)"
| "requeue_loop uaddr uaddr2 0 (p # ps) num st = (if fx_mem st p = None then Inl Freed_access else Inr (num, st))"
| "requeue_loop uaddr uaddr2 (Suc k) (p # ps) num st =
    (case fx_mem st p of
       None \<Rightarrow> Inl Freed_access
     | Some e \<Rightarrow>
         bind_run (list_add_tail p uaddr2 (pfutex_set uaddr (remove1 p (pfutex_get uaddr st)) st)) (\<lambda>st1.
           requeue_loop uaddr uaddr2 k (if uaddr = uaddr2 \<and> ps \<noteq> [] then ps @ [p] else ps) (num + 1)
             (st1\<lparr>fx_mem := (fx_mem st1)(p := Some (e\<lparr>pe_uaddr := uaddr2\<rparr>))\<rparr>)))"

definition futex_cmp_requeue_pi :: "gaddr \<Rightarrow> flags \<Rightarrow> flags \<Rightarrow> gaddr \<Rightarrow> flags \<Rightarrow> outcome fx" where
  "futex_cmp_requeue_pi uaddr val val2 uaddr2 val3 st =
    (if val \<noteq> 1 then Inr (Ret (- LINUX_EINVAL), st)
     else case user_bytes uaddr 4 st of
       None \<Rightarrow> Inr (Ret (- LINUX_EFAULT), st)
     | Some bs \<Rightarrow>
         if le_word bs \<noteq> val3 then Inr (Ret (- LINUX_EAGAIN), st)
         else
           bind_run (do_private_futex_wake uaddr (sint val) False 0 st) (\<lambda>(num, st1).
           bind_run (requeue_loop uaddr uaddr2 (unat val2) (pfutex_get uaddr st1) num st1) (\<lambda>(n, st2). Inr (Ret n, st2))))"

text \<open>The two atomic operations on the word of the guest, which is written on the host.\<close>

definition futex_lock_pi :: "nat \<Rightarrow> flags \<Rightarrow> gaddr \<Rightarrow> timespec option \<Rightarrow> outcome fx" where
  "futex_lock_pi new tid uaddr deadline st =
    (case um_ptr (fx_user st) uaddr of
       None \<Rightarrow> Inl Assert_failed
     | Some p \<Rightarrow>
         let u = fx_user st; val = le_word (host_read (um_host u) p 4) :: flags in
         if val = 0 then Inr (Ret 0, st\<lparr>fx_user := u\<lparr>um_host := host_write (um_host u) p (le_bytes 4 tid)\<rparr>\<rparr>)
         else private_wait new uaddr deadline None FUTEX_BITSET_MATCH_ANY
           (st\<lparr>fx_user := u\<lparr>um_host := host_write (um_host u) p (le_bytes 4 (val OR FUTEX_WAITERS))\<rparr>\<rparr>))"

definition futex_wait :: "nat \<Rightarrow> timespec \<Rightarrow> gaddr \<Rightarrow> flags \<Rightarrow> gaddr \<Rightarrow> outcome fx" where
  "futex_wait new now uaddr val timeout_ptr st =
    (case user_bytes uaddr 4 st of
       None \<Rightarrow> Inr (Ret (- LINUX_EFAULT), st)
     | Some bs \<Rightarrow>
         if le_word bs \<noteq> val then Inr (Ret (- DARWIN_EWOULDBLOCK), st)
         else with_timeout timeout_ptr (\<lambda>timeout.
           private_wait new uaddr (map_option (\<lambda>_. now) timeout) None FUTEX_BITSET_MATCH_ANY) st)"

definition do_private_futex ::
  "nat \<Rightarrow> timespec \<Rightarrow> flags \<Rightarrow> gaddr \<Rightarrow> flags \<Rightarrow> flags \<Rightarrow> gaddr \<Rightarrow> gaddr \<Rightarrow> flags \<Rightarrow> outcome fx" where
  "do_private_futex new now tid uaddr op val timeout_ptr uaddr2 val3 st =
    (let cmd = op AND 127; ret = \<lambda>m. bind_run m (\<lambda>(r, st'). Inr (Ret r, st')) in
     if cmd = 1 then ret (do_private_futex_wake uaddr (sint val) False 0 st)
     else if cmd = 0 then futex_wait new now uaddr val timeout_ptr st
     else if cmd = 5 then futex_wake_op uaddr val (ucast timeout_ptr) uaddr2 val3 st
     else if cmd = 6 then with_timeout timeout_ptr (futex_lock_pi new tid uaddr) st
     else if cmd = 7 then bind_run (do_private_futex_wake uaddr 1 False 0 st) (\<lambda>(r, st'). Inr (Ret 0, st'))
     else if cmd = 12 then futex_cmp_requeue_pi uaddr val (ucast timeout_ptr) uaddr2 val3 st
     else if cmd = 11 then
       with_timeout timeout_ptr (\<lambda>ts. private_wait new uaddr ts (Some uaddr2) FUTEX_BITSET_MATCH_ANY) st
     else if cmd = 9 then with_timeout timeout_ptr (\<lambda>ts. private_wait new uaddr ts None val3) st
     else if cmd = 10 then ret (do_private_futex_wake uaddr (sint val) True val3 st)
     else Inr (Ret (- LINUX_ENOSYS), st))"

definition sys_futex ::
  "nat \<Rightarrow> timespec \<Rightarrow> flags \<Rightarrow> gaddr \<Rightarrow> flags \<Rightarrow> flags \<Rightarrow> gaddr \<Rightarrow> gaddr \<Rightarrow> flags \<Rightarrow> outcome fx" where
  "sys_futex new now tid uaddr op val timeout_ptr uaddr2 val3 st =
    (if op AND 128 \<noteq> 0 then do_private_futex new now tid uaddr (op AND NOT 128) val timeout_ptr uaddr2 val3 st
     else case find_region uaddr (um_proc (fx_user st)) of
       None \<Rightarrow> Inr (Ret (- LINUX_EFAULT), st)
     | Some r \<Rightarrow>
         if \<not> is_region_private (mm_store (um_proc (fx_user st)) r) then Inl Panicked
         else do_private_futex new now tid uaddr op val timeout_ptr uaddr2 val3 st)"

end
