(* ===== verification/FutexProps.thy ===== *)
theory FutexProps
  imports Futex
begin

text \<open>
  Properties of futexes: without timeouts no sequence of calls and wake-ups touches a freed entry or
  loses a waiter, waking is first in, first out, and what a timeout leaves behind.
\<close>

section \<open>Reachable states\<close>

text \<open>
  The second argument holds the sleeping threads by their entries.  \<open>malloc\<close> yields an address that
  is not in use; the guest may change its memory at any time; a sleeper comes back when its
  condition variable was signalled.
\<close>

inductive futex_run :: "futex_state \<Rightarrow> (nat \<Rightarrow> gaddr option option) \<Rightarrow> bool" where
  start: "futex_run \<lparr>fx_lists = Map.empty, fx_mem = Map.empty, fx_user = u, fx_signalled = {}\<rparr> Map.empty"
| guest: "futex_run st sl \<Longrightarrow> futex_run (st\<lparr>fx_user := u\<rparr>) sl"
| returns: "futex_run st sl \<Longrightarrow> fx_mem st new = None \<Longrightarrow>
    sys_futex new now tid uaddr op val timeout_ptr uaddr2 val3 st = Inr (Ret r, st') \<Longrightarrow> futex_run st' sl"
| sleeps: "futex_run st sl \<Longrightarrow> fx_mem st new = None \<Longrightarrow>
    sys_futex new now tid uaddr op val timeout_ptr uaddr2 val3 st = Inr (Sleep e deadline requeue, st') \<Longrightarrow>
    futex_run st' (sl(e := Some requeue))"
| wakes: "futex_run st sl \<Longrightarrow> sl e = Some requeue \<Longrightarrow> e \<in> fx_signalled st \<Longrightarrow>
    private_wait_end e Signalled requeue st = Inr (r, st') \<Longrightarrow> futex_run st' (sl(e := None))"

text \<open>
  Every entry of a list is live and knows its list; the signalled entries are the live ones that are
  in no list.
\<close>

definition futex_inv :: "futex_state \<Rightarrow> (nat \<Rightarrow> gaddr option option) \<Rightarrow> bool" where
  "futex_inv st sl \<longleftrightarrow>
    (\<forall>e. fx_mem st e = None \<longleftrightarrow> sl e = None) \<and>
    (\<forall>a. distinct (pfutex_get a st)) \<and>
    (\<forall>a. \<forall>e \<in> set (pfutex_get a st). \<exists>x. fx_mem st e = Some x \<and> pe_uaddr x = a) \<and>
    (\<forall>e. e \<in> fx_signalled st \<longleftrightarrow> fx_mem st e \<noteq> None \<and> (\<forall>a. e \<notin> set (pfutex_get a st)))"

lemma futex_invI:
  assumes "\<And>e. fx_mem st e = None \<longleftrightarrow> sl e = None" "\<And>a. distinct (pfutex_get a st)"
    "\<And>a e. e \<in> set (pfutex_get a st) \<Longrightarrow> \<exists>x. fx_mem st e = Some x \<and> pe_uaddr x = a"
    "\<And>e. e \<in> fx_signalled st \<longleftrightarrow> fx_mem st e \<noteq> None \<and> (\<forall>a. e \<notin> set (pfutex_get a st))"
  shows "futex_inv st sl"
  using assms unfolding futex_inv_def by blast

lemma futex_invD:
  assumes "futex_inv st sl"
  shows "fx_mem st e = None \<longleftrightarrow> sl e = None" "distinct (pfutex_get a st)"
    "e \<in> set (pfutex_get a st) \<Longrightarrow> \<exists>x. fx_mem st e = Some x \<and> pe_uaddr x = a"
    "e \<in> fx_signalled st \<longleftrightarrow> fx_mem st e \<noteq> None \<and> (\<forall>a. e \<notin> set (pfutex_get a st))"
  using assms unfolding futex_inv_def by blast+

lemma inv_lists:
  assumes "futex_inv st sl"
  shows "\<forall>e \<in> set (pfutex_get a st). fx_mem st e \<noteq> None"
    "e \<in> set (pfutex_get a st) \<Longrightarrow> e \<in> set (pfutex_get b st) \<Longrightarrow> a = b"
  using futex_invD(3) [OF assms, of _ a] futex_invD(3) [OF assms, of e b] by fastforce+

definition futex_good :: "(nat \<Rightarrow> gaddr option option) \<Rightarrow> (outcome \<times> futex_state) run \<Rightarrow> bool" where
  "futex_good sl R \<longleftrightarrow> (case R of
     Inl e \<Rightarrow> e \<noteq> Freed_access
   | Inr (Ret r, st) \<Rightarrow> futex_inv st sl
   | Inr (Sleep e deadline requeue, st) \<Rightarrow> futex_inv st (sl(e := Some requeue)))"

lemma futex_good_simps [simp]:
  "futex_good sl (Inl c) \<longleftrightarrow> c \<noteq> Freed_access"
  "futex_good sl (Inr (Ret r, st)) \<longleftrightarrow> futex_inv st sl"
  "futex_good sl (Inr (Sleep e deadline requeue, st)) \<longleftrightarrow> futex_inv st (sl(e := Some requeue))"
  by (simp_all add: futex_good_def)

lemma futex_inv_user [simp]: "futex_inv (st\<lparr>fx_user := u\<rparr>) sl \<longleftrightarrow> futex_inv st sl"
  by (simp add: futex_inv_def pfutex_get_def)

lemma pfutex_get_set [simp]: "pfutex_get a (pfutex_set b l st) = (if a = b then l else pfutex_get a st)"
  by (simp add: pfutex_get_def pfutex_set_def)

lemma pfutex_get_more [simp]:
  "pfutex_get a (st\<lparr>fx_mem := m\<rparr>) = pfutex_get a st" "pfutex_get a (st\<lparr>fx_signalled := g\<rparr>) = pfutex_get a st"
  "fx_mem (pfutex_set b l st) = fx_mem st" "fx_signalled (pfutex_set b l st) = fx_signalled st"
  by (simp_all add: pfutex_get_def pfutex_set_def)

section \<open>Waking\<close>

lemma wake_loop_ok:
  "\<forall>p \<in> set ps. heap p \<noteq> None \<Longrightarrow> \<exists>n woken kept. wake_loop heap ub bs count ps = Inr (n, woken, kept) \<and>
    set woken \<union> set kept = set ps \<and> (distinct ps \<longrightarrow> distinct kept \<and> set woken \<inter> set kept = {}) \<and> n = int (length woken)"
proof (induction ps arbitrary: count)
  case Nil
  then show ?case by simp
next
  case (Cons p ps)
  then obtain e where e: "heap p = Some e" by auto
  have "\<forall>p \<in> set ps. heap p \<noteq> None" using Cons.prems by simp
  note IH = Cons.IH [OF this]
  show ?case using e IH [of count] IH [of "count - 1"] by fastforce
qed

lemma wake_inv:
  assumes "futex_inv st sl"
  shows "\<exists>n st'. do_private_futex_wake uaddr count ub bs st = Inr (n, st') \<and> futex_inv st' sl"
proof -
  note D = futex_invD [OF assms] and L = inv_lists [OF assms]
  obtain n woken kept where w: "wake_loop (fx_mem st) ub bs count (pfutex_get uaddr st) = Inr (n, woken, kept)"
    "set woken \<union> set kept = set (pfutex_get uaddr st)" "distinct kept" "set woken \<inter> set kept = {}"
    using wake_loop_ok [OF L(1)] D(2) by blast
  let ?st = "(pfutex_set uaddr kept st)\<lparr>fx_signalled := fx_signalled st \<union> set woken\<rparr>"
  have out: "(\<forall>a. e \<notin> set (pfutex_get a ?st)) \<longleftrightarrow> (\<forall>a. e \<notin> set (pfutex_get a st)) \<or> e \<in> set woken" for e
    using w(2,4) L(2) [of e uaddr] by (auto split: if_splits)
  have "futex_inv ?st sl"
  proof (rule futex_invI)
    show "distinct (pfutex_get a ?st)" for a using D(2) w(3) by simp
    show "\<exists>x. fx_mem ?st e = Some x \<and> pe_uaddr x = a" if "e \<in> set (pfutex_get a ?st)" for a e
    proof -
      have "e \<in> set (pfutex_get a st)" using that w(2) by (auto split: if_splits)
      then show ?thesis using D(3) by simp
    qed
    show "e \<in> fx_signalled ?st \<longleftrightarrow> fx_mem ?st e \<noteq> None \<and> (\<forall>a. e \<notin> set (pfutex_get a ?st))" for e
      using D(4) [of e] L(1) [of uaddr] w(2) unfolding out by auto
  qed (use D(1) in simp)
  then show ?thesis using w(1) by (simp add: do_private_futex_wake_def)
qed

lemma wait_inv:
  assumes "futex_inv st sl" "fx_mem st new = None"
  shows "futex_good sl (private_wait new uaddr deadline requeue bitset st)"
proof -
  note D = futex_invD [OF assms(1)] and L = inv_lists [OF assms(1)]
  let ?l = "pfutex_get uaddr st" and ?m = "(fx_mem st)(new := Some \<lparr>pe_uaddr = uaddr, pe_bitset = bitset\<rparr>)"
  let ?st = "pfutex_set uaddr (?l @ [new]) (st\<lparr>fx_mem := ?m\<rparr>)"
  have new: "new \<notin> set (pfutex_get a st)" for a using assms(2) L(1) by blast
  have "futex_inv ?st (sl(new := Some requeue))"
  proof (rule futex_invI)
    show "distinct (pfutex_get a ?st)" for a using D(2) new by simp
    show "\<exists>x. fx_mem ?st e = Some x \<and> pe_uaddr x = a" if "e \<in> set (pfutex_get a ?st)" for a e
      using that new D(3) [of e a] by (auto split: if_splits)
    show "e \<in> fx_signalled ?st \<longleftrightarrow> fx_mem ?st e \<noteq> None \<and> (\<forall>a. e \<notin> set (pfutex_get a ?st))" for e
      using D(4) [of e] assms(2) by auto
  qed (use D(1) in simp)
  moreover have "?l = [] \<or> ?m (last ?l) \<noteq> None" using L(1) last_in_set by fastforce
  ultimately show ?thesis by (auto simp: private_wait_def list_add_tail_def Let_def)
qed

text \<open>A waiter that moves to another list.\<close>

lemma move_inv:
  assumes "futex_inv st sl" "e \<in> set (pfutex_get a st)" "fx_mem st e = Some x"
  shows "\<exists>st1. list_add_tail e b (pfutex_set a (remove1 e (pfutex_get a st)) st) = Inr st1 \<and> fx_mem st1 = fx_mem st \<and>
    futex_inv (st1\<lparr>fx_mem := (fx_mem st1)(e := Some (x\<lparr>pe_uaddr := b\<rparr>))\<rparr>) sl \<and>
    (a \<noteq> b \<longrightarrow> pfutex_get a st1 = remove1 e (pfutex_get a st)) \<and> (a = b \<longrightarrow> set (pfutex_get a st1) = set (pfutex_get a st))"
proof -
  note D = futex_invD [OF assms(1)] and L = inv_lists [OF assms(1)]
  let ?r = "remove1 e (pfutex_get a st)"
  let ?s0 = "pfutex_set a ?r st"
  let ?s1 = "pfutex_set b (pfutex_get b ?s0 @ [e]) ?s0"
  let ?st = "?s1\<lparr>fx_mem := (fx_mem ?s1)(e := Some (x\<lparr>pe_uaddr := b\<rparr>))\<rparr>"
  have r: "distinct ?r" "set ?r = set (pfutex_get a st) - {e}" using D(2) [of a] by auto
  have out: "e \<notin> set (pfutex_get c ?s0)" for c using r(2) L(2) [OF assms(2), of c] by auto
  have sub: "set (pfutex_get c ?s0) \<subseteq> set (pfutex_get c st)" for c using r(2) by auto
  have "futex_inv ?st sl"
  proof (rule futex_invI)
    show "fx_mem ?st y = None \<longleftrightarrow> sl y = None" for y using D(1) [of y] D(1) [of e] assms(3) by auto
    show "distinct (pfutex_get c ?st)" for c using D(2) r(1) out [of c] by (auto split: if_splits)
    show "\<exists>x. fx_mem ?st y = Some x \<and> pe_uaddr x = c" if "y \<in> set (pfutex_get c ?st)" for c y
      using that sub [of c] out [of c] D(3) [of y c] by (auto split: if_splits)
    show "y \<in> fx_signalled ?st \<longleftrightarrow> fx_mem ?st y \<noteq> None \<and> (\<forall>c. y \<notin> set (pfutex_get c ?st))" for y
    proof (cases "y = e")
      case True
      then show ?thesis using D(4) [of e] assms(2) by auto
    next
      case False
      then have "(\<forall>c. y \<notin> set (pfutex_get c ?st)) \<longleftrightarrow> (\<forall>c. y \<notin> set (pfutex_get c st))" using r(2) by (auto split: if_splits)
      then show ?thesis using D(4) [of y] False by auto
    qed
  qed
  moreover have "pfutex_get b ?s0 = [] \<or> fx_mem ?s0 (last (pfutex_get b ?s0)) \<noteq> None"
    using L(1) [of b] sub [of b] last_in_set by fastforce
  ultimately show ?thesis using r assms(2) by (auto simp: list_add_tail_def Let_def)
qed

lemma requeue_inv:
  "futex_inv st sl \<Longrightarrow> distinct ps \<Longrightarrow> set ps \<subseteq> set (pfutex_get a st) \<Longrightarrow>
    \<exists>n st'. requeue_loop a b k ps num st = Inr (n, st') \<and> futex_inv st' sl"
proof (induction k arbitrary: ps num st)
  case 0
  then show ?case using inv_lists(1) [OF 0(1), of a] by (cases ps) auto
next
  case (Suc k)
  show ?case
  proof (cases ps)
    case Nil
    then show ?thesis using Suc.prems by simp
  next
    case (Cons p qs)
    then have p: "p \<in> set (pfutex_get a st)" using Suc.prems by simp
    then obtain x where x: "fx_mem st p = Some x" using inv_lists(1) [OF Suc.prems(1), of a] by auto
    obtain st1 where st1: "list_add_tail p b (pfutex_set a (remove1 p (pfutex_get a st)) st) = Inr st1" "fx_mem st1 = fx_mem st"
      "futex_inv (st1\<lparr>fx_mem := (fx_mem st1)(p := Some (x\<lparr>pe_uaddr := b\<rparr>))\<rparr>) sl"
      "a \<noteq> b \<Longrightarrow> pfutex_get a st1 = remove1 p (pfutex_get a st)" "a = b \<Longrightarrow> set (pfutex_get a st1) = set (pfutex_get a st)"
      using move_inv [OF Suc.prems(1) p x, of b] by blast
    let ?qs = "if a = b \<and> qs \<noteq> [] then qs @ [p] else qs"
    have "distinct ?qs" using Suc.prems(2) Cons by auto
    moreover have "set ?qs \<subseteq> set (pfutex_get a st1)"
    proof (cases "a = b")
      case False
      then have "set qs \<subseteq> set (pfutex_get a st) - {p}" using Suc.prems(2,3) Cons by auto
      then show ?thesis using False st1(4) futex_invD(2) [OF Suc.prems(1), of a] by (simp add: set_remove1_eq)
    qed (use st1(5) Suc.prems(3) Cons in auto)
    ultimately have "\<exists>n st'. requeue_loop a b k ?qs (num + 1) (st1\<lparr>fx_mem := (fx_mem st1)(p := Some (x\<lparr>pe_uaddr := b\<rparr>))\<rparr>) = Inr (n, st') \<and> futex_inv st' sl"
      using st1(3) by (intro Suc.IH) simp_all
    then show ?thesis using Cons x st1(1) by simp
  qed
qed

section \<open>No freed entry is touched\<close>

lemma good_wake: "futex_inv st sl \<Longrightarrow> futex_good sl (bind_run (do_private_futex_wake uaddr count ub bs st) (\<lambda>(r, st'). Inr (Ret (f r), st')))"
  using wake_inv [of st sl uaddr count ub bs] by auto

lemma good_timeout:
  "futex_inv st sl \<Longrightarrow> (\<And>ts. futex_good sl (k ts st)) \<Longrightarrow> futex_good sl (with_timeout timeout_ptr k st)"
  by (auto simp: with_timeout_def split: option.split)

lemma good_wait: "futex_inv st sl \<Longrightarrow> fx_mem st new = None \<Longrightarrow> futex_good sl (futex_wait new now uaddr val timeout_ptr st)"
  by (auto simp: futex_wait_def split: option.split intro!: good_timeout wait_inv)

lemma good_lock_pi: "futex_inv st sl \<Longrightarrow> fx_mem st new = None \<Longrightarrow> futex_good sl (futex_lock_pi new tid uaddr ts st)"
  by (auto simp: futex_lock_pi_def Let_def split: option.split intro!: wait_inv)

lemma good_wake_op: "futex_inv st sl \<Longrightarrow> futex_good sl (futex_wake_op uaddr val val2 uaddr2 val3 st)"
proof -
  assume inv: "futex_inv st sl"
  have ops: "futex_op val3 old = Inl e \<Longrightarrow> e = Panicked" "futex_cmp val3 old = Inl e \<Longrightarrow> e = Panicked" for old e
    by (auto simp: futex_op_def futex_cmp_def Let_def split: if_splits)
  have wake: "\<exists>n st'. do_private_futex_wake a c False 0 (st1\<lparr>fx_user := u\<rparr>) = Inr (n, st') \<and> futex_inv st' sl"
    if "futex_inv st1 sl" for a c u st1 using that by (intro wake_inv) simp
  show ?thesis
  proof (cases "user_bytes uaddr2 4 st")
    case None
    then show ?thesis using inv by (simp add: futex_wake_op_def)
  next
    case (Some bs)
    show ?thesis
    proof (cases "futex_op val3 (le_word bs)")
      case (Inl e)
      then show ?thesis using ops(1) [OF Inl] Some by (simp add: futex_wake_op_def Let_def)
    next
      case (Inr v)
      obtain rest u where u: "copy_to_user (fx_user st) uaddr2 (le_bytes 4 v) = (rest, u)" by fastforce
      obtain n st1 where st1: "do_private_futex_wake uaddr (sint val) False 0 (st\<lparr>fx_user := u\<rparr>) = Inr (n, st1)" "futex_inv st1 sl"
        using wake [OF inv] by blast
      obtain m st2 where "do_private_futex_wake uaddr2 (sint val2) False 0 st1 = Inr (m, st2)" "futex_inv st2 sl"
        using wake_inv [OF st1(2)] by blast
      then show ?thesis using Some Inr inv ops(2) u st1
        by (cases "futex_cmp val3 (le_word bs)") (auto simp: futex_wake_op_def Let_def)
    qed
  qed
qed

lemma good_requeue: "futex_inv st sl \<Longrightarrow> futex_good sl (futex_cmp_requeue_pi uaddr val val2 uaddr2 val3 st)"
proof -
  assume inv: "futex_inv st sl"
  obtain n st1 where st1: "do_private_futex_wake uaddr (sint val) False 0 st = Inr (n, st1)" "futex_inv st1 sl" using wake_inv [OF inv] by blast
  obtain m st2 where "requeue_loop uaddr uaddr2 (unat val2) (pfutex_get uaddr st1) n st1 = Inr (m, st2)" "futex_inv st2 sl"
    using requeue_inv [OF st1(2) futex_invD(2) [OF st1(2)]] by blast
  then show ?thesis using inv st1 by (auto simp: futex_cmp_requeue_pi_def split: option.split)
qed

lemma good_private_futex:
  "futex_inv st sl \<Longrightarrow> fx_mem st new = None \<Longrightarrow> futex_good sl (do_private_futex new now tid uaddr op val timeout_ptr uaddr2 val3 st)"
  using good_wake [of st sl uaddr _ _ _ "\<lambda>r. r"] good_wake [of st sl uaddr 1 False 0 "\<lambda>r. 0"]
  by (simp add: do_private_futex_def Let_def good_wait good_wake_op good_requeue good_timeout good_lock_pi wait_inv)

lemma good_futex:
  "futex_inv st sl \<Longrightarrow> fx_mem st new = None \<Longrightarrow> futex_good sl (sys_futex new now tid uaddr op val timeout_ptr uaddr2 val3 st)"
  by (auto simp: sys_futex_def good_private_futex split: option.split)

lemma end_inv:
  assumes "futex_inv st sl" "e \<in> fx_signalled st"
  shows "\<exists>r st'. private_wait_end e cause requeue st = Inr (r, st') \<and> futex_inv st' (sl(e := None))"
proof -
  note D = futex_invD [OF assms(1)]
  obtain x where x: "fx_mem st e = Some x" and out: "\<And>a. e \<notin> set (pfutex_get a st)" using D(4) [of e] assms(2) by auto
  let ?st = "st\<lparr>fx_mem := (fx_mem st)(e := None), fx_signalled := fx_signalled st - {e}\<rparr>"
  have "futex_inv ?st (sl(e := None))"
  proof (rule futex_invI)
    show "\<exists>x. fx_mem ?st y = Some x \<and> pe_uaddr x = a" if "y \<in> set (pfutex_get a ?st)" for a y
      using that out [of a] D(3) [of y a] by auto
    show "y \<in> fx_signalled ?st \<longleftrightarrow> fx_mem ?st y \<noteq> None \<and> (\<forall>a. y \<notin> set (pfutex_get a ?st))" for y using D(4) [of y] by auto
  qed (use D(1,2) in auto)
  then show ?thesis using x by (simp add: private_wait_end_def Let_def)
qed

lemma futex_run_inv: "futex_run st sl \<Longrightarrow> futex_inv st sl"
proof (induction rule: futex_run.induct)
  case (start u)
  then show ?case by (simp add: futex_inv_def pfutex_get_def)
next
  case (returns st sl new now tid uaddr op val timeout_ptr uaddr2 val3 r st')
  then show ?case using good_futex [of st sl new now tid uaddr op val timeout_ptr uaddr2 val3] by simp
next
  case (sleeps st sl new now tid uaddr op val timeout_ptr uaddr2 val3 e deadline requeue st')
  then show ?case using good_futex [of st sl new now tid uaddr op val timeout_ptr uaddr2 val3] by (simp add: fun_upd_def)
next
  case (wakes st sl e requeue r st')
  then show ?case using end_inv [of st sl e Signalled requeue] by (auto simp: fun_upd_def)
qed simp

text \<open>
  C9: As long as sleepers come back only because they were signalled, no call of \<open>futex\<close> touches a
  freed entry, and every sleeping thread is either in the list of the address its entry names or
  already signalled: none is lost.
\<close>

theorem futex_untimed_safe:
  assumes "futex_run st sl" "fx_mem st new = None"
  shows "sys_futex new now tid uaddr op val timeout_ptr uaddr2 val3 st \<noteq> Inl Freed_access \<and>
    (\<forall>e. sl e \<noteq> None \<longrightarrow> (\<exists>x. fx_mem st e = Some x \<and> (e \<in> set (pfutex_get (pe_uaddr x) st) \<or> e \<in> fx_signalled st)))"
proof -
  note inv = futex_run_inv [OF assms(1)]
  have "sys_futex new now tid uaddr op val timeout_ptr uaddr2 val3 st \<noteq> Inl Freed_access"
    using good_futex [OF inv assms(2), of now tid uaddr op val timeout_ptr uaddr2 val3] by auto
  moreover have "\<exists>x. fx_mem st e = Some x \<and> (e \<in> set (pfutex_get (pe_uaddr x) st) \<or> e \<in> fx_signalled st)" if sl: "sl e \<noteq> None" for e
  proof -
    obtain x where x: "fx_mem st e = Some x" using sl futex_invD(1) [OF inv, of e] by auto
    show ?thesis
    proof (cases "e \<in> fx_signalled st")
      case False
      then obtain a where a: "e \<in> set (pfutex_get a st)" using futex_invD(4) [OF inv, of e] x by auto
      then show ?thesis using futex_invD(3) [OF inv a] x by auto
    qed (use x in simp)
  qed
  ultimately show ?thesis by blast
qed

text \<open>A thread that waits at an address, with the entry 7.\<close>

definition ex_fx :: futex_state where
  "ex_fx = \<lparr>fx_lists = [0x1000 \<mapsto> [7]], fx_mem = [7 \<mapsto> \<lparr>pe_uaddr = 0x1000, pe_bitset = FUTEX_BITSET_MATCH_ANY\<rparr>],
     fx_user = undefined, fx_signalled = {}\<rparr>"

definition ex_now :: timespec where
  "ex_now = \<lparr>tv_sec = 5, tv_nsec = 0\<rparr>"

lemma ex_fx_run: "futex_run ex_fx (Map.empty(7 := Some None))"
proof -
  have "sys_futex 7 ex_now 1 0x1000 137 0 0 0 FUTEX_BITSET_MATCH_ANY
      \<lparr>fx_lists = Map.empty, fx_mem = Map.empty, fx_user = undefined, fx_signalled = {}\<rparr> = Inr (Sleep 7 None None, ex_fx)"
    by (simp add: sys_futex_def do_private_futex_def with_timeout_def private_wait_def list_add_tail_def pfutex_get_def pfutex_set_def ex_fx_def)
  from futex_run.sleeps [OF futex_run.start _ this] show ?thesis by simp
qed

lemma ex_fx_mem: "fx_mem ex_fx 8 = None" "pfutex_get 0x1000 ex_fx = [7]" "fx_signalled ex_fx = {}"
  by (simp_all add: ex_fx_def pfutex_get_def)

theorem futex_untimed_safe_witness:
  "futex_run ex_fx (Map.empty(7 := Some None)) \<and> sys_futex 8 ex_now 1 0x1000 129 1 0 0 0 ex_fx \<noteq> Inl Freed_access \<and>
    (\<exists>x. fx_mem ex_fx 7 = Some x \<and> (7 \<in> set (pfutex_get (pe_uaddr x) ex_fx) \<or> 7 \<in> fx_signalled ex_fx))"
proof -
  note safe = futex_untimed_safe [OF ex_fx_run ex_fx_mem(1), of ex_now 1 "0x1000" 129 1 0 0 0]
  show ?thesis by (intro conjI ex_fx_run safe [THEN conjunct1] safe [THEN conjunct2, rule_format]) simp
qed

section \<open>First in, first out\<close>

text \<open>How many of \<open>n\<close> waiters a count wakes: a negative count never reaches zero.\<close>

definition woken_by :: "int \<Rightarrow> nat \<Rightarrow> nat" where
  "woken_by count n = (if count < 0 then n else min (nat count) n)"

lemma woken_by_simps: "woken_by count 0 = 0" "woken_by 0 n = 0"
  "count \<noteq> 0 \<Longrightarrow> woken_by count (Suc n) = Suc (woken_by (count - 1) n)"
  by (auto simp: woken_by_def min_def)

text \<open>
  The loop reads the entries that it wakes and the one behind them: when all of these are allocated it
  wakes the first ones, otherwise it reads freed memory.
\<close>

lemma wake_loop_touches:
  fixes ps :: "nat list" and count :: int
  defines "k \<equiv> woken_by count (length ps)"
  shows "\<forall>p \<in> set (take (Suc k) ps). heap p \<noteq> None \<Longrightarrow> wake_loop heap False bs count ps = Inr (int k, take k ps, drop k ps)"
    and "\<exists>p \<in> set (take (Suc k) ps). heap p = None \<Longrightarrow> wake_loop heap False bs count ps = Inl Freed_access"
  unfolding k_def
proof (induction ps arbitrary: count)
  case (Cons p ps)
  {
    case 1
    then show ?case using Cons.IH(1) [of "count - 1"] by (cases "count = 0") (auto simp: woken_by_simps)
  next
    case 2
    show ?case
    proof (cases "heap p")
      case (Some e)
      then have "count \<noteq> 0" using 2 by (auto simp: woken_by_simps)
      then show ?thesis using 2 Some Cons.IH(2) [of "count - 1"] by (auto simp: woken_by_simps)
    qed simp
  }
qed (simp_all add: woken_by_simps)

lemma wake_loop_fifo:
  "\<forall>p \<in> set ps. heap p \<noteq> None \<Longrightarrow>
    wake_loop heap False bs count ps = Inr (int (woken_by count (length ps)), take (woken_by count (length ps)) ps, drop (woken_by count (length ps)) ps)"
  by (intro wake_loop_touches(1)) (auto dest: in_set_takeD)

text \<open>
  C28: As long as none of the waiters that it comes to has freed its entry, which only one that timed out or
  was interrupted does while it is in the list, a wake-up signals the waiters of the address in the order
  in which they came, as many as the count says, all of them for a negative one, returns their number,
  leaves the others in their order, and leaves the lists of other addresses and all entries alone.
  The waiters that it comes to are those that it signals and the one behind them.
\<close>

theorem futex_wake_fifo:
  fixes st uaddr count
  defines "l \<equiv> pfutex_get uaddr st" and "k \<equiv> woken_by count (length (pfutex_get uaddr st))"
  assumes "\<forall>e \<in> set (take (Suc k) l). fx_mem st e \<noteq> None"
  shows "do_futex_wake uaddr count st =
      Inr (int k, st\<lparr>fx_lists := (fx_lists st)(uaddr := Some (drop k l)), fx_signalled := fx_signalled st \<union> set (take k l)\<rparr>)"
  using wake_loop_touches(1) [of count l "fx_mem st" 0] assms
  by (simp add: do_futex_wake_def do_private_futex_wake_def pfutex_set_def l_def k_def)

theorem futex_wake_fifo_witness:
  "futex_run ex_fx (Map.empty(7 := Some None)) \<and> (\<exists>st'. do_futex_wake 0x1000 1 ex_fx = Inr (1, st') \<and> fx_signalled st' = {7})"
  using futex_wake_fifo [of 1 "0x1000" ex_fx] ex_fx_run by (simp add: ex_fx_mem woken_by_def) (simp add: ex_fx_def)

section \<open>What a timeout leaves behind\<close>

text \<open>
  C37: A waiter that times out frees its entry without taking it off the list.  The next wake-up of the
  address then reads freed memory exactly when it comes to that entry: when the waiters before it are not
  more than those that are to be woken.
\<close>

theorem futex_timeout_dangles:
  fixes st uaddr
  defines "l \<equiv> pfutex_get uaddr st"
  assumes "futex_run st sl" "i < length l" "private_wait_end (l ! i) Timed_out requeue st = Inr (r, st')"
  shows "pfutex_get uaddr st' = l \<and>
    (do_futex_wake uaddr count st' = Inl Freed_access \<longleftrightarrow> i \<le> woken_by count (length l))"
proof -
  let ?k = "woken_by count (length l)"
  note inv = futex_run_inv [OF assms(2)]
  have st': "pfutex_get uaddr st' = l" "fx_mem st' = (fx_mem st)(l ! i := None)"
    using assms(4) by (auto simp: private_wait_end_def Let_def l_def split: option.splits)
  have d: "distinct l" using inv by (simp add: futex_inv_def l_def)
  have live: "\<forall>e \<in> set l. fx_mem st e \<noteq> None" using inv_lists(1) [OF inv, of uaddr] by (simp add: l_def)
  have in_take: "l ! i \<in> set (take (Suc ?k) l) \<longleftrightarrow> i \<le> ?k"
  proof
    assume "l ! i \<in> set (take (Suc ?k) l)"
    then obtain j where "j < length (take (Suc ?k) l)" "l ! i = take (Suc ?k) l ! j" by (metis in_set_conv_nth)
    then have "j \<le> ?k" "l ! i = l ! j" "j < length l" by simp_all
    then show "i \<le> ?k" using d assms(3) by (simp add: nth_eq_iff_index_eq)
  next
    assume "i \<le> ?k"
    then have "take (Suc ?k) l ! i = l ! i" "i < length (take (Suc ?k) l)" using assms(3) by simp_all
    then show "l ! i \<in> set (take (Suc ?k) l)" by (metis nth_mem)
  qed
  have "wake_loop (fx_mem st') False 0 count l = Inl Freed_access \<longleftrightarrow> i \<le> ?k"
  proof (cases "i \<le> ?k")
    case True
    then show ?thesis using wake_loop_touches(2) [of count l "fx_mem st'" 0] in_take st'(2) by fastforce
  next
    case False
    then have "\<forall>e \<in> set (take (Suc ?k) l). fx_mem st' e \<noteq> None" using in_take live st'(2) by (auto dest: in_set_takeD)
    then show ?thesis using wake_loop_touches(1) [of count l "fx_mem st'" 0] False by simp
  qed
  moreover have "do_futex_wake uaddr count st' = Inl Freed_access \<longleftrightarrow> wake_loop (fx_mem st') False 0 count l = Inl Freed_access"
    by (cases "wake_loop (fx_mem st') False 0 count l") (auto simp: do_futex_wake_def do_private_futex_wake_def st'(1))
  ultimately show ?thesis using st'(1) by blast
qed

theorem futex_timeout_dangles_witness:
  "private_wait_end 7 Timed_out None ex_fx = Inr (- 110, ex_fx\<lparr>fx_mem := Map.empty\<rparr>) \<and>
    do_futex_wake 0x1000 1 (ex_fx\<lparr>fx_mem := Map.empty\<rparr>) = Inl Freed_access"
proof -
  have e: "private_wait_end 7 Timed_out None ex_fx = Inr (- 110, ex_fx\<lparr>fx_mem := Map.empty\<rparr>)"
    by (simp add: private_wait_end_def ex_fx_def)
  show ?thesis using e futex_timeout_dangles [OF ex_fx_run, of 0 "0x1000"] by (simp add: ex_fx_mem)
qed

text \<open>
  \<open>FUTEX_WAIT_BITSET\<close> sleeps without comparing the word at the address with the expected value,
  whatever both are: a wake-up between the guest's test and the call is missed.
\<close>

theorem futex_wait_bitset_unchecked:
  assumes "futex_run st sl" "fx_mem st new = None" "op AND 255 = 128 OR 9"
  shows "\<exists>st'. sys_futex new now tid uaddr op val 0 uaddr2 val3 st = Inr (Sleep new None None, st') \<and>
    pfutex_get uaddr st' = pfutex_get uaddr st @ [new]"
proof -
  have "op AND 128 = (op AND 255) AND 128" "(op AND NOT 128) AND 127 = (op AND 255) AND 127"
    by (simp_all add: and.assoc)
  then have op: "op AND 128 \<noteq> 0" "(op AND NOT 128) AND 127 = 9" using assms(3) by simp_all
  have "pfutex_get uaddr st = [] \<or> fx_mem st (last (pfutex_get uaddr st)) \<noteq> None \<and> last (pfutex_get uaddr st) \<noteq> new"
    using inv_lists(1) [OF futex_run_inv [OF assms(1)], of uaddr] assms(2) last_in_set by metis
  then have "pfutex_get uaddr st = [] \<or> ((fx_mem st)(new := Some e)) (last (pfutex_get uaddr st)) \<noteq> None" for e by auto
  then show ?thesis
    unfolding sys_futex_def do_private_futex_def Let_def op(2) if_P [OF op(1)]
    by (simp add: with_timeout_def private_wait_def list_add_tail_def Let_def)
qed

theorem futex_wait_bitset_unchecked_witness:
  "\<exists>st'. sys_futex 8 ex_now 1 0x1000 137 5 0 0 1 ex_fx = Inr (Sleep 8 None None, st') \<and> pfutex_get 0x1000 st' = [7, 8]"
  using futex_wait_bitset_unchecked [OF ex_fx_run ex_fx_mem(1), of 137 ex_now 1 "0x1000" 5 0 1] by (simp add: ex_fx_mem)

end
