(* ===== verification/Khash.thy ===== *)
theory Khash
  imports Prelude
begin

text \<open>
  The hash tables of \<open>include/util/khash.h\<close> for keys of 64 bits, which hold the lists of waiters of the
  futexes: open addressing with triangular probing in a table whose size is a power of two, two bits
  of flags per bucket (empty, deleted), and a resize that moves the elements within the arrays.  The
  arrays are lists and an access behind the end of one ends the run.  Whether an allocation succeeds and
  what fresh memory holds are arguments.  The loops get fuel: the probing visits every bucket before it
  comes back, so twice the number of buckets is enough, and a chain of moves empties one bucket of the old
  table per turn.
\<close>

section \<open>Types\<close>

record 'a kh =
  kh_n_buckets :: "32 word"
  kh_size :: "32 word"
  kh_n_occupied :: "32 word"
  kh_upper_bound :: "32 word"
  kh_flags :: "32 word list"
  kh_keys :: "64 word list"
  kh_vals :: "'a list"

record 'a kh_host =
  kh_alloc_flags :: bool
  kh_alloc_keys :: bool
  kh_alloc_vals :: bool
  kh_junk_key :: "nat \<Rightarrow> 64 word"
  kh_junk_val :: "nat \<Rightarrow> 'a"

definition kh_init :: "'a kh" where
  "kh_init = \<lparr>kh_n_buckets = 0, kh_size = 0, kh_n_occupied = 0, kh_upper_bound = 0, kh_flags = [], kh_keys = [], kh_vals = []\<rparr>"

definition kh_at :: "'a list \<Rightarrow> 32 word \<Rightarrow> 'a run" where
  "kh_at xs i = (if unat i < length xs then Inr (xs ! unat i) else Inl Out_of_bounds)"

definition kh_upd :: "'a list \<Rightarrow> 32 word \<Rightarrow> 'a \<Rightarrow> 'a list run" where
  "kh_upd xs i x = (if unat i < length xs then Inr (xs[unat i := x]) else Inl Out_of_bounds)"

section \<open>Flags\<close>

definition ac_shift :: "32 word \<Rightarrow> nat" where
  "ac_shift i = unat (push_bit 1 (i AND 0xf))"

definition ac_flag :: "32 word list \<Rightarrow> 32 word \<Rightarrow> 32 word \<Rightarrow> bool run" where
  "ac_flag flag i m = bind_run (kh_at flag (drop_bit 4 i)) (\<lambda>w. Inr (drop_bit (ac_shift i) w AND m \<noteq> 0))"

abbreviation ac_isempty :: "32 word list \<Rightarrow> 32 word \<Rightarrow> bool run" where "ac_isempty flag i \<equiv> ac_flag flag i 2"
abbreviation ac_isdel :: "32 word list \<Rightarrow> 32 word \<Rightarrow> bool run" where "ac_isdel flag i \<equiv> ac_flag flag i 1"
abbreviation ac_iseither :: "32 word list \<Rightarrow> 32 word \<Rightarrow> bool run" where "ac_iseither flag i \<equiv> ac_flag flag i 3"

definition ac_clear :: "32 word \<Rightarrow> 32 word list \<Rightarrow> 32 word \<Rightarrow> 32 word list run" where
  "ac_clear m flag i = bind_run (kh_at flag (drop_bit 4 i)) (\<lambda>w.
     kh_upd flag (drop_bit 4 i) (w AND NOT (push_bit (ac_shift i) m)))"

abbreviation ac_set_isempty_false :: "32 word list \<Rightarrow> 32 word \<Rightarrow> 32 word list run" where "ac_set_isempty_false \<equiv> ac_clear 2"
abbreviation ac_set_isboth_false :: "32 word list \<Rightarrow> 32 word \<Rightarrow> 32 word list run" where "ac_set_isboth_false \<equiv> ac_clear 3"

definition ac_set_isdel_true :: "32 word list \<Rightarrow> 32 word \<Rightarrow> 32 word list run" where
  "ac_set_isdel_true flag i = bind_run (kh_at flag (drop_bit 4 i)) (\<lambda>w.
     kh_upd flag (drop_bit 4 i) (w OR push_bit (ac_shift i) 1))"

definition ac_fsize :: "32 word \<Rightarrow> nat" where
  "ac_fsize m = (if m < 16 then 1 else unat (drop_bit 4 m))"

definition all_empty :: "32 word \<Rightarrow> 32 word list" where
  "all_empty n = replicate (ac_fsize n) 0xaaaaaaaa"

section \<open>Numbers\<close>

definition kroundup32 :: "32 word \<Rightarrow> 32 word" where
  "kroundup32 x0 =
    (let x = x0 - 1; x = x OR drop_bit 1 x; x = x OR drop_bit 2 x; x = x OR drop_bit 4 x;
         x = x OR drop_bit 8 x; x = x OR drop_bit 16 x in x + 1)"

text \<open>\<open>(khint_t)(n * 0.77 + 0.5)\<close>: for a power of two the exact value is at least a hundredth away from every integer,
  more than the rounding errors of a \<open>double\<close>.\<close>

definition ac_upper :: "32 word \<Rightarrow> 32 word" where
  "ac_upper n = of_nat ((unat n * 77 + 50) div 100)"

definition kh_int64_hash :: "64 word \<Rightarrow> 32 word" where
  "kh_int64_hash key = ucast (drop_bit 33 key XOR key XOR push_bit 11 key)"

section \<open>Lookup\<close>

fun get_loop :: "nat \<Rightarrow> 'a kh \<Rightarrow> 64 word \<Rightarrow> 32 word \<Rightarrow> 32 word \<Rightarrow> 32 word \<Rightarrow> (32 word) run" where
  "get_loop 0 h key start i step = Inl Out_of_fuel"
| "get_loop (Suc fuel) h key start i step =
    bind_run (ac_isempty (kh_flags h) i) (\<lambda>empty.
    bind_run (ac_isdel (kh_flags h) i) (\<lambda>del.
    bind_run (if empty \<or> del then Inr False else bind_run (kh_at (kh_keys h) i) (\<lambda>k. Inr (k = key))) (\<lambda>found.
    if empty \<or> found
    then bind_run (ac_iseither (kh_flags h) i) (\<lambda>either. Inr (if either then kh_n_buckets h else i))
    else
      let step = step + 1; i = (i + step) AND (kh_n_buckets h - 1) in
      if i = start then Inr (kh_n_buckets h) else get_loop fuel h key start i step)))"

definition kh_get :: "'a kh \<Rightarrow> 64 word \<Rightarrow> (32 word) run" where
  "kh_get h key =
    (if kh_n_buckets h \<noteq> 0
     then let i = kh_int64_hash key AND (kh_n_buckets h - 1) in get_loop (2 * unat (kh_n_buckets h)) h key i i 0
     else Inr 0)"

section \<open>Resizing\<close>

fun find_empty :: "nat \<Rightarrow> 32 word list \<Rightarrow> 32 word \<Rightarrow> 32 word \<Rightarrow> 32 word \<Rightarrow> (32 word) run" where
  "find_empty 0 new_flags new_mask i step = Inl Out_of_fuel"
| "find_empty (Suc fuel) new_flags new_mask i step =
    bind_run (ac_isempty new_flags i) (\<lambda>empty.
    if empty then Inr i
    else let step = step + 1 in find_empty fuel new_flags new_mask ((i + step) AND new_mask) step)"

text \<open>The kick-out process of one element; the result is the table, its old flags and the new flags.\<close>

fun kick_out :: "nat \<Rightarrow> 32 word \<Rightarrow> 64 word \<Rightarrow> 'a \<Rightarrow> 32 word list \<Rightarrow> 'a kh \<Rightarrow> (32 word list \<times> 'a kh) run" where
  "kick_out 0 new_n key val new_flags h = Inl Out_of_fuel"
| "kick_out (Suc fuel) new_n key val new_flags h =
    bind_run (find_empty (2 * unat new_n) new_flags (new_n - 1) (kh_int64_hash key AND (new_n - 1)) 0) (\<lambda>i.
    bind_run (ac_set_isempty_false new_flags i) (\<lambda>new_flags.
    bind_run (if i < kh_n_buckets h then bind_run (ac_iseither (kh_flags h) i) (\<lambda>either. Inr (\<not> either)) else Inr False) (\<lambda>live.
    if live
    then bind_run (kh_at (kh_keys h) i) (\<lambda>key'.
         bind_run (kh_at (kh_vals h) i) (\<lambda>val'.
         bind_run (kh_upd (kh_keys h) i key) (\<lambda>keys.
         bind_run (kh_upd (kh_vals h) i val) (\<lambda>vals.
         bind_run (ac_set_isdel_true (kh_flags h) i) (\<lambda>flags.
         kick_out fuel new_n key' val' new_flags (h\<lparr>kh_keys := keys, kh_vals := vals, kh_flags := flags\<rparr>))))))
    else bind_run (kh_upd (kh_keys h) i key) (\<lambda>keys.
         bind_run (kh_upd (kh_vals h) i val) (\<lambda>vals.
         Inr (new_flags, h\<lparr>kh_keys := keys, kh_vals := vals\<rparr>))))))"

fun rehash :: "32 word \<Rightarrow> nat list \<Rightarrow> 32 word list \<Rightarrow> 'a kh \<Rightarrow> (32 word list \<times> 'a kh) run" where
  "rehash new_n [] new_flags h = Inr (new_flags, h)"
| "rehash new_n (j # js) new_flags h =
    bind_run (ac_iseither (kh_flags h) (of_nat j)) (\<lambda>either.
    if either then rehash new_n js new_flags h
    else bind_run (kh_at (kh_keys h) (of_nat j)) (\<lambda>key.
         bind_run (kh_at (kh_vals h) (of_nat j)) (\<lambda>val.
         bind_run (ac_set_isdel_true (kh_flags h) (of_nat j)) (\<lambda>flags.
         bind_run (kick_out (Suc (unat (kh_n_buckets h))) new_n key val new_flags (h\<lparr>kh_flags := flags\<rparr>)) (\<lambda>(new_flags, h).
         rehash new_n js new_flags h)))))"

definition grown :: "(nat \<Rightarrow> 'b) \<Rightarrow> nat \<Rightarrow> 'b list \<Rightarrow> 'b list" where
  "grown junk n xs = take n xs @ map junk [length xs..<n]"

text \<open>\<open>realloc\<close> of the keys and then of the values to grow; a failure leaves what was grown before.\<close>

definition kh_expand :: "'a kh_host \<Rightarrow> 32 word \<Rightarrow> 'a kh \<Rightarrow> bool \<times> 'a kh" where
  "kh_expand host new_n h =
    (if kh_n_buckets h < new_n
     then if \<not> kh_alloc_keys host then (False, h)
       else let h = h\<lparr>kh_keys := grown (kh_junk_key host) (unat new_n) (kh_keys h)\<rparr> in
         if \<not> kh_alloc_vals host then (False, h)
         else (True, h\<lparr>kh_vals := grown (kh_junk_val host) (unat new_n) (kh_vals h)\<rparr>)
     else (True, h))"

definition kh_resize :: "'a kh_host \<Rightarrow> 32 word \<Rightarrow> 'a kh \<Rightarrow> (int \<times> 'a kh) run" where
  "kh_resize host new_n_buckets h =
    (let new_n = kroundup32 new_n_buckets; new_n = (if new_n < 4 then 4 else new_n) in
     if ac_upper new_n \<le> kh_size h then Inr (0, h)
     else if \<not> kh_alloc_flags host then Inr (- 1, h)
     else case kh_expand host new_n h of
       (False, h) \<Rightarrow> Inr (- 1, h)
     | (True, h) \<Rightarrow>
         bind_run (rehash new_n [0..<unat (kh_n_buckets h)] (all_empty new_n) h) (\<lambda>(new_flags, h).
         let h = (if new_n < kh_n_buckets h
                  then h\<lparr>kh_keys := take (unat new_n) (kh_keys h), kh_vals := take (unat new_n) (kh_vals h)\<rparr> else h) in
         Inr (0, h\<lparr>kh_flags := new_flags, kh_n_buckets := new_n, kh_n_occupied := kh_size h,
                   kh_upper_bound := ac_upper new_n\<rparr>)))"

section \<open>Insertion\<close>

text \<open>
  The probing of \<open>kh_put\<close>: the bucket where it ended, the last deleted bucket on the way and whether it
  came back to its start.
\<close>

fun put_loop :: "nat \<Rightarrow> 'a kh \<Rightarrow> 64 word \<Rightarrow> 32 word \<Rightarrow> 32 word \<Rightarrow> 32 word \<Rightarrow> 32 word \<Rightarrow> (32 word \<times> 32 word \<times> bool) run" where
  "put_loop 0 h key start i step site = Inl Out_of_fuel"
| "put_loop (Suc fuel) h key start i step site =
    bind_run (ac_isempty (kh_flags h) i) (\<lambda>empty.
    bind_run (ac_isdel (kh_flags h) i) (\<lambda>del.
    bind_run (if empty \<or> del then Inr False else bind_run (kh_at (kh_keys h) i) (\<lambda>k. Inr (k = key))) (\<lambda>found.
    if empty \<or> found then Inr (i, site, False)
    else
      let site = (if del then i else site); step = step + 1; i = (i + step) AND (kh_n_buckets h - 1) in
      if i = start then Inr (i, site, True) else put_loop fuel h key start i step site)))"

definition put_place :: "'a kh \<Rightarrow> 64 word \<Rightarrow> (32 word) run" where
  "put_place h key =
    (let n = kh_n_buckets h; i = kh_int64_hash key AND (n - 1) in
     bind_run (ac_isempty (kh_flags h) i) (\<lambda>empty.
     if empty then Inr i
     else bind_run (put_loop (2 * unat n) h key i i 0 n) (\<lambda>(i, site, round).
       let x = (if round then site else n) in
       if x = n then bind_run (ac_isempty (kh_flags h) i) (\<lambda>empty. Inr (if empty \<and> site \<noteq> n then site else i))
       else Inr x)))"

definition put_at :: "64 word \<Rightarrow> 'a kh \<Rightarrow> (32 word \<times> int \<times> 'a kh) run" where
  "put_at key h =
    bind_run (put_place h key) (\<lambda>x.
    bind_run (ac_isempty (kh_flags h) x) (\<lambda>empty.
    bind_run (ac_isdel (kh_flags h) x) (\<lambda>del.
    if empty \<or> del
    then bind_run (kh_upd (kh_keys h) x key) (\<lambda>keys.
         bind_run (ac_set_isboth_false (kh_flags h) x) (\<lambda>flags.
         let h' = h\<lparr>kh_keys := keys, kh_flags := flags, kh_size := kh_size h + 1\<rparr> in
         if empty then Inr (x, 1, h'\<lparr>kh_n_occupied := kh_n_occupied h + 1\<rparr>) else Inr (x, 2, h')))
    else Inr (x, 0, h))))"

definition kh_put :: "'a kh_host \<Rightarrow> 64 word \<Rightarrow> 'a kh \<Rightarrow> (32 word \<times> int \<times> 'a kh) run" where
  "kh_put host key h0 =
    bind_run (if kh_upper_bound h0 \<le> kh_n_occupied h0
              then if push_bit 1 (kh_size h0) < kh_n_buckets h0 then kh_resize host (kh_n_buckets h0 - 1) h0
                else kh_resize host (kh_n_buckets h0 + 1) h0
              else Inr (0, h0)) (\<lambda>(r, h).
    if r < 0 then Inr (kh_n_buckets h, - 1, h) else put_at key h)"

section \<open>Deletion\<close>

definition kh_del :: "32 word \<Rightarrow> 'a kh \<Rightarrow> 'a kh run" where
  "kh_del x h =
    (if x = kh_n_buckets h then Inr h
     else bind_run (ac_iseither (kh_flags h) x) (\<lambda>either.
       if either then Inr h
       else bind_run (ac_set_isdel_true (kh_flags h) x) (\<lambda>flags.
         Inr (h\<lparr>kh_flags := flags, kh_size := kh_size h - 1\<rparr>))))"

definition kh_clear :: "'a kh \<Rightarrow> 'a kh" where
  "kh_clear h = (if kh_flags h = [] then h
     else h\<lparr>kh_flags := all_empty (kh_n_buckets h), kh_size := 0, kh_n_occupied := 0\<rparr>)"

section \<open>The table of futexes (src/ipc/futex.c)\<close>

text \<open>\<open>pfutex_get\<close> over the table itself; \<open>head\<close> is the list head that \<open>malloc\<close> would give.\<close>

definition pfutex_head :: "'a kh_host \<Rightarrow> 64 word \<Rightarrow> 'a \<Rightarrow> 'a kh \<Rightarrow> ('a \<times> 'a kh) run" where
  "pfutex_head host uaddr head h =
    bind_run (kh_put host uaddr h) (\<lambda>(k, ret, h).
    if ret = - 1 then Inl Assert_failed
    else
      bind_run (if ret \<noteq> 0
                then if ret \<noteq> 1 then Inl Assert_failed
                  else bind_run (kh_upd (kh_vals h) k head) (\<lambda>vals. Inr (h\<lparr>kh_vals := vals\<rparr>))
                else Inr h) (\<lambda>h.
      bind_run (kh_at (kh_vals h) k) (\<lambda>v. Inr (v, h))))"

end
