(* ===== verification/KhashProps.thy ===== *)
theory KhashProps
  imports Khash
begin

text \<open>
  The hash table as a finite map: insertion finds its bucket, keeps every other entry and stops, also
  when the table has to be resized first, and the table of the futexes never hits its assertions as long
  as memory can be allocated.
\<close>

section \<open>Flags as predicates\<close>

definition emp :: "32 word list \<Rightarrow> nat \<Rightarrow> bool" where
  "emp fl i \<longleftrightarrow> bit (fl ! (i div 16)) (2 * (i mod 16) + 1)"

definition del :: "32 word list \<Rightarrow> nat \<Rightarrow> bool" where
  "del fl i \<longleftrightarrow> bit (fl ! (i div 16)) (2 * (i mod 16))"

definition has_flags :: "32 word list \<Rightarrow> nat \<Rightarrow> bool" where
  "has_flags fl n \<longleftrightarrow> (\<forall>i < n. i div 16 < length fl)"

lemma unat_nat32: "i < 2 ^ 32 \<Longrightarrow> unat (of_nat i :: 32 word) = i"
  by (simp add: unat_of_nat)

lemma unat_eqI32: "unat a = unat b \<Longrightarrow> a = (b :: 32 word)"
  by (rule unsigned_word_eqI)

lemma unat_drop4: "unat (drop_bit 4 i :: 32 word) = unat i div 16"
proof -
  have "unat (drop_bit 4 i) = unat i div 2 ^ 4" unfolding unat_drop_bit_eq by (rule drop_bit_eq_div)
  then show ?thesis by simp
qed

lemma ac_shift_eq: "ac_shift i = 2 * (unat i mod 16)"
proof -
  have m: "(0xf :: 32 word) = mask 4" by (simp add: mask_eq_exp_minus_1)
  have "unat (i AND 0xf) = take_bit 4 (unat i)"
    unfolding m take_bit_eq_mask [symmetric] unsigned_take_bit_eq ..
  then have u: "unat (i AND 0xf) = unat i mod 16" unfolding take_bit_eq_mod by simp
  then have "unat (2 * (i AND 0xf)) = 2 * (unat i mod 16)"
    by (subst unat_mult_lem [THEN iffD1]) (simp_all add: u)
  then show ?thesis by (simp add: ac_shift_def push_bit_eq_mult mult.commute)
qed

lemma and_flag:
  "(x :: 32 word) AND 1 \<noteq> 0 \<longleftrightarrow> bit x 0" "(x :: 32 word) AND 2 \<noteq> 0 \<longleftrightarrow> bit x 1" "(x :: 32 word) AND 3 \<noteq> 0 \<longleftrightarrow> bit x 0 \<or> bit x 1"
proof -
  show one: "x AND 1 \<noteq> 0 \<longleftrightarrow> bit x 0" using and_exp_eq_0_iff_not_bit [of x 0] by simp
  show two: "x AND 2 \<noteq> 0 \<longleftrightarrow> bit x 1" using and_exp_eq_0_iff_not_bit [of x 1] by simp
  have "(3 :: 32 word) = 1 OR 2" by simp
  then have "x AND 3 = (x AND 1) OR (x AND 2)" by (simp only: bit.conj_disj_distrib)
  then show "x AND 3 \<noteq> 0 \<longleftrightarrow> bit x 0 \<or> bit x 1" using one two by (simp add: or_eq_0_iff)
qed

lemma flag_reads:
  assumes "has_flags fl n" "i < n" "n \<le> 2 ^ 31"
  shows "ac_isempty fl (of_nat i) = Inr (emp fl i)" "ac_isdel fl (of_nat i) = Inr (del fl i)"
    "ac_iseither fl (of_nat i) = Inr (emp fl i \<or> del fl i)"
proof -
  have u: "unat (of_nat i :: 32 word) = i" using assms by (intro unat_nat32) simp
  have "i div 16 < length fl" using assms by (simp add: has_flags_def)
  then have f: "ac_flag fl (of_nat i) m = Inr (drop_bit (2 * (i mod 16)) (fl ! (i div 16)) AND m \<noteq> 0)" for m
    by (simp add: ac_flag_def kh_at_def unat_drop4 ac_shift_eq u)
  show "ac_isempty fl (of_nat i) = Inr (emp fl i)" "ac_isdel fl (of_nat i) = Inr (del fl i)"
      "ac_iseither fl (of_nat i) = Inr (emp fl i \<or> del fl i)"
    unfolding f and_flag emp_def del_def by (auto simp: bit_drop_bit_eq)
qed

lemma shifted_bit:
  assumes "b < 2" "c < 2"
  shows "2 * (i mod 16) \<le> 2 * (j mod 16) + b \<and> 2 * (j mod 16) + b - 2 * (i mod 16) = c \<longleftrightarrow>
    i mod 16 = j mod (16 :: nat) \<and> b = c"
  using assms by (cases "i mod 16" "j mod 16" rule: linorder_cases) auto

lemma bit_push:
  assumes "b < 2"
  shows "bit (push_bit (2 * (i mod 16)) (1 :: 32 word)) (2 * (j mod 16) + b) \<longleftrightarrow> i mod 16 = j mod 16 \<and> b = 0"
    "bit (push_bit (2 * (i mod 16)) (2 :: 32 word)) (2 * (j mod 16) + b) \<longleftrightarrow> i mod 16 = j mod 16 \<and> b = 1"
    "bit (push_bit (2 * (i mod 16)) (3 :: 32 word)) (2 * (j mod 16) + b) \<longleftrightarrow> i mod 16 = j mod 16"
proof -
  have r: "2 * (j mod 16) + b < 32" using assms by simp
  have one: "bit (1 :: 32 word) m \<longleftrightarrow> m = 0" and two: "bit (2 :: 32 word) m \<longleftrightarrow> m = 1" for m
    using bit_exp_iff [of 1 m, where 'a = "32 word"] by (auto simp: bit_1_iff)
  have three: "bit (3 :: 32 word) m \<longleftrightarrow> m = 0 \<or> m = 1" for m
  proof -
    have "(3 :: 32 word) = 1 OR 2" by simp
    then show ?thesis unfolding bit_or_iff [symmetric] one [symmetric] two [symmetric] by simp
  qed
  show "bit (push_bit (2 * (i mod 16)) (1 :: 32 word)) (2 * (j mod 16) + b) \<longleftrightarrow> i mod 16 = j mod 16 \<and> b = 0"
    unfolding bit_push_bit_iff one using r shifted_bit [OF assms, of 0 i j] by auto
  show "bit (push_bit (2 * (i mod 16)) (2 :: 32 word)) (2 * (j mod 16) + b) \<longleftrightarrow> i mod 16 = j mod 16 \<and> b = 1"
    unfolding bit_push_bit_iff two using r shifted_bit [OF assms, of 1 i j] by auto
  show "bit (push_bit (2 * (i mod 16)) (3 :: 32 word)) (2 * (j mod 16) + b) \<longleftrightarrow> i mod 16 = j mod 16"
    unfolding bit_push_bit_iff three
    using r assms shifted_bit [OF assms, of 0 i j] shifted_bit [OF assms, of 1 i j] by (auto simp: less_2_cases_iff)
qed

lemma bit_pushes:
  "bit (push_bit (2 * (i mod 16)) (1 :: 32 word)) (2 * (j mod 16)) \<longleftrightarrow> i mod 16 = j mod 16"
  "\<not> bit (push_bit (2 * (i mod 16)) (1 :: 32 word)) (2 * (j mod 16) + 1)"
  "\<not> bit (push_bit (2 * (i mod 16)) (2 :: 32 word)) (2 * (j mod 16))"
  "bit (push_bit (2 * (i mod 16)) (2 :: 32 word)) (2 * (j mod 16) + 1) \<longleftrightarrow> i mod 16 = j mod 16"
  "bit (push_bit (2 * (i mod 16)) (3 :: 32 word)) (2 * (j mod 16)) \<longleftrightarrow> i mod 16 = j mod 16"
  "bit (push_bit (2 * (i mod 16)) (3 :: 32 word)) (2 * (j mod 16) + 1) \<longleftrightarrow> i mod 16 = j mod 16"
proof -
  have "(0 :: nat) < 2" "(1 :: nat) < 2" by simp_all
  note facts = bit_push [OF this(1), of i j] bit_push [OF this(2), of i j]
  show "bit (push_bit (2 * (i mod 16)) (1 :: 32 word)) (2 * (j mod 16)) \<longleftrightarrow> i mod 16 = j mod 16"
      "\<not> bit (push_bit (2 * (i mod 16)) (1 :: 32 word)) (2 * (j mod 16) + 1)"
      "\<not> bit (push_bit (2 * (i mod 16)) (2 :: 32 word)) (2 * (j mod 16))"
      "bit (push_bit (2 * (i mod 16)) (2 :: 32 word)) (2 * (j mod 16) + 1) \<longleftrightarrow> i mod 16 = j mod 16"
      "bit (push_bit (2 * (i mod 16)) (3 :: 32 word)) (2 * (j mod 16)) \<longleftrightarrow> i mod 16 = j mod 16"
      "bit (push_bit (2 * (i mod 16)) (3 :: 32 word)) (2 * (j mod 16) + 1) \<longleftrightarrow> i mod 16 = j mod 16"
    using facts unfolding add_0_right by (metis zero_neq_one)+
qed

lemma index_split: "j div 16 = i div 16 \<Longrightarrow> i mod 16 = j mod 16 \<longleftrightarrow> j = (i :: nat)"
  by (metis div_mult_mod_eq)

lemma bit_andnot: "bit (w AND NOT x :: 32 word) n \<longleftrightarrow> bit w n \<and> \<not> bit x n"
  by (auto simp: bit_and_iff bit_not_iff dest: bit_imp_possible_bit)

text \<open>The three changes of a flag that the operations make.\<close>

lemma flag_writes:
  assumes "has_flags fl n" "i < n" "n \<le> 2 ^ 31"
  obtains fe fb fd where
    "ac_set_isempty_false fl (of_nat i) = Inr fe" "length fe = length fl" "\<And>j. emp fe j = (j \<noteq> i \<and> emp fl j)" "\<And>j. del fe j = del fl j"
    "ac_set_isboth_false fl (of_nat i) = Inr fb" "length fb = length fl" "\<And>j. emp fb j = (j \<noteq> i \<and> emp fl j)" "\<And>j. del fb j = (j \<noteq> i \<and> del fl j)"
    "ac_set_isdel_true fl (of_nat i) = Inr fd" "length fd = length fl" "\<And>j. emp fd j = emp fl j" "\<And>j. del fd j = (j = i \<or> del fl j)"
proof -
  have u: "unat (of_nat i :: 32 word) = i" using assms by (intro unat_nat32) simp
  have q: "i div 16 < length fl" using assms by (simp add: has_flags_def)
  let ?w = "fl ! (i div 16)" and ?s = "2 * (i mod 16)"
  let ?fe = "fl[i div 16 := ?w AND NOT (push_bit ?s 2)]" and ?fb = "fl[i div 16 := ?w AND NOT (push_bit ?s 3)]"
  let ?fd = "fl[i div 16 := ?w OR push_bit ?s 1]"
  have runs: "ac_set_isempty_false fl (of_nat i) = Inr ?fe" "ac_set_isboth_false fl (of_nat i) = Inr ?fb"
      "ac_set_isdel_true fl (of_nat i) = Inr ?fd"
    using q by (simp_all add: ac_clear_def ac_set_isdel_true_def kh_at_def kh_upd_def unat_drop4 ac_shift_eq u)
  have upd: "fl[i div 16 := x] ! (j div 16) = (if j div 16 = i div 16 then x else fl ! (j div 16))" for x j
    using q by (simp add: nth_list_update)
  have f: "emp ?fe j = (j \<noteq> i \<and> emp fl j)" "del ?fe j = del fl j" "emp ?fb j = (j \<noteq> i \<and> emp fl j)"
      "del ?fb j = (j \<noteq> i \<and> del fl j)" "emp ?fd j = emp fl j" "del ?fd j = (j = i \<or> del fl j)" for j
  proof -
    show "emp ?fe j = (j \<noteq> i \<and> emp fl j)" "del ?fe j = del fl j" "emp ?fb j = (j \<noteq> i \<and> emp fl j)"
        "del ?fb j = (j \<noteq> i \<and> del fl j)" "emp ?fd j = emp fl j" "del ?fd j = (j = i \<or> del fl j)"
      unfolding emp_def del_def upd
      by (cases "j div 16 = i div 16"; auto simp only: bit_andnot bit_or_iff bit_pushes index_split if_True if_False)+
  qed
  show ?thesis by (rule that [OF runs(1) _ f(1,2) runs(2) _ f(3,4) runs(3) _ f(5,6)]) simp_all
qed

lemma has_flags_length: "length fl' = length fl \<Longrightarrow> has_flags fl' n = has_flags fl n"
  by (simp add: has_flags_def)

lemma all_empty_flags:
  assumes "unat n = 2 ^ k" "k \<le> 31"
  shows "has_flags (all_empty n) (2 ^ k)" "i < 2 ^ k \<Longrightarrow> emp (all_empty n) i" "i < 2 ^ k \<Longrightarrow> \<not> del (all_empty n) i"
proof -
  have f: "i div 16 < ac_fsize n" if "i < 2 ^ k" for i
  proof (cases "n < 16")
    case True
    then have "2 ^ k < (16 :: nat)" using assms(1) by (simp add: word_less_nat_alt)
    then show ?thesis using True that by (simp add: ac_fsize_def)
  next
    case False
    then have "16 \<le> (2 :: nat) ^ k" using assms(1) by (simp add: word_less_nat_alt not_less)
    then have "(2 :: nat) ^ 4 \<le> 2 ^ k" by simp
    then have "4 \<le> k" by (rule power_le_imp_le_exp [rotated]) simp
    then have "(2 :: nat) ^ k = 2 ^ (k - 4) * 16" using power_add [of "2 :: nat" "k - 4" 4] by simp
    then show ?thesis using False that assms(1) by (simp add: ac_fsize_def unat_drop4 less_mult_imp_div_less)
  qed
  then show "has_flags (all_empty n) (2 ^ k)" by (simp add: has_flags_def all_empty_def)
  have pat: "bit (0xaaaaaaaa :: 32 word) (2 * m + 1)" "\<not> bit (0xaaaaaaaa :: 32 word) (2 * m)" if "m < 16" for m
  proof -
    have "\<forall>m \<in> set [0..<16]. bit (0xaaaaaaaa :: 32 word) (2 * m + 1) \<and> \<not> bit (0xaaaaaaaa :: 32 word) (2 * m)" by code_simp
    then show "bit (0xaaaaaaaa :: 32 word) (2 * m + 1)" "\<not> bit (0xaaaaaaaa :: 32 word) (2 * m)" using that by simp_all
  qed
  show "emp (all_empty n) i" "\<not> del (all_empty n) i" if "i < 2 ^ k"
    using f [OF that] pat [of "i mod 16"] by (simp_all add: emp_def del_def all_empty_def)
qed

section \<open>Triangular probing\<close>

definition tri :: "nat \<Rightarrow> nat" where
  "tri s = s * (s + 1) div 2"

definition pos :: "nat \<Rightarrow> nat \<Rightarrow> nat \<Rightarrow> nat" where
  "pos n a s = (a + tri s) mod n"

lemma tri_double: "2 * tri s = s * (s + 1)"
  by (simp add: tri_def)

lemma tri_Suc: "tri (Suc s) = tri s + Suc s"
  using tri_double [of s] tri_double [of "Suc s"] by (simp add: algebra_simps)

lemma pos_Suc: "pos n a (Suc s) = (pos n a s + Suc s) mod n"
  unfolding pos_def tri_Suc mod_add_left_eq add.assoc ..

lemma pos_0: "a < n \<Longrightarrow> pos n a 0 = a"
  by (simp add: pos_def tri_def)

lemma pos_less: "0 < n \<Longrightarrow> pos n a s < n"
  by (simp add: pos_def)

text \<open>The first \<open>2\<^sup>k\<close> probes of a table of that size visit different buckets, so they visit all.\<close>

lemma odd_part:
  assumes "2 ^ m dvd x * y" "odd (x :: nat)"
  shows "2 ^ m dvd y"
  using assms by (metis coprime_dvd_mult_right_iff coprime_power_left_iff coprime_left_2_iff_odd)

lemma pos_distinct:
  assumes "i < j" "j < 2 ^ k"
  shows "pos (2 ^ k) a i \<noteq> pos (2 ^ k) a j"
proof
  assume "pos (2 ^ k) a i = pos (2 ^ k) a j"
  then have eq: "(a + tri j) mod 2 ^ k = (a + tri i) mod 2 ^ k" by (simp add: pos_def)
  define d where "d = j - i"
  have j: "j = i + d" "0 < d" using assms(1) by (simp_all add: d_def)
  have le: "2 * tri j = 2 * tri i + d * (2 * i + d + 1)" unfolding tri_double j by (simp add: algebra_simps)
  then have "2 * (a + tri i) \<le> 2 * (a + tri j)" by simp
  then have "2 ^ k dvd (a + tri j) - (a + tri i)" using eq mod_eq_dvd_iff_nat [of "a + tri i" "a + tri j" "2 ^ k"] by simp
  then have "2 * 2 ^ k dvd 2 * ((a + tri j) - (a + tri i))" by (rule mult_dvd_mono [OF dvd_refl])
  moreover have "2 * ((a + tri j) - (a + tri i)) = d * (2 * i + d + 1)" using le by simp
  ultimately have dvd: "2 ^ Suc k dvd d * (2 * i + d + 1)" by (simp only: power_Suc)
  have "2 ^ Suc k dvd d \<or> 2 ^ Suc k dvd 2 * i + d + 1"
  proof (cases "odd d")
    case True
    then show ?thesis using odd_part [OF dvd] by simp
  next
    case False
    then have "odd (2 * i + d + 1)" by simp
    then show ?thesis using odd_part [of "Suc k" "2 * i + d + 1" d] dvd by (simp add: mult.commute)
  qed
  moreover have "d < 2 ^ Suc k" "2 * i + d + 1 < 2 ^ Suc k" using assms j by simp_all
  ultimately show False using j(2) by (auto dest!: dvd_imp_le)
qed

lemma pos_inj: "inj_on (pos (2 ^ k) a) {..<2 ^ k}"
proof (rule inj_onI)
  fix x y assume xy: "x \<in> {..<2 ^ k}" "y \<in> {..<2 ^ k}" "pos (2 ^ k) a x = pos (2 ^ k) a y"
  then show "x = y" using pos_distinct [of x y k a] pos_distinct [of y x k a] by (cases x y rule: linorder_cases) auto
qed

lemma pos_onto:
  assumes "i < 2 ^ k"
  obtains s where "s < 2 ^ k" "pos (2 ^ k) a s = i"
proof -
  have "pos (2 ^ k) a ` {..<2 ^ k} = {..<2 ^ k}"
    by (rule card_subset_eq) (auto simp: card_image [OF pos_inj] pos_less)
  then have "i \<in> pos (2 ^ k) a ` {..<2 ^ k}" using assms by simp
  then show ?thesis using that by auto
qed

text \<open>The step in words, for a table of \<open>2\<^sup>k\<close> buckets.\<close>

lemma mask_index:
  assumes "unat (n :: 32 word) = 2 ^ k" "k \<le> 31"
  shows "unat (x AND (n - 1)) = unat x mod 2 ^ k"
proof -
  have "(2 :: nat) ^ k < 2 ^ 32" using assms(2) by (intro power_strict_increasing) simp_all
  from unat_nat32 [OF this] have "n = of_nat (2 ^ k)" using assms(1) by (intro unat_eqI32) simp
  then have "n = 2 ^ k" by simp
  then have "n - 1 = mask k" by (simp add: mask_eq_exp_minus_1)
  then have "unat (x AND (n - 1)) = take_bit k (unat x)" by (simp add: take_bit_eq_mask [symmetric] unsigned_take_bit_eq)
  then show ?thesis by (simp add: take_bit_eq_mod)
qed

lemma probe_step:
  assumes "unat (n :: 32 word) = 2 ^ k" "k \<le> 31"
  shows "(of_nat (pos (2 ^ k) a s) + (of_nat s + 1)) AND (n - 1) = of_nat (pos (2 ^ k) a (Suc s))"
proof -
  have w: "of_nat (pos (2 ^ k) a s) + (of_nat s + 1) = (of_nat (pos (2 ^ k) a s + Suc s) :: 32 word)" by simp
  have d: "(2 :: nat) ^ k dvd 2 ^ 32" using assms(2) by (intro le_imp_power_dvd) simp
  have "pos (2 ^ k) a (Suc s) < 2 ^ 32" using pos_less [of "2 ^ k" a "Suc s"] power_increasing [of k 32 "2 :: nat"] assms(2) by simp
  moreover have "unat (of_nat (pos (2 ^ k) a s + Suc s) AND (n - 1) :: 32 word) = pos (2 ^ k) a (Suc s)"
    unfolding mask_index [OF assms] pos_Suc unat_of_nat using mod_mod_cancel [OF d] by simp
  ultimately show ?thesis unfolding w by (intro unat_eqI32) (simp add: unat_nat32)
qed

section \<open>The loops\<close>

definition home :: "nat \<Rightarrow> 64 word \<Rightarrow> nat" where
  "home k key = unat (kh_int64_hash key) mod 2 ^ k"

abbreviation probe :: "nat \<Rightarrow> 64 word \<Rightarrow> nat \<Rightarrow> nat" where
  "probe k key \<equiv> pos (2 ^ k) (home k key)"

lemma probe_0: "probe k key 0 = home k key"
  by (simp add: pos_0 home_def)

lemma probe_less: "probe k key s < 2 ^ k"
  by (simp add: pos_less)

lemma small_power: "k \<le> 31 \<Longrightarrow> (2 :: nat) ^ k \<le> 2 ^ 31"
  by (rule power_increasing) simp_all

lemma unat_probe: "k \<le> 31 \<Longrightarrow> unat (of_nat (probe k key s) :: 32 word) = probe k key s"
  using probe_less [of k key s] small_power [of k] by (intro unat_nat32) simp

lemma probe_eq: "k \<le> 31 \<Longrightarrow> (of_nat (probe k key s) :: 32 word) = of_nat (probe k key t) \<longleftrightarrow> probe k key s = probe k key t"
  by (metis unat_probe)

lemma home_word:
  assumes "unat (n :: 32 word) = 2 ^ k" "k \<le> 31"
  shows "kh_int64_hash key AND (n - 1) = of_nat (probe k key 0)"
  using mask_index [OF assms, of "kh_int64_hash key"] unat_probe [OF assms(2), of key 0]
  by (intro unat_eqI32) (simp add: probe_0, simp add: home_def)

lemma find_empty_run:
  assumes n: "unat n = 2 ^ k" "k \<le> 31" and fl: "has_flags fl (2 ^ k)"
    and stop: "\<forall>t < m. \<not> emp fl (probe k key (s + t))" "emp fl (probe k key (s + m))" and "m < fuel"
  shows "find_empty fuel fl (n - 1) (of_nat (probe k key s)) (of_nat s) = Inr (of_nat (probe k key (s + m)))"
  using stop \<open>m < fuel\<close>
proof (induction fuel arbitrary: s m)
  case (Suc fuel)
  note e = flag_reads(1) [OF fl probe_less small_power [OF n(2)], of key s]
  show ?case
  proof (cases m)
    case 0
    then show ?thesis using Suc.prems(2) e by simp
  next
    case (Suc m')
    then have "\<not> emp fl (probe k key s)" using Suc.prems(1) by (metis add_0_right zero_less_Suc)
    moreover have "\<forall>t < m'. \<not> emp fl (probe k key (Suc s + t))" "emp fl (probe k key (Suc s + m'))" "m' < fuel"
      using Suc.prems Suc by auto
    from Suc.IH [OF this] have "find_empty fuel fl (n - 1) (of_nat (probe k key (Suc s))) (of_nat (Suc s)) =
        Inr (of_nat (probe k key (s + m)))" using Suc by simp
    moreover have "(of_nat s + 1 :: 32 word) = of_nat (Suc s)" by simp
    ultimately show ?thesis using e probe_step [OF n, of "home k key" s] by (simp del: of_nat_Suc)
  qed
qed simp

definition stops :: "'a kh \<Rightarrow> 64 word \<Rightarrow> nat \<Rightarrow> bool" where
  "stops h key i \<longleftrightarrow> emp (kh_flags h) i \<or> \<not> del (kh_flags h) i \<and> kh_keys h ! i = key"

text \<open>The table has the shape of one with \<open>2\<^sup>k\<close> buckets.\<close>

definition shape :: "nat \<Rightarrow> 'a kh \<Rightarrow> bool" where
  "shape k h \<longleftrightarrow> k \<le> 31 \<and> unat (kh_n_buckets h) = 2 ^ k \<and> has_flags (kh_flags h) (2 ^ k) \<and>
     2 ^ k \<le> length (kh_keys h) \<and> 2 ^ k \<le> length (kh_vals h)"

lemma shape_at:
  assumes "shape k h" "i < 2 ^ k"
  shows "kh_at (kh_keys h) (of_nat i) = Inr (kh_keys h ! i)" "kh_at (kh_vals h) (of_nat i) = Inr (kh_vals h ! i)"
    "kh_upd (kh_keys h) (of_nat i) x = Inr ((kh_keys h)[i := x])" "kh_upd (kh_vals h) (of_nat i) v = Inr ((kh_vals h)[i := v])"
    "ac_isempty (kh_flags h) (of_nat i) = Inr (emp (kh_flags h) i)" "ac_isdel (kh_flags h) (of_nat i) = Inr (del (kh_flags h) i)"
    "ac_iseither (kh_flags h) (of_nat i) = Inr (emp (kh_flags h) i \<or> del (kh_flags h) i)"
proof -
  have k: "k \<le> 31" using assms(1) by (simp add: shape_def)
  then have u: "unat (of_nat i :: 32 word) = i" using assms(2) small_power [OF k] by (intro unat_nat32) simp
  show "kh_at (kh_keys h) (of_nat i) = Inr (kh_keys h ! i)" "kh_at (kh_vals h) (of_nat i) = Inr (kh_vals h ! i)"
    "kh_upd (kh_keys h) (of_nat i) x = Inr ((kh_keys h)[i := x])" "kh_upd (kh_vals h) (of_nat i) v = Inr ((kh_vals h)[i := v])"
    using assms by (simp_all add: shape_def kh_at_def kh_upd_def u)
  show "ac_isempty (kh_flags h) (of_nat i) = Inr (emp (kh_flags h) i)" "ac_isdel (kh_flags h) (of_nat i) = Inr (del (kh_flags h) i)"
    "ac_iseither (kh_flags h) (of_nat i) = Inr (emp (kh_flags h) i \<or> del (kh_flags h) i)"
    using assms flag_reads [OF _ assms(2) small_power [OF k]] by (simp_all add: shape_def)
qed

lemma loop_test:
  assumes "shape k h" "i < 2 ^ k"
  shows "bind_run (ac_isempty (kh_flags h) (of_nat i)) (\<lambda>empty.
      bind_run (ac_isdel (kh_flags h) (of_nat i)) (\<lambda>del.
      bind_run (if empty \<or> del then Inr False else bind_run (kh_at (kh_keys h) (of_nat i)) (\<lambda>k. Inr (k = key))) (\<lambda>found.
      if empty \<or> found then A else B del))) = (if stops h key i then A else B (del (kh_flags h) i))"
  by (cases "emp (kh_flags h) i"; cases "del (kh_flags h) i")
    (simp_all add: shape_at [OF assms] stops_def)

lemma loop_next:
  assumes "shape k h" "Suc s < 2 ^ k"
  shows "(of_nat (probe k key s) + (of_nat s + 1)) AND (kh_n_buckets h - 1) = of_nat (probe k key (Suc s))"
    "of_nat (probe k key (Suc s)) \<noteq> (of_nat (probe k key 0) :: 32 word)"
proof -
  show "(of_nat (probe k key s) + (of_nat s + 1)) AND (kh_n_buckets h - 1) = of_nat (probe k key (Suc s))"
    using assms(1) by (intro probe_step) (simp_all add: shape_def)
  show "of_nat (probe k key (Suc s)) \<noteq> (of_nat (probe k key 0) :: 32 word)"
    using probe_eq [of k key "Suc s" 0] pos_distinct [of 0 "Suc s" k "home k key"] assms by (auto simp: shape_def)
qed

lemma put_loop_run:
  assumes sh: "shape k h" and stop: "\<forall>t < m. \<not> stops h key (probe k key (s + t))" "stops h key (probe k key (s + m))"
    and "s + m < 2 ^ k" "m < fuel"
  shows "\<exists>site'. put_loop fuel h key (of_nat (probe k key 0)) (of_nat (probe k key s)) (of_nat s) site =
      Inr (of_nat (probe k key (s + m)), site', False) \<and>
      (site' = site \<or> (\<exists>t < m. site' = of_nat (probe k key (s + t)) \<and> del (kh_flags h) (probe k key (s + t))))"
  using stop \<open>s + m < 2 ^ k\<close> \<open>m < fuel\<close>
proof (induction fuel arbitrary: s m site)
  case (Suc fuel)
  show ?case
  proof (cases m)
    case 0
    then show ?thesis using Suc.prems(2) unfolding put_loop.simps loop_test [OF sh probe_less] by simp
  next
    case (Suc m')
    then have go: "\<not> stops h key (probe k key s)" using Suc.prems(1) by (metis add_0_right zero_less_Suc)
    let ?site = "if del (kh_flags h) (probe k key s) then of_nat (probe k key s) else site"
    have pre: "\<forall>t < m'. \<not> stops h key (probe k key (Suc s + t))" "stops h key (probe k key (Suc s + m'))"
        "Suc s + m' < 2 ^ k" "m' < fuel"
      using Suc.prems Suc by auto
    obtain site' where site: "put_loop fuel h key (of_nat (probe k key 0)) (of_nat (probe k key (Suc s))) (of_nat (Suc s)) ?site =
        Inr (of_nat (probe k key (Suc s + m')), site', False)"
        "site' = ?site \<or> (\<exists>t < m'. site' = of_nat (probe k key (Suc s + t)) \<and> del (kh_flags h) (probe k key (Suc s + t)))"
      using Suc.IH [OF pre] by blast
    have w: "(of_nat s + 1 :: 32 word) = of_nat (Suc s)" by simp
    have "put_loop (Suc fuel) h key (of_nat (probe k key 0)) (of_nat (probe k key s)) (of_nat s) site =
        Inr (of_nat (probe k key (s + m)), site', False)"
      using go loop_next [OF sh, of s key] pre(3) site(1) Suc unfolding put_loop.simps loop_test [OF sh probe_less] Let_def w
      by (simp del: of_nat_Suc)
    moreover have "site' = site \<or> (\<exists>t < m. site' = of_nat (probe k key (s + t)) \<and> del (kh_flags h) (probe k key (s + t)))"
      using site(2)
    proof
      assume "site' = ?site"
      then show ?thesis using Suc by (metis add_0_right zero_less_Suc)
    next
      assume "\<exists>t < m'. site' = of_nat (probe k key (Suc s + t)) \<and> del (kh_flags h) (probe k key (Suc s + t))"
      then obtain t where "t < m'" "site' = of_nat (probe k key (s + Suc t)) \<and> del (kh_flags h) (probe k key (s + Suc t))" by auto
      then show ?thesis using Suc by blast
    qed
    ultimately show ?thesis by blast
  qed
qed simp

lemma get_loop_run:
  assumes sh: "shape k h" and stop: "\<forall>t < m. \<not> stops h key (probe k key (s + t))" "stops h key (probe k key (s + m))"
    and "s + m < 2 ^ k" "m < fuel"
  shows "get_loop fuel h key (of_nat (probe k key 0)) (of_nat (probe k key s)) (of_nat s) =
      Inr (if emp (kh_flags h) (probe k key (s + m)) \<or> del (kh_flags h) (probe k key (s + m))
           then kh_n_buckets h else of_nat (probe k key (s + m)))"
  using stop \<open>s + m < 2 ^ k\<close> \<open>m < fuel\<close>
proof (induction fuel arbitrary: s m)
  case (Suc fuel)
  note at = shape_at [OF sh probe_less [of k key s]]
  show ?case
  proof (cases m)
    case 0
    then show ?thesis using Suc.prems(2) unfolding get_loop.simps loop_test [OF sh probe_less] by (simp add: at)
  next
    case (Suc m')
    then have go: "\<not> stops h key (probe k key s)" using Suc.prems(1) by (metis add_0_right zero_less_Suc)
    have pre: "\<forall>t < m'. \<not> stops h key (probe k key (Suc s + t))" "stops h key (probe k key (Suc s + m'))"
        "Suc s + m' < 2 ^ k" "m' < fuel"
      using Suc.prems Suc by auto
    have w: "(of_nat s + 1 :: 32 word) = of_nat (Suc s)" by simp
    show ?thesis
      using go loop_next [OF sh, of s key] pre(3) Suc.IH [OF pre] Suc unfolding get_loop.simps loop_test [OF sh probe_less] Let_def w
      by (simp del: of_nat_Suc)
  qed
qed simp

section \<open>The table as a map\<close>

definition live :: "'a kh \<Rightarrow> nat \<Rightarrow> bool" where
  "live h i \<longleftrightarrow> i < unat (kh_n_buckets h) \<and> \<not> emp (kh_flags h) i \<and> \<not> del (kh_flags h) i"

definition kh_map :: "'a kh \<Rightarrow> 64 word \<Rightarrow> 'a option" where
  "kh_map h key =
    map_option (\<lambda>i. kh_vals h ! i) (find (\<lambda>i. live h i \<and> kh_keys h ! i = key) [0..<unat (kh_n_buckets h)])"

definition reach :: "nat \<Rightarrow> 32 word list \<Rightarrow> 64 word \<Rightarrow> nat \<Rightarrow> bool" where
  "reach k fl key i \<longleftrightarrow> (\<exists>s < 2 ^ k. probe k key s = i \<and> (\<forall>t < s. \<not> emp fl (probe k key t)))"

text \<open>
  A table of \<open>2\<^sup>k\<close> buckets: the counters count, not all buckets are used, no key is there twice, and no
  bucket on the way to an element is empty.
\<close>

definition kh_wf :: "nat \<Rightarrow> 'a kh \<Rightarrow> bool" where
  "kh_wf k h \<longleftrightarrow> shape k h \<and> 2 \<le> k \<and> k \<le> 30 \<and> kh_upper_bound h = ac_upper (kh_n_buckets h) \<and>
     unat (kh_n_occupied h) = card {i. i < 2 ^ k \<and> \<not> emp (kh_flags h) i} \<and> unat (kh_size h) = card {i. live h i} \<and>
     kh_n_occupied h \<le> kh_upper_bound h \<and> inj_on ((!) (kh_keys h)) {i. live h i} \<and>
     (\<forall>i. live h i \<longrightarrow> reach k (kh_flags h) (kh_keys h ! i) i)"

definition kh_inv :: "'a kh \<Rightarrow> bool" where
  "kh_inv h \<longleftrightarrow> kh_n_buckets h = 0 \<and> kh_size h = 0 \<and> kh_n_occupied h = 0 \<and> kh_upper_bound h = 0 \<or> (\<exists>k. kh_wf k h)"

lemma kh_map_None: "kh_map h key = None \<longleftrightarrow> (\<forall>i. live h i \<longrightarrow> kh_keys h ! i \<noteq> key)"
  by (auto simp: kh_map_def find_None_iff live_def)

lemma kh_map_Some:
  assumes "inj_on ((!) (kh_keys h)) {i. live h i}" "live h i" "kh_keys h ! i = key"
  shows "kh_map h key = Some (kh_vals h ! i)"
proof (cases "find (\<lambda>i. live h i \<and> kh_keys h ! i = key) [0..<unat (kh_n_buckets h)]")
  case None
  then show ?thesis using assms(2,3) by (auto simp: find_None_iff live_def)
next
  case (Some j)
  then have "live h j" "kh_keys h ! j = key" by (auto simp: find_Some_iff)
  then have "j = i" using assms by (auto dest: inj_onD)
  then show ?thesis using Some by (simp add: kh_map_def)
qed

lemma kh_map_iff:
  assumes "inj_on ((!) (kh_keys h)) {i. live h i}"
  shows "kh_map h key = Some v \<longleftrightarrow> (\<exists>i. live h i \<and> kh_keys h ! i = key \<and> kh_vals h ! i = v)"
proof
  assume *: "kh_map h key = Some v"
  then obtain i where "live h i" "kh_keys h ! i = key" using kh_map_None [of h key] by auto
  then show "\<exists>i. live h i \<and> kh_keys h ! i = key \<and> kh_vals h ! i = v" using kh_map_Some [OF assms] * by fastforce
qed (use kh_map_Some [OF assms] in blast)

lemma upper_less:
  assumes "unat n = 2 ^ k" "2 \<le> k" "k \<le> 31"
  shows "unat (ac_upper n) < 2 ^ k" "unat (ac_upper n) = (2 ^ k * 77 + 50) div 100"
proof -
  have "(4 :: nat) \<le> 2 ^ k" using power_increasing [of 2 k "2 :: nat"] assms(2) by simp
  then have l: "(2 ^ k * 77 + 50) div 100 < (2 :: nat) ^ k" by (simp add: div_less_iff_less_mult)
  then have "(2 ^ k * 77 + 50) div 100 < (2 :: nat) ^ 32" using small_power [OF assms(3)] by simp
  then show eq: "unat (ac_upper n) = (2 ^ k * 77 + 50) div 100" using assms(1) by (simp add: ac_upper_def unat_nat32)
  show "unat (ac_upper n) < 2 ^ k" using l eq by simp
qed

lemma some_empty:
  assumes "card {i. i < 2 ^ k \<and> \<not> emp fl i} < 2 ^ k"
  obtains i where "i < 2 ^ k" "emp fl i"
proof -
  have "\<exists>i < 2 ^ k. emp fl i"
  proof (rule ccontr)
    assume "\<not> (\<exists>i < 2 ^ k. emp fl i)"
    then have "{i. i < 2 ^ k \<and> \<not> emp fl i} = {i. i < 2 ^ k}" by blast
    then have "card {i. i < 2 ^ k \<and> \<not> emp fl i} = 2 ^ k" by (simp only: card_Collect_less_nat)
    then show False using assms by (simp only: less_irrefl)
  qed
  then show ?thesis using that by blast
qed

text \<open>The first probe at which a search stops.\<close>

lemma first_stop:
  assumes "i < 2 ^ k" "Q i"
  obtains s where "s < 2 ^ k" "Q (probe k key s)" "\<And>t. t < s \<Longrightarrow> \<not> Q (probe k key t)"
proof -
  obtain s0 where "s0 < 2 ^ k" "probe k key s0 = i" using pos_onto [OF assms(1)] .
  then have ex: "Q (probe k key s0)" using assms(2) by simp
  let ?s = "LEAST s. Q (probe k key s)"
  have "?s \<le> s0" using ex by (rule Least_le)
  then have "?s < 2 ^ k" using \<open>s0 < 2 ^ k\<close> by (rule le_less_trans)
  then show ?thesis by (rule that) (rule LeastI [of "\<lambda>s. Q (probe k key s)", OF ex], erule not_less_Least)
qed

lemma found_first:
  assumes "kh_wf k h" "stops h key (probe k key s)" "\<And>t. t < s \<Longrightarrow> \<not> stops h key (probe k key t)"
    and "live h i" "kh_keys h ! i = key"
  shows "probe k key s = i"
proof -
  obtain s' where s': "s' < 2 ^ k" "probe k key s' = i" "\<forall>t < s'. \<not> emp (kh_flags h) (probe k key t)"
    using assms(1,4,5) by (auto simp: kh_wf_def reach_def)
  have "stops h key i" using assms(4,5) by (simp add: stops_def live_def)
  then have "s \<le> s'" using assms(3) s'(2) not_le by blast
  show ?thesis
  proof (cases "s = s'")
    case False
    then have "\<not> emp (kh_flags h) (probe k key s)" using \<open>s \<le> s'\<close> s'(3) by auto
    then have "live h (probe k key s)" "kh_keys h ! probe k key s = key"
      using assms(1,2) probe_less [of k key s] by (auto simp: stops_def live_def kh_wf_def shape_def)
    then show ?thesis using assms(1,4,5) by (auto simp: kh_wf_def dest: inj_onD)
  qed (use s'(2) in simp)
qed

lemma put_place_ok:
  assumes wf: "kh_wf k h"
  obtains x where "x < 2 ^ k" "put_place h key = Inr (of_nat x)"
    "live h x \<and> kh_keys h ! x = key \<or>
     \<not> live h x \<and> kh_map h key = None \<and> reach k (kh_flags h) key x"
proof -
  have sh: "shape k h" and k: "k \<le> 31" and n: "unat (kh_n_buckets h) = 2 ^ k" using wf by (auto simp: kh_wf_def shape_def)
  have "card {i. i < 2 ^ k \<and> \<not> emp (kh_flags h) i} < 2 ^ k"
    using wf upper_less(1) [OF n] by (auto simp: kh_wf_def word_le_nat_alt)
  then obtain e where "e < 2 ^ k" "stops h key e" using some_empty by (metis stops_def)
  then obtain s where s: "s < 2 ^ k" "stops h key (probe k key s)" "\<And>t. t < s \<Longrightarrow> \<not> stops h key (probe k key t)"
    using first_stop [of e k "stops h key" key] by metis
  let ?p = "probe k key s"
  note at = shape_at(5) [OF sh probe_less, of key]
  have fresh: "kh_map h key = None" if "emp (kh_flags h) ?p"
  proof -
    have "kh_keys h ! i \<noteq> key" if "live h i" for i
      using found_first [OF wf s(2,3) that] \<open>emp (kh_flags h) ?p\<close> that by (auto simp: live_def)
    then show ?thesis by (simp add: kh_map_None)
  qed
  have path: "\<not> emp (kh_flags h) (probe k key t)" if "t < s" for t using s(3) [OF that] by (auto simp: stops_def)
  then have there: "reach k (kh_flags h) key (probe k key t)" if "t \<le> s" for t using that s(1) unfolding reach_def by (metis le_less_trans less_le_trans)
  have here: "live h ?p \<and> kh_keys h ! ?p = key" if "\<not> emp (kh_flags h) ?p"
    using that s(2) probe_less [of k key s] n by (auto simp: stops_def live_def)
  obtain site where loop: "put_loop (2 * 2 ^ k) h key (of_nat (probe k key 0)) (of_nat (probe k key 0)) (of_nat 0) (kh_n_buckets h) =
        Inr (of_nat ?p, site, False)"
      "site = kh_n_buckets h \<or> (\<exists>t < s. site = of_nat (probe k key t) \<and> del (kh_flags h) (probe k key t))"
    using put_loop_run [OF sh, of s key 0 "2 * 2 ^ k" "kh_n_buckets h"] s by auto
  have home: "kh_int64_hash key AND (kh_n_buckets h - 1) = of_nat (probe k key 0)" using home_word [OF n k] .
  have ne: "of_nat (probe k key t) \<noteq> kh_n_buckets h" for t using unat_probe [OF k, of key t] probe_less [of k key t] n by auto
  have run: "put_place h key = (if emp (kh_flags h) (probe k key 0) then Inr (of_nat (probe k key 0))
      else Inr (if emp (kh_flags h) ?p \<and> site \<noteq> kh_n_buckets h then site else of_nat ?p))"
    using loop(1) by (simp add: put_place_def Let_def home at n)
  show ?thesis
  proof (cases "emp (kh_flags h) (probe k key 0)")
    case True
    then have "s = 0" using path by (cases s) auto
    then show ?thesis using that [OF probe_less, of key 0] run True fresh there [of 0] by (auto simp: live_def)
  next
    case False
    show ?thesis
    proof (cases "emp (kh_flags h) ?p \<and> site \<noteq> kh_n_buckets h")
      case True
      then obtain t where "t < s" "site = of_nat (probe k key t)" "del (kh_flags h) (probe k key t)" using loop(2) by blast
      then show ?thesis using that [OF probe_less, of key t] run True False fresh there [of t] by (auto simp: live_def)
    next
      case no: False
      then have "put_place h key = Inr (of_nat ?p)" using run False by auto
      moreover have "\<not> live h ?p" if "emp (kh_flags h) ?p" using that by (simp add: live_def)
      ultimately show ?thesis using that [OF probe_less, of key s] fresh there [of s] here by blast
    qed
  qed
qed

section \<open>Insertion into a table with room\<close>

lemma reach_mono: "reach k fl key i \<Longrightarrow> (\<And>j. emp fl' j \<Longrightarrow> emp fl j) \<Longrightarrow> reach k fl' key i"
  unfolding reach_def by blast

lemma unat_plus_one: "unat (w :: 32 word) < 2 ^ 31 \<Longrightarrow> unat (w + 1) = unat w + 1"
  by (subst unat_add_lem [THEN iffD1]) simp_all

lemma card_bounds:
  fixes h :: "'a kh"
  assumes "kh_wf k h"
  shows "finite {i. live h i}" "finite {i. i < 2 ^ k \<and> \<not> emp (kh_flags h) i}" "unat (kh_size h) \<le> unat (kh_n_occupied h)"
    "unat (kh_n_occupied h) < 2 ^ k" "unat (kh_n_occupied h) < 2 ^ 31"
proof -
  have n: "unat (kh_n_buckets h) = 2 ^ k" "2 \<le> k" "k \<le> 31" using assms by (auto simp: kh_wf_def shape_def)
  have sub: "{i. live h i} \<subseteq> {i. i < 2 ^ k \<and> \<not> emp (kh_flags h) i}" using n(1) by (auto simp: live_def)
  show fin: "finite {i. i < 2 ^ k \<and> \<not> emp (kh_flags h) i}" by simp
  show "finite {i. live h i}" using finite_subset [OF sub fin] .
  show "unat (kh_size h) \<le> unat (kh_n_occupied h)" using card_mono [OF fin sub] assms by (simp add: kh_wf_def)
  have "kh_n_occupied h \<le> ac_upper (kh_n_buckets h)" using assms by (auto simp: kh_wf_def)
  then show *: "unat (kh_n_occupied h) < 2 ^ k" using upper_less(1) [OF n] unfolding word_le_nat_alt by (rule le_less_trans)
  show "unat (kh_n_occupied h) < 2 ^ 31" using * small_power [OF n(3)] by (rule less_le_trans)
qed

lemma insert_wf:
  fixes h :: "'a kh"
  assumes wf: "kh_wf k h" and x: "x < 2 ^ k" "\<not> live h x" and new: "kh_map h key = None" "reach k (kh_flags h) key x"
    and fl: "length fl = length (kh_flags h)" "\<And>j. emp fl j = (j \<noteq> x \<and> emp (kh_flags h) j)" "\<And>j. del fl j = (j \<noteq> x \<and> del (kh_flags h) j)"
    and room: "kh_n_occupied h < kh_upper_bound h"
  defines "h' \<equiv> h\<lparr>kh_keys := (kh_keys h)[x := key], kh_flags := fl, kh_size := kh_size h + 1,
      kh_n_occupied := kh_n_occupied h + (if emp (kh_flags h) x then 1 else 0)\<rparr>"
  shows "kh_wf k h'" "live h' x" "kh_keys h' ! x = key" "\<And>i. live h' i \<longleftrightarrow> i = x \<or> live h i"
proof -
  note cb = card_bounds [OF wf]
  have n: "unat (kh_n_buckets h) = 2 ^ k" and len: "x < length (kh_keys h)" using wf x(1) by (auto simp: kh_wf_def shape_def)
  show lv: "live h' i \<longleftrightarrow> i = x \<or> live h i" for i using x(1) n fl(2,3) by (auto simp: live_def h'_def)
  then show "live h' x" by simp
  show kx: "kh_keys h' ! x = key" using len by (simp add: h'_def)
  have ko: "kh_keys h' ! i = kh_keys h ! i" if "i \<noteq> x" for i using that by (simp add: h'_def)
  have shape: "shape k h'" using wf fl(1) by (simp add: kh_wf_def shape_def h'_def has_flags_length [OF fl(1)])
  have "{i. live h' i} = insert x {i. live h i}" using lv by auto
  then have size: "unat (kh_size h') = card {i. live h' i}"
    using x(2) cb wf unat_plus_one [of "kh_size h"] by (simp add: h'_def kh_wf_def)
  have occ: "unat (kh_n_occupied h') = card {i. i < 2 ^ k \<and> \<not> emp fl i} \<and> kh_n_occupied h' \<le> kh_upper_bound h"
  proof (cases "emp (kh_flags h) x")
    case True
    then have "{i. i < 2 ^ k \<and> \<not> emp fl i} = insert x {i. i < 2 ^ k \<and> \<not> emp (kh_flags h) i}" using x(1) fl(2) by auto
    then show ?thesis using True cb room wf unat_plus_one [of "kh_n_occupied h"]
      by (simp add: h'_def kh_wf_def word_le_nat_alt word_less_nat_alt)
  next
    case False
    then have "{i. i < 2 ^ k \<and> \<not> emp fl i} = {i. i < 2 ^ k \<and> \<not> emp (kh_flags h) i}" using fl(2) by auto
    then show ?thesis using False room wf by (simp add: h'_def kh_wf_def)
  qed
  have inj: "inj_on ((!) (kh_keys h')) {i. live h' i}"
  proof (rule inj_onI)
    fix i j assume ij: "i \<in> {i. live h' i}" "j \<in> {i. live h' i}" "kh_keys h' ! i = kh_keys h' ! j"
    have absent: "kh_keys h ! m \<noteq> key" if "live h m" for m using new(1) that by (simp add: kh_map_None)
    have inj: "inj_on ((!) (kh_keys h)) {i. live h i}" using wf by (simp add: kh_wf_def)
    show "i = j"
    proof (cases "i = x \<or> j = x")
      case True
      then show ?thesis using ij lv kx ko absent by (metis mem_Collect_eq)
    next
      case False
      then show ?thesis using ij lv ko inj by (auto dest: inj_onD)
    qed
  qed
  have "reach k fl (kh_keys h' ! i) i" if "live h' i" for i
  proof (cases "i = x")
    case True
    then show ?thesis using reach_mono [OF new(2), of fl] fl(2) kx by simp
  next
    case False
    then have "reach k (kh_flags h) (kh_keys h ! i) i" using wf lv that by (simp add: kh_wf_def)
    then show ?thesis using reach_mono [of k "kh_flags h" _ i fl] fl(2) ko False by simp
  qed
  then show "kh_wf k h'" using shape size occ inj wf by (simp add: kh_wf_def h'_def)
qed

definition no_deleted :: "'a kh \<Rightarrow> bool" where
  "no_deleted h \<longleftrightarrow> (\<forall>i < unat (kh_n_buckets h). \<not> del (kh_flags h) i)"

text \<open>What an insertion leaves: the bucket of the key, and every other key as it was.\<close>

definition inserted :: "64 word \<Rightarrow> 'a kh \<Rightarrow> nat \<Rightarrow> int \<Rightarrow> 'a kh \<Rightarrow> bool" where
  "inserted key h x ret h' \<longleftrightarrow> live h' x \<and> kh_keys h' ! x = key \<and>
     (ret = 0 \<and> kh_map h key = kh_map h' key \<or> ret \<in> {1, 2} \<and> kh_map h key = None) \<and>
     (\<forall>key'. key' \<noteq> key \<longrightarrow> kh_map h' key' = kh_map h key') \<and>
     (no_deleted h \<longrightarrow> ret \<noteq> 2 \<and> no_deleted h')"

lemma map_after_insert:
  assumes "inj_on ((!) (kh_keys h)) {i. live h i}" "inj_on ((!) (kh_keys h')) {i. live h' i}"
    and "\<And>i. live h' i \<longleftrightarrow> i = x \<or> live h i" "\<not> live h x" "\<And>i. i \<noteq> x \<Longrightarrow> kh_keys h' ! i = kh_keys h ! i" "kh_keys h' ! x = key"
    and "\<And>i. i \<noteq> x \<Longrightarrow> kh_vals h' ! i = kh_vals h ! i" "key' \<noteq> key"
  shows "kh_map h' key' = kh_map h key'"
proof -
  have "kh_map h' key' = Some v \<longleftrightarrow> kh_map h key' = Some v" for v
    unfolding kh_map_iff [OF assms(1)] kh_map_iff [OF assms(2)] using assms(3-8) by metis
  then show ?thesis by (metis option.exhaust)
qed

lemma put_at_ok:
  fixes h :: "'a kh"
  assumes wf: "kh_wf k h" and room: "kh_n_occupied h < kh_upper_bound h"
  obtains x ret h' where "x < 2 ^ k" "put_at key h = Inr (of_nat x, ret, h')" "kh_wf k h'" "inserted key h x ret h'"
    "kh_n_buckets h' = kh_n_buckets h" "unat (kh_size h') = unat (kh_size h) + (if ret = 0 then 0 else 1)"
proof -
  have sh: "shape k h" and n: "unat (kh_n_buckets h) = 2 ^ k" and k: "k \<le> 31" and hf: "has_flags (kh_flags h) (2 ^ k)"
    and inj: "inj_on ((!) (kh_keys h)) {i. live h i}"
    using wf by (auto simp: kh_wf_def shape_def)
  obtain x where x: "x < 2 ^ k" "put_place h key = Inr (of_nat x)"
      "live h x \<and> kh_keys h ! x = key \<or> \<not> live h x \<and> kh_map h key = None \<and> reach k (kh_flags h) key x"
    using put_place_ok [OF wf] .
  note at = shape_at [OF sh x(1)]
  show ?thesis
  proof (cases "live h x")
    case True
    then have "put_at key h = Inr (of_nat x, 0, h)" using x(2) at by (simp add: put_at_def live_def)
    moreover have "inserted key h x 0 h" using True x(3) by (simp add: inserted_def)
    ultimately show ?thesis using that [OF x(1) _ wf] by simp
  next
    case False
    then have new: "kh_map h key = None" "reach k (kh_flags h) key x" using x(3) by auto
    obtain fl where fl: "ac_set_isboth_false (kh_flags h) (of_nat x) = Inr fl" "length fl = length (kh_flags h)"
        "\<And>j. emp fl j = (j \<noteq> x \<and> emp (kh_flags h) j)" "\<And>j. del fl j = (j \<noteq> x \<and> del (kh_flags h) j)"
      using flag_writes [OF hf x(1) small_power [OF k]] by metis
    define h' where "h' = h\<lparr>kh_keys := (kh_keys h)[x := key], kh_flags := fl, kh_size := kh_size h + 1,
      kh_n_occupied := kh_n_occupied h + (if emp (kh_flags h) x then 1 else 0)\<rparr>"
    define ret :: int where "ret = (if emp (kh_flags h) x then 1 else 2)"
    note ins = insert_wf [OF wf x(1) False new fl(2-4) room, folded h'_def]
    have "emp (kh_flags h) x \<or> del (kh_flags h) x" using False x(1) n by (simp add: live_def)
    then have run: "put_at key h = Inr (of_nat x, ret, h')" using x(2) at fl(1) by (simp add: put_at_def h'_def ret_def Let_def)
    have "inj_on ((!) (kh_keys h')) {i. live h' i}" using ins(1) by (simp add: kh_wf_def)
    then have "kh_map h' key' = kh_map h key'" if "key' \<noteq> key" for key'
      by (rule map_after_insert [OF inj _ ins(4) False _ ins(3) _ that]) (simp_all add: h'_def)
    moreover have "ret \<noteq> 2 \<and> no_deleted h'" if "no_deleted h"
      using that \<open>emp (kh_flags h) x \<or> del (kh_flags h) x\<close> x(1) n fl(4) by (simp add: no_deleted_def ret_def h'_def)
    ultimately have "inserted key h x ret h'" using ins(2,3) new(1) by (simp add: inserted_def ret_def)
    moreover have "unat (kh_size h') = unat (kh_size h) + (if ret = 0 then 0 else 1)"
      using card_bounds [OF wf] unat_plus_one [of "kh_size h"] by (simp add: h'_def ret_def)
    ultimately show ?thesis using that [OF x(1) run ins(1)] by (simp add: h'_def)
  qed
qed

section \<open>Moving the elements\<close>

text \<open>
  During a resize an element is in a bucket of the old table that is still live, in a used bucket of the
  new one, or in the hands of the kick-out process.
\<close>

definition used :: "nat \<Rightarrow> 32 word list \<Rightarrow> nat \<Rightarrow> bool" where
  "used k nf i \<longleftrightarrow> i < 2 ^ k \<and> \<not> emp nf i"

definition held :: "nat \<Rightarrow> 32 word list \<Rightarrow> 'a kh \<Rightarrow> nat set" where
  "held k nf h = {i. live h i \<or> used k nf i}"

definition elems :: "'a kh \<Rightarrow> nat set \<Rightarrow> (64 word \<times> 'a) set" where
  "elems h A = (\<lambda>i. (kh_keys h ! i, kh_vals h ! i)) ` A"

definition roomy :: "nat \<Rightarrow> 32 word list \<Rightarrow> 'a kh \<Rightarrow> bool" where
  "roomy k nf h \<longleftrightarrow> k \<le> 31 \<and> has_flags nf (2 ^ k) \<and> unat (kh_n_buckets h) \<le> 2 ^ 31 \<and> has_flags (kh_flags h) (unat (kh_n_buckets h)) \<and>
     2 ^ k \<le> length (kh_keys h) \<and> 2 ^ k \<le> length (kh_vals h) \<and>
     unat (kh_n_buckets h) \<le> length (kh_keys h) \<and> unat (kh_n_buckets h) \<le> length (kh_vals h)"

definition moving :: "nat \<Rightarrow> (64 word \<times> 'a) set \<Rightarrow> nat \<Rightarrow> 32 word list \<Rightarrow> 'a kh \<Rightarrow> (64 word \<times> 'a) option \<Rightarrow> bool" where
  "moving k S c nf h hand \<longleftrightarrow> roomy k nf h \<and> c < 2 ^ k \<and> (\<forall>i. \<not> (live h i \<and> used k nf i)) \<and>
     inj_on ((!) (kh_keys h)) (held k nf h) \<and> (\<forall>i. used k nf i \<longrightarrow> reach k nf (kh_keys h ! i) i) \<and> (\<forall>i < 2 ^ k. \<not> del nf i) \<and>
     (case hand of
        None \<Rightarrow> elems h (held k nf h) = S \<and> card (held k nf h) = c
      | Some (key, val) \<Rightarrow> key \<notin> (!) (kh_keys h) ` held k nf h \<and> insert (key, val) (elems h (held k nf h)) = S \<and>
          card (held k nf h) + 1 = c)"

lemma finite_held [simp]: "finite (held k nf h)"
proof -
  have "held k nf h \<subseteq> {..<unat (kh_n_buckets h)} \<union> {..<2 ^ k}" by (auto simp: held_def live_def used_def)
  then show ?thesis by (rule finite_subset) simp
qed

lemma held_bound: "roomy k nf h \<Longrightarrow> i \<in> held k nf h \<Longrightarrow> i < length (kh_keys h) \<and> i < length (kh_vals h)"
  by (auto simp: roomy_def held_def live_def used_def)

lemma image_update:
  assumes "p < length xs" "p < length ys"
  shows "(\<lambda>i. (xs[p := x] ! i, ys[p := y] ! i)) ` A =
    (if p \<in> A then insert (x, y) ((\<lambda>i. (xs ! i, ys ! i)) ` (A - {p})) else (\<lambda>i. (xs ! i, ys ! i)) ` A)"
  using assms by (auto simp: nth_list_update image_iff split: if_splits)

lemma inj_update:
  assumes "inj_on ((!) xs) A" "x \<notin> (!) xs ` A" "p < length xs"
  shows "inj_on ((!) (xs[p := x])) (insert p A)"
  using assms by (auto simp: inj_on_def nth_list_update image_iff)

lemma reach_after:
  assumes used: "\<forall>i. used k nf i \<longrightarrow> reach k nf (keys ! i) i" and new: "reach k nf key p"
    and fl: "\<And>j. emp nf' j = (j \<noteq> p \<and> emp nf j)" and "p < length keys" "used k nf' i"
  shows "reach k nf' (keys[p := key] ! i) i"
proof (cases "i = p")
  case True
  then show ?thesis using reach_mono [OF new, of nf'] fl \<open>p < length keys\<close> by simp
next
  case False
  then have "reach k nf (keys ! i) i" using used \<open>used k nf' i\<close> fl by (simp add: used_def)
  then show ?thesis using reach_mono [of k nf "keys ! i" i nf'] fl False by simp
qed

text \<open>The bucket is free in both tables.\<close>

lemma place_free:
  assumes m: "moving k S c nf h (Some (key, val))" and p: "p < 2 ^ k" "emp nf p" "\<not> live h p" "reach k nf key p"
    and nf: "length nf' = length nf" "\<And>j. emp nf' j = (j \<noteq> p \<and> emp nf j)" "\<And>j. del nf' j = del nf j"
  shows "moving k S c nf' (h\<lparr>kh_keys := (kh_keys h)[p := key], kh_vals := (kh_vals h)[p := val]\<rparr>) None" (is "moving k S c nf' ?h None")
proof -
  have rm: "roomy k nf h" and len: "p < length (kh_keys h)" "p < length (kh_vals h)" and c: "c < 2 ^ k"
    using m p(1) by (auto simp: moving_def roomy_def)
  have lv: "live ?h i = live h i" for i by (simp add: live_def)
  have hd: "held k nf' ?h = insert p (held k nf h)" using p(1) nf(2) by (auto simp: held_def lv used_def)
  have out: "p \<notin> held k nf h" using p(2,3) by (simp add: held_def used_def)
  have "elems ?h (held k nf' ?h) = S"
    using m out len by (simp add: moving_def elems_def hd image_update)
  moreover have "card (held k nf' ?h) = c" using m out by (simp add: moving_def hd)
  moreover have "inj_on ((!) (kh_keys ?h)) (held k nf' ?h)"
    using inj_update [of "kh_keys h" "held k nf h" key p] m len unfolding hd by (simp add: moving_def)
  moreover have "\<forall>i. used k nf' i \<longrightarrow> reach k nf' (kh_keys ?h ! i) i"
    using reach_after [OF _ p(4) nf(2) len(1)] m by (simp add: moving_def)
  moreover have "roomy k nf' ?h" using rm nf(1) by (simp add: roomy_def has_flags_def)
  moreover have "\<forall>i. \<not> (live ?h i \<and> used k nf' i)" using m p(3) nf(2) by (auto simp: moving_def lv used_def)
  moreover have "\<forall>i < 2 ^ k. \<not> del nf' i" using m nf(3) by (simp add: moving_def)
  ultimately show ?thesis using c by (simp add: moving_def)
qed

text \<open>The bucket holds an element of the old table, which is taken up.\<close>

lemma place_kick:
  assumes m: "moving k S c nf h (Some (key, val))" and p: "p < 2 ^ k" "emp nf p" "live h p" "reach k nf key p"
    and nf: "length nf' = length nf" "\<And>j. emp nf' j = (j \<noteq> p \<and> emp nf j)" "\<And>j. del nf' j = del nf j"
    and fl: "length fl = length (kh_flags h)" "\<And>j. emp fl j = emp (kh_flags h) j" "\<And>j. del fl j = (j = p \<or> del (kh_flags h) j)"
  shows "moving k S c nf' (h\<lparr>kh_keys := (kh_keys h)[p := key], kh_vals := (kh_vals h)[p := val], kh_flags := fl\<rparr>)
      (Some (kh_keys h ! p, kh_vals h ! p))" (is "moving k S c nf' ?h (Some (?key, ?val))")
proof -
  have rm: "roomy k nf h" and len: "p < length (kh_keys h)" "p < length (kh_vals h)" and c: "c < 2 ^ k"
    and inj: "inj_on ((!) (kh_keys h)) (held k nf h)" and nk: "key \<notin> (!) (kh_keys h) ` held k nf h"
    using m p(1) by (auto simp: moving_def roomy_def)
  have lv: "live ?h i \<longleftrightarrow> live h i \<and> i \<noteq> p" for i using fl(2,3) by (auto simp: live_def)
  have inp: "p \<in> held k nf h" using p(3) by (simp add: held_def)
  have hd: "held k nf' ?h = held k nf h" using p nf(2) by (auto simp: held_def lv used_def)
  have split: "elems h (held k nf h) = insert (?key, ?val) (elems h (held k nf h - {p}))" using inp by (auto simp: elems_def)
  have "insert (?key, ?val) (elems ?h (held k nf' ?h)) = insert (key, val) (elems h (held k nf h))"
    using inp len unfolding split hd by (simp add: elems_def image_update insert_commute)
  then have "insert (?key, ?val) (elems ?h (held k nf' ?h)) = S" using m by (simp add: moving_def)
  moreover have "?key \<notin> (!) (kh_keys ?h) ` held k nf' ?h"
    using inj nk inp len unfolding hd by (auto simp: nth_list_update inj_on_def image_iff)
  moreover have "card (held k nf' ?h) + 1 = c" using m by (simp add: moving_def hd)
  moreover have "inj_on ((!) (kh_keys ?h)) (held k nf' ?h)"
    using inj_update [of "kh_keys h" "held k nf h" key p] inj nk len inp unfolding hd by (simp add: insert_absorb)
  moreover have "\<forall>i. used k nf' i \<longrightarrow> reach k nf' (kh_keys ?h ! i) i"
    using reach_after [OF _ p(4) nf(2) len(1)] m by (simp add: moving_def)
  moreover have "roomy k nf' ?h" using rm nf(1) fl(1) by (simp add: roomy_def has_flags_def)
  moreover have "\<forall>i. \<not> (live ?h i \<and> used k nf' i)" using m nf(2) by (auto simp: moving_def lv used_def)
  moreover have "\<forall>i < 2 ^ k. \<not> del nf' i" using m nf(3) by (simp add: moving_def)
  ultimately show ?thesis using c by (simp add: moving_def)
qed

lemma free_bucket:
  assumes "moving k S c nf h (Some (key, val))"
  obtains s where "s < 2 ^ k" "emp nf (probe k key s)" "\<And>t. t < s \<Longrightarrow> \<not> emp nf (probe k key t)"
proof -
  have "{i. i < 2 ^ k \<and> \<not> emp nf i} \<subseteq> held k nf h" by (auto simp: held_def used_def)
  then have "card {i. i < 2 ^ k \<and> \<not> emp nf i} \<le> card (held k nf h)" by (rule card_mono [OF finite_held])
  then have "card {i. i < 2 ^ k \<and> \<not> emp nf i} < 2 ^ k" using assms by (simp add: moving_def)
  then obtain i where "i < 2 ^ k" "emp nf i" by (rule some_empty)
  then show ?thesis using first_stop [of i k "emp nf" key] that by blast
qed

lemma roomy_at:
  assumes "roomy k nf h"
  shows "i < 2 ^ k \<or> i < unat (kh_n_buckets h) \<Longrightarrow> kh_at (kh_keys h) (of_nat i) = Inr (kh_keys h ! i)"
    "i < 2 ^ k \<or> i < unat (kh_n_buckets h) \<Longrightarrow> kh_at (kh_vals h) (of_nat i) = Inr (kh_vals h ! i)"
    "i < 2 ^ k \<Longrightarrow> kh_upd (kh_keys h) (of_nat i) x = Inr ((kh_keys h)[i := x])"
    "i < 2 ^ k \<Longrightarrow> kh_upd (kh_vals h) (of_nat i) v = Inr ((kh_vals h)[i := v])"
    "i < 2 ^ k \<Longrightarrow> of_nat i < kh_n_buckets h \<longleftrightarrow> i < unat (kh_n_buckets h)"
    "i < unat (kh_n_buckets h) \<Longrightarrow> ac_iseither (kh_flags h) (of_nat i) = Inr (\<not> live h i)"
proof -
  have k: "k \<le> 31" and le: "unat (kh_n_buckets h) \<le> 2 ^ 31" and hf: "has_flags (kh_flags h) (unat (kh_n_buckets h))"
    using assms by (auto simp: roomy_def)
  have u: "unat (of_nat i :: 32 word) = i" if "i < 2 ^ k \<or> i < unat (kh_n_buckets h)"
    using that small_power [OF k] le by (intro unat_nat32) auto
  show "kh_at (kh_keys h) (of_nat i) = Inr (kh_keys h ! i)" "kh_at (kh_vals h) (of_nat i) = Inr (kh_vals h ! i)"
    if "i < 2 ^ k \<or> i < unat (kh_n_buckets h)" using u [OF that] that assms by (auto simp: kh_at_def roomy_def)
  show "kh_upd (kh_keys h) (of_nat i) x = Inr ((kh_keys h)[i := x])" "kh_upd (kh_vals h) (of_nat i) v = Inr ((kh_vals h)[i := v])"
      "of_nat i < kh_n_buckets h \<longleftrightarrow> i < unat (kh_n_buckets h)"
    if "i < 2 ^ k" using u that assms by (auto simp: kh_upd_def roomy_def word_less_nat_alt)
  show "ac_iseither (kh_flags h) (of_nat i) = Inr (\<not> live h i)" if "i < unat (kh_n_buckets h)"
    using flag_reads(3) [OF hf that le] that by (simp add: live_def)
qed

definition same_size :: "'a kh \<Rightarrow> 'a kh \<Rightarrow> bool" where
  "same_size h h' \<longleftrightarrow> kh_n_buckets h' = kh_n_buckets h \<and> kh_size h' = kh_size h \<and>
     length (kh_keys h') = length (kh_keys h) \<and> length (kh_vals h') = length (kh_vals h)"

lemma finite_live [simp]: "finite {i. live h i}"
  by (rule finite_subset [of _ "{..<unat (kh_n_buckets h)}"]) (auto simp: live_def)

lemma kick_out_ok:
  assumes "unat n = 2 ^ k" "moving k S c nf h (Some (key, val))" "card {i. live h i} < fuel"
  shows "\<exists>nf' h'. kick_out fuel n key val nf h = Inr (nf', h') \<and> moving k S c nf' h' None \<and>
    {i. live h' i} \<subseteq> {i. live h i} \<and> same_size h h'"
  using assms
proof (induction fuel arbitrary: key val nf h)
  case (Suc fuel)
  have rm: "roomy k nf h" using Suc.prems(2) by (simp add: moving_def)
  then have k: "k \<le> 31" and hn: "has_flags nf (2 ^ k)" and hf: "has_flags (kh_flags h) (unat (kh_n_buckets h))"
    and le: "unat (kh_n_buckets h) \<le> 2 ^ 31" by (auto simp: roomy_def)
  obtain s where s: "s < 2 ^ k" "emp nf (probe k key s)" "\<And>t. t < s \<Longrightarrow> \<not> emp nf (probe k key t)"
    by (rule free_bucket [OF Suc.prems(2)]) (rule that)
  define p where "p = probe k key s"
  have p: "p < 2 ^ k" "emp nf p" "reach k nf key p" using s probe_less by (auto simp: p_def reach_def)
  have find: "find_empty (2 * unat n) nf (n - 1) (kh_int64_hash key AND (n - 1)) 0 = Inr (of_nat p)"
    using find_empty_run [OF Suc.prems(1) k hn, of s key 0 "2 * unat n"] s Suc.prems(1)
    by (simp add: home_word [OF Suc.prems(1) k] p_def)
  obtain nf' where nf': "ac_set_isempty_false nf (of_nat p) = Inr nf'" "length nf' = length nf"
      "\<And>j. emp nf' j = (j \<noteq> p \<and> emp nf j)" "\<And>j. del nf' j = del nf j"
    using flag_writes [OF hn p(1) small_power [OF k]] by metis
  note at = roomy_at [OF rm, of p]
  show ?case
  proof (cases "live h p")
    case True
    then have po: "p < unat (kh_n_buckets h)" by (simp add: live_def)
    obtain fl where fl: "ac_set_isdel_true (kh_flags h) (of_nat p) = Inr fl" "length fl = length (kh_flags h)"
        "\<And>j. emp fl j = emp (kh_flags h) j" "\<And>j. del fl j = (j = p \<or> del (kh_flags h) j)"
      using flag_writes [OF hf po le] by metis
    let ?h = "h\<lparr>kh_keys := (kh_keys h)[p := key], kh_vals := (kh_vals h)[p := val], kh_flags := fl\<rparr>"
    have run: "kick_out (Suc fuel) n key val nf h = kick_out fuel n (kh_keys h ! p) (kh_vals h ! p) nf' ?h"
      using at p(1) po True fl(1) nf'(1) by (simp add: find)
    have m: "moving k S c nf' ?h (Some (kh_keys h ! p, kh_vals h ! p))"
      by (rule place_kick [OF Suc.prems(2) p(1,2) True p(3) nf'(2-4) fl(2-4)])
    have lv: "{i. live ?h i} = {i. live h i} - {p}" using fl(3,4) by (auto simp: live_def)
    then have "card {i. live ?h i} < fuel" using Suc.prems(3) True card_Diff1_less [of "{i. live h i}" p] by simp
    from Suc.IH [OF Suc.prems(1) m this] obtain nf2 h2 where "kick_out fuel n (kh_keys h ! p) (kh_vals h ! p) nf' ?h = Inr (nf2, h2)"
        "moving k S c nf2 h2 None" "{i. live h2 i} \<subseteq> {i. live ?h i}" "same_size ?h h2" by blast
    then show ?thesis unfolding run lv by (auto simp: same_size_def)
  next
    case False
    let ?h = "h\<lparr>kh_keys := (kh_keys h)[p := key], kh_vals := (kh_vals h)[p := val]\<rparr>"
    have "kick_out (Suc fuel) n key val nf h = Inr (nf', ?h)" using at p(1) False nf'(1) by (simp add: find)
    moreover have "moving k S c nf' ?h None" by (rule place_free [OF Suc.prems(2) p(1,2) False p(3) nf'(2-4)])
    moreover have "{i. live ?h i} = {i. live h i}" by (simp add: live_def)
    ultimately show ?thesis by (simp add: same_size_def)
  qed
qed simp

lemma take_up:
  assumes m: "moving k S c nf h None" and p: "live h p"
    and fl: "length fl = length (kh_flags h)" "\<And>j. emp fl j = emp (kh_flags h) j" "\<And>j. del fl j = (j = p \<or> del (kh_flags h) j)"
  shows "moving k S c nf (h\<lparr>kh_flags := fl\<rparr>) (Some (kh_keys h ! p, kh_vals h ! p))" (is "moving k S c nf ?h (Some (?key, ?val))")
proof -
  have inj: "inj_on ((!) (kh_keys h)) (held k nf h)" and rm: "roomy k nf h" and nu: "\<not> used k nf p"
    using m p by (auto simp: moving_def)
  have lv: "live ?h i \<longleftrightarrow> live h i \<and> i \<noteq> p" for i using fl(2,3) by (auto simp: live_def)
  have inp: "p \<in> held k nf h" using p by (simp add: held_def)
  have hd: "held k nf ?h = held k nf h - {p}" using nu by (auto simp: held_def lv)
  have "elems h (held k nf h) = insert (?key, ?val) (elems h (held k nf h - {p}))" using inp by (auto simp: elems_def)
  then have "insert (?key, ?val) (elems ?h (held k nf ?h)) = S" using m by (simp add: moving_def hd elems_def)
  moreover have "?key \<notin> (!) (kh_keys ?h) ` held k nf ?h" using inj inp unfolding hd by (auto simp: inj_on_def)
  moreover have "card (held k nf ?h) + 1 = c"
    using m inp card_Suc_Diff1 [of "held k nf h" p] by (simp add: moving_def hd)
  moreover have "inj_on ((!) (kh_keys ?h)) (held k nf ?h)" using inj unfolding hd by (auto intro: inj_on_subset)
  moreover have "roomy k nf ?h" using rm fl(1) by (simp add: roomy_def has_flags_def)
  moreover have "\<forall>i. \<not> (live ?h i \<and> used k nf i)" using m by (auto simp: moving_def lv)
  ultimately show ?thesis using m by (simp add: moving_def)
qed

lemma rehash_ok:
  assumes "unat n = 2 ^ k" "moving k S c nf h None" "\<forall>j \<in> set js. j < unat (kh_n_buckets h)"
  shows "\<exists>nf' h'. rehash n js nf h = Inr (nf', h') \<and> moving k S c nf' h' None \<and>
    {i. live h' i} \<subseteq> {i. live h i} - set js \<and> same_size h h'"
  using assms
proof (induction js arbitrary: nf h)
  case (Cons j js)
  have rm: "roomy k nf h" using Cons.prems(2) by (simp add: moving_def)
  have j: "j < unat (kh_n_buckets h)" using Cons.prems(3) by simp
  have hf: "has_flags (kh_flags h) (unat (kh_n_buckets h))" and le: "unat (kh_n_buckets h) \<le> 2 ^ 31"
    using rm by (auto simp: roomy_def)
  note at = roomy_at [OF rm, of j]
  show ?case
  proof (cases "live h j")
    case False
    then have run: "rehash n (j # js) nf h = rehash n js nf h" using at j by simp
    have "\<forall>j \<in> set js. j < unat (kh_n_buckets h)" using Cons.prems(3) by simp
    from Cons.IH [OF Cons.prems(1,2) this] show ?thesis unfolding run using False by auto
  next
    case True
    obtain fl where fl: "ac_set_isdel_true (kh_flags h) (of_nat j) = Inr fl" "length fl = length (kh_flags h)"
        "\<And>i. emp fl i = emp (kh_flags h) i" "\<And>i. del fl i = (i = j \<or> del (kh_flags h) i)"
      using flag_writes [OF hf j le] by metis
    let ?h = "h\<lparr>kh_flags := fl\<rparr>"
    have lv: "{i. live ?h i} = {i. live h i} - {j}" using fl(3,4) by (auto simp: live_def)
    have "card {i. live ?h i} \<le> card {..<unat (kh_n_buckets h)}" by (rule card_mono) (auto simp: live_def)
    then have "card {i. live ?h i} < Suc (unat (kh_n_buckets h))" by simp
    from kick_out_ok [OF Cons.prems(1) take_up [OF Cons.prems(2) True fl(2-4)] this]
    obtain nf1 h1 where one: "kick_out (Suc (unat (kh_n_buckets h))) n (kh_keys h ! j) (kh_vals h ! j) nf ?h = Inr (nf1, h1)"
        "moving k S c nf1 h1 None" "{i. live h1 i} \<subseteq> {i. live ?h i}" "same_size ?h h1" by blast
    have run: "rehash n (j # js) nf h = rehash n js nf1 h1" using at j True fl(1) one(1) by simp
    have "\<forall>j \<in> set js. j < unat (kh_n_buckets h1)" using Cons.prems(3) one(4) by (simp add: same_size_def)
    from Cons.IH [OF Cons.prems(1) one(2) this]
    obtain nf2 h2 where "rehash n js nf1 h1 = Inr (nf2, h2)" "moving k S c nf2 h2 None"
        "{i. live h2 i} \<subseteq> {i. live h1 i} - set js" "same_size h1 h2" by blast
    then show ?thesis unfolding run using one(3,4) lv by (auto simp: same_size_def)
  qed
qed (simp add: same_size_def)

section \<open>Resizing\<close>

text \<open>What a resize needs of the old table; an empty one has it too.\<close>

definition kh_base :: "'a kh \<Rightarrow> bool" where
  "kh_base h \<longleftrightarrow> unat (kh_n_buckets h) \<le> 2 ^ 31 \<and> has_flags (kh_flags h) (unat (kh_n_buckets h)) \<and>
     unat (kh_n_buckets h) \<le> length (kh_keys h) \<and> unat (kh_n_buckets h) \<le> length (kh_vals h) \<and>
     unat (kh_size h) = card {i. live h i} \<and> inj_on ((!) (kh_keys h)) {i. live h i}"

lemma kh_base: "kh_inv h \<Longrightarrow> kh_base h"
proof -
  assume "kh_inv h"
  then consider "kh_n_buckets h = 0" "kh_size h = 0" | k where "kh_wf k h" unfolding kh_inv_def by blast
  then show ?thesis
  proof cases
    case 1
    then show ?thesis by (simp add: kh_base_def live_def has_flags_def)
  next
    case 2
    then show ?thesis using small_power [of k] by (simp add: kh_base_def kh_wf_def shape_def)
  qed
qed

lemma map_elems:
  assumes "inj_on ((!) (kh_keys h)) {i. live h i}"
  shows "kh_map h key = Some v \<longleftrightarrow> (key, v) \<in> elems h {i. live h i}"
  unfolding kh_map_iff [OF assms] elems_def by auto

lemma map_eq_elems:
  assumes "inj_on ((!) (kh_keys h)) {i. live h i}" "inj_on ((!) (kh_keys h')) {i. live h' i}"
    and "elems h' {i. live h' i} = elems h {i. live h i}"
  shows "kh_map h' = kh_map h"
proof
  fix key
  have "kh_map h' key = Some v \<longleftrightarrow> kh_map h key = Some v" for v
    unfolding map_elems [OF assms(1)] map_elems [OF assms(2)] assms(3) ..
  then show "kh_map h' key = kh_map h key" by (metis option.exhaust)
qed

lemma length_grown [simp]: "length (grown junk n xs) = n"
  by (simp add: grown_def)

lemma nth_grown: "i < length xs \<Longrightarrow> i < n \<Longrightarrow> grown junk n xs ! i = xs ! i"
  by (simp add: grown_def nth_append)

text \<open>The arrays are long enough for both sizes, and the elements are where they were.\<close>

lemma expand_ok:
  assumes base: "kh_base h" and n: "unat n = 2 ^ k" "k \<le> 31" and "kh_alloc_keys host" "kh_alloc_vals host"
    and c: "unat (kh_size h) < 2 ^ k"
  obtains h' where "kh_expand host n h = (True, h')" "kh_n_buckets h' = kh_n_buckets h" "kh_size h' = kh_size h"
    "moving k (elems h {i. live h i}) (unat (kh_size h)) (all_empty n) h' None"
proof -
  define h' where "h' = snd (kh_expand host n h)"
  have run: "kh_expand host n h = (True, h')" and f: "kh_n_buckets h' = kh_n_buckets h" "kh_size h' = kh_size h" "kh_flags h' = kh_flags h"
    using assms(4,5) by (auto simp: h'_def kh_expand_def Let_def)
  have len: "2 ^ k \<le> length (kh_keys h')" "2 ^ k \<le> length (kh_vals h')"
      "unat (kh_n_buckets h) \<le> length (kh_keys h')" "unat (kh_n_buckets h) \<le> length (kh_vals h')"
    using assms(4,5) n(1) base by (auto simp: h'_def kh_expand_def Let_def kh_base_def word_less_nat_alt split: if_splits)
  have lv: "live h' i = live h i" for i using f by (simp add: live_def)
  have at: "kh_keys h' ! i = kh_keys h ! i" "kh_vals h' ! i = kh_vals h ! i" if "live h i" for i
    using assms(4,5) base that by (auto simp: h'_def kh_expand_def Let_def kh_base_def live_def word_less_nat_alt intro!: nth_grown)
  note ae = all_empty_flags [OF n]
  have nu: "\<not> used k (all_empty n) i" for i using ae(2) by (auto simp: used_def)
  then have hd: "held k (all_empty n) h' = {i. live h i}" by (simp add: held_def lv)
  have "inj_on ((!) (kh_keys h')) {i. live h i}" using base at(1) by (auto simp: kh_base_def inj_on_def)
  moreover have "elems h' {i. live h i} = elems h {i. live h i}" using at by (auto simp: elems_def)
  moreover have "roomy k (all_empty n) h'" using base n(2) ae(1) len f by (simp add: roomy_def kh_base_def)
  ultimately have "moving k (elems h {i. live h i}) (unat (kh_size h)) (all_empty n) h' None"
    using c nu ae(3) base by (simp add: moving_def hd kh_base_def)
  then show ?thesis using that run f by blast
qed

lemma resized_wf:
  assumes m: "moving k S c nf h None" and lv: "{i. live h i} = {}" and n: "unat n = 2 ^ k" "2 \<le> k" "k \<le> 30"
    and c: "unat (kh_size h) = c" "kh_size h < ac_upper n" and len: "2 ^ k \<le> length keys" "2 ^ k \<le> length vals"
    and at: "\<And>i. i < 2 ^ k \<Longrightarrow> keys ! i = kh_keys h ! i \<and> vals ! i = kh_vals h ! i"
  defines "h' \<equiv> h\<lparr>kh_keys := keys, kh_vals := vals, kh_flags := nf, kh_n_buckets := n, kh_n_occupied := kh_size h, kh_upper_bound := ac_upper n\<rparr>"
  shows "kh_wf k h'" "elems h' {i. live h' i} = S" "no_deleted h'"
proof -
  have nd: "\<forall>i < 2 ^ k. \<not> del nf i" using m by (simp add: moving_def)
  have hd: "held k nf h = {i. used k nf i}" using lv by (auto simp: held_def)
  have lv': "{i. live h' i} = held k nf h" using nd n(1) unfolding hd by (auto simp: live_def used_def h'_def)
  have occ: "{i. i < 2 ^ k \<and> \<not> emp nf i} = held k nf h" unfolding hd by (auto simp: used_def)
  have at': "kh_keys h' ! i = kh_keys h ! i" "kh_vals h' ! i = kh_vals h ! i" if "i \<in> held k nf h" for i
    using that at [of i] unfolding hd by (auto simp: used_def h'_def)
  have "elems h' (held k nf h) = elems h (held k nf h)" using at' by (auto simp: elems_def)
  then show "elems h' {i. live h' i} = S" unfolding lv' using m by (simp add: moving_def)
  show "no_deleted h'" using nd n(1) by (simp add: no_deleted_def h'_def)
  have "inj_on ((!) (kh_keys h')) {i. live h' i}" unfolding lv' using m at'(1) by (auto simp: moving_def inj_on_def)
  moreover have "\<forall>i. live h' i \<longrightarrow> reach k nf (kh_keys h' ! i) i"
  proof (intro allI impI)
    fix i assume "live h' i"
    then have "i \<in> held k nf h" using lv' by blast
    then show "reach k nf (kh_keys h' ! i) i" using m at'(1) unfolding hd by (auto simp: moving_def)
  qed
  moreover have "shape k h'" using m n len by (simp add: shape_def h'_def moving_def roomy_def)
  moreover have "card (held k nf h) = c" using m by (simp add: moving_def)
  ultimately show "kh_wf k h'" using n c lv' occ by (simp add: kh_wf_def h'_def)
qed

lemma resize_ok:
  fixes h :: "'a kh"
  assumes base: "kh_base h" and n: "n = (if kroundup32 m < 4 then 4 else kroundup32 m)" "unat n = 2 ^ k" "2 \<le> k" "k \<le> 30"
    and room: "kh_size h < ac_upper n" and host: "kh_alloc_flags host" "kh_alloc_keys host" "kh_alloc_vals host"
  obtains h' where "kh_resize host m h = Inr (0, h')" "kh_wf k h'" "kh_map h' = kh_map h" "no_deleted h'"
    "kh_n_occupied h' < kh_upper_bound h'" "kh_size h' = kh_size h" "unat (kh_n_buckets h') = 2 ^ k"
proof -
  have k: "k \<le> 31" using n(4) by simp
  have c: "unat (kh_size h) < 2 ^ k" using room upper_less(1) [OF n(2,3) k] by (simp add: word_less_nat_alt)
  obtain h1 where h1: "kh_expand host n h = (True, h1)" "kh_n_buckets h1 = kh_n_buckets h" "kh_size h1 = kh_size h"
      "moving k (elems h {i. live h i}) (unat (kh_size h)) (all_empty n) h1 None"
    by (rule expand_ok [OF base n(2) k host(2,3) c]) (rule that)
  have "\<forall>j \<in> set [0..<unat (kh_n_buckets h1)]. j < unat (kh_n_buckets h1)" by simp
  from rehash_ok [OF n(2) h1(4) this] obtain nf h2 where h2: "rehash n [0..<unat (kh_n_buckets h1)] (all_empty n) h1 = Inr (nf, h2)"
      "moving k (elems h {i. live h i}) (unat (kh_size h)) nf h2 None"
      "{i. live h2 i} \<subseteq> {i. live h1 i} - set [0..<unat (kh_n_buckets h1)]" "same_size h1 h2" by blast
  have lv: "{i. live h2 i} = {}" using h2(3) by (auto simp: live_def)
  have size: "kh_size h2 = kh_size h" using h2(4) h1(3) by (simp add: same_size_def)
  have len: "2 ^ k \<le> length (kh_keys h2)" "2 ^ k \<le> length (kh_vals h2)" using h2(2) by (auto simp: moving_def roomy_def)
  define keys where "keys = (if n < kh_n_buckets h2 then take (unat n) (kh_keys h2) else kh_keys h2)"
  define vals where "vals = (if n < kh_n_buckets h2 then take (unat n) (kh_vals h2) else kh_vals h2)"
  define h3 where "h3 = h2\<lparr>kh_keys := keys, kh_vals := vals, kh_flags := nf, kh_n_buckets := n, kh_n_occupied := kh_size h2, kh_upper_bound := ac_upper n\<rparr>"
  have "kh_size h2 < ac_upper n" "unat (kh_size h2) = unat (kh_size h)" using room size by simp_all
  note wf = resized_wf [OF h2(2) lv n(2-4) this(2,1), of keys vals, folded h3_def]
  have kv: "2 ^ k \<le> length keys" "2 ^ k \<le> length vals" "\<And>i. i < 2 ^ k \<Longrightarrow> keys ! i = kh_keys h2 ! i \<and> vals ! i = kh_vals h2 ! i"
    using len n(2) by (auto simp: keys_def vals_def)
  have "kh_resize host m h = Inr (0, h3)"
    using h1(1) h2(1) room host(1) unfolding kh_resize_def Let_def n(1) [symmetric]
    by (simp add: h3_def keys_def vals_def)
  moreover have "kh_map h3 = kh_map h"
  proof (rule map_eq_elems)
    show "inj_on ((!) (kh_keys h)) {i. live h i}" using base by (simp add: kh_base_def)
    show "inj_on ((!) (kh_keys h3)) {i. live h3 i}" using wf(1) [OF kv] by (simp add: kh_wf_def)
  qed (rule wf(2) [OF kv])
  moreover have "kh_n_occupied h3 < kh_upper_bound h3" "kh_size h3 = kh_size h" "unat (kh_n_buckets h3) = 2 ^ k"
    using room size n(2) by (simp_all add: h3_def)
  ultimately show ?thesis using that wf(1,3) [OF kv] by blast
qed

lemma unat_power: "k \<le> 31 \<Longrightarrow> unat (2 ^ k :: 32 word) = 2 ^ k"
  using unat_nat32 [of "2 ^ k"] small_power [of k] by simp

lemma round_up:
  assumes "2 \<le> k" "k \<le> 30"
  shows "kroundup32 (2 ^ k - 1) = 2 ^ k" "kroundup32 (2 ^ k + 1) = 2 ^ (k + 1)" "\<not> (2 ^ k :: 32 word) < 4" "\<not> (2 ^ (k + 1) :: 32 word) < 4"
proof -
  have "\<forall>k \<in> set [2..<31]. kroundup32 (2 ^ k - 1) = 2 ^ k \<and> kroundup32 (2 ^ k + 1) = 2 ^ (k + 1)" (is "\<forall>k \<in> _. ?P k")
    by (simp add: kroundup32_def upt_rec)
  moreover have "k \<in> set [2..<31]" using assms unfolding set_upt atLeastLessThan_iff by linarith
  ultimately have "?P k" by (rule bspec)
  then show "kroundup32 (2 ^ k - 1) = 2 ^ k" "kroundup32 (2 ^ k + 1) = 2 ^ (k + 1)" by blast+
  have "\<not> (2 :: nat) ^ m < 4" if "2 \<le> m" for m using power_increasing [of 2 m "2 :: nat"] that by simp
  then have four: "\<not> (2 ^ m :: 32 word) < 4" if "2 \<le> m" "m \<le> 31" for m
    using that unat_power [of m] by (simp add: word_less_nat_alt)
  show "\<not> (2 ^ k :: 32 word) < 4" by (rule four) (use assms in simp_all)
  show "\<not> (2 ^ (k + 1) :: 32 word) < 4" by (rule four) (use assms in simp_all)
qed

text \<open>The table that the insertion works on.\<close>

definition room_made :: "'a kh \<Rightarrow> 'a kh \<Rightarrow> bool" where
  "room_made h h' \<longleftrightarrow> (\<exists>k. kh_wf k h') \<and> kh_map h' = kh_map h \<and> kh_n_occupied h' < kh_upper_bound h' \<and> kh_size h' = kh_size h \<and>
     (no_deleted h \<longrightarrow> no_deleted h') \<and>
     (unat (kh_n_buckets h) \<le> 4 * unat (kh_size h) + 4 \<longrightarrow> unat (kh_n_buckets h') \<le> 4 * unat (kh_size h') + 4)"

abbreviation allocates :: "'a kh_host \<Rightarrow> bool" where
  "allocates host \<equiv> kh_alloc_flags host \<and> kh_alloc_keys host \<and> kh_alloc_vals host"

lemma resize_to:
  assumes "kh_base h" "n = (if kroundup32 m < 4 then 4 else kroundup32 m)" "n = 2 ^ k" "2 \<le> k" "k \<le> 30"
    and "unat (kh_size h) < (2 ^ k * 77 + 50) div 100" "allocates host"
    and "unat (kh_n_buckets h) \<le> 4 * unat (kh_size h) + 4 \<longrightarrow> 2 ^ k \<le> 4 * unat (kh_size h) + 4"
  shows "\<exists>h'. kh_resize host m h = Inr (0, h') \<and> room_made h h'"
proof -
  have n: "unat n = 2 ^ k" using assms(3,5) unat_power [of k] by simp
  have "kh_size h < ac_upper n" using assms(4-6) upper_less(2) [OF n] by (simp add: word_less_nat_alt)
  from resize_ok [OF assms(1,2) n assms(4,5) this] assms(7) obtain h' where "kh_resize host m h = Inr (0, h')" "kh_wf k h'"
      "kh_map h' = kh_map h" "no_deleted h'" "kh_n_occupied h' < kh_upper_bound h'" "kh_size h' = kh_size h" "unat (kh_n_buckets h') = 2 ^ k"
    by blast
  then show ?thesis using assms(8) unfolding room_made_def by metis
qed

lemma make_room_wf:
  fixes h :: "'a kh"
  assumes wf: "kh_wf k h" and k: "k < 30" and full: "kh_upper_bound h \<le> kh_n_occupied h" and host: "allocates host"
  shows "\<exists>h'. (if push_bit 1 (kh_size h) < kh_n_buckets h then kh_resize host (kh_n_buckets h - 1) h
     else kh_resize host (kh_n_buckets h + 1) h) = Inr (0, h') \<and> room_made h h'"
proof -
  have un: "unat (kh_n_buckets h) = 2 ^ k" and k2: "2 \<le> k" "k \<le> 31" using wf k by (auto simp: kh_wf_def shape_def)
  then have n: "kh_n_buckets h = 2 ^ k" using unat_power [of k] by (intro unat_eqI32) simp
  have base: "kh_base h" using wf by (intro kh_base) (auto simp: kh_inv_def)
  note cb = card_bounds [OF wf]
  have occ: "unat (kh_n_occupied h) = (2 ^ k * 77 + 50) div 100"
    using wf full upper_less(2) [OF un k2] by (auto simp: kh_wf_def)
  have "unat (2 * kh_size h) = 2 * unat (kh_size h)" using cb by (subst unat_mult_lem [THEN iffD1]) simp_all
  then have dbl: "unat (push_bit 1 (kh_size h)) = 2 * unat (kh_size h)" by (simp add: push_bit_eq_mult mult.commute)
  have four: "(4 :: nat) \<le> 2 ^ k" using power_increasing [of 2 k "2 :: nat"] k2 by simp
  show ?thesis
  proof (cases "push_bit 1 (kh_size h) < kh_n_buckets h")
    case True
    then have "2 * unat (kh_size h) < 2 ^ k" using dbl un by (simp add: word_less_nat_alt)
    then have "unat (kh_size h) < (2 ^ k * 77 + 50) div 100" using four by simp
    moreover have "2 ^ k = (if kroundup32 (kh_n_buckets h - 1) < 4 then 4 else kroundup32 (kh_n_buckets h - 1))"
      using round_up [of k] k2 k by (simp add: n)
    ultimately show ?thesis using resize_to [OF base, of "2 ^ k" "kh_n_buckets h - 1" k host] k2 k host un True by simp
  next
    case False
    then have "2 ^ k \<le> 2 * unat (kh_size h)" using dbl un by (simp add: word_less_nat_alt not_less)
    moreover have "unat (kh_size h) < (2 ^ (k + 1) * 77 + 50) div 100" using cb(3) occ four by simp
    moreover have "2 ^ (k + 1) = (if kroundup32 (kh_n_buckets h + 1) < 4 then 4 else kroundup32 (kh_n_buckets h + 1))"
      using round_up [of k] k2 k by (simp add: n)
    ultimately show ?thesis using resize_to [OF base, of "2 ^ (k + 1)" "kh_n_buckets h + 1" "k + 1" host] k2 k host False by simp
  qed
qed

text \<open>Where the table is empty or full, it is resized first.\<close>

lemma make_room:
  fixes h :: "'a kh"
  assumes inv: "kh_inv h" and small: "kh_n_buckets h < 0x40000000" and host: "allocates host"
  shows "\<exists>h'. (if kh_upper_bound h \<le> kh_n_occupied h
      then if push_bit 1 (kh_size h) < kh_n_buckets h then kh_resize host (kh_n_buckets h - 1) h else kh_resize host (kh_n_buckets h + 1) h
      else Inr (0, h)) = Inr (0, h') \<and> room_made h h'"
  using inv unfolding kh_inv_def
proof (elim disjE exE conjE)
  assume z: "kh_n_buckets h = 0" "kh_size h = 0" "kh_n_occupied h = 0" "kh_upper_bound h = 0"
  have four: "(if kroundup32 1 < 4 then 4 else kroundup32 1) = (4 :: 32 word)" by code_simp
  have "\<exists>h'. kh_resize host 1 h = Inr (0, h') \<and> room_made h h'"
    by (rule resize_to [OF kh_base [OF inv], of 4 _ 2]) (use z four host in simp_all)
  then show ?thesis using z by simp
next
  fix k assume wf: "kh_wf k h"
  have un: "unat (kh_n_buckets h) = 2 ^ k" using wf by (simp add: kh_wf_def shape_def)
  then have "(2 :: nat) ^ k < 2 ^ 30" using small by (simp add: word_less_nat_alt)
  then have k: "k < 30" by (rule power_less_imp_less_exp [rotated]) simp
  show ?thesis
  proof (cases "kh_upper_bound h \<le> kh_n_occupied h")
    case True
    then show ?thesis using make_room_wf [OF wf k True host] by simp
  next
    case False
    then show ?thesis using wf by (auto simp: room_made_def)
  qed
qed

section \<open>The operations as those of a map\<close>

text \<open>Everything that the users of the table rely on after an insertion.\<close>

definition put_done :: "64 word \<Rightarrow> 'a kh \<Rightarrow> nat \<Rightarrow> int \<Rightarrow> 'a kh \<Rightarrow> bool" where
  "put_done key h x ret h' \<longleftrightarrow> (\<exists>k. kh_wf k h' \<and> x < 2 ^ k) \<and> inserted key h x ret h' \<and>
     unat (kh_size h') = unat (kh_size h) + (if ret = 0 then 0 else 1) \<and>
     (unat (kh_n_buckets h) \<le> 4 * unat (kh_size h) + 4 \<longrightarrow> unat (kh_n_buckets h') \<le> 4 * unat (kh_size h') + 4)"

lemma kh_put_ok:
  fixes h :: "'a kh"
  assumes "kh_inv h" "kh_n_buckets h < 0x40000000" "allocates host"
  shows "\<exists>x ret h'. kh_put host key h = Inr (of_nat x, ret, h') \<and> put_done key h x ret h'"
proof -
  obtain h1 where h1: "(if kh_upper_bound h \<le> kh_n_occupied h
      then if push_bit 1 (kh_size h) < kh_n_buckets h then kh_resize host (kh_n_buckets h - 1) h else kh_resize host (kh_n_buckets h + 1) h
      else Inr (0, h)) = Inr (0, h1)" and rm: "room_made h h1"
    using make_room [OF assms] by blast
  obtain k where wf: "kh_wf k h1" and room: "kh_n_occupied h1 < kh_upper_bound h1" using rm by (auto simp: room_made_def)
  obtain x ret h' where put: "x < 2 ^ k" "put_at key h1 = Inr (of_nat x, ret, h')" "kh_wf k h'" "inserted key h1 x ret h'"
      "kh_n_buckets h' = kh_n_buckets h1" "unat (kh_size h') = unat (kh_size h1) + (if ret = 0 then 0 else 1)"
    by (rule put_at_ok [OF wf room]) (rule that)
  have "kh_put host key h = Inr (of_nat x, ret, h')" unfolding kh_put_def h1 using put(2) by simp
  moreover have "inserted key h x ret h'" using put(4) rm by (auto simp: inserted_def room_made_def)
  moreover have "unat (kh_n_buckets h) \<le> 4 * unat (kh_size h) + 4 \<longrightarrow> unat (kh_n_buckets h') \<le> 4 * unat (kh_size h') + 4"
    using put(5,6) rm by (auto simp: room_made_def)
  ultimately show ?thesis using put(1,3,6) rm by (auto simp: put_done_def room_made_def)
qed

lemma set_value:
  fixes h :: "'a kh"
  assumes wf: "kh_wf k h" and x: "live h x" and h': "h' = h\<lparr>kh_vals := (kh_vals h)[x := v]\<rparr>"
  shows "kh_wf k h'" "kh_map h' = (kh_map h)(kh_keys h ! x \<mapsto> v)" "no_deleted h' = no_deleted h"
proof -
  have lv: "live h' i = live h i" for i by (simp add: live_def h')
  have inj: "inj_on ((!) (kh_keys h)) {i. live h i}" using wf by (simp add: kh_wf_def)
  then have inj': "inj_on ((!) (kh_keys h')) {i. live h' i}" by (simp add: lv) (simp add: h')
  have keys: "kh_keys h' = kh_keys h" and vals: "\<And>i. i \<noteq> x \<Longrightarrow> kh_vals h' ! i = kh_vals h ! i" by (simp_all add: h')
  have len: "x < length (kh_vals h)" using wf x by (auto simp: kh_wf_def shape_def live_def)
  have "shape k h'" using wf by (simp add: kh_wf_def shape_def h')
  then show "kh_wf k h'" using wf by (auto simp: kh_wf_def lv) (simp_all add: h')
  show "no_deleted h' = no_deleted h" by (simp add: no_deleted_def h')
  show "kh_map h' = (kh_map h)(kh_keys h ! x \<mapsto> v)"
  proof
    fix key
    show "kh_map h' key = ((kh_map h)(kh_keys h ! x \<mapsto> v)) key"
    proof (cases "key = kh_keys h ! x")
      case True
      then show ?thesis using kh_map_Some [OF inj', of x key] x len lv by (simp add: h')
    next
      case False
      have "kh_map h' key = Some w \<longleftrightarrow> kh_map h key = Some w" for w
        unfolding kh_map_iff [OF inj] kh_map_iff [OF inj'] lv keys using False vals by metis
      then have "kh_map h' key = kh_map h key" by (metis option.exhaust)
      then show ?thesis using False by simp
    qed
  qed
qed

text \<open>The head that the table has for an address, or the new one.\<close>

definition head_for :: "(64 word \<rightharpoonup> 'a) \<Rightarrow> 64 word \<Rightarrow> 'a \<Rightarrow> 'a" where
  "head_for m uaddr head = (case m uaddr of Some v \<Rightarrow> v | None \<Rightarrow> head)"

lemma pfutex_head_ok:
  fixes h :: "'a kh"
  assumes inv: "kh_inv h" "no_deleted h" and small: "kh_n_buckets h < 0x40000000" and host: "allocates host"
  shows "\<exists>h'. pfutex_head host uaddr head h = Inr (head_for (kh_map h) uaddr head, h') \<and>
    kh_map h' = (kh_map h)(uaddr \<mapsto> head_for (kh_map h) uaddr head) \<and> kh_inv h' \<and> no_deleted h' \<and>
    unat (kh_size h') \<le> unat (kh_size h) + 1 \<and>
    (unat (kh_n_buckets h) \<le> 4 * unat (kh_size h) + 4 \<longrightarrow> unat (kh_n_buckets h') \<le> 4 * unat (kh_size h') + 4)"
proof -
  obtain x ret h1 where run: "kh_put host uaddr h = Inr (of_nat x, ret, h1)" and p: "put_done uaddr h x ret h1"
    using kh_put_ok [OF inv(1) small host] by blast
  obtain k where wf: "kh_wf k h1" "x < 2 ^ k" using p by (auto simp: put_done_def)
  have i: "live h1 x" "kh_keys h1 ! x = uaddr" "no_deleted h1" "ret \<noteq> 2"
      "ret = 0 \<and> kh_map h uaddr = kh_map h1 uaddr \<or> ret \<in> {1, 2} \<and> kh_map h uaddr = None"
      "\<forall>key'. key' \<noteq> uaddr \<longrightarrow> kh_map h1 key' = kh_map h key'"
    using p inv(2) by (auto simp: put_done_def inserted_def)
  have sh: "shape k h1" using wf(1) by (simp add: kh_wf_def)
  note at = shape_at [OF sh wf(2)]
  have inj: "inj_on ((!) (kh_keys h1)) {i. live h1 i}" using wf(1) by (simp add: kh_wf_def)
  show ?thesis
  proof (cases "ret = 0")
    case True
    then have v: "kh_map h uaddr = Some (kh_vals h1 ! x)" using i(5) kh_map_Some [OF inj i(1,2)] by simp
    then have "pfutex_head host uaddr head h = Inr (head_for (kh_map h) uaddr head, h1)"
      using run at True by (simp add: pfutex_head_def head_for_def)
    moreover have "kh_map h1 = (kh_map h)(uaddr \<mapsto> head_for (kh_map h) uaddr head)"
      using i(6) v kh_map_Some [OF inj i(1,2)] by (simp add: head_for_def fun_eq_iff)
    ultimately show ?thesis using p i(3) wf(1) by (auto simp: put_done_def kh_inv_def)
  next
    case False
    then have r: "ret = 1" "kh_map h uaddr = None" using i(4,5) by auto
    define h2 where "h2 = h1\<lparr>kh_vals := (kh_vals h1)[x := head]\<rparr>"
    note s = set_value [OF wf(1) i(1) h2_def]
    have "x < length (kh_vals h1)" using sh wf(2) by (simp add: shape_def)
    then have "kh_at (kh_vals h2) (of_nat x) = Inr head"
      using shape_at(2) [of k h2 x] s(1) wf(2) by (simp add: kh_wf_def) (simp add: h2_def)
    then have "pfutex_head host uaddr head h = Inr (head_for (kh_map h) uaddr head, h2)"
      using run at r by (simp add: pfutex_head_def head_for_def h2_def)
    moreover have "kh_map h2 = (kh_map h)(uaddr \<mapsto> head_for (kh_map h) uaddr head)"
      unfolding s(2) i(2) using i(6) r(2) by (auto simp: head_for_def fun_eq_iff)
    moreover have "kh_size h2 = kh_size h1" "kh_n_buckets h2 = kh_n_buckets h1" by (simp_all add: h2_def)
    ultimately show ?thesis using p r(1) s(1,3) i(3) by (auto simp: put_done_def kh_inv_def)
  qed
qed

text \<open>A sequence of calls, each with its own answers of the host and its own fresh head.\<close>

fun pfutex_heads :: "('a kh_host \<times> 64 word \<times> 'a) list \<Rightarrow> 'a kh \<Rightarrow> ('a list \<times> 'a kh) run" where
  "pfutex_heads [] h = Inr ([], h)"
| "pfutex_heads ((host, uaddr, head) # cs) h =
    bind_run (pfutex_head host uaddr head h) (\<lambda>(v, h). bind_run (pfutex_heads cs h) (\<lambda>(vs, h). Inr (v # vs, h)))"

fun heads_of :: "('a kh_host \<times> 64 word \<times> 'a) list \<Rightarrow> (64 word \<rightharpoonup> 'a) \<Rightarrow> 'a list \<times> (64 word \<rightharpoonup> 'a)" where
  "heads_of [] m = ([], m)"
| "heads_of ((host, uaddr, head) # cs) m =
    (let v = head_for m uaddr head; (vs, m) = heads_of cs (m(uaddr \<mapsto> v)) in (v # vs, m))"

lemma pfutex_heads_ok:
  fixes h :: "'a kh"
  assumes "kh_inv h" "no_deleted h" "unat (kh_n_buckets h) \<le> 4 * unat (kh_size h) + 4"
    and "unat (kh_size h) + length cs < 2 ^ 27" "list_all (\<lambda>(host, _). allocates host) cs"
  shows "\<exists>vs h'. pfutex_heads cs h = Inr (vs, h') \<and> kh_inv h' \<and> heads_of cs (kh_map h) = (vs, kh_map h')"
  using assms
proof (induction cs arbitrary: h)
  case (Cons call cs)
  obtain host uaddr head where call: "call = (host, uaddr, head)" by (cases call)
  let ?v = "head_for (kh_map h) uaddr head"
  have "unat (kh_n_buckets h) < 2 ^ 30" using Cons.prems(3,4) by simp
  then have small: "kh_n_buckets h < 0x40000000" by (simp add: word_less_nat_alt)
  have host: "allocates host" using Cons.prems(5) call by simp
  obtain h1 where h1: "pfutex_head host uaddr head h = Inr (?v, h1)" "kh_map h1 = (kh_map h)(uaddr \<mapsto> ?v)" "kh_inv h1" "no_deleted h1"
      "unat (kh_size h1) \<le> unat (kh_size h) + 1" "unat (kh_n_buckets h1) \<le> 4 * unat (kh_size h1) + 4"
    using pfutex_head_ok [OF Cons.prems(1,2) small host, of uaddr head] Cons.prems(3) by blast
  have "unat (kh_size h1) + length cs < 2 ^ 27" "list_all (\<lambda>(host, _). allocates host) cs" using h1(5) Cons.prems(4,5) by simp_all
  from Cons.IH [OF h1(3,4,6) this] obtain vs h' where "pfutex_heads cs h1 = Inr (vs, h')" "kh_inv h'" "heads_of cs (kh_map h1) = (vs, kh_map h')"
    by blast
  then show ?case using h1(1,2) by (simp add: call)
qed simp

lemma kh_init_ok:
  "kh_inv kh_init" "no_deleted kh_init" "kh_map kh_init = Map.empty" "kh_n_buckets kh_init = 0" "kh_size kh_init = 0"
  by (simp_all add: kh_inv_def kh_init_def no_deleted_def kh_map_def fun_eq_iff)

text \<open>
  C10: The table of the futexes is a map: whatever addresses are asked for, in whatever order, as long as
  memory can be allocated and the calls are fewer than \<open>2\<^sup>2\<^sup>7\<close>, every call of \<open>pfutex_get\<close> on the hash table
  returns, no assertion of it is hit and no array is left, the head of the list that was made at the first
  call with an address is the answer of every later one with that address, and the table ends as the map of
  those heads.
\<close>

theorem pfutex_table_is_map:
  assumes "length cs < 2 ^ 27" "list_all (\<lambda>(host, _). allocates host) cs"
  shows "\<exists>vs h'. pfutex_heads cs kh_init = Inr (vs, h') \<and> kh_inv h' \<and> heads_of cs Map.empty = (vs, kh_map h')"
  using pfutex_heads_ok [OF kh_init_ok(1,2), of cs] assms unfolding kh_init_ok(3-5) by simp

theorem pfutex_table_is_map_witness:
  "\<exists>h'. pfutex_heads [(\<lparr>kh_alloc_flags = True, kh_alloc_keys = True, kh_alloc_vals = True, kh_junk_key = \<lambda>_. 5, kh_junk_val = \<lambda>_. 9\<rparr>, 0x1000, 1 :: nat),
      (\<lparr>kh_alloc_flags = True, kh_alloc_keys = True, kh_alloc_vals = True, kh_junk_key = \<lambda>_. 5, kh_junk_val = \<lambda>_. 9\<rparr>, 0x2000, 2),
      (\<lparr>kh_alloc_flags = True, kh_alloc_keys = True, kh_alloc_vals = True, kh_junk_key = \<lambda>_. 5, kh_junk_val = \<lambda>_. 9\<rparr>, 0x1000, 3)] kh_init =
      Inr ([1, 2, 1], h') \<and> kh_map h' = [0x1000 \<mapsto> 1, 0x2000 \<mapsto> 2]"
proof -
  let ?host = "\<lparr>kh_alloc_flags = True, kh_alloc_keys = True, kh_alloc_vals = True, kh_junk_key = \<lambda>_. 5, kh_junk_val = \<lambda>_. 9 :: nat\<rparr>"
  let ?cs = "[(?host, 0x1000, 1), (?host, 0x2000, 2), (?host, 0x1000, 3)]"
  have "heads_of ?cs Map.empty = ([1, 2, 1], [0x1000 \<mapsto> 1, 0x2000 \<mapsto> 2])"
    by (auto simp: head_for_def fun_eq_iff)
  then show ?thesis using pfutex_table_is_map [of ?cs] by auto
qed

text \<open>Looking up a key gives its bucket, or the number of buckets where the key is not there.\<close>

lemma kh_get_wf:
  assumes wf: "kh_wf k h"
  obtains x where "kh_get h key = Inr x" "case kh_map h key of None \<Rightarrow> x = kh_n_buckets h
    | Some v \<Rightarrow> live h (unat x) \<and> kh_keys h ! unat x = key \<and> kh_vals h ! unat x = v"
proof -
  have sh: "shape k h" and n: "unat (kh_n_buckets h) = 2 ^ k" and k: "k \<le> 31" and inj: "inj_on ((!) (kh_keys h)) {i. live h i}"
    using wf by (auto simp: kh_wf_def shape_def)
  have "card {i. i < 2 ^ k \<and> \<not> emp (kh_flags h) i} < 2 ^ k" using card_bounds(4) [OF wf] wf by (simp add: kh_wf_def)
  then obtain i where "i < 2 ^ k" "emp (kh_flags h) i" by (rule some_empty)
  then have "i < 2 ^ k" "stops h key i" by (simp_all add: stops_def)
  then obtain s where s: "s < 2 ^ k" "stops h key (probe k key s)" "\<And>t. t < s \<Longrightarrow> \<not> stops h key (probe k key t)"
    using first_stop [of i k "stops h key" key] by blast
  define p where "p = probe k key s"
  have u: "unat (of_nat p :: 32 word) = p" unfolding p_def by (rule unat_probe [OF k])
  have "kh_n_buckets h \<noteq> 0" using n by auto
  then have run: "kh_get h key = Inr (if emp (kh_flags h) p \<or> del (kh_flags h) p then kh_n_buckets h else of_nat p)"
    using get_loop_run [OF sh, of s key 0 "2 * unat (kh_n_buckets h)"] s n
    by (simp add: kh_get_def Let_def home_word [OF n k] p_def)
  have p: "live h p \<longleftrightarrow> \<not> (emp (kh_flags h) p \<or> del (kh_flags h) p)" using probe_less [of k key s] n by (simp add: live_def p_def)
  show ?thesis
  proof (cases "live h p")
    case True
    then have "kh_keys h ! p = key" using s(2) by (auto simp: stops_def live_def p_def)
    then show ?thesis using that [OF run] True p u kh_map_Some [OF inj True] by simp
  next
    case False
    have "kh_map h key = None"
      unfolding kh_map_None
    proof (intro allI impI notI)
      fix i assume "live h i" "kh_keys h ! i = key"
      then have "p = i" unfolding p_def by (intro found_first [OF wf s(2)] s(3))
      then show False using \<open>live h i\<close> False by simp
    qed
    then show ?thesis using that [OF run] False p by simp
  qed
qed

text \<open>Deleting a live bucket removes its key and nothing else.\<close>

lemma kh_del_wf:
  assumes wf: "kh_wf k h" and x: "live h x"
  obtains h' where "kh_del (of_nat x) h = Inr h'" "kh_wf k h'" "kh_map h' = (kh_map h)(kh_keys h ! x := None)"
proof -
  have sh: "shape k h" and n: "unat (kh_n_buckets h) = 2 ^ k" and k: "k \<le> 31" and hf: "has_flags (kh_flags h) (2 ^ k)"
    and inj: "inj_on ((!) (kh_keys h)) {i. live h i}"
    using wf by (auto simp: kh_wf_def shape_def)
  have xl: "x < 2 ^ k" using x n by (simp add: live_def)
  then have u: "unat (of_nat x :: 32 word) = x" using small_power [OF k] by (intro unat_nat32) simp
  have ne: "of_nat x \<noteq> kh_n_buckets h"
  proof
    assume "of_nat x = kh_n_buckets h"
    then have "unat (of_nat x :: 32 word) = 2 ^ k" by (simp only: n)
    then show False using u xl by simp
  qed
  obtain fl where fl: "ac_set_isdel_true (kh_flags h) (of_nat x) = Inr fl" "length fl = length (kh_flags h)"
      "\<And>j. emp fl j = emp (kh_flags h) j" "\<And>j. del fl j = (j = x \<or> del (kh_flags h) j)"
    using flag_writes [OF hf xl small_power [OF k]] by metis
  define h' where "h' = h\<lparr>kh_flags := fl, kh_size := kh_size h - 1\<rparr>"
  have run: "kh_del (of_nat x) h = Inr h'"
    using x shape_at(7) [OF sh xl] fl(1) ne by (simp add: kh_del_def h'_def live_def)
  have lv: "live h' i \<longleftrightarrow> live h i \<and> i \<noteq> x" for i using fl(3,4) by (auto simp: live_def h'_def)
  then have set: "{i. live h' i} = {i. live h i} - {x}" by auto
  have "0 < card {i. live h i}" using x by (auto simp: card_gt_0_iff)
  then have "kh_size h \<noteq> 0" using wf by (auto simp: kh_wf_def)
  then have "unat (kh_size h - 1) = unat (kh_size h) - 1" by (rule unat_minus_one)
  moreover have "card {i. live h' i} = card {i. live h i} - 1" using x unfolding set by simp
  ultimately have size: "unat (kh_size h') = card {i. live h' i}" using wf by (simp add: kh_wf_def) (simp add: h'_def)
  have keys: "kh_keys h' = kh_keys h" "kh_vals h' = kh_vals h" by (simp_all add: h'_def)
  have inj': "inj_on ((!) (kh_keys h')) {i. live h' i}" unfolding set keys by (rule inj_on_subset [OF inj]) auto
  have "reach k fl (kh_keys h' ! i) i" if "live h' i" for i
    using reach_mono [of k "kh_flags h" "kh_keys h ! i" i fl] fl(3) that wf unfolding lv keys by (simp add: kh_wf_def)
  moreover have "shape k h'" using sh by (simp add: shape_def h'_def has_flags_length [OF fl(2)])
  ultimately have wf': "kh_wf k h'" using wf size inj' fl(3) by (auto simp: kh_wf_def h'_def)
  have "kh_map h' key = ((kh_map h)(kh_keys h ! x := None)) key" for key
  proof (cases "key = kh_keys h ! x")
    case True
    then show ?thesis using inj x by (auto simp: kh_map_None lv keys dest: inj_onD)
  next
    case False
    have "kh_map h' key = Some w \<longleftrightarrow> kh_map h key = Some w" for w
      unfolding kh_map_iff [OF inj] kh_map_iff [OF inj'] lv keys using False by blast
    then have "kh_map h' key = kh_map h key" by (metis option.exhaust)
    then show ?thesis using False by simp
  qed
  then show ?thesis using that [OF run wf'] by (simp add: fun_eq_iff)
qed

end
