(* ===== verification/Signal.thy ===== *)
theory Signal
  imports Futex
begin

text \<open>
  Signals, \<open>src/ipc/signal.c\<close>.  The state holds what \<open>proc\<close> and \<open>task\<close> have of signals, the registers
  of the virtual processor, the memory of the guest and the host calls made so far.  What a host call
  returns, the memory of the uninitialised frame and the address of \<open>__host_signal_handler\<close> are
  fields of an argument.  A signal of the host that arrives is a step of its own,
  \<open>host_signal_handler\<close>.
\<close>

section \<open>State\<close>

text \<open>The registers of the processor that the handlers use.\<close>

datatype reg = RIP | RFLAGS | RAX | RCX | RDX | RBX | RSI | RDI | RSP | RBP
  | R8 | R9 | R10 | R11 | R12 | R13 | R14 | R15 | CS | SS | DS | ES | FS | GS | XCR0

record l_stack =
  ss_sp :: "64 word"
  ss_flags :: flags
  ss_size :: "64 word"

datatype sig_call = Sigaction int sigaction | Sigprocmask sigset | Pthread_sigmask sigset | Kill int int | Alarm flags

datatype sig_event = Sig_rdlock | Sig_wrlock | Sig_unlock | Sig_call sig_call

record sig_state =
  sg_regs :: "reg \<Rightarrow> 64 word"
  sg_user :: user_mem
  sg_actions :: "l_sigaction list"
  sg_mask :: l_sigset
  sg_pending :: "64 word"
  sg_sas :: l_stack
  sg_trace :: "sig_event list"

record sig_host =
  sh_answer :: "sig_call \<Rightarrow> int \<times> int"
  sh_handler :: haddr
  sh_undef :: sigset
  sh_frame :: "byte list"
  sh_actions :: "int \<Rightarrow> haddr"
  sh_mask :: sigset
  sh_fatal :: "sig_call \<Rightarrow> bool"

type_synonym 'a sg = "sig_state \<Rightarrow> ('a \<times> sig_state) run"

abbreviation (input) LINUX_NSIG :: int where "LINUX_NSIG \<equiv> 64"
abbreviation (input) LINUX_SIGKILL :: int where "LINUX_SIGKILL \<equiv> 9"
abbreviation (input) LINUX_SIGSTOP :: int where "LINUX_SIGSTOP \<equiv> 19"
abbreviation (input) LINUX_SIG_DFL :: gaddr where "LINUX_SIG_DFL \<equiv> 0"
abbreviation (input) LINUX_SIG_IGN :: gaddr where "LINUX_SIG_IGN \<equiv> 1"
abbreviation (input) SIG_DFL :: haddr where "SIG_DFL \<equiv> 0"
abbreviation (input) SIG_IGN :: haddr where "SIG_IGN \<equiv> 1"
abbreviation (input) LINUX_SA_SIGINFO :: "64 word" where "LINUX_SA_SIGINFO \<equiv> 0x4"
abbreviation (input) LINUX_SA_RESTORER :: "64 word" where "LINUX_SA_RESTORER \<equiv> 0x04000000"
abbreviation (input) LINUX_SA_ONSTACK :: "64 word" where "LINUX_SA_ONSTACK \<equiv> 0x08000000"
abbreviation (input) LINUX_SA_NOMASK :: "64 word" where "LINUX_SA_NOMASK \<equiv> 0x40000000"
abbreviation (input) LINUX_SA_ONESHOT :: "64 word" where "LINUX_SA_ONESHOT \<equiv> 0x80000000"
abbreviation (input) LINUX_SS_ONSTACK :: flags where "LINUX_SS_ONSTACK \<equiv> 1"
abbreviation (input) LINUX_SS_DISABLE :: flags where "LINUX_SS_DISABLE \<equiv> 2"
abbreviation (input) LINUX_SS_AUTODISARM :: flags where "LINUX_SS_AUTODISARM \<equiv> 0x80000000"
abbreviation (input) SS_ONSTACK :: flags where "SS_ONSTACK \<equiv> 1"
abbreviation (input) SS_DISABLE :: flags where "SS_DISABLE \<equiv> 4"
abbreviation (input) LINUX_MINSIGSTKSZ :: "64 word" where "LINUX_MINSIGSTKSZ \<equiv> 2048"
abbreviation (input) DARWIN_NSIG :: nat where "DARWIN_NSIG \<equiv> 32"

definition sig_emit :: "sig_event \<Rightarrow> sig_state \<Rightarrow> sig_state" where
  "sig_emit e st = st\<lparr>sg_trace := sg_trace st @ [e]\<rparr>"

definition set_reg :: "reg \<Rightarrow> 64 word \<Rightarrow> sig_state \<Rightarrow> sig_state" where
  "set_reg r v st = st\<lparr>sg_regs := (sg_regs st)(r := v)\<rparr>"

text \<open>The entry of a signal in the table; the index is the number less one.\<close>

definition sig_entry :: "int \<Rightarrow> sig_state \<Rightarrow> l_sigaction run" where
  "sig_entry sig st =
    (if 1 \<le> sig \<and> sig \<le> int (length (sg_actions st)) then Inr (sg_actions st ! nat (sig - 1)) else Inl Out_of_bounds)"

section \<open>Pending signals\<close>

text \<open>
  A shift by a count outside of 0 to 63 takes the count modulo 64 on the machine.
\<close>

definition sigbit :: "int \<Rightarrow> 64 word" where
  "sigbit lsig = push_bit (nat ((lsig - 1) mod 64)) 1"

definition host_signal_handler :: "int \<Rightarrow> sig_state \<Rightarrow> sig_state" where
  "host_signal_handler signum st = st\<lparr>sg_pending := sg_pending st OR sigbit (darwin_to_linux_signal signum)\<rparr>"

text \<open>
  \<open>kill\<close> does not return when the host ends the process in it, as it does for a signal to itself that is
  neither blocked nor ignored nor caught; which calls these are is an argument.
\<close>

definition send_signal :: "sig_host \<Rightarrow> int \<Rightarrow> int \<Rightarrow> int sg" where
  "send_signal h pid signum st =
    (if signum \<ge> LINUX_SIGRTMIN then Inr (0, st)
     else
       let c = Kill pid (if signum = 0 then 0 else linux_to_darwin_signal signum) in
       if sh_fatal h c then Inl Killed
       else Inr (syswrap (fst (sh_answer h c)) (snd (sh_answer h c)), sig_emit (Sig_call c) st))"

definition has_sigpending :: "sig_state \<Rightarrow> bool" where
  "has_sigpending st \<longleftrightarrow> sg_pending st AND NOT (sg_mask st) \<noteq> 0"

definition builtin_ffs :: "flags \<Rightarrow> int" where
  "builtin_ffs w = (case List.find (bit w) [0..<32] of None \<Rightarrow> 0 | Some i \<Rightarrow> int i + 1)"

definition pop_signal :: "int sg" where
  "pop_signal st =
    (let pending = sg_pending st AND NOT (sg_mask st) in
     if pending = 0 then Inr (0, st)
     else
       let sig = builtin_ffs (ucast pending) in
       if 0 < sig \<and> sig < 32 then Inr (sig, st\<lparr>sg_pending := sg_pending st AND NOT (sigbit sig)\<rparr>)
       else Inl Assert_failed)"

section \<open>Start and exec\<close>

definition fresh_action :: "gaddr \<Rightarrow> l_sigaction" where
  "fresh_action handler = \<lparr>lsa_handler = handler, lsa_flags = 0, lsa_restorer = 0, lsa_mask = 0\<rparr>"

definition init_signal :: "sig_host \<Rightarrow> nat \<Rightarrow> sig_state \<Rightarrow> sig_state run" where
  "init_signal h nr_tasks st =
    (let handlers = map (\<lambda>i. sh_actions h (i + 1)) [0..LINUX_NSIG - 1] in
     if \<exists>a \<in> set handlers. \<not> (a = SIG_IGN \<or> a = SIG_DFL) then Inl Assert_failed
     else if nr_tasks \<noteq> 1 then Inl Assert_failed
     else Inr (st\<lparr>sg_actions := map (\<lambda>a. fresh_action (if a = SIG_IGN then LINUX_SIG_IGN else LINUX_SIG_DFL)) handlers,
       sg_mask := darwin_to_linux_sigset (sh_undef h) (sh_mask h), sg_pending := 0\<rparr>))"

definition no_sas :: l_stack where
  "no_sas = \<lparr>ss_sp = 0, ss_flags = LINUX_SS_DISABLE, ss_size = 0\<rparr>"

definition reset_sas :: "sig_state \<Rightarrow> sig_state" where
  "reset_sas st = st\<lparr>sg_sas := no_sas\<rparr>"

definition reset_action :: "sig_host \<Rightarrow> nat \<Rightarrow> sig_state \<Rightarrow> sig_state" where
  "reset_action h i st =
    (let a = sg_actions st ! i in
     if lsa_handler a = LINUX_SIG_DFL \<or> lsa_handler a = LINUX_SIG_IGN then st
     else sig_emit (Sig_call (Sigaction (int i + 1) (linux_to_darwin_sigaction (sh_undef h) (fresh_action LINUX_SIG_DFL) SIG_DFL)))
       (st\<lparr>sg_actions := (sg_actions st)[i := fresh_action LINUX_SIG_DFL]\<rparr>))"

definition reset_signal_state :: "sig_host \<Rightarrow> sig_state \<Rightarrow> sig_state" where
  "reset_signal_state h st = reset_sas (fold (reset_action h) [0..<DARWIN_NSIG] st)"

section \<open>The frame of a signal\<close>

text \<open>
  The offsets of \<open>struct l_sigcontext\<close>, which starts at 48 in the frame: 18 registers of 8 bytes and
  four segment selectors of 2.
\<close>

definition sc_regs :: "(reg \<times> nat) list" where
  "sc_regs = [(R8, 48), (R9, 56), (R10, 64), (R11, 72), (R12, 80), (R13, 88), (R14, 96), (R15, 104), (RDI, 112),
     (RSI, 120), (RBP, 128), (RBX, 136), (RDX, 144), (RAX, 152), (RCX, 160), (RSP, 168), (RIP, 176), (RFLAGS, 184)]"

definition sc_segs :: "(reg \<times> nat) list" where
  "sc_segs = [(CS, 192), (GS, 194), (FS, 196), (SS, 198)]"

abbreviation (input) sizeof_sigframe :: nat where "sizeof_sigframe \<equiv> 440"
abbreviation (input) off_sc_mask :: nat where "off_sc_mask \<equiv> 216"

definition setup_sigcontext :: "(reg \<Rightarrow> 64 word) \<Rightarrow> l_sigset \<Rightarrow> (nat \<times> byte list) list" where
  "setup_sigcontext regs sigmask =
    map (\<lambda>(r, off). (off, le_bytes 8 (regs r))) sc_regs @
    map (\<lambda>(r, off). (off, le_bytes 2 (ucast (regs r) :: 16 word))) sc_segs @ [(off_sc_mask, le_bytes 8 sigmask)]"

definition restore_sigcontext :: "byte list \<Rightarrow> sig_state \<Rightarrow> sig_state" where
  "restore_sigcontext frame st =
    fold (\<lambda>(r, off). set_reg r (ucast (le_word (get_field off 2 frame) :: 16 word))) sc_segs
     (fold (\<lambda>(r, off). set_reg r (le_word (get_field off 8 frame))) sc_regs st)"

definition sas_ss_flags :: "l_stack \<Rightarrow> 64 word \<Rightarrow> flags" where
  "sas_ss_flags sas rsp =
    (if ss_flags sas AND LINUX_SS_DISABLE \<noteq> 0 \<or> ss_size sas = 0 then LINUX_SS_DISABLE
     else if rsp > ss_sp sas \<and> rsp - ss_sp sas < ss_size sas then LINUX_SS_ONSTACK OR ss_flags sas
     else ss_flags sas)"

text \<open>
  The fields of \<open>struct l_rt_sigframe\<close> in the order of their offsets: \<open>sf_pretcode\<close>, \<open>uc_flags\<close>,
  \<open>uc_link\<close>, \<open>uc_stack\<close>, \<open>uc_mcontext\<close>, \<open>uc_sigmask\<close> and \<open>sf_si\<close>.
\<close>

definition sigframe_fields :: "int \<Rightarrow> l_sigaction \<Rightarrow> sig_state \<Rightarrow> (nat \<times> byte list) list" where
  "sigframe_fields signum act st =
    [(0, le_bytes 8 (lsa_restorer act)), (8, le_bytes 8 (7 :: 64 word)), (16, le_bytes 8 (0 :: 64 word)),
     (24, le_bytes 8 (ss_sp (sg_sas st))), (32, le_bytes 4 (ss_flags (sg_sas st))), (40, le_bytes 8 (ss_size (sg_sas st)))] @
    setup_sigcontext (sg_regs st) (sg_mask st) @
    [(304, le_bytes 8 (sg_mask st)), (312, le_bytes 4 (word_of_int signum :: 32 word) @ replicate 124 0)]"

definition handler_mask :: "int \<Rightarrow> l_sigaction \<Rightarrow> l_sigset" where
  "handler_mask signum act =
    (if lsa_flags act AND LINUX_SA_NOMASK = 0 then LINUX_SIGADDSET (lsa_mask act) signum else lsa_mask act)"

definition setup_sigframe :: "sig_host \<Rightarrow> int \<Rightarrow> int sg" where
  "setup_sigframe h signum st =
    (if signum > LINUX_NSIG then Inl Assert_failed
     else bind_run (sig_entry signum st) (\<lambda>act.
       let rsp0 = sg_regs st RSP;
           rsp1 = (if lsa_flags act AND LINUX_SA_ONSTACK \<noteq> 0 \<and> sas_ss_flags (sg_sas st) rsp0 AND NOT LINUX_SS_AUTODISARM = 0
                   then ss_sp (sg_sas st) + ss_size (sg_sas st) else rsp0) in
       if lsa_flags act AND LINUX_SA_RESTORER = 0 then Inr (- LINUX_EFAULT, st)
       else
         let frame = put_fields (sigframe_fields signum act st) (sh_frame h);
             st1 = (if ss_flags (sg_sas st) AND LINUX_SS_AUTODISARM \<noteq> 0 then reset_sas st else st);
             newmask = handler_mask signum act;
             st2 = sig_emit (Sig_call (Sigprocmask (linux_to_darwin_sigset (sh_undef h) newmask))) (st1\<lparr>sg_mask := newmask\<rparr>);
             rsp = rsp1 - of_nat sizeof_sigframe;
             st3 = set_reg RSP rsp st2 in
         case copy_to_user (sg_user st3) rsp frame of (rest, u) \<Rightarrow>
           if rest \<noteq> 0 then Inr (- LINUX_EFAULT, st3\<lparr>sg_user := u\<rparr>)
           else Inr (0, set_reg RIP (lsa_handler act) (set_reg RAX 0 (set_reg RDX (rsp + 8)
             (set_reg RSI (rsp + 312) (set_reg RDI (word_of_int signum) (st3\<lparr>sg_user := u\<rparr>))))))))"

text \<open>
  \<open>die_with_forcedsig\<close> ends the process.  The loop takes pending signals until it has set up the frame
  of one or none is left.
\<close>

definition deliver :: "sig_host \<Rightarrow> int \<Rightarrow> l_sigaction \<Rightarrow> sig_state \<Rightarrow> sig_state run" where
  "deliver h sig act st =
    bind_run (setup_sigframe h sig st) (\<lambda>(r, st').
      if r < 0 then Inl Exited
      else if lsa_flags act AND LINUX_SA_ONESHOT \<noteq> 0 then
        Inr (st'\<lparr>sg_actions := (sg_actions st')[nat (sig - 1) := act\<lparr>lsa_handler := LINUX_SIG_DFL\<rparr>]\<rparr>)
      else Inr st')"

lemma builtin_ffs_0: "builtin_ffs 0 = 0"
proof -
  have "List.find (bit (0 :: flags)) [0..<32] = None" unfolding find_None_iff by simp
  then show ?thesis by (simp only: builtin_ffs_def option.case)
qed

lemma builtin_ffs_least:
  assumes "w \<noteq> 0"
  obtains i where "builtin_ffs w = int i + 1" "i < 32" "bit w i" "\<forall>k < i. \<not> bit w k"
proof -
  obtain k where "bit w k" using assms by (auto simp: bit_eq_iff)
  then have "List.find (bit w) [0..<32] \<noteq> None" using bit_imp_le_length [of w k] by (auto simp: find_None_iff)
  then obtain i where f: "List.find (bit w) [0..<32] = Some i" by auto
  then have "i < 32" "bit w i" "\<forall>k < i. \<not> bit w k" by (auto simp: find_Some_iff)
  then show thesis using that [of i] f by (simp add: builtin_ffs_def)
qed

definition pending_count :: "sig_state \<Rightarrow> nat" where
  "pending_count st = card {i. bit (sg_pending st) i}"

lemma pop_signal_less:
  assumes "pop_signal st = Inr (sig, st')" "sig \<noteq> 0"
  shows "pending_count st' < pending_count st"
proof -
  define w :: flags where "w = ucast (sg_pending st AND NOT (sg_mask st))"
  have sig: "sig = builtin_ffs w" "0 < sig" "sig < 32" "st' = st\<lparr>sg_pending := sg_pending st AND NOT (sigbit sig)\<rparr>"
    using assms by (auto simp: pop_signal_def w_def Let_def split: if_splits)
  have "w \<noteq> 0" using sig(1,2) builtin_ffs_0 by auto
  then obtain i where i: "sig = int i + 1" "bit w i" "i < 32" using builtin_ffs_least [of w] sig(1) by metis
  have "sigbit sig = push_bit i 1" using i by (simp add: sigbit_def)
  then have "\<not> bit (sg_pending st') i" "bit (sg_pending st) i" "\<And>k. bit (sg_pending st') k \<Longrightarrow> bit (sg_pending st) k"
    using i by (auto simp: sig(4) w_def bit_simps)
  then have "{k. bit (sg_pending st') k} \<subset> {k. bit (sg_pending st) k}" by blast
  moreover have "finite {k. bit (sg_pending st) k}"
    by (rule finite_subset [of _ "{..<64}"]) (auto dest: bit_imp_le_length)
  ultimately show ?thesis unfolding pending_count_def by (rule psubset_card_mono [rotated])
qed

function wake_loop_sig :: "sig_host \<Rightarrow> sig_state \<Rightarrow> sig_state run" where
  "wake_loop_sig h st =
    (case pop_signal st of
       Inl e \<Rightarrow> Inl e
     | Inr (sig, st') \<Rightarrow>
         if sig = 0 then Inr st'
         else case sig_entry sig st' of
           Inl e \<Rightarrow> Inl e
         | Inr act \<Rightarrow>
             if lsa_handler act = LINUX_SIG_DFL \<or> lsa_handler act = LINUX_SIG_IGN then wake_loop_sig h st'
             else deliver h sig act st')"
  by pat_completeness auto
termination
  by (relation "measure (pending_count \<circ> snd)") (auto dest: pop_signal_less)

declare wake_loop_sig.simps [simp del]

definition wake_sighandler :: "sig_host \<Rightarrow> sig_state \<Rightarrow> sig_state run" where
  "wake_sighandler h st =
    bind_run (wake_loop_sig h (sig_emit Sig_rdlock st)) (\<lambda>st'. Inr (sig_emit Sig_unlock st'))"

text \<open>\<open>nested\<close> is \<open>main_loop(1)\<close>: it runs the guest until \<open>rt_sigreturn\<close>.\<close>

definition handle_signal :: "sig_host \<Rightarrow> (sig_state \<Rightarrow> sig_state run) \<Rightarrow> sig_state \<Rightarrow> sig_state run" where
  "handle_signal h nested st = bind_run (wake_sighandler h st) nested"

section \<open>System calls\<close>

text \<open>Copies between the guest and the kernel; \<open>None\<close> and \<open>False\<close> are faults.\<close>

definition sg_fetch :: "gaddr \<Rightarrow> nat \<Rightarrow> sig_state \<Rightarrow> byte list option" where
  "sg_fetch a n st = (case copy_from_user (sg_user st) a n of (rest, bs) \<Rightarrow> if rest = 0 then Some bs else None)"

definition sg_store :: "gaddr \<Rightarrow> byte list \<Rightarrow> sig_state \<Rightarrow> bool \<times> sig_state" where
  "sg_store a bs st = (case copy_to_user (sg_user st) a bs of (rest, u) \<Rightarrow> (rest = 0, st\<lparr>sg_user := u\<rparr>))"

text \<open>The image of an \<open>l_sigaction_t\<close>, 32 bytes, and of an \<open>l_stack_t\<close>, 24 bytes with a gap.\<close>

definition encode_sigaction :: "l_sigaction \<Rightarrow> byte list" where
  "encode_sigaction a = le_bytes 8 (lsa_handler a) @ le_bytes 8 (lsa_flags a) @ le_bytes 8 (lsa_restorer a) @ le_bytes 8 (lsa_mask a)"

definition decode_sigaction :: "byte list \<Rightarrow> l_sigaction" where
  "decode_sigaction bs =
    \<lparr>lsa_handler = le_word (get_field 0 8 bs), lsa_flags = le_word (get_field 8 8 bs),
     lsa_restorer = le_word (get_field 16 8 bs), lsa_mask = le_word (get_field 24 8 bs)\<rparr>"

definition encode_stack :: "byte list \<Rightarrow> l_stack \<Rightarrow> byte list" where
  "encode_stack gap s = le_bytes 8 (ss_sp s) @ le_bytes 4 (ss_flags s) @ gap @ le_bytes 8 (ss_size s)"

definition decode_stack :: "byte list \<Rightarrow> l_stack" where
  "decode_stack bs =
    \<lparr>ss_sp = le_word (get_field 0 8 bs), ss_flags = le_word (get_field 8 4 bs), ss_size = le_word (get_field 16 8 bs)\<rparr>"

definition sys_alarm :: "sig_host \<Rightarrow> flags \<Rightarrow> int sg" where
  "sys_alarm h seconds st =
    Inr (syswrap (fst (sh_answer h (Alarm seconds))) (snd (sh_answer h (Alarm seconds))), sig_emit (Sig_call (Alarm seconds)) st)"

definition set_action :: "sig_host \<Rightarrow> int \<Rightarrow> l_sigaction \<Rightarrow> int sg" where
  "set_action h sig lact0 st =
    (let dfl = lsa_handler lact0 = LINUX_SIG_DFL; ign = lsa_handler lact0 = LINUX_SIG_IGN;
         lact = (if dfl \<or> ign then lact0 else lact0\<lparr>lsa_flags := lsa_flags lact0 OR LINUX_SA_SIGINFO\<rparr>);
         handler = (if dfl then SIG_DFL else if ign then SIG_IGN else sh_handler h);
         c = Sigaction (linux_to_darwin_signal sig) (linux_to_darwin_sigaction (sh_undef h) lact handler);
         st1 = sig_emit (Sig_call c) (sig_emit Sig_wrlock st);
         err = syswrap (fst (sh_answer h c)) (snd (sh_answer h c)) in
     Inr (err, sig_emit Sig_unlock (if err \<ge> 0 then st1\<lparr>sg_actions := (sg_actions st1)[nat (sig - 1) := lact]\<rparr> else st1)))"

definition sys_rt_sigaction :: "sig_host \<Rightarrow> int \<Rightarrow> gaddr \<Rightarrow> gaddr \<Rightarrow> 64 word \<Rightarrow> int sg" where
  "sys_rt_sigaction h sig act oact sigsetsize st =
    (if sig \<le> 0 \<or> sig > LINUX_NSIG \<or> sig = LINUX_SIGKILL \<or> sig = LINUX_SIGSTOP \<or> sigsetsize \<noteq> 8
     then Inr (- LINUX_EINVAL, st)
     else bind_run (sig_entry sig st) (\<lambda>old.
       case (if oact \<noteq> 0 then sg_store oact (encode_sigaction old) st else (True, st)) of (fine, st1) \<Rightarrow>
         if \<not> fine then Inr (- LINUX_EFAULT, st1)
         else if act = 0 then Inr (0, st1)
         else case sg_fetch act 32 st1 of
           None \<Rightarrow> Inr (- LINUX_EFAULT, st1)
         | Some bs \<Rightarrow> set_action h sig (decode_sigaction bs) st1))"

definition sigset_op :: "int \<Rightarrow> l_sigset \<Rightarrow> l_sigset \<Rightarrow> l_sigset option" where
  "sigset_op how m s =
    (if how = 0 then Some (m OR s) else if how = 1 then Some (m AND NOT s) else if how = 2 then Some s else None)"

definition drop_unblockable :: "l_sigset \<Rightarrow> l_sigset" where
  "drop_unblockable s = LINUX_SIGDELSET (LINUX_SIGDELSET s LINUX_SIGKILL) LINUX_SIGSTOP"

definition sys_rt_sigprocmask :: "sig_host \<Rightarrow> int \<Rightarrow> gaddr \<Rightarrow> gaddr \<Rightarrow> 64 word \<Rightarrow> int sg" where
  "sys_rt_sigprocmask h how nset oset sigsetsize st =
    (if sigsetsize \<noteq> 8 then Inr (- LINUX_EINVAL, st)
     else case (if oset \<noteq> 0 then sg_store oset (le_bytes 8 (sg_mask st)) st else (True, st)) of (fine, st1) \<Rightarrow>
       if \<not> fine then Inr (- LINUX_EFAULT, st1)
       else if nset = 0 then Inr (0, st1)
       else case sg_fetch nset 8 st1 of
         None \<Rightarrow> Inr (- LINUX_EFAULT, st1)
       | Some bs \<Rightarrow>
           (case sigset_op how (sg_mask st1) (drop_unblockable (le_word bs)) of
              None \<Rightarrow> Inr (- LINUX_EINVAL, st1)
            | Some m \<Rightarrow>
                let c = Pthread_sigmask (linux_to_darwin_sigset (sh_undef h) m);
                    err = syswrap (fst (sh_answer h c)) (snd (sh_answer h c)) in
                Inr (if err < 0 then err else 0, sig_emit (Sig_call c) (st1\<lparr>sg_mask := m\<rparr>))))"

text \<open>
  \<open>sigsuspend\<close> sleeps until a host signal has come that is not blocked; each element of the list is
  one that ended a \<open>sleep\<close>.  \<open>doset\<close> is the mask that \<open>pthread_sigmask\<close> reports.
\<close>

fun sleep_loop :: "int list \<Rightarrow> sig_state \<Rightarrow> sig_state run" where
  "sleep_loop [] st = Inl Out_of_fuel"
| "sleep_loop (s # ss) st =
    (let st' = host_signal_handler s st in if has_sigpending st' then Inr st' else sleep_loop ss st')"

definition sys_rt_sigsuspend ::
  "sig_host \<Rightarrow> (sig_state \<Rightarrow> sig_state run) \<Rightarrow> int list \<Rightarrow> sigset \<Rightarrow> gaddr \<Rightarrow> 64 word \<Rightarrow> int sg" where
  "sys_rt_sigsuspend h nested arrivals doset nset sigsetsize st =
    (if sigsetsize \<noteq> 8 then Inr (- LINUX_EINVAL, st)
     else case sg_fetch nset 8 st of
       None \<Rightarrow> Inr (- LINUX_EFAULT, st)
     | Some bs \<Rightarrow>
         let loset = sg_mask st; lnset = drop_unblockable (le_word bs);
             st1 = (sig_emit (Sig_call (Pthread_sigmask (linux_to_darwin_sigset (sh_undef h) lnset))) st)\<lparr>sg_mask := lnset\<rparr> in
         bind_run (sleep_loop arrivals st1) (\<lambda>st2.
         bind_run (handle_signal h nested st2) (\<lambda>st3.
           Inr (- LINUX_EINTR, (sig_emit (Sig_call (Pthread_sigmask doset)) st3)\<lparr>sg_mask := loset\<rparr>))))"

definition sys_rt_sigpending :: "gaddr \<Rightarrow> nat \<Rightarrow> int sg" where
  "sys_rt_sigpending uset sigsetsize st =
    (if sigsetsize > 8 then Inr (- LINUX_EINVAL, st)
     else case sg_store uset (take sigsetsize (le_bytes 8 (sg_pending st))) (sig_emit Sig_rdlock st) of (fine, st1) \<Rightarrow>
       Inr (if fine then 0 else - LINUX_EFAULT, sig_emit Sig_unlock st1))"

definition sys_rt_sigreturn :: "sig_host \<Rightarrow> (64 word) sg" where
  "sys_rt_sigreturn h st =
    (case sg_fetch (sg_regs st RSP - 8) sizeof_sigframe st of
       None \<Rightarrow> Inl Exited
     | Some frame \<Rightarrow>
         let m = le_word (get_field off_sc_mask 8 frame);
             st1 = sig_emit (Sig_call (Sigprocmask (linux_to_darwin_sigset (sh_undef h) m)))
               ((restore_sigcontext frame st)\<lparr>sg_mask := m\<rparr>);
             st2 = set_reg RIP (sg_regs st1 RIP - 2) st1 in
         Inr (sg_regs st2 RAX, st2))"

definition sys_sigaltstack :: "byte list \<Rightarrow> gaddr \<Rightarrow> gaddr \<Rightarrow> int sg" where
  "sys_sigaltstack gap uss uoss st =
    (let oss = (sg_sas st)\<lparr>ss_flags := sas_ss_flags (sg_sas st) (sg_regs st RSP)\<rparr> in
     case (if uoss \<noteq> 0 then sg_store uoss (encode_stack gap oss) st else (True, st)) of (fine, st1) \<Rightarrow>
       if \<not> fine then Inr (- LINUX_EFAULT, st1)
       else if uss = 0 then Inr (0, st1)
       else if ss_flags oss AND LINUX_SS_ONSTACK \<noteq> 0 then Inr (- LINUX_EPERM, st1)
       else case sg_fetch uss 24 st1 of
         None \<Rightarrow> Inr (- LINUX_EFAULT, st1)
       | Some bs \<Rightarrow>
           let ss = decode_stack bs; mode = ss_flags ss AND NOT LINUX_SS_AUTODISARM in
           if ss_size ss < LINUX_MINSIGSTKSZ then Inr (- LINUX_ENOMEM, st1)
           else if mode \<noteq> SS_DISABLE \<and> mode \<noteq> SS_ONSTACK \<and> mode \<noteq> 0 then Inr (- LINUX_EINVAL, st1)
           else Inr (0, st1\<lparr>sg_sas := ss\<rparr>))"

definition sys_kill :: "sig_host \<Rightarrow> int \<Rightarrow> int \<Rightarrow> int sg" where
  "sys_kill h pid sig = send_signal h pid sig"

end
