(* ===== verification/Dispatch.thy ===== *)
theory Dispatch
  imports Signal
begin

text \<open>
  The table of system calls, \<open>include/syscall.h\<close> and \<open>src/base.c\<close>, and the loop that runs the guest,
  \<open>src/main.c\<close>.  What the processor reports of an exit of the guest is an argument.  The handlers of
  signals are those of \<open>Signal\<close>; \<open>others\<close> stands for the remaining ones, which act on state that the
  loop does not see.
\<close>

section \<open>The table\<close>

text \<open>The lines of the table: the numbers 0 to 109, 110 to 219 and 220 to 328.\<close>

definition syscalls_0 :: "(nat \<times> string) list" where
  "syscalls_0 =
  [(0, ''read''), (1, ''write''), (2, ''open''), (3, ''close''), (4, ''stat''), (5, ''fstat''),
   (6, ''lstat''), (7, ''poll''), (8, ''lseek''), (9, ''mmap''), (10, ''mprotect''),
   (11, ''munmap''), (12, ''brk''), (13, ''rt_sigaction''), (14, ''rt_sigprocmask''),
   (15, ''rt_sigreturn''), (16, ''ioctl''), (17, ''pread64''), (18, ''pwrite64''), (19, ''readv''),
   (20, ''writev''), (21, ''access''), (22, ''pipe''), (23, ''select''), (24, ''sched_yield''),
   (25, ''mremap''), (26, ''msync''), (27, ''unimplemented''), (28, ''madvise''), (29, ''shmget''),
   (30, ''shmat''), (31, ''shmctl''), (32, ''dup''), (33, ''dup2''), (34, ''unimplemented''),
   (35, ''nanosleep''), (36, ''getitimer''), (37, ''alarm''), (38, ''setitimer''),
   (39, ''getpid''), (40, ''unimplemented''), (41, ''socket''), (42, ''connect''),
   (43, ''accept''), (44, ''sendto''), (45, ''recvfrom''), (46, ''sendmsg''), (47, ''recvmsg''),
   (48, ''shutdown''), (49, ''bind''), (50, ''listen''), (51, ''getsockname''),
   (52, ''getpeername''), (53, ''socketpair''), (54, ''setsockopt''), (55, ''getsockopt''),
   (56, ''clone''), (57, ''fork''), (58, ''vfork''), (59, ''execve''), (60, ''exit''),
   (61, ''wait4''), (62, ''kill''), (63, ''uname''), (64, ''semget''), (65, ''semop''),
   (66, ''semctl''), (67, ''unimplemented''), (68, ''unimplemented''), (69, ''unimplemented''),
   (70, ''unimplemented''), (71, ''unimplemented''), (72, ''fcntl''), (73, ''flock''),
   (74, ''fsync''), (75, ''fdatasync''), (76, ''unimplemented''), (77, ''ftruncate''),
   (78, ''getdents''), (79, ''getcwd''), (80, ''chdir''), (81, ''fchdir''), (82, ''rename''),
   (83, ''mkdir''), (84, ''rmdir''), (85, ''creat''), (86, ''link''), (87, ''unlink''),
   (88, ''symlink''), (89, ''readlink''), (90, ''chmod''), (91, ''fchmod''), (92, ''chown''),
   (93, ''fchown''), (94, ''lchown''), (95, ''umask''), (96, ''gettimeofday''),
   (97, ''getrlimit''), (98, ''getrusage''), (99, ''sysinfo''), (100, ''unimplemented''),
   (101, ''ptrace''), (102, ''getuid''), (103, ''unimplemented''), (104, ''getgid''),
   (105, ''setuid''), (106, ''setgid''), (107, ''geteuid''), (108, ''getegid''),
   (109, ''setpgid'')]"

definition syscalls_110 :: "(nat \<times> string) list" where
  "syscalls_110 =
  [(110, ''getppid''), (111, ''getpgrp''), (112, ''setsid''), (113, ''unimplemented''),
   (114, ''unimplemented''), (115, ''getgroups''), (116, ''setgroups''), (117, ''setresuid''),
   (118, ''getresuid''), (119, ''setresgid''), (120, ''getresgid''), (121, ''getpgid''),
   (122, ''unimplemented''), (123, ''unimplemented''), (124, ''getsid''), (125, ''capget''),
   (126, ''unimplemented''), (127, ''rt_sigpending''), (128, ''unimplemented''),
   (129, ''unimplemented''), (130, ''rt_sigsuspend''), (131, ''sigaltstack''), (132, ''utime''),
   (133, ''mknod''), (134, ''uselib''), (135, ''unimplemented''), (136, ''unimplemented''),
   (137, ''statfs''), (138, ''fstatfs''), (139, ''unimplemented''), (140, ''getpriority''),
   (141, ''setpriority''), (142, ''unimplemented''), (143, ''unimplemented''),
   (144, ''unimplemented''), (145, ''unimplemented''), (146, ''unimplemented''),
   (147, ''unimplemented''), (148, ''unimplemented''), (149, ''mlock''), (150, ''munlock''),
   (151, ''unimplemented''), (152, ''unimplemented''), (153, ''unimplemented''),
   (154, ''unimplemented''), (155, ''unimplemented''), (156, ''unimplemented''), (157, ''prctl''),
   (158, ''arch_prctl''), (159, ''unimplemented''), (160, ''setrlimit''), (161, ''chroot''),
   (162, ''sync''), (163, ''unimplemented''), (164, ''unimplemented''), (165, ''unimplemented''),
   (166, ''unimplemented''), (167, ''unimplemented''), (168, ''unimplemented''),
   (169, ''unimplemented''), (170, ''unimplemented''), (171, ''unimplemented''),
   (172, ''unimplemented''), (173, ''unimplemented''), (174, ''unimplemented''),
   (175, ''unimplemented''), (176, ''unimplemented''), (177, ''unimplemented''),
   (178, ''unimplemented''), (179, ''unimplemented''), (180, ''nfsservctl''), (181, ''getpmsg''),
   (182, ''putpmsg''), (183, ''afs_syscall''), (184, ''tuxcall''), (185, ''security''),
   (186, ''gettid''), (187, ''unimplemented''), (188, ''setxattr''), (189, ''unimplemented''),
   (190, ''fsetxattr''), (191, ''getxattr''), (192, ''unimplemented''), (193, ''fgetxattr''),
   (194, ''unimplemented''), (195, ''unimplemented''), (196, ''flistxattr''),
   (197, ''unimplemented''), (198, ''unimplemented''), (199, ''unimplemented''),
   (200, ''unimplemented''), (201, ''time''), (202, ''futex''), (203, ''unimplemented''),
   (204, ''sched_getaffinity''), (205, ''set_thread_area''), (206, ''unimplemented''),
   (207, ''unimplemented''), (208, ''unimplemented''), (209, ''unimplemented''),
   (210, ''unimplemented''), (211, ''get_thread_area''), (212, ''unimplemented''),
   (213, ''unimplemented''), (214, ''epoll_ctl_old''), (215, ''epoll_wait_old''),
   (216, ''unimplemented''), (217, ''getdents64''), (218, ''set_tid_address''),
   (219, ''unimplemented'')]"

definition syscalls_220 :: "(nat \<times> string) list" where
  "syscalls_220 =
  [(220, ''unimplemented''), (221, ''fadvise64''), (222, ''unimplemented''),
   (223, ''unimplemented''), (224, ''unimplemented''), (225, ''unimplemented''),
   (226, ''unimplemented''), (227, ''unimplemented''), (228, ''clock_gettime''),
   (229, ''clock_getres''), (230, ''unimplemented''), (231, ''exit_group''),
   (232, ''unimplemented''), (233, ''unimplemented''), (234, ''tgkill''), (235, ''utimes''),
   (236, ''vserver''), (237, ''unimplemented''), (238, ''unimplemented''),
   (239, ''get_mempolicy''), (240, ''unimplemented''), (241, ''unimplemented''),
   (242, ''unimplemented''), (243, ''unimplemented''), (244, ''unimplemented''),
   (245, ''unimplemented''), (246, ''unimplemented''), (247, ''unimplemented''),
   (248, ''unimplemented''), (249, ''unimplemented''), (250, ''unimplemented''),
   (251, ''unimplemented''), (252, ''unimplemented''), (253, ''unimplemented''),
   (254, ''unimplemented''), (255, ''unimplemented''), (256, ''unimplemented''), (257, ''openat''),
   (258, ''mkdirat''), (259, ''mknodat''), (260, ''fchownat''), (261, ''unimplemented''),
   (262, ''newfstatat''), (263, ''unlinkat''), (264, ''renameat''), (265, ''linkat''),
   (266, ''symlinkat''), (267, ''readlinkat''), (268, ''fchmodat''), (269, ''faccessat''),
   (270, ''pselect6''), (271, ''unimplemented''), (272, ''unimplemented''),
   (273, ''set_robust_list''), (274, ''unimplemented''), (275, ''unimplemented''),
   (276, ''unimplemented''), (277, ''unimplemented''), (278, ''unimplemented''),
   (279, ''unimplemented''), (280, ''utimensat''), (281, ''unimplemented''),
   (282, ''unimplemented''), (283, ''unimplemented''), (284, ''unimplemented''),
   (285, ''fallocate''), (286, ''unimplemented''), (287, ''unimplemented''),
   (288, ''unimplemented''), (289, ''unimplemented''), (290, ''unimplemented''),
   (291, ''unimplemented''), (292, ''dup3''), (293, ''pipe2''), (294, ''unimplemented''),
   (295, ''unimplemented''), (296, ''unimplemented''), (297, ''unimplemented''),
   (298, ''unimplemented''), (299, ''unimplemented''), (300, ''unimplemented''),
   (301, ''unimplemented''), (302, ''unimplemented''), (303, ''unimplemented''),
   (304, ''unimplemented''), (305, ''unimplemented''), (306, ''unimplemented''),
   (307, ''sendmmsg''), (308, ''unimplemented''), (309, ''unimplemented''),
   (310, ''unimplemented''), (311, ''unimplemented''), (312, ''unimplemented''),
   (313, ''unimplemented''), (314, ''unimplemented''), (315, ''unimplemented''),
   (316, ''unimplemented''), (317, ''unimplemented''), (318, ''getrandom''),
   (319, ''unimplemented''), (320, ''unimplemented''), (321, ''unimplemented''),
   (322, ''unimplemented''), (323, ''unimplemented''), (324, ''unimplemented''),
   (325, ''unimplemented''), (326, ''unimplemented''), (327, ''unimplemented''),
   (328, ''unimplemented'')]"

definition SYSCALLS :: "(nat \<times> string) list" where
  "SYSCALLS = syscalls_0 @ syscalls_110 @ syscalls_220"

abbreviation (input) NR_SYSCALLS :: nat where "NR_SYSCALLS \<equiv> 329"

text \<open>
  A designated initialiser for each line: the last one of a number counts, and a number without a
  line holds the null pointer.
\<close>

definition sc_handler_table :: "nat \<Rightarrow> string option" where
  "sc_handler_table n = map_of (rev SYSCALLS) n"

text \<open>Arguments arrive as words and are cast to the types of the handler; results are widened.\<close>

definition as_int :: "64 word \<Rightarrow> int" where
  "as_int w = sint (ucast w :: 32 word)"

definition int_result :: "(int \<times> sig_state) run \<Rightarrow> (64 word \<times> sig_state) run" where
  "int_result m = bind_run m (\<lambda>(r, st). Inr (word_of_int r, st))"

type_synonym handlers = "string \<Rightarrow> 64 word list \<Rightarrow> (64 word) sg"

definition call_handler :: "sig_host \<Rightarrow> handlers \<Rightarrow> string \<Rightarrow> 64 word list \<Rightarrow> (64 word) sg" where
  "call_handler h others name args st =
    (if name = ''unimplemented'' then Inr (word_of_int (- LINUX_ENOSYS), st)
     else if name = ''rt_sigreturn'' then sys_rt_sigreturn h st
     else if name = ''rt_sigaction'' then
       int_result (sys_rt_sigaction h (as_int (args ! 0)) (args ! 1) (args ! 2) (args ! 3) st)
     else if name = ''rt_sigprocmask'' then
       int_result (sys_rt_sigprocmask h (as_int (args ! 0)) (args ! 1) (args ! 2) (args ! 3) st)
     else if name = ''rt_sigpending'' then int_result (sys_rt_sigpending (args ! 0) (unat (args ! 1)) st)
     else if name = ''sigaltstack'' then int_result (sys_sigaltstack (take 4 (sh_frame h)) (args ! 0) (args ! 1) st)
     else if name = ''kill'' then int_result (sys_kill h (as_int (args ! 0)) (as_int (args ! 1)) st)
     else if name = ''alarm'' then int_result (sys_alarm h (ucast (args ! 0)) st)
     else others name args st)"

section \<open>System calls of the guest\<close>

definition LSYS_rt_sigreturn :: nat where
  "LSYS_rt_sigreturn = 15"

text \<open>The result says whether the call was \<open>rt_sigreturn\<close>.\<close>

definition handle_syscall :: "sig_host \<Rightarrow> handlers \<Rightarrow> int \<Rightarrow> bool sg" where
  "handle_syscall h others pid st =
    (let rax = unat (sg_regs st RAX) in
     bind_run (if rax \<ge> NR_SYSCALLS then send_signal h pid 31 st else Inr (0, st)) (\<lambda>(_, st1).
       if rax \<ge> NR_SYSCALLS then Inl Out_of_bounds
       else case sc_handler_table rax of
         None \<Rightarrow> Inl Null_deref
       | Some name \<Rightarrow>
           bind_run (call_handler h others name (map (sg_regs st1) [RDI, RSI, RDX, R10, R8, R9]) st1) (\<lambda>(retval, st2).
             Inr (rax = LSYS_rt_sigreturn, set_reg RAX retval st2))))"

section \<open>Exits of the guest\<close>

record vm_exit =
  ve_reason :: "64 word"
  ve_irq_info :: "64 word"
  ve_instlen :: "64 word"
  ve_qualific :: "64 word"
  ve_lin_addr :: gaddr
  ve_cpuid :: "64 word \<Rightarrow> flags \<times> flags \<times> flags \<times> flags"
  ve_xstate :: flags
  ve_vmcs :: "string \<Rightarrow> 64 word"

datatype next_step = Run_guest | Return_on_sigret

abbreviation (input) VMX_REASON_EXC_NMI :: "64 word" where "VMX_REASON_EXC_NMI \<equiv> 0"
abbreviation (input) VMX_REASON_IRQ :: "64 word" where "VMX_REASON_IRQ \<equiv> 1"
abbreviation (input) VMX_REASON_HLT :: "64 word" where "VMX_REASON_HLT \<equiv> 12"
abbreviation (input) VMX_REASON_VMENTRY_GUEST :: "64 word" where "VMX_REASON_VMENTRY_GUEST \<equiv> 33"
abbreviation (input) VMX_REASON_CPUID :: "64 word" where "VMX_REASON_CPUID \<equiv> 10"
abbreviation (input) VMX_REASON_VMCALL :: "64 word" where "VMX_REASON_VMCALL \<equiv> 18"
abbreviation (input) VMX_REASON_EPT_VIOLATION :: "64 word" where "VMX_REASON_EPT_VIOLATION \<equiv> 48"
abbreviation (input) X86_VEC_UD :: "64 word" where "X86_VEC_UD \<equiv> 6"
abbreviation (input) X86_VEC_PF :: "64 word" where "X86_VEC_PF \<equiv> 14"
abbreviation (input) XCR0_AVX_STATE :: "64 word" where "XCR0_AVX_STATE \<equiv> 4"

definition is_syscall :: "64 word \<Rightarrow> 64 word \<Rightarrow> sig_state \<Rightarrow> bool" where
  "is_syscall instlen rip st \<longleftrightarrow>
    as_int instlen = 2 \<and> (case sg_fetch rip 2 st of None \<Rightarrow> False | Some bs \<Rightarrow> (le_word bs :: 16 word) = 0x050F)"

definition is_avx :: "64 word \<Rightarrow> sig_state \<Rightarrow> bool" where
  "is_avx rip st \<longleftrightarrow> (case sg_fetch rip 1 st of None \<Rightarrow> False | Some bs \<Rightarrow> (le_word bs :: byte) = 0xC4 \<or> (le_word bs :: byte) = 0xC5)"

text \<open>The end of the cases of an exception: the instruction is printed and the process exits.\<close>

definition print_and_exit :: "vm_exit \<Rightarrow> sig_state \<Rightarrow> (next_step \<times> sig_state) run" where
  "print_and_exit ex st =
    (case sg_fetch (sg_regs st RIP) (unat (ve_instlen ex)) st of None \<Rightarrow> Inl Assert_failed | Some _ \<Rightarrow> Inl Exited)"

definition handle_ud :: "sig_host \<Rightarrow> handlers \<Rightarrow> int \<Rightarrow> bool \<Rightarrow> vm_exit \<Rightarrow> next_step sg" where
  "handle_ud h others pid return_on_sigret ex st =
    (let rip = sg_regs st RIP; xcr0 = sg_regs st XCR0 in
     if is_syscall (ve_instlen ex) rip st then
       bind_run (handle_syscall h others pid st) (\<lambda>(sigret, st1).
         Inr (if return_on_sigret \<and> sigret then Return_on_sigret else Run_guest, set_reg RIP (sg_regs st1 RIP + 2) st1))
     else if is_avx rip st \<and> xcr0 AND XCR0_AVX_STATE = 0 \<and> ucast (ve_xstate ex) AND XCR0_AVX_STATE \<noteq> 0 then
       Inr (Run_guest, set_reg XCR0 (xcr0 OR XCR0_AVX_STATE) st)
     else
       case sg_fetch rip (unat (ve_instlen ex)) st of
         None \<Rightarrow> Inl Assert_failed
       | Some _ \<Rightarrow> bind_run (send_signal h pid 4 st) (\<lambda>(_, st1). print_and_exit ex st1))"

definition handle_exception :: "sig_host \<Rightarrow> handlers \<Rightarrow> int \<Rightarrow> bool \<Rightarrow> vm_exit \<Rightarrow> next_step sg" where
  "handle_exception h others pid return_on_sigret ex st =
    (let int_type = drop_bit 8 (ve_irq_info ex AND 0x700); exc_vec = ve_irq_info ex AND 0xFF in
     if int_type = 0 \<or> int_type = 2 then Inr (Run_guest, st)
     else if int_type \<noteq> 3 \<and> int_type \<noteq> 6 then Inl Assert_failed
     else if exc_vec = X86_VEC_PF then
       bind_run (send_signal h pid 11 st) (\<lambda>(_, st1). handle_ud h others pid return_on_sigret ex st1)
     else if exc_vec = X86_VEC_UD then handle_ud h others pid return_on_sigret ex st
     else print_and_exit ex st)"

definition handle_ept_violation :: "sig_host \<Rightarrow> int \<Rightarrow> vm_exit \<Rightarrow> next_step sg" where
  "handle_ept_violation h pid ex st =
    (let qual = ve_qualific ex;
         verify = (if bit qual 0 then 1 else if bit qual 1 then 2 else if bit qual 2 then 4 else 0) in
     if bit qual 7 \<and> \<not> addr_ok (sg_user st) (ve_lin_addr ex) verify then
       bind_run (send_signal h pid 11 st) (\<lambda>(_, st1). Inr (Run_guest, st1))
     else Inr (Run_guest, st))"

definition handle_cpuid :: "vm_exit \<Rightarrow> next_step sg" where
  "handle_cpuid ex st =
    (case ve_cpuid ex (sg_regs st RAX) of (eax, ebx, ecx, edx) \<Rightarrow>
       Inr (Run_guest, set_reg RIP (sg_regs st RIP + 2) (set_reg RDX (ucast edx) (set_reg RCX (ucast ecx)
         (set_reg RBX (ucast ebx) (set_reg RAX (ucast eax) st))))))"

text \<open>
  The check of the guest's fields after an entry that failed.  \<open>get_bit\<close> shifts the \<open>int\<close> 1, whose bit 31
  is its sign, so \<open>get_bit x 31\<close> holds all bits of \<open>x\<close> from 31 on.  The fields are those of the exit; the
  only one that is written is that of the debug controls, and it is read back.
\<close>

definition get_bit :: "64 word \<Rightarrow> nat \<Rightarrow> flags" where
  "get_bit x n = ucast (drop_bit n (x AND scast (push_bit n 1 :: flags)))"

definition check_vm_entry :: "(string \<Rightarrow> 64 word) \<Rightarrow> (string \<Rightarrow> 64 word) run" where
  "check_vm_entry vmcs0 =
    (let controls = vmcs0 ''VMCS_CTRL_VMENTRY_CONTROLS''; cpu_based2 = vmcs0 ''VMCS_CTRL_CPU_BASED2'';
         unrestricted_guest = get_bit cpu_based2 7; load_debug_controls = get_bit controls 2; ia_32e_mode_guest = get_bit controls 9;
         ia_32_perf_global_ctrl = get_bit controls 13; ia_32_pat = get_bit controls 14; ia_32_efer = get_bit controls 15;
         cr0 = vmcs0 ''VMCS_GUEST_CR0''; cr4 = vmcs0 ''VMCS_GUEST_CR4'';
         vmcs = (if load_debug_controls \<noteq> 0
                 then vmcs0(''VMCS_GUEST_IA32_DEBUGCTL'' := vmcs0 ''VMCS_GUEST_IA32_DEBUGCTL'' AND 0xDFC3) else vmcs0);
         debugctl = vmcs ''VMCS_GUEST_IA32_DEBUGCTL''; efer = vmcs ''VMCS_GUEST_IA32_EFER''
     in if (unrestricted_guest = 0 \<longrightarrow> get_bit cr0 31 = 0 \<or> get_bit cr0 0 \<noteq> 0) \<and>
           (load_debug_controls \<noteq> 0 \<longrightarrow> list_all (\<lambda>n. get_bit debugctl n = 0) [2, 3, 4, 5, 13] \<and> debugctl < 65535) \<and>
           (if ia_32e_mode_guest \<noteq> 0 then get_bit cr0 31 \<noteq> 0 \<and> get_bit cr4 5 \<noteq> 0 else get_bit cr4 17 = 0) \<and>
           vmcs ''VMCS_GUEST_CR3'' = 0 \<and>
           (load_debug_controls \<noteq> 0 \<longrightarrow> vmcs ''VMCS_GUEST_DR7'' < 0x100000000) \<and>
           (ia_32_perf_global_ctrl \<noteq> 0 \<longrightarrow> vmcs ''VMCS_GUEST_IA32_PERF_GLOBAL_CTRL'' = 0) \<and>
           (ia_32_pat \<noteq> 0 \<longrightarrow> list_all (\<lambda>i. drop_bit (8 * i) (vmcs ''VMCS_GUEST_IA32_PAT'') AND 0xFF \<in> {0, 1, 4, 5, 6, 7}) [0..<8]) \<and>
           (ia_32_efer \<noteq> 0 \<longrightarrow> efer = 0 \<and> get_bit efer 10 = ia_32e_mode_guest \<and>
              (get_bit cr0 31 = 0 \<or> get_bit efer 10 = get_bit efer 8))
        then Inr vmcs else Inl Assert_failed)"

text \<open>
  Any other exit: \<open>1 << 31\<close> is negative, so the upper half of the reason is flipped with the bit.  The test
  for the failed entry is that of a common bit, which other reasons have too.
\<close>

definition handle_other :: "vm_exit \<Rightarrow> next_step sg" where
  "handle_other ex st =
    (let reason = (if ve_reason ex AND 0xFFFFFFFF80000000 \<noteq> 0 then ve_reason ex XOR 0xFFFFFFFF80000000 else ve_reason ex) in
     if reason AND VMX_REASON_VMENTRY_GUEST \<noteq> 0
     then bind_run (check_vm_entry (ve_vmcs ex)) (\<lambda>_. Inr (Run_guest, st))
     else Inr (Run_guest, st))"

definition handle_exit :: "sig_host \<Rightarrow> handlers \<Rightarrow> int \<Rightarrow> bool \<Rightarrow> vm_exit \<Rightarrow> next_step sg" where
  "handle_exit h others pid return_on_sigret ex st =
    (if ve_reason ex = VMX_REASON_VMCALL then Inl Assert_failed
     else if ve_reason ex = VMX_REASON_EXC_NMI then handle_exception h others pid return_on_sigret ex st
     else if ve_reason ex = VMX_REASON_EPT_VIOLATION then handle_ept_violation h pid ex st
     else if ve_reason ex = VMX_REASON_CPUID then handle_cpuid ex st
     else if ve_reason ex = VMX_REASON_IRQ \<or> ve_reason ex = VMX_REASON_HLT then Inr (Run_guest, st)
     else handle_other ex st)"

text \<open>
  One pass of the loop: pending signals, the guest until its next exit, and the exit.  \<open>guest\<close> is the
  virtual processor; \<open>None\<close> is a run that fails, which the code takes to be impossible.
\<close>

definition task_run :: "sig_host \<Rightarrow> (sig_state \<Rightarrow> sig_state run) \<Rightarrow> (sig_state \<Rightarrow> (sig_state \<times> vm_exit) option) \<Rightarrow>
    sig_state \<Rightarrow> (sig_state \<times> vm_exit) option run" where
  "task_run h nested guest st =
    bind_run (if has_sigpending st then handle_signal h nested st else Inr st) (\<lambda>st1. Inr (guest st1))"

definition main_pass :: "sig_host \<Rightarrow> handlers \<Rightarrow> (sig_state \<Rightarrow> sig_state run) \<Rightarrow>
    (sig_state \<Rightarrow> (sig_state \<times> vm_exit) option) \<Rightarrow> int \<Rightarrow> bool \<Rightarrow> next_step sg" where
  "main_pass h others nested guest pid return_on_sigret st =
    bind_run (task_run h nested guest st) (\<lambda>r. case r of
      None \<Rightarrow> Inl Assert_failed
    | Some (st1, ex) \<Rightarrow> handle_exit h others pid return_on_sigret ex st1)"

text \<open>
  The loop, at most \<open>n\<close> passes of it, with the nested loops that \<open>handle_signal\<close> starts; they return
  after \<open>rt_sigreturn\<close>.
\<close>

fun main_loop :: "nat \<Rightarrow> sig_host \<Rightarrow> handlers \<Rightarrow> (sig_state \<Rightarrow> (sig_state \<times> vm_exit) option) \<Rightarrow> int \<Rightarrow> bool \<Rightarrow>
    sig_state \<Rightarrow> sig_state run" where
  "main_loop 0 h others guest pid return_on_sigret st = Inl Out_of_fuel"
| "main_loop (Suc n) h others guest pid return_on_sigret st =
    bind_run (main_pass h others (main_loop n h others guest pid True) guest pid return_on_sigret st) (\<lambda>(next, st1).
      case next of
        Return_on_sigret \<Rightarrow> Inr st1
      | Run_guest \<Rightarrow> main_loop n h others guest pid return_on_sigret st1)"

end
