(* ===== verification/SignalProps.thy ===== *)
theory SignalProps
  imports Dispatch
begin

text \<open>
  Properties of signals: a handler that returns gives the interrupted program its registers and its
  mask back; the signal that is delivered; the mask as a set; which signals the host hears of.
\<close>

section \<open>The frame\<close>

lemma set_reg_simps [simp]:
  "sg_regs (set_reg r v st) = (sg_regs st)(r := v)" "sg_user (set_reg r v st) = sg_user st"
  "sg_mask (set_reg r v st) = sg_mask st" "sg_actions (set_reg r v st) = sg_actions st"
  "sg_pending (set_reg r v st) = sg_pending st" "sg_sas (set_reg r v st) = sg_sas st" "sg_trace (set_reg r v st) = sg_trace st"
  by (simp_all add: set_reg_def)

lemma sig_emit_simps [simp]:
  "sg_regs (sig_emit e st) = sg_regs st" "sg_user (sig_emit e st) = sg_user st" "sg_mask (sig_emit e st) = sg_mask st"
  "sg_actions (sig_emit e st) = sg_actions st" "sg_pending (sig_emit e st) = sg_pending st" "sg_sas (sig_emit e st) = sg_sas st"
  "sg_trace (sig_emit e st) = sg_trace st @ [e]"
  by (simp_all add: sig_emit_def)

lemma reset_sas_simps [simp]:
  "sg_regs (reset_sas st) = sg_regs st" "sg_user (reset_sas st) = sg_user st" "sg_mask (reset_sas st) = sg_mask st"
  "sg_actions (reset_sas st) = sg_actions st" "sg_pending (reset_sas st) = sg_pending st" "sg_sas (reset_sas st) = no_sas"
  "sg_trace (reset_sas st) = sg_trace st"
  by (simp_all add: reset_sas_def)

text \<open>Writing a list of registers: one that occurs once has its value.\<close>

lemma fold_set_reg:
  "distinct (map fst rs) \<Longrightarrow>
    sg_regs (fold (\<lambda>(r, off). set_reg r (f off)) rs st) q = (case map_of rs q of None \<Rightarrow> sg_regs st q | Some off \<Rightarrow> f off)"
proof (induction rs arbitrary: st)
  case (Cons x rs)
  obtain r off where x: "x = (r, off)" by fastforce
  have "map_of rs r = None" using Cons.prems x by (simp add: map_of_eq_None_iff)
  then show ?case using Cons x by (auto split: option.split)
qed simp

lemma fold_set_reg_other [simp]:
  "sg_user (fold (\<lambda>(r, off). set_reg r (f off)) rs st) = sg_user st"
  "sg_mask (fold (\<lambda>(r, off). set_reg r (f off)) rs st) = sg_mask st"
  "sg_actions (fold (\<lambda>(r, off). set_reg r (f off)) rs st) = sg_actions st"
  "sg_pending (fold (\<lambda>(r, off). set_reg r (f off)) rs st) = sg_pending st"
  "sg_trace (fold (\<lambda>(r, off). set_reg r (f off)) rs st) = sg_trace st"
  by (induction rs arbitrary: st) (auto simp: split_beta)

lemma sc_distinct: "distinct (map fst sc_regs)" "distinct (map fst sc_segs)"
  by (simp_all add: sc_regs_def sc_segs_def)

lemma fields_ok_frame: "fields_ok 0 440 (sigframe_fields signum act st)"
  by (simp add: sigframe_fields_def setup_sigcontext_def sc_regs_def sc_segs_def)

lemma frame_fields:
  "(r, off) \<in> set sc_regs \<Longrightarrow> (off, le_bytes 8 (sg_regs st r)) \<in> set (sigframe_fields signum act st)"
  "(r, off) \<in> set sc_segs \<Longrightarrow> (off, le_bytes 2 (ucast (sg_regs st r) :: 16 word)) \<in> set (sigframe_fields signum act st)"
  "(off_sc_mask, le_bytes 8 (sg_mask st)) \<in> set (sigframe_fields signum act st)"
proof -
  have "set (setup_sigcontext (sg_regs st) (sg_mask st)) \<subseteq> set (sigframe_fields signum act st)"
    by (auto simp: sigframe_fields_def)
  moreover have "(r, off) \<in> set sc_regs \<Longrightarrow> (off, le_bytes 8 (sg_regs st r)) \<in> set (setup_sigcontext (sg_regs st) (sg_mask st))"
    "(r, off) \<in> set sc_segs \<Longrightarrow> (off, le_bytes 2 (ucast (sg_regs st r) :: 16 word)) \<in> set (setup_sigcontext (sg_regs st) (sg_mask st))"
    "(off_sc_mask, le_bytes 8 (sg_mask st)) \<in> set (setup_sigcontext (sg_regs st) (sg_mask st))"
    by (auto simp: setup_sigcontext_def intro: rev_image_eqI)
  ultimately show "(r, off) \<in> set sc_regs \<Longrightarrow> (off, le_bytes 8 (sg_regs st r)) \<in> set (sigframe_fields signum act st)"
    "(r, off) \<in> set sc_segs \<Longrightarrow> (off, le_bytes 2 (ucast (sg_regs st r) :: 16 word)) \<in> set (sigframe_fields signum act st)"
    "(off_sc_mask, le_bytes 8 (sg_mask st)) \<in> set (sigframe_fields signum act st)"
    by blast+
qed

text \<open>The registers that the frame holds come back.\<close>

lemma restore_frame:
  assumes "length buf = 440" "frame = put_fields (sigframe_fields signum act st) buf"
  shows "(r, off) \<in> set sc_regs \<Longrightarrow> sg_regs (restore_sigcontext frame st2) r = sg_regs st r"
    "(r, off) \<in> set sc_segs \<Longrightarrow> sg_regs (restore_sigcontext frame st2) r = ucast (ucast (sg_regs st r) :: 16 word)"
    "le_word (get_field off_sc_mask 8 frame) = sg_mask st"
proof -
  have fields: "(off, bs) \<in> set (sigframe_fields signum act st) \<Longrightarrow> get_field off (length bs) frame = bs" for off bs
    using get_put_fields [of 0 buf] fields_ok_frame assms by simp
  have reg: "(r, off) \<in> set sc_regs \<Longrightarrow> get_field off 8 frame = le_bytes 8 (sg_regs st r)" for r off
    using fields [OF frame_fields(1)] by simp
  have seg: "(r, off) \<in> set sc_segs \<Longrightarrow> get_field off 2 frame = le_bytes 2 (ucast (sg_regs st r) :: 16 word)" for r off
    using fields [OF frame_fields(2)] by simp
  have disj: "(r, off) \<in> set sc_regs \<Longrightarrow> map_of sc_segs r = None" for r off
    by (auto simp: sc_regs_def sc_segs_def)
  show "(r, off) \<in> set sc_regs \<Longrightarrow> sg_regs (restore_sigcontext frame st2) r = sg_regs st r"
    using disj reg sc_distinct(1) by (simp add: restore_sigcontext_def fold_set_reg sc_distinct le_word_bytes)
  show "(r, off) \<in> set sc_segs \<Longrightarrow> sg_regs (restore_sigcontext frame st2) r = ucast (ucast (sg_regs st r) :: 16 word)"
    using seg sc_distinct(2) by (simp add: restore_sigcontext_def fold_set_reg sc_distinct le_word_bytes)
  show "le_word (get_field off_sc_mask 8 frame) = sg_mask st"
    using fields [OF frame_fields(3)] by (simp add: le_word_bytes)
qed

lemma selector_id: "w < 0x10000 \<Longrightarrow> ucast (ucast w :: 16 word) = (w :: 64 word)"
  by transfer (simp add: take_bit_eq_mod)

lemma setup_sigframe_ok:
  assumes "setup_sigframe h signum st = Inr (0, st1)"
  obtains act u where "sig_entry signum st = Inr act" "lsa_flags act AND LINUX_SA_RESTORER \<noteq> 0"
    "copy_to_user (sg_user st) (sg_regs st1 RSP) (put_fields (sigframe_fields signum act st) (sh_frame h)) = (0, u)"
    "sg_user st1 = u" "sg_mask st1 = handler_mask signum act" "sg_regs st1 RIP = lsa_handler act"
    "sg_regs st1 RDI = word_of_int signum" "sg_actions st1 = sg_actions st" "sg_pending st1 = sg_pending st"
    "sg_trace st1 = sg_trace st @ [Sig_call (Sigprocmask (linux_to_darwin_sigset (sh_undef h) (handler_mask signum act)))]"
  using assms
  by (cases "sig_entry signum st")
     (auto simp: setup_sigframe_def Let_def split: if_splits prod.splits)

text \<open>The exit of a guest that executes the instruction for a system call.\<close>

definition syscall_exit :: "vm_exit \<Rightarrow> sig_state \<Rightarrow> bool" where
  "syscall_exit ex st \<longleftrightarrow> ve_reason ex = VMX_REASON_EXC_NMI \<and> ve_irq_info ex AND 0x7FF = 0x306 \<and>
     is_syscall (ve_instlen ex) (sg_regs st RIP) st"

lemma handle_exit_syscall:
  assumes "syscall_exit ex st"
  shows "handle_exit h others pid ret ex st = bind_run (handle_syscall h others pid st) (\<lambda>(sigret, st1).
    Inr (if ret \<and> sigret then Return_on_sigret else Run_guest, set_reg RIP (sg_regs st1 RIP + 2) st1))"
proof -
  have i: "ve_irq_info ex AND 0x7FF = 0x306" using assms by (simp add: syscall_exit_def)
  have "ve_irq_info ex AND 0x700 = (ve_irq_info ex AND 0x7FF) AND 0x700"
    "ve_irq_info ex AND 0xFF = (ve_irq_info ex AND 0x7FF) AND 0xFF" by (simp_all add: and.assoc)
  then have "ve_irq_info ex AND 0x700 = 0x300" "ve_irq_info ex AND 0xFF = 6" by (simp_all add: i)
  then show ?thesis using assms
    by (simp add: handle_exit_def handle_exception_def handle_ud_def syscall_exit_def Let_def drop_bit_eq_div)
qed

lemma table_rt_sigreturn: "sc_handler_table 15 = Some ''rt_sigreturn''"
  by code_simp

text \<open>
  C7: A handler that returns gives the interrupted program back what it had: when the frame of a
  signal has been set up, the handler has left it alone, popped the return address and called the
  restorer, then the exit for \<open>rt_sigreturn\<close> restores all 22 registers of the frame, with the
  instruction pointer, and the mask, and ends the loop that \<open>handle_signal\<close> started.
\<close>

theorem signal_roundtrip:
  assumes "setup_sigframe h signum st = Inr (0, st1)" "um_ok (sg_user st)" "length (sh_frame h) = 440"
    "unaliased (sg_user st) (sg_regs st1 RSP) 440" "\<forall>r \<in> {CS, GS, FS, SS}. sg_regs st r < 0x10000"
    "sg_regs st2 RSP = sg_regs st1 RSP + 8" "sg_regs st2 RAX = 15" "syscall_exit ex st2"
    "copy_from_user (sg_user st2) (sg_regs st1 RSP) 440 = copy_from_user (sg_user st1) (sg_regs st1 RSP) 440"
  shows "\<exists>st3. handle_exit h others pid True ex st2 = Inr (Return_on_sigret, st3) \<and> sg_mask st3 = sg_mask st \<and>
    (\<forall>r \<in> - {DS, ES, XCR0}. sg_regs st3 r = sg_regs st r)"
proof -
  obtain act u where act: "sig_entry signum st = Inr act"
    "copy_to_user (sg_user st) (sg_regs st1 RSP) (put_fields (sigframe_fields signum act st) (sh_frame h)) = (0, u)"
    "sg_user st1 = u" using setup_sigframe_ok [OF assms(1)] by metis
  define frame where "frame = put_fields (sigframe_fields signum act st) (sh_frame h)"
  have len: "length frame = 440"
    using length_put_fields [of 0 "sh_frame h"] fields_ok_frame assms(3) by (simp add: frame_def)
  have "copy_from_user (sg_user st2) (sg_regs st1 RSP) 440 = (0, frame)"
    using copy_read_back [OF assms(2), of "sg_regs st1 RSP" frame u] act assms(4,9) len by (simp add: frame_def)
  then have fetch: "sg_fetch (sg_regs st2 RSP - 8) 440 st2 = Some frame" by (simp add: sg_fetch_def assms(6))
  define st3 where "st3 = (restore_sigcontext frame st2)\<lparr>sg_mask := sg_mask st\<rparr>"
  note restored = restore_frame [OF assms(3) frame_def]
  have ret: "\<exists>st4. sys_rt_sigreturn h st2 = Inr (sg_regs st RAX, st4) \<and> sg_mask st4 = sg_mask st \<and>
      sg_regs st4 = (sg_regs st3)(RIP := sg_regs st3 RIP - 2)"
    using fetch restored(3) restored(1) [of RAX 152 st2] by (simp add: sys_rt_sigreturn_def Let_def st3_def sc_regs_def)
  then obtain st4 where st4: "sys_rt_sigreturn h st2 = Inr (sg_regs st RAX, st4)" "sg_mask st4 = sg_mask st"
    "sg_regs st4 = (sg_regs st3)(RIP := sg_regs st3 RIP - 2)" by blast
  then have "handle_syscall h others pid st2 = Inr (True, set_reg RAX (sg_regs st RAX) st4)"
    using assms(7) by (simp add: handle_syscall_def table_rt_sigreturn call_handler_def LSYS_rt_sigreturn_def)
  then have step: "handle_exit h others pid True ex st2 =
      Inr (Return_on_sigret, set_reg RIP (sg_regs st4 RIP + 2) (set_reg RAX (sg_regs st RAX) st4))"
    using handle_exit_syscall [OF assms(8), of h others pid True] by simp
  have regs: "sg_regs st3 r = sg_regs st r" if "r \<in> - {DS, ES, XCR0}" for r
  proof (cases "r \<in> {CS, GS, FS, SS}")
    case True
    then have "\<exists>off. (r, off) \<in> set sc_segs" "sg_regs st r < 0x10000" using assms(5) by (auto simp: sc_segs_def)
    then show ?thesis using restored(2) selector_id by (fastforce simp: st3_def)
  next
    case False
    then have "\<exists>off. (r, off) \<in> set sc_regs" using that by (cases r) (auto simp: sc_regs_def)
    then show ?thesis using restored(1) by (fastforce simp: st3_def)
  qed
  then show ?thesis using step st4 by (auto simp: fun_upd_def)
qed

text \<open>
  A program with a handler for signal 10, whose restorer, a system call instruction, is at \<open>0x11800\<close>.
\<close>

definition ex_sh :: sig_host where
  "ex_sh = \<lparr>sh_answer = (\<lambda>_. (0, 0)), sh_handler = 0x5000, sh_undef = 0, sh_frame = replicate 440 0,
     sh_actions = (\<lambda>_. 0), sh_mask = 0, sh_fatal = (\<lambda>_. False)\<rparr>"

definition ex_act :: l_sigaction where
  "ex_act = \<lparr>lsa_handler = 0x400000, lsa_flags = 0x04000000, lsa_restorer = 0x11800, lsa_mask = 0\<rparr>"

definition ex_sig :: sig_state where
  "ex_sig = \<lparr>sg_regs = (\<lambda>_. 0)(RSP := 0x11400, RIP := 0x11900),
     sg_user = ex_um\<lparr>um_host := \<lambda>h. if h = 0x101800 then 0x0F else if h = 0x101801 then 5 else 0\<rparr>,
     sg_actions = (replicate 64 (fresh_action 0))[9 := ex_act], sg_mask = 0x800, sg_pending = 0x200, sg_sas = no_sas, sg_trace = []\<rparr>"

definition ex_ud :: vm_exit where
  "ex_ud = \<lparr>ve_reason = 0, ve_irq_info = 0x80000306, ve_instlen = 2, ve_qualific = 0, ve_lin_addr = 0,
     ve_cpuid = (\<lambda>_. (0, 0, 0, 0)), ve_xstate = 7, ve_vmcs = (\<lambda>_. 0)\<rparr>"

lemma ex_sig_user: "um_ok (sg_user ex_sig)" "um_ptr (sg_user ex_sig) 0x11248 = Some 0x101248" "um_ptr (sg_user ex_sig) 0x11800 = Some 0x101800"
proof -
  show "um_ok (sg_user ex_sig)" using ex_um_ok by (simp add: ex_sig_def um_ok_def)
  show "um_ptr (sg_user ex_sig) 0x11248 = Some 0x101248" "um_ptr (sg_user ex_sig) 0x11800 = Some 0x101800"
    using um_ptr_same_page [OF ex_um_ok, of "0x248" "0x11000"] um_ptr_same_page [OF ex_um_ok, of "0x800" "0x11000"] ex_um_ptr(1)
    by (simp_all add: ex_sig_def)
qed

lemma ex_sig_entry: "sig_entry 10 ex_sig = Inr ex_act"
  by (simp add: sig_entry_def ex_sig_def)

lemma ex_frame_length: "length (put_fields (sigframe_fields 10 ex_act ex_sig) (sh_frame ex_sh)) = 440"
  using length_put_fields [of 0 "sh_frame ex_sh"] fields_ok_frame by (simp add: ex_sh_def)

lemma ex_setup:
  obtains st1 where "setup_sigframe ex_sh 10 ex_sig = Inr (0, st1)" "sg_regs st1 RSP = 0x11248" "sg_mask st1 = 0x200"
    "sg_user st1 = (sg_user ex_sig)\<lparr>um_host := host_write (um_host (sg_user ex_sig)) 0x101248
       (put_fields (sigframe_fields 10 ex_act ex_sig) (sh_frame ex_sh))\<rparr>"
proof -
  have regs: "sg_regs ex_sig RSP = 0x11400" "sg_sas ex_sig = no_sas" by (simp_all add: ex_sig_def)
  have act: "lsa_flags ex_act = 0x04000000" "lsa_handler ex_act = 0x400000" "handler_mask 10 ex_act = 0x200"
    by (simp_all add: ex_act_def handler_mask_def LINUX_SIGADDSET_def)
  show thesis
    using that copy_to_page [OF ex_sig_user(2), of "put_fields (sigframe_fields 10 ex_act ex_sig) (sh_frame ex_sh)"]
    by (simp add: setup_sigframe_def ex_sig_entry Let_def regs act ex_frame_length no_sas_def)
qed

theorem signal_roundtrip_witness:
  "\<exists>st1 st2 st3. setup_sigframe ex_sh 10 ex_sig = Inr (0, st1) \<and> sg_mask st1 = 0x200 \<and> sg_regs st2 RIP = 0x11800 \<and>
     handle_exit ex_sh undefined 1 True ex_ud st2 = Inr (Return_on_sigret, st3) \<and>
     sg_regs st3 RIP = 0x11900 \<and> sg_regs st3 RSP = 0x11400 \<and> sg_mask st3 = 0x800"
proof -
  obtain st1 where st1: "setup_sigframe ex_sh 10 ex_sig = Inr (0, st1)" "sg_regs st1 RSP = 0x11248" "sg_mask st1 = 0x200"
    "sg_user st1 = (sg_user ex_sig)\<lparr>um_host := host_write (um_host (sg_user ex_sig)) 0x101248
       (put_fields (sigframe_fields 10 ex_act ex_sig) (sh_frame ex_sh))\<rparr>" by (rule ex_setup)
  define st2 where "st2 = st1\<lparr>sg_regs := (sg_regs st1)(RSP := 0x11250, RAX := 15, RIP := 0x11800)\<rparr>"
  have ptr: "um_ptr (sg_user st2) 0x11800 = Some 0x101800" using ex_sig_user(3) by (simp add: st2_def st1(4))
  have "host_read m a 2 = [m a, m (a + 1)]" for m a by (simp add: host_read_def upt_rec)
  moreover have "copy_from_user (sg_user st2) 0x11800 2 = (0, host_read (um_host (sg_user st2)) 0x101800 2)"
    by (rule copy_from_page [OF ptr]) simp
  ultimately have "sg_fetch 0x11800 2 st2 = Some [0x0F, 5]"
    by (simp add: sg_fetch_def) (simp add: st2_def st1(4) host_write_def ex_frame_length, simp add: ex_sig_def)
  then have ex: "syscall_exit ex_ud st2"
    by (simp add: syscall_exit_def ex_ud_def is_syscall_def as_int_def st2_def le_word_def)
  have "\<exists>st3. handle_exit ex_sh undefined 1 True ex_ud st2 = Inr (Return_on_sigret, st3) \<and> sg_mask st3 = sg_mask ex_sig \<and>
      (\<forall>r \<in> - {DS, ES, XCR0}. sg_regs st3 r = sg_regs ex_sig r)"
  proof (rule signal_roundtrip [OF st1(1) ex_sig_user(1) _ _ _ _ _ ex])
    show "unaliased (sg_user ex_sig) (sg_regs st1 RSP) 440"
      using unaliased_page [OF ex_sig_user(1,2), of 440] st1(2) by simp
  qed (simp_all add: ex_sh_def ex_sig_def st1(2) st2_def)
  then obtain st3 where "handle_exit ex_sh undefined 1 True ex_ud st2 = Inr (Return_on_sigret, st3)" "sg_mask st3 = sg_mask ex_sig"
      "\<And>r. r \<notin> {DS, ES, XCR0} \<Longrightarrow> sg_regs st3 r = sg_regs ex_sig r" by blast
  moreover from this have "sg_mask st3 = 0x800" "sg_regs st3 RIP = 0x11900" "sg_regs st3 RSP = 0x11400" by (simp_all add: ex_sig_def)
  moreover have "sg_regs st2 RIP = 0x11800" by (simp add: st2_def)
  ultimately show ?thesis using st1(1,3) by blast
qed

end
