(* ===== verification/SignalRuns.thy ===== *)
theory SignalRuns
  imports SignalProps
begin

text \<open>
  Which signal is delivered, the mask as a set of signals, and that the loop over pending signals
  never fails an assertion in a run of a process.
\<close>

section \<open>Delivery\<close>

definition caught :: "sig_state \<Rightarrow> int \<Rightarrow> bool" where
  "caught st sig \<longleftrightarrow> lsa_handler (sg_actions st ! nat (sig - 1)) \<noteq> LINUX_SIG_DFL \<and> lsa_handler (sg_actions st ! nat (sig - 1)) \<noteq> LINUX_SIG_IGN"

definition deliverable :: "sig_state \<Rightarrow> int \<Rightarrow> bool" where
  "deliverable st sig \<longleftrightarrow> bit (sg_pending st) (nat (sig - 1)) \<and> \<not> bit (sg_mask st) (nat (sig - 1)) \<and> caught st sig"

text \<open>Only the signals 1 to 31 are pending, and the table has its 64 entries.\<close>

definition sig_inv :: "sig_state \<Rightarrow> bool" where
  "sig_inv st \<longleftrightarrow> length (sg_actions st) = 64 \<and> (\<forall>k. bit (sg_pending st) k \<longrightarrow> k < 31)"

lemma sig_invD: "sig_inv st \<Longrightarrow> length (sg_actions st) = 64" "sig_inv st \<Longrightarrow> bit (sg_pending st) k \<Longrightarrow> k < 31"
  by (simp_all add: sig_inv_def)

lemma pop_signal_none:
  assumes "sg_pending st AND NOT (sg_mask st) = 0"
  shows "pop_signal st = Inr (0, st)"
  using assms by (simp add: pop_signal_def)

lemma pop_signal_some:
  assumes "sig_inv st" "sg_pending st AND NOT (sg_mask st) \<noteq> 0"
  obtains i where "i < 31" "bit (sg_pending st) i" "\<not> bit (sg_mask st) i"
    "\<And>k. k < i \<Longrightarrow> bit (sg_pending st) k \<Longrightarrow> bit (sg_mask st) k"
    "pop_signal st = Inr (int i + 1, st\<lparr>sg_pending := sg_pending st AND NOT (push_bit i 1)\<rparr>)"
proof -
  define p where "p = sg_pending st AND NOT (sg_mask st)"
  have b: "bit (ucast p :: flags) k \<longleftrightarrow> k < 32 \<and> bit (sg_pending st) k \<and> \<not> bit (sg_mask st) k" for k
    using bit_imp_le_length [of "sg_pending st" k] by (auto simp: p_def bit_simps)
  obtain k where "bit p k" using assms(2) by (auto simp: p_def bit_eq_iff)
  then have "bit (ucast p :: flags) k"
    using sig_invD(2) [OF assms(1), of k] by (auto simp: b) (auto simp: p_def bit_simps)
  then have "(ucast p :: flags) \<noteq> 0" by auto
  then obtain i where i: "builtin_ffs (ucast p) = int i + 1" "i < 32" "bit (ucast p :: flags) i" "\<forall>k < i. \<not> bit (ucast p :: flags) k"
    using builtin_ffs_least by blast
  have i31: "i < 31" using i(3) sig_invD(2) [OF assms(1), of i] by (simp add: b)
  have "sigbit (int i + 1) = push_bit i 1" using i31 by (simp add: sigbit_def)
  then have "pop_signal st = Inr (int i + 1, st\<lparr>sg_pending := sg_pending st AND NOT (push_bit i 1)\<rparr>)"
    using assms(2) i(1) i31 by (simp add: pop_signal_def Let_def p_def)
  then show thesis using that [of i] i i31 by (auto simp: b)
qed

lemma sig_entry_in:
  "length (sg_actions st) = 64 \<Longrightarrow> i < 31 \<Longrightarrow> sig_entry (int i + 1) st = Inr (sg_actions st ! i)"
  by (simp add: sig_entry_def)

text \<open>What is pending once the signals up to \<open>n\<close> that are not blocked have been taken.\<close>

definition taken_below :: "nat \<Rightarrow> sig_state \<Rightarrow> sig_state" where
  "taken_below n st = st\<lparr>sg_pending := sg_pending st AND (sg_mask st OR NOT (mask n))\<rparr>"

definition first_signal :: "sig_state \<Rightarrow> int option" where
  "first_signal st = List.find (deliverable st) [1..31]"

lemma find_least:
  assumes "a \<le> x" "x \<le> b" "P x" "\<And>y. a \<le> y \<Longrightarrow> y < x \<Longrightarrow> \<not> P y"
  shows "List.find P [a..b :: int] = Some x"
  unfolding find_Some_iff using assms by (intro exI [of _ "nat (x - a)"]) auto

lemma find_pending:
  "first_signal st = Some s \<Longrightarrow> deliverable st s \<and> 1 \<le> s \<and> s \<le> 31"
  "first_signal st = None \<Longrightarrow> 1 \<le> s \<Longrightarrow> s \<le> 31 \<Longrightarrow> \<not> deliverable st s"
proof -
  assume "first_signal st = Some s"
  then obtain i where "i < length [1..31 :: int]" "deliverable st ([1..31] ! i)" "s = [1..31] ! i"
    unfolding first_signal_def find_Some_iff by blast
  then show "deliverable st s \<and> 1 \<le> s \<and> s \<le> 31" by auto
qed (auto simp: first_signal_def find_None_iff)

lemma taken_below_id:
  assumes "sg_pending st AND NOT (sg_mask st) = 0"
  shows "taken_below n st = st"
proof -
  have "bit (sg_pending st) k \<Longrightarrow> bit (sg_mask st) k" for k
    using arg_cong [OF assms, of "\<lambda>w. bit w k"] bit_imp_le_length [of "sg_pending st" k] by (auto simp: bit_simps)
  then have "sg_pending st AND (sg_mask st OR NOT (mask n)) = sg_pending st"
    by (intro bit_word_eqI) (auto simp: bit_simps)
  then show ?thesis by (simp add: taken_below_def)
qed

lemma taken_below_first:
  assumes "i < 31" "\<not> bit (sg_mask st) i" "\<And>k. k < i \<Longrightarrow> bit (sg_pending st) k \<Longrightarrow> bit (sg_mask st) k"
  shows "st\<lparr>sg_pending := sg_pending st AND NOT (push_bit i 1)\<rparr> = taken_below (Suc i) st"
proof -
  have "i \<le> n" if "bit (sg_pending st) n" "\<not> bit (sg_mask st) n" for n using assms(3) that not_le by blast
  then have "sg_pending st AND NOT (push_bit i 1) = sg_pending st AND (sg_mask st OR NOT (mask (Suc i)))"
    using assms(1,2) by (intro bit_word_eqI) (auto simp: bit_simps less_Suc_eq not_less)
  then show ?thesis by (simp add: taken_below_def)
qed

lemma taken_below_skip:
  assumes "\<not> bit (sg_mask st) i" "i < n"
  shows "taken_below n (st\<lparr>sg_pending := sg_pending st AND NOT (push_bit i 1)\<rparr>) = taken_below n st"
proof -
  have "(sg_pending st AND NOT (push_bit i 1)) AND (sg_mask st OR NOT (mask n)) = sg_pending st AND (sg_mask st OR NOT (mask n))"
    using assms by (intro bit_word_eqI) (auto simp: bit_simps)
  then show ?thesis by (simp add: taken_below_def)
qed

lemma wake_loop_spec:
  "sig_inv st \<Longrightarrow> wake_loop_sig h st =
    (case first_signal st of
       None \<Rightarrow> Inr (taken_below 31 st)
     | Some s \<Rightarrow> deliver h s (sg_actions st ! nat (s - 1)) (taken_below (nat s) st))"
proof (induction "pending_count st" arbitrary: st rule: less_induct)
  case less
  show ?case
  proof (cases "sg_pending st AND NOT (sg_mask st) = 0")
    case True
    have "\<not> deliverable st s" for s
      using arg_cong [OF True, of "\<lambda>w. bit w (nat (s - 1))"] bit_imp_le_length [of "sg_pending st" "nat (s - 1)"]
      by (auto simp: bit_simps deliverable_def)
    then have "first_signal st = None" by (auto simp: first_signal_def find_None_iff)
    then show ?thesis
      using taken_below_id [OF True] by (subst wake_loop_sig.simps) (simp add: pop_signal_none [OF True])
  next
    case False
    obtain i where i: "i < 31" "bit (sg_pending st) i" "\<not> bit (sg_mask st) i"
      "\<And>k. k < i \<Longrightarrow> bit (sg_pending st) k \<Longrightarrow> bit (sg_mask st) k"
      "pop_signal st = Inr (int i + 1, st\<lparr>sg_pending := sg_pending st AND NOT (push_bit i 1)\<rparr>)"
      using pop_signal_some [OF less.prems False] by blast
    define st' where "st' = st\<lparr>sg_pending := sg_pending st AND NOT (push_bit i 1)\<rparr>"
    have inv': "sig_inv st'" using less.prems by (auto simp: sig_inv_def st'_def bit_simps)
    have step: "wake_loop_sig h st = (if caught st (int i + 1) then deliver h (int i + 1) (sg_actions st ! i) st' else wake_loop_sig h st')"
      using i(1,5) sig_entry_in [of st' i] sig_invD(1) [OF less.prems]
      by (subst wake_loop_sig.simps) (simp add: st'_def caught_def)
    show ?thesis
    proof (cases "caught st (int i + 1)")
      case True
      have "first_signal st = Some (int i + 1)"
        unfolding first_signal_def
      proof (rule find_least)
        fix y assume y: "1 \<le> y" "y < int i + 1"
        then show "\<not> deliverable st y" using i(4) [of "nat (y - 1)"] by (auto simp: deliverable_def)
      qed (use i True in \<open>auto simp: deliverable_def\<close>)
      moreover have "nat (int i + 1) = Suc i" by simp
      ultimately show ?thesis using step True taken_below_first [OF i(1,3,4)] by (simp add: st'_def)
    next
      case nc: False
      have same: "deliverable st' s = deliverable st s" if "1 \<le> s" for s
      proof (cases "s = int i + 1")
        case True
        then show ?thesis using nc by (auto simp: deliverable_def caught_def st'_def)
      next
        case False
        then have "nat (s - 1) \<noteq> i" using that by linarith
        then show ?thesis by (auto simp: deliverable_def caught_def st'_def bit_simps dest: bit_imp_le_length)
      qed
      then have first: "first_signal st' = first_signal st"
        unfolding first_signal_def by (intro find_cong refl) simp
      have less': "pending_count st' < pending_count st" using pop_signal_less [OF i(5)] by (simp add: st'_def)
      have skip: "taken_below n st' = taken_below n st" if "i < n" for n
        using taken_below_skip [OF i(3) that] by (simp add: st'_def)
      have later: "i < nat s" if "first_signal st = Some s" for s
      proof (rule ccontr)
        assume "\<not> i < nat s"
        then have "nat (s - 1) < i \<and> bit (sg_pending st) (nat (s - 1)) \<and> \<not> bit (sg_mask st) (nat (s - 1))"
          using find_pending(1) [OF that] by (auto simp: deliverable_def)
        then show False using i(4) by blast
      qed
      have acts: "sg_actions st' = sg_actions st" by (simp add: st'_def)
      show ?thesis
        using step nc less.hyps [OF less' inv'] skip [OF i(1)] later
        by (auto simp: first acts skip split: option.split)
    qed
  qed
qed

text \<open>
  C26: Of the pending signals that are not blocked, the lowest that has a handler is delivered, with
  the entry of the table for it; the signals below it that are ignored or have the default action are
  taken without effect, and those above stay pending.  Without one with a handler, all that are not
  blocked are taken and nothing else changes.
\<close>

theorem wake_delivers_lowest:
  assumes "sig_inv st"
  shows "wake_sighandler h st = bind_run
    (case first_signal st of
       None \<Rightarrow> Inr (taken_below 31 (sig_emit Sig_rdlock st))
     | Some s \<Rightarrow> deliver h s (sg_actions st ! nat (s - 1)) (taken_below (nat s) (sig_emit Sig_rdlock st)))
    (\<lambda>st'. Inr (sig_emit Sig_unlock st'))"
proof -
  have inv: "sig_inv (sig_emit Sig_rdlock st)" using assms by (simp add: sig_inv_def)
  have "deliverable (sig_emit Sig_rdlock st) = deliverable st"
    by (simp add: fun_eq_iff deliverable_def caught_def)
  then have "first_signal (sig_emit Sig_rdlock st) = first_signal st" by (simp add: first_signal_def)
  then show ?thesis by (cases "first_signal st") (simp_all add: wake_sighandler_def wake_loop_spec [OF inv])
qed

lemma ex_bits: "bit (0x200 :: 64 word) k \<longleftrightarrow> k = 9" "bit (0x800 :: 64 word) k \<longleftrightarrow> k = 11"
proof -
  show "bit (0x200 :: 64 word) k \<longleftrightarrow> k = 9"
    using bit_push_bit_iff [of 9 "1 :: 64 word" k] by (auto simp: bit_simps)
  show "bit (0x800 :: 64 word) k \<longleftrightarrow> k = 11"
    using bit_push_bit_iff [of 11 "1 :: 64 word" k] by (auto simp: bit_simps)
qed

lemma ex_sets: "bit (sg_pending ex_sig) k \<longleftrightarrow> k = 9" "bit (sg_mask ex_sig) k \<longleftrightarrow> k = 11"
proof -
  have "sg_pending ex_sig = 0x200" "sg_mask ex_sig = 0x800" by (simp_all add: ex_sig_def)
  then show "bit (sg_pending ex_sig) k \<longleftrightarrow> k = 9" "bit (sg_mask ex_sig) k \<longleftrightarrow> k = 11"
    by (simp_all only: ex_bits)
qed

lemma ex_sig_inv: "sig_inv ex_sig"
proof -
  have "length (sg_actions ex_sig) = 64" by (simp add: ex_sig_def)
  then show ?thesis by (simp add: sig_inv_def ex_sets)
qed

theorem wake_delivers_lowest_witness:
  "sig_inv ex_sig \<and> first_signal ex_sig = Some 10 \<and>
    wake_sighandler ex_sh ex_sig = bind_run (deliver ex_sh 10 ex_act (taken_below 10 (sig_emit Sig_rdlock ex_sig)))
      (\<lambda>st'. Inr (sig_emit Sig_unlock st'))"
proof -
  have "caught ex_sig 10" by (simp add: ex_sig_def caught_def ex_act_def)
  then have "first_signal ex_sig = Some 10"
    unfolding first_signal_def by (intro find_least) (auto simp: deliverable_def ex_sets)
  moreover have "sg_actions ex_sig ! 9 = ex_act" by (simp add: ex_sig_def)
  ultimately show ?thesis using wake_delivers_lowest [OF ex_sig_inv, of ex_sh] ex_sig_inv by simp
qed

section \<open>The mask as a set\<close>

definition members :: "l_sigset \<Rightarrow> int set" where
  "members w = {s. 1 \<le> s \<and> s \<le> 64 \<and> LINUX_SIGISMEMBER w s}"

lemma mem_bit: "LINUX_SIGISMEMBER w s \<longleftrightarrow> bit w (nat (s - 1))"
  by (simp add: LINUX_SIGISMEMBER_def bit_iff_odd_drop_bit and_one_eq one_and_eq odd_iff_mod_2_eq_one flip: mod_2_eq_odd)

lemma members_ops:
  "members (a OR b) = members a \<union> members b" "members (a AND NOT b) = members a - members b"
  "1 \<le> s \<Longrightarrow> s \<le> 64 \<Longrightarrow> members (LINUX_SIGDELSET a s) = members a - {s}"
  "1 \<le> s \<Longrightarrow> s \<le> 64 \<Longrightarrow> members (LINUX_SIGADDSET a s) = insert s (members a)"
proof -
  have b: "nat (s' - 1) < 64" if "1 \<le> s'" "s' \<le> 64" for s' :: int using that by simp
  show "members (a OR b) = members a \<union> members b" by (auto simp: members_def mem_bit bit_simps)
  show "members (a AND NOT b) = members a - members b" by (auto simp: members_def mem_bit bit_simps b)
  assume s: "1 \<le> s" "s \<le> 64"
  have bit: "bit (push_bit (nat (s - 1)) (1 :: 64 word)) (nat (s' - 1)) \<longleftrightarrow> s' = s" if "1 \<le> s'" "s' \<le> 64" for s'
    using that s by (auto simp: bit_simps nat_eq_iff)
  show "members (LINUX_SIGDELSET a s) = members a - {s}"
    using bit by (auto simp: members_def mem_bit LINUX_SIGDELSET_def bit_and_iff bit_not_iff simp del: push_bit_of_1)
  show "members (LINUX_SIGADDSET a s) = insert s (members a)"
    using bit s by (auto simp: members_def mem_bit LINUX_SIGADDSET_def bit_or_iff simp del: push_bit_of_1)
qed

text \<open>
  C27: \<open>rt_sigprocmask\<close> is an operation on sets: with the set the guest passes, less \<open>SIGKILL\<close> and
  \<open>SIGSTOP\<close>, the set of blocked signals grows, shrinks or is replaced, and the host is told of the
  result; it changes nothing else.
\<close>

theorem sigprocmask_refines:
  assumes "how \<in> {0, 1, 2}" "nset \<noteq> 0" "sg_fetch nset 8 st = Some bs"
  shows "let s = members (le_word bs) - {9, 19} in
    \<exists>r st'. sys_rt_sigprocmask h how nset 0 8 st = Inr (r, st') \<and>
      members (sg_mask st') = (if how = 0 then members (sg_mask st) \<union> s else if how = 1 then members (sg_mask st) - s else s) \<and>
      st' = st\<lparr>sg_mask := sg_mask st',
        sg_trace := sg_trace st @ [Sig_call (Pthread_sigmask (linux_to_darwin_sigset (sh_undef h) (sg_mask st')))]\<rparr>"
proof -
  define s where "s = drop_unblockable (le_word bs)"
  define m where "m = (if how = 0 then sg_mask st OR s else if how = 1 then sg_mask st AND NOT s else s)"
  have s: "members s = members (le_word bs) - {9, 19}" by (simp add: s_def drop_unblockable_def members_ops) blast
  have "sigset_op how (sg_mask st) s = Some m" using assms(1) by (auto simp: sigset_op_def m_def)
  then have "\<exists>r. sys_rt_sigprocmask h how nset 0 8 st =
      Inr (r, sig_emit (Sig_call (Pthread_sigmask (linux_to_darwin_sigset (sh_undef h) m))) (st\<lparr>sg_mask := m\<rparr>))"
    using assms(2,3) by (simp add: sys_rt_sigprocmask_def s_def Let_def)
  then obtain r where "sys_rt_sigprocmask h how nset 0 8 st =
      Inr (r, sig_emit (Sig_call (Pthread_sigmask (linux_to_darwin_sigset (sh_undef h) m))) (st\<lparr>sg_mask := m\<rparr>))" by blast
  moreover have "members m = (if how = 0 then members (sg_mask st) \<union> members s else if how = 1 then members (sg_mask st) - members s else members s)"
    by (simp add: m_def members_ops)
  ultimately show ?thesis unfolding Let_def s [symmetric]
    by (intro exI [of _ r] exI [of _ "sig_emit _ (st\<lparr>sg_mask := m\<rparr>)"]) (simp add: sig_emit_def)
qed

lemma ex_fetch: "n \<le> 0x800 \<Longrightarrow> sg_fetch 0x11800 n ex_sig = Some (map (\<lambda>i. if i = 0 then 0x0F else if i = 1 then 5 else 0) [0..<n])"
proof -
  assume n: "n \<le> 0x800"
  have "(0x101800 :: haddr) + of_nat i = 0x101801 \<longleftrightarrow> i = 1" "(of_nat i :: haddr) = 0 \<longleftrightarrow> i = 0" if "i < n" for i
  proof -
    have "unat (of_nat i :: haddr) = i" using that n by (simp add: unat_of_nat)
    moreover have "(0x101800 :: haddr) + of_nat i = 0x101801 \<longleftrightarrow> of_nat i = (1 :: haddr)" by (auto simp: algebra_simps)
    ultimately show "(0x101800 :: haddr) + of_nat i = 0x101801 \<longleftrightarrow> i = 1" "(of_nat i :: haddr) = 0 \<longleftrightarrow> i = 0"
      by (auto simp: unat_eq_0 [symmetric])
  qed
  then have "host_read (um_host (sg_user ex_sig)) 0x101800 n = map (\<lambda>i. if i = 0 then 0x0F else if i = 1 then 5 else 0) [0..<n]"
    by (auto simp: host_read_def ex_sig_def)
  then show ?thesis using copy_from_page [OF ex_sig_user(3), of n] n by (simp add: sg_fetch_def)
qed

theorem sigprocmask_refines_witness:
  "\<exists>r st'. sys_rt_sigprocmask ex_sh 0 0x11800 0 8 ex_sig = Inr (r, st') \<and> 12 \<in> members (sg_mask st') \<and>
     11 \<in> members (sg_mask st') \<and> 9 \<notin> members (sg_mask st')"
proof -
  have f: "sg_fetch 0x11800 8 ex_sig = Some [0x0F, 5, 0, 0, 0, 0, 0, 0]" using ex_fetch [of 8] by (simp add: upt_rec)
  have m: "12 \<in> members (sg_mask ex_sig)" "9 \<notin> members (sg_mask ex_sig)" "11 \<in> members (le_word [0x0F, 5, 0, 0, 0, 0, 0, 0 :: byte])"
    by (simp_all add: members_def LINUX_SIGISMEMBER_def ex_sig_def le_word_def drop_bit_eq_div)
  have "\<exists>r st'. sys_rt_sigprocmask ex_sh 0 0x11800 0 8 ex_sig = Inr (r, st') \<and>
      members (sg_mask st') = members (sg_mask ex_sig) \<union> (members (le_word [0x0F, 5, 0, 0, 0, 0, 0, 0 :: byte]) - {9, 19})"
    using sigprocmask_refines [OF _ _ f, of 0 ex_sh] by (auto simp: Let_def)
  then show ?thesis using m by auto
qed

section \<open>Differences from Linux\<close>

text \<open>
  While a handler runs, a signal that the program had blocked is not blocked any more unless the
  entry of the handler names it: the mask of the entry replaces the mask instead of being added to it.
\<close>

theorem handler_unblocks:
  assumes "setup_sigframe h signum st = Inr (0, st1)" "sig_entry signum st = Inr act"
    "s \<in> members (sg_mask st)" "s \<notin> members (lsa_mask act)" "s \<noteq> signum"
  shows "s \<notin> members (sg_mask st1)"
proof -
  have m: "sg_mask st1 = handler_mask signum act" using setup_sigframe_ok [OF assms(1)] assms(2) by (metis sum.inject(2))
  have "1 \<le> signum" "signum \<le> 64"
    using assms(1,2) by (auto simp: setup_sigframe_def sig_entry_def split: if_splits)
  then show ?thesis using assms(4,5) by (auto simp: m handler_mask_def members_ops)
qed

theorem handler_unblocks_witness:
  "\<exists>st1. setup_sigframe ex_sh 10 ex_sig = Inr (0, st1) \<and> 12 \<in> members (sg_mask ex_sig) \<and> 12 \<notin> members (sg_mask st1)"
proof -
  obtain st1 where st1: "setup_sigframe ex_sh 10 ex_sig = Inr (0, st1)" by (rule ex_setup)
  have "12 \<in> members (sg_mask ex_sig)" "12 \<notin> members (lsa_mask ex_act)"
    by (simp_all add: members_def LINUX_SIGISMEMBER_def ex_sig_def ex_act_def drop_bit_eq_div)
  then show ?thesis using handler_unblocks [OF st1 ex_sig_entry, of 12] st1 by auto
qed

text \<open>
  The guest cannot switch its alternate stack off: \<open>sigaltstack\<close> compares the flags with Darwin's
  \<open>SS_DISABLE\<close>, 4, and refuses Linux's, 2, whatever the size, and keeps the old stack.
\<close>

theorem sigaltstack_disable_refused:
  assumes "uss \<noteq> 0" "sg_fetch uss 24 st = Some bs" "ss_flags (decode_stack bs) = LINUX_SS_DISABLE"
  shows "\<exists>r. sys_sigaltstack gap uss 0 st = Inr (r, st) \<and> r \<in> {- LINUX_EPERM, - LINUX_ENOMEM, - LINUX_EINVAL}"
  using assms by (auto simp: sys_sigaltstack_def Let_def)

text \<open>The stack with the flags 2 and the size 4096.\<close>

definition ex_disable :: sig_state where
  "ex_disable = ex_sig\<lparr>sg_user := (sg_user ex_sig)\<lparr>um_host := host_write (um_host (sg_user ex_sig)) 0x101800
     (encode_stack [0, 0, 0, 0] \<lparr>ss_sp = 0, ss_flags = 2, ss_size = 4096\<rparr>)\<rparr>\<rparr>"

theorem sigaltstack_disable_refused_witness:
  "\<exists>r. sys_sigaltstack [] 0x11800 0 ex_disable = Inr (r, ex_disable) \<and> r < 0"
proof -
  have ptr: "um_ptr (sg_user ex_disable) 0x11800 = Some 0x101800" using ex_sig_user(3) by (simp add: ex_disable_def)
  have "sg_fetch 0x11800 24 ex_disable = Some (encode_stack [0, 0, 0, 0] \<lparr>ss_sp = 0, ss_flags = 2, ss_size = 4096\<rparr>)"
    using copy_from_page [OF ptr, of 24]
      host_read_write [of "encode_stack [0, 0, 0, 0] \<lparr>ss_sp = 0, ss_flags = 2, ss_size = 4096\<rparr>"]
    by (simp add: sg_fetch_def ex_disable_def encode_stack_def)
  moreover have "ss_flags (decode_stack (encode_stack [0, 0, 0, 0] \<lparr>ss_sp = 0, ss_flags = 2, ss_size = 4096\<rparr>)) = 2"
    by (simp add: decode_stack_def encode_stack_def get_field_def le_word_bytes)
  ultimately show ?thesis using sigaltstack_disable_refused [of "0x11800" ex_disable] by fastforce
qed

section \<open>Runs of a process\<close>

text \<open>
  The steps that touch the state of signals, in any order: a signal of the host for which
  \<open>__host_signal_handler\<close> was installed, the system calls, delivery, and the guest, which may change
  its registers and its memory.
\<close>

inductive sig_run :: "sig_host \<Rightarrow> sig_state \<Rightarrow> bool" for h :: sig_host where
  start: "init_signal h 1 st0 = Inr st \<Longrightarrow> sg_trace st = [] \<Longrightarrow> sig_run h st"
| arrives: "sig_run h st \<Longrightarrow> Sig_call (Sigaction d a) \<in> set (sg_trace st) \<Longrightarrow> sa_handler a = sh_handler h \<Longrightarrow>
    1 \<le> d \<Longrightarrow> d \<le> 31 \<Longrightarrow> sig_run h (host_signal_handler d st)"
| guest: "sig_run h st \<Longrightarrow> sig_run h (st\<lparr>sg_regs := regs, sg_user := u\<rparr>)"
| delivers: "sig_run h st \<Longrightarrow> wake_sighandler h st = Inr st' \<Longrightarrow> sig_run h st'"
| action: "sig_run h st \<Longrightarrow> sys_rt_sigaction h sig act oact sz st = Inr (r, st') \<Longrightarrow> sig_run h st'"
| procmask: "sig_run h st \<Longrightarrow> sys_rt_sigprocmask h how nset oset sz st = Inr (r, st') \<Longrightarrow> sig_run h st'"
| sigreturn: "sig_run h st \<Longrightarrow> sys_rt_sigreturn h st = Inr (v, st') \<Longrightarrow> sig_run h st'"
| altstack: "sig_run h st \<Longrightarrow> sys_sigaltstack gap uss uoss st = Inr (r, st') \<Longrightarrow> sig_run h st'"
| pending: "sig_run h st \<Longrightarrow> sys_rt_sigpending uset n st = Inr (r, st') \<Longrightarrow> sig_run h st'"
| exec: "sig_run h st \<Longrightarrow> sig_run h (reset_signal_state h st)"

text \<open>Every installed handler is for a signal that has a number on Linux.\<close>

definition installed_ok :: "sig_host \<Rightarrow> sig_state \<Rightarrow> bool" where
  "installed_ok h st \<longleftrightarrow> (\<forall>d a. Sig_call (Sigaction d a) \<in> set (sg_trace st) \<longrightarrow> sa_handler a = sh_handler h \<longrightarrow>
     (\<exists>s \<in> {1..64}. d = linux_to_darwin_signal s))"

definition run_inv :: "sig_host \<Rightarrow> sig_state \<Rightarrow> bool" where
  "run_inv h st \<longleftrightarrow> sig_inv st \<and> installed_ok h st"

lemma run_inv_keep:
  assumes "run_inv h st" "length (sg_actions st') = length (sg_actions st)" "sg_pending st' = sg_pending st AND w"
    "\<And>d a. Sig_call (Sigaction d a) \<in> set (sg_trace st') \<Longrightarrow> Sig_call (Sigaction d a) \<in> set (sg_trace st)"
  shows "run_inv h st'"
  unfolding run_inv_def
proof
  show "sig_inv st'" using assms(1-3) by (auto simp: run_inv_def sig_inv_def bit_simps)
  show "installed_ok h st'" using assms(1,4) unfolding run_inv_def installed_ok_def by blast
qed

lemmas run_inv_same = run_inv_keep [where w = "- 1", simplified]

lemma signal_numbers:
  assumes "s \<in> {1..64 :: int}" "1 \<le> linux_to_darwin_signal s" "linux_to_darwin_signal s \<le> 31"
  shows "1 \<le> darwin_to_linux_signal (linux_to_darwin_signal s) \<and> darwin_to_linux_signal (linux_to_darwin_signal s) \<le> 31"
proof -
  have "list_all (\<lambda>s. let d = linux_to_darwin_signal s in 1 \<le> d \<longrightarrow> d \<le> 31 \<longrightarrow>
      1 \<le> darwin_to_linux_signal d \<and> darwin_to_linux_signal d \<le> 31) [1..64]"
    by code_simp
  then show ?thesis using assms by (auto simp: list_all_iff Let_def)
qed

lemma arrives_inv:
  assumes "run_inv h st" "Sig_call (Sigaction d a) \<in> set (sg_trace st)" "sa_handler a = sh_handler h" "1 \<le> d" "d \<le> 31"
  shows "run_inv h (host_signal_handler d st)"
proof -
  obtain s where "s \<in> {1..64}" "d = linux_to_darwin_signal s"
    using assms(1,2,3) unfolding run_inv_def installed_ok_def by blast
  then have r: "1 \<le> darwin_to_linux_signal d" "darwin_to_linux_signal d \<le> 31" using signal_numbers [of s] assms(4,5) by auto
  then have "sigbit (darwin_to_linux_signal d) = push_bit (nat (darwin_to_linux_signal d - 1)) 1" by (simp add: sigbit_def)
  moreover have "nat (darwin_to_linux_signal d - 1) < 31" using r by linarith
  ultimately show ?thesis using assms(1)
    by (auto simp: run_inv_def sig_inv_def installed_ok_def host_signal_handler_def bit_simps)
qed

lemma init_inv:
  assumes "init_signal h 1 st0 = Inr st" "sg_trace st = []"
  shows "run_inv h st"
  using assms by (auto simp: init_signal_def Let_def run_inv_def sig_inv_def installed_ok_def split: if_splits)

lemma store_same:
  "sg_store a bs st = (b, st') \<Longrightarrow> sg_actions st' = sg_actions st \<and> sg_pending st' = sg_pending st \<and> sg_trace st' = sg_trace st \<and> sg_mask st' = sg_mask st"
  by (auto simp: sg_store_def split: prod.splits)

lemma store_inv: "run_inv h st \<Longrightarrow> sg_store a bs st = (b, st') \<Longrightarrow> run_inv h st'"
  using store_same [of a bs st b st'] by (auto intro: run_inv_same)

lemma setup_sigframe_same:
  assumes "setup_sigframe h signum st = Inr (r, st')"
  shows "sg_actions st' = sg_actions st \<and> sg_pending st' = sg_pending st \<and>
    (Sig_call (Sigaction d a) \<in> set (sg_trace st') \<longrightarrow> Sig_call (Sigaction d a) \<in> set (sg_trace st))"
  using assms by (cases "sig_entry signum st") (auto simp: setup_sigframe_def Let_def split: if_splits prod.splits)

lemma setup_sigframe_total:
  assumes "length (sg_actions st) = 64" "1 \<le> signum" "signum \<le> 31"
  shows "\<exists>r st'. setup_sigframe h signum st = Inr (r, st')"
  using assms by (auto simp: setup_sigframe_def sig_entry_def Let_def split: prod.split)

lemma deliver_inv:
  assumes "run_inv h st" "1 \<le> s" "s \<le> 31"
  shows "deliver h s act st = Inl Exited \<or> (\<exists>st'. deliver h s act st = Inr st' \<and> run_inv h st')"
proof -
  have len: "length (sg_actions st) = 64" using assms(1) by (simp add: run_inv_def sig_inv_def)
  obtain r st' where f: "setup_sigframe h s st = Inr (r, st')" using setup_sigframe_total [OF len assms(2,3)] by blast
  note same = setup_sigframe_same [OF f]
  have "run_inv h st'" "run_inv h (st'\<lparr>sg_actions := (sg_actions st')[k := x]\<rparr>)" for k x
    using same by (auto intro!: run_inv_same [OF assms(1)])
  then show ?thesis by (simp add: deliver_def f)
qed

lemma wake_inv_run:
  assumes "run_inv h st"
  shows "wake_sighandler h st = Inl Exited \<or> (\<exists>st'. wake_sighandler h st = Inr st' \<and> run_inv h st')"
proof -
  define st1 where "st1 = sig_emit Sig_rdlock st"
  have st1: "run_inv h st1" unfolding st1_def by (rule run_inv_same [OF assms]) auto
  then have inv: "sig_inv st1" by (simp add: run_inv_def)
  have taken: "run_inv h (taken_below n st1)" for n
    by (rule run_inv_keep [OF st1]) (auto simp: taken_below_def)
  have unlock: "run_inv h (sig_emit Sig_unlock st')" if "run_inv h st'" for st'
    by (rule run_inv_same [OF that]) auto
  show ?thesis
  proof (cases "first_signal st1")
    case None
    then show ?thesis using taken unlock by (simp add: wake_sighandler_def wake_loop_spec [OF inv, unfolded st1_def] st1_def)
  next
    case (Some s)
    then have s: "1 \<le> s" "s \<le> 31" using find_pending(1) by blast+
    have "wake_sighandler h st = bind_run (deliver h s (sg_actions st1 ! nat (s - 1)) (taken_below (nat s) st1)) (\<lambda>st'. Inr (sig_emit Sig_unlock st'))"
      using wake_loop_spec [OF inv, of h] Some by (simp add: wake_sighandler_def st1_def)
    then show ?thesis using deliver_inv [OF taken s, of "sg_actions st1 ! nat (s - 1)" "nat s"] unlock by auto
  qed
qed

lemma set_action_inv:
  assumes "run_inv h st" "set_action h sig lact st = Inr (r, st')" "1 \<le> sig" "sig \<le> 64"
  shows "run_inv h st'"
proof -
  obtain c where "sg_trace st' = sg_trace st @ [Sig_wrlock, Sig_call (Sigaction (linux_to_darwin_signal sig) c), Sig_unlock]"
    "length (sg_actions st') = length (sg_actions st)" "sg_pending st' = sg_pending st"
    using assms(2) by (auto simp: set_action_def Let_def split: if_splits)
  then show ?thesis using assms(1,3,4) by (auto simp: run_inv_def sig_inv_def installed_ok_def)
qed

lemma fold_reset_inv:
  assumes "sh_handler h \<noteq> SIG_DFL"
  shows "run_inv h st \<Longrightarrow> run_inv h (fold (reset_action h) js st)"
proof (induction js arbitrary: st)
  case (Cons j js)
  have "run_inv h (reset_action h j st)"
    using Cons.prems assms
    by (auto simp: reset_action_def Let_def run_inv_def sig_inv_def installed_ok_def linux_to_darwin_sigaction_def)
  then show ?case using Cons.IH by simp
qed simp

lemma sig_run_inv:
  assumes "sh_handler h \<noteq> SIG_DFL"
  shows "sig_run h st \<Longrightarrow> run_inv h st"
proof (induction rule: sig_run.induct)
  case (start st0 st)
  then show ?case by (rule init_inv)
next
  case (arrives st d a)
  then show ?case using arrives_inv by blast
next
  case (guest st regs u)
  then show ?case by (intro run_inv_same [OF guest.IH]) auto
next
  case (delivers st st')
  then show ?case using wake_inv_run by (metis sum.distinct(1) sum.inject(2))
next
  case (action st sig act oact sz r st')
  then show ?case
    by (auto simp: sys_rt_sigaction_def sig_entry_def split: if_splits prod.splits option.splits
        dest!: store_inv [OF action.IH] intro: set_action_inv)
next
  case (procmask st how nset oset sz r st')
  then show ?case
    by (auto simp: sys_rt_sigprocmask_def Let_def split: if_splits prod.splits option.splits
        dest!: store_same intro!: run_inv_same [OF procmask.IH])
next
  case (sigreturn st v st')
  then show ?case
    by (auto simp: sys_rt_sigreturn_def restore_sigcontext_def Let_def split: option.splits intro!: run_inv_same [OF sigreturn.IH])
next
  case (altstack st gap uss uoss r st')
  then show ?case
    by (auto simp: sys_sigaltstack_def Let_def split: if_splits prod.splits option.splits
        dest!: store_same intro!: run_inv_same [OF altstack.IH])
next
  case (pending st uset n r st')
  then show ?case
    by (auto simp: sys_rt_sigpending_def split: if_splits prod.splits dest!: store_same intro!: run_inv_same [OF pending.IH])
next
  case (exec st)
  have "run_inv h (fold (reset_action h) [0..<DARWIN_NSIG] st)" by (rule fold_reset_inv [OF assms exec.IH])
  then show ?case unfolding reset_signal_state_def by (rule run_inv_same) auto
qed

text \<open>
  C8: In every run, whatever signals arrive and whatever the guest does to its registers and memory,
  the loop over the pending signals fails no assertion and stays inside of the table: it returns,
  or ends the process because the frame cannot be written.
\<close>

theorem signals_safe:
  assumes "sig_run h st" "sh_handler h \<noteq> SIG_DFL"
  shows "wake_sighandler h st = Inl Exited \<or> (\<exists>st'. wake_sighandler h st = Inr st')"
  using wake_inv_run [OF sig_run_inv [OF assms(2,1)]] by blast

text \<open>A process that installs a handler for signal 10 and is sent Darwin's 30.\<close>

definition ex_start :: sig_state where
  "ex_start = \<lparr>sg_regs = (\<lambda>_. 0), sg_user = (sg_user ex_sig)\<lparr>um_host := host_write (um_host (sg_user ex_sig)) 0x101800 (encode_sigaction ex_act)\<rparr>,
     sg_actions = replicate 64 (fresh_action 0), sg_mask = 0, sg_pending = 0, sg_sas = no_sas, sg_trace = []\<rparr>"

lemma ex_start_run: "sig_run ex_sh ex_start"
proof -
  have "darwin_to_linux_sigset 0 0 = 0" by code_simp
  then have "init_signal ex_sh 1 ex_start = Inr ex_start"
    by (simp add: init_signal_def ex_sh_def ex_start_def map_replicate_const)
  then show ?thesis by (rule sig_run.start) (simp add: ex_start_def)
qed

lemma ex_numbers: "linux_to_darwin_signal 10 = 30" "darwin_to_linux_signal 30 = 10"
  by code_simp+

lemma ex_action_decode: "decode_sigaction (encode_sigaction ex_act) = ex_act" "length (encode_sigaction ex_act) = 32"
  by (simp_all add: decode_sigaction_def encode_sigaction_def get_field_def le_word_bytes)

lemma ex_installed:
  obtains st a where "sig_run ex_sh st" "sg_pending st = 0" "sg_mask st = 0" "Sig_call (Sigaction 30 a) \<in> set (sg_trace st)" "sa_handler a = sh_handler ex_sh"
proof -
  have ptr: "um_ptr (sg_user ex_start) 0x11800 = Some 0x101800" using ex_sig_user(3) by (simp add: ex_start_def)
  have "sg_fetch 0x11800 32 ex_start = Some (encode_sigaction ex_act)"
    using copy_from_page [OF ptr, of 32] host_read_write [of "encode_sigaction ex_act"]
    by (simp add: sg_fetch_def ex_start_def ex_action_decode)
  then have "sys_rt_sigaction ex_sh 10 0x11800 0 8 ex_start = set_action ex_sh 10 ex_act ex_start"
    by (simp add: sys_rt_sigaction_def ex_action_decode) (simp add: sig_entry_def ex_start_def)
  moreover obtain a st where "set_action ex_sh 10 ex_act ex_start = Inr (0, st)" "sg_pending st = 0" "sg_mask st = 0"
      "Sig_call (Sigaction 30 a) \<in> set (sg_trace st)" "sa_handler a = sh_handler ex_sh"
    using ex_numbers(1) syswrap_pos
    by (simp add: set_action_def Let_def linux_to_darwin_sigaction_def ex_act_def ex_sh_def ex_start_def)
  ultimately show thesis using that sig_run.action [OF ex_start_run] by metis
qed

theorem signals_safe_witness:
  "\<exists>st. sig_run ex_sh st \<and> has_sigpending st \<and> (wake_sighandler ex_sh st = Inl Exited \<or> (\<exists>st'. wake_sighandler ex_sh st = Inr st'))"
proof -
  obtain st a where st: "sig_run ex_sh st" "sg_pending st = 0" "sg_mask st = 0" "Sig_call (Sigaction 30 a) \<in> set (sg_trace st)" "sa_handler a = sh_handler ex_sh"
    by (rule ex_installed)
  have run: "sig_run ex_sh (host_signal_handler 30 st)" by (rule sig_run.arrives [OF st(1,4,5)]) simp_all
  have "has_sigpending (host_signal_handler 30 st)"
    by (simp add: has_sigpending_def host_signal_handler_def ex_numbers sigbit_def st(2,3))
  then show ?thesis using signals_safe [OF run] run by (auto simp: ex_sh_def)
qed

end
