(* ===== verification/DispatchProps.thy ===== *)
theory DispatchProps
  imports SignalRuns
begin

text \<open>
  Properties of the table of system calls and of the loop that runs the guest.
\<close>

section \<open>System calls\<close>

lemma table_numbers: "map fst SYSCALLS = [0..<NR_SYSCALLS]"
  by code_simp

lemma table_length: "length SYSCALLS = NR_SYSCALLS"
  using arg_cong [OF table_numbers, of length] by simp

lemma table_entry:
  assumes "n < NR_SYSCALLS"
  shows "sc_handler_table n = Some (snd (SYSCALLS ! n))"
proof -
  have "map fst (rev SYSCALLS) = rev [0..<NR_SYSCALLS]" using table_numbers by (simp add: rev_map [symmetric])
  then have d: "distinct (map fst (rev SYSCALLS))" by simp
  have n: "n < length SYSCALLS" using assms table_length by simp
  have "fst (SYSCALLS ! n) = n" using arg_cong [OF table_numbers, of "\<lambda>l. l ! n"] n assms by simp
  moreover have "SYSCALLS ! n \<in> set SYSCALLS" using n by simp
  ultimately have "(n, snd (SYSCALLS ! n)) \<in> set (rev SYSCALLS)" by (metis prod.collapse set_rev)
  then show ?thesis using d by (simp add: sc_handler_table_def)
qed

text \<open>
  C24: A system call with a number of the table calls the handler of that number with the six argument
  registers, puts the result into \<open>rax\<close> and goes on after the instruction; after \<open>rt_sigreturn\<close> the loop
  returns if it was told to.
\<close>

theorem syscall_step:
  assumes "syscall_exit ex st" "n < NR_SYSCALLS" "sg_regs st RAX = of_nat n"
    "call_handler h others (snd (SYSCALLS ! n)) (map (sg_regs st) [RDI, RSI, RDX, R10, R8, R9]) st = Inr (retval, st1)"
  shows "handle_exit h others pid return_on_sigret ex st =
    Inr (if return_on_sigret \<and> n = LSYS_rt_sigreturn then Return_on_sigret else Run_guest,
      set_reg RIP (sg_regs st1 RIP + 2) (set_reg RAX retval st1))"
proof -
  have "unat (sg_regs st RAX) = n" using assms(2,3) by (simp add: unat_of_nat)
  then have "handle_syscall h others pid st = Inr (n = LSYS_rt_sigreturn, set_reg RAX retval st1)"
    using assms(2,4) table_entry [OF assms(2)] by (simp add: handle_syscall_def)
  then show ?thesis by (simp add: handle_exit_syscall [OF assms(1)])
qed

text \<open>The program of the example about to execute system call 14 with the set at \<open>0x11800\<close>.\<close>

definition ex_call :: sig_state where
  "ex_call = ex_sig\<lparr>sg_regs := (\<lambda>_. 0)(RIP := 0x11800, RAX := 14, RDI := 5, RSI := 0, R10 := 7)\<rparr>"

lemma ex_call_exit: "syscall_exit ex_ud ex_call"
proof -
  have "sg_fetch 0x11800 2 ex_call = Some [0x0F, 5]" using ex_fetch [of 2] by (simp add: sg_fetch_def ex_call_def upt_rec)
  then show ?thesis by (simp add: syscall_exit_def ex_ud_def is_syscall_def as_int_def ex_call_def le_word_def)
qed

theorem syscall_step_witness:
  "syscall_exit ex_ud ex_call \<and> snd (SYSCALLS ! 14) = ''rt_sigprocmask'' \<and>
    handle_exit ex_sh undefined 1 False ex_ud ex_call = Inr (Run_guest, set_reg RIP 0x11802 (set_reg RAX (- 22) ex_call))"
proof -
  have name: "snd (SYSCALLS ! 14) = ''rt_sigprocmask''" by code_simp
  have "call_handler ex_sh undefined (snd (SYSCALLS ! 14)) (map (sg_regs ex_call) [RDI, RSI, RDX, R10, R8, R9]) ex_call = Inr (- 22, ex_call)"
    by (simp add: name call_handler_def sys_rt_sigprocmask_def int_result_def ex_call_def)
  then show ?thesis
    using syscall_step [OF ex_call_exit, of 14 ex_sh undefined "- 22" ex_call 1 False] ex_call_exit name
    by (simp add: LSYS_rt_sigreturn_def ex_call_def)
qed

section \<open>Errors\<close>

text \<open>
  C39: A system call number beyond the table makes the process send \<open>SIGSYS\<close> to itself.  When the host ends
  the process with that signal, as it does by default, nothing else happens.  Otherwise, when the
  guest catches, ignores or blocks it, the handler is still looked up: the table is read outside of its
  bounds.
\<close>

theorem unknown_syscall_out_of_bounds:
  assumes "syscall_exit ex st" "sg_regs st RAX \<ge> of_nat NR_SYSCALLS"
  shows "handle_exit h others pid return_on_sigret ex st =
    Inl (if sh_fatal h (Kill pid (linux_to_darwin_signal 31)) then Killed else Out_of_bounds)"
proof -
  have "NR_SYSCALLS \<le> unat (sg_regs st RAX)" using assms(2) by (simp add: word_le_nat_alt)
  then have "handle_syscall h others pid st =
      Inl (if sh_fatal h (Kill pid (linux_to_darwin_signal 31)) then Killed else Out_of_bounds)"
    by (simp add: handle_syscall_def send_signal_def Let_def)
  then show ?thesis by (simp add: handle_exit_syscall [OF assms(1)])
qed

theorem unknown_syscall_out_of_bounds_witness:
  "handle_exit ex_sh undefined 1 False ex_ud (set_reg RAX 1000 ex_call) = Inl Out_of_bounds"
proof -
  have "syscall_exit ex_ud (set_reg RAX 1000 ex_call)"
    using ex_call_exit by (simp add: syscall_exit_def is_syscall_def sg_fetch_def)
  then show ?thesis using unknown_syscall_out_of_bounds [of ex_ud "set_reg RAX 1000 ex_call" ex_sh undefined 1 False]
    by (simp add: ex_sh_def)
qed

text \<open>
  A page fault of the guest never reaches a handler of the guest: after \<open>SIGSEGV\<close> has been sent
  the case falls through to those of other exceptions, and the process exits, unless the faulting
  instruction is a system call or needs the AVX state.
\<close>

theorem page_fault_exits:
  assumes "ve_reason ex = VMX_REASON_EXC_NMI" "ve_irq_info ex AND 0x7FF = 0x30E"
    "\<not> is_syscall (ve_instlen ex) (sg_regs st RIP) st" "\<not> is_avx (sg_regs st RIP) st"
  shows "handle_exit h others pid return_on_sigret ex st \<in> {Inl Killed, Inl Exited, Inl Assert_failed}"
proof -
  have "ve_irq_info ex AND 0x700 = (ve_irq_info ex AND 0x7FF) AND 0x700"
    "ve_irq_info ex AND 0xFF = (ve_irq_info ex AND 0x7FF) AND 0xFF" by (simp_all add: and.assoc)
  then have "ve_irq_info ex AND 0x700 = 0x300" "ve_irq_info ex AND 0xFF = 14" by (simp_all add: assms(2))
  moreover have "is_syscall l r (sig_emit e st) = is_syscall l r st" "is_avx r (sig_emit e st) = is_avx r st" for l r e
    by (simp_all add: is_syscall_def is_avx_def sg_fetch_def)
  ultimately show ?thesis using assms(1,3,4)
    by (auto simp: handle_exit_def handle_exception_def handle_ud_def print_and_exit_def send_signal_def Let_def drop_bit_eq_div
        split: option.split)
qed

definition ex_fault :: vm_exit where
  "ex_fault = ex_ud\<lparr>ve_irq_info := 0x8000030E, ve_instlen := 3\<rparr>"

theorem page_fault_exits_witness:
  "handle_exit ex_sh undefined 1 False ex_fault ex_call \<in> {Inl Killed, Inl Exited, Inl Assert_failed}"
proof -
  have "sg_fetch 0x11800 1 ex_call = Some [0x0F]" using ex_fetch [of 1] by (simp add: sg_fetch_def ex_call_def)
  then have "\<not> is_avx (sg_regs ex_call RIP) ex_call" by (simp add: is_avx_def ex_call_def le_word_def)
  then show ?thesis by (intro page_fault_exits) (simp_all add: ex_fault_def ex_ud_def is_syscall_def as_int_def)
qed

text \<open>
  The check after a failed entry contradicts itself for a guest in long mode: the field of \<open>EFER\<close> must be zero
  and have the bit of long mode.  The test for a failed entry is that of a common bit with its reason, 33, so
  an exit for an access to a model-specific register (31 and 32) ends the process too.
\<close>

theorem entry_check_fails:
  assumes "get_bit (vmcs ''VMCS_CTRL_VMENTRY_CONTROLS'') 9 \<noteq> 0" "get_bit (vmcs ''VMCS_CTRL_VMENTRY_CONTROLS'') 15 \<noteq> 0"
  shows "check_vm_entry vmcs = Inl Assert_failed"
proof -
  have "get_bit 0 10 = 0" by (simp add: get_bit_def)
  then show ?thesis using assms by (auto simp: check_vm_entry_def Let_def)
qed

theorem msr_exit_fails:
  assumes "ve_reason ex \<in> {31, 32, 33, 0x80000021}"
    and "get_bit (ve_vmcs ex ''VMCS_CTRL_VMENTRY_CONTROLS'') 9 \<noteq> 0" "get_bit (ve_vmcs ex ''VMCS_CTRL_VMENTRY_CONTROLS'') 15 \<noteq> 0"
  shows "handle_exit h others pid return_on_sigret ex st = Inl Assert_failed"
  using assms(1) entry_check_fails [of "ve_vmcs ex", OF assms(2,3)] by (auto simp: handle_exit_def handle_other_def)

end
