(* ===== verification/Process.thy ===== *)
theory Process
  imports Futex
begin

text \<open>
  Processes, \<open>src/proc/process.c\<close>: credentials, limits, the end of a thread and of the process, waiting
  for children, and the calls that are handed to the host.  The memory of the guest is the one of the
  futexes, which \<open>exit\<close> wakes.  What the host answers and stores is an argument.
\<close>

section \<open>State\<close>

record cred =
  c_uid :: flags
  c_euid :: flags
  c_suid :: flags

datatype proc_call = Getpid | Getuid | Getgid | Setgid flags | Getegid | Setregid flags flags | Setsid | Setpgid int int
  | Getppid | Getpgrp | Getpgid int | Getsid int | Getgroups int | Setgroups int "byte list" | Setruid flags | Seteuid flags
  | Getrlimit int | Gethostname | Wait4 int flags | Getrusage int | Getpriority int int | Setpriority int int int
  | Setname "byte list"

record proc_state =
  p_cred :: cred
  p_fx :: futex_state
  p_tid :: "64 word"
  p_clear_child_tid :: gaddr
  p_robust_list :: gaddr
  p_fs_base :: "64 word"
  p_gs_base :: "64 word"
  p_nr_tasks :: nat
  p_trace :: "proc_call list"

record proc_host =
  ph_answer :: "proc_call \<Rightarrow> int \<times> int"
  ph_bytes :: "proc_call \<Rightarrow> byte list"
  ph_rlimit :: "proc_call \<Rightarrow> rlimit"
  ph_status :: "proc_call \<Rightarrow> flags"
  ph_usage :: "proc_call \<Rightarrow> 64 word list"
  ph_alloc :: "nat \<Rightarrow> bool"
  ph_junk :: "nat \<Rightarrow> byte"

type_synonym 'a pr = "proc_state \<Rightarrow> ('a \<times> proc_state) run"

definition p_call :: "proc_call \<Rightarrow> proc_state \<Rightarrow> proc_state" where
  "p_call c st = st\<lparr>p_trace := p_trace st @ [c]\<rparr>"

definition wrapped :: "proc_host \<Rightarrow> proc_call \<Rightarrow> int" where
  "wrapped h c = syswrap (fst (ph_answer h c)) (snd (ph_answer h c))"

definition host_call :: "proc_host \<Rightarrow> proc_call \<Rightarrow> int pr" where
  "host_call h c st = Inr (wrapped h c, p_call c st)"

definition p_fetch :: "gaddr \<Rightarrow> nat \<Rightarrow> proc_state \<Rightarrow> byte list option" where
  "p_fetch a n st = user_bytes a n (p_fx st)"

definition p_store :: "gaddr \<Rightarrow> byte list \<Rightarrow> proc_state \<Rightarrow> bool \<times> proc_state" where
  "p_store a bs st = (case copy_to_user (fx_user (p_fx st)) a bs of (rest, u) \<Rightarrow>
     (rest = 0, st\<lparr>p_fx := (p_fx st)\<lparr>fx_user := u\<rparr>\<rparr>))"

text \<open>The end of a handler that copies a result out.\<close>

definition p_result :: "gaddr \<Rightarrow> byte list \<Rightarrow> int \<Rightarrow> int pr" where
  "p_result a bs r st = (case p_store a bs st of (fine, st') \<Rightarrow> Inr (if fine then r else - LINUX_EFAULT, st'))"

section \<open>Credentials\<close>

text \<open>An argument of all ones leaves the number as it is.\<close>

definition can_setresxid :: "cred \<Rightarrow> flags \<Rightarrow> bool" where
  "can_setresxid c i \<longleftrightarrow> c_euid c = 0 \<or> c_euid c = i \<or> c_uid c = i \<or> c_suid c = i"

definition set_ruid :: "proc_host \<Rightarrow> flags \<Rightarrow> int pr" where
  "set_ruid h ruid st =
    (if ruid = - 1 then Inr (0, st)
     else if \<not> can_setresxid (p_cred st) ruid then Inr (- LINUX_EPERM, st)
     else if ruid \<noteq> 0 \<and> c_euid (p_cred st) \<noteq> 0 then Inl Panicked
     else
       let st1 = p_call (Setruid ruid) (st\<lparr>p_cred := (p_cred st)\<lparr>c_uid := ruid\<rparr>\<rparr>) in
       if wrapped h (Setruid ruid) < 0 then Inl Panicked else Inr (0, st1))"

definition set_euid :: "proc_host \<Rightarrow> flags \<Rightarrow> int pr" where
  "set_euid h euid st =
    (let c = p_cred st in
     if euid = - 1 then Inr (0, st)
     else if \<not> can_setresxid c euid then Inr (- LINUX_EPERM, st)
     else if c_euid c \<noteq> 0 \<and> euid \<noteq> c_uid c \<and> c_suid c \<noteq> 0 then Inl (if euid = c_suid c then Panicked else Assert_failed)
     else
       let st1 = p_call (Seteuid euid) (st\<lparr>p_cred := c\<lparr>c_euid := euid\<rparr>\<rparr>) in
       if wrapped h (Seteuid euid) < 0 then Inl Panicked else Inr (0, st1))"

definition set_suid :: "flags \<Rightarrow> int pr" where
  "set_suid suid st =
    (if suid = - 1 then Inr (0, st)
     else if \<not> can_setresxid (p_cred st) suid then Inr (- LINUX_EPERM, st)
     else Inr (0, st\<lparr>p_cred := (p_cred st)\<lparr>c_suid := suid\<rparr>\<rparr>))"

definition do_setresuid :: "proc_host \<Rightarrow> flags \<Rightarrow> flags \<Rightarrow> flags \<Rightarrow> int pr" where
  "do_setresuid h ruid euid suid st =
    bind_run (set_ruid h ruid st) (\<lambda>(r, st1). if r \<noteq> 0 then Inr (r, st1) else
    bind_run (set_euid h euid st1) (\<lambda>(r, st2). if r \<noteq> 0 then Inr (r, st2) else set_suid suid st2))"

definition sys_setresuid :: "proc_host \<Rightarrow> flags \<Rightarrow> flags \<Rightarrow> flags \<Rightarrow> int pr" where
  "sys_setresuid h ruid euid suid = do_setresuid h ruid euid suid"

definition sys_setuid :: "proc_host \<Rightarrow> flags \<Rightarrow> int pr" where
  "sys_setuid h uid st =
    (let c = p_cred st in
     if uid = - 1 then Inr (- LINUX_EINVAL, st)
     else if c_euid c = 0 then do_setresuid h uid uid uid st
     else if c_uid c \<noteq> uid \<and> c_suid c \<noteq> uid then Inr (- LINUX_EPERM, st)
     else do_setresuid h (- 1) uid (- 1) st)"

definition sys_getuid :: "int pr" where
  "sys_getuid st = Inr (sint (c_uid (p_cred st)), st)"

definition sys_geteuid :: "int pr" where
  "sys_geteuid st = Inr (sint (c_euid (p_cred st)), st)"

definition sys_getresuid :: "gaddr \<Rightarrow> gaddr \<Rightarrow> gaddr \<Rightarrow> int pr" where
  "sys_getresuid ruid euid suid st =
    (let c = p_cred st in
     case p_store ruid (le_bytes 4 (c_uid c)) st of (fine, st1) \<Rightarrow>
       if \<not> fine then Inr (- LINUX_EFAULT, st1)
       else case p_store euid (le_bytes 4 (c_euid c)) st1 of (fine, st2) \<Rightarrow>
         if \<not> fine then Inr (- LINUX_EFAULT, st2) else p_result suid (le_bytes 4 (c_suid c)) 0 st2)"

text \<open>\<open>elevate_privilege\<close> of \<open>src/main.c\<close>, for a program with the set-user-ID bit, and \<open>drop_privilege\<close>.\<close>

definition elevate_privilege :: "proc_host \<Rightarrow> proc_state \<Rightarrow> proc_state run" where
  "elevate_privilege h st =
    (if fst (ph_answer h (Seteuid 0)) \<noteq> 0 then Inl Panicked
     else Inr (p_call (Seteuid 0) (st\<lparr>p_cred := (p_cred st)\<lparr>c_euid := 0, c_suid := 0\<rparr>\<rparr>)))"

definition drop_privilege :: "proc_host \<Rightarrow> proc_state \<Rightarrow> proc_state run" where
  "drop_privilege h st =
    (let c = Seteuid (word_of_int (fst (ph_answer h Getuid))) in
     if fst (ph_answer h c) \<noteq> 0 then Inl Panicked else Inr (p_call c (p_call Getuid st)))"

section \<open>Groups, sessions and priorities\<close>

definition sys_setresgid :: "proc_host \<Rightarrow> flags \<Rightarrow> flags \<Rightarrow> flags \<Rightarrow> int pr" where
  "sys_setresgid h rgid egid sgid = host_call h (Setregid rgid egid)"

definition sys_getresgid :: "proc_host \<Rightarrow> gaddr \<Rightarrow> gaddr \<Rightarrow> gaddr \<Rightarrow> int pr" where
  "sys_getresgid h rgid egid sgid st =
    (let img = \<lambda>c. le_bytes 4 (word_of_int (fst (ph_answer h c)) :: 32 word) in
     case p_store rgid (img Getgid) (p_call Getgid st) of (fine, st1) \<Rightarrow>
       if \<not> fine then Inr (- LINUX_EFAULT, st1)
       else case p_store egid (img Getegid) (p_call Getegid st1) of (fine, st2) \<Rightarrow>
         if \<not> fine then Inr (- LINUX_EFAULT, st2) else p_result sgid (img Getgid) 0 (p_call Getgid st2))"

text \<open>
  The size of the buffer is the product as a \<open>size_t\<close>.  \<open>getgroups\<close> copies all of it, with what
  \<open>malloc\<close> left behind the groups that the host stored.
\<close>

definition group_bytes :: "int \<Rightarrow> nat" where
  "group_bytes gidsetsize = unat (word_of_int gidsetsize * 4 :: 64 word)"

definition sys_getgroups :: "proc_host \<Rightarrow> int \<Rightarrow> gaddr \<Rightarrow> int pr" where
  "sys_getgroups h gidsetsize grouplist_ptr st =
    (let c = Getgroups gidsetsize; n = group_bytes gidsetsize; st1 = p_call c st; r = wrapped h c in
     if r < 0 then Inr (r, st1)
     else if n \<noteq> 0 \<and> \<not> ph_alloc h n then Inl Null_deref
     else p_result grouplist_ptr (take n (ph_bytes h c @ map (ph_junk h) [length (ph_bytes h c)..<n])) r st1)"

definition sys_setgroups :: "proc_host \<Rightarrow> int \<Rightarrow> gaddr \<Rightarrow> int pr" where
  "sys_setgroups h gidsetsize grouplist_ptr st =
    (let n = group_bytes gidsetsize in
     if n \<noteq> 0 \<and> \<not> ph_alloc h n then
       (if um_ptr (fx_user (p_fx st)) grouplist_ptr = None then Inr (- LINUX_EFAULT, st) else Inl Null_deref)
     else case p_fetch grouplist_ptr n st of
       None \<Rightarrow> Inr (- LINUX_EFAULT, st)
     | Some gl \<Rightarrow> host_call h (Setgroups gidsetsize gl) st)"

definition sys_sched_getaffinity :: "flags \<Rightarrow> gaddr \<Rightarrow> int pr" where
  "sys_sched_getaffinity len user_mask_ptr st =
    (if len < 32 then Inr (- LINUX_EINVAL, st) else p_result user_mask_ptr (1 # replicate 31 0) 32 st)"

text \<open>Calls that only hand their arguments to the host, or do nothing.\<close>

definition sys_getpid :: "proc_host \<Rightarrow> int pr" where
  "sys_getpid h = host_call h Getpid"

definition sys_getgid :: "proc_host \<Rightarrow> int pr" where
  "sys_getgid h = host_call h Getgid"

definition sys_setgid :: "proc_host \<Rightarrow> flags \<Rightarrow> int pr" where
  "sys_setgid h gid = host_call h (Setgid gid)"

definition sys_getegid :: "proc_host \<Rightarrow> int pr" where
  "sys_getegid h = host_call h Getegid"

definition sys_setsid :: "proc_host \<Rightarrow> int pr" where
  "sys_setsid h = host_call h Setsid"

definition sys_setpgid :: "proc_host \<Rightarrow> int \<Rightarrow> int \<Rightarrow> int pr" where
  "sys_setpgid h pid pgid = host_call h (Setpgid pid pgid)"

definition sys_getppid :: "proc_host \<Rightarrow> int pr" where
  "sys_getppid h = host_call h Getppid"

definition sys_getpgrp :: "proc_host \<Rightarrow> int pr" where
  "sys_getpgrp h = host_call h Getpgrp"

definition sys_getpgid :: "proc_host \<Rightarrow> int \<Rightarrow> int pr" where
  "sys_getpgid h pid = host_call h (Getpgid pid)"

definition sys_getsid :: "proc_host \<Rightarrow> int \<Rightarrow> int pr" where
  "sys_getsid h pid = host_call h (Getsid pid)"

definition sys_getpriority :: "proc_host \<Rightarrow> int \<Rightarrow> int \<Rightarrow> int pr" where
  "sys_getpriority h which who = host_call h (Getpriority which who)"

definition sys_setpriority :: "proc_host \<Rightarrow> int \<Rightarrow> int \<Rightarrow> int \<Rightarrow> int pr" where
  "sys_setpriority h which who niceval = host_call h (Setpriority which who niceval)"

definition sys_gettid :: "(64 word) pr" where
  "sys_gettid st = Inr (p_tid st, st)"

definition sys_setrlimit :: "int \<Rightarrow> gaddr \<Rightarrow> int pr" where
  "sys_setrlimit resource rlim st = Inr (- LINUX_ENOSYS, st)"

definition sys_tgkill :: "int pr" where
  "sys_tgkill st = Inr (- LINUX_ENOSYS, st)"

definition sys_capget :: "gaddr \<Rightarrow> gaddr \<Rightarrow> int pr" where
  "sys_capget header_ptr data_ptr st = Inr (0, st)"

section \<open>Limits and names\<close>

definition linux_to_darwin_rlimopts :: "int \<Rightarrow> int" where
  "linux_to_darwin_rlimopts l_resource =
    (case map_of [(0, 0), (1, 1), (2, 2), (3, 3), (4, 4), (5, 5), (6, 7), (7, 8), (8, 6), (9, 5)] l_resource of
       None \<Rightarrow> 0 | Some r \<Rightarrow> r)"

definition sys_getrlimit :: "proc_host \<Rightarrow> int \<Rightarrow> gaddr \<Rightarrow> int pr" where
  "sys_getrlimit h l_resource rl_ptr st =
    (if l_resource \<ge> 10 then Inr (- LINUX_EINVAL, st)
     else
       let resource = linux_to_darwin_rlimopts l_resource; c = Getrlimit resource; r = wrapped h c; st1 = p_call c st in
       if r < 0 then Inr (r, st1)
       else
         let l = darwin_to_linux_rlimit resource (ph_rlimit h c) in
         p_result rl_ptr (le_bytes 8 (rlim_cur l) @ le_bytes 8 (rlim_max l)) r st1)"

text \<open>A string in an array of 65 bytes; \<open>strncpy\<close> fills 64 of them.\<close>

definition name_field :: "proc_host \<Rightarrow> byte list \<Rightarrow> byte list" where
  "name_field h s = take 64 (s @ replicate 64 0) @ [ph_junk h 0]"

definition c_string :: "string \<Rightarrow> byte list" where
  "c_string s = map of_char s"

definition sys_uname :: "proc_host \<Rightarrow> gaddr \<Rightarrow> int pr" where
  "sys_uname h buf_ptr st =
    (let st1 = p_call Gethostname st; err = wrapped h Gethostname in
     if err < 0 then Inr (err, st1)
     else p_result buf_ptr (name_field h (c_string ''Linux'') @ name_field h (ph_bytes h Gethostname) @
       name_field h (c_string ''4.6.4'') @ name_field h (c_string ''#1 SMP PREEMPT Mon Jul 11 19:12:32 CEST 2016'') @
       name_field h (c_string ''x86_64'') @ name_field h (c_string ''GNU/Linux'')) 0 st1)"

definition sys_prctl :: "proc_host \<Rightarrow> int \<Rightarrow> 64 word \<Rightarrow> int pr" where
  "sys_prctl h option arg1 st =
    (if option = 15 then
       (case p_fetch arg1 16 st of
          None \<Rightarrow> Inr (- LINUX_EFAULT, st)
        | Some buf \<Rightarrow> Inr (0, p_call (Setname (buf[15 := 0])) st))
     else Inr (- LINUX_EINVAL, st))"

definition sys_arch_prctl :: "int \<Rightarrow> gaddr \<Rightarrow> int pr" where
  "sys_arch_prctl code addr st =
    (if code = 0x1001 then Inr (0, st\<lparr>p_gs_base := addr\<rparr>)
     else if code = 0x1002 then Inr (0, st\<lparr>p_fs_base := addr\<rparr>)
     else if code = 0x1003 then p_result addr (le_bytes 8 (p_fs_base st)) 0 st
     else if code = 0x1004 then p_result addr (le_bytes 8 (p_gs_base st)) 0 st
     else Inr (- LINUX_EINVAL, st))"

definition sys_set_tid_address :: "gaddr \<Rightarrow> (64 word) pr" where
  "sys_set_tid_address tidptr st = Inr (p_tid st, st\<lparr>p_clear_child_tid := tidptr\<rparr>)"

definition sys_set_robust_list :: "gaddr \<Rightarrow> 64 word \<Rightarrow> int pr" where
  "sys_set_robust_list head len st = (if len \<noteq> 24 then Inr (- 22, st) else Inr (0, st\<lparr>p_robust_list := head\<rparr>))"

section \<open>The end of a thread\<close>

datatype ending = Back int | Thread_gone | Process_gone int

text \<open>The word at \<open>clear_child_tid\<close> is zeroed and one waiter is woken.\<close>

definition clear_tid :: "proc_state \<Rightarrow> (bool \<times> proc_state) run" where
  "clear_tid st =
    (let a = p_clear_child_tid st in
     if a = 0 then Inr (True, st)
     else case p_store a (le_bytes 4 (0 :: 32 word)) st of (fine, st1) \<Rightarrow>
       if \<not> fine then Inr (False, st1)
       else bind_run (do_futex_wake a 1 (p_fx st1)) (\<lambda>(_, fx). Inr (True, st1\<lparr>p_fx := fx\<rparr>)))"

definition sys_exit :: "int \<Rightarrow> ending pr" where
  "sys_exit reason st =
    bind_run (clear_tid st) (\<lambda>(fine, st1).
      if \<not> fine then Inr (Back (- LINUX_EFAULT), st1)
      else if p_nr_tasks st1 = 1 then Inr (Process_gone reason, st1)
      else Inr (Thread_gone, st1\<lparr>p_nr_tasks := p_nr_tasks st1 - 1\<rparr>))"

definition sys_exit_group :: "int \<Rightarrow> ending pr" where
  "sys_exit_group reason st =
    bind_run (clear_tid st) (\<lambda>(fine, st1). Inr (if fine then Process_gone reason else Back (- LINUX_EFAULT), st1))"

section \<open>Children\<close>

text \<open>\<open>WNOHANG\<close>, \<open>WUNTRACED\<close>, \<open>WCONTINUED\<close> and \<open>WEXITED\<close>.\<close>

definition wait_table :: "(flags \<times> flags) list" where
  "wait_table = [(0x1, 0x1), (0x2, 0x2), (0x8, 0x10), (0x4, 0x4)]"

definition linux_to_darwin_waitopts :: "flags \<Rightarrow> flags" where
  "linux_to_darwin_waitopts opts = flag_conv wait_table opts 0"

text \<open>The macros of Darwin's \<open>sys/wait.h\<close>.\<close>

definition WIFEXITED :: "flags \<Rightarrow> bool" where
  "WIFEXITED s \<longleftrightarrow> s AND 0x7F = 0"

definition WIFSIGNALED :: "flags \<Rightarrow> bool" where
  "WIFSIGNALED s \<longleftrightarrow> s AND 0x7F \<noteq> 0x7F \<and> s AND 0x7F \<noteq> 0"

definition WIFSTOPPED :: "flags \<Rightarrow> bool" where
  "WIFSTOPPED s \<longleftrightarrow> s AND 0x7F = 0x7F \<and> sint s div 256 \<noteq> 0x13"

definition linux_status :: "flags \<Rightarrow> flags" where
  "linux_status status =
    (if WIFEXITED status then push_bit 8 (drop_bit 8 status AND 0xFF)
     else if WIFSIGNALED status then
       (let st = word_of_int (darwin_to_linux_signal (uint (status AND 0x7F))) in
        if status AND 0x80 \<noteq> 0 then st OR 0x80 else st)
     else if WIFSTOPPED status then push_bit 8 (word_of_int (darwin_to_linux_signal (sint status div 256))) OR 0x7F
     else 0)"

definition sys_wait4 :: "proc_host \<Rightarrow> int \<Rightarrow> gaddr \<Rightarrow> flags \<Rightarrow> gaddr \<Rightarrow> int pr" where
  "sys_wait4 h pid status_ptr options rusage_ptr st =
    (let c = Wait4 pid (linux_to_darwin_waitopts options); ret = wrapped h c; st1 = p_call c st in
     if ret < 0 then Inr (ret, st1)
     else case (if rusage_ptr \<noteq> 0 then p_store rusage_ptr (ph_bytes h c) st1 else (True, st1)) of (fine, st2) \<Rightarrow>
       if \<not> fine then Inr (- LINUX_EFAULT, st2)
       else if status_ptr \<noteq> 0 then p_result status_ptr (le_bytes 4 (linux_status (ph_status h c))) ret st2
       else Inr (ret, st2))"

text \<open>The 18 fields of a \<open>struct rusage\<close>, in the order that both systems have.\<close>

definition darwin_to_linux_rusage :: "64 word list \<Rightarrow> 64 word list" where
  "darwin_to_linux_rusage ru = map (\<lambda>i. ru ! i) [0..<18]"

definition sys_getrusage :: "proc_host \<Rightarrow> int \<Rightarrow> gaddr \<Rightarrow> int pr" where
  "sys_getrusage h who rusage_ptr st =
    (let c = Getrusage who; r = wrapped h c; st1 = p_call c st in
     if r < 0 then Inr (r, st1)
     else p_result rusage_ptr (concat (map (le_bytes 8) (darwin_to_linux_rusage (ph_usage h c)))) 0 st1)"

end
