(* ===== verification/Exec.thy ===== *)
theory Exec
  imports PathCalls Signal Process
begin

text \<open>
  Starting a program, \<open>src/proc/exec.c\<close>: the segments of an ELF file, its interpreter, scripts, the
  stack of the new program and \<open>execve\<close>.  The state puts those of the parts that are involved
  together; the memory of the guest is the one of \<open>x_kern\<close>.  The host's files, the memory that its
  \<open>mmap\<close> yields, which depends on the calls made before, and the random bytes are arguments.
\<close>

section \<open>State\<close>

record exec_state =
  x_kern :: kern
  x_calls :: "host_call list"
  x_sig :: sig_state
  x_proc :: proc_state
  x_ldtr :: "64 word"
  x_fpu :: "byte list"

record exec_host =
  xh_fs :: host
  xh_sig :: sig_host
  xh_proc :: proc_host
  xh_mmap :: "host_call list \<Rightarrow> host_mmap"
  xh_hv_map :: hv_map
  xh_mode :: "int \<Rightarrow> flags"
  xh_data :: "int \<Rightarrow> byte list"
  xh_random :: "byte list"
  xh_stack :: "byte list"

type_synonym 'a xr = "exec_state \<Rightarrow> ('a \<times> exec_state) run"

definition x_user :: "exec_state \<Rightarrow> user_mem" where
  "x_user st = k_user (x_kern st)"

definition set_user :: "user_mem \<Rightarrow> exec_state \<Rightarrow> exec_state" where
  "set_user u st = st\<lparr>x_kern := (x_kern st)\<lparr>k_user := u\<rparr>\<rparr>"

definition x_reg :: "reg \<Rightarrow> 64 word \<Rightarrow> exec_state \<Rightarrow> exec_state" where
  "x_reg r v st = st\<lparr>x_sig := set_reg r v (x_sig st)\<rparr>"

definition x_bind :: "'a xr \<Rightarrow> ('a \<Rightarrow> 'b xr) \<Rightarrow> 'b xr" where
  "x_bind m f st = bind_run (m st) (\<lambda>(x, st'). f x st')"

text \<open>A handler of files on the part of the state that it acts on.\<close>

definition on_kern :: "'a act \<Rightarrow> 'a xr" where
  "on_kern m st = bind_run (m (x_kern st)) (\<lambda>(x, k). Inr (x, st\<lparr>x_kern := k\<rparr>))"

text \<open>
  A private anonymous mapping at a fixed address.  The memory that the host yields holds zeros.  The
  callers ignore the result.
\<close>

definition zeroed :: "haddr \<Rightarrow> 64 word \<Rightarrow> (haddr \<Rightarrow> byte) \<Rightarrow> haddr \<Rightarrow> byte" where
  "zeroed p n mem = (\<lambda>x. if x - p < n then 0 else mem x)"

definition x_mmap :: "exec_host \<Rightarrow> gaddr \<Rightarrow> 64 word \<Rightarrow> flags \<Rightarrow> unit xr" where
  "x_mmap h addr len l_prot st =
    (let u = x_user st; fls = LINUX_MAP_PRIVATE OR LINUX_MAP_FIXED OR LINUX_MAP_ANON; hm = xh_mmap h (x_calls st) in
     bind_run (do_mmap hm (xh_hv_map h) addr len 3 l_prot fls (- 1) 0 \<lparr>vm_mm = um_proc u, vm_calls = x_calls st\<rparr>) (\<lambda>(_, v).
       let mem = (case hm (roundup len 0x1000) 3 (linux_to_darwin_mflags fls) (- 1) 0 of
                    Inl _ \<Rightarrow> um_host u
                  | Inr p \<Rightarrow> zeroed p (roundup len 0x1000) (um_host u)) in
       Inr ((), (set_user (u\<lparr>um_proc := vm_mm v, um_host := mem\<rparr>) st)\<lparr>x_calls := vm_calls v\<rparr>)))"

definition x_copy :: "gaddr \<Rightarrow> byte list \<Rightarrow> exec_state \<Rightarrow> exec_state" where
  "x_copy a bs st = set_user (snd (copy_to_user (x_user st) a bs)) st"

section \<open>ELF files\<close>

text \<open>
  The bytes of a mapped file: the last page is filled up with zeros, and an access behind it leaves
  the mapping.
\<close>

definition file_image :: "byte list \<Rightarrow> byte list" where
  "file_image data = data @ replicate ((4096 - length data mod 4096) mod 4096) 0"

record elf_header =
  e_type :: "16 word"
  e_machine :: "16 word"
  e_entry :: "64 word"
  e_phoff :: "64 word"
  e_phentsize :: "16 word"
  e_phnum :: "16 word"

definition read_ehdr :: "byte list \<Rightarrow> elf_header run" where
  "read_ehdr img =
    (if length img < 64 then Inl Out_of_bounds
     else Inr \<lparr>e_type = le_word (get_field 16 2 img), e_machine = le_word (get_field 18 2 img),
       e_entry = le_word (get_field 24 8 img), e_phoff = le_word (get_field 32 8 img),
       e_phentsize = le_word (get_field 54 2 img), e_phnum = le_word (get_field 56 2 img)\<rparr>)"

record prog_header =
  p_type :: "32 word"
  p_flags :: "32 word"
  p_offset :: "64 word"
  p_vaddr :: "64 word"
  p_filesz :: "64 word"
  p_memsz :: "64 word"

definition read_phdr :: "byte list \<Rightarrow> 64 word \<Rightarrow> nat \<Rightarrow> prog_header run" where
  "read_phdr img phoff i =
    (let o' = unat (phoff + of_nat (56 * i)); b = get_field o' 56 img in
     if length img < o' + 56 then Inl Out_of_bounds
     else Inr \<lparr>p_type = le_word (get_field 0 4 b), p_flags = le_word (get_field 4 4 b), p_offset = le_word (get_field 8 8 b),
       p_vaddr = le_word (get_field 16 8 b), p_filesz = le_word (get_field 32 8 b), p_memsz = le_word (get_field 40 8 b)\<rparr>)"

abbreviation (input) LINUX_O_RDONLY :: flags where "LINUX_O_RDONLY \<equiv> 0"
abbreviation (input) PT_LOAD :: "32 word" where "PT_LOAD \<equiv> 1"
abbreviation (input) PT_INTERP :: "32 word" where "PT_INTERP \<equiv> 3"
abbreviation (input) ET_EXEC :: "16 word" where "ET_EXEC \<equiv> 2"
abbreviation (input) ET_DYN :: "16 word" where "ET_DYN \<equiv> 3"
abbreviation (input) EM_X86_64 :: "16 word" where "EM_X86_64 \<equiv> 62"

definition is_elf :: "byte list \<Rightarrow> bool" where
  "is_elf data \<longleftrightarrow> take 4 data = [0x7F, 0x45, 0x4C, 0x46]"

definition elf_prot :: "32 word \<Rightarrow> flags" where
  "elf_prot fls = (if fls AND 1 \<noteq> 0 then LINUX_PROT_EXEC else 0) OR (if fls AND 2 \<noteq> 0 then LINUX_PROT_WRITE else 0) OR
     (if fls AND 4 \<noteq> 0 then LINUX_PROT_READ else 0)"

text \<open>One segment: its pages are mapped and the bytes of the file are copied; the result is its end.\<close>

definition load_segment :: "exec_host \<Rightarrow> byte list \<Rightarrow> 64 word \<Rightarrow> prog_header \<Rightarrow> (64 word) xr" where
  "load_segment h img base p st =
    (let va = p_vaddr p + base; vaddr = va AND NOT 0xFFF; offset = va AND 0xFFF; sz = roundup (p_memsz p + offset) 0x1000 in
     if vaddr = 0 then Inl Assert_failed
     else bind_run (x_mmap h vaddr sz (elf_prot (p_flags p)) st) (\<lambda>(_, st1).
       let n = unat (p_filesz p); bs = take n (drop (unat (p_offset p)) img);
           st2 = x_copy (vaddr + offset) bs st1 in
       if length bs < n \<and> fst (copy_to_user (x_user st1) (vaddr + offset) bs) = 0 then Inl Out_of_bounds
       else Inr (roundup (vaddr + sz) 0x1000, st2)))"

text \<open>The loop over the program headers: the highest end, and the first address less its file offset.\<close>

fun load_segments :: "exec_host \<Rightarrow> byte list \<Rightarrow> 64 word \<Rightarrow> 64 word \<Rightarrow> nat list \<Rightarrow> 64 word \<Rightarrow> (64 word) option \<Rightarrow>
    (64 word \<times> (64 word) option) xr" where
  "load_segments h img phoff base [] map_top load_base st = Inr ((map_top, load_base), st)"
| "load_segments h img phoff base (i # js) map_top load_base st =
    bind_run (read_phdr img phoff i) (\<lambda>p.
      if p_type p \<noteq> PT_LOAD then load_segments h img phoff base js map_top load_base st
      else bind_run (load_segment h img base p st) (\<lambda>(top, st1).
        load_segments h img phoff base js (max map_top top)
          (case load_base of None \<Rightarrow> Some (p_vaddr p - p_offset p + base) | Some b \<Rightarrow> Some b) st1))"

fun find_interp :: "byte list \<Rightarrow> 64 word \<Rightarrow> nat list \<Rightarrow> prog_header option run" where
  "find_interp img phoff [] = Inr None"
| "find_interp img phoff (i # js) =
    bind_run (read_phdr img phoff i) (\<lambda>p. if p_type p = PT_INTERP then Inr (Some p) else find_interp img phoff js)"

definition set_start :: "64 word \<Rightarrow> gaddr \<Rightarrow> exec_state \<Rightarrow> exec_state" where
  "set_start entry brk st =
    (let u = x_user st in x_reg RIP entry (set_user (u\<lparr>um_proc := (um_proc u)\<lparr>start_brk := brk\<rparr>\<rparr>) st))"

definition load_elf_interp :: "exec_host \<Rightarrow> path \<Rightarrow> 64 word \<Rightarrow> int xr" where
  "load_elf_interp h path load_addr =
    x_bind (on_kern (vkern_open (xh_fs h) path LINUX_O_RDONLY 0)) (\<lambda>fd.
      if fd < 0 then (\<lambda>st. Inr (- 1, st))
      else
        let data = xh_data h fd; img = file_image data in
        x_bind (on_kern (vkern_close (xh_fs h) fd)) (\<lambda>_ st.
          if img = [] then Inl Out_of_bounds
          else if \<not> is_elf img then Inl Assert_failed
          else bind_run (read_ehdr img) (\<lambda>e.
            if e_type e \<noteq> ET_EXEC \<and> e_type e \<noteq> ET_DYN \<or> e_machine e \<noteq> EM_X86_64 then Inr (- LINUX_ENOEXEC, st)
            else bind_run (load_segments h img (e_phoff e) load_addr [0..<unat (e_phnum e)] 0 None st) (\<lambda>((map_top, _), st1).
              Inr (0, set_start (load_addr + e_entry e) map_top st1)))))"

section \<open>The stack of a new program\<close>

abbreviation (input) STACK_TOP :: gaddr where "STACK_TOP \<equiv> 0x7fc0000000"
abbreviation (input) STACK_SIZE :: "64 word" where "STACK_SIZE \<equiv> 0x200000"

definition rsp_of :: "exec_state \<Rightarrow> 64 word" where
  "rsp_of st = sg_regs (x_sig st) RSP"

definition push :: "byte list \<Rightarrow> exec_state \<Rightarrow> exec_state" where
  "push bs st = (let rsp = rsp_of st - roundup (of_nat (length bs)) 8 in x_copy rsp bs (x_reg RSP rsp st))"

definition push_word :: "64 word \<Rightarrow> exec_state \<Rightarrow> exec_state" where
  "push_word w = push (le_bytes 8 w)"

text \<open>The pointers to strings, from the last one down; each is compared with the buffer.\<close>

fun push_ptrs :: "byte list \<Rightarrow> 64 word \<Rightarrow> path list \<Rightarrow> 64 word \<Rightarrow> exec_state \<Rightarrow> exec_state run" where
  "push_ptrs buf args_start [] ptr st = Inr st"
| "push_ptrs buf args_start (s # ss) ptr st =
    (let ptr' = ptr - of_nat (length s + 1) in
     if take (length s + 1) (drop (unat (ptr' - args_start)) buf) \<noteq> s @ [0] then Inl Assert_failed
     else push_ptrs buf args_start ss ptr' (push_word ptr' st))"

definition string_block :: "path list \<Rightarrow> byte list" where
  "string_block ss = concat (map (\<lambda>s. s @ [0]) ss)"

text \<open>\<open>AT_BASE\<close>, \<open>AT_ENTRY\<close>, \<open>AT_PHDR\<close>, \<open>AT_PHENT\<close>, \<open>AT_PHNUM\<close>, \<open>AT_PAGESZ\<close>, \<open>AT_RANDOM\<close> and \<open>AT_NULL\<close>.\<close>

definition auxv :: "64 word \<Rightarrow> elf_header \<Rightarrow> 64 word \<Rightarrow> 64 word \<Rightarrow> 64 word \<Rightarrow> (64 word \<times> 64 word) list" where
  "auxv exe_base e global_offset interp_base rand_ptr =
    [(7, interp_base), (9, e_entry e + global_offset), (3, exe_base + e_phoff e), (4, ucast (e_phentsize e)),
     (5, ucast (e_phnum e)), (6, 0x1000), (25, rand_ptr), (0, 0)]"

definition auxv_bytes :: "(64 word \<times> 64 word) list \<Rightarrow> byte list" where
  "auxv_bytes aux = concat (map (\<lambda>(t, v). le_bytes 8 t @ le_bytes 8 v) aux)"

definition init_userstack :: "exec_host \<Rightarrow> path list \<Rightarrow> path list \<Rightarrow> 64 word \<Rightarrow> elf_header \<Rightarrow> 64 word \<Rightarrow> 64 word \<Rightarrow> unit xr" where
  "init_userstack h argv envp exe_base e global_offset interp_base st =
    bind_run (x_mmap h (STACK_TOP - STACK_SIZE) STACK_SIZE (LINUX_PROT_READ OR LINUX_PROT_WRITE) st) (\<lambda>(_, st1).
      let st2 = push (xh_random h) (x_reg RBP STACK_TOP (x_reg RSP STACK_TOP st1));
          rand_ptr = rsp_of st2;
          buf = string_block argv @ string_block envp;
          st3 = push buf st2;
          args_start = rsp_of st3;
          args_end = args_start + of_nat (length (string_block argv));
          env_end = args_start + of_nat (length buf);
          st4 = push_word 0 (push (auxv_bytes (auxv exe_base e global_offset interp_base rand_ptr)) st3) in
      bind_run (push_ptrs buf args_start (rev envp) env_end st4) (\<lambda>st5.
      bind_run (push_ptrs buf args_start (rev argv) args_end (push_word 0 st5)) (\<lambda>st6.
        Inr ((), push_word (of_nat (length argv)) st6))))"

definition load_elf :: "exec_host \<Rightarrow> byte list \<Rightarrow> path list \<Rightarrow> path list \<Rightarrow> int xr" where
  "load_elf h img argv envp st =
    (if \<not> is_elf img then Inl Assert_failed
     else bind_run (read_ehdr img) (\<lambda>e.
       if e_type e \<noteq> ET_EXEC \<and> e_type e \<noteq> ET_DYN \<or> e_machine e \<noteq> EM_X86_64 then Inr (- LINUX_ENOEXEC, st)
       else
         let global_offset = (if e_type e = ET_DYN then 0x400000 else 0); js = [0..<unat (e_phnum e)] in
         bind_run (load_segments h img (e_phoff e) global_offset js 0 None st) (\<lambda>((map_top, load_base), st1).
         case load_base of
           None \<Rightarrow> Inl Assert_failed
         | Some exe_base \<Rightarrow>
             bind_run (find_interp img (e_phoff e) js) (\<lambda>interp.
             bind_run (case interp of
                 None \<Rightarrow> Inr (0, set_start (e_entry e + global_offset) map_top st1)
               | Some p \<Rightarrow>
                   if length img < unat (p_offset p) + unat (p_filesz p) then Inl Out_of_bounds
                   else load_elf_interp h (takeWhile (\<lambda>b. b \<noteq> 0) (get_field (unat (p_offset p)) (unat (p_filesz p)) img)) map_top st1)
               (\<lambda>(r, st2).
                 if r < 0 then Inr (- 1, st2)
                 else bind_run (init_userstack h argv envp exe_base e global_offset (if interp = None then 0 else map_top) st2)
                   (\<lambda>(_, st3). Inr (1, st3)))))))"

section \<open>Scripts\<close>

definition isspace :: "byte \<Rightarrow> bool" where
  "isspace c \<longleftrightarrow> c = 32 \<or> 9 \<le> c \<and> c \<le> 13"

text \<open>
  The two loops over the first line, on the rest of the mapping; \<open>k\<close> bytes of the file are left.
  \<open>None\<close> is the jump to \<open>parse_end\<close>.
\<close>

fun skip_blanks :: "byte list \<Rightarrow> nat \<Rightarrow> (byte list \<times> nat) option run" where
  "skip_blanks [] k = Inl Out_of_bounds"
| "skip_blanks (c # cs) k =
    (if isspace c \<and> c \<noteq> 10 then (if k = 0 then Inr None else skip_blanks cs (k - 1)) else Inr (Some (c # cs, k)))"

fun scan_word :: "byte list \<Rightarrow> nat \<Rightarrow> (byte list \<times> byte list \<times> nat) option run" where
  "scan_word [] k = Inl Out_of_bounds"
| "scan_word (c # cs) k =
    (if isspace c then Inr (Some ([], c # cs, k))
     else if k = 0 then Inr None
     else bind_run (scan_word cs (k - 1)) (\<lambda>r. Inr (map_option (\<lambda>(w, rest, k'). (c # w, rest, k')) r)))"

text \<open>
  At most \<open>m\<close> words, each a string that ends at its first zero byte; \<open>Inl\<close> is an error of the call.
\<close>

fun script_words :: "nat \<Rightarrow> byte list \<Rightarrow> nat \<Rightarrow> (int + path list) run" where
  "script_words 0 rest k = Inr (Inr [])"
| "script_words (Suc m) rest k =
    bind_run (skip_blanks rest k) (\<lambda>r1. case r1 of
      None \<Rightarrow> Inr (Inr [])
    | Some (rest1, k1) \<Rightarrow>
        bind_run (scan_word rest1 k1) (\<lambda>r2. case r2 of
          None \<Rightarrow> Inr (Inr [])
        | Some (w, rest2, k2) \<Rightarrow>
            if w = [] then Inr (Inr [])
            else if length w > LINUX_PATH_MAX - 1 then Inr (Inl (- LINUX_ENAMETOOLONG))
            else bind_run (script_words m rest2 k2) (\<lambda>ws. Inr (map_sum id (\<lambda>ws'. takeWhile (\<lambda>b. b \<noteq> 0) w # ws') ws))))"

text \<open>
  The arguments of the interpreter: the words, the path of the script and its arguments but the
  first.  The array has no place for the path when there are no arguments.  The result of \<open>do_exec\<close>
  is ignored.
\<close>

definition load_script :: "(path \<Rightarrow> path list \<Rightarrow> int xr) \<Rightarrow> byte list \<Rightarrow> path \<Rightarrow> path list \<Rightarrow> int xr" where
  "load_script exec data elf_path argv st =
    bind_run (script_words 2 (drop 2 (file_image data)) (length data - 2)) (\<lambda>ws. case ws of
      Inl err \<Rightarrow> Inr (err, st)
    | Inr sb_argv \<Rightarrow>
        if sb_argv = [] then Inr (- LINUX_EFAULT, st)
        else if argv = [] then Inl Out_of_bounds
        else bind_run (exec (hd sb_argv) (sb_argv @ elf_path # tl argv) st) (\<lambda>(_, st1). Inr (0, st1)))"

section \<open>exec\<close>

text \<open>The writes to the processor succeed; \<open>init_fpu\<close> is that of \<open>src/main.c\<close>, with what the stack holds.\<close>

definition init_reg_state :: "exec_host \<Rightarrow> exec_state \<Rightarrow> exec_state" where
  "init_reg_state h st =
    (let st1 = fold (\<lambda>r. x_reg r 0) [RAX, RBX, RCX, RDX, RSI, RDI, R8, R9, R10, R11, R12, R13, R14, R15, FS, ES, GS] st in
     (x_reg DS 16 (x_reg CS 8 st1))\<lparr>x_proc := (x_proc st1)\<lparr>p_fs_base := 0, p_gs_base := 0\<rparr>, x_ldtr := 0,
       x_fpu := fx_image (xh_stack h)\<rparr>)"

definition x_destroy_mm :: "exec_state \<Rightarrow> exec_state run" where
  "x_destroy_mm st =
    (let u = x_user st in
     bind_run (destroy_mm \<lparr>vm_mm = um_proc u, vm_calls = x_calls st\<rparr>) (\<lambda>v.
       Inr ((set_user (u\<lparr>um_proc := init_mm (vm_mm v)\<rparr>) st)\<lparr>x_calls := vm_calls v\<rparr>)))"

definition prepare_newproc :: "exec_host \<Rightarrow> exec_state \<Rightarrow> exec_state run" where
  "prepare_newproc h st =
    bind_run (x_destroy_mm (st\<lparr>x_proc := (x_proc st)\<lparr>p_nr_tasks := 1\<rparr>\<rparr>)) (\<lambda>st1.
      let st2 = init_reg_state h st1;
          st3 = st2\<lparr>x_sig := reset_signal_state (xh_sig h) (x_sig st2),
            x_proc := (x_proc st2)\<lparr>p_clear_child_tid := 0, p_robust_list := 0\<rparr>\<rparr> in
      bind_run (on_kern (close_cloexec (xh_fs h)) st3) (\<lambda>(_, st4). Inr st4))"

definition S_ISREG :: "flags \<Rightarrow> bool" where
  "S_ISREG mode \<longleftrightarrow> mode AND 0xF000 = 0x8000"

definition finish_exec :: "exec_state \<Rightarrow> exec_state" where
  "finish_exec st =
    (let u = x_user st; m = um_proc u in set_user (u\<lparr>um_proc := m\<lparr>current_brk := start_brk m\<rparr>\<rparr>) st)"

text \<open>
  The part of \<open>do_exec\<close> after the file was accepted.  \<open>exec\<close> is \<open>do_exec\<close> itself, for the interpreter
  of a script.
\<close>

definition exec_file :: "(path \<Rightarrow> path list \<Rightarrow> int xr) \<Rightarrow> exec_host \<Rightarrow> int \<Rightarrow> path \<Rightarrow> path list \<Rightarrow> path list \<Rightarrow> int xr" where
  "exec_file exec h fd elf_path argv envp st =
    bind_run (prepare_newproc h st) (\<lambda>st1.
    bind_run (on_kern (vkern_close (xh_fs h) fd) st1) (\<lambda>(_, st2).
    bind_run (drop_privilege (xh_proc h) (x_proc st2)) (\<lambda>p.
      let data = xh_data h fd; st3 = st2\<lparr>x_proc := p\<rparr> in
      if is_elf data then
        bind_run (load_elf h (file_image data) argv envp st3) (\<lambda>(err, st4).
          if err < 0 then Inr (err, st4)
          else if xh_mode h fd AND 0x800 \<noteq> 0 then
            bind_run (elevate_privilege (xh_proc h) (x_proc st4)) (\<lambda>p'. Inr (0, finish_exec (st4\<lparr>x_proc := p'\<rparr>)))
          else Inr (0, finish_exec st4))
      else if take 2 data = [0x23, 0x21] then
        bind_run (load_script exec data elf_path argv st3) (\<lambda>(err, st4).
          Inr (if err < 0 then (err, st4) else (0, finish_exec st4)))
      else Inr (- LINUX_ENOEXEC, st3))))"

text \<open>
  \<open>do_exec\<close> calls itself for the interpreter of a script, without a bound: the first argument is the
  number of nested calls that are allowed.
\<close>

fun do_exec :: "nat \<Rightarrow> exec_host \<Rightarrow> path \<Rightarrow> path list \<Rightarrow> path list \<Rightarrow> int xr" where
  "do_exec 0 h elf_path argv envp st = Inl Out_of_fuel"
| "do_exec (Suc n) h elf_path argv envp st =
    bind_run (on_kern (do_access (xh_fs h) elf_path 1) st) (\<lambda>(err, st1).
      if err < 0 then Inr (err, st1)
      else bind_run (on_kern (vkern_open (xh_fs h) elf_path LINUX_O_RDONLY 0) st1) (\<lambda>(fd, st2).
        if fd < 0 then Inr (fd, st2)
        else if p_nr_tasks (x_proc st2) > 1 then Inr (- LINUX_EINVAL, st2)
        else if \<not> S_ISREG (xh_mode h fd) then
          bind_run (on_kern (vkern_close (xh_fs h) fd) st2) (\<lambda>(_, st3). Inr (- LINUX_EACCES, st3))
        else exec_file (\<lambda>path args. do_exec n h path args envp) h fd elf_path argv envp st2))"

text \<open>
  The arrays of strings of the guest: the \<open>i\<close>-th pointer, until one is null.  The number of strings
  is bounded, so that the loop ends.
\<close>

abbreviation (input) LINUX_MAX_ARG_STRINGS :: nat where "LINUX_MAX_ARG_STRINGS \<equiv> 0x7FFFFFFF"
abbreviation (input) LINUX_MAX_ARG_STRLEN :: nat where "LINUX_MAX_ARG_STRLEN \<equiv> 131072"

function user_strings :: "user_mem \<Rightarrow> gaddr \<Rightarrow> nat \<Rightarrow> int + path list" where
  "user_strings u arr i =
    (case copy_from_user u (arr + 8 * of_nat i) 8 of (rest, bs) \<Rightarrow>
       let addr = le_word bs in
       if rest \<noteq> 0 then Inl (- LINUX_EFAULT)
       else if addr = 0 then Inr []
       else if i + 2 > LINUX_MAX_ARG_STRINGS then Inl (- LINUX_E2BIG)
       else
         let sz = strnlen_user u addr LINUX_MAX_ARG_STRLEN in
         if sz = 0 then Inl (- LINUX_EFAULT)
         else if sz > int LINUX_MAX_ARG_STRLEN then Inl (- LINUX_E2BIG)
         else
           let s = takeWhile (\<lambda>b. b \<noteq> 0) (snd (copy_from_user u addr (nat sz))) in
           map_sum id (\<lambda>ss. s # ss) (user_strings u arr (i + 1)))"
  by pat_completeness auto
termination
  by (relation "measure (\<lambda>(u, arr, i). LINUX_MAX_ARG_STRINGS - i)") auto

declare user_strings.simps [simp del]

definition sys_execve :: "nat \<Rightarrow> exec_host \<Rightarrow> gaddr \<Rightarrow> gaddr \<Rightarrow> gaddr \<Rightarrow> int xr" where
  "sys_execve n h gelf_path gargv genvp st =
    bind_run (on_kern (path_arg (xh_fs h) gelf_path) st) (\<lambda>(elf_path, st1).
      case user_strings (x_user st1) gargv 0 of
        Inl err \<Rightarrow> Inr (err, st1)
      | Inr argv \<Rightarrow>
          (case user_strings (x_user st1) genvp 0 of
             Inl err \<Rightarrow> Inr (err, st1)
           | Inr envp \<Rightarrow>
               bind_run (do_exec n h elf_path argv envp st1) (\<lambda>(err, st2).
                 Inr (err, if err < 0 then st2 else x_reg RIP (sg_regs (x_sig st2) RIP - 2) st2))))"

end
