(* ===== verification/ExecStack.thy ===== *)
theory ExecStack
  imports Exec
begin

text \<open>
  The stack of a new program: the bytes from the stack pointer to the top after each step, and the
  layout that the program finds, as the ABI of x86-64 describes it.
\<close>

section \<open>Copies into memory that is contiguous on the host\<close>

definition contig :: "user_mem \<Rightarrow> gaddr \<Rightarrow> haddr \<Rightarrow> nat \<Rightarrow> bool" where
  "contig u lo p n \<longleftrightarrow> (\<forall>i < n. um_ptr u (lo + of_nat i) = Some (p + of_nat i))"

lemma contigD: "contig u lo p n \<Longrightarrow> i < n \<Longrightarrow> um_ptr u (lo + of_nat i) = Some (p + of_nat i)"
  by (simp add: contig_def)

lemma contig_shift:
  assumes "contig u lo p n" "off + m \<le> n"
  shows "contig u (lo + of_nat off) (p + of_nat off) m"
  unfolding contig_def
proof (intro allI impI)
  fix i assume "i < m"
  then show "um_ptr u (lo + of_nat off + of_nat i) = Some (p + of_nat off + of_nat i)"
    using contigD [OF assms(1), of "off + i"] assms(2) by (simp add: algebra_simps)
qed

lemma contig_unaliased:
  assumes "contig u lo p n" "n \<le> 2 ^ 32"
  shows "unaliased u lo n"
proof -
  have "(p + of_nat i :: haddr) \<noteq> p + of_nat j" if "i < j" "j < n" for i j
  proof
    assume "(p + of_nat i :: haddr) = p + of_nat j"
    then have "unat (of_nat i :: haddr) = unat (of_nat j :: haddr)" by simp
    moreover have "j < 2 ^ 64" using assms(2) that by simp
    ultimately show False using that by (simp add: unat_of_nat)
  qed
  then show ?thesis using contigD [OF assms(1)] unfolding unaliased_def by auto
qed

lemma copy_to_contig:
  assumes "um_ok u" "contig u a p (length bs)" "length bs \<le> 2 ^ 32"
  shows "copy_to_user u a bs = (0, u\<lparr>um_host := host_write (um_host u) p bs\<rparr>)"
proof -
  obtain rest u' where c: "copy_to_user u a bs = (rest, u')" by fastforce
  note S = copy_to_user_spec [OF assms(1) c]
  have rest: "rest = 0"
  proof (rule ccontr)
    assume r: "rest \<noteq> 0"
    then have "um_ptr u (a + of_nat (length bs - rest)) = None" "length bs - rest < length bs" using S by auto
    then show False using contigD [OF assms(2)] by simp
  qed
  have "um_host u' x = host_write (um_host u) p bs x" for x
  proof (cases "unat (x - p) < length bs")
    case True
    then have "um_ptr u (a + of_nat (unat (x - p))) = Some x" using contigD [OF assms(2) True] by simp
    then show ?thesis using S True contig_unaliased [OF assms(2,3)] rest by (simp add: host_write_def)
  next
    case False
    have "x \<notin> targets u a (length bs)"
    proof
      assume "x \<in> targets u a (length bs)"
      then obtain i where "i < length bs" "x = p + of_nat i" using contigD [OF assms(2)] by (auto simp: targets_def)
      then have "unat (x - p) = i" using assms(3) by (simp add: unat_of_nat)
      then show False using False \<open>i < length bs\<close> by simp
    qed
    then show ?thesis using S False rest by (simp add: host_write_def)
  qed
  then have "um_host u' = host_write (um_host u) p bs" by blast
  then have "u' = u\<lparr>um_host := host_write (um_host u) p bs\<rparr>" using S by simp
  then show ?thesis using c rest by simp
qed

lemma copy_from_contig:
  assumes "um_ok u" "contig u a p n"
  shows "copy_from_user u a n = (0, host_read (um_host u) p n)"
proof -
  obtain rest bs where c: "copy_from_user u a n = (rest, bs)" by fastforce
  note S = copy_from_user_spec [OF assms(1) c]
  have b: "user_byte u (a + of_nat i) = Some (um_host u (p + of_nat i))" if "i < n" for i
    using contigD [OF assms(2) that] by (simp add: user_byte_def)
  have rest: "rest = 0"
  proof (rule ccontr)
    assume r: "rest \<noteq> 0"
    then have "user_byte u (a + of_nat (length bs)) = None" "length bs < n" using S by auto
    then show False using b by simp
  qed
  then have "length bs = n" using S by simp
  then have "map Some bs = map Some (host_read (um_host u) p n)" using S b by (simp add: host_read_def)
  then have "bs = host_read (um_host u) p n" by (metis list.inj_map_strong option.inject)
  then show ?thesis using c rest by simp
qed

lemma host_read_append: "host_read m p (a + b) = host_read m p a @ host_read m (p + of_nat a) b"
  by (rule nth_equalityI) (auto simp: host_read_def nth_append algebra_simps)

lemma host_read_write_same:
  assumes "length bs \<le> 2 ^ 32"
  shows "host_read (host_write m p bs) p (length bs) = bs"
proof (rule nth_equalityI)
  fix i assume "i < length (host_read (host_write m p bs) p (length bs))"
  then have i: "i < length bs" by (simp add: host_read_def)
  then have "unat (of_nat i :: haddr) = i" using assms by (simp add: unat_of_nat)
  then show "host_read (host_write m p bs) p (length bs) ! i = bs ! i" using i by (simp add: host_read_def host_write_def)
qed (simp add: host_read_def)

lemma host_read_write_above:
  assumes "length bs \<le> k" "k + n \<le> 2 ^ 32"
  shows "host_read (host_write m p bs) (p + of_nat k) n = host_read m (p + of_nat k) n"
proof (rule nth_equalityI)
  fix i assume "i < length (host_read (host_write m p bs) (p + of_nat k) n)"
  then have i: "i < n" by (simp add: host_read_def)
  have "unat (p + of_nat k + of_nat i - p) = k + i"
  proof -
    have "p + of_nat k + of_nat i - p = (of_nat (k + i) :: haddr)" by simp
    moreover have "unat (of_nat (k + i) :: haddr) = k + i" using assms i by (simp add: unat_of_nat del: of_nat_add)
    ultimately show ?thesis by simp
  qed
  then show "host_read (host_write m p bs) (p + of_nat k) n ! i = host_read m (p + of_nat k) n ! i"
    using i assms(1) by (simp add: host_read_def host_write_def)
qed (simp add: host_read_def)

section \<open>Pushing\<close>

abbreviation (input) stack_base :: gaddr where "stack_base \<equiv> STACK_TOP - STACK_SIZE"
abbreviation (input) stack_bytes :: nat where "stack_bytes \<equiv> 0x200000"

text \<open>
  The bytes from the stack pointer, which is \<open>off\<close> bytes above the end of the stack, to its top.
\<close>

definition stack_holds :: "haddr \<Rightarrow> nat \<Rightarrow> exec_state \<Rightarrow> byte list \<Rightarrow> bool" where
  "stack_holds p off st bs \<longleftrightarrow> um_ok (x_user st) \<and> contig (x_user st) stack_base p stack_bytes \<and> off + length bs = stack_bytes \<and>
     rsp_of st = stack_base + of_nat off \<and> host_read (um_host (x_user st)) (p + of_nat off) (length bs) = bs"

definition pad8 :: "nat \<Rightarrow> nat" where
  "pad8 k = (8 - k mod 8) mod 8"

lemma pad8_less: "pad8 k < 8"
  by (simp add: pad8_def)

lemma pad8_div: "(k + 7) div 8 * 8 = k + pad8 k"
proof -
  define q r where "q = k div 8" and "r = k mod 8"
  have k: "k = 8 * q + r" "r < 8" by (simp_all add: q_def r_def)
  have d: "(k + 7) div 8 = q + (r + 7) div 8" using k(1) by simp
  show ?thesis
  proof (cases "r = 0")
    case True
    then have "k mod 8 = 0" by (simp only: r_def)
    then have "pad8 k = 0" unfolding pad8_def by simp
    then show ?thesis using d k(1) True by simp
  next
    case False
    then have "(r + 7) div 8 = 1" "(8 - r) mod 8 = 8 - r" using k(2) by (simp_all add: div_nat_eqI)
    moreover from this have "pad8 k = 8 - r" unfolding pad8_def r_def [symmetric] by simp
    ultimately show ?thesis using d k by linarith
  qed
qed

lemma roundup_8:
  assumes "k \<le> stack_bytes"
  shows "roundup (of_nat k) 8 = of_nat (k + pad8 k)"
proof -
  have e: "of_nat k + 8 - 1 = (of_nat (k + 7) :: 64 word)" by simp
  have "unat (of_nat (k + 7) :: 64 word) = k + 7" using assms by (simp add: unat_of_nat del: of_nat_add)
  then have d: "unat ((of_nat (k + 7) :: 64 word) div 8) = (k + 7) div 8" by (simp add: unat_div del: of_nat_add)
  have b: "k + pad8 k < 2 ^ 64" using assms pad8_less [of k] by simp
  have "(of_nat (k + 7) :: 64 word) div 8 = of_nat ((k + 7) div 8)" unfolding d [symmetric] by simp
  then have "roundup (of_nat k) 8 = of_nat ((k + 7) div 8 * 8)" unfolding roundup_def e by simp
  then show ?thesis by (simp only: pad8_div)
qed

lemma x_reg_simps [simp]:
  "x_user (x_reg r v st) = x_user st" "rsp_of (x_reg RSP v st) = v" "r \<noteq> RSP \<Longrightarrow> rsp_of (x_reg r v st) = rsp_of st"
  "x_kern (x_reg r v st) = x_kern st" "x_calls (x_reg r v st) = x_calls st" "x_proc (x_reg r v st) = x_proc st"
  by (simp_all add: x_reg_def x_user_def rsp_of_def set_reg_def)

lemma set_user_simps [simp]: "x_user (set_user u st) = u" "rsp_of (set_user u st) = rsp_of st"
  by (simp_all add: set_user_def x_user_def rsp_of_def)

lemma push_holds:
  assumes "stack_holds p (off + length xs + pad8 (length xs)) st bs"
  obtains pad where "length pad = pad8 (length xs)" "stack_holds p off (push xs st) (xs @ pad @ bs)"
proof -
  define k where "k = length xs + pad8 (length xs)"
  define u where "u = x_user st"
  have u: "um_ok u" "contig u stack_base p stack_bytes" "off + k + length bs = stack_bytes"
    and bs: "host_read (um_host u) (p + of_nat (off + k)) (length bs) = bs" and rsp: "rsp_of st = stack_base + of_nat (off + k)"
    using assms by (simp_all only: stack_holds_def u_def k_def add.assoc)
  have k: "length xs \<le> k" "length xs \<le> stack_bytes" using u(3) by (simp_all add: k_def)
  have new: "rsp_of st - roundup (of_nat (length xs)) 8 = stack_base + of_nat off"
    unfolding rsp roundup_8 [OF k(2)] k_def [symmetric] of_nat_add by (simp add: algebra_simps)
  have cont: "contig u (stack_base + of_nat off) (p + of_nat off) (length xs)"
    by (rule contig_shift [OF u(2)]) (use u(3) k(1) in linarith)
  define pad where "pad = host_read (um_host u) (p + of_nat off + of_nat (length xs)) (k - length xs)"
  have user: "x_user (push xs st) = u\<lparr>um_host := host_write (um_host u) (p + of_nat off) xs\<rparr>"
    using copy_to_contig [OF u(1) cont] k(2) new by (simp add: push_def Let_def x_copy_def u_def)
  let ?m = "host_write (um_host u) (p + of_nat off) xs"
  have bound: "k + length bs \<le> 2 ^ 32" using u(3) by simp
  have 1: "host_read ?m (p + of_nat off) (length xs) = xs" by (rule host_read_write_same) (use k(2) in simp)
  have 2: "host_read ?m (p + of_nat off + of_nat (length xs)) (k - length xs) = pad"
    unfolding pad_def by (rule host_read_write_above) (use bound k in linarith)+
  have 3: "host_read ?m (p + of_nat off + of_nat k) (length bs) = bs"
  proof -
    have "host_read ?m (p + of_nat off + of_nat k) (length bs) = host_read (um_host u) (p + of_nat off + of_nat k) (length bs)"
      by (rule host_read_write_above) (use bound k in linarith)+
    then show ?thesis using bs by (simp add: add.assoc)
  qed
  have len: "length pad = k - length xs" by (simp add: pad_def host_read_def)
  have "host_read ?m (p + of_nat off) (length xs + (k - length xs)) = xs @ pad" unfolding host_read_append 1 2 ..
  then have "host_read ?m (p + of_nat off) k = xs @ pad" using k(1) by simp
  then have "host_read ?m (p + of_nat off) (k + length bs) = (xs @ pad) @ bs" unfolding host_read_append 3 by simp
  moreover have "k + length bs = length (xs @ pad @ bs)" using len k(1) by simp
  ultimately have "host_read (um_host (x_user (push xs st))) (p + of_nat off) (length (xs @ pad @ bs)) = xs @ pad @ bs"
    unfolding user by simp
  moreover have "rsp_of (push xs st) = stack_base + of_nat off" using new by (simp add: push_def Let_def x_copy_def)
  moreover have "um_ok (x_user (push xs st))" "contig (x_user (push xs st)) stack_base p stack_bytes"
    using u by (simp_all add: user um_ok_def contig_def)
  moreover have "off + length (xs @ pad @ bs) = stack_bytes" using u(3) len k(1) by simp
  ultimately have "stack_holds p off (push xs st) (xs @ pad @ bs)" unfolding stack_holds_def by blast
  then show thesis using that len by (simp add: k_def)
qed

lemma push_aligned_holds:
  assumes "stack_holds p (off + length xs) st bs" "length xs mod 8 = 0"
  shows "stack_holds p off (push xs st) (xs @ bs)"
proof -
  have "pad8 (length xs) = 0" using assms(2) by (simp add: pad8_def)
  then show ?thesis using push_holds [of p off xs st bs] assms(1) by (metis add_0_right append_Nil length_0_conv)
qed

lemma push_word_holds:
  assumes "stack_holds p (off + 8) st bs"
  shows "stack_holds p off (push_word w st) (le_bytes 8 w @ bs)"
  unfolding push_word_def by (rule push_aligned_holds) (use assms in simp_all)

section \<open>The layout\<close>

text \<open>The addresses of strings that follow each other, and the words of the table at the stack pointer.\<close>

fun str_ptrs :: "64 word \<Rightarrow> path list \<Rightarrow> 64 word list" where
  "str_ptrs a [] = []"
| "str_ptrs a (s # ss) = a # str_ptrs (a + of_nat (length s + 1)) ss"

definition word_bytes :: "64 word list \<Rightarrow> byte list" where
  "word_bytes ws = concat (map (le_bytes 8) ws)"

definition block_len :: "path list \<Rightarrow> nat" where
  "block_len ss = length (string_block ss)"

lemma word_bytes_simps [simp]:
  "word_bytes [] = []" "word_bytes (w # ws) = le_bytes 8 w @ word_bytes ws" "word_bytes (ws @ vs) = word_bytes ws @ word_bytes vs"
  by (simp_all add: word_bytes_def)

lemma length_word_bytes [simp]: "length (word_bytes ws) = 8 * length ws"
  by (induction ws) simp_all

lemma string_block_simps [simp]:
  "string_block [] = []" "string_block (s # ss) = s @ 0 # string_block ss" "string_block (ss @ ts) = string_block ss @ string_block ts"
  by (simp_all add: string_block_def)

lemma str_ptrs_append [simp]: "str_ptrs a (ss @ ts) = str_ptrs a ss @ str_ptrs (a + of_nat (block_len ss)) ts"
  by (induction ss arbitrary: a) (simp_all add: block_len_def algebra_simps)

lemma length_str_ptrs [simp]: "length (str_ptrs a ss) = length ss"
  by (induction ss arbitrary: a) simp_all

lemma length_auxv_bytes: "length (auxv_bytes aux) = 16 * length aux"
  by (induction aux) (auto simp: auxv_bytes_def)

text \<open>Each pointer is the offset of its string in the block.\<close>

lemma str_ptrs_block:
  assumes "i < length ss"
  obtains k where "str_ptrs a ss ! i = a + of_nat k" "k + length (ss ! i) + 1 \<le> block_len ss"
    "take (length (ss ! i) + 1) (drop k (string_block ss)) = ss ! i @ [0]"
proof -
  define k where "k = block_len (take i ss)"
  have s: "ss = take i ss @ ss ! i # drop (Suc i) ss" using assms by (rule id_take_nth_drop)
  have "str_ptrs a (take i ss @ ss ! i # drop (Suc i) ss) ! i = a + of_nat k"
    using assms by (simp add: k_def nth_append)
  moreover have b: "string_block (take i ss @ ss ! i # drop (Suc i) ss) = string_block (take i ss) @ ss ! i @ [0] @ string_block (drop (Suc i) ss)"
    by simp
  moreover have "take (length (ss ! i) + 1) (drop k (string_block (take i ss @ ss ! i # drop (Suc i) ss))) = ss ! i @ [0]"
    unfolding b k_def block_len_def by simp
  moreover have "k + length (ss ! i) + 1 \<le> block_len (take i ss @ ss ! i # drop (Suc i) ss)"
    unfolding block_len_def b k_def by simp
  ultimately show thesis using that [of k] s by metis
qed

lemma push_ptrs_holds:
  assumes "stack_holds p (off + 8 * length ss) st bs" "buf = pre @ string_block ss @ post" "length buf < 2 ^ 64"
    and "a = args_start + of_nat (length pre)"
  obtains st' where "push_ptrs buf args_start (rev ss) (a + of_nat (block_len ss)) st = Inr st'"
    "stack_holds p off st' (word_bytes (str_ptrs a ss) @ bs)"
  using assms
proof (induction ss arbitrary: st bs post thesis rule: rev_induct)
  case Nil
  then show ?case by simp
next
  case (snoc s ss)
  let ?ptr = "a + of_nat (block_len ss)"
  have ptr: "a + of_nat (block_len (ss @ [s])) - of_nat (length s + 1) = ?ptr"
    by (simp add: block_len_def algebra_simps)
  have le: "length pre + block_len ss < 2 ^ 64" using snoc.prems(3,4) by (simp add: block_len_def)
  have "?ptr - args_start = of_nat (length pre + block_len ss)" unfolding snoc.prems(5) by simp
  then have "unat (?ptr - args_start) = length pre + block_len ss" using le by (simp add: unat_of_nat del: of_nat_add)
  then have chk: "take (length s + 1) (drop (unat (?ptr - args_start)) buf) = s @ [0]"
    unfolding snoc.prems(3) block_len_def by simp
  have "stack_holds p (off + 8 * length ss) (push_word ?ptr st) (le_bytes 8 ?ptr @ bs)"
    by (rule push_word_holds) (use snoc.prems(2) in \<open>simp add: algebra_simps\<close>)
  moreover have "buf = pre @ string_block ss @ ((s @ [0]) @ post)" using snoc.prems(3) by simp
  ultimately obtain st' where "push_ptrs buf args_start (rev ss) ?ptr (push_word ?ptr st) = Inr st'"
      "stack_holds p off st' (word_bytes (str_ptrs a ss) @ le_bytes 8 ?ptr @ bs)"
    using snoc.IH [of "push_word ?ptr st" "le_bytes 8 ?ptr @ bs"] snoc.prems(4,5) by metis
  then show ?case using snoc.prems(1) [of st'] chk unfolding rev_append rev.simps append.simps push_ptrs.simps Let_def ptr by simp
qed

section \<open>Mappings\<close>

text \<open>A private anonymous mapping at a fixed address is contiguous on the host and holds zeros.\<close>

definition map_room :: "exec_state \<Rightarrow> gaddr \<Rightarrow> 64 word \<Rightarrow> bool" where
  "map_room st g sz \<longleftrightarrow> um_ok (x_user st) \<and> regions_small (regions (um_proc (x_user st))) \<and> finds_lowest (um_proc (x_user st)) g sz"

definition map_host :: "exec_host \<Rightarrow> exec_state \<Rightarrow> gaddr \<Rightarrow> 64 word \<Rightarrow> flags \<Rightarrow> haddr \<Rightarrow> bool" where
  "map_host h st g sz prot p \<longleftrightarrow> is_page_aligned p PAGE_4KB \<and> xh_hv_map h p g sz (linux_mprot_to_hv_mflag prot) \<and>
     xh_mmap h (x_calls st) sz 3 (linux_to_darwin_mflags 0x32) (- 1) 0 = Inr p"

lemma anon_flags:
  "LINUX_MAP_PRIVATE OR LINUX_MAP_FIXED OR LINUX_MAP_ANON = 0x32" "mmap_flags 0x32 = 0x32"
  "(0x32 :: flags) AND LINUX_MAP_FIXED \<noteq> 0" "(0x32 :: flags) AND LINUX_MAP_ANON \<noteq> 0" "(0x32 :: flags) AND NOT mmap_known_flags = 0"
  by (simp_all add: mmap_flags_def mmap_ignored_flags_def mman_flags mmap_known_flags_def)

lemma view_ptr: "view (um_proc u) a = Some (q, x) \<Longrightarrow> um_ptr u a = Some q"
  by (auto simp: view_def guest_to_host_def cell_def algebra_simps split: option.splits)

lemma x_mmap_contig:
  assumes "map_room st g sz" "map_host h st g sz prot p" "is_page_aligned g PAGE_4KB" "is_page_aligned sz PAGE_4KB"
    and "g \<noteq> 0" "sz \<noteq> 0" "unat sz \<le> 2 ^ 31" "unat g + unat sz < 2 ^ 64"
  obtains st' where "x_mmap h g sz prot st = Inr ((), st')" "um_ok (x_user st')" "contig (x_user st') g p (unat sz)"
    "um_host (x_user st') = zeroed p sz (um_host (x_user st))"
    "view (um_proc (x_user st')) = mapped g sz p prot 0x32 (- 1) (view (um_proc (x_user st)))"
    "regions_small (regions (um_proc (x_user st')))"
proof -
  let ?v = "\<lparr>vm_mm = um_proc (x_user st), vm_calls = x_calls st\<rparr>"
  have v: "mm_state ?v" "mm_inv (um_kern (x_user st))" using assms(1) by (simp_all add: map_room_def mm_state_def um_ok_def)
  have rd: "roundup sz 0x1000 = sz" using roundup_aligned [OF assms(4)] assms(7) by simp
  obtain v' where v': "do_mmap (xh_mmap h (x_calls st)) (xh_hv_map h) g sz 3 prot 0x32 (- 1) 0 ?v = Inr (g, v')"
      "mm_state v'" "view (vm_mm v') = mapped g sz p prot 0x32 (- 1) (view (vm_mm ?v))"
    using do_mmap_ok [where v = ?v and ?addr0.0 = g and addr = g and len = sz and ?len0.0 = sz and ptr = p and
        ?l_flags0.0 = "0x32" and f = "0x32" and fd' = "- 1" and fd = "- 1" and off' = 0 and off = 0 and l_prot = prot and
        d_prot = 3 and host_mmap = "xh_mmap h (x_calls st)" and hv_vm_map = "xh_hv_map h"] v(1) rd assms
    by (auto simp: anon_flags mmap_target_def map_room_def map_host_def)
  let ?u = "(x_user st)\<lparr>um_proc := vm_mm v', um_host := zeroed p sz (um_host (x_user st))\<rparr>"
  let ?st = "(set_user ?u st)\<lparr>x_calls := vm_calls v'\<rparr>"
  have ptr: "um_ptr ?u (g + of_nat i) = Some (p + of_nat i)" if i: "i < unat sz" for i
  proof -
    have "unat (of_nat i :: 64 word) = i" using i assms(7) by (simp add: unat_of_nat)
    then have "unat (g + of_nat i) = unat g + i" using i assms(8) by (subst unat_add_lem [THEN iffD1]) simp_all
    then have "view (vm_mm v') (g + of_nat i) = Some (p + of_nat i, prot, 0x32, - 1)"
      using i by (simp add: v'(3) mapped_def in_range_def)
    then show ?thesis by (intro view_ptr) simp
  qed
  have x: "x_mmap h g sz prot st = Inr ((), ?st)"
    unfolding x_mmap_def Let_def anon_flags v'(1) using assms(2) rd by (simp add: map_host_def)
  have u: "x_user ?st = ?u" by (simp add: x_user_def set_user_def)
  have "um_ok ?u" "contig ?u g p (unat sz)" "regions_small (regions (vm_mm v'))"
    using v'(2) v(2) ptr by (simp_all add: um_ok_def mm_state_def contig_def)
  then show thesis using that [OF x] v'(3) unfolding u by simp
qed

abbreviation (input) stack_prot :: flags where "stack_prot \<equiv> LINUX_PROT_READ OR LINUX_PROT_WRITE"

text \<open>What the program reads on its stack.\<close>

lemma host_read_slice:
  assumes "k + n \<le> N"
  shows "host_read m (p + of_nat k) n = take n (drop k (host_read m p N))"
  using assms by (intro nth_equalityI) (simp_all add: host_read_def algebra_simps)

lemma stack_read:
  assumes "stack_holds p off st bs" "k + n \<le> length bs"
  shows "copy_from_user (x_user st) (rsp_of st + of_nat k) n = (0, take n (drop k bs))"
proof -
  have h: "um_ok (x_user st)" "contig (x_user st) stack_base p stack_bytes" "off + length bs = stack_bytes"
      "rsp_of st = stack_base + of_nat off" "host_read (um_host (x_user st)) (p + of_nat off) (length bs) = bs"
    using assms(1) by (simp_all only: stack_holds_def)
  have "contig (x_user st) (rsp_of st + of_nat k) (p + of_nat off + of_nat k) n"
    using contig_shift [OF h(2), of "off + k" n] h(3) assms(2) unfolding h(4) by (simp add: add.assoc)
  from copy_from_contig [OF h(1) this] host_read_slice [OF assms(2), of "um_host (x_user st)" "p + of_nat off"]
  show ?thesis unfolding h(5) by simp
qed

text \<open>The words that follow the stack pointer, and all the bytes up to the top.\<close>

definition start_words :: "64 word \<Rightarrow> path list \<Rightarrow> path list \<Rightarrow> (64 word \<times> 64 word) list \<Rightarrow> 64 word list" where
  "start_words args argv envp aux = of_nat (length argv) # str_ptrs args argv @
     0 # str_ptrs (args + of_nat (block_len argv)) envp @ 0 # concat (map (\<lambda>(t, v). [t, v]) aux)"

lemma auxv_word_bytes: "auxv_bytes aux = word_bytes (concat (map (\<lambda>(t, v). [t, v]) aux))"
  by (induction aux) (auto simp: auxv_bytes_def)

lemma length_start_words [simp]:
  "length (start_words args argv envp (auxv b e g i r)) = length argv + length envp + 19"
  by (simp add: start_words_def auxv_def)

lemma init_userstack_holds:
  fixes argv envp exe_base e g ib
  defines "n \<equiv> block_len argv + block_len envp"
  defines "args \<equiv> STACK_TOP - 16 - of_nat (n + pad8 n)"
    and "aux \<equiv> auxv exe_base e g ib (STACK_TOP - 16)"
  assumes "map_room st stack_base STACK_SIZE" "map_host h st stack_base STACK_SIZE stack_prot p" "length (xh_random h) = 16"
    and "off + 8 * (length argv + length envp + 19) + n + pad8 n + 16 = stack_bytes"
  obtains st' pad where "init_userstack h argv envp exe_base e g ib st = Inr ((), st')" "length pad = pad8 n"
    "stack_holds p off st' (word_bytes (start_words args argv envp aux) @ string_block argv @ string_block envp @ pad @ xh_random h)"
proof -
  obtain st0 where st0: "x_mmap h stack_base STACK_SIZE (LINUX_PROT_READ OR LINUX_PROT_WRITE) st = Inr ((), st0)"
      "um_ok (x_user st0)" "contig (x_user st0) stack_base p stack_bytes"
    using x_mmap_contig [OF assms(4,5)] by (auto simp: is_page_aligned_def)
  define st1 where "st1 = x_reg RBP STACK_TOP (x_reg RSP STACK_TOP st0)"
  define buf where "buf = string_block argv @ string_block envp"
  define a c where "a = off + 8 + 8 * length argv" and "c = a + 8 + 8 * length envp"
  have n: "length buf = n" "n < 2 ^ 64" using assms(7) by (simp_all add: buf_def n_def block_len_def)
  have off: "c + 8 + 128 + n + pad8 n + 16 = stack_bytes" using assms(7) by (simp add: a_def c_def)
  have "stack_holds p stack_bytes st1 []" using st0 by (simp add: stack_holds_def st1_def host_read_def)
  then have 2: "stack_holds p (c + 8 + 128 + n + pad8 n) (push (xh_random h) st1) (xh_random h)"
    using push_aligned_holds [of p "c + 8 + 128 + n + pad8 n" "xh_random h" st1 "[]"] assms(6) off by simp
  define st3 where "st3 = push buf (push (xh_random h) st1)"
  obtain pad where pad: "length pad = pad8 n" and 3: "stack_holds p (c + 8 + 128) st3 (buf @ pad @ xh_random h)"
    using push_holds [of p "c + 8 + 128" buf "push (xh_random h) st1" "xh_random h"] 2 unfolding n(1) st3_def by metis
  have w: "of_nat (c + 8 + 128 + n + pad8 n) = (STACK_SIZE - 16 :: 64 word)"
      "of_nat (c + 8 + 128) = (STACK_SIZE - 16 - of_nat (n + pad8 n) :: 64 word)"
    using arg_cong [OF off, of "of_nat :: nat \<Rightarrow> 64 word"] by (simp_all add: eq_diff_eq add.assoc)
  have rand: "rsp_of (push (xh_random h) st1) = STACK_TOP - 16" using 2 unfolding stack_holds_def w by simp
  have args: "rsp_of st3 = args" using 3 unfolding stack_holds_def args_def w by simp
  define st4 where "st4 = push_word 0 (push (auxv_bytes aux) st3)"
  have "length (auxv_bytes aux) = 128" by (simp add: length_auxv_bytes aux_def auxv_def)
  then have 4: "stack_holds p c st4 (le_bytes 8 (0 :: 64 word) @ auxv_bytes aux @ buf @ pad @ xh_random h)"
    unfolding st4_def using 3 by (intro push_word_holds push_aligned_holds) simp_all
  let ?env = "args + of_nat (block_len argv)"
  have cd: "c = a + 8 + 8 * length envp" by (simp add: c_def)
  obtain st5 where 5: "push_ptrs buf args (rev envp) (?env + of_nat (block_len envp)) st4 = Inr st5"
      "stack_holds p (a + 8) st5 (word_bytes (str_ptrs ?env envp) @ le_bytes 8 (0 :: 64 word) @ auxv_bytes aux @ buf @ pad @ xh_random h)"
    using push_ptrs_holds [OF 4 [unfolded cd], of buf "string_block argv" "[]" ?env args] n by (auto simp: buf_def block_len_def)
  obtain st6 where 6: "push_ptrs buf args (rev argv) (args + of_nat (block_len argv)) (push_word 0 st5) = Inr st6"
      "stack_holds p (off + 8) st6 (word_bytes (str_ptrs args argv) @ le_bytes 8 (0 :: 64 word) @ word_bytes (str_ptrs ?env envp) @
         le_bytes 8 (0 :: 64 word) @ auxv_bytes aux @ buf @ pad @ xh_random h)"
    using push_ptrs_holds [OF push_word_holds [OF 5(2), unfolded a_def, of 0], of buf "[]" "string_block envp" args args] n
    by (auto simp: buf_def)
  have "init_userstack h argv envp exe_base e g ib st = Inr ((), push_word (of_nat (length argv)) st6)"
    using 5(1) 6(1) unfolding init_userstack_def st0(1) bind_run.simps prod.case Let_def st1_def [symmetric] buf_def [symmetric] rand
      st3_def [symmetric] args aux_def [symmetric] st4_def [symmetric] n(1) block_len_def [symmetric]
    by (simp add: n_def add.assoc)
  moreover have "stack_holds p off (push_word (of_nat (length argv)) st6)
      (word_bytes (start_words args argv envp aux) @ string_block argv @ string_block envp @ pad @ xh_random h)"
    using push_word_holds [OF 6(2)] by (simp add: start_words_def auxv_word_bytes buf_def)
  ultimately show thesis using that pad by blast
qed

end
