(* ===== verification/ProcessProps.thy ===== *)
theory ProcessProps
  imports Process FutexProps
begin

text \<open>
  Properties of credentials: no sequence of calls gains a user number that the process did not have,
  and the host stays in step; what \<open>setuid\<close> does.  The end of a thread and the status of a child.
\<close>

section \<open>Credentials\<close>

definition ids :: "cred \<Rightarrow> flags set" where
  "ids c = {c_uid c, c_euid c, c_suid c}"

text \<open>The real and the effective user number of the host, from the calls made.\<close>

definition host_ids :: "proc_call list \<Rightarrow> flags \<times> flags \<Rightarrow> flags \<times> flags" where
  "host_ids cs start = fold (\<lambda>c (r, e). case c of Setruid u \<Rightarrow> (u, e) | Seteuid u \<Rightarrow> (r, u) | _ \<Rightarrow> (r, e)) cs start"

lemma host_ids_simps [simp]:
  "host_ids (cs @ [Setruid u]) s = (u, snd (host_ids cs s))" "host_ids (cs @ [Seteuid u]) s = (fst (host_ids cs s), u)"
  by (simp_all add: host_ids_def split: prod.split)

text \<open>
  What a step keeps: the host is in step, and the numbers are among those the process had, unless one
  of them was that of the superuser.
\<close>

definition in_step :: "flags \<times> flags \<Rightarrow> proc_state \<Rightarrow> bool" where
  "in_step s st \<longleftrightarrow> host_ids (p_trace st) s = (c_uid (p_cred st), c_euid (p_cred st))"

definition cred_step :: "proc_state \<Rightarrow> proc_state \<Rightarrow> bool" where
  "cred_step st st' \<longleftrightarrow> (0 \<notin> ids (p_cred st) \<longrightarrow> ids (p_cred st') \<subseteq> ids (p_cred st)) \<and> (\<forall>s. in_step s st \<longrightarrow> in_step s st')"

lemma cred_step_refl [simp]: "cred_step st st"
  by (simp add: cred_step_def)

lemma cred_step_trans [trans]: "cred_step st st1 \<Longrightarrow> cred_step st1 st2 \<Longrightarrow> cred_step st st2"
  unfolding cred_step_def by blast

lemma cred_stepI:
  assumes "ids (p_cred st') \<subseteq> ids (p_cred st) \<or> 0 \<in> ids (p_cred st)" "\<And>s. in_step s st \<Longrightarrow> in_step s st'"
  shows "cred_step st st'"
  using assms unfolding cred_step_def by blast

lemma can_ids: "can_setresxid c i \<Longrightarrow> i \<in> ids c \<or> 0 \<in> ids c"
  by (auto simp: can_setresxid_def ids_def)

lemma set_ruid_step: "set_ruid h ruid st = Inr (r, st') \<Longrightarrow> cred_step st st'"
  using can_ids [of "p_cred st" ruid]
  by (auto simp: set_ruid_def p_call_def Let_def in_step_def ids_def split: if_splits intro!: cred_stepI)

lemma set_euid_step: "set_euid h euid st = Inr (r, st') \<Longrightarrow> cred_step st st'"
  using can_ids [of "p_cred st" euid]
  by (auto simp: set_euid_def p_call_def Let_def in_step_def ids_def split: if_splits intro!: cred_stepI)

lemma set_suid_step: "set_suid suid st = Inr (r, st') \<Longrightarrow> cred_step st st'"
  using can_ids [of "p_cred st" suid]
  by (auto simp: set_suid_def in_step_def ids_def split: if_splits intro!: cred_stepI)

lemma do_setresuid_step:
  assumes "do_setresuid h ruid euid suid st = Inr (r, st')"
  shows "cred_step st st'"
proof -
  obtain r1 st1 where 1: "set_ruid h ruid st = Inr (r1, st1)"
    using assms by (cases "set_ruid h ruid st") (auto simp: do_setresuid_def)
  note step1 = set_ruid_step [OF 1]
  show ?thesis
  proof (cases "r1 = 0")
    case True
    then obtain r2 st2 where 2: "set_euid h euid st1 = Inr (r2, st2)"
      using assms 1 by (cases "set_euid h euid st1") (auto simp: do_setresuid_def)
    then have "cred_step st st2" using step1 set_euid_step cred_step_trans by blast
    then show ?thesis
      using assms 1 2 True set_suid_step [of suid st2 r st'] cred_step_trans by (auto simp: do_setresuid_def split: if_splits)
  qed (use assms 1 step1 in \<open>auto simp: do_setresuid_def\<close>)
qed

text \<open>Any sequence of the calls that change user numbers.\<close>

inductive cred_run :: "proc_host \<Rightarrow> proc_state \<Rightarrow> proc_state \<Rightarrow> bool" for h :: proc_host where
  start: "cred_run h st st"
| setresuid: "cred_run h st st1 \<Longrightarrow> sys_setresuid h ruid euid suid st1 = Inr (r, st2) \<Longrightarrow> cred_run h st st2"
| setuid: "cred_run h st st1 \<Longrightarrow> sys_setuid h uid st1 = Inr (r, st2) \<Longrightarrow> cred_run h st st2"

lemma cred_run_step: "cred_run h st st' \<Longrightarrow> cred_step st st'"
proof (induction rule: cred_run.induct)
  case (setresuid st st1 ruid euid suid r st2)
  then show ?case using do_setresuid_step cred_step_trans by (fastforce simp: sys_setresuid_def)
next
  case (setuid st st1 uid r st2)
  then have "cred_step st1 st2" using do_setresuid_step by (auto simp: sys_setuid_def Let_def split: if_splits)
  then show ?case using setuid.IH cred_step_trans by blast
qed simp

text \<open>
  C11: No sequence of \<open>setresuid\<close> and \<open>setuid\<close> calls gains a privilege: a process none of whose user
  numbers is the superuser's only ever has numbers among the three it started with, and the real and
  effective numbers of the host are always those that the guest is told.
\<close>

theorem setuid_confined:
  assumes "cred_run h st st'" "0 \<notin> ids (p_cred st)" "in_step s st"
  shows "ids (p_cred st') \<subseteq> ids (p_cred st) \<and> in_step s st'"
  using cred_run_step [OF assms(1)] assms(2,3) unfolding cred_step_def by blast

text \<open>A host that grants every call, and a process with three different numbers.\<close>

definition ex_ph :: proc_host where
  "ex_ph = \<lparr>ph_answer = (\<lambda>_. (0, 0)), ph_bytes = (\<lambda>_. []), ph_rlimit = (\<lambda>_. \<lparr>rlim_cur = 0, rlim_max = 0\<rparr>),
     ph_status = (\<lambda>_. 0), ph_usage = (\<lambda>_. []), ph_alloc = (\<lambda>_. True), ph_junk = (\<lambda>_. 0)\<rparr>"

definition ex_proc :: "flags \<Rightarrow> flags \<Rightarrow> flags \<Rightarrow> proc_state" where
  "ex_proc u e s = \<lparr>p_cred = \<lparr>c_uid = u, c_euid = e, c_suid = s\<rparr>, p_fx = ex_fx\<lparr>fx_user := ex_um\<rparr>, p_tid = 1,
     p_clear_child_tid = 0x11000, p_robust_list = 0, p_fs_base = 0, p_gs_base = 0, p_nr_tasks = 2, p_trace = []\<rparr>"

lemma ex_wrapped [simp]: "wrapped ex_ph c = 0"
  by (simp add: wrapped_def ex_ph_def syswrap_pos)

theorem setuid_confined_witness:
  "\<exists>st'. sys_setuid ex_ph 501 (ex_proc 501 502 502) = Inr (0, st') \<and> c_euid (p_cred st') = 501 \<and>
     ids (p_cred st') \<subseteq> {501, 502} \<and> in_step (501, 502) st'"
proof -
  let ?st = "ex_proc 501 502 502"
  obtain st' where st': "sys_setuid ex_ph 501 ?st = Inr (0, st')" "c_euid (p_cred st') = 501"
    by (simp add: ex_proc_def sys_setuid_def do_setresuid_def set_ruid_def set_euid_def set_suid_def can_setresxid_def p_call_def Let_def)
  have "cred_run ex_ph ?st st'" by (rule cred_run.setuid [OF cred_run.start st'(1)])
  then have "ids (p_cred st') \<subseteq> ids (p_cred ?st) \<and> in_step (501, 502) st'"
    by (rule setuid_confined) (simp_all add: ex_proc_def ids_def in_step_def host_ids_def)
  then show ?thesis using st' by (simp add: ex_proc_def ids_def)
qed

section \<open>setuid\<close>

text \<open>
  \<open>setuid\<close> on a host that grants the calls: the superuser changes all three numbers, another process
  only the effective one and only to its real or saved number; what is refused changes nothing.  A
  change to a saved number that is neither the real one nor the superuser's stops the whole process.
\<close>

theorem setuid_spec:
  assumes "\<forall>c. wrapped h c \<ge> 0" "uid \<noteq> - 1"
  shows "let c = p_cred st in sys_setuid h uid st =
    (if c_euid c = 0 then
       Inr (0, st\<lparr>p_cred := c\<lparr>c_uid := uid, c_euid := uid, c_suid := uid\<rparr>, p_trace := p_trace st @ [Setruid uid, Seteuid uid]\<rparr>)
     else if uid \<noteq> c_uid c \<and> uid \<noteq> c_suid c then Inr (- LINUX_EPERM, st)
     else if uid \<noteq> c_uid c \<and> c_suid c \<noteq> 0 then Inl Panicked
     else Inr (0, st\<lparr>p_cred := c\<lparr>c_euid := uid\<rparr>, p_trace := p_trace st @ [Seteuid uid]\<rparr>))"
proof -
  have "\<not> wrapped h c < 0" for c using assms(1) by (simp add: not_less)
  then show ?thesis using assms(2)
    by (auto simp: Let_def sys_setuid_def do_setresuid_def set_ruid_def set_euid_def set_suid_def can_setresxid_def p_call_def)
qed

theorem setuid_spec_witness:
  "\<exists>st'. sys_setuid ex_ph 1000 (ex_proc 0 0 0) = Inr (0, st') \<and> p_cred st' = \<lparr>c_uid = 1000, c_euid = 1000, c_suid = 1000\<rparr>"
  using setuid_spec [of ex_ph 1000 "ex_proc 0 0 0"] by (simp add: ex_proc_def)

text \<open>
  \<open>setresuid\<close> is not atomic: when the real number is accepted and the effective one is not, the call
  fails with \<open>EPERM\<close> and the real number has changed.
\<close>

theorem setresuid_not_atomic:
  assumes "wrapped h (Setruid 0) \<ge> 0" "p_cred st = \<lparr>c_uid = u, c_euid = e, c_suid = 0\<rparr>" "u \<noteq> 0" "e \<noteq> 0"
    "x \<notin> {0, e, - 1}"
  shows "\<exists>st'. sys_setresuid h 0 x (- 1) st = Inr (- LINUX_EPERM, st') \<and> c_uid (p_cred st') = 0"
  using assms
  by (auto simp: sys_setresuid_def do_setresuid_def set_ruid_def set_euid_def can_setresxid_def p_call_def Let_def not_less)

theorem setresuid_not_atomic_witness:
  "\<exists>st'. sys_setresuid ex_ph 0 7 (- 1) (ex_proc 501 502 0) = Inr (- 1, st') \<and> c_uid (p_cred st') = 0"
  by (rule setresuid_not_atomic [of ex_ph "ex_proc 501 502 0" 501 502 7]) (simp_all add: ex_proc_def)

section \<open>The status of a child\<close>


text \<open>How a Linux program reads the status of a child.\<close>

datatype child_end = Exit_code "32 word" | Killed int bool | Stopped int | Unreadable

definition linux_reads :: "flags \<Rightarrow> child_end" where
  "linux_reads s =
    (if s AND 0x7F = 0 then Exit_code (drop_bit 8 s AND 0xFF)
     else if s AND 0xFF = 0x7F then Stopped (uint (drop_bit 8 s))
     else if s AND 0x7F \<noteq> 0x7F then Killed (uint (s AND 0x7F)) (s AND 0x80 \<noteq> 0)
     else Unreadable)"







text \<open>
  A child that was continued, which Darwin reports as \<open>0x137F\<close>, has none of the three states that
  the handler tests, and a Linux program reads that it exited with the code 0.
\<close>

theorem wait_continued_exits:
  "\<not> WIFEXITED 0x137F \<and> \<not> WIFSIGNALED 0x137F \<and> \<not> WIFSTOPPED 0x137F \<and> linux_reads (linux_status 0x137F) = Exit_code 0"
  by code_simp

section \<open>The end of a thread\<close>

text \<open>
  When a thread ends whose \<open>clear_child_tid\<close> is set, the word there is zero and the first thread that
  waits for it is signalled; the process ends with its last thread only.
\<close>

theorem exit_wakes_joiner:
  assumes "futex_run (p_fx st) sl" "p_clear_child_tid st = a" "a \<noteq> 0" "um_ok (fx_user (p_fx st))"
    "um_ptr (fx_user (p_fx st)) a = Some p" "unat a mod 4096 + 4 \<le> 4096" "pfutex_get a (p_fx st) = e # l"
  shows "\<exists>r st'. sys_exit reason st = Inr (r, st') \<and> r = (if p_nr_tasks st = 1 then Process_gone reason else Thread_gone) \<and>
    p_fetch a 4 st' = Some [0, 0, 0, 0] \<and> e \<in> fx_signalled (p_fx st') \<and> pfutex_get a (p_fx st') = l"
proof -
  define u where "u = (fx_user (p_fx st))\<lparr>um_host := host_write (um_host (fx_user (p_fx st))) p [0, 0, 0, 0]\<rparr>"
  define st1 where "st1 = st\<lparr>p_fx := (p_fx st)\<lparr>fx_user := u\<rparr>\<rparr>"
  have bytes: "le_bytes 4 (0 :: 32 word) = [0, 0, 0, 0]" by (simp add: le_bytes_def upt_rec)
  have copy: "copy_to_user (fx_user (p_fx st)) a [0, 0, 0, 0] = (0, u)"
    using copy_to_page [OF assms(5), of "[0, 0, 0, 0]"] assms(6) by (simp add: u_def)
  have "\<forall>q \<in> set (pfutex_get a (p_fx st)). fx_mem (p_fx st) q \<noteq> None" by (rule inv_lists(1) [OF futex_run_inv [OF assms(1)]])
  then have "wake_loop (fx_mem (p_fx st)) False 0 1 (e # l) = Inr (1, [e], l)"
    using wake_loop_fifo [of "e # l" "fx_mem (p_fx st)" 0 1] assms(7) by (simp add: woken_by_def)
  moreover have "pfutex_get a (p_fx st1) = e # l" "fx_mem (p_fx st1) = fx_mem (p_fx st)" using assms(7) by (simp_all add: st1_def pfutex_get_def)
  ultimately obtain fx where fx: "do_futex_wake a 1 (p_fx st1) = Inr (1, fx)" "fx_user fx = u" "e \<in> fx_signalled fx" "pfutex_get a fx = l"
    by (simp add: do_futex_wake_def do_private_futex_wake_def) (simp add: pfutex_get_def pfutex_set_def st1_def)
  have clear: "clear_tid st = Inr (True, st1\<lparr>p_fx := fx\<rparr>)"
    using fx(1) copy bytes assms(2,3) by (simp add: clear_tid_def p_store_def st1_def)
  have ptr: "um_ptr u a = Some p" using assms(5) by (simp add: u_def)
  have "host_read (host_write m p [0, 0, 0, 0]) p 4 = [0, 0, 0, 0]" for m
    using host_read_write [of "[0, 0, 0, 0]" m p] by (simp add: numeral_eq_Suc)
  then have "copy_from_user u a 4 = (0, [0, 0, 0, 0])" using copy_from_page [OF ptr, of 4] assms(6) by (simp add: u_def)
  then have read: "user_bytes a 4 fx = Some [0, 0, 0, 0]" by (simp add: user_bytes_def fx(2))
  show ?thesis using clear fx(3,4) read by (simp add: sys_exit_def p_fetch_def) (simp add: st1_def)
qed

text \<open>A thread waits at \<open>0x11000\<close> for one that ends.\<close>

definition ex_join :: futex_state where
  "ex_join = \<lparr>fx_lists = [0x11000 \<mapsto> [7]], fx_mem = [7 \<mapsto> \<lparr>pe_uaddr = 0x11000, pe_bitset = FUTEX_BITSET_MATCH_ANY\<rparr>],
     fx_user = ex_um, fx_signalled = {}\<rparr>"

lemma ex_join_run: "futex_run ex_join (Map.empty(7 := Some None))"
proof -
  have "sys_futex 7 ex_now 1 0x11000 137 0 0 0 FUTEX_BITSET_MATCH_ANY
      \<lparr>fx_lists = Map.empty, fx_mem = Map.empty, fx_user = ex_um, fx_signalled = {}\<rparr> = Inr (Sleep 7 None None, ex_join)"
    by (simp add: sys_futex_def do_private_futex_def with_timeout_def private_wait_def list_add_tail_def pfutex_get_def pfutex_set_def ex_join_def)
  from futex_run.sleeps [OF futex_run.start _ this] show ?thesis by simp
qed

theorem exit_wakes_joiner_witness:
  "\<exists>st'. sys_exit 3 ((ex_proc 0 0 0)\<lparr>p_fx := ex_join\<rparr>) = Inr (Thread_gone, st') \<and>
    p_fetch 0x11000 4 st' = Some [0, 0, 0, 0] \<and> 7 \<in> fx_signalled (p_fx st')"
proof -
  let ?st = "(ex_proc 0 0 0)\<lparr>p_fx := ex_join\<rparr>"
  have fx: "p_fx ?st = ex_join" by simp
  have "\<exists>r st'. sys_exit 3 ?st = Inr (r, st') \<and> r = (if p_nr_tasks ?st = 1 then Process_gone 3 else Thread_gone) \<and>
    p_fetch 0x11000 4 st' = Some [0, 0, 0, 0] \<and> 7 \<in> fx_signalled (p_fx st') \<and> pfutex_get 0x11000 (p_fx st') = []"
  proof (rule exit_wakes_joiner)
    show "futex_run (p_fx ?st) (Map.empty(7 := Some None))" unfolding fx by (rule ex_join_run)
    show "um_ok (fx_user (p_fx ?st))" "um_ptr (fx_user (p_fx ?st)) 0x11000 = Some 0x101000"
      using ex_um_ok ex_um_ptr(1) by (simp_all add: ex_join_def)
  qed (simp_all add: ex_proc_def ex_join_def pfutex_get_def)
  then show ?thesis by (auto simp: ex_proc_def)
qed

section \<open>Starting another program\<close>

text \<open>
  \<open>drop_privilege\<close>, which every \<open>execve\<close> calls, sets the effective user of the host to the real
  one but not the guest's: when they differ the guest reports an effective user that it no longer
  acts as.
\<close>

theorem drop_out_of_step:
  assumes "in_step s st" "c_euid (p_cred st) \<noteq> c_uid (p_cred st)"
    and "fst (ph_answer h Getuid) = uint (c_uid (p_cred st))" "fst (ph_answer h (Seteuid (c_uid (p_cred st)))) = 0"
  shows "\<exists>st'. drop_privilege h st = Inr st' \<and> host_ids (p_trace st') s = (c_uid (p_cred st), c_uid (p_cred st)) \<and>
    sys_geteuid st' = Inr (sint (c_euid (p_cred st)), st') \<and> \<not> in_step s st'"
proof -
  have "host_ids (p_trace st @ [Getuid]) s = (c_uid (p_cred st), c_euid (p_cred st))"
    using assms(1) by (simp add: in_step_def host_ids_def split: prod.split)
  then show ?thesis
    using assms(2-4) host_ids_simps(2) [of "p_trace st @ [Getuid]" "c_uid (p_cred st)" s]
    by (simp add: drop_privilege_def Let_def p_call_def sys_geteuid_def in_step_def)
qed

theorem drop_out_of_step_witness:
  "\<exists>st'. drop_privilege (ex_ph\<lparr>ph_answer := \<lambda>c. if c = Getuid then (1000, 0) else (0, 0)\<rparr>) (ex_proc 1000 0 0) = Inr st' \<and>
    host_ids (p_trace st') (1000, 0) = (1000, 1000) \<and> sys_geteuid st' = Inr (0, st')"
  using drop_out_of_step [of "(1000, 0)" "ex_proc 1000 0 0" "ex_ph\<lparr>ph_answer := \<lambda>c. if c = Getuid then (1000, 0) else (0, 0)\<rparr>"]
  by (auto simp: ex_proc_def in_step_def host_ids_def)

end
