(* ===== verification/ExecProps.thy ===== *)
theory ExecProps
  imports ExecStack ProcessProps SignalRuns FdProps
begin

text \<open>
  What a new program finds: its stack, its segments and the state that \<open>execve\<close> leaves of the old
  one; and what is left when the file is refused too late.
\<close>

section \<open>The stack\<close>

lemma strings_read:
  assumes "i < length ss"
    and "\<And>k m. k + m \<le> block_len ss \<Longrightarrow> copy_from_user u (a + of_nat k) m = (0, take m (drop k (string_block ss @ rest)))"
  shows "copy_from_user u (str_ptrs a ss ! i) (length (ss ! i) + 1) = (0, ss ! i @ [0])"
proof -
  obtain k where k: "str_ptrs a ss ! i = a + of_nat k" "k + length (ss ! i) + 1 \<le> block_len ss"
      "take (length (ss ! i) + 1) (drop k (string_block ss)) = ss ! i @ [0]"
    using str_ptrs_block [OF assms(1)] .
  have "take (length (ss ! i) + 1) (drop k (string_block ss @ rest)) = take (length (ss ! i) + 1) (drop k (string_block ss))"
    using k(2) by (simp add: block_len_def)
  then show ?thesis using assms(2) [of k "length (ss ! i) + 1"] k by simp
qed

lemma dvd_pad8: "8 dvd k + pad8 k"
  unfolding pad8_div [symmetric] by simp

text \<open>
  C12: \<open>init_userstack\<close> leaves the number of arguments at the stack pointer, then the pointers to the
  arguments, a null, the pointers to the environment, a null and the auxiliary vector; each pointer
  leads to its string, and \<open>AT_RANDOM\<close> to 16 bytes at the top.  The stack pointer is a multiple of
  8, and of 16 only for some arguments.
\<close>

theorem userstack_layout:
  fixes argv envp exe_base e g ib
  defines "n \<equiv> block_len argv + block_len envp"
  defines "args \<equiv> STACK_TOP - 16 - of_nat (n + pad8 n)"
  defines "ws \<equiv> start_words args argv envp (auxv exe_base e g ib (STACK_TOP - 16))"
  assumes "map_room st stack_base STACK_SIZE" "map_host h st stack_base STACK_SIZE stack_prot p" "length (xh_random h) = 16"
    and "8 * (length argv + length envp) + n + 176 \<le> stack_bytes"
  shows "\<exists>st'. init_userstack h argv envp exe_base e g ib st = Inr ((), st') \<and>
    rsp_of st' = args - of_nat (8 * length ws) \<and> 8 dvd unat (rsp_of st') \<and>
    copy_from_user (x_user st') (rsp_of st') (8 * length ws) = (0, word_bytes ws) \<and>
    (\<forall>i < length argv. copy_from_user (x_user st') (str_ptrs args argv ! i) (length (argv ! i) + 1) = (0, argv ! i @ [0])) \<and>
    (\<forall>i < length envp. copy_from_user (x_user st') (str_ptrs (args + of_nat (block_len argv)) envp ! i) (length (envp ! i) + 1) =
       (0, envp ! i @ [0])) \<and>
    copy_from_user (x_user st') (STACK_TOP - 16) 16 = (0, xh_random h)"
proof -
  define off where "off = stack_bytes - (8 * (length argv + length envp + 19) + n + pad8 n + 16)"
  have o: "off + 8 * (length argv + length envp + 19) + n + pad8 n + 16 = stack_bytes"
    using assms(7) pad8_less [of n] by (simp add: off_def)
  obtain st' pad where st': "init_userstack h argv envp exe_base e g ib st = Inr ((), st')" "length pad = pad8 n"
      "stack_holds p off st' (word_bytes ws @ string_block argv @ string_block envp @ pad @ xh_random h)"
    using init_userstack_holds [OF assms(4-6), of off argv envp exe_base e g ib] o
    unfolding ws_def args_def n_def by blast
  let ?bs = "word_bytes ws @ string_block argv @ string_block envp @ pad @ xh_random h"
  have lw: "length ws = length argv + length envp + 19" by (simp add: ws_def)
  have len: "length (string_block argv) = block_len argv" "length (string_block envp) = block_len envp" by (simp_all add: block_len_def)
  have sp: "rsp_of st' = stack_base + of_nat off" using st'(3) by (simp add: stack_holds_def)
  have wo: "of_nat off + of_nat (8 * length ws) + of_nat (n + pad8 n) + 16 = (STACK_SIZE :: 64 word)"
    using arg_cong [OF o, of "of_nat :: nat \<Rightarrow> 64 word"] unfolding lw by (simp add: algebra_simps)
  then have args: "rsp_of st' = args - of_nat (8 * length ws)" and rnd: "STACK_TOP - 16 = rsp_of st' + of_nat (8 * length ws + (n + pad8 n))"
    unfolding sp args_def by (simp_all add: algebra_simps)
  have table: "copy_from_user (x_user st') (rsp_of st') (8 * length ws) = (0, word_bytes ws)"
    using stack_read [OF st'(3), of 0 "8 * length ws"] by simp
  have str: "copy_from_user (x_user st') (args + of_nat k) m = (0, take m (drop k (string_block argv @ string_block envp @ pad @ xh_random h)))"
    if "k + m \<le> n" for k m
    using stack_read [OF st'(3), of "8 * length ws + k" m] that args by (simp add: len n_def algebra_simps)
  have argvs: "copy_from_user (x_user st') (str_ptrs args argv ! i) (length (argv ! i) + 1) = (0, argv ! i @ [0])" if "i < length argv" for i
    by (rule strings_read [OF that], rule str) (simp add: n_def)
  have envs: "copy_from_user (x_user st') (str_ptrs (args + of_nat (block_len argv)) envp ! i) (length (envp ! i) + 1) = (0, envp ! i @ [0])"
    if "i < length envp" for i
  proof (rule strings_read [OF that])
    fix k m assume "k + m \<le> block_len envp"
    then show "copy_from_user (x_user st') (args + of_nat (block_len argv) + of_nat k) m = (0, take m (drop k (string_block envp @ pad @ xh_random h)))"
      using str [of "block_len argv + k" m] by (simp add: n_def len add.assoc)
  qed
  have "unat (rsp_of st') = unat (stack_base :: gaddr) + off"
    unfolding sp using o by (subst unat_add_lem [THEN iffD1]) (simp_all add: unat_of_nat)
  moreover have "8 dvd off"
  proof -
    have "off + (8 * (length argv + length envp + 21) + (n + pad8 n)) = stack_bytes" using o by simp
    then have "8 dvd off + (8 * (length argv + length envp + 21) + (n + pad8 n))" by (simp only:) simp
    then show ?thesis using dvd_pad8 [of n] by (simp add: dvd_add_left_iff)
  qed
  ultimately have al: "8 dvd unat (rsp_of st')" by simp
  have "copy_from_user (x_user st') (STACK_TOP - 16) 16 = (0, xh_random h)"
    using stack_read [OF st'(3), of "8 * length ws + (n + pad8 n)" 16] st'(2) assms(6) unfolding rnd by (simp add: len n_def)
  then show ?thesis using st'(1) args al table argvs envs by blast
qed

text \<open>A process with descriptors 0 and 1, the second closed on exec, and a handler for signal 10.\<close>

definition ex_exec :: exec_state where
  "ex_exec = \<lparr>x_kern = FdProps.ex_kern\<lparr>k_user := ex_um\<rparr>, x_calls = [], x_sig = ex_sig, x_proc = (ex_proc 1000 1000 1000)\<lparr>p_nr_tasks := 1\<rparr>,
     x_ldtr = 0, x_fpu = []\<rparr>"

definition ex_xh :: "byte list \<Rightarrow> exec_host" where
  "ex_xh data = \<lparr>xh_fs = ex_host, xh_sig = ex_sh, xh_proc = ex_ph, xh_mmap = (\<lambda>_ _ _ _ _ _. Inr 0x7000000),
     xh_hv_map = (\<lambda>_ _ _ _. True), xh_mode = (\<lambda>_. 0x81ED), xh_data = (\<lambda>_. data), xh_random = replicate 16 7, xh_stack = []\<rparr>"

lemma ex_exec_room:
  "um_ok (x_user ex_exec)" "map_room ex_exec stack_base STACK_SIZE" "map_room ex_exec 0x400000 0x1000"
  using ex_um_ok by (simp_all add: map_room_def x_user_def ex_exec_def ex_um_def ex_eval)

lemma ex_exec_host: "map_host (ex_xh data) st g sz prot 0x7000000"
  by (simp add: map_host_def ex_xh_def is_page_aligned_def)

theorem userstack_layout_witness:
  "\<exists>st'. init_userstack (ex_xh []) [[0x61, 0x62], [0x63]] [[0x64]] 0 \<lparr>e_type = 2, e_machine = 62, e_entry = 0, e_phoff = 64,
      e_phentsize = 56, e_phnum = 1\<rparr> 0 0 ex_exec = Inr ((), st') \<and> rsp_of st' = 0x7FBFFFFF38 \<and>
    copy_from_user (x_user st') 0x7FBFFFFFE8 3 = (0, [0x61, 0x62, 0]) \<and> copy_from_user (x_user st') 0x7FBFFFFFEB 2 = (0, [0x63, 0])"
  (is "\<exists>st'. ?P st'")
proof -
  have n: "block_len [[0x61, 0x62], [0x63]] = 5" "block_len [[0x64]] = 2" "pad8 7 = 1" by (simp_all add: block_len_def pad8_def)
  obtain st' where "init_userstack (ex_xh []) [[0x61, 0x62], [0x63]] [[0x64]] 0 \<lparr>e_type = 2, e_machine = 62, e_entry = 0, e_phoff = 64,
      e_phentsize = 56, e_phnum = 1\<rparr> 0 0 ex_exec = Inr ((), st')" "rsp_of st' = 0x7FBFFFFF38"
    "\<forall>i < 2. copy_from_user (x_user st') (str_ptrs 0x7FBFFFFFE8 [[0x61, 0x62], [0x63]] ! i) (length ([[0x61, 0x62 :: byte], [0x63]] ! i) + 1) =
      (0, [[0x61, 0x62], [0x63]] ! i @ [0])"
    using userstack_layout [OF ex_exec_room(2) ex_exec_host [of "[]"], of "[[0x61, 0x62], [0x63]]" "[[0x64]]" 0
      "\<lparr>e_type = 2, e_machine = 62, e_entry = 0, e_phoff = 64, e_phentsize = 56, e_phnum = 1\<rparr>" 0 0]
    by (auto simp: n ex_xh_def)
  then have "?P st'" by (auto simp: All_less_Suc2 numeral_2_eq_2 numeral_3_eq_3)
  then show ?thesis ..
qed

section \<open>The segments\<close>

lemma page_split: "(va AND NOT 0xFFF) + (va AND 0xFFF) = (va :: 64 word)"
  by (subst disjunctive_add_eq_or) (auto intro!: bit_word_eqI simp: bit_simps)

lemma page_of: "is_page_aligned (va AND NOT 0xFFF) PAGE_4KB" "unat (va AND 0xFFF :: 64 word) < 4096"
proof -
  show "is_page_aligned (va AND NOT 0xFFF) PAGE_4KB" by (simp add: is_page_aligned_def and.assoc)
  have "va AND 0xFFF \<le> (0xFFF :: 64 word)" by (rule word_and_le1)
  then show "unat (va AND 0xFFF :: 64 word) < 4096" by (simp add: word_le_nat_alt)
qed

lemma host_read_zeroed:
  assumes "k + m \<le> unat sz"
  shows "host_read (zeroed p sz mem) (p + of_nat k) m = replicate m 0"
proof (rule nth_equalityI)
  fix i assume "i < length (host_read (zeroed p sz mem) (p + of_nat k) m)"
  then have i: "i < m" by (simp add: host_read_def)
  have "unat sz < 2 ^ LENGTH(64)" by (rule unsigned_less)
  then have "k + i < 2 ^ 64" using assms i by simp
  then have "unat (of_nat (k + i) :: 64 word) = k + i" by (simp add: unat_of_nat del: of_nat_add)
  then have "of_nat (k + i) < sz" using assms i by (simp add: word_less_nat_alt del: of_nat_add)
  then show "host_read (zeroed p sz mem) (p + of_nat k) m ! i = replicate m 0 ! i" using i by (simp add: host_read_def zeroed_def add.assoc)
qed (simp add: host_read_def)

lemma fill_zeroed:
  fixes g q sz bs m k
  assumes "um_ok u" "contig u g q (unat sz)" "um_host u = zeroed q sz mem" "k + m \<le> unat sz" "unat sz \<le> 2 ^ 31" "length bs \<le> m"
  defines "u' \<equiv> u\<lparr>um_host := host_write (um_host u) (q + of_nat k) bs\<rparr>"
  shows "copy_to_user u (g + of_nat k) bs = (0, u')"
    and "copy_from_user u' (g + of_nat k) m = (0, bs @ replicate (m - length bs) 0)"
    and "\<not> x - q < sz \<Longrightarrow> um_host u' x = mem x"
proof -
  have c: "contig u (g + of_nat k) (q + of_nat k) m" by (rule contig_shift [OF assms(2,4)])
  then have "contig u (g + of_nat k) (q + of_nat k) (length bs)" using assms(6) by (simp add: contig_def)
  then show "copy_to_user u (g + of_nat k) bs = (0, u')"
    unfolding u'_def by (rule copy_to_contig [OF assms(1)]) (use assms(4-6) in simp)
  have "copy_from_user u' (g + of_nat k) m = (0, host_read (um_host u') (q + of_nat k) m)"
    by (rule copy_from_contig) (use assms(1) c in \<open>simp_all add: u'_def um_ok_def contig_def\<close>)
  moreover have "host_read (um_host u') (q + of_nat k) (length bs + (m - length bs)) = bs @ replicate (m - length bs) 0"
  proof -
    have "host_read (um_host u') (q + of_nat k) (length bs) = bs"
      using host_read_write_same [of bs] assms(4-6) by (simp add: u'_def)
    moreover have "host_read (um_host u') (q + of_nat k + of_nat (length bs)) (m - length bs) = replicate (m - length bs) 0"
      using host_read_write_above [of bs "length bs" "m - length bs" "um_host u" "q + of_nat k"]
        host_read_zeroed [of "k + length bs" "m - length bs" sz q mem] assms(3-6) by (simp add: u'_def add.assoc)
    ultimately show ?thesis unfolding host_read_append by simp
  qed
  ultimately show "copy_from_user u' (g + of_nat k) m = (0, bs @ replicate (m - length bs) 0)" using assms(6) by simp
  assume x: "\<not> x - q < sz"
  have "\<not> unat (x - (q + of_nat k)) < length bs"
  proof
    assume l: "unat (x - (q + of_nat k)) < length bs"
    have "unat (of_nat k :: 64 word) = k" using assms(4,5) by (simp add: unat_of_nat)
    then have "unat (x - q) = unat (x - (q + of_nat k)) + k"
      using unat_end [of "x - (q + of_nat k)" "of_nat k"] l assms(4-6) by simp
    then show False using x l assms(4,6) by (simp add: word_less_nat_alt)
  qed
  then show "um_host u' x = mem x" using x by (simp add: u'_def host_write_def assms(3) zeroed_def)
qed

text \<open>
  C13: Loading a segment maps the pages it touches at its address with its protection, and nothing
  else; there the guest finds the bytes of the file followed by zeros up to the size in memory.
\<close>

theorem segment_loaded:
  fixes ph base
  defines "va \<equiv> p_vaddr ph + base"
  defines "g \<equiv> va AND NOT 0xFFF" and "sz \<equiv> roundup (p_memsz ph + (va AND 0xFFF)) 0x1000"
  assumes "map_room st g sz" "map_host h st g sz (elf_prot (p_flags ph)) q" "g \<noteq> 0" "p_memsz ph \<noteq> 0"
    and "unat (p_filesz ph) \<le> unat (p_memsz ph)" "unat (p_memsz ph) \<le> 2 ^ 31 - 8192" "unat va + unat (p_memsz ph) + 16384 < 2 ^ 64"
    and "unat (p_offset ph) + unat (p_filesz ph) \<le> length img"
  shows "\<exists>st'. load_segment h img base ph st = Inr (g + sz, st') \<and> um_ok (x_user st') \<and>
    view (um_proc (x_user st')) = mapped g sz q (elf_prot (p_flags ph)) 0x32 (- 1) (view (um_proc (x_user st))) \<and>
    copy_from_user (x_user st') va (unat (p_memsz ph)) =
      (0, take (unat (p_filesz ph)) (drop (unat (p_offset ph)) img) @ replicate (unat (p_memsz ph) - unat (p_filesz ph)) 0) \<and>
    (\<forall>x. \<not> x - q < sz \<longrightarrow> um_host (x_user st') x = um_host (x_user st) x)"
proof -
  define off where "off = va AND 0xFFF"
  define bs where "bs = take (unat (p_filesz ph)) (drop (unat (p_offset ph)) img)"
  have len: "length bs = unat (p_filesz ph)" using assms(11) by (simp add: bs_def)
  have va: "g + off = va" "unat off < 4096" "is_page_aligned g PAGE_4KB" using page_split [of va] page_of [of va] by (simp_all add: g_def off_def)
  have "unat g \<le> unat va" unfolding g_def by (simp add: word_and_le2 flip: word_le_nat_alt)
  moreover have mo: "unat (p_memsz ph + off) = unat (p_memsz ph) + unat off"
    using va(2) assms(9) by (subst unat_add_lem [THEN iffD1]) simp_all
  ultimately have sz: "is_page_aligned sz PAGE_4KB" "unat (p_memsz ph) + unat off \<le> unat sz" "unat sz < unat (p_memsz ph) + unat off + 4096"
    using roundup_is_aligned [of "p_memsz ph + off"] va(2) assms(9) by (simp_all add: sz_def flip: off_def)
  have "off \<le> va" unfolding off_def by (rule word_and_le2)
  then have "unat (va - off) = unat va - unat off" "unat off \<le> unat va" by (simp_all add: unat_sub word_le_nat_alt)
  moreover have "g = va - off" unfolding va(1) [symmetric] by simp
  ultimately have gv: "unat g + unat off = unat va" by simp
  have "0 < unat (p_memsz ph)" using assms(7) by (simp add: unat_gt_0)
  then have r: "sz \<noteq> 0" "unat sz \<le> 2 ^ 31" "unat g + unat sz < 2 ^ 64" using sz va(2) assms(9,10) gv by auto
  obtain st1 where st1: "x_mmap h g sz (elf_prot (p_flags ph)) st = Inr ((), st1)" "um_ok (x_user st1)" "contig (x_user st1) g q (unat sz)"
      "um_host (x_user st1) = zeroed q sz (um_host (x_user st))"
      "view (um_proc (x_user st1)) = mapped g sz q (elf_prot (p_flags ph)) 0x32 (- 1) (view (um_proc (x_user st)))"
    using x_mmap_contig [OF assms(4,5) va(3) sz(1) assms(6) r] .
  let ?m = "unat (p_memsz ph)" and ?u = "(x_user st1)\<lparr>um_host := host_write (um_host (x_user st1)) (q + of_nat (unat off)) bs\<rparr>"
  have k: "unat off + ?m \<le> unat sz" "length bs \<le> ?m" using sz(2) assms(8) len by simp_all
  have gk: "g + of_nat (unat off) = va" using va(1) by simp
  note F = fill_zeroed [OF st1(2-4) k(1) r(2) k(2), unfolded gk]
  have e: "unat (g + sz) = unat g + unat sz" by (rule unat_end [OF r(3)])
  have "is_page_aligned (g + sz) PAGE_4KB" using va(3) sz(1) by (simp add: is_page_aligned_4KB e mod_eq_0_iff_dvd)
  then have top: "roundup (g + sz) 0x1000 = g + sz"
    by (rule roundup_aligned) (use e va(2) sz gv assms(10) in linarith)
  have load: "load_segment h img base ph st = Inr (g + sz, set_user ?u st1)"
    unfolding load_segment_def Let_def va_def [symmetric] g_def [symmetric] off_def [symmetric]
    using assms(6) sz_def st1(1) F(1) len top by (simp add: va(1) x_copy_def flip: off_def bs_def)
  then show ?thesis using st1(2,5) F(2,3) len by (auto simp: um_ok_def bs_def)
qed

lemma two_zeros: "replicate 2 x = [x, x]"
  by (simp add: numeral_2_eq_2)

theorem segment_loaded_witness:
  "\<exists>st'. load_segment (ex_xh []) [1, 2, 3, 4, 5] 0 \<lparr>p_type = 1, p_flags = 5, p_offset = 2, p_vaddr = 0x400010, p_filesz = 3, p_memsz = 5\<rparr> ex_exec =
      Inr (0x401000, st') \<and> copy_from_user (x_user st') 0x400010 5 = (0, [3, 4, 5, 0, 0])"
  using segment_loaded [where ph = "\<lparr>p_type = 1, p_flags = 5, p_offset = 2, p_vaddr = 0x400010, p_filesz = 3, p_memsz = 5\<rparr>" and
      base = 0 and img = "[1, 2, 3, 4, 5]" and st = ex_exec and h = "ex_xh []" and q = "0x7000000"] ex_exec_room(3) ex_exec_host [of "[]" ex_exec "0x400000" "0x1000" "elf_prot 5"]
  by (auto simp: roundup_def two_zeros)

section \<open>Leaving the old program\<close>

definition region_calls :: "mm_region \<Rightarrow> host_call list" where
  "region_calls r = [Host_munmap (r_haddr r) (r_size r), Hv_vm_unmap (r_gaddr r) (r_size r)]"

lemma destroy_loop_ok:
  "\<forall>i \<in> set is. is_page_aligned (r_size (mm_store (vm_mm v) i)) PAGE_4KB \<Longrightarrow>
    destroy_loop is v = Inr (v\<lparr>vm_calls := vm_calls v @ concat (map (\<lambda>i. region_calls (mm_store (vm_mm v) i)) is)\<rparr>)"
  by (induction "is" arbitrary: v) (simp_all add: vmm_munmap_def call_def region_calls_def Let_def)

lemma view_empty: "view (init_mm m) = Map.empty"
  by (simp add: fun_eq_iff view_def find_region_def init_mm_def)

lemma mm_inv_empty: "mm_inv (init_mm m)"
  by (simp add: mm_inv_def init_mm_def init_mmap_def rb_tree_ok_def regions_def regions_ok_def)

definition reset_to :: "l_sigaction \<Rightarrow> l_sigaction" where
  "reset_to a = (if lsa_handler a = LINUX_SIG_DFL \<or> lsa_handler a = LINUX_SIG_IGN then a else fresh_action LINUX_SIG_DFL)"

lemma fold_reset_same [simp]:
  "sg_regs (fold (reset_action h) js st) = sg_regs st" "sg_mask (fold (reset_action h) js st) = sg_mask st"
  "sg_pending (fold (reset_action h) js st) = sg_pending st"
  by (induction js arbitrary: st) (simp_all add: reset_action_def Let_def)

lemma reset_action_actions: "sg_actions (reset_action h i st) = (sg_actions st)[i := reset_to (sg_actions st ! i)]"
  by (simp add: reset_action_def reset_to_def Let_def)

lemma fold_reset_actions:
  assumes "m \<le> length (sg_actions st)"
  shows "sg_actions (fold (reset_action h) [0..<m] st) = map reset_to (take m (sg_actions st)) @ drop m (sg_actions st)"
  using assms
proof (induction m)
  case (Suc m)
  let ?st = "fold (reset_action h) [0..<m] st"
  have IH: "sg_actions ?st = map reset_to (take m (sg_actions st)) @ drop m (sg_actions st)" using Suc by simp
  have d: "drop m (sg_actions st) = sg_actions st ! m # drop (Suc m) (sg_actions st)" using Suc.prems by (simp add: Cons_nth_drop_Suc)
  have "sg_actions (reset_action h m ?st) = map reset_to (take (Suc m) (sg_actions st)) @ drop (Suc m) (sg_actions st)"
    using Suc.prems unfolding reset_action_actions IH d by (simp add: take_Suc_conv_app_nth list_update_append nth_append)
  then show ?case by simp
qed simp

lemma vkern_close_ok:
  assumes "files_ok (k_files s)"
  obtains x s' where "vkern_close h fd s = Inr (x, s')" "files_ok (k_files s')" "k_user s' = k_user s"
    "fi_fdtable (k_files s') = fi_fdtable (k_files s)"
proof -
  have "\<exists>x s'. do_close h fi_vkern put_vkern fd s1 = Inr (x, s') \<and> files_ok (k_files s') \<and> k_user s' = k_user s1 \<and>
      fi_fdtable (k_files s') = fi_fdtable (k_files s1)" if "files_ok (k_files s1)" for s1
    using that do_close_bad [of fi_vkern s1 fd h put_vkern] do_close_open [of fi_vkern s1 fd _ h put_vkern]
    by (cases "fd_view (fi_vkern (k_files s1)) fd") (fastforce simp: files_ok_def put_vkern_def)+
  from this [of "s\<lparr>k_trace := k_trace s @ [Wrlock]\<rparr>"] assms
  show thesis using that by (auto simp: vkern_close_def locked_def act_bind_def act_ret_def emit_def)
qed

lemma prepare_newproc_ok:
  fixes st
  defines "old \<equiv> x_sig st" and "m \<equiv> um_proc (x_user st)"
  assumes "files_ok (k_files (x_kern st))" "um_ok (x_user st)" "length (sg_actions (x_sig st)) = 64"
  shows "\<exists>st'. prepare_newproc h st = Inr st' \<and> um_ok (x_user st') \<and> view (um_proc (x_user st')) = Map.empty \<and>
    x_calls st' = x_calls st @ concat (map region_calls (regions m)) \<and>
    files_ok (k_files (x_kern st')) \<and>
    user_view (k_files (x_kern st')) = (\<lambda>fd. if user_view (k_files (x_kern st)) fd = Some True then None else user_view (k_files (x_kern st)) fd) \<and>
    sg_actions (x_sig st') = map reset_to (take 32 (sg_actions old)) @ drop 32 (sg_actions old) \<and>
    sg_mask (x_sig st') = sg_mask old \<and> sg_pending (x_sig st') = sg_pending old \<and> sg_sas (x_sig st') = no_sas \<and>
    (\<forall>r \<in> {RAX, RBX, RCX, RDX, RSI, RDI, R8, R9, R10, R11, R12, R13, R14, R15}. sg_regs (x_sig st') r = 0) \<and>
    sg_regs (x_sig st') RIP = sg_regs old RIP \<and> p_cred (x_proc st') = p_cred (x_proc st) \<and>
    x_ldtr st' = 0 \<and> x_fpu st' = fx_image (xh_stack h)"
proof -
  let ?st = "st\<lparr>x_proc := (x_proc st)\<lparr>p_nr_tasks := 1\<rparr>\<rparr>"
  have al: "\<forall>i \<in> set (mm_regions m). is_page_aligned (r_size (mm_store m i)) PAGE_4KB"
    using assms(4) by (auto simp: um_ok_def m_def mm_inv_def regions_def regions_ok_def region_ok_def)
  obtain st1 where st1: "x_destroy_mm ?st = Inr st1" "um_proc (x_user st1) = init_mm (m\<lparr>mm_region_tree := Null, mm_regions := []\<rparr>)"
      "um_kern (x_user st1) = um_kern (x_user st)" "x_sig st1 = x_sig st" "k_files (x_kern st1) = k_files (x_kern st)"
      "x_calls st1 = x_calls st @ concat (map region_calls (regions m))" "x_proc st1 = (x_proc st)\<lparr>p_nr_tasks := 1\<rparr>"
    using al by (simp add: x_destroy_mm_def destroy_mm_def destroy_loop_ok Let_def x_user_def set_user_def m_def regions_def o_def)
  define st2 where "st2 = init_reg_state h st1"
  have st2: "x_user st2 = x_user st1" "x_kern st2 = x_kern st1" "x_calls st2 = x_calls st1" "p_cred (x_proc st2) = p_cred (x_proc st1)"
      "sg_actions (x_sig st2) = sg_actions (x_sig st1)" "sg_mask (x_sig st2) = sg_mask (x_sig st1)" "sg_pending (x_sig st2) = sg_pending (x_sig st1)"
      "\<forall>r \<in> {RAX, RBX, RCX, RDX, RSI, RDI, R8, R9, R10, R11, R12, R13, R14, R15}. sg_regs (x_sig st2) r = 0"
      "sg_regs (x_sig st2) RIP = sg_regs (x_sig st1) RIP" "x_ldtr st2 = 0" "x_fpu st2 = fx_image (xh_stack h)"
    by (simp_all add: st2_def init_reg_state_def Let_def x_reg_def x_user_def)
  define st3 where "st3 = st2\<lparr>x_sig := reset_signal_state (xh_sig h) (x_sig st2),
      x_proc := (x_proc st2)\<lparr>p_clear_child_tid := 0, p_robust_list := 0\<rparr>\<rparr>"
  have "length (sg_actions (x_sig st2)) = 64" using st2(5) st1(4) assms(5) by simp
  then have st3: "sg_actions (x_sig st3) = map reset_to (take 32 (sg_actions (x_sig st2))) @ drop 32 (sg_actions (x_sig st2))"
      "sg_mask (x_sig st3) = sg_mask (x_sig st2)" "sg_pending (x_sig st3) = sg_pending (x_sig st2)" "sg_sas (x_sig st3) = no_sas"
      "sg_regs (x_sig st3) = sg_regs (x_sig st2)" "x_kern st3 = x_kern st2" "x_calls st3 = x_calls st2" "p_cred (x_proc st3) = p_cred (x_proc st2)"
      "x_ldtr st3 = x_ldtr st2" "x_fpu st3 = x_fpu st2"
    by (simp_all add: st3_def reset_signal_state_def fold_reset_actions reset_sas_def)
  have kf: "k_files (x_kern st3) = k_files (x_kern st)" by (simp only: st3(6) st2(2) st1(5))
  obtain s' where s': "close_cloexec (xh_fs h) (x_kern st3) = Inr ((), s')" "files_ok (k_files s')" "k_user s' = k_user (x_kern st3)"
      "user_view (k_files s') = (\<lambda>fd. if user_view (k_files (x_kern st)) fd = Some True then None else user_view (k_files (x_kern st)) fd)"
    using close_cloexec_ok [of "x_kern st3" "xh_fs h"] assms(3) unfolding kf by (auto simp: same_but_user_def)
  have "prepare_newproc h st = Inr (st3\<lparr>x_kern := s'\<rparr>)"
    unfolding prepare_newproc_def st1(1) bind_run.simps Let_def st2_def [symmetric] st3_def [symmetric] by (simp add: on_kern_def s'(1))
  moreover have "x_user (st3\<lparr>x_kern := s'\<rparr>) = x_user st1" using s'(3) st2 st3 by (simp add: x_user_def)
  ultimately show ?thesis
    using s'(2,4) st1 st2 st3 assms(4) by (simp add: um_ok_def mm_inv_empty view_empty old_def)
qed

text \<open>
  C14: Once \<open>execve\<close> has accepted a file it forgets the old program: every region is unmapped, from
  the host and from the virtual machine, the general registers are zero, the floating point unit
  has the image of \<open>init_fpu\<close>, the handlers of the first 32 signals are reset and ignored ones stay ignored, and exactly the descriptors marked
  close-on-exec are closed.  The instruction pointer, the signal mask, the pending signals and the
  handlers of the signals above 32 are those of the old program.
\<close>

theorem prepare_newproc_spec:
  fixes st
  defines "old \<equiv> x_sig st" and "m \<equiv> um_proc (x_user st)"
  assumes "files_ok (k_files (x_kern st))" "um_ok (x_user st)" "length (sg_actions (x_sig st)) = 64"
  shows "\<exists>st'. prepare_newproc h st = Inr st' \<and> um_ok (x_user st') \<and> view (um_proc (x_user st')) = Map.empty \<and>
    x_calls st' = x_calls st @ concat (map region_calls (regions m)) \<and>
    files_ok (k_files (x_kern st')) \<and>
    user_view (k_files (x_kern st')) = (\<lambda>fd. if user_view (k_files (x_kern st)) fd = Some True then None else user_view (k_files (x_kern st)) fd) \<and>
    sg_actions (x_sig st') = map reset_to (take 32 (sg_actions old)) @ drop 32 (sg_actions old) \<and>
    sg_mask (x_sig st') = sg_mask old \<and> sg_pending (x_sig st') = sg_pending old \<and> sg_sas (x_sig st') = no_sas \<and>
    (\<forall>r \<in> {RAX, RBX, RCX, RDX, RSI, RDI, R8, R9, R10, R11, R12, R13, R14, R15}. sg_regs (x_sig st') r = 0) \<and>
    sg_regs (x_sig st') RIP = sg_regs old RIP \<and> p_cred (x_proc st') = p_cred (x_proc st) \<and>
    x_ldtr st' = 0 \<and> x_fpu st' = fx_image (xh_stack h)"
  unfolding old_def m_def by (rule prepare_newproc_ok [OF assms(3-5)])

theorem prepare_newproc_spec_witness:
  "\<exists>st'. prepare_newproc (ex_xh []) ex_exec = Inr st' \<and> view (um_proc (x_user st')) 0x11000 = None \<and>
    user_view (k_files (x_kern st')) 1 = None \<and> user_view (k_files (x_kern st')) 0 = Some False \<and>
    lsa_handler (sg_actions (x_sig st') ! 9) = 0"
proof -
  have "files_ok (k_files (x_kern ex_exec))" "length (sg_actions (x_sig ex_exec)) = 64"
    by (simp_all add: ex_exec_def FdProps.ex_kern_def ex_files_ok ex_sig_def)
  from prepare_newproc_spec [OF this(1) ex_exec_room(1) this(2), of "ex_xh []"]
  show ?thesis
    by (auto simp: ex_exec_def FdProps.ex_kern_def ex_view ex_sig_def nth_append reset_to_def fresh_action_def ex_act_def)
qed

text \<open>
  C40: A file that is neither an ELF file nor a script is refused only after the old program is gone:
  \<open>execve\<close> returns \<open>-ENOEXEC\<close> to an instruction pointer where nothing is mapped any more.
\<close>

theorem exec_refused_too_late:
  assumes "files_ok (k_files (x_kern st))" "um_ok (x_user st)" "length (sg_actions (x_sig st)) = 64"
    and "\<not> is_elf (xh_data h fd)" "take 2 (xh_data h fd) \<noteq> [0x23, 0x21]"
    and "fst (ph_answer (xh_proc h) (Seteuid (word_of_int (fst (ph_answer (xh_proc h) Getuid))))) = 0"
  shows "\<exists>st'. exec_file exec h fd elf_path argv envp st = Inr (- LINUX_ENOEXEC, st') \<and>
    sg_regs (x_sig st') RIP = sg_regs (x_sig st) RIP \<and> view (um_proc (x_user st')) = Map.empty"
proof -
  obtain st1 where st1: "prepare_newproc h st = Inr st1" "view (um_proc (x_user st1)) = Map.empty" "files_ok (k_files (x_kern st1))"
      "sg_regs (x_sig st1) RIP = sg_regs (x_sig st) RIP"
    using prepare_newproc_ok [OF assms(1-3)] by blast
  obtain x s' where s': "vkern_close (xh_fs h) fd (x_kern st1) = Inr (x, s')" "k_user s' = k_user (x_kern st1)"
    using vkern_close_ok [OF st1(3)] by metis
  have "exec_file exec h fd elf_path argv envp st =
      Inr (- LINUX_ENOEXEC, st1\<lparr>x_kern := s',
        x_proc := p_call (Seteuid (word_of_int (fst (ph_answer (xh_proc h) Getuid)))) (p_call Getuid (x_proc st1))\<rparr>)"
    using assms(4-6) s'(1) st1(1) by (simp add: exec_file_def on_kern_def drop_privilege_def Let_def)
  then show ?thesis using st1(2,4) s'(2) by (simp add: x_user_def)
qed

theorem exec_refused_too_late_witness:
  "\<exists>st'. exec_file (\<lambda>_ _ st. Inr (0, st)) (ex_xh [1, 2, 3, 4]) 192 [] [] [] ex_exec = Inr (- LINUX_ENOEXEC, st') \<and>
    view (um_proc (x_user st')) (sg_regs (x_sig st') RIP) = None"
proof -
  have "files_ok (k_files (x_kern ex_exec))" "length (sg_actions (x_sig ex_exec)) = 64"
    by (simp_all add: ex_exec_def FdProps.ex_kern_def ex_files_ok ex_sig_def)
  moreover have "\<not> is_elf (xh_data (ex_xh [1, 2, 3, 4]) 192)" "take 2 (xh_data (ex_xh [1, 2, 3, 4]) 192) \<noteq> [0x23, 0x21]"
      "fst (ph_answer (xh_proc (ex_xh [1, 2, 3, 4])) (Seteuid (word_of_int (fst (ph_answer (xh_proc (ex_xh [1, 2, 3, 4])) Getuid))))) = 0"
    by (simp_all add: ex_xh_def is_elf_def ex_ph_def)
  ultimately obtain st' where "exec_file (\<lambda>_ _ st. Inr (0, st)) (ex_xh [1, 2, 3, 4]) 192 [] [] [] ex_exec = Inr (- LINUX_ENOEXEC, st')"
      "view (um_proc (x_user st')) = Map.empty"
    using exec_refused_too_late [OF _ ex_exec_room(1)] by metis
  then show ?thesis by auto
qed

end
