(* ===== verification/Net.thy ===== *)
theory Net
  imports FileIo
begin

text \<open>
  The system calls on sockets, \<open>src/net/net.c\<close>, on the state of the descriptors.  The host reports
  at most as many bytes as it was asked for; the stack is taken to have room for what \<open>alloca\<close>
  asks.  A descriptor is passed to the host as the guest gave it.
\<close>

section \<open>Addresses\<close>

definition LINUX_AF :: "const_decl list" where
  "LINUX_AF = [Decl_Linux 0 (Darwin 0), Decl_Linux 1 (Darwin 1), Decl_Alias 1, Decl_Alias 1, Decl_Linux 2 (Darwin 2),
     Decl_Linux 3 (LINUX_SPECIFIC 0), Decl_Linux 4 (Darwin 23), Decl_Linux 5 (Darwin 16), Decl_Linux 10 (Darwin 30)]"

definition linux_to_darwin_sa_family :: "int \<Rightarrow> int" where
  "linux_to_darwin_sa_family v = linux_to_darwin 0 LINUX_AF v"

definition darwin_to_linux_sa_family :: "int \<Rightarrow> int" where
  "darwin_to_linux_sa_family v = darwin_to_linux 0 LINUX_AF v"

abbreviation (input) AF_UNIX :: int where "AF_UNIX \<equiv> 1"
abbreviation (input) AF_INET :: int where "AF_INET \<equiv> 2"
abbreviation (input) AF_INET6 :: int where "AF_INET6 \<equiv> 30"
abbreviation (input) sizeof_sockaddr_un :: nat where "sizeof_sockaddr_un \<equiv> 106"

text \<open>The family is two bytes in Linux; in Darwin the length and the family are one byte each.\<close>

definition l_family :: "byte list \<Rightarrow> int" where
  "l_family bs = uint (le_word (get_field 0 2 bs) :: 16 word)"

definition strnlen :: "byte list \<Rightarrow> nat \<Rightarrow> nat" where
  "strnlen bs n = length (takeWhile (\<lambda>b. b \<noteq> 0) (take n bs))"

definition unix_name_len :: "byte list \<Rightarrow> nat" where
  "unix_name_len bs =
    (if bs ! 2 = 0 then strnlen (drop 3 bs) (length bs - 3) else strnlen (drop 2 bs) (length bs - 2))"

text \<open>
  \<open>None\<close> is the result -1.  An address of less than two bytes, or of a socket file without a path, is
  read behind its end.
\<close>

definition linux_to_darwin_sockaddr :: "byte list \<Rightarrow> byte list option run" where
  "linux_to_darwin_sockaddr bs =
    (if length bs < 2 then Inl Out_of_bounds
     else
       let fam = linux_to_darwin_sa_family (l_family bs); done' = (\<lambda>n. Inr (Some (of_nat n # word_of_int fam # drop 2 bs))) in
       if fam = AF_UNIX then
         if length bs < 3 then Inl Out_of_bounds
         else if sizeof_sockaddr_un < 2 + unix_name_len bs then Inr None
         else done' sizeof_sockaddr_un
       else if fam = AF_INET then done' 16
       else if fam = AF_INET6 \<and> length bs = 24 then Inl Assert_failed
       else if fam = - 1 then Inr None
       else done' (length bs))"

text \<open>The buffer that the host has filled; its first byte is the length of the address.\<close>

definition darwin_to_linux_sockaddr :: "byte list \<Rightarrow> byte list run" where
  "darwin_to_linux_sockaddr buf =
    (if length buf < 2 then Inl Out_of_bounds
     else
       let n = unat (buf ! 0) in
       if length buf < n \<or> n < 2 then Inl Out_of_bounds
       else Inr (le_bytes 2 (word_of_int (darwin_to_linux_sa_family (uint (buf ! 1))) :: 16 word) @ take (n - 2) (drop 2 buf)))"

section \<open>Making and connecting\<close>

abbreviation (input) LINUX_SOCK_NONBLOCK :: flags where "LINUX_SOCK_NONBLOCK \<equiv> 0x800"
abbreviation (input) LINUX_SOCK_CLOEXEC :: flags where "LINUX_SOCK_CLOEXEC \<equiv> 0x80000"
abbreviation (input) LINUX_ENOBUFS :: int where "LINUX_ENOBUFS \<equiv> 105"

definition sys_socket :: "host \<Rightarrow> int \<Rightarrow> flags \<Rightarrow> int \<Rightarrow> int act" where
  "sys_socket h family type protocol =
    locked Wrlock (act_bind (wrap_call h (Sock (Socket (linux_to_darwin_sa_family family)
        (type AND NOT (LINUX_SOCK_NONBLOCK OR LINUX_SOCK_CLOEXEC)) protocol))) (\<lambda>fd.
      if fd < 0 then act_ret fd
      else act_bind (if type AND LINUX_SOCK_NONBLOCK \<noteq> 0 then wrap_call h (Fd (Fcntl fd F_SETFL 4)) else act_ret 0) (\<lambda>e.
      if e < 0 then act_ret e
      else act_bind (if type AND LINUX_SOCK_CLOEXEC \<noteq> 0 then wrap_call h (Fd (Fcntl fd F_SETFD 1)) else act_ret 0) (\<lambda>e.
      if e < 0 then act_ret e
      else register_or_close h fd (type AND LINUX_SOCK_CLOEXEC \<noteq> 0)))))"

text \<open>A copy into memory from \<open>malloc\<close>, which is not checked; \<open>malloc(0)\<close> yields a pointer.\<close>

definition fetch_malloc :: "host \<Rightarrow> gaddr \<Rightarrow> nat \<Rightarrow> byte list option act" where
  "fetch_malloc h a n s =
    (if \<not> h_alloc h (Malloc n) \<and> fst (copy_from_user (k_user s) a n) < n then Inl Null_deref else fetch a n s)"

definition with_sockaddr :: "host \<Rightarrow> byte list \<Rightarrow> (byte list \<Rightarrow> int act) \<Rightarrow> int act" where
  "with_sockaddr h bs m =
    (if \<not> h_alloc h (Malloc (length bs)) \<and> bs \<noteq> [] then (\<lambda>s. Inl Null_deref)
     else act_bind (look (\<lambda>s. linux_to_darwin_sockaddr bs)) (\<lambda>addr. case addr of
       None \<Rightarrow> act_ret (- LINUX_EINVAL)
     | Some a \<Rightarrow> m a))"

definition sys_connect :: "host \<Rightarrow> int \<Rightarrow> gaddr \<Rightarrow> 64 word \<Rightarrow> int act" where
  "sys_connect h sockfd addr_ptr addrlen =
    act_bind (fetch_malloc h addr_ptr (unat addrlen)) (\<lambda>addr. case addr of
      None \<Rightarrow> act_ret (- LINUX_EFAULT)
    | Some bs \<Rightarrow> with_sockaddr h bs (\<lambda>a. wrap_call h (Sock (Connect sockfd a (unat (a ! 0))))))"

definition sys_bind :: "host \<Rightarrow> int \<Rightarrow> gaddr \<Rightarrow> int \<Rightarrow> int act" where
  "sys_bind h sockfd addr_ptr addrlen =
    act_bind (fetch_malloc h addr_ptr (size_t addrlen)) (\<lambda>addr. case addr of
      None \<Rightarrow> act_ret (- LINUX_EFAULT)
    | Some bs \<Rightarrow> with_sockaddr h bs (\<lambda>a. wrap_call h (Sock (Bind sockfd a (unat (word_of_int addrlen :: 32 word))))))"

definition sys_shutdown :: "host \<Rightarrow> int \<Rightarrow> int \<Rightarrow> int act" where
  "sys_shutdown h sock how = wrap_call h (Sock (Shutdown sock how))"

definition sys_listen :: "host \<Rightarrow> int \<Rightarrow> int \<Rightarrow> int act" where
  "sys_listen h sock backlog = wrap_call h (Sock (Listen sock backlog))"

section \<open>Options\<close>

definition linux_to_darwin_sockopt_level :: "int \<Rightarrow> int" where
  "linux_to_darwin_sockopt_level level = (if level = 1 then 0xFFFF else level)"

definition sockopt_names :: "(int \<times> int) list" where
  "sockopt_names = [(1, 1), (2, 4), (3, 0x1008), (4, 0x1007), (5, 0x10), (6, 0x20), (7, 0x1001), (8, 0x1002), (9, 8), (10, 0x100),
     (13, 0x80), (18, 0x1004), (19, 0x1003), (20, 0x1006), (21, 0x1005), (29, 0x400), (30, 2)]"

definition to_host_sockopt_name :: "int \<Rightarrow> int" where
  "to_host_sockopt_name name = (case map_of sockopt_names name of None \<Rightarrow> - 1 | Some n \<Rightarrow> n)"

definition sys_setsockopt :: "host \<Rightarrow> int \<Rightarrow> int \<Rightarrow> int \<Rightarrow> gaddr \<Rightarrow> 32 word \<Rightarrow> int act" where
  "sys_setsockopt h fd level optname optval_ptr opt_len =
    act_bind (fetch_malloc h optval_ptr (unat opt_len)) (\<lambda>optval. case optval of
      None \<Rightarrow> act_ret (- LINUX_EFAULT)
    | Some bs \<Rightarrow> wrap_call h (Sock (Setsockopt fd (linux_to_darwin_sockopt_level level) (to_host_sockopt_name optname) bs)))"

text \<open>What \<open>getsockopt\<close> leaves in the buffer is as long as it reports.\<close>

definition sys_getsockopt :: "host \<Rightarrow> int \<Rightarrow> int \<Rightarrow> int \<Rightarrow> gaddr \<Rightarrow> gaddr \<Rightarrow> int act" where
  "sys_getsockopt h fd level optname optval_ptr optlen_ptr =
    act_bind (fetch optlen_ptr 4) (\<lambda>l. case l of
      None \<Rightarrow> act_ret (- LINUX_EFAULT)
    | Some bs \<Rightarrow>
        let n = unat (le_word bs :: 32 word);
            c = Sock (Getsockopt fd (linux_to_darwin_sockopt_level level) (to_host_sockopt_name optname) n);
            optlen = word_of_int (out_int h c) :: 32 word in
        act_bind (wrap_call h c) (\<lambda>r.
          if r < 0 then act_ret r
          else act_bind (store optval_ptr (filled h (out_bytes h c) (unat optlen))) (\<lambda>fine.
            if \<not> fine then act_ret (- LINUX_EFAULT) else store_result optlen_ptr (le_bytes 4 optlen) r)))"

section \<open>Sending\<close>

text \<open>
  \<open>sendto\<close> copies the address into a structure of 16 bytes on the stack, and ignores a fault of the
  data: what was not copied is what the memory held.
\<close>

definition send_data :: "host \<Rightarrow> int \<Rightarrow> gaddr \<Rightarrow> int \<Rightarrow> flags \<Rightarrow> byte list option \<Rightarrow> nat \<Rightarrow> int act" where
  "send_data h sock buf_ptr len fls addr addrlen =
    (if \<not> h_alloc h (Malloc (size_t len)) then act_ret (- LINUX_ENOMEM)
     else act_bind (look (\<lambda>s. Inr (copy_from_user (k_user s) buf_ptr (size_t len)))) (\<lambda>(rest, bs).
       if to_cint (int rest) < 0 then act_ret (- LINUX_EFAULT)
       else wide_call h (Sock (Sendto sock (filled h bs (size_t len)) fls addr addrlen))))"

definition sys_sendto :: "host \<Rightarrow> int \<Rightarrow> gaddr \<Rightarrow> int \<Rightarrow> flags \<Rightarrow> gaddr \<Rightarrow> 32 word \<Rightarrow> int act" where
  "sys_sendto h sock buf_ptr len fls addr_ptr addrlen =
    (let n = unat addrlen in
     if addr_ptr = 0 then send_data h sock buf_ptr len fls None n
     else act_bind (look (\<lambda>s. Inr (copy_from_user (k_user s) addr_ptr n))) (\<lambda>(rest, bs).
       if 16 < length bs then (\<lambda>s. Inl Out_of_bounds)
       else if rest \<noteq> 0 then act_ret (- LINUX_EFAULT)
       else with_sockaddr h bs (\<lambda>a. send_data h sock buf_ptr len fls (Some a) n)))"

definition msg_flag_table :: "(flags \<times> flags) list" where
  "msg_flag_table = [(1, 1), (2, 2), (4, 4), (0x80, 8), (0x20, 0x10), (8, 0x20), (0x100, 0x40), (0x40, 0x80)]"

definition linux_to_darwin_msg_flags :: "flags \<Rightarrow> int" where
  "linux_to_darwin_msg_flags fls =
    (if fls AND NOT (foldr (\<lambda>(a, b) m. a OR m) msg_flag_table 0) \<noteq> 0 then - LINUX_EOPNOTSUPP
     else sint (flag_conv msg_flag_table fls 0))"

text \<open>\<open>struct l_msghdr\<close> of 56 bytes; \<open>struct l_mmsghdr\<close> has the length of the message at 56.\<close>

record l_msghdr =
  msg_name :: gaddr
  msg_namelen :: "32 word"
  msg_iov :: gaddr
  msg_iovlen :: "64 word"
  msg_control :: gaddr
  msg_controllen :: "64 word"
  msg_flags :: flags

definition decode_msghdr :: "byte list \<Rightarrow> l_msghdr" where
  "decode_msghdr bs = \<lparr>msg_name = le_word (get_field 0 8 bs), msg_namelen = le_word (get_field 8 4 bs),
     msg_iov = le_word (get_field 16 8 bs), msg_iovlen = le_word (get_field 24 8 bs), msg_control = le_word (get_field 32 8 bs),
     msg_controllen = le_word (get_field 40 8 bs), msg_flags = le_word (get_field 48 4 bs)\<rparr>"

definition LINUX_CMSG_FIRSTHDR :: "l_msghdr \<Rightarrow> gaddr" where
  "LINUX_CMSG_FIRSTHDR m = (if 16 \<le> msg_controllen m then msg_control m else 0)"

abbreviation (input) LINUX_MSG_NOSIGNAL :: flags where "LINUX_MSG_NOSIGNAL \<equiv> 0x4000"

text \<open>
  The end of \<open>do_sendmsg\<close>.  For flags that have no counterpart it returns a field that was never
  set.
\<close>

definition send_message :: "host \<Rightarrow> int \<Rightarrow> byte list option \<Rightarrow> byte list list \<Rightarrow> flags \<Rightarrow> int act" where
  "send_message h sockfd name bufs fls =
    (let mf = linux_to_darwin_msg_flags (fls AND NOT LINUX_MSG_NOSIGNAL); opt = Sock (Setsockopt sockfd 0xFFFF 0x1022 [1, 0, 0, 0]);
         send = wide_call h (Sock (Sendmsg sockfd name bufs (word_of_int mf))) in
     if mf < 0 then act_ret (sint (le_word (uninit h 4) :: 32 word))
     else if fls AND LINUX_MSG_NOSIGNAL \<noteq> 0
     then act_bind (wrap_call h opt) (\<lambda>r. if r < 0 then (\<lambda>s. Inl Panicked) else send)
     else send)"

text \<open>The name is copied as a string: from its first zero on it is what the memory held.\<close>

definition message_name :: "host \<Rightarrow> gaddr \<Rightarrow> nat \<Rightarrow> byte list option option act" where
  "message_name h a n s =
    (if n = 0 then Inr (Some None, s)
     else case strncpy_from_user (k_user s) a n of (r, bs) \<Rightarrow> Inr (if r < 0 then None else Some (Some (filled h bs n)), s))"

definition do_sendmsg :: "host \<Rightarrow> int \<Rightarrow> l_msghdr \<Rightarrow> flags \<Rightarrow> int act" where
  "do_sendmsg h sockfd m fls =
    (if 0x7FFFFFFF < msg_controllen m then act_ret (- LINUX_ENOBUFS)
     else act_bind (message_name h (msg_name m) (unat (msg_namelen m))) (\<lambda>name. case name of
       None \<Rightarrow> act_ret (- LINUX_EFAULT)
     | Some nm \<Rightarrow>
         let iovlen = sint (ucast (msg_iovlen m) :: 32 word) in
         act_bind (fetch (msg_iov m) (size_t (16 * iovlen))) (\<lambda>liov. case liov of
           None \<Rightarrow> act_ret (- LINUX_EFAULT)
         | Some bs \<Rightarrow> act_bind (gather (decode_iovec bs iovlen)) (\<lambda>iov. case iov of
             None \<Rightarrow> act_ret (- LINUX_EFAULT)
           | Some bufs \<Rightarrow>
               if LINUX_CMSG_FIRSTHDR m \<noteq> 0 then act_ret (- LINUX_EINVAL) else send_message h sockfd nm bufs fls))))"

definition sys_sendmsg :: "host \<Rightarrow> int \<Rightarrow> gaddr \<Rightarrow> flags \<Rightarrow> int act" where
  "sys_sendmsg h sockfd msg_ptr fls =
    act_bind (fetch msg_ptr 56) (\<lambda>m. case m of
      None \<Rightarrow> act_ret (- LINUX_EFAULT)
    | Some bs \<Rightarrow> do_sendmsg h sockfd (decode_msghdr bs) fls)"

fun send_all :: "host \<Rightarrow> int \<Rightarrow> gaddr \<Rightarrow> flags \<Rightarrow> (nat \<times> l_msghdr) list \<Rightarrow> int \<Rightarrow> int act" where
  "send_all h sockfd p fls [] r = act_ret r"
| "send_all h sockfd p fls ((i, m) # ms) r =
    act_bind (do_sendmsg h sockfd m fls) (\<lambda>err.
      if err < 0 then act_ret err
      else act_bind (store (p + 64 * of_nat i + 56) (le_bytes 4 (word_of_int err :: 32 word))) (\<lambda>fine.
        if \<not> fine then act_ret (- LINUX_EFAULT) else send_all h sockfd p fls ms r))"

definition sys_sendmmsg :: "host \<Rightarrow> int \<Rightarrow> gaddr \<Rightarrow> 32 word \<Rightarrow> flags \<Rightarrow> int act" where
  "sys_sendmmsg h sockfd msgvec_ptr vlen fls =
    act_bind (fetch_malloc h msgvec_ptr (64 * unat vlen)) (\<lambda>msg. case msg of
      None \<Rightarrow> act_ret (- LINUX_EFAULT)
    | Some bs \<Rightarrow> send_all h sockfd msgvec_ptr fls
        (map (\<lambda>i. (i, decode_msghdr (get_field (64 * i) 56 bs))) [0..<unat vlen]) (sint vlen))"

section \<open>Receiving\<close>

text \<open>The room for an address that the guest asks for.\<close>

definition addr_room :: "gaddr \<Rightarrow> gaddr \<Rightarrow> nat option option act" where
  "addr_room addr_ptr addrlen_ptr =
    (if addr_ptr = 0 then act_ret (Some None)
     else act_bind (fetch addrlen_ptr 4) (\<lambda>l. act_ret (map_option (\<lambda>bs. Some (unat (le_word bs :: 32 word))) l)))"

text \<open>The address that call \<open>c\<close> left in its buffer is copied out, and its length.\<close>

definition store_addr :: "host \<Rightarrow> fs_call \<Rightarrow> nat option \<Rightarrow> gaddr \<Rightarrow> gaddr \<Rightarrow> int \<Rightarrow> int act" where
  "store_addr h c room addr_ptr addrlen_ptr r =
    (case room of None \<Rightarrow> act_ret r
     | Some n \<Rightarrow>
         act_bind (look (\<lambda>s. darwin_to_linux_sockaddr (filled h (fst (snd (out_sets h c))) n))) (\<lambda>addr.
         act_bind (store addr_ptr addr) (\<lambda>fine.
           if \<not> fine then act_ret (- LINUX_EFAULT)
           else store_result addrlen_ptr (le_bytes 4 (word_of_int (out_int h c) :: 32 word)) r)))"

definition with_room :: "gaddr \<Rightarrow> gaddr \<Rightarrow> (nat option \<Rightarrow> int act) \<Rightarrow> int act" where
  "with_room addr_ptr addrlen_ptr m =
    act_bind (addr_room addr_ptr addrlen_ptr) (\<lambda>room. case room of None \<Rightarrow> act_ret (- LINUX_EFAULT) | Some n \<Rightarrow> m n)"

definition sys_recvfrom :: "host \<Rightarrow> int \<Rightarrow> gaddr \<Rightarrow> int \<Rightarrow> flags \<Rightarrow> gaddr \<Rightarrow> gaddr \<Rightarrow> int act" where
  "sys_recvfrom h sock buf_ptr len fls addr_ptr addrlen_ptr =
    with_room addr_ptr addrlen_ptr (\<lambda>room.
      let c = Sock (Recvfrom sock (size_t len) fls room) in
      act_bind (wide_call h c) (\<lambda>ret.
        if ret < 0 then act_ret ret
        else act_bind (store buf_ptr (filled h (fst (out_sets h c)) (nat ret))) (\<lambda>fine.
          if \<not> fine then act_ret (- LINUX_EFAULT) else store_addr h c room addr_ptr addrlen_ptr ret)))"

text \<open>
  \<open>recvmsg\<close>: every buffer is copied out in its whole length, also where the host wrote nothing.  None of
  the buffers from \<open>malloc\<close> is checked, and the length of the one for the data is a sum of 64 bits.  A copy
  out of a buffer knows how many bytes were allocated from its start on, or that it is a null pointer.
\<close>

definition malloc_room :: "host \<Rightarrow> nat \<Rightarrow> nat option" where
  "malloc_room h n = (if h_alloc h (Malloc n) then Some n else None)"

definition store_from :: "nat option \<Rightarrow> gaddr \<Rightarrow> byte list \<Rightarrow> bool act" where
  "store_from room a bs s =
    (let copied = length bs - fst (copy_to_user (k_user s) a bs) in
     case room of
       None \<Rightarrow> if 0 < copied then Inl Null_deref else store a bs s
     | Some n \<Rightarrow> if n < copied then Inl Out_of_bounds else store a bs s)"

definition recvmsg_call :: "int \<Rightarrow> l_msghdr \<Rightarrow> nat list \<Rightarrow> flags \<Rightarrow> fs_call" where
  "recvmsg_call sockfd m lens fls =
    Sock (Recvmsg sockfd (if msg_name m = 0 then None else Some (unat (msg_namelen m))) lens (unat (msg_controllen m)) fls)"

text \<open>What is left of the data buffer from the start of each piece on.\<close>

fun iov_rooms :: "nat option \<Rightarrow> 64 word \<Rightarrow> nat list \<Rightarrow> nat option list" where
  "iov_rooms buf off [] = []"
| "iov_rooms buf off (n # ns) = map_option (\<lambda>total. total - unat off) buf # iov_rooms buf (off + of_nat n) ns"

text \<open>The copies in their order: the address of the guest, the bytes for it and the buffer they are in.\<close>

definition recvmsg_out ::
  "host \<Rightarrow> fs_call \<Rightarrow> gaddr \<Rightarrow> l_msghdr \<Rightarrow> (gaddr \<times> nat) list \<Rightarrow> nat option \<Rightarrow> (gaddr \<times> byte list \<times> nat option) list" where
  "recvmsg_out h c msg_ptr m liov iov_buf =
    (case out_sets h c of (data, name, ctl) \<Rightarrow> case out_fds h c of (namelen, ctllen) \<Rightarrow>
       (if msg_name m = 0 then []
        else [(msg_name m, filled h name (unat (word_of_int namelen :: 32 word)), malloc_room h (unat (msg_namelen m)))]) @
       [(msg_ptr + 8, le_bytes 4 (word_of_int namelen :: 32 word), Some 4)] @
       zip (map fst liov) (zip (split_at (map snd liov) (filled h data (sum_list (map snd liov)))) (iov_rooms iov_buf 0 (map snd liov))) @
       [(msg_control m, filled h ctl (unat (msg_controllen m)), malloc_room h (unat (msg_controllen m))),
        (msg_ptr + 40, le_bytes 4 (word_of_int ctllen :: 32 word), Some 4)])"

fun store_list :: "(gaddr \<times> byte list \<times> nat option) list \<Rightarrow> int \<Rightarrow> int act" where
  "store_list [] r = act_ret r"
| "store_list ((a, bs, room) # ps) r =
    act_bind (store_from room a bs) (\<lambda>fine. if \<not> fine then act_ret (- LINUX_EFAULT) else store_list ps r)"

text \<open>When the sum wraps around, the host is told of more room than there is, and can write behind the buffer.\<close>

definition sys_recvmsg :: "host \<Rightarrow> int \<Rightarrow> gaddr \<Rightarrow> flags \<Rightarrow> int act" where
  "sys_recvmsg h sockfd msg_ptr fls =
    act_bind (fetch msg_ptr 56) (\<lambda>lmsg. case lmsg of
      None \<Rightarrow> act_ret (- LINUX_EFAULT)
    | Some mb \<Rightarrow>
        let m = decode_msghdr mb in
        act_bind (fetch_malloc h (msg_iov m) (unat (16 * msg_iovlen m))) (\<lambda>liov. case liov of
          None \<Rightarrow> act_ret (- LINUX_EFAULT)
        | Some bs \<Rightarrow>
            let iov = decode_iovec bs (int (unat (msg_iovlen m))); lens = map snd iov; c = recvmsg_call sockfd m lens fls;
                iov_total_len = (of_nat (sum_list lens) :: 64 word) in
            if length bs < 16 * unat (msg_iovlen m) then (\<lambda>s. Inl Out_of_bounds)
            else if iov \<noteq> [] \<and> \<not> h_alloc h (Malloc (unat (16 * msg_iovlen m))) then (\<lambda>s. Inl Null_deref)
            else act_bind (wide_call h c) (\<lambda>r.
              if r < 0 then act_ret r
              else if unat iov_total_len < sum_list lens \<and> unat iov_total_len < nat r then (\<lambda>s. Inl Out_of_bounds)
              else store_list (recvmsg_out h c msg_ptr m iov (malloc_room h (unat iov_total_len))) r)))"

section \<open>Accepting and names\<close>

definition sys_accept :: "host \<Rightarrow> int \<Rightarrow> gaddr \<Rightarrow> gaddr \<Rightarrow> int act" where
  "sys_accept h sockfd addr_ptr addrlen_ptr =
    with_room addr_ptr addrlen_ptr (\<lambda>room.
      let c = Sock (Accept sockfd room) in
      locked Wrlock (act_bind (wrap_call h c) (\<lambda>ret.
        if ret < 0 then act_ret ret
        else act_bind (act_register h ret False) (\<lambda>e.
          if e < 0 then act_bind (raw_call h (Fd (Close ret))) (\<lambda>_. act_ret e)
          else store_addr h c room addr_ptr addrlen_ptr ret))))"

definition name_of_socket :: "host \<Rightarrow> (nat option \<Rightarrow> sock_call) \<Rightarrow> gaddr \<Rightarrow> gaddr \<Rightarrow> int act" where
  "name_of_socket h mk addr_ptr addrlen_ptr =
    with_room addr_ptr addrlen_ptr (\<lambda>room.
      act_bind (wrap_call h (Sock (mk room))) (\<lambda>ret.
        if ret < 0 then act_ret ret else store_addr h (Sock (mk room)) room addr_ptr addrlen_ptr ret))"

definition sys_getsockname :: "host \<Rightarrow> int \<Rightarrow> gaddr \<Rightarrow> gaddr \<Rightarrow> int act" where
  "sys_getsockname h sockfd = name_of_socket h (Getsockname sockfd)"

definition sys_getpeername :: "host \<Rightarrow> int \<Rightarrow> gaddr \<Rightarrow> gaddr \<Rightarrow> int act" where
  "sys_getpeername h sockfd = name_of_socket h (Getpeername sockfd)"

text \<open>The type goes to the host with its flags; \<open>user_close\<close> takes the lock that is held.\<close>

definition sys_socketpair :: "host \<Rightarrow> int \<Rightarrow> flags \<Rightarrow> int \<Rightarrow> gaddr \<Rightarrow> int act" where
  "sys_socketpair h family type protocol usockvec_ptr =
    (let c = Sock (Socketpair (linux_to_darwin_sa_family family) type protocol); fds = out_fds h c;
         cloexec = (type AND LINUX_SOCK_CLOEXEC \<noteq> 0) in
     locked Wrlock (act_bind (wrap_call h c) (\<lambda>ret.
       if ret < 0 then act_ret ret
       else act_bind (act_register h (fst fds) cloexec) (\<lambda>e.
       if e < 0 then
         act_bind (raw_call h (Fd (Close (fst fds)))) (\<lambda>_. act_bind (raw_call h (Fd (Close (snd fds)))) (\<lambda>_. act_ret e))
       else act_bind (act_register h (snd fds) cloexec) (\<lambda>e.
       if e < 0 then
         act_bind (user_close h (fst fds)) (\<lambda>_. act_bind (raw_call h (Fd (Close (snd fds)))) (\<lambda>_. act_ret e))
       else act_bind (store usockvec_ptr (le_bytes 4 (word_of_int (fst fds) :: 32 word) @ le_bytes 4 (word_of_int (snd fds) :: 32 word))) (\<lambda>fine.
         if \<not> fine then
           act_bind (user_close h (fst fds)) (\<lambda>_. act_bind (user_close h (snd fds)) (\<lambda>_. act_ret (- LINUX_EFAULT)))
         else act_ret ret))))))"

end
