(* ===== verification/NetProps.thy ===== *)
theory NetProps
  imports Net FdProps
begin

text \<open>
  Properties of the calls on sockets: the tables and the lock, the translation of addresses and
  flags, and copies that leave their buffers.
\<close>

section \<open>The tables of descriptors\<close>

datatype net_request =
    N_socket int flags int
  | N_connect int gaddr "64 word"
  | N_bind int gaddr int
  | N_shutdown int int
  | N_listen int int
  | N_setsockopt int int int gaddr "32 word"
  | N_getsockopt int int int gaddr gaddr
  | N_sendto int gaddr int flags gaddr "32 word"
  | N_sendmsg int gaddr flags
  | N_sendmmsg int gaddr "32 word" flags
  | N_recvfrom int gaddr int flags gaddr gaddr
  | N_recvmsg int gaddr flags
  | N_accept int gaddr gaddr
  | N_getsockname int gaddr gaddr
  | N_getpeername int gaddr gaddr
  | N_socketpair int flags int gaddr

fun run_net :: "host \<Rightarrow> net_request \<Rightarrow> int act" where
  "run_net h (N_socket f t p) = sys_socket h f t p"
| "run_net h (N_connect s a n) = sys_connect h s a n"
| "run_net h (N_bind s a n) = sys_bind h s a n"
| "run_net h (N_shutdown s k) = sys_shutdown h s k"
| "run_net h (N_listen s k) = sys_listen h s k"
| "run_net h (N_setsockopt s l k a n) = sys_setsockopt h s l k a n"
| "run_net h (N_getsockopt s l k a n) = sys_getsockopt h s l k a n"
| "run_net h (N_sendto s b n f a l) = sys_sendto h s b n f a l"
| "run_net h (N_sendmsg s m f) = sys_sendmsg h s m f"
| "run_net h (N_sendmmsg s m n f) = sys_sendmmsg h s m n f"
| "run_net h (N_recvfrom s b n f a l) = sys_recvfrom h s b n f a l"
| "run_net h (N_recvmsg s m f) = sys_recvmsg h s m f"
| "run_net h (N_accept s a l) = sys_accept h s a l"
| "run_net h (N_getsockname s a l) = sys_getsockname h s a l"
| "run_net h (N_getpeername s a l) = sys_getpeername h s a l"
| "run_net h (N_socketpair f t p v) = sys_socketpair h f t p v"

text \<open>An action that keeps an invariant of the tables whenever it returns.\<close>

definition preserves :: "(fileinfo \<Rightarrow> bool) \<Rightarrow> 'a act \<Rightarrow> bool" where
  "preserves F m \<longleftrightarrow> (\<forall>s x s'. F (k_files s) \<longrightarrow> m s = Inr (x, s') \<longrightarrow> F (k_files s'))"

named_theorems keep_rules "rules for invariants of the tables"

lemma keeps_preserves: "keeps F m \<Longrightarrow> preserves F m"
  by (fastforce simp: preserves_def triple_def on_files_def)

lemma preserves_bind [keep_rules]:
  assumes "preserves F m" "\<And>x. preserves F (f x)"
  shows "preserves F (act_bind m f)"
proof (unfold preserves_def, intro allI impI)
  fix s y s' assume "F (k_files s)" "act_bind m f s = Inr (y, s')"
  moreover from this obtain x s1 where "m s = Inr (x, s1)" "f x s1 = Inr (y, s')" by (cases "m s") auto
  ultimately show "F (k_files s')" using assms unfolding preserves_def by blast
qed

lemma preserves_basic [keep_rules]:
  "preserves F (act_ret x)" "preserves F (look f)" "preserves F (\<lambda>s. Inl c)" "preserves F (fetch a n)" "preserves F (store a bs)"
  "preserves F (emit e)" "preserves F (raw_call h k)" "preserves F (wrap_call h k)"
  by (auto simp: preserves_def fetch_def store_def bind_run_def split: prod.splits sum.splits)

lemma preserves_locked [keep_rules]: "preserves F m \<Longrightarrow> preserves F (locked l m)"
  unfolding locked_def by (intro keep_rules)

lemma preserves_cases [keep_rules]:
  "(b \<Longrightarrow> preserves F m) \<Longrightarrow> (\<not> b \<Longrightarrow> preserves F m') \<Longrightarrow> preserves F (if b then m else m')"
  "preserves F m \<Longrightarrow> (\<And>x. preserves F (f x)) \<Longrightarrow> preserves F (case p of None \<Rightarrow> m | Some x \<Rightarrow> f x)"
  "(\<And>x y. preserves F (g x y)) \<Longrightarrow> preserves F (case q of (x, y) \<Rightarrow> g x y)"
  by (auto split: option.split prod.split)

lemma preserves_register [keep_rules]:
  "h_alloc h = (\<lambda>_. True) \<Longrightarrow> 0 \<le> fd \<Longrightarrow> preserves (fds_inv b) (act_register h fd c)"
  "h_alloc h = (\<lambda>_. True) \<Longrightarrow> preserves (fds_inv b) (register_or_close h fd c)"
  "preserves (fds_inv b) (user_close h fd)"
  unfolding user_close_def by (intro keeps_preserves triples; assumption)+

lemma preserves_quiet: "(\<And>s x s'. m s = Inr (x, s') \<Longrightarrow> k_files s' = k_files s) \<Longrightarrow> preserves F m"
  by (auto simp: preserves_def)

lemma preserves_parts [keep_rules]:
  "preserves F (fetch_malloc h a n)" "preserves F (message_name h a n)" "preserves F (wide_call h c)" "preserves F (store_from room a bs)"
  by (rule preserves_quiet; auto simp: fetch_malloc_def fetch_def message_name_def wide_call_def store_from_def store_def Let_def
      split: if_splits prod.splits option.splits)+

lemma preserves_lists [keep_rules]:
  "preserves F (gather liov)" "preserves F (store_list ps r)"
proof -
  show "preserves F (gather liov)"
    by (induction liov rule: gather.induct; simp only: gather.simps) (intro keep_rules; assumption)+
  show "preserves F (store_list ps r)"
    by (induction ps r rule: store_list.induct; simp only: store_list.simps) (intro keep_rules; assumption?)+
qed

lemma preserves_messages [keep_rules]:
  "preserves F (do_sendmsg h sockfd m fls)" "preserves F (send_all h sockfd p fls ms r)"
proof -
  show one: "preserves F (do_sendmsg h sockfd m fls)" for h sockfd m fls
    unfolding do_sendmsg_def send_message_def Let_def by (intro keep_rules)
  show "preserves F (send_all h sockfd p fls ms r)"
    by (induction h sockfd p fls ms r rule: send_all.induct; simp only: send_all.simps) (intro keep_rules one; assumption?)+
qed

lemma preserves_addresses [keep_rules]:
  "(\<And>a. preserves F (m a)) \<Longrightarrow> preserves F (with_sockaddr h bs m)"
  "(\<And>r. preserves F (k r)) \<Longrightarrow> preserves F (with_room a l k)"
  "preserves F (store_addr h c room a l r)" "preserves F (send_data h sk b n fls ad al)"
  unfolding with_sockaddr_def with_room_def addr_room_def store_addr_def store_result_def send_data_def
  by (intro keep_rules; assumption?)+

lemmas net_calls = sys_socket_def sys_connect_def sys_bind_def sys_shutdown_def sys_listen_def sys_setsockopt_def
  sys_getsockopt_def sys_sendto_def sys_sendmsg_def sys_sendmmsg_def sys_recvfrom_def sys_recvmsg_def sys_accept_def
  sys_getsockname_def sys_getpeername_def name_of_socket_def store_result_def Let_def

lemma net_preserves:
  assumes "h_alloc h = (\<lambda>_. True)" "\<And>c. 0 \<le> fst (out_fds h c) \<and> 0 \<le> snd (out_fds h c)"
  shows "preserves (fds_inv b) (run_net h r)"
proof (cases r)
  case (N_socketpair f t p v)
  then show ?thesis using assms
    by (simp only: run_net.simps sys_socketpair_def Let_def) (intro keep_rules; simp add: not_less)
next
  case (N_accept sk a l)
  then show ?thesis using assms
    by (simp only: run_net.simps net_calls) (intro keep_rules; simp)
next
  case (N_recvmsg sk m f)
  then show ?thesis by (simp only: run_net.simps net_calls) (intro keep_rules)
qed (simp_all only: run_net.simps net_calls, (intro keep_rules; rule assms(1))+)

lemma lock_net_parts [lock_rules]:
  "lock_moves l l (fetch_malloc h a n)" "lock_moves l l (message_name h a n)" "lock_moves l l (store_from room a bs)"
  by (rule lock_quiet; auto simp: fetch_malloc_def fetch_def message_name_def store_from_def store_def Let_def
      split: if_splits prod.splits option.splits)+

lemma lock_wide [lock_rules]: "lock_moves l l (wide_call h c)"
  unfolding wide_call_def by (intro lock_rules)

lemma lock_pair [lock_rules]: "(\<And>x y. lock_moves l l (g x y)) \<Longrightarrow> lock_moves l l (case q of (x, y) \<Rightarrow> g x y)"
  by (simp split: prod.split)

lemma lock_net_lists [lock_rules]: "lock_moves l l (gather liov)" "lock_moves l l (store_list ps r)"
proof -
  show "lock_moves l l (gather liov)"
    by (induction liov rule: gather.induct; simp only: gather.simps) (intro lock_rules; assumption)+
  show "lock_moves l l (store_list ps r)"
    by (induction ps r rule: store_list.induct; simp only: store_list.simps) (intro lock_rules; simp)+
qed

lemma lock_messages [lock_rules]: "lock_moves l l (do_sendmsg h sockfd m fls)" "lock_moves l l (send_all h sockfd p fls ms r)"
proof -
  show one: "lock_moves l l (do_sendmsg h sockfd m fls)" for h sockfd m fls
    unfolding do_sendmsg_def send_message_def Let_def by (intro lock_rules)
  show "lock_moves l l (send_all h sockfd p fls ms r)"
  proof (induction ms)
    case (Cons im ms)
    obtain i m where "im = (i, m)" by fastforce
    then show ?case by (simp only: send_all.simps) (intro lock_rules one Cons.IH)
  qed (simp only: send_all.simps lock_rules)
qed

lemma lock_addresses [lock_rules]:
  "(\<And>a. lock_moves l l (m a)) \<Longrightarrow> lock_moves l l (with_sockaddr h bs m)"
  "(\<And>r. lock_moves l l (k r)) \<Longrightarrow> lock_moves l l (with_room a len k)"
  "lock_moves l l (store_addr h c room a len r)" "lock_moves l l (send_data h sk b n fls ad al)"
  unfolding with_sockaddr_def with_room_def addr_room_def store_addr_def store_result_def send_data_def
  by (intro lock_rules; assumption?)+

text \<open>
  C23: A call on sockets that returns keeps the tables of descriptors well formed and the guest's
  below the kernel's; and every one of them but \<open>socketpair\<close> takes the lock only when it is free and
  returns without it.
\<close>

theorem net_safe:
  assumes "fds_inv b (k_files s)" "h_alloc h = (\<lambda>_. True)" "\<And>c. 0 \<le> fst (out_fds h c) \<and> 0 \<le> snd (out_fds h c)"
    and "run_net h r s = Inr (x, s')"
  shows "fds_inv b (k_files s') \<and>
    ((\<exists>f t p v. r = N_socketpair f t p v) \<or> (\<exists>es. k_trace s' = k_trace s @ es \<and> lock_run Unheld es = Some Unheld))"
proof -
  have "preserves (fds_inv b) (run_net h r)" by (rule net_preserves [OF assms(2,3)])
  moreover have "lock_moves Unheld Unheld (run_net h r)" if "\<nexists>f t p v. r = N_socketpair f t p v"
    using that by (cases r) (simp_all only: run_net.simps net_calls, (intro lock_rules | simp)+)
  ultimately show ?thesis using assms(1,4) unfolding preserves_def lock_moves_def by blast
qed

theorem net_safe_witness:
  "\<exists>x s'. run_net ex_host (N_socket 2 0x80001 0) ex_kern = Inr (x, s') \<and> fds_inv 192 (k_files s') \<and>
    (\<exists>es. k_trace s' = es \<and> lock_run Unheld es = Some Unheld)"
proof -
  have inv: "fds_inv 192 (k_files ex_kern)"
    using ex_files_ok by (auto simp: fds_inv_def ex_kern_def ex_view) (simp add: ex_files_def)
  have h: "h_alloc ex_host = (\<lambda>_. True)" "\<And>c. 0 \<le> fst (out_fds ex_host c) \<and> 0 \<le> snd (out_fds ex_host c)"
    by (simp_all add: ex_host_def)
  have "keeps (fds_inv 192) (sys_socket ex_host 2 0x80001 0)" unfolding sys_socket_def by (intro triples h)
  then obtain x s' where run: "run_net ex_host (N_socket 2 0x80001 0) ex_kern = Inr (x, s')"
    using inv by (auto simp: triple_def on_files_def)
  from net_safe [OF inv h run] have "fds_inv 192 (k_files s')" "\<exists>es. k_trace s' = es \<and> lock_run Unheld es = Some Unheld"
    by (auto simp: ex_kern_def)
  then show ?thesis using run by blast
qed

section \<open>Addresses\<close>

text \<open>The addresses that survive: their length in Darwin is the one they came with.\<close>

definition fitting_address :: "byte list \<Rightarrow> bool" where
  "fitting_address bs \<longleftrightarrow> l_family bs \<in> {0, 1, 2, 4, 5, 10} \<and> 2 \<le> length bs \<and> length bs < 256 \<and>
     (l_family bs = 1 \<longrightarrow> length bs = sizeof_sockaddr_un) \<and> (l_family bs = 2 \<longrightarrow> length bs = 16) \<and>
     (l_family bs = 10 \<longrightarrow> length bs \<noteq> 24)"

lemma family_values:
  "linux_to_darwin_sa_family 0 = 0" "linux_to_darwin_sa_family 1 = 1" "linux_to_darwin_sa_family 2 = 2"
  "linux_to_darwin_sa_family 4 = 23" "linux_to_darwin_sa_family 5 = 16" "linux_to_darwin_sa_family 10 = 30"
  "darwin_to_linux_sa_family 0 = 0" "darwin_to_linux_sa_family 1 = 1" "darwin_to_linux_sa_family 2 = 2"
  "darwin_to_linux_sa_family 23 = 4" "darwin_to_linux_sa_family 16 = 5" "darwin_to_linux_sa_family 30 = 10"
  by (simp_all add: linux_to_darwin_sa_family_def darwin_to_linux_sa_family_def LINUX_AF_def)

lemma unix_name_short: "length bs = sizeof_sockaddr_un \<Longrightarrow> \<not> sizeof_sockaddr_un < 2 + unix_name_len bs"
  using length_takeWhile_le [of "\<lambda>b. b \<noteq> 0" "take (length bs - 3) (drop 3 bs)"]
    length_takeWhile_le [of "\<lambda>b. b \<noteq> 0" "take (length bs - 2) (drop 2 bs)"]
  by (simp add: unix_name_len_def strnlen_def)

text \<open>
  An address that is translated for the host and back comes back as it was, if it has the
  length that its family has.
\<close>

theorem sockaddr_roundtrip:
  assumes "fitting_address bs"
  shows "\<exists>d. linux_to_darwin_sockaddr bs = Inr (Some d) \<and> length d = length bs \<and> unat (d ! 0) = length bs \<and>
    darwin_to_linux_sockaddr d = Inr bs"
proof -
  let ?f = "l_family bs"
  define d where "d = of_nat (length bs) # word_of_int (linux_to_darwin_sa_family ?f) # drop 2 bs"
  have f: "?f \<in> {0, 1, 2, 4, 5, 10}" and len: "2 \<le> length bs" "length bs < 256" using assms by (auto simp: fitting_address_def)
  have fam: "darwin_to_linux_sa_family (uint (word_of_int (linux_to_darwin_sa_family ?f) :: byte)) = ?f"
    using f by (auto simp: family_values)
  have n: "unat (of_nat (length bs) :: byte) = length bs" using len(2) by (simp add: unat_of_nat)
  have "le_bytes 2 (word_of_int ?f :: 16 word) = take 2 bs"
    using le_bytes_word [of "get_field 0 2 bs" 2, where 'a = 16] len(1) by (simp add: l_family_def get_field_def)
  then have "darwin_to_linux_sockaddr d = Inr bs" using len(1) fam n by (simp add: darwin_to_linux_sockaddr_def d_def Let_def)
  moreover have "linux_to_darwin_sockaddr bs = Inr (Some d)"
  proof -
    have len': "?f = 1 \<Longrightarrow> length bs = sizeof_sockaddr_un" "?f = 2 \<Longrightarrow> length bs = 16" "?f = 10 \<Longrightarrow> length bs \<noteq> 24"
      using assms by (simp_all add: fitting_address_def)
    from f have "?f = 0 \<or> ?f = 1 \<or> ?f = 2 \<or> ?f = 4 \<or> ?f = 5 \<or> ?f = 10" by simp
    then show ?thesis
      using len(1) len' unix_name_short [of bs]
      by (elim disjE) (simp_all add: linux_to_darwin_sockaddr_def d_def Let_def family_values)
  qed
  moreover have "length d = length bs" using len(1) by (simp add: d_def)
  ultimately show ?thesis using n by (auto simp: d_def)
qed

theorem sockaddr_roundtrip_witness:
  "\<exists>d. linux_to_darwin_sockaddr [10, 0, 0, 80, 0, 0, 0, 0, 1] = Inr (Some d) \<and>
    darwin_to_linux_sockaddr d = Inr [10, 0, 0, 80, 0, 0, 0, 0, 1]"
  using sockaddr_roundtrip [of "[10, 0, 0, 80, 0, 0, 0, 0, 1]"]
  by (auto simp: fitting_address_def l_family_def get_field_def le_word_def)

section \<open>Flags of messages\<close>

interpretation msgf: bit_table msg_flag_table "[0, 1, 2, 7, 5, 3, 8, 6]"
  by unfold_locales (simp_all add: msg_flag_table_def)

text \<open>
  The flags of a message are translated one by one: the call is refused exactly when one is set
  that has no counterpart, and otherwise each flag of the host is set when its counterpart was.
\<close>

theorem msg_flags_translated:
  fixes fls
  defines "r \<equiv> linux_to_darwin_msg_flags fls"
  shows "(r < 0 \<longleftrightarrow> fls AND NOT 0x1EF \<noteq> 0) \<and> (0 \<le> r \<longrightarrow> r < 256 \<and>
    (\<forall>(a, b) \<in> set msg_flag_table. (word_of_int r :: flags) AND b \<noteq> 0 \<longleftrightarrow> fls AND a \<noteq> 0))"
proof -
  let ?w = "flag_conv msg_flag_table fls 0"
  have mask: "foldr (\<lambda>(a, b) m. a OR m) msg_flag_table 0 = 0x1EF" by (simp add: msg_flag_table_def)
  have rows: "b AND NOT 0xFF = 0" if "(a, b) \<in> set msg_flag_table" for a b using that by (auto simp: msg_flag_table_def)
  have "?w AND NOT 0xFF = 0"
    using rows by (fastforce simp: word_and_eq_0_iff bit_flag_conv)
  then have "?w = ?w AND 0xFF" by (auto simp: bit_eq_iff bit_simps)
  moreover have "?w AND 0xFF \<le> 0xFF" by (rule word_and_le1)
  ultimately have "?w \<le> 0xFF" by simp
  then have u: "uint ?w < 256" by (simp add: word_le_def)
  then have s: "sint ?w = uint ?w" unfolding sint_uint by (intro signed_take_bit_int_eq_self) (simp_all add: order_trans [OF _ uint_ge_0])
  have "(flag_conv msg_flag_table fls 0) AND b \<noteq> 0 \<longleftrightarrow> fls AND a \<noteq> 0" if "(a, b) \<in> set msg_flag_table" for a b
    by (rule msgf.conv_mask [OF that]) simp
  then show ?thesis using u s unfolding r_def linux_to_darwin_msg_flags_def mask by auto
qed

theorem msg_flags_translated_witness: "linux_to_darwin_msg_flags 0x42 < 256 \<and> linux_to_darwin_msg_flags 0x4000 < 0"
  using msg_flags_translated [of "0x42"] msg_flags_translated [of "0x4000"] by auto

section \<open>Copies and locks that go wrong\<close>

text \<open>
  C38: \<open>sendto\<close> copies an address of the length that the guest states into 16 bytes on the stack of
  the kernel: with more than 16 readable bytes it writes behind them.
\<close>

theorem sendto_overflows:
  assumes "um_ok (k_user s)" "addr_ptr \<noteq> 0" "16 < addrlen" "\<forall>i \<le> 16. user_byte (k_user s) (addr_ptr + of_nat i) \<noteq> None"
  shows "sys_sendto h sock buf_ptr len fls addr_ptr addrlen s = Inl Out_of_bounds"
proof -
  obtain rest bs where c: "copy_from_user (k_user s) addr_ptr (unat addrlen) = (rest, bs)" by fastforce
  note S = copy_from_user_spec [OF assms(1) c]
  have "16 < length bs"
  proof (rule ccontr)
    assume "\<not> 16 < length bs"
    moreover have "rest \<noteq> 0" using S assms(3) calculation by (auto simp: word_less_nat_alt)
    ultimately show False using S assms(4) by auto
  qed
  then show ?thesis using assms(2) c by (simp add: sys_sendto_def look_def Let_def)
qed

definition net_kern :: kern where
  "net_kern = ex_kern\<lparr>k_user := ex_um\<rparr>"

lemma net_kern_page:
  assumes "i < 4096"
  shows "user_byte (k_user net_kern) (0x11000 + of_nat i) = Some (um_host ex_um (0x101000 + of_nat i))"
  using um_ptr_same_page [OF ex_um_ok, of i "0x11000"] ex_um_ptr(1) assms by (simp add: user_byte_def net_kern_def)

theorem sendto_overflows_witness: "sys_sendto ex_host 3 0x11000 1 0 0x11000 32 net_kern = Inl Out_of_bounds"
  by (rule sendto_overflows) (use net_kern_page ex_um_ok in \<open>simp_all add: net_kern_def\<close>)

text \<open>
  \<open>sendto\<close> never notices that the data could not be read: it sends what was read followed by
  whatever the memory of the kernel held.
\<close>

theorem sendto_leaks:
  assumes "um_ok (k_user s)" "0 < len" "len < 2 ^ 31" "h_alloc h = (\<lambda>_. True)" "user_byte (k_user s) buf_ptr = None"
  shows "\<exists>x. sys_sendto h sock buf_ptr len fls 0 addrlen s =
    Inr (x, s\<lparr>k_trace := k_trace s @ [Call (Sock (Sendto sock (uninit h (nat len)) fls None (unat addrlen)))]\<rparr>)"
proof -
  obtain rest bs where c: "copy_from_user (k_user s) buf_ptr (nat len) = (rest, bs)" by fastforce
  note S = copy_from_user_spec [OF assms(1) c]
  have "bs = []"
  proof (rule ccontr)
    assume "bs \<noteq> []"
    then have "Some (bs ! 0) = user_byte (k_user s) buf_ptr"
      using arg_cong [OF conjunct1 [OF conjunct2 [OF S]], of "\<lambda>l. l ! 0"] by simp
    then show False using assms(5) by simp
  qed
  then have "rest = nat len" using S by simp
  moreover have "size_t len = nat len"
  proof -
    obtain k where k: "len = int k" using assms(2) nonneg_int_cases [of len] by auto
    then have "k < 2 ^ 64" using assms(3) by simp
    then show ?thesis by (simp add: size_t_def k unat_of_nat)
  qed
  moreover have "to_cint (int (nat len)) = len" using assms(2,3) by (simp add: to_cint_id)
  ultimately show ?thesis
    using assms c \<open>bs = []\<close> by (simp add: sys_sendto_def send_data_def look_def Let_def filled_def uninit_def wide_call_def)
qed

theorem sendto_leaks_witness:
  "\<exists>x s'. sys_sendto ex_host 3 0x40000 2 0 0 0 net_kern = Inr (x, s') \<and> k_trace s' = [Call (Sock (Sendto 3 [0, 0] 0 None 0))]"
proof -
  have "um_ok (k_user net_kern)" "user_byte (k_user net_kern) 0x40000 = None"
    using ex_um_ok by (simp_all add: net_kern_def user_byte_def ex_um_def UserMem.ex_kern_def guest_to_host_def find_region_def
      ex_eval user_addr_max_def)
  from sendto_leaks [OF this(1) _ _ _ this(2), of 2 ex_host 3 0 0]
  show ?thesis by (auto simp: ex_host_def uninit_def numeral_2_eq_2 net_kern_def ex_kern_def)
qed

lemma copy_to_unmapped: "um_ptr u a = None \<Longrightarrow> bs \<noteq> [] \<Longrightarrow> copy_to_user u a bs = (length bs, u)"
  by (subst copy_to_user.simps) simp

lemma adds_user_close: "adds [Wrlock] (user_close h fd)"
  unfolding user_close_def by (rule adds_locked [OF adds_lock [OF lock_do_close]])

lemma act_register_ok:
  assumes "files_ok (k_files s)" "h_alloc h = (\<lambda>_. True)" "in_userfd (k_files s) fd"
  obtains fi where "act_register h fd c s = Inr (0, s\<lparr>k_files := fi\<rparr>)" "files_ok fi" "fi_vkern fi = fi_vkern (k_files s)"
  using register_fd_ok [OF assms, of c] assms(1) that by (fastforce simp: act_register_def files_ok_def)

text \<open>
  \<open>socketpair\<close>, when the numbers cannot be stored, closes the sockets through \<open>user_close\<close>, which
  takes the lock that is already held.
\<close>

theorem socketpair_relocks:
  fixes h f t p
  defines "c \<equiv> Sock (Socketpair (linux_to_darwin_sa_family f) t p)"
  assumes "files_ok (k_files s)" "h_alloc h = (\<lambda>_. True)" "user_byte (k_user s) v = None"
    and "in_userfd (k_files s) (fst (out_fds h c))" "in_userfd (k_files s) (snd (out_fds h c))" "0 \<le> fst (answer h c)"
    and "sys_socketpair h f t p v s = Inr (x, s')"
  shows "\<exists>es. k_trace s' = k_trace s @ Wrlock # Call c # Wrlock # es \<and> lock_run Unheld (Wrlock # Call c # Wrlock # es) = None"
proof -
  let ?s = "s\<lparr>k_trace := k_trace s @ [Wrlock, Call c]\<rparr>" and ?a = "fst (out_fds h c)" and ?b = "snd (out_fds h c)" and ?e = "t AND LINUX_SOCK_CLOEXEC \<noteq> 0"
  let ?T = "act_bind (user_close h ?a) (\<lambda>_. act_bind (user_close h ?b) (\<lambda>_. act_ret (- LINUX_EFAULT)))"
  obtain f1 where f1: "act_register h ?a ?e ?s = Inr (0, ?s\<lparr>k_files := f1\<rparr>)" "files_ok f1" "fi_vkern f1 = fi_vkern (k_files s)"
    using act_register_ok [of ?s h ?a ?e] assms(2,3,5) by (auto simp: in_userfd_def)
  obtain f2 where f2: "act_register h ?b ?e (?s\<lparr>k_files := f1\<rparr>) = Inr (0, ?s\<lparr>k_files := f2\<rparr>)"
    using act_register_ok [of "?s\<lparr>k_files := f1\<rparr>" h ?b ?e] assms(3,6) f1(2,3) by (auto simp: in_userfd_def)
  have none: "um_ptr (k_user s) v = None" using assms(4) by (simp add: user_byte_def)
  have st: "store v (le_bytes 4 (w :: 32 word) @ bs) (?s\<lparr>k_files := f2\<rparr>) = Inr (False, ?s\<lparr>k_files := f2\<rparr>)" for w bs
  proof -
    have "le_bytes 4 w @ bs \<noteq> []" using length_le_bytes [of 4 w] by (auto simp del: length_le_bytes)
    then show ?thesis using copy_to_unmapped [OF none] by (simp add: store_def)
  qed
  have "syswrap (fst (answer h c)) (snd (answer h c)) = fst (answer h c)" using assms(7) by (rule syswrap_pos)
  then have "sys_socketpair h f t p v s = act_bind ?T (\<lambda>x. act_bind (emit Unlock) (\<lambda>_. act_ret x)) (?s\<lparr>k_files := f2\<rparr>)"
    using f1(1) f2 st assms(7)
    by (simp add: sys_socketpair_def Let_def locked_def flip: c_def)
  moreover have "adds [Wrlock] (act_bind ?T (\<lambda>x. act_bind (emit Unlock) (\<lambda>_. act_ret x)))"
  proof (rule adds_bind [where es' = "[]"])
    have "adds [] (act_bind (user_close h ?b) (\<lambda>_. act_ret (- LINUX_EFAULT)))"
      unfolding user_close_def by (rule adds_lock [of Unheld Unheld]) (intro lock_rules)
    then show "adds [Wrlock] ?T" by (rule adds_bind [OF adds_user_close])
  qed (auto simp: adds_def)
  ultimately obtain es where "k_trace s' = k_trace (?s\<lparr>k_files := f2\<rparr>) @ [Wrlock] @ es"
    using assms(8) unfolding adds_def by metis
  then show ?thesis by simp
qed

theorem socketpair_relocks_witness:
  "\<exists>x s' es. sys_socketpair ex_host 1 1 0 0x40000 net_kern = Inr (x, s') \<and> k_trace s' = es \<and> lock_run Unheld es = None"
proof -
  let ?c = "Sock (Socketpair (linux_to_darwin_sa_family 1) 1 0)"
  have k: "files_ok (k_files net_kern)" "in_userfd (k_files net_kern) 3" "in_userfd (k_files net_kern) 4" "k_trace net_kern = []"
    using ex_files_ok by (simp_all add: net_kern_def ex_kern_def in_userfd_def ex_files_def)
  have h: "h_alloc ex_host = (\<lambda>_. True)" "out_fds ex_host ?c = (3, 4)" "0 \<le> fst (answer ex_host ?c)" "\<And>d. 0 \<le> fst (out_fds ex_host d) \<and> 0 \<le> snd (out_fds ex_host d)"
    by (simp_all add: ex_host_def)
  have inv: "fds_inv 192 (k_files net_kern)"
    using ex_files_ok by (auto simp: fds_inv_def net_kern_def ex_kern_def ex_view) (simp add: ex_files_def)
  have "keeps (fds_inv 192) (sys_socketpair ex_host 1 1 0 0x40000)"
    unfolding sys_socketpair_def Let_def user_close_def by (intro triples; simp add: ex_host_def)
  then obtain x s' where run: "sys_socketpair ex_host 1 1 0 0x40000 net_kern = Inr (x, s')"
    using inv by (auto simp: triple_def on_files_def)
  have "user_byte (k_user net_kern) 0x40000 = None"
    by (simp add: net_kern_def user_byte_def ex_um_def UserMem.ex_kern_def guest_to_host_def find_region_def ex_eval user_addr_max_def)
  from socketpair_relocks [OF k(1) h(1) this _ _ h(3) run] show ?thesis using run k h(2) by auto
qed

end
