(* ===== verification/Vmm.thy ===== *)
theory Vmm
  imports MmapProps
begin

text \<open>
  The virtual machine, \<open>lib/vmm.c\<close> with the lists of \<open>include/x86/vmx.h\<close>: creating and destroying
  the machine and its processors, reading and writing registers and fields of the control structure,
  and the snapshot with which \<open>fork\<close> carries the machine over, since the hypervisor gives a process
  one machine only.  A register and a field of the control structure are named by their C identifiers;
  which registers are fields under another name is an argument, as is every answer of the hypervisor.
  The lock of the list of processors is held over each of its changes and is not part of the state.
\<close>

section \<open>Names\<close>

datatype vmcs_entry = VMCS_FIELD string | MASK string

definition VMCS_FIELD_ENTRIES :: "vmcs_entry list" where
  "VMCS_FIELD_ENTRIES =
    [MASK ''VMCS_VPID'', VMCS_FIELD ''VMCS_CTRL_POSTED_INT_N_VECTOR'', VMCS_FIELD ''VMCS_CTRL_EPTP_INDEX'',
     VMCS_FIELD ''VMCS_GUEST_ES'', VMCS_FIELD ''VMCS_GUEST_CS'', VMCS_FIELD ''VMCS_GUEST_SS'',
     VMCS_FIELD ''VMCS_GUEST_DS'', VMCS_FIELD ''VMCS_GUEST_FS'', VMCS_FIELD ''VMCS_GUEST_GS'',
     VMCS_FIELD ''VMCS_GUEST_LDTR'', VMCS_FIELD ''VMCS_GUEST_TR'', VMCS_FIELD ''VMCS_GUEST_INT_STATUS'',
     MASK ''VMCS_HOST_ES'', MASK ''VMCS_HOST_CS'', MASK ''VMCS_HOST_SS'', MASK ''VMCS_HOST_DS'',
     MASK ''VMCS_HOST_FS'', MASK ''VMCS_HOST_GS'', MASK ''VMCS_HOST_TR'', VMCS_FIELD ''VMCS_CTRL_IO_BITMAP_A'',
     VMCS_FIELD ''VMCS_CTRL_IO_BITMAP_B'', VMCS_FIELD ''VMCS_CTRL_MSR_BITMAPS'',
     VMCS_FIELD ''VMCS_CTRL_VMEXIT_MSR_STORE_ADDR'', VMCS_FIELD ''VMCS_CTRL_VMEXIT_MSR_LOAD_ADDR'',
     VMCS_FIELD ''VMCS_CTRL_VMENTRY_MSR_LOAD_ADDR'', VMCS_FIELD ''VMCS_CTRL_EXECUTIVE_VMCS_PTR'',
     VMCS_FIELD ''VMCS_CTRL_TSC_OFFSET'', VMCS_FIELD ''VMCS_CTRL_VIRTUAL_APIC'',
     VMCS_FIELD ''VMCS_CTRL_APIC_ACCESS'', VMCS_FIELD ''VMCS_CTRL_POSTED_INT_DESC_ADDR'',
     VMCS_FIELD ''VMCS_CTRL_VMFUNC_CTRL'', VMCS_FIELD ''VMCS_CTRL_EPTP'',
     VMCS_FIELD ''VMCS_CTRL_EOI_EXIT_BITMAP_0'', VMCS_FIELD ''VMCS_CTRL_EOI_EXIT_BITMAP_1'',
     VMCS_FIELD ''VMCS_CTRL_EOI_EXIT_BITMAP_2'', VMCS_FIELD ''VMCS_CTRL_EOI_EXIT_BITMAP_3'',
     VMCS_FIELD ''VMCS_CTRL_EPTP_LIST_ADDR'', VMCS_FIELD ''VMCS_CTRL_VMREAD_BITMAP_ADDR'',
     VMCS_FIELD ''VMCS_CTRL_VMWRITE_BITMAP_ADDR'', VMCS_FIELD ''VMCS_CTRL_VIRT_EXC_INFO_ADDR'',
     VMCS_FIELD ''VMCS_CTRL_XSS_EXITING_BITMAP'', MASK ''VMCS_GUEST_PHYSICAL_ADDRESS'',
     VMCS_FIELD ''VMCS_GUEST_LINK_POINTER'', VMCS_FIELD ''VMCS_GUEST_IA32_DEBUGCTL'',
     VMCS_FIELD ''VMCS_GUEST_IA32_PAT'', VMCS_FIELD ''VMCS_GUEST_IA32_EFER'',
     VMCS_FIELD ''VMCS_GUEST_IA32_PERF_GLOBAL_CTRL'', VMCS_FIELD ''VMCS_GUEST_PDPTE0'',
     VMCS_FIELD ''VMCS_GUEST_PDPTE1'', VMCS_FIELD ''VMCS_GUEST_PDPTE2'', VMCS_FIELD ''VMCS_GUEST_PDPTE3'',
     MASK ''VMCS_HOST_IA32_PAT'', MASK ''VMCS_HOST_IA32_EFER'', MASK ''VMCS_HOST_IA32_PERF_GLOBAL_CTRL'',
     VMCS_FIELD ''VMCS_CTRL_PIN_BASED'', VMCS_FIELD ''VMCS_CTRL_CPU_BASED'',
     VMCS_FIELD ''VMCS_CTRL_EXC_BITMAP'', VMCS_FIELD ''VMCS_CTRL_PF_ERROR_MASK'',
     VMCS_FIELD ''VMCS_CTRL_PF_ERROR_MATCH'', VMCS_FIELD ''VMCS_CTRL_CR3_COUNT'',
     VMCS_FIELD ''VMCS_CTRL_VMEXIT_CONTROLS'', VMCS_FIELD ''VMCS_CTRL_VMEXIT_MSR_STORE_COUNT'',
     VMCS_FIELD ''VMCS_CTRL_VMEXIT_MSR_LOAD_COUNT'', VMCS_FIELD ''VMCS_CTRL_VMENTRY_CONTROLS'',
     VMCS_FIELD ''VMCS_CTRL_VMENTRY_MSR_LOAD_COUNT'', VMCS_FIELD ''VMCS_CTRL_VMENTRY_IRQ_INFO'',
     VMCS_FIELD ''VMCS_CTRL_VMENTRY_EXC_ERROR'', VMCS_FIELD ''VMCS_CTRL_VMENTRY_INSTR_LEN'',
     VMCS_FIELD ''VMCS_CTRL_TPR_THRESHOLD'', VMCS_FIELD ''VMCS_CTRL_CPU_BASED2'',
     VMCS_FIELD ''VMCS_CTRL_PLE_GAP'', VMCS_FIELD ''VMCS_CTRL_PLE_WINDOW'', MASK ''VMCS_RO_INSTR_ERROR'',
     MASK ''VMCS_RO_EXIT_REASON'', MASK ''VMCS_RO_VMEXIT_IRQ_INFO'', MASK ''VMCS_RO_VMEXIT_IRQ_ERROR'',
     MASK ''VMCS_RO_IDT_VECTOR_INFO'', MASK ''VMCS_RO_IDT_VECTOR_ERROR'', MASK ''VMCS_RO_VMEXIT_INSTR_LEN'',
     MASK ''VMCS_RO_VMX_INSTR_INFO'', VMCS_FIELD ''VMCS_GUEST_ES_LIMIT'', VMCS_FIELD ''VMCS_GUEST_CS_LIMIT'',
     VMCS_FIELD ''VMCS_GUEST_SS_LIMIT'', VMCS_FIELD ''VMCS_GUEST_DS_LIMIT'',
     VMCS_FIELD ''VMCS_GUEST_FS_LIMIT'', VMCS_FIELD ''VMCS_GUEST_GS_LIMIT'',
     VMCS_FIELD ''VMCS_GUEST_LDTR_LIMIT'', VMCS_FIELD ''VMCS_GUEST_TR_LIMIT'',
     VMCS_FIELD ''VMCS_GUEST_GDTR_LIMIT'', VMCS_FIELD ''VMCS_GUEST_IDTR_LIMIT'',
     VMCS_FIELD ''VMCS_GUEST_ES_AR'', VMCS_FIELD ''VMCS_GUEST_CS_AR'', VMCS_FIELD ''VMCS_GUEST_SS_AR'',
     VMCS_FIELD ''VMCS_GUEST_DS_AR'', VMCS_FIELD ''VMCS_GUEST_FS_AR'', VMCS_FIELD ''VMCS_GUEST_GS_AR'',
     VMCS_FIELD ''VMCS_GUEST_LDTR_AR'', VMCS_FIELD ''VMCS_GUEST_TR_AR'', VMCS_FIELD ''VMCS_GUEST_IGNORE_IRQ'',
     VMCS_FIELD ''VMCS_GUEST_ACTIVITY_STATE'', VMCS_FIELD ''VMCS_GUEST_SMBASE'',
     VMCS_FIELD ''VMCS_GUEST_IA32_SYSENTER_CS'', VMCS_FIELD ''VMCS_GUEST_VMX_TIMER_VALUE'',
     VMCS_FIELD ''VMCS_HOST_IA32_SYSENTER_CS'', VMCS_FIELD ''VMCS_CTRL_CR0_MASK'',
     VMCS_FIELD ''VMCS_CTRL_CR4_MASK'', VMCS_FIELD ''VMCS_CTRL_CR0_SHADOW'',
     VMCS_FIELD ''VMCS_CTRL_CR4_SHADOW'', VMCS_FIELD ''VMCS_CTRL_CR3_VALUE0'',
     VMCS_FIELD ''VMCS_CTRL_CR3_VALUE1'', VMCS_FIELD ''VMCS_CTRL_CR3_VALUE2'',
     VMCS_FIELD ''VMCS_CTRL_CR3_VALUE3'', MASK ''VMCS_RO_EXIT_QUALIFIC'', MASK ''VMCS_RO_IO_RCX'',
     MASK ''VMCS_RO_IO_RSI'', MASK ''VMCS_RO_IO_RDI'', MASK ''VMCS_RO_IO_RIP'',
     MASK ''VMCS_RO_GUEST_LIN_ADDR'', VMCS_FIELD ''VMCS_GUEST_CR0'', VMCS_FIELD ''VMCS_GUEST_CR3'',
     VMCS_FIELD ''VMCS_GUEST_CR4'', VMCS_FIELD ''VMCS_GUEST_ES_BASE'', VMCS_FIELD ''VMCS_GUEST_CS_BASE'',
     VMCS_FIELD ''VMCS_GUEST_SS_BASE'', VMCS_FIELD ''VMCS_GUEST_DS_BASE'', VMCS_FIELD ''VMCS_GUEST_FS_BASE'',
     VMCS_FIELD ''VMCS_GUEST_GS_BASE'', VMCS_FIELD ''VMCS_GUEST_LDTR_BASE'', VMCS_FIELD ''VMCS_GUEST_TR_BASE'',
     VMCS_FIELD ''VMCS_GUEST_GDTR_BASE'', VMCS_FIELD ''VMCS_GUEST_IDTR_BASE'', VMCS_FIELD ''VMCS_GUEST_DR7'',
     VMCS_FIELD ''VMCS_GUEST_RSP'', VMCS_FIELD ''VMCS_GUEST_RIP'', VMCS_FIELD ''VMCS_GUEST_RFLAGS'',
     VMCS_FIELD ''VMCS_GUEST_DEBUG_EXC'', VMCS_FIELD ''VMCS_GUEST_SYSENTER_ESP'',
     VMCS_FIELD ''VMCS_GUEST_SYSENTER_EIP'', MASK ''VMCS_HOST_CR0'', MASK ''VMCS_HOST_CR3'',
     MASK ''VMCS_HOST_CR4'', MASK ''VMCS_HOST_FS_BASE'', MASK ''VMCS_HOST_GS_BASE'',
     MASK ''VMCS_HOST_TR_BASE'', MASK ''VMCS_HOST_GDTR_BASE'', MASK ''VMCS_HOST_IDTR_BASE'',
     MASK ''VMCS_HOST_IA32_SYSENTER_ESP'', MASK ''VMCS_HOST_IA32_SYSENTER_EIP'', MASK ''VMCS_HOST_RSP'',
     MASK ''VMCS_HOST_RIP'', VMCS_FIELD ''VMCS_MAX'']"

text \<open>The two readings of the entries, and the number of the fields that are not masked.\<close>

definition vmcs_field_list :: "string list" where
  "vmcs_field_list = map (\<lambda>e. case e of VMCS_FIELD x \<Rightarrow> x | MASK x \<Rightarrow> x) VMCS_FIELD_ENTRIES"

definition vmcs_field_masked_list :: "string list" where
  "vmcs_field_masked_list =
    concat (map (\<lambda>e. case e of VMCS_FIELD x \<Rightarrow> [x] | MASK x \<Rightarrow> []) VMCS_FIELD_ENTRIES)"

definition NR_VMCS_FIELD_MASKED :: nat where
  "NR_VMCS_FIELD_MASKED = length vmcs_field_masked_list - 1"

definition x86_reg_list :: "string list" where
  "x86_reg_list =
    [''HV_X86_RIP'', ''HV_X86_RFLAGS'', ''HV_X86_RAX'', ''HV_X86_RCX'', ''HV_X86_RDX'', ''HV_X86_RBX'',
     ''HV_X86_RSI'', ''HV_X86_RDI'', ''HV_X86_RSP'', ''HV_X86_RBP'', ''HV_X86_R8'', ''HV_X86_R9'',
     ''HV_X86_R10'', ''HV_X86_R11'', ''HV_X86_R12'', ''HV_X86_R13'', ''HV_X86_R14'', ''HV_X86_R15'',
     ''HV_X86_CS'', ''HV_X86_SS'', ''HV_X86_DS'', ''HV_X86_ES'', ''HV_X86_FS'', ''HV_X86_GS'',
     ''HV_X86_IDT_BASE'', ''HV_X86_IDT_LIMIT'', ''HV_X86_GDT_BASE'', ''HV_X86_GDT_LIMIT'', ''HV_X86_LDTR'',
     ''HV_X86_LDT_BASE'', ''HV_X86_LDT_LIMIT'', ''HV_X86_LDT_AR'', ''HV_X86_TR'', ''HV_X86_TSS_BASE'',
     ''HV_X86_TSS_LIMIT'', ''HV_X86_TSS_AR'', ''HV_X86_CR0'', ''HV_X86_CR1'', ''HV_X86_CR2'', ''HV_X86_CR3'',
     ''HV_X86_CR4'', ''HV_X86_DR0'', ''HV_X86_DR1'', ''HV_X86_DR2'', ''HV_X86_DR3'', ''HV_X86_DR4'',
     ''HV_X86_DR5'', ''HV_X86_DR6'', ''HV_X86_DR7'', ''HV_X86_TPR'', ''HV_X86_XCR0'', ''HV_X86_REGISTERS_MAX'']"

definition NR_X86_REG_LIST :: nat where
  "NR_X86_REG_LIST = length x86_reg_list - 1"

section \<open>State\<close>

text \<open>
  A processor as the hypervisor holds it: what is behind each name, the state of the floating point
  unit, the model-specific registers that the guest may use itself, and the contents of all of these
  registers.
\<close>

datatype slot = Reg_slot string | Vmcs_slot string

record hv_vcpu =
  hc_slots :: "slot \<Rightarrow> 64 word"
  hc_fpu :: "byte list"
  hc_msrs :: "flags set"
  hc_msr :: "flags \<Rightarrow> 64 word"

datatype hv_return = HV_SUCCESS | HV_NO_DEVICE | HV_OTHER_ERROR

datatype hv_call = Vm_create | Vm_destroy | Vcpu_create | Vcpu_destroy nat | Vm_map haddr gaddr "64 word" flags

text \<open>
  \<open>struct vcpu\<close> is an object named by the number that \<open>calloc\<close> gave; \<open>v_vcpu\<close> is the pointer of the
  running thread.
\<close>

record vmm =
  v_vcpus :: "nat list"
  v_nr_vcpus :: int
  v_vcpuid :: "nat \<Rightarrow> nat"
  v_fresh :: nat
  v_vcpu :: "nat option"
  v_hv :: "nat \<Rightarrow> hv_vcpu"
  v_calls :: "hv_call list"

record hv =
  hv_slot :: "string \<Rightarrow> slot"
  hv_answer :: "hv_call list \<Rightarrow> hv_call \<Rightarrow> hv_return"
  hv_new_id :: "hv_call list \<Rightarrow> nat"
  hv_reset :: hv_vcpu
  hv_reg_ok :: "string \<Rightarrow> bool"
  hv_vmcs_readable :: "string \<Rightarrow> bool"
  hv_vmcs_writable :: "string \<Rightarrow> bool"
  hv_fpu_ok :: bool
  hv_msr_ok :: bool
  hv_junk :: "byte list"

definition v_emit :: "hv_call \<Rightarrow> vmm \<Rightarrow> vmm" where
  "v_emit c s = s\<lparr>v_calls := v_calls s @ [c]\<rparr>"

definition hv_says :: "hv \<Rightarrow> hv_call \<Rightarrow> vmm \<Rightarrow> hv_return" where
  "hv_says h c s = hv_answer h (v_calls s) c"

text \<open>The processor of the running thread; \<open>vcpu\<close> is followed without a test.\<close>

definition this_vcpu :: "vmm \<Rightarrow> nat run" where
  "this_vcpu s = bind_run (deref (v_vcpu s)) (\<lambda>p. Inr (v_vcpuid s p))"

definition upd_vcpu :: "(hv_vcpu \<Rightarrow> hv_vcpu) \<Rightarrow> vmm \<Rightarrow> vmm run" where
  "upd_vcpu f s = bind_run (this_vcpu s) (\<lambda>i. Inr (s\<lparr>v_hv := (v_hv s)(i := f (v_hv s i))\<rparr>))"

definition set_slot :: "slot \<Rightarrow> 64 word \<Rightarrow> hv_vcpu \<Rightarrow> hv_vcpu" where
  "set_slot c x p = p\<lparr>hc_slots := (hc_slots p)(c := x)\<rparr>"

section \<open>Registers and fields\<close>

text \<open>A call that fails ends the process, except the write of a field, whose failure is ignored.\<close>

definition vmm_read_register :: "hv \<Rightarrow> string \<Rightarrow> vmm \<Rightarrow> (64 word) run" where
  "vmm_read_register h r s = bind_run (this_vcpu s) (\<lambda>i.
     if hv_reg_ok h r then Inr (hc_slots (v_hv s i) (hv_slot h r)) else Inl Panicked)"

definition vmm_write_register :: "hv \<Rightarrow> string \<Rightarrow> 64 word \<Rightarrow> vmm \<Rightarrow> vmm run" where
  "vmm_write_register h r x s = bind_run (this_vcpu s) (\<lambda>_.
     if hv_reg_ok h r then upd_vcpu (set_slot (hv_slot h r) x) s else Inl Panicked)"

definition vmm_read_vmcs :: "hv \<Rightarrow> string \<Rightarrow> vmm \<Rightarrow> (64 word) run" where
  "vmm_read_vmcs h f s = bind_run (this_vcpu s) (\<lambda>i.
     if hv_vmcs_readable h f then Inr (hc_slots (v_hv s i) (Vmcs_slot f)) else Inl Panicked)"

definition vmm_write_vmcs :: "hv \<Rightarrow> string \<Rightarrow> 64 word \<Rightarrow> vmm \<Rightarrow> vmm run" where
  "vmm_write_vmcs h f x s = bind_run (this_vcpu s) (\<lambda>_.
     if hv_vmcs_writable h f then upd_vcpu (set_slot (Vmcs_slot f) x) s else Inr s)"

definition vmm_write_fpstate :: "hv \<Rightarrow> byte list \<Rightarrow> vmm \<Rightarrow> vmm run" where
  "vmm_write_fpstate h bs s = bind_run (this_vcpu s) (\<lambda>_.
     if hv_fpu_ok h then upd_vcpu (\<lambda>p. p\<lparr>hc_fpu := bs @ drop (length bs) (hc_fpu p)\<rparr>) s else Inl Panicked)"

definition vmm_enable_native_msr :: "hv \<Rightarrow> flags \<Rightarrow> vmm \<Rightarrow> vmm run" where
  "vmm_enable_native_msr h m s = bind_run (this_vcpu s) (\<lambda>_.
     if hv_msr_ok h then upd_vcpu (\<lambda>p. p\<lparr>hc_msrs := insert m (hc_msrs p)\<rparr>) s else Inl Panicked)"

definition vmm_read_msr :: "hv \<Rightarrow> flags \<Rightarrow> vmm \<Rightarrow> (64 word) run" where
  "vmm_read_msr h m s = bind_run (this_vcpu s) (\<lambda>i. if hv_msr_ok h then Inr (hc_msr (v_hv s i) m) else Inl Panicked)"

definition vmm_write_msr :: "hv \<Rightarrow> flags \<Rightarrow> 64 word \<Rightarrow> vmm \<Rightarrow> vmm run" where
  "vmm_write_msr h m x s = bind_run (this_vcpu s) (\<lambda>_.
     if hv_msr_ok h then upd_vcpu (\<lambda>p. p\<lparr>hc_msr := (hc_msr p)(m := x)\<rparr>) s else Inl Panicked)"

text \<open>The model-specific registers of \<open>init_msr\<close> (\<open>src/main.c\<close>), which every restored processor gets again.\<close>

abbreviation (input) MSR_TIME_STAMP_COUNTER :: flags where "MSR_TIME_STAMP_COUNTER \<equiv> 0x10"
abbreviation (input) MSR_TSC_AUX :: flags where "MSR_TSC_AUX \<equiv> 0xc0000103"
abbreviation (input) MSR_KERNEL_GS_BASE :: flags where "MSR_KERNEL_GS_BASE \<equiv> 0xc0000102"

definition init_msr :: "hv \<Rightarrow> vmm \<Rightarrow> vmm run" where
  "init_msr h s =
    bind_run (vmm_enable_native_msr h MSR_TIME_STAMP_COUNTER s) (\<lambda>s.
    bind_run (vmm_enable_native_msr h MSR_TSC_AUX s) (\<lambda>s.
    vmm_enable_native_msr h MSR_KERNEL_GS_BASE s))"

section \<open>Snapshots\<close>

record vcpu_snapshot =
  sn_regs :: "64 word list"
  sn_vmcs :: "64 word list"
  sn_fpu :: "byte list"

fun read_each :: "(string \<Rightarrow> vmm \<Rightarrow> (64 word) run) \<Rightarrow> string list \<Rightarrow> vmm \<Rightarrow> (64 word list) run" where
  "read_each rd [] s = Inr []"
| "read_each rd (n # ns) s = bind_run (rd n s) (\<lambda>x. bind_run (read_each rd ns s) (\<lambda>xs. Inr (x # xs)))"

fun write_each :: "(string \<Rightarrow> 64 word \<Rightarrow> vmm \<Rightarrow> vmm run) \<Rightarrow> (string \<times> 64 word) list \<Rightarrow> vmm \<Rightarrow> vmm run" where
  "write_each wr [] s = Inr s"
| "write_each wr ((n, x) # ns) s = bind_run (wr n x s) (write_each wr ns)"

abbreviation snap_regs :: "string list" where
  "snap_regs \<equiv> take NR_X86_REG_LIST x86_reg_list"

abbreviation snap_fields :: "string list" where
  "snap_fields \<equiv> take NR_VMCS_FIELD_MASKED vmcs_field_masked_list"

definition vmm_snapshot_vcpu :: "hv \<Rightarrow> vmm \<Rightarrow> vcpu_snapshot run" where
  "vmm_snapshot_vcpu h s =
    bind_run (read_each (vmm_read_register h) snap_regs s) (\<lambda>rs.
    bind_run (read_each (vmm_read_vmcs h) snap_fields s) (\<lambda>fs.
    bind_run (this_vcpu s) (\<lambda>i.
      Inr \<lparr>sn_regs = rs, sn_vmcs = fs, sn_fpu = (if hv_fpu_ok h then hc_fpu (v_hv s i) else hv_junk h)\<rparr>)))"

definition vmm_snapshot :: "hv \<Rightarrow> vmm \<Rightarrow> vcpu_snapshot run" where
  "vmm_snapshot h s = (if 1 < v_nr_vcpus s then Inl Exited else vmm_snapshot_vcpu h s)"

definition vmm_restore_vcpu :: "hv \<Rightarrow> vcpu_snapshot \<Rightarrow> vmm \<Rightarrow> vmm run" where
  "vmm_restore_vcpu h sn s =
    bind_run (write_each (vmm_write_vmcs h) (zip snap_fields (sn_vmcs sn)) s) (\<lambda>s.
    bind_run (write_each (vmm_write_register h) (zip snap_regs (sn_regs sn)) s) (\<lambda>s.
    bind_run (if hv_fpu_ok h then upd_vcpu (\<lambda>p. p\<lparr>hc_fpu := sn_fpu sn\<rparr>) s
              else bind_run (this_vcpu s) (\<lambda>_. Inr s)) (\<lambda>s.
    init_msr h s)))"

section \<open>Creating and destroying\<close>

text \<open>\<open>hv_vcpu_create\<close>: a processor in the state after a reset, under the number the hypervisor chose.\<close>

definition new_vcpu :: "hv \<Rightarrow> vmm \<Rightarrow> (nat \<times> vmm) run" where
  "new_vcpu h s =
    (let s' = v_emit Vcpu_create s; i = hv_new_id h (v_calls s) in
     if hv_says h Vcpu_create s = HV_SUCCESS then Inr (i, s'\<lparr>v_hv := (v_hv s')(i := hv_reset h)\<rparr>)
     else Inl Panicked)"

definition vmm_create_vcpu :: "hv \<Rightarrow> vcpu_snapshot option \<Rightarrow> vmm \<Rightarrow> vmm run" where
  "vmm_create_vcpu h snapshot s =
    bind_run (new_vcpu h s) (\<lambda>(i, s).
    if v_vcpu s \<noteq> None then Inl Assert_failed
    else
      let p = v_fresh s; s = s\<lparr>v_fresh := Suc p, v_vcpu := Some p, v_vcpuid := (v_vcpuid s)(p := i)\<rparr> in
      bind_run (case snapshot of None \<Rightarrow> Inr s | Some sn \<Rightarrow> vmm_restore_vcpu h sn s) (\<lambda>s.
      Inr (s\<lparr>v_vcpus := p # v_vcpus s, v_nr_vcpus := v_nr_vcpus s + 1\<rparr>)))"

definition vmm_create :: "hv \<Rightarrow> vmm \<Rightarrow> vmm run" where
  "vmm_create h s0 =
    (let s = s0\<lparr>v_vcpus := [], v_nr_vcpus := 0\<rparr> in
     if hv_says h Vm_create s = HV_SUCCESS then vmm_create_vcpu h None (v_emit Vm_create s) else Inl Panicked)"

fun destroy_each :: "hv \<Rightarrow> nat list \<Rightarrow> vmm \<Rightarrow> vmm run" where
  "destroy_each h [] s = Inr s"
| "destroy_each h (p # ps) s =
    (let c = Vcpu_destroy (v_vcpuid s p) in
     if hv_says h c s = HV_SUCCESS then destroy_each h ps (v_emit c s) else Inl Panicked)"

definition vmm_destroy :: "hv \<Rightarrow> vmm \<Rightarrow> vmm run" where
  "vmm_destroy h s = bind_run (destroy_each h (v_vcpus s) s) (\<lambda>s.
     if hv_says h Vm_destroy s = HV_SUCCESS then Inr (v_emit Vm_destroy s) else Inl Panicked)"

definition vmm_destroy_vcpu :: "vmm \<Rightarrow> vmm run" where
  "vmm_destroy_vcpu s = bind_run (deref (v_vcpu s)) (\<lambda>p.
     Inr ((v_emit (Vcpu_destroy (v_vcpuid s p)) s)
       \<lparr>v_vcpus := remove1 p (v_vcpus s), v_nr_vcpus := v_nr_vcpus s - 1, v_vcpu := None\<rparr>))"

text \<open>\<open>restore_ept\<close> stops at the first region that cannot be mapped; its result is ignored.\<close>

fun map_each :: "hv \<Rightarrow> mm_region list \<Rightarrow> vmm \<Rightarrow> bool \<times> vmm" where
  "map_each h [] s = (True, s)"
| "map_each h (r # rs) s =
    (let c = Vm_map (r_haddr r) (r_gaddr r) (r_size r) (linux_mprot_to_hv_mflag (r_prot r)) in
     if hv_says h c s = HV_SUCCESS then map_each h rs (v_emit c s) else (False, v_emit c s))"

definition restore_ept :: "hv \<Rightarrow> mm \<Rightarrow> mm \<Rightarrow> vmm \<Rightarrow> bool \<times> vmm" where
  "restore_ept h vkern_mm proc_mm s =
    (case map_each h (regions vkern_mm) s of
       (False, s) \<Rightarrow> (False, s)
     | (True, s) \<Rightarrow> map_each h (regions proc_mm) s)"

text \<open>The label \<open>retry\<close> is reached once more when there is no device.\<close>

definition retry_create :: "hv \<Rightarrow> vmm \<Rightarrow> vmm run" where
  "retry_create h s =
    (case hv_says h Vm_create s of
       HV_SUCCESS \<Rightarrow> Inr (v_emit Vm_create s)
     | HV_NO_DEVICE \<Rightarrow>
         (let s' = v_emit Vm_create s in
          if hv_says h Vm_create s' = HV_SUCCESS then Inr (v_emit Vm_create s') else Inl Panicked)
     | HV_OTHER_ERROR \<Rightarrow> Inl Panicked)"

definition vmm_reentry :: "hv \<Rightarrow> vcpu_snapshot \<Rightarrow> mm \<Rightarrow> mm \<Rightarrow> vmm \<Rightarrow> vmm run" where
  "vmm_reentry h sn vkern_mm proc_mm s =
    bind_run (retry_create h s) (\<lambda>s.
    if 1 < v_nr_vcpus s then Inl Exited
    else
      bind_run (new_vcpu h s) (\<lambda>(i, s).
      bind_run (deref (v_vcpu s)) (\<lambda>p.
      bind_run (vmm_restore_vcpu h sn (s\<lparr>v_vcpuid := (v_vcpuid s)(p := i)\<rparr>)) (\<lambda>s.
      Inr (snd (restore_ept h vkern_mm proc_mm s))))))"

end
