(* ===== verification/Boot.thy ===== *)
theory Boot
  imports Vmm Layout
begin

text \<open>
  The start of the virtual machine: the page tables, descriptor tables and segments that
  \<open>src/mm/mm.c\<close> with \<open>src/mm/pdp.h\<close> sets up and the control fields, registers and floating point
  state of \<open>src/main.c\<close>, in the order of \<open>init_vkernel\<close>.  The tables are arrays of the kernel at host
  addresses that are arguments; \<open>kmap\<close> puts them above the guest's memory.  The capabilities that the
  hypervisor reports, the processor's features and what the stack holds are arguments too.
\<close>

section \<open>Page tables\<close>

definition PTE_P :: "64 word" where "PTE_P = 0x001"
definition PTE_W :: "64 word" where "PTE_W = 0x002"
definition PTE_U :: "64 word" where "PTE_U = 0x004"
definition PTE_PS :: "64 word" where "PTE_PS = 0x080"

text \<open>An entry of \<open>pdp.h\<close>: a page of 1 GiB that the guest may use, and the four quarters of the table.\<close>

definition pdp_page :: "64 word \<Rightarrow> 64 word" where
  "pdp_page a = a OR PTE_PS OR PTE_U OR PTE_W OR PTE_P"

definition pdp_000 :: "64 word list" where
  "pdp_000 =
   [pdp_page 0x0, pdp_page 0x40000000, pdp_page 0x80000000, pdp_page 0xc0000000, pdp_page 0x100000000,
    pdp_page 0x140000000, pdp_page 0x180000000, pdp_page 0x1c0000000, pdp_page 0x200000000,
    pdp_page 0x240000000, pdp_page 0x280000000, pdp_page 0x2c0000000, pdp_page 0x300000000,
    pdp_page 0x340000000, pdp_page 0x380000000, pdp_page 0x3c0000000, pdp_page 0x400000000,
    pdp_page 0x440000000, pdp_page 0x480000000, pdp_page 0x4c0000000, pdp_page 0x500000000,
    pdp_page 0x540000000, pdp_page 0x580000000, pdp_page 0x5c0000000, pdp_page 0x600000000,
    pdp_page 0x640000000, pdp_page 0x680000000, pdp_page 0x6c0000000, pdp_page 0x700000000,
    pdp_page 0x740000000, pdp_page 0x780000000, pdp_page 0x7c0000000, pdp_page 0x800000000,
    pdp_page 0x840000000, pdp_page 0x880000000, pdp_page 0x8c0000000, pdp_page 0x900000000,
    pdp_page 0x940000000, pdp_page 0x980000000, pdp_page 0x9c0000000, pdp_page 0xa00000000,
    pdp_page 0xa40000000, pdp_page 0xa80000000, pdp_page 0xac0000000, pdp_page 0xb00000000,
    pdp_page 0xb40000000, pdp_page 0xb80000000, pdp_page 0xbc0000000, pdp_page 0xc00000000,
    pdp_page 0xc40000000, pdp_page 0xc80000000, pdp_page 0xcc0000000, pdp_page 0xd00000000,
    pdp_page 0xd40000000, pdp_page 0xd80000000, pdp_page 0xdc0000000, pdp_page 0xe00000000,
    pdp_page 0xe40000000, pdp_page 0xe80000000, pdp_page 0xec0000000, pdp_page 0xf00000000,
    pdp_page 0xf40000000, pdp_page 0xf80000000, pdp_page 0xfc0000000, pdp_page 0x1000000000,
    pdp_page 0x1040000000, pdp_page 0x1080000000, pdp_page 0x10c0000000, pdp_page 0x1100000000,
    pdp_page 0x1140000000, pdp_page 0x1180000000, pdp_page 0x11c0000000, pdp_page 0x1200000000,
    pdp_page 0x1240000000, pdp_page 0x1280000000, pdp_page 0x12c0000000, pdp_page 0x1300000000,
    pdp_page 0x1340000000, pdp_page 0x1380000000, pdp_page 0x13c0000000, pdp_page 0x1400000000,
    pdp_page 0x1440000000, pdp_page 0x1480000000, pdp_page 0x14c0000000, pdp_page 0x1500000000,
    pdp_page 0x1540000000, pdp_page 0x1580000000, pdp_page 0x15c0000000, pdp_page 0x1600000000,
    pdp_page 0x1640000000, pdp_page 0x1680000000, pdp_page 0x16c0000000, pdp_page 0x1700000000,
    pdp_page 0x1740000000, pdp_page 0x1780000000, pdp_page 0x17c0000000, pdp_page 0x1800000000,
    pdp_page 0x1840000000, pdp_page 0x1880000000, pdp_page 0x18c0000000, pdp_page 0x1900000000,
    pdp_page 0x1940000000, pdp_page 0x1980000000, pdp_page 0x19c0000000, pdp_page 0x1a00000000,
    pdp_page 0x1a40000000, pdp_page 0x1a80000000, pdp_page 0x1ac0000000, pdp_page 0x1b00000000,
    pdp_page 0x1b40000000, pdp_page 0x1b80000000, pdp_page 0x1bc0000000, pdp_page 0x1c00000000,
    pdp_page 0x1c40000000, pdp_page 0x1c80000000, pdp_page 0x1cc0000000, pdp_page 0x1d00000000,
    pdp_page 0x1d40000000, pdp_page 0x1d80000000, pdp_page 0x1dc0000000, pdp_page 0x1e00000000,
    pdp_page 0x1e40000000, pdp_page 0x1e80000000, pdp_page 0x1ec0000000, pdp_page 0x1f00000000,
    pdp_page 0x1f40000000, pdp_page 0x1f80000000, pdp_page 0x1fc0000000]"

definition pdp_128 :: "64 word list" where
  "pdp_128 =
   [pdp_page 0x2000000000, pdp_page 0x2040000000, pdp_page 0x2080000000, pdp_page 0x20c0000000,
    pdp_page 0x2100000000, pdp_page 0x2140000000, pdp_page 0x2180000000, pdp_page 0x21c0000000,
    pdp_page 0x2200000000, pdp_page 0x2240000000, pdp_page 0x2280000000, pdp_page 0x22c0000000,
    pdp_page 0x2300000000, pdp_page 0x2340000000, pdp_page 0x2380000000, pdp_page 0x23c0000000,
    pdp_page 0x2400000000, pdp_page 0x2440000000, pdp_page 0x2480000000, pdp_page 0x24c0000000,
    pdp_page 0x2500000000, pdp_page 0x2540000000, pdp_page 0x2580000000, pdp_page 0x25c0000000,
    pdp_page 0x2600000000, pdp_page 0x2640000000, pdp_page 0x2680000000, pdp_page 0x26c0000000,
    pdp_page 0x2700000000, pdp_page 0x2740000000, pdp_page 0x2780000000, pdp_page 0x27c0000000,
    pdp_page 0x2800000000, pdp_page 0x2840000000, pdp_page 0x2880000000, pdp_page 0x28c0000000,
    pdp_page 0x2900000000, pdp_page 0x2940000000, pdp_page 0x2980000000, pdp_page 0x29c0000000,
    pdp_page 0x2a00000000, pdp_page 0x2a40000000, pdp_page 0x2a80000000, pdp_page 0x2ac0000000,
    pdp_page 0x2b00000000, pdp_page 0x2b40000000, pdp_page 0x2b80000000, pdp_page 0x2bc0000000,
    pdp_page 0x2c00000000, pdp_page 0x2c40000000, pdp_page 0x2c80000000, pdp_page 0x2cc0000000,
    pdp_page 0x2d00000000, pdp_page 0x2d40000000, pdp_page 0x2d80000000, pdp_page 0x2dc0000000,
    pdp_page 0x2e00000000, pdp_page 0x2e40000000, pdp_page 0x2e80000000, pdp_page 0x2ec0000000,
    pdp_page 0x2f00000000, pdp_page 0x2f40000000, pdp_page 0x2f80000000, pdp_page 0x2fc0000000,
    pdp_page 0x3000000000, pdp_page 0x3040000000, pdp_page 0x3080000000, pdp_page 0x30c0000000,
    pdp_page 0x3100000000, pdp_page 0x3140000000, pdp_page 0x3180000000, pdp_page 0x31c0000000,
    pdp_page 0x3200000000, pdp_page 0x3240000000, pdp_page 0x3280000000, pdp_page 0x32c0000000,
    pdp_page 0x3300000000, pdp_page 0x3340000000, pdp_page 0x3380000000, pdp_page 0x33c0000000,
    pdp_page 0x3400000000, pdp_page 0x3440000000, pdp_page 0x3480000000, pdp_page 0x34c0000000,
    pdp_page 0x3500000000, pdp_page 0x3540000000, pdp_page 0x3580000000, pdp_page 0x35c0000000,
    pdp_page 0x3600000000, pdp_page 0x3640000000, pdp_page 0x3680000000, pdp_page 0x36c0000000,
    pdp_page 0x3700000000, pdp_page 0x3740000000, pdp_page 0x3780000000, pdp_page 0x37c0000000,
    pdp_page 0x3800000000, pdp_page 0x3840000000, pdp_page 0x3880000000, pdp_page 0x38c0000000,
    pdp_page 0x3900000000, pdp_page 0x3940000000, pdp_page 0x3980000000, pdp_page 0x39c0000000,
    pdp_page 0x3a00000000, pdp_page 0x3a40000000, pdp_page 0x3a80000000, pdp_page 0x3ac0000000,
    pdp_page 0x3b00000000, pdp_page 0x3b40000000, pdp_page 0x3b80000000, pdp_page 0x3bc0000000,
    pdp_page 0x3c00000000, pdp_page 0x3c40000000, pdp_page 0x3c80000000, pdp_page 0x3cc0000000,
    pdp_page 0x3d00000000, pdp_page 0x3d40000000, pdp_page 0x3d80000000, pdp_page 0x3dc0000000,
    pdp_page 0x3e00000000, pdp_page 0x3e40000000, pdp_page 0x3e80000000, pdp_page 0x3ec0000000,
    pdp_page 0x3f00000000, pdp_page 0x3f40000000, pdp_page 0x3f80000000, pdp_page 0x3fc0000000]"

definition pdp_256 :: "64 word list" where
  "pdp_256 =
   [pdp_page 0x4000000000, pdp_page 0x4040000000, pdp_page 0x4080000000, pdp_page 0x40c0000000,
    pdp_page 0x4100000000, pdp_page 0x4140000000, pdp_page 0x4180000000, pdp_page 0x41c0000000,
    pdp_page 0x4200000000, pdp_page 0x4240000000, pdp_page 0x4280000000, pdp_page 0x42c0000000,
    pdp_page 0x4300000000, pdp_page 0x4340000000, pdp_page 0x4380000000, pdp_page 0x43c0000000,
    pdp_page 0x4400000000, pdp_page 0x4440000000, pdp_page 0x4480000000, pdp_page 0x44c0000000,
    pdp_page 0x4500000000, pdp_page 0x4540000000, pdp_page 0x4580000000, pdp_page 0x45c0000000,
    pdp_page 0x4600000000, pdp_page 0x4640000000, pdp_page 0x4680000000, pdp_page 0x46c0000000,
    pdp_page 0x4700000000, pdp_page 0x4740000000, pdp_page 0x4780000000, pdp_page 0x47c0000000,
    pdp_page 0x4800000000, pdp_page 0x4840000000, pdp_page 0x4880000000, pdp_page 0x48c0000000,
    pdp_page 0x4900000000, pdp_page 0x4940000000, pdp_page 0x4980000000, pdp_page 0x49c0000000,
    pdp_page 0x4a00000000, pdp_page 0x4a40000000, pdp_page 0x4a80000000, pdp_page 0x4ac0000000,
    pdp_page 0x4b00000000, pdp_page 0x4b40000000, pdp_page 0x4b80000000, pdp_page 0x4bc0000000,
    pdp_page 0x4c00000000, pdp_page 0x4c40000000, pdp_page 0x4c80000000, pdp_page 0x4cc0000000,
    pdp_page 0x4d00000000, pdp_page 0x4d40000000, pdp_page 0x4d80000000, pdp_page 0x4dc0000000,
    pdp_page 0x4e00000000, pdp_page 0x4e40000000, pdp_page 0x4e80000000, pdp_page 0x4ec0000000,
    pdp_page 0x4f00000000, pdp_page 0x4f40000000, pdp_page 0x4f80000000, pdp_page 0x4fc0000000,
    pdp_page 0x5000000000, pdp_page 0x5040000000, pdp_page 0x5080000000, pdp_page 0x50c0000000,
    pdp_page 0x5100000000, pdp_page 0x5140000000, pdp_page 0x5180000000, pdp_page 0x51c0000000,
    pdp_page 0x5200000000, pdp_page 0x5240000000, pdp_page 0x5280000000, pdp_page 0x52c0000000,
    pdp_page 0x5300000000, pdp_page 0x5340000000, pdp_page 0x5380000000, pdp_page 0x53c0000000,
    pdp_page 0x5400000000, pdp_page 0x5440000000, pdp_page 0x5480000000, pdp_page 0x54c0000000,
    pdp_page 0x5500000000, pdp_page 0x5540000000, pdp_page 0x5580000000, pdp_page 0x55c0000000,
    pdp_page 0x5600000000, pdp_page 0x5640000000, pdp_page 0x5680000000, pdp_page 0x56c0000000,
    pdp_page 0x5700000000, pdp_page 0x5740000000, pdp_page 0x5780000000, pdp_page 0x57c0000000,
    pdp_page 0x5800000000, pdp_page 0x5840000000, pdp_page 0x5880000000, pdp_page 0x58c0000000,
    pdp_page 0x5900000000, pdp_page 0x5940000000, pdp_page 0x5980000000, pdp_page 0x59c0000000,
    pdp_page 0x5a00000000, pdp_page 0x5a40000000, pdp_page 0x5a80000000, pdp_page 0x5ac0000000,
    pdp_page 0x5b00000000, pdp_page 0x5b40000000, pdp_page 0x5b80000000, pdp_page 0x5bc0000000,
    pdp_page 0x5c00000000, pdp_page 0x5c40000000, pdp_page 0x5c80000000, pdp_page 0x5cc0000000,
    pdp_page 0x5d00000000, pdp_page 0x5d40000000, pdp_page 0x5d80000000, pdp_page 0x5dc0000000,
    pdp_page 0x5e00000000, pdp_page 0x5e40000000, pdp_page 0x5e80000000, pdp_page 0x5ec0000000,
    pdp_page 0x5f00000000, pdp_page 0x5f40000000, pdp_page 0x5f80000000, pdp_page 0x5fc0000000]"

definition pdp_384 :: "64 word list" where
  "pdp_384 =
   [pdp_page 0x6000000000, pdp_page 0x6040000000, pdp_page 0x6080000000, pdp_page 0x60c0000000,
    pdp_page 0x6100000000, pdp_page 0x6140000000, pdp_page 0x6180000000, pdp_page 0x61c0000000,
    pdp_page 0x6200000000, pdp_page 0x6240000000, pdp_page 0x6280000000, pdp_page 0x62c0000000,
    pdp_page 0x6300000000, pdp_page 0x6340000000, pdp_page 0x6380000000, pdp_page 0x63c0000000,
    pdp_page 0x6400000000, pdp_page 0x6440000000, pdp_page 0x6480000000, pdp_page 0x64c0000000,
    pdp_page 0x6500000000, pdp_page 0x6540000000, pdp_page 0x6580000000, pdp_page 0x65c0000000,
    pdp_page 0x6600000000, pdp_page 0x6640000000, pdp_page 0x6680000000, pdp_page 0x66c0000000,
    pdp_page 0x6700000000, pdp_page 0x6740000000, pdp_page 0x6780000000, pdp_page 0x67c0000000,
    pdp_page 0x6800000000, pdp_page 0x6840000000, pdp_page 0x6880000000, pdp_page 0x68c0000000,
    pdp_page 0x6900000000, pdp_page 0x6940000000, pdp_page 0x6980000000, pdp_page 0x69c0000000,
    pdp_page 0x6a00000000, pdp_page 0x6a40000000, pdp_page 0x6a80000000, pdp_page 0x6ac0000000,
    pdp_page 0x6b00000000, pdp_page 0x6b40000000, pdp_page 0x6b80000000, pdp_page 0x6bc0000000,
    pdp_page 0x6c00000000, pdp_page 0x6c40000000, pdp_page 0x6c80000000, pdp_page 0x6cc0000000,
    pdp_page 0x6d00000000, pdp_page 0x6d40000000, pdp_page 0x6d80000000, pdp_page 0x6dc0000000,
    pdp_page 0x6e00000000, pdp_page 0x6e40000000, pdp_page 0x6e80000000, pdp_page 0x6ec0000000,
    pdp_page 0x6f00000000, pdp_page 0x6f40000000, pdp_page 0x6f80000000, pdp_page 0x6fc0000000,
    pdp_page 0x7000000000, pdp_page 0x7040000000, pdp_page 0x7080000000, pdp_page 0x70c0000000,
    pdp_page 0x7100000000, pdp_page 0x7140000000, pdp_page 0x7180000000, pdp_page 0x71c0000000,
    pdp_page 0x7200000000, pdp_page 0x7240000000, pdp_page 0x7280000000, pdp_page 0x72c0000000,
    pdp_page 0x7300000000, pdp_page 0x7340000000, pdp_page 0x7380000000, pdp_page 0x73c0000000,
    pdp_page 0x7400000000, pdp_page 0x7440000000, pdp_page 0x7480000000, pdp_page 0x74c0000000,
    pdp_page 0x7500000000, pdp_page 0x7540000000, pdp_page 0x7580000000, pdp_page 0x75c0000000,
    pdp_page 0x7600000000, pdp_page 0x7640000000, pdp_page 0x7680000000, pdp_page 0x76c0000000,
    pdp_page 0x7700000000, pdp_page 0x7740000000, pdp_page 0x7780000000, pdp_page 0x77c0000000,
    pdp_page 0x7800000000, pdp_page 0x7840000000, pdp_page 0x7880000000, pdp_page 0x78c0000000,
    pdp_page 0x7900000000, pdp_page 0x7940000000, pdp_page 0x7980000000, pdp_page 0x79c0000000,
    pdp_page 0x7a00000000, pdp_page 0x7a40000000, pdp_page 0x7a80000000, pdp_page 0x7ac0000000,
    pdp_page 0x7b00000000, pdp_page 0x7b40000000, pdp_page 0x7b80000000, pdp_page 0x7bc0000000,
    pdp_page 0x7c00000000, pdp_page 0x7c40000000, pdp_page 0x7c80000000, pdp_page 0x7cc0000000,
    pdp_page 0x7d00000000, pdp_page 0x7d40000000, pdp_page 0x7d80000000, pdp_page 0x7dc0000000,
    pdp_page 0x7e00000000, pdp_page 0x7e40000000, pdp_page 0x7e80000000, pdp_page 0x7ec0000000,
    pdp_page 0x7f00000000, pdp_page 0x7f40000000, pdp_page 0x7f80000000, PTE_PS OR PTE_W OR PTE_P]"

definition pdp :: "64 word list" where
  "pdp = pdp_000 @ pdp_128 @ pdp_256 @ pdp_384"

definition pml4 :: "64 word list" where
  "pml4 = (PTE_U OR PTE_W OR PTE_P) # replicate 511 0"

section \<open>State\<close>

text \<open>
  The head of the arena of the shared allocator, \<open>src/mm/malloc.c\<close>: where it starts, the free list and its
  first header, empty at first, and the end of what is in use, which starts behind this structure (a
  lock of 200 bytes, a header of 16 and two pointers).
\<close>

record malloc_data =
  ma_start :: haddr
  ma_base :: "haddr \<times> 64 word"
  ma_freep :: haddr
  ma_brkp :: haddr

record boot =
  b_vmm :: vmm
  b_kern :: vm
  b_kern_brk :: gaddr
  b_pml4 :: "64 word list"
  b_pml4_ptr :: gaddr
  b_gdt_ptr :: gaddr
  b_idt_ptr :: gaddr
  b_arena :: "malloc_data option"

record boot_host =
  bh_hv :: hv
  bh_map :: hv_map
  bh_pml4 :: haddr
  bh_pdp :: haddr
  bh_gdt :: haddr
  bh_idt :: haddr
  bh_capability :: "string \<Rightarrow> 64 word"
  bh_cpuid_0d :: flags
  bh_stack :: "byte list"
  bh_arena :: "haddr option"

type_synonym boot_step = "boot_host \<Rightarrow> boot \<Rightarrow> boot run"

fun b_seq :: "boot_step list \<Rightarrow> boot_step" where
  "b_seq [] h b = Inr b"
| "b_seq (f # fs) h b = bind_run (f h b) (b_seq fs h)"

definition on_vmm :: "(hv \<Rightarrow> vmm \<Rightarrow> vmm run) \<Rightarrow> boot_step" where
  "on_vmm f h b = bind_run (f (bh_hv h) (b_vmm b)) (\<lambda>s. Inr (b\<lparr>b_vmm := s\<rparr>))"

definition wr_vmcs :: "string \<Rightarrow> 64 word \<Rightarrow> boot_step" where
  "wr_vmcs f x = on_vmm (\<lambda>h. vmm_write_vmcs h f x)"

definition wr_reg :: "string \<Rightarrow> 64 word \<Rightarrow> boot_step" where
  "wr_reg r x = on_vmm (\<lambda>h. vmm_write_register h r x)"

text \<open>Reading a field and writing back what \<open>f\<close> makes of it.\<close>

definition mod_vmcs :: "string \<Rightarrow> (64 word \<Rightarrow> 64 word) \<Rightarrow> boot_step" where
  "mod_vmcs n f h b = bind_run (vmm_read_vmcs (bh_hv h) n (b_vmm b)) (\<lambda>x. wr_vmcs n (f x) h b)"

definition boot_kmap :: "haddr \<Rightarrow> boot_host \<Rightarrow> boot \<Rightarrow> (gaddr \<times> boot) run" where
  "boot_kmap ptr h b =
    bind_run (kmap (bh_map h) ptr 0x1000 (HV_MEMORY_READ OR HV_MEMORY_WRITE) (b_kern_brk b) (b_kern b))
      (\<lambda>(g, brk, v). Inr (g, b\<lparr>b_kern_brk := brk, b_kern := v\<rparr>))"

section \<open>Control fields\<close>

definition cap2ctrl :: "64 word \<Rightarrow> 64 word \<Rightarrow> 64 word" where
  "cap2ctrl cap ctrl = (ctrl OR (cap AND 0xffffffff)) AND drop_bit 32 cap"

abbreviation (input) CPU_BASED_HLT :: "64 word" where "CPU_BASED_HLT \<equiv> 0x80"
abbreviation (input) CPU_BASED_CR8_LOAD :: "64 word" where "CPU_BASED_CR8_LOAD \<equiv> 0x80000"
abbreviation (input) CPU_BASED_CR8_STORE :: "64 word" where "CPU_BASED_CR8_STORE \<equiv> 0x100000"
abbreviation (input) VMENTRY_LOAD_EFER :: "64 word" where "VMENTRY_LOAD_EFER \<equiv> 0x8000"
abbreviation (input) VMENTRY_GUEST_IA32E :: "64 word" where "VMENTRY_GUEST_IA32E \<equiv> 0x200"
abbreviation (input) VMEXIT_LOAD_EFER :: "64 word" where "VMEXIT_LOAD_EFER \<equiv> 0x200000"

definition init_vmcs :: boot_step where
  "init_vmcs h =
    (let cap = bh_capability h in
     b_seq
      [wr_vmcs ''VMCS_CTRL_PIN_BASED'' (cap2ctrl (cap ''HV_VMX_CAP_PINBASED'') 0),
       wr_vmcs ''VMCS_CTRL_CPU_BASED'' (cap2ctrl (cap ''HV_VMX_CAP_PROCBASED'')
         (CPU_BASED_HLT OR CPU_BASED_CR8_LOAD OR CPU_BASED_CR8_STORE)),
       wr_vmcs ''VMCS_CTRL_CPU_BASED2'' (cap2ctrl (cap ''HV_VMX_CAP_PROCBASED2'') 0),
       wr_vmcs ''VMCS_CTRL_VMENTRY_CONTROLS'' (cap2ctrl (cap ''HV_VMX_CAP_ENTRY'')
         (VMENTRY_LOAD_EFER OR VMENTRY_GUEST_IA32E)),
       wr_vmcs ''VMCS_CTRL_VMEXIT_CONTROLS'' (cap2ctrl (cap ''HV_VMX_CAP_EXIT'') VMEXIT_LOAD_EFER),
       wr_vmcs ''VMCS_CTRL_EXC_BITMAP'' 0xffffffff,
       wr_vmcs ''VMCS_CTRL_CR0_SHADOW'' 0,
       wr_vmcs ''VMCS_CTRL_CR4_MASK'' 0,
       wr_vmcs ''VMCS_CTRL_CR4_SHADOW'' 0] h)"

definition boot_msr :: boot_step where
  "boot_msr = on_vmm init_msr"

section \<open>Paging and special registers\<close>

abbreviation (input) CR0_PE :: "64 word" where "CR0_PE \<equiv> 0x1"
abbreviation (input) CR0_MP :: "64 word" where "CR0_MP \<equiv> 0x2"
abbreviation (input) CR0_EM :: "64 word" where "CR0_EM \<equiv> 0x4"
abbreviation (input) CR0_NE :: "64 word" where "CR0_NE \<equiv> 0x20"
abbreviation (input) CR0_PG :: "64 word" where "CR0_PG \<equiv> 0x80000000"
abbreviation (input) CR4_PAE :: "64 word" where "CR4_PAE \<equiv> 0x20"
abbreviation (input) CR4_OSFXSR :: "64 word" where "CR4_OSFXSR \<equiv> 0x200"
abbreviation (input) CR4_OSXMMEXCPT :: "64 word" where "CR4_OSXMMEXCPT \<equiv> 0x400"
abbreviation (input) CR4_VMXE :: "64 word" where "CR4_VMXE \<equiv> 0x2000"
abbreviation (input) CR4_OSXSAVE :: "64 word" where "CR4_OSXSAVE \<equiv> 0x40000"
abbreviation (input) EFER_LME :: "64 word" where "EFER_LME \<equiv> 0x100"
abbreviation (input) EFER_LMA :: "64 word" where "EFER_LMA \<equiv> 0x400"
abbreviation (input) XCR0_SSE_STATE :: "64 word" where "XCR0_SSE_STATE \<equiv> 0x2"

definition init_page :: boot_step where
  "init_page h b =
    bind_run (boot_kmap (bh_pml4 h) h b) (\<lambda>(g, b).
    let b = b\<lparr>b_pml4_ptr := g\<rparr> in
    bind_run (boot_kmap (bh_pdp h) h b) (\<lambda>(g, b).
    let b = b\<lparr>b_pml4 := (b_pml4 b)[0 := b_pml4 b ! 0 OR (g AND 0x000ffffffffff000)]\<rparr> in
    b_seq
     [wr_vmcs ''VMCS_GUEST_CR0'' (CR0_PG OR CR0_PE OR CR0_NE),
      wr_vmcs ''VMCS_GUEST_CR3'' (b_pml4_ptr b)] h b))"

definition init_special_regs :: boot_step where
  "init_special_regs = b_seq
    [mod_vmcs ''VMCS_GUEST_CR0'' (\<lambda>cr0. (cr0 AND NOT CR0_EM) OR CR0_MP),
     mod_vmcs ''VMCS_GUEST_CR4''
       (\<lambda>cr4. cr4 OR CR4_PAE OR CR4_OSFXSR OR CR4_OSXMMEXCPT OR CR4_VMXE OR CR4_OSXSAVE),
     mod_vmcs ''VMCS_GUEST_IA32_EFER'' (\<lambda>efer. efer OR EFER_LME OR EFER_LMA)]"

section \<open>Segments and descriptor tables\<close>

abbreviation (input) SEG_CODE :: "64 word" where "SEG_CODE \<equiv> 1"
abbreviation (input) SEG_DATA :: "64 word" where "SEG_DATA \<equiv> 2"
abbreviation (input) DESC_UNUSABLE :: "64 word" where "DESC_UNUSABLE \<equiv> 0x10000"

definition GSEL :: "64 word \<Rightarrow> 64 word \<Rightarrow> 64 word" where
  "GSEL s r = push_bit 3 s OR r"

text \<open>The address that \<open>kmap\<close> gives for the descriptor table is dropped: \<open>gdt_ptr\<close> stays what it was.\<close>

definition init_segment :: boot_step where
  "init_segment h b =
    bind_run (boot_kmap (bh_gdt h) h b) (\<lambda>(_, b).
    let codeseg_ar = 0x209b; dataseg_ar = 0x93 in
    b_seq
     [wr_vmcs ''VMCS_GUEST_GDTR_BASE'' (b_gdt_ptr b), wr_vmcs ''VMCS_GUEST_GDTR_LIMIT'' (3 * 8 - 1),
      wr_vmcs ''VMCS_GUEST_TR_BASE'' 0, wr_vmcs ''VMCS_GUEST_TR_LIMIT'' 0, wr_vmcs ''VMCS_GUEST_TR_AR'' 0x8b,
      wr_vmcs ''VMCS_GUEST_LDTR_BASE'' 0, wr_vmcs ''VMCS_GUEST_LDTR_LIMIT'' 0,
      wr_vmcs ''VMCS_GUEST_LDTR_AR'' DESC_UNUSABLE,
      wr_vmcs ''VMCS_GUEST_IDTR_BASE'' 0, wr_vmcs ''VMCS_GUEST_IDTR_LIMIT'' 0xffff,
      wr_vmcs ''VMCS_GUEST_CS_BASE'' 0, wr_vmcs ''VMCS_GUEST_CS_LIMIT'' 0, wr_vmcs ''VMCS_GUEST_CS_AR'' codeseg_ar,
      wr_vmcs ''VMCS_GUEST_DS_BASE'' 0, wr_vmcs ''VMCS_GUEST_DS_LIMIT'' 0, wr_vmcs ''VMCS_GUEST_DS_AR'' dataseg_ar,
      wr_vmcs ''VMCS_GUEST_ES'' 0, wr_vmcs ''VMCS_GUEST_ES_BASE'' 0, wr_vmcs ''VMCS_GUEST_ES_LIMIT'' 0,
      wr_vmcs ''VMCS_GUEST_ES_AR'' dataseg_ar,
      wr_vmcs ''VMCS_GUEST_FS'' 0, wr_vmcs ''VMCS_GUEST_FS_BASE'' 0, wr_vmcs ''VMCS_GUEST_FS_LIMIT'' 0,
      wr_vmcs ''VMCS_GUEST_FS_AR'' dataseg_ar,
      wr_vmcs ''VMCS_GUEST_GS'' 0, wr_vmcs ''VMCS_GUEST_GS_BASE'' 0, wr_vmcs ''VMCS_GUEST_GS_LIMIT'' 0,
      wr_vmcs ''VMCS_GUEST_GS_AR'' dataseg_ar,
      wr_vmcs ''VMCS_GUEST_SS'' 0, wr_vmcs ''VMCS_GUEST_SS_BASE'' 0, wr_vmcs ''VMCS_GUEST_SS_LIMIT'' 0,
      wr_vmcs ''VMCS_GUEST_SS_AR'' dataseg_ar,
      wr_reg ''HV_X86_CS'' (GSEL SEG_CODE 0), wr_reg ''HV_X86_DS'' (GSEL SEG_DATA 0),
      wr_reg ''HV_X86_ES'' (GSEL SEG_DATA 0), wr_reg ''HV_X86_FS'' (GSEL SEG_DATA 0),
      wr_reg ''HV_X86_GS'' (GSEL SEG_DATA 0), wr_reg ''HV_X86_SS'' (GSEL SEG_DATA 0),
      wr_reg ''HV_X86_TR'' 0, wr_reg ''HV_X86_LDTR'' 0] h b)"

text \<open>\<open>sizeof idt\<close> is 256 gates of 16 bytes.\<close>

definition init_idt :: boot_step where
  "init_idt h b =
    bind_run (boot_kmap (bh_idt h) h b) (\<lambda>(g, b).
    let b = b\<lparr>b_idt_ptr := g\<rparr> in
    b_seq [wr_vmcs ''VMCS_GUEST_IDTR_BASE'' (b_idt_ptr b), wr_vmcs ''VMCS_GUEST_IDTR_LIMIT'' (256 * 16)] h b)"

section \<open>Registers and floating point\<close>

definition init_regs :: boot_step where
  "init_regs h b =
    bind_run (wr_reg ''HV_X86_RFLAGS'' 0x2 h b) (\<lambda>b.
    if (ucast (bh_cpuid_0d h) :: 64 word) AND XCR0_SSE_STATE \<noteq> 0
    then bind_run (vmm_read_register (bh_hv h) ''HV_X86_XCR0'' (b_vmm b)) (\<lambda>xcr0.
      wr_reg ''HV_X86_XCR0'' (xcr0 OR XCR0_SSE_STATE) h b)
    else Inr b)"

definition init_fpu :: boot_step where
  "init_fpu h = on_vmm (\<lambda>hv. vmm_write_fpstate hv (fx_image (bh_stack h))) h"

section \<open>The sequence\<close>

text \<open>
  \<open>vmm_create\<close> and the part of \<open>init_vkernel\<close> that sets up the machine.  Its last step,
  \<open>init_first_proc\<close>, is in the theory of the first process.
\<close>

definition init_shm_malloc :: boot_step where
  "init_shm_malloc h b = (case bh_arena h of
     None \<Rightarrow> Inl Exited
   | Some p \<Rightarrow> Inr (b\<lparr>b_arena := Some \<lparr>ma_start = p, ma_base = (0, 0), ma_freep = 0, ma_brkp = p + 232\<rparr>\<rparr>))"

definition init_vkernel :: boot_step where
  "init_vkernel h b = b_seq
    [init_shm_malloc, init_vmcs, boot_msr, init_page, init_special_regs, init_segment, init_idt, init_regs, init_fpu] h
      (b\<lparr>b_kern := (b_kern b)\<lparr>vm_mm := init_mm (vm_mm (b_kern b))\<rparr>\<rparr>)"

definition boot_machine :: boot_step where
  "boot_machine h b = bind_run (on_vmm vmm_create h b) (init_vkernel h)"

end
