(* ===== verification/VmmProps.thy ===== *)
theory VmmProps
  imports Vmm
begin

text \<open>
  The snapshot of the virtual machine: the machine that a process gets back after \<open>fork\<close> has the
  registers, fields and floating point state of the one that was destroyed, and its extended page
  table maps what the region indices hold.
\<close>

section \<open>The extended page table\<close>

text \<open>What the calls to the hypervisor have mapped: a new machine maps nothing.\<close>

type_synonym ept = "gaddr \<Rightarrow> (haddr \<times> flags) option"

fun ept_step :: "ept \<Rightarrow> hv_call \<Rightarrow> ept" where
  "ept_step e (Vm_map h g n p) = (\<lambda>a. if in_range a g n then Some (h + (a - g), p) else e a)"
| "ept_step e Vm_create = (\<lambda>_. None)"
| "ept_step e Vm_destroy = (\<lambda>_. None)"
| "ept_step e _ = e"

definition ept :: "hv_call list \<Rightarrow> ept" where
  "ept cs = foldl ept_step (\<lambda>_. None) cs"

definition region_ept :: "mm \<Rightarrow> ept" where
  "region_ept m a = map_option (\<lambda>(x, p, _). (x, linux_mprot_to_hv_mflag p)) (view m a)"

definition guest_ept :: "mm \<Rightarrow> mm \<Rightarrow> ept" where
  "guest_ept vkern_mm proc_mm a =
    (case region_ept proc_mm a of None \<Rightarrow> region_ept vkern_mm a | Some x \<Rightarrow> Some x)"

lemma ept_snoc [simp]: "ept (cs @ [c]) = ept_step (ept cs) c"
  by (simp add: ept_def)

lemma ept_append: "ept (cs @ ds) = foldl ept_step (ept cs) ds"
  by (simp add: ept_def)

definition map_call :: "mm_region \<Rightarrow> hv_call" where
  "map_call r = Vm_map (r_haddr r) (r_gaddr r) (r_size r) (linux_mprot_to_hv_mflag (r_prot r))"

lemma in_range_contains: "in_range a (r_gaddr r) (r_size r) \<longleftrightarrow> contains r a"
  by (auto simp: in_range_def contains_def region_end_def)

lemma ept_step_map_call [simp]: "ept_step e (map_call r) a =
    (if contains r a then Some (r_haddr r + (a - r_gaddr r), linux_mprot_to_hv_mflag (r_prot r)) else e a)"
  by (simp add: map_call_def in_range_contains)

lemma foldl_map_calls_skip:
  "(\<And>r. r \<in> set rs \<Longrightarrow> \<not> contains r a) \<Longrightarrow> foldl ept_step e (map map_call rs) a = e a"
  by (induction rs arbitrary: e) simp_all

lemma foldl_map_calls_hit:
  assumes "r \<in> set rs" "contains r a" "\<And>r'. r' \<in> set rs \<Longrightarrow> contains r' a \<Longrightarrow> r' = r"
  shows "foldl ept_step e (map map_call rs) a = Some (r_haddr r + (a - r_gaddr r), linux_mprot_to_hv_mflag (r_prot r))"
  using assms
proof (induction rs arbitrary: e)
  case (Cons r' rs)
  show ?case
  proof (cases "r \<in> set rs")
    case True
    have "foldl ept_step (ept_step e (map_call r')) (map map_call rs) a =
        Some (r_haddr r + (a - r_gaddr r), linux_mprot_to_hv_mflag (r_prot r))"
      by (rule Cons.IH) (use True Cons.prems in auto)
    then show ?thesis by simp
  next
    case False
    then have "r' = r" and "\<And>x. x \<in> set rs \<Longrightarrow> \<not> contains x a" using Cons.prems by auto
    then have "foldl ept_step (ept_step e (map_call r)) (map map_call rs) a = ept_step e (map_call r) a"
      by (intro foldl_map_calls_skip) simp
    then show ?thesis using \<open>r' = r\<close> Cons.prems(2) by simp
  qed
qed simp

text \<open>Mapping the regions of an index puts exactly its view over what was mapped before.\<close>

lemma foldl_map_calls:
  assumes "mm_inv m"
  shows "foldl ept_step e (map map_call (regions m)) a =
    (case region_ept m a of None \<Rightarrow> e a | Some x \<Rightarrow> Some x)"
proof (cases "find_region a m")
  case None
  then have "\<not> contains r a" if "r \<in> set (regions m)" for r
    using find_region_None [OF assms, of a] that unfolding regions_def set_map by blast
  then have "foldl ept_step e (map map_call (regions m)) a = e a" by (rule foldl_map_calls_skip)
  then show ?thesis using None by (simp add: region_ept_def view_def)
next
  case (Some i)
  then have i: "i \<in> set (mm_regions m)" "contains (mm_store m i) a"
    using find_region_iff [OF assms, of a i] by auto
  have only: "r = mm_store m i" if "r \<in> set (regions m)" "contains r a" for r
  proof -
    obtain j where "j \<in> set (mm_regions m)" "r = mm_store m j" using \<open>r \<in> set (regions m)\<close> by (auto simp: regions_def)
    then show ?thesis using find_region_iff [OF assms, of a j] that(2) Some by simp
  qed
  have "mm_store m i \<in> set (regions m)" using i(1) by (simp add: regions_def)
  from foldl_map_calls_hit [OF this i(2) only, of e]
  have "foldl ept_step e (map map_call (regions m)) a =
      Some (r_haddr (mm_store m i) + (a - r_gaddr (mm_store m i)), linux_mprot_to_hv_mflag (r_prot (mm_store m i)))"
    by blast
  then show ?thesis using Some by (simp add: region_ept_def view_def cell_def)
qed

section \<open>Copying a processor\<close>

text \<open>The processor \<open>i\<close> with the slots of \<open>cs\<close> taken from \<open>orig\<close>.\<close>

definition put :: "nat \<Rightarrow> slot set \<Rightarrow> (slot \<Rightarrow> 64 word) \<Rightarrow> vmm \<Rightarrow> vmm" where
  "put i cs orig s = s\<lparr>v_hv := (v_hv s)(i := (v_hv s i)
     \<lparr>hc_slots := (\<lambda>c. if c \<in> cs then orig c else hc_slots (v_hv s i) c)\<rparr>)\<rparr>"

lemma put_empty [simp]: "put i {} orig s = s"
  by (simp add: put_def)

lemma put_put: "put i cs orig (put i ds orig s) = put i (ds \<union> cs) orig s"
proof -
  have "(\<lambda>c. if c \<in> cs then orig c else if c \<in> ds then orig c else f c) =
      (\<lambda>c. if c \<in> ds \<union> cs then orig c else f c)" for f by auto
  from this [of "hc_slots (v_hv s i)"] show ?thesis by (simp add: put_def cong: if_cong)
qed

lemma put_simps [simp]:
  "v_vcpu (put i cs orig s) = v_vcpu s" "v_vcpuid (put i cs orig s) = v_vcpuid s"
  "v_vcpus (put i cs orig s) = v_vcpus s" "v_nr_vcpus (put i cs orig s) = v_nr_vcpus s"
  "v_calls (put i cs orig s) = v_calls s"
  "hc_slots (v_hv (put i cs orig s) i) c = (if c \<in> cs then orig c else hc_slots (v_hv s i) c)"
  by (simp_all add: put_def)

definition runs_on :: "vmm \<Rightarrow> nat \<Rightarrow> bool" where
  "runs_on s i \<longleftrightarrow> this_vcpu s = Inr i"

lemma runs_on_put [simp]: "runs_on (put j cs orig s) i = runs_on s i"
  by (simp add: runs_on_def this_vcpu_def)

lemma set_slot_put: "s\<lparr>v_hv := (v_hv s)(i := set_slot c (orig c) (v_hv s i))\<rparr> = put i {c} orig s"
proof -
  have "(hc_slots p)(c := orig c) = (\<lambda>x. if x \<in> {c} then orig x else hc_slots p x)" for p :: hv_vcpu by auto
  then show ?thesis by (simp add: put_def set_slot_def)
qed

lemma write_vmcs_put:
  assumes "runs_on s i"
  shows "vmm_write_vmcs h f (orig (Vmcs_slot f)) s =
    Inr (put i (if hv_vmcs_writable h f then {Vmcs_slot f} else {}) orig s)"
  using assms by (simp add: vmm_write_vmcs_def upd_vcpu_def runs_on_def set_slot_put)

lemma write_register_put:
  assumes "runs_on s i" "hv_reg_ok h r"
  shows "vmm_write_register h r (orig (hv_slot h r)) s = Inr (put i {hv_slot h r} orig s)"
  using assms by (simp add: vmm_write_register_def upd_vcpu_def runs_on_def set_slot_put)

lemma write_fields:
  assumes "runs_on s i"
  shows "write_each (vmm_write_vmcs h) (zip fs (map (\<lambda>f. orig (Vmcs_slot f)) fs)) s =
    Inr (put i (Vmcs_slot ` {f \<in> set fs. hv_vmcs_writable h f}) orig s)"
  using assms
proof (induction fs arbitrary: s)
  case (Cons f fs)
  have "(if hv_vmcs_writable h f then {Vmcs_slot f} else {}) \<union> Vmcs_slot ` {f \<in> set fs. hv_vmcs_writable h f} =
      Vmcs_slot ` {f' \<in> set (f # fs). hv_vmcs_writable h f'}"
    by auto
  then show ?case using Cons by (simp add: write_vmcs_put put_put)
qed simp

lemma write_regs:
  assumes "runs_on s i" "\<forall>r \<in> set rs. hv_reg_ok h r"
  shows "write_each (vmm_write_register h) (zip rs (map (\<lambda>r. orig (hv_slot h r)) rs)) s =
    Inr (put i (hv_slot h ` set rs) orig s)"
  using assms by (induction rs arbitrary: s) (simp_all add: write_register_put put_put)

lemma read_regs:
  assumes "runs_on s i" "\<forall>r \<in> set rs. hv_reg_ok h r"
  shows "read_each (vmm_read_register h) rs s = Inr (map (\<lambda>r. hc_slots (v_hv s i) (hv_slot h r)) rs)"
  using assms by (induction rs) (simp_all add: vmm_read_register_def runs_on_def)

lemma read_fields:
  assumes "runs_on s i" "\<forall>f \<in> set fs. hv_vmcs_readable h f"
  shows "read_each (vmm_read_vmcs h) fs s = Inr (map (\<lambda>f. hc_slots (v_hv s i) (Vmcs_slot f)) fs)"
  using assms by (induction fs) (simp_all add: vmm_read_vmcs_def runs_on_def)

text \<open>The slots that a snapshot carries over, and the hypervisor that answers every call of it.\<close>

definition carried :: "hv \<Rightarrow> slot set" where
  "carried h = Vmcs_slot ` {f \<in> set snap_fields. hv_vmcs_writable h f} \<union> hv_slot h ` set snap_regs"

definition hv_works :: "hv \<Rightarrow> bool" where
  "hv_works h \<longleftrightarrow> (\<forall>r \<in> set snap_regs. hv_reg_ok h r) \<and> (\<forall>f \<in> set snap_fields. hv_vmcs_readable h f) \<and>
     hv_fpu_ok h \<and> hv_msr_ok h"

definition snapshot_of :: "hv \<Rightarrow> hv_vcpu \<Rightarrow> vcpu_snapshot" where
  "snapshot_of h p = \<lparr>sn_regs = map (\<lambda>r. hc_slots p (hv_slot h r)) snap_regs,
     sn_vmcs = map (\<lambda>f. hc_slots p (Vmcs_slot f)) snap_fields, sn_fpu = hc_fpu p\<rparr>"

definition guest_msrs :: "flags set" where
  "guest_msrs = {MSR_TIME_STAMP_COUNTER, MSR_TSC_AUX, MSR_KERNEL_GS_BASE}"

lemma snapshot_vcpu_ok:
  assumes "runs_on s i" "hv_works h"
  shows "vmm_snapshot_vcpu h s = Inr (snapshot_of h (v_hv s i))"
proof -
  have "this_vcpu s = Inr i" using assms(1) by (simp add: runs_on_def)
  then show ?thesis
    using assms(2) read_regs [OF assms(1), of snap_regs h] read_fields [OF assms(1), of snap_fields h]
    by (simp add: vmm_snapshot_vcpu_def hv_works_def snapshot_of_def)
qed

definition restored :: "hv \<Rightarrow> hv_vcpu \<Rightarrow> hv_vcpu \<Rightarrow> hv_vcpu" where
  "restored h orig p = p\<lparr>hc_slots := (\<lambda>c. if c \<in> carried h then hc_slots orig c else hc_slots p c),
     hc_fpu := hc_fpu orig, hc_msrs := guest_msrs \<union> hc_msrs p\<rparr>"

lemma upd_vcpu_on: "runs_on s i \<Longrightarrow> upd_vcpu f s = Inr (s\<lparr>v_hv := (v_hv s)(i := f (v_hv s i))\<rparr>)"
  by (simp add: upd_vcpu_def runs_on_def)

lemma runs_on_hv [simp]: "runs_on (s\<lparr>v_hv := x\<rparr>) i = runs_on s i"
  by (simp add: runs_on_def this_vcpu_def)

lemma init_msr_ok:
  assumes "runs_on s i" "hv_msr_ok h"
  shows "init_msr h s = Inr (s\<lparr>v_hv := (v_hv s)(i := (v_hv s i)\<lparr>hc_msrs := guest_msrs \<union> hc_msrs (v_hv s i)\<rparr>)\<rparr>)"
proof -
  have one: "vmm_enable_native_msr h m t =
      Inr (t\<lparr>v_hv := (v_hv t)(i := (v_hv t i)\<lparr>hc_msrs := insert m (hc_msrs (v_hv t i))\<rparr>)\<rparr>)" if "runs_on t i" for m t
    using that assms(2) upd_vcpu_on [OF that] by (simp add: vmm_enable_native_msr_def runs_on_def)
  show ?thesis
    using assms(1) by (simp add: init_msr_def one guest_msrs_def insert_commute Un_insert_left)
qed

lemma restore_vcpu_ok:
  assumes "runs_on s i" "hv_works h"
  shows "vmm_restore_vcpu h (snapshot_of h orig) s = Inr (s\<lparr>v_hv := (v_hv s)(i := restored h orig (v_hv s i))\<rparr>)"
proof -
  let ?o = "hc_slots orig" and ?F = "Vmcs_slot ` {f \<in> set snap_fields. hv_vmcs_writable h f}"
  let ?s1 = "put i ?F ?o s" and ?s2 = "put i (carried h) ?o s"
  have regs: "write_each (vmm_write_register h) (zip snap_regs (map (\<lambda>r. ?o (hv_slot h r)) snap_regs)) ?s1 = Inr ?s2"
    using write_regs [of ?s1 i snap_regs h ?o] assms by (simp add: hv_works_def put_put carried_def)
  let ?s3 = "?s2\<lparr>v_hv := (v_hv ?s2)(i := (v_hv ?s2 i)\<lparr>hc_fpu := hc_fpu orig\<rparr>)\<rparr>"
  have on: "runs_on ?s2 i" "runs_on ?s3 i" using assms(1) by simp_all
  have "init_msr h ?s3 = Inr (s\<lparr>v_hv := (v_hv s)(i := restored h orig (v_hv s i))\<rparr>)"
    using init_msr_ok [OF on(2), of h] assms(2) by (simp add: hv_works_def restored_def put_def cong: if_cong)
  then show ?thesis
    using write_fields [OF assms(1), of h snap_fields ?o] regs upd_vcpu_on [OF on(1)] assms(2)
    by (simp add: vmm_restore_vcpu_def snapshot_of_def hv_works_def del: take_append)
qed

section \<open>Carrying the machine over a fork\<close>

text \<open>
  A hypervisor that grants every call; creating a machine may have to be tried twice, since the one
  of the other process can still be there.
\<close>

definition hv_willing :: "hv \<Rightarrow> bool" where
  "hv_willing h \<longleftrightarrow> (\<forall>cs c. hv_answer h cs c = HV_SUCCESS \<or>
     c = Vm_create \<and> hv_answer h cs c = HV_NO_DEVICE \<and> hv_answer h (cs @ [c]) c = HV_SUCCESS)"

lemma hv_willing_says: "hv_willing h \<Longrightarrow> c \<noteq> Vm_create \<Longrightarrow> hv_says h c s = HV_SUCCESS"
  unfolding hv_willing_def hv_says_def by blast

lemma map_each_ok:
  assumes "hv_willing h"
  shows "map_each h rs s = (True, s\<lparr>v_calls := v_calls s @ map map_call rs\<rparr>)"
proof (induction rs arbitrary: s)
  case (Cons r rs)
  have "hv_says h (Vm_map (r_haddr r) (r_gaddr r) (r_size r) (linux_mprot_to_hv_mflag (r_prot r))) s = HV_SUCCESS"
    by (rule hv_willing_says [OF assms]) simp
  then show ?case using Cons by (simp add: v_emit_def map_call_def)
qed simp

lemma restore_ept_ok:
  assumes "hv_willing h"
  shows "restore_ept h k p s = (True, s\<lparr>v_calls := v_calls s @ map map_call (regions k) @ map map_call (regions p)\<rparr>)"
  by (simp add: restore_ept_def map_each_ok [OF assms])

lemma retry_create_ok:
  assumes "hv_willing h"
  obtains cs where "retry_create h s = Inr (s\<lparr>v_calls := v_calls s @ cs @ [Vm_create]\<rparr>)"
proof (cases "hv_says h Vm_create s")
  case HV_SUCCESS
  then show ?thesis using that [of "[]"] by (simp add: retry_create_def v_emit_def)
next
  case HV_NO_DEVICE
  then have "hv_answer h (v_calls s @ [Vm_create]) Vm_create = HV_SUCCESS"
    using assms unfolding hv_willing_def hv_says_def by (metis hv_return.distinct(1))
  then show ?thesis
    using that [of "[Vm_create]"] HV_NO_DEVICE by (simp add: retry_create_def v_emit_def hv_says_def)
next
  case HV_OTHER_ERROR
  then show ?thesis
    using assms unfolding hv_willing_def hv_says_def by (metis hv_return.distinct(3,5))
qed

lemma destroy_one_ok:
  assumes "hv_willing h" "v_vcpus s = [p]"
  shows "vmm_destroy h s = Inr (s\<lparr>v_calls := v_calls s @ [Vcpu_destroy (v_vcpuid s p), Vm_destroy]\<rparr>)"
  using assms by (simp add: vmm_destroy_def hv_willing_says v_emit_def)

text \<open>The list of processors counts them, and the processor of the thread is one of them.\<close>

definition vmm_ok :: "vmm \<Rightarrow> bool" where
  "vmm_ok s \<longleftrightarrow> distinct (v_vcpus s) \<and> v_nr_vcpus s = int (length (v_vcpus s)) \<and>
     (\<forall>p \<in> set (v_vcpus s). p < v_fresh s) \<and> (\<forall>p. v_vcpu s = Some p \<longrightarrow> p \<in> set (v_vcpus s))"

lemma reentry_ok:
  assumes h: "hv_willing h" "hv_works h" and p: "v_vcpu s = Some p" "v_nr_vcpus s \<le> 1" and inv: "mm_inv k" "mm_inv m"
  obtains s' i where "vmm_reentry h (snapshot_of h orig) k m s = Inr s'" "this_vcpu s' = Inr i"
    "v_hv s' i = restored h orig (hv_reset h)" "v_vcpu s' = Some p" "v_vcpus s' = v_vcpus s"
    "v_nr_vcpus s' = v_nr_vcpus s" "v_fresh s' = v_fresh s" "ept (v_calls s') = guest_ept k m"
proof -
  obtain cs where cs: "retry_create h s = Inr (s\<lparr>v_calls := v_calls s @ cs @ [Vm_create]\<rparr>)"
    using retry_create_ok [OF h(1)] .
  let ?s1 = "s\<lparr>v_calls := v_calls s @ cs @ [Vm_create]\<rparr>"
  let ?i = "hv_new_id h (v_calls ?s1)"
  let ?s2 = "(v_emit Vcpu_create ?s1)\<lparr>v_hv := (v_hv s)(?i := hv_reset h), v_vcpuid := (v_vcpuid s)(p := ?i)\<rparr>"
  let ?s3 = "?s2\<lparr>v_hv := (v_hv ?s2)(?i := restored h orig (v_hv ?s2 ?i))\<rparr>"
  let ?s4 = "?s3\<lparr>v_calls := v_calls ?s3 @ map map_call (regions k) @ map map_call (regions m)\<rparr>"
  have new: "new_vcpu h ?s1 = Inr (?i, (v_emit Vcpu_create ?s1)\<lparr>v_hv := (v_hv s)(?i := hv_reset h)\<rparr>)"
    using hv_willing_says [OF h(1), of Vcpu_create] by (simp add: new_vcpu_def v_emit_def Let_def)
  have on: "runs_on ?s2 ?i" using p(1) by (simp add: runs_on_def this_vcpu_def v_emit_def)
  have run: "vmm_reentry h (snapshot_of h orig) k m s = Inr ?s4"
    using restore_vcpu_ok [OF on h(2), of orig] restore_ept_ok [OF h(1), of k m ?s3] p
    by (simp add: vmm_reentry_def cs new v_emit_def)
  have "ept (v_calls ?s4) = guest_ept k m"
  proof
    fix a
    have "ept (v_calls ?s3) = (\<lambda>_. None)" by (simp add: v_emit_def ept_append)
    then show "ept (v_calls ?s4) a = guest_ept k m a"
      using foldl_map_calls [OF inv(2), of "foldl ept_step (\<lambda>_. None) (map map_call (regions k))" a]
        foldl_map_calls [OF inv(1), of "\<lambda>_. None" a]
      by (simp add: ept_append guest_ept_def split: option.split)
  qed
  then show ?thesis
    using run p by (intro that [of ?s4 ?i]) (simp_all add: this_vcpu_def v_emit_def)
qed

text \<open>
  What a machine that was entered again has of the old one: its processor, the registers and the writable
  fields of the lists, the floating point state, and the memory that the regions hold.  The contents of
  the model-specific registers are not carried over: they are those of a new processor, of which
  \<open>init_msr\<close> lets the guest use three again.
\<close>

definition same_machine :: "hv \<Rightarrow> mm \<Rightarrow> mm \<Rightarrow> vmm \<Rightarrow> vmm \<Rightarrow> bool" where
  "same_machine h vkern_mm proc_mm s s2 \<longleftrightarrow> v_vcpus s2 = v_vcpus s \<and> v_vcpu s2 = v_vcpu s \<and>
     (\<forall>r \<in> set snap_regs. vmm_read_register h r s2 = vmm_read_register h r s) \<and>
     (\<forall>f \<in> set snap_fields. hv_vmcs_writable h f \<longrightarrow> vmm_read_vmcs h f s2 = vmm_read_vmcs h f s) \<and>
     (\<exists>i j. this_vcpu s = Inr i \<and> this_vcpu s2 = Inr j \<and> hc_fpu (v_hv s2 j) = hc_fpu (v_hv s i) \<and>
        hc_msrs (v_hv s2 j) = guest_msrs \<union> hc_msrs (hv_reset h) \<and> hc_msr (v_hv s2 j) = hc_msr (hv_reset h)) \<and>
     ept (v_calls s2) = guest_ept vkern_mm proc_mm"

lemma carry_over:
  assumes "hv_willing h" "hv_works h" "vmm_ok s" "v_vcpus s = [p]" "v_vcpu s = Some p"
    and "mm_inv vkern_mm" "mm_inv proc_mm"
  obtains sn s1 s2 where "vmm_snapshot h s = Inr sn" "vmm_destroy h s = Inr s1"
    "vmm_reentry h sn vkern_mm proc_mm s1 = Inr s2" "vmm_ok s2" "same_machine h vkern_mm proc_mm s s2"
proof -
  define i where "i = v_vcpuid s p"
  define s1 where "s1 = s\<lparr>v_calls := v_calls s @ [Vcpu_destroy i, Vm_destroy]\<rparr>"
  have i: "this_vcpu s = Inr i" using assms(5) by (simp add: this_vcpu_def i_def)
  have n: "v_nr_vcpus s = 1" using assms(3,4) by (simp add: vmm_ok_def)
  have "v_vcpu s1 = Some p" "v_nr_vcpus s1 \<le> 1" using assms(5) n by (simp_all add: s1_def)
  then obtain s2 j where s2: "vmm_reentry h (snapshot_of h (v_hv s i)) vkern_mm proc_mm s1 = Inr s2" "this_vcpu s2 = Inr j"
      "v_hv s2 j = restored h (v_hv s i) (hv_reset h)" "v_vcpu s2 = Some p" "v_vcpus s2 = v_vcpus s1"
      "v_nr_vcpus s2 = v_nr_vcpus s1" "v_fresh s2 = v_fresh s1" "ept (v_calls s2) = guest_ept vkern_mm proc_mm"
    using reentry_ok [OF assms(1,2) _ _ assms(6,7), of s1 p "v_hv s i"] by metis
  have run: "vmm_snapshot h s = Inr (snapshot_of h (v_hv s i))" "vmm_destroy h s = Inr s1"
    using snapshot_vcpu_ok [of s i h] assms(2) i n destroy_one_ok [OF assms(1,4)]
    by (simp_all add: vmm_snapshot_def runs_on_def s1_def i_def)
  have "vmm_ok s2" using assms(3,5) s2(4-7) by (simp add: vmm_ok_def s1_def)
  moreover have "vmm_read_register h r s2 = vmm_read_register h r s" if "r \<in> set snap_regs" for r
    using that i s2(2,3) by (simp add: vmm_read_register_def restored_def carried_def)
  moreover have "vmm_read_vmcs h f s2 = vmm_read_vmcs h f s" if "f \<in> set snap_fields" "hv_vmcs_writable h f" for f
    using that i s2(2,3) by (simp add: vmm_read_vmcs_def restored_def carried_def)
  moreover have "v_vcpus s2 = v_vcpus s" "v_vcpu s2 = v_vcpu s" using s2(4,5) assms(4,5) by (simp_all add: s1_def)
  moreover have "hc_fpu (v_hv s2 j) = hc_fpu (v_hv s i)" "hc_msrs (v_hv s2 j) = guest_msrs \<union> hc_msrs (hv_reset h)"
      "hc_msr (v_hv s2 j) = hc_msr (hv_reset h)"
    using s2(3) by (simp_all add: restored_def)
  ultimately show ?thesis using that [OF run s2(1)] s2(2,8) i unfolding same_machine_def by blast
qed

text \<open>
  C16: A process with one processor that takes a snapshot, destroys the machine and enters a new one, as
  \<open>fork\<close> does in the parent and in the child, gets back every register and every writable field of
  the lists and the state of the floating point unit, whichever names are aliases of one another; the
  extended page table of the new machine maps what the process's regions and, elsewhere, the
  kernel's regions hold, with their protection.  The contents of the model-specific registers are lost:
  they are those of a new processor.
\<close>

theorem reentry_restores:
  assumes "hv_willing h" "hv_works h" "vmm_ok s" "v_vcpus s = [p]" "v_vcpu s = Some p"
    and "mm_inv vkern_mm" "mm_inv proc_mm"
  shows "\<exists>sn s1 s2. vmm_snapshot h s = Inr sn \<and> vmm_destroy h s = Inr s1 \<and>
      vmm_reentry h sn vkern_mm proc_mm s1 = Inr s2 \<and> vmm_ok s2 \<and> same_machine h vkern_mm proc_mm s s2"
  using carry_over [OF assms] by metis

text \<open>A hypervisor whose segment registers are fields, that has no field for the offset of the time stamp counter, and a machine on it.\<close>

definition ex_hv :: hv where
  "ex_hv = \<lparr>hv_slot = (\<lambda>r. if r = ''HV_X86_CS'' then Vmcs_slot ''VMCS_GUEST_CS'' else Reg_slot r),
     hv_answer = (\<lambda>cs c. if c = Vm_create \<and> (cs = [] \<or> last cs \<noteq> Vm_create) then HV_NO_DEVICE else HV_SUCCESS),
     hv_new_id = length, hv_reset = \<lparr>hc_slots = (\<lambda>_. 0), hc_fpu = [], hc_msrs = {}, hc_msr = (\<lambda>_. 0)\<rparr>, hv_reg_ok = (\<lambda>_. True),
     hv_vmcs_readable = (\<lambda>_. True), hv_vmcs_writable = (\<lambda>f. f \<noteq> ''VMCS_CTRL_TSC_OFFSET''),
     hv_fpu_ok = True, hv_msr_ok = True, hv_junk = []\<rparr>"

definition ex_vmm :: vmm where
  "ex_vmm = \<lparr>v_vcpus = [0], v_nr_vcpus = 1, v_vcpuid = (\<lambda>_. 3), v_fresh = 1, v_vcpu = Some 0,
     v_hv = (\<lambda>_. \<lparr>hc_slots = (\<lambda>c. if c = Reg_slot ''HV_X86_RIP'' then 0x400000 else 7), hc_fpu = [1, 2], hc_msrs = {},
       hc_msr = (\<lambda>_. 5)\<rparr>),
     v_calls = [Vm_create, Vcpu_create]\<rparr>"

lemma ex_hv_good: "hv_willing ex_hv" "hv_works ex_hv"
  by (auto simp: ex_hv_def hv_willing_def hv_works_def)

lemma ex_vmm_ok: "vmm_ok ex_vmm" "v_vcpus ex_vmm = [0]" "v_vcpu ex_vmm = Some 0"
  by (simp_all add: ex_vmm_def vmm_ok_def)

lemma snap_regs_eval: "''HV_X86_RIP'' \<in> set snap_regs" "''HV_X86_RSP'' \<in> set snap_regs"
  by (simp_all add: x86_reg_list_def NR_X86_REG_LIST_def)

theorem reentry_restores_witness:
  "\<exists>sn s1 s2. vmm_snapshot ex_hv ex_vmm = Inr sn \<and> vmm_destroy ex_hv ex_vmm = Inr s1 \<and>
      vmm_reentry ex_hv sn (vm_mm ex_vm) (vm_mm ex_vm) s1 = Inr s2 \<and> vmm_ok s2 \<and> v_vcpus s2 = [0] \<and>
      vmm_read_register ex_hv ''HV_X86_RIP'' s2 = Inr 0x400000 \<and>
      ept (v_calls s2) 0x11004 = Some (0x101004, 3)"
proof -
  have inv: "mm_inv (vm_mm ex_vm)" using ex_vm_state by (simp add: mm_state_def)
  have rip: "vmm_read_register ex_hv ''HV_X86_RIP'' ex_vmm = Inr 0x400000"
    by (simp add: vmm_read_register_def this_vcpu_def ex_vmm_def ex_hv_def)
  have "guest_ept (vm_mm ex_vm) (vm_mm ex_vm) 0x11004 = Some (0x101004, 3)"
    by (simp add: guest_ept_def region_ept_def view_def find_region_def cell_def ex_eval linux_mprot_to_hv_mflag_def
        flag_if_def mman_flags)
  with reentry_restores [OF ex_hv_good ex_vmm_ok inv inv] rip snap_regs_eval(1)
  show ?thesis unfolding same_machine_def ex_vmm_ok(2) by metis
qed

section \<open>A processor for a thread\<close>

lemma create_vcpu_ok:
  assumes "hv_willing h" "hv_works h" "v_vcpu s = None"
  defines "i \<equiv> hv_new_id h (v_calls s)"
  shows "vmm_create_vcpu h (Some (snapshot_of h orig)) s = Inr ((v_emit Vcpu_create s)
    \<lparr>v_hv := (v_hv s)(i := restored h orig (hv_reset h)), v_vcpuid := (v_vcpuid s)(v_fresh s := i),
     v_fresh := Suc (v_fresh s), v_vcpu := Some (v_fresh s), v_vcpus := v_fresh s # v_vcpus s, v_nr_vcpus := v_nr_vcpus s + 1\<rparr>)"
proof -
  let ?s1 = "(v_emit Vcpu_create s)\<lparr>v_hv := (v_hv s)(i := hv_reset h)\<rparr>"
  let ?s2 = "?s1\<lparr>v_fresh := Suc (v_fresh s), v_vcpu := Some (v_fresh s), v_vcpuid := (v_vcpuid s)(v_fresh s := i)\<rparr>"
  have new: "new_vcpu h s = Inr (i, ?s1)"
    using hv_willing_says [OF assms(1), of Vcpu_create] by (simp add: new_vcpu_def v_emit_def i_def Let_def)
  have "runs_on ?s2 i" by (simp add: runs_on_def this_vcpu_def)
  from restore_vcpu_ok [OF this assms(2), of orig] new assms(3)
  show ?thesis by (simp add: vmm_create_vcpu_def Let_def v_emit_def)
qed

end
