(* ===== verification/BootProps.thy ===== *)
theory BootProps
  imports Boot VmmProps
begin

text \<open>
  The started machine: it is in long mode with paging on, and its page tables map every address
  below the guest's limit to itself and nothing to the memory of the kernel.
\<close>

section \<open>The table of pages\<close>

lemma pdp_quarters:
  "pdp_000 = map (\<lambda>i. pdp_page (of_nat i * 0x40000000)) [0..<128]"
  "pdp_128 = map (\<lambda>i. pdp_page (of_nat i * 0x40000000)) [128..<256]"
  "pdp_256 = map (\<lambda>i. pdp_page (of_nat i * 0x40000000)) [256..<384]"
  "pdp_384 = map (\<lambda>i. pdp_page (of_nat i * 0x40000000)) [384..<511] @ [PTE_PS OR PTE_W OR PTE_P]"
  by (simp_all add: pdp_000_def pdp_128_def pdp_256_def pdp_384_def upt_conv_Cons)

lemma upt_cut: "i \<le> j \<Longrightarrow> j \<le> k \<Longrightarrow> [i..<k] = [i..<j] @ [j..<k]"
  by (metis le_add_diff_inverse upt_add_eq_append)

lemma pdp_eq: "pdp = map (\<lambda>i. pdp_page (of_nat i * 0x40000000)) [0..<511] @ [PTE_PS OR PTE_W OR PTE_P]"
proof -
  have u: "[0..<511] = [0..<128] @ [128..<511 :: nat]" "[128..<511] = [128..<256] @ [256..<511 :: nat]"
    "[256..<511] = [256..<384] @ [384..<511 :: nat]"
    by (rule upt_cut; simp)+
  show ?thesis unfolding pdp_def pdp_quarters u by (simp only: map_append append_assoc)
qed

lemma length_pdp: "length pdp = 512"
  by (simp add: pdp_eq)

lemma pdp_nth: "i < 511 \<Longrightarrow> pdp ! i = pdp_page (of_nat i * 0x40000000)" "pdp ! 511 = 0x83"
  by (simp_all add: pdp_eq nth_append PTE_PS_def PTE_W_def PTE_P_def)

section \<open>Control fields\<close>

text \<open>
  A control field gets exactly the bits that the capability allows (its upper half) and that are
  asked for or required (its lower half); no bit outside of 32 is set.
\<close>

theorem cap2ctrl_bits:
  "bit (cap2ctrl cap ctrl) n \<longleftrightarrow> n < 32 \<and> bit cap (n + 32) \<and> (bit ctrl n \<or> bit cap n)"
proof -
  have "bit (0xffffffff :: 64 word) n \<longleftrightarrow> n < 32"
    using bit_mask_iff [of 32 n, where 'a = "64 word"] by (auto simp: mask_eq_exp_minus_1)
  moreover have "n < 32" if "bit cap (n + 32)" using bit_imp_le_length [OF that] by simp
  ultimately show ?thesis
    unfolding cap2ctrl_def bit_and_iff bit_or_iff bit_drop_bit_eq comp_apply by (metis add.commute)
qed

section \<open>Running the steps\<close>

definition bset :: "nat \<Rightarrow> slot \<Rightarrow> 64 word \<Rightarrow> boot \<Rightarrow> boot" where
  "bset i c x b = b\<lparr>b_vmm := (b_vmm b)\<lparr>v_hv := (v_hv (b_vmm b))(i := set_slot c x (v_hv (b_vmm b) i))\<rparr>\<rparr>"

definition slot_at :: "nat \<Rightarrow> boot \<Rightarrow> slot \<Rightarrow> 64 word" where
  "slot_at i b c = hc_slots (v_hv (b_vmm b) i) c"

definition b_on :: "nat \<Rightarrow> boot \<Rightarrow> bool" where
  "b_on i b \<longleftrightarrow> runs_on (b_vmm b) i"

lemma bset_simps [simp]:
  "b_kern (bset i c x b) = b_kern b" "b_kern_brk (bset i c x b) = b_kern_brk b" "b_pml4 (bset i c x b) = b_pml4 b"
  "b_pml4_ptr (bset i c x b) = b_pml4_ptr b" "b_gdt_ptr (bset i c x b) = b_gdt_ptr b"
  "b_on j (bset i c x b) = b_on j b" "slot_at i (bset i c x b) d = (if d = c then x else slot_at i b d)"
  "v_vcpus (b_vmm (bset i c x b)) = v_vcpus (b_vmm b)" "v_nr_vcpus (b_vmm (bset i c x b)) = v_nr_vcpus (b_vmm b)"
  by (simp_all add: bset_def b_on_def slot_at_def set_slot_def)

lemma b_on_upd [simp]:
  "b_on i (b\<lparr>b_kern_brk := x\<rparr>) = b_on i b" "b_on i (b\<lparr>b_kern := v\<rparr>) = b_on i b" "b_on i (b\<lparr>b_pml4 := t\<rparr>) = b_on i b"
  "b_on i (b\<lparr>b_pml4_ptr := x\<rparr>) = b_on i b" "b_on i (b\<lparr>b_idt_ptr := x\<rparr>) = b_on i b"
  by (simp_all add: b_on_def)

lemma slot_at_upd [simp]:
  "slot_at i (b\<lparr>b_kern_brk := x\<rparr>) = slot_at i b" "slot_at i (b\<lparr>b_kern := v\<rparr>) = slot_at i b"
  "slot_at i (b\<lparr>b_pml4 := t\<rparr>) = slot_at i b" "slot_at i (b\<lparr>b_pml4_ptr := x\<rparr>) = slot_at i b"
  "slot_at i (b\<lparr>b_idt_ptr := x\<rparr>) = slot_at i b"
  by (simp_all add: slot_at_def fun_eq_iff)

text \<open>
  What the start needs of the hypervisor: every call is granted; only the offset of the time stamp
  counter may be no field.  The host has memory for the arena of the shared allocator.
\<close>

definition hv_boots :: "boot_host \<Rightarrow> bool" where
  "hv_boots h \<longleftrightarrow> (\<forall>cs c. hv_answer (bh_hv h) cs c = HV_SUCCESS) \<and> (\<forall>r. hv_reg_ok (bh_hv h) r) \<and>
     (\<forall>f. hv_vmcs_readable (bh_hv h) f) \<and> (\<forall>f. f \<noteq> ''VMCS_CTRL_TSC_OFFSET'' \<longrightarrow> hv_vmcs_writable (bh_hv h) f) \<and>
     hv_fpu_ok (bh_hv h) \<and> hv_msr_ok (bh_hv h) \<and> (\<forall>p g s f. bh_map h p g s f) \<and> bh_arena h \<noteq> None"

lemma wr_vmcs_ok:
  assumes "hv_boots h" "b_on i b" "f \<noteq> ''VMCS_CTRL_TSC_OFFSET''"
  shows "wr_vmcs f x h b = Inr (bset i (Vmcs_slot f) x b)"
  using assms
  by (simp add: wr_vmcs_def on_vmm_def vmm_write_vmcs_def hv_boots_def b_on_def runs_on_def upd_vcpu_def bset_def)

lemma wr_reg_ok:
  assumes "hv_boots h" "b_on i b"
  shows "wr_reg r x h b = Inr (bset i (hv_slot (bh_hv h) r) x b)"
  using assms
  by (simp add: wr_reg_def on_vmm_def vmm_write_register_def hv_boots_def b_on_def runs_on_def upd_vcpu_def bset_def)

lemma mod_vmcs_ok:
  assumes "hv_boots h" "b_on i b" "n \<noteq> ''VMCS_CTRL_TSC_OFFSET''"
  shows "mod_vmcs n f h b = Inr (bset i (Vmcs_slot n) (f (slot_at i b (Vmcs_slot n))) b)"
  using assms wr_vmcs_ok [OF assms]
  by (simp add: mod_vmcs_def vmm_read_vmcs_def hv_boots_def b_on_def runs_on_def slot_at_def)

section \<open>Mapping the tables\<close>

definition kern_at :: "gaddr \<Rightarrow> boot \<Rightarrow> bool" where
  "kern_at brk b \<longleftrightarrow> mm_inv (vm_mm (b_kern b)) \<and> regions_small (regions (vm_mm (b_kern b))) \<and> b_kern_brk b = brk \<and>
     (\<forall>a. unat brk \<le> unat a \<longrightarrow> view (vm_mm (b_kern b)) a = None)"

abbreviation kview :: "boot \<Rightarrow> mm_view" where
  "kview b \<equiv> view (vm_mm (b_kern b))"

lemma kern_at_bset [simp]: "kern_at brk (bset i c x b) = kern_at brk b"
  by (simp add: kern_at_def)

lemma kern_at_upd [simp]:
  "kern_at brk (b\<lparr>b_pml4 := t\<rparr>) = kern_at brk b" "kern_at brk (b\<lparr>b_pml4_ptr := x\<rparr>) = kern_at brk b"
  "kern_at brk (b\<lparr>b_idt_ptr := x\<rparr>) = kern_at brk b" "kern_at brk (b\<lparr>b_vmm := s\<rparr>) = kern_at brk b"
  by (simp_all add: kern_at_def)

lemma boot_kmap_ok:
  assumes "hv_boots h" "kern_at brk b" "is_page_aligned brk PAGE_4KB" "is_page_aligned ptr PAGE_4KB"
    and "brk \<noteq> 0" "unat brk + 0x1000 < 2 ^ 64"
  obtains v where "boot_kmap ptr h b = Inr (brk, b\<lparr>b_kern_brk := brk + 0x1000, b_kern := v\<rparr>)"
    "kern_at (brk + 0x1000) (b\<lparr>b_kern_brk := brk + 0x1000, b_kern := v\<rparr>)"
    "view (vm_mm v) = mapped brk 0x1000 ptr 3 (- 1) (- 1) (kview b)"
proof -
  have p: "hv_mflag_to_linux_mprot (HV_MEMORY_READ OR HV_MEMORY_WRITE) = 3"
    by (simp add: hv_mflag_to_linux_mprot_def flag_if_def mman_flags)
  have k: "mm_inv (vm_mm (b_kern b))" "regions_small (regions (vm_mm (b_kern b)))" "b_kern_brk b = brk"
    using assms(2) by (auto simp: kern_at_def)
  have free: "kview b a = None" if "in_range a brk 0x1000" for a
    using assms(2) that by (auto simp: kern_at_def in_range_def)
  have page: "unat (0x1000 :: 64 word) \<le> 2 ^ 31" "is_page_aligned 0x1000 PAGE_4KB"
      "unat brk + unat (0x1000 :: 64 word) < 2 ^ 64" "0 < unat (0x1000 :: 64 word)"
    using assms(6) by (simp_all add: is_page_aligned_def)
  obtain j m where m: "record_region (vm_mm (b_kern b)) ptr brk 0x1000 3 (- 1) (- 1) 0 = Inr (j, m)" "mm_inv m"
      "regions_small (regions m)" "view m = mapped brk 0x1000 ptr 3 (- 1) (- 1) (kview b)"
    using record_region_view [OF k(1,2) page(1) assms(5,3) page(2-4) free] by blast
  define v where "v = call (Hv_vm_map ptr brk 0x1000 (HV_MEMORY_READ OR HV_MEMORY_WRITE))
      (call (Hv_vm_unmap brk 0x1000) ((b_kern b)\<lparr>vm_mm := m\<rparr>))"
  have vm: "vm_mm v = m" by (simp add: v_def call_def)
  have run: "boot_kmap ptr h b = Inr (brk, b\<lparr>b_kern_brk := brk + 0x1000, b_kern := v\<rparr>)"
    using m(1) k(3) assms(1,3,4) unfolding boot_kmap_def kmap_def p aligned_mask
    by (simp add: vmm_mmap_def v_def hv_boots_def is_page_aligned_def Let_def)
  have u: "unat (brk + 0x1000) = unat brk + 0x1000" using assms(6) by (simp add: unat_end)
  have "view m a = None" if "unat (brk + 0x1000) \<le> unat a" for a
    using that assms(2) unfolding m(4) u by (simp add: mapped_def in_range_def kern_at_def)
  then have "kern_at (brk + 0x1000) (b\<lparr>b_kern_brk := brk + 0x1000, b_kern := v\<rparr>)"
    using m(2,3) by (simp add: kern_at_def vm)
  then show ?thesis using run that m(4) vm by blast
qed

section \<open>What the processor sees\<close>

text \<open>
  The words of the kernel's page tables at their host addresses, the entry at an address of the
  guest's physical memory, and the walk of the processor through two levels of tables with pages of 1 GiB:
  the physical address, and whether code of the user's ring may use it.
\<close>

definition host_entry :: "boot_host \<Rightarrow> boot \<Rightarrow> haddr \<Rightarrow> 64 word" where
  "host_entry h b a =
    (if a - bh_pml4 h < 0x1000 then b_pml4 b ! (unat (a - bh_pml4 h) div 8)
     else if a - bh_pdp h < 0x1000 then pdp ! (unat (a - bh_pdp h) div 8) else 0)"

definition phys_entry :: "boot_host \<Rightarrow> boot \<Rightarrow> gaddr \<Rightarrow> 64 word" where
  "phys_entry h b g = (case kview b g of None \<Rightarrow> 0 | Some (a, _) \<Rightarrow> host_entry h b a)"

definition page_walk :: "(gaddr \<Rightarrow> 64 word) \<Rightarrow> gaddr \<Rightarrow> gaddr \<Rightarrow> (gaddr \<times> bool) option" where
  "page_walk entry cr3 va =
    (let e4 = entry ((cr3 AND 0x000ffffffffff000) + 8 * (drop_bit 39 va AND 0x1ff)) in
     if e4 AND PTE_P = 0 then None
     else let e3 = entry ((e4 AND 0x000ffffffffff000) + 8 * (drop_bit 30 va AND 0x1ff)) in
       if e3 AND PTE_P = 0 \<or> e3 AND PTE_PS = 0 then None
       else Some ((e3 AND 0x000fffffc0000000) OR (va AND 0x3fffffff), e4 AND e3 AND PTE_U \<noteq> 0))"

section \<open>The steps\<close>

text \<open>The fields that decide the mode of the processor, and the registers that the start writes.\<close>

definition mode_fields :: "string set" where
  "mode_fields = {''VMCS_GUEST_CR0'', ''VMCS_GUEST_CR3'', ''VMCS_GUEST_CR4'', ''VMCS_GUEST_IA32_EFER'', ''VMCS_CTRL_EXC_BITMAP''}"

definition boot_regs :: "string set" where
  "boot_regs = {''HV_X86_CS'', ''HV_X86_DS'', ''HV_X86_ES'', ''HV_X86_FS'', ''HV_X86_GS'', ''HV_X86_SS'', ''HV_X86_TR'',
     ''HV_X86_LDTR'', ''HV_X86_RFLAGS'', ''HV_X86_XCR0''}"

definition regs_apart :: "boot_host \<Rightarrow> bool" where
  "regs_apart h \<longleftrightarrow> (\<forall>r \<in> boot_regs. \<forall>f \<in> mode_fields. hv_slot (bh_hv h) r \<noteq> Vmcs_slot f)"

text \<open>A step that leaves the mode and the tables alone.\<close>

definition still :: "nat \<Rightarrow> boot \<Rightarrow> boot \<Rightarrow> bool" where
  "still i b b' \<longleftrightarrow> b_on i b' \<and> b_kern b' = b_kern b \<and> b_kern_brk b' = b_kern_brk b \<and> b_pml4 b' = b_pml4 b \<and>
     b_pml4_ptr b' = b_pml4_ptr b \<and> b_gdt_ptr b' = b_gdt_ptr b \<and> v_vcpus (b_vmm b') = v_vcpus (b_vmm b) \<and>
     v_nr_vcpus (b_vmm b') = v_nr_vcpus (b_vmm b) \<and>
     (\<forall>f \<in> mode_fields. slot_at i b' (Vmcs_slot f) = slot_at i b (Vmcs_slot f))"

definition quiet :: "nat \<Rightarrow> boot_host \<Rightarrow> boot_step \<Rightarrow> bool" where
  "quiet i h f \<longleftrightarrow> (\<forall>b. b_on i b \<longrightarrow> (\<exists>b'. f h b = Inr b' \<and> still i b b'))"

lemma still_trans: "still i a b \<Longrightarrow> still i b c \<Longrightarrow> still i a c"
  by (simp add: still_def)

lemma still_refl: "b_on i b \<Longrightarrow> still i b b"
  by (simp add: still_def)

lemma quietD:
  assumes "quiet i h f" "b_on i b"
  obtains b' where "f h b = Inr b'" "still i b b'"
  using assms unfolding quiet_def by blast

lemma quiet_seq: "\<forall>f \<in> set fs. quiet i h f \<Longrightarrow> quiet i h (b_seq fs)"
proof (induction fs)
  case Nil
  then show ?case by (simp add: quiet_def still_refl)
next
  case (Cons f fs)
  show ?case unfolding quiet_def
  proof (intro allI impI)
    fix b assume "b_on i b"
    then obtain b1 where b1: "f h b = Inr b1" "still i b b1" using Cons.prems quietD [of i h f b] by auto
    then have "b_on i b1" by (simp add: still_def)
    then obtain b2 where "b_seq fs h b1 = Inr b2" "still i b1 b2" using Cons quietD [of i h "b_seq fs" b1] by auto
    then show "\<exists>b'. b_seq (f # fs) h b = Inr b' \<and> still i b b'" using b1 still_trans by auto
  qed
qed

lemma quiet_run: "\<forall>f \<in> set fs. quiet i h f \<Longrightarrow> b_on i b \<Longrightarrow> \<exists>b'. b_seq fs h b = Inr b' \<and> still i b b'"
  using quiet_seq [of fs i h] unfolding quiet_def by blast

lemma quiet_vmcs:
  assumes "hv_boots h" "f \<notin> insert ''VMCS_CTRL_TSC_OFFSET'' mode_fields"
  shows "quiet i h (wr_vmcs f x)"
  unfolding quiet_def
proof (intro allI impI)
  fix b assume "b_on i b"
  then have "wr_vmcs f x h b = Inr (bset i (Vmcs_slot f) x b)" "still i b (bset i (Vmcs_slot f) x b)"
    using wr_vmcs_ok [OF assms(1)] assms(2) by (auto simp: still_def)
  then show "\<exists>b'. wr_vmcs f x h b = Inr b' \<and> still i b b'" by blast
qed

lemma still_reg:
  assumes "regs_apart h" "r \<in> boot_regs" "b_on i b"
  shows "still i b (bset i (hv_slot (bh_hv h) r) x b)"
proof -
  have "Vmcs_slot f \<noteq> hv_slot (bh_hv h) r" if "f \<in> mode_fields" for f
    using assms(1,2) that unfolding regs_apart_def by metis
  then show ?thesis using assms(3) by (simp add: still_def)
qed

lemma quiet_reg:
  assumes "hv_boots h" "regs_apart h" "r \<in> boot_regs"
  shows "quiet i h (wr_reg r x)"
  unfolding quiet_def using wr_reg_ok [OF assms(1)] still_reg [OF assms(2,3)] by blast

lemma quiet_vmm:
  assumes "\<And>s. runs_on s i \<Longrightarrow> \<exists>s'. f (bh_hv h) s = Inr s' \<and> runs_on s' i \<and> v_vcpus s' = v_vcpus s \<and>
      v_nr_vcpus s' = v_nr_vcpus s \<and> hc_slots (v_hv s' i) = hc_slots (v_hv s i)"
  shows "quiet i h (on_vmm f)"
  unfolding quiet_def
proof (intro allI impI)
  fix b assume "b_on i b"
  then obtain s' where "f (bh_hv h) (b_vmm b) = Inr s'" "runs_on s' i" "v_vcpus s' = v_vcpus (b_vmm b)"
      "v_nr_vcpus s' = v_nr_vcpus (b_vmm b)" "hc_slots (v_hv s' i) = hc_slots (v_hv (b_vmm b) i)"
    using assms [of "b_vmm b"] by (auto simp: b_on_def)
  then show "\<exists>b'. on_vmm f h b = Inr b' \<and> still i b b'"
    by (auto simp: on_vmm_def still_def b_on_def slot_at_def)
qed

lemma quiet_msr:
  assumes "hv_boots h"
  shows "quiet i h boot_msr"
  unfolding boot_msr_def
proof (rule quiet_vmm)
  fix s assume "runs_on s i"
  then show "\<exists>s'. init_msr (bh_hv h) s = Inr s' \<and> runs_on s' i \<and> v_vcpus s' = v_vcpus s \<and>
      v_nr_vcpus s' = v_nr_vcpus s \<and> hc_slots (v_hv s' i) = hc_slots (v_hv s i)"
    using init_msr_ok [of s i "bh_hv h"] assms by (simp add: hv_boots_def)
qed

lemma quiet_fpu:
  assumes "hv_boots h"
  shows "quiet i h init_fpu"
proof -
  have "quiet i h (on_vmm (\<lambda>hv. vmm_write_fpstate hv (fx_image (bh_stack h))))"
  proof (rule quiet_vmm)
    fix s assume s: "runs_on s i"
    then show "\<exists>s'. vmm_write_fpstate (bh_hv h) (fx_image (bh_stack h)) s = Inr s' \<and> runs_on s' i \<and>
        v_vcpus s' = v_vcpus s \<and> v_nr_vcpus s' = v_nr_vcpus s \<and> hc_slots (v_hv s' i) = hc_slots (v_hv s i)"
      using upd_vcpu_on [OF s] assms by (simp add: vmm_write_fpstate_def hv_boots_def runs_on_def this_vcpu_def)
  qed
  then show ?thesis by (simp add: quiet_def init_fpu_def)
qed

lemma quiet_regs:
  assumes "hv_boots h" "regs_apart h"
  shows "quiet i h init_regs"
  unfolding quiet_def
proof (intro allI impI)
  fix b assume on: "b_on i b"
  let ?b = "bset i (hv_slot (bh_hv h) ''HV_X86_RFLAGS'') 2 b"
  have r: "''HV_X86_RFLAGS'' \<in> boot_regs" "''HV_X86_XCR0'' \<in> boot_regs" by (simp_all add: boot_regs_def)
  have b: "wr_reg ''HV_X86_RFLAGS'' 2 h b = Inr ?b" "still i b ?b" "b_on i ?b"
    using wr_reg_ok [OF assms(1) on] still_reg [OF assms(2) r(1) on] on by simp_all
  then obtain x where "vmm_read_register (bh_hv h) ''HV_X86_XCR0'' (b_vmm ?b) = Inr x"
    using assms(1) by (simp add: vmm_read_register_def hv_boots_def b_on_def runs_on_def del: bset_simps)
  moreover obtain b' where "wr_reg ''HV_X86_XCR0'' (x OR XCR0_SSE_STATE) h ?b = Inr b'" "still i ?b b'"
    using quietD [OF quiet_reg [OF assms r(2)] b(3)] .
  ultimately show "\<exists>b'. init_regs h b = Inr b' \<and> still i b b'"
    using b still_trans [of i b ?b] by (auto simp: init_regs_def)
qed

lemma init_vmcs_ok:
  assumes "hv_boots h" "b_on i b"
  obtains b' where "init_vmcs h b = Inr b'" "b_on i b'" "slot_at i b' (Vmcs_slot ''VMCS_CTRL_EXC_BITMAP'') = 0xffffffff"
    "b_kern b' = b_kern b" "b_kern_brk b' = b_kern_brk b" "b_pml4 b' = b_pml4 b" "b_gdt_ptr b' = b_gdt_ptr b"
    "v_vcpus (b_vmm b') = v_vcpus (b_vmm b)"
proof -
  have "\<exists>b'. init_vmcs h b = Inr b' \<and> b_on i b' \<and> slot_at i b' (Vmcs_slot ''VMCS_CTRL_EXC_BITMAP'') = 0xffffffff \<and>
      b_kern b' = b_kern b \<and> b_kern_brk b' = b_kern_brk b \<and> b_pml4 b' = b_pml4 b \<and> b_gdt_ptr b' = b_gdt_ptr b \<and>
      v_vcpus (b_vmm b') = v_vcpus (b_vmm b)"
    using assms(2) by (simp add: init_vmcs_def Let_def wr_vmcs_ok [OF assms(1), where i = i])
  then show ?thesis using that by blast
qed

text \<open>The tables of the booted kernel: where they are mapped and what the first entry holds.\<close>

definition tables_at :: "boot_host \<Rightarrow> boot \<Rightarrow> bool" where
  "tables_at h b \<longleftrightarrow> b_pml4 b = (0x7fc0001007 :: 64 word) # replicate 511 0 \<and>
     (\<forall>a. in_range a 0x7fc0000000 0x1000 \<longrightarrow> kview b a = Some (bh_pml4 h + (a - 0x7fc0000000), 3, - 1, - 1)) \<and>
     (\<forall>a. in_range a 0x7fc0001000 0x1000 \<longrightarrow> kview b a = Some (bh_pdp h + (a - 0x7fc0001000), 3, - 1, - 1))"

lemma init_page_ok:
  assumes "hv_boots h" "b_on i b" "kern_at user_addr_max b" "b_pml4 b = pml4"
    and "is_page_aligned (bh_pml4 h) PAGE_4KB" "is_page_aligned (bh_pdp h) PAGE_4KB"
  obtains b' where "init_page h b = Inr b'" "b_on i b'" "kern_at 0x7fc0002000 b'" "tables_at h b'"
    "slot_at i b' (Vmcs_slot ''VMCS_GUEST_CR0'') = 0x80000021" "slot_at i b' (Vmcs_slot ''VMCS_GUEST_CR3'') = 0x7fc0000000"
    "slot_at i b' (Vmcs_slot ''VMCS_CTRL_EXC_BITMAP'') = slot_at i b (Vmcs_slot ''VMCS_CTRL_EXC_BITMAP'')"
    "b_gdt_ptr b' = b_gdt_ptr b" "v_vcpus (b_vmm b') = v_vcpus (b_vmm b)"
proof -
  have al: "is_page_aligned (0x7fc0000000 :: 64 word) PAGE_4KB" "is_page_aligned (0x7fc0001000 :: 64 word) PAGE_4KB"
    by (simp_all add: is_page_aligned_def)
  obtain v1 where v1: "boot_kmap (bh_pml4 h) h b = Inr (0x7fc0000000, b\<lparr>b_kern_brk := 0x7fc0001000, b_kern := v1\<rparr>)"
      "kern_at 0x7fc0001000 (b\<lparr>b_kern_brk := 0x7fc0001000, b_kern := v1\<rparr>)"
      "view (vm_mm v1) = mapped 0x7fc0000000 0x1000 (bh_pml4 h) 3 (- 1) (- 1) (kview b)"
    using boot_kmap_ok [OF assms(1) assms(3) [unfolded user_addr_max_def] al(1) assms(5)] by auto
  define b1 where "b1 = b\<lparr>b_kern_brk := 0x7fc0001000, b_kern := v1, b_pml4_ptr := 0x7fc0000000\<rparr>"
  have "kern_at 0x7fc0001000 b1" using v1(2) by (simp add: b1_def)
  then obtain v2 where v2: "boot_kmap (bh_pdp h) h b1 = Inr (0x7fc0001000, b1\<lparr>b_kern_brk := 0x7fc0002000, b_kern := v2\<rparr>)"
      "kern_at 0x7fc0002000 (b1\<lparr>b_kern_brk := 0x7fc0002000, b_kern := v2\<rparr>)"
      "view (vm_mm v2) = mapped 0x7fc0001000 0x1000 (bh_pdp h) 3 (- 1) (- 1) (view (vm_mm v1))"
    using boot_kmap_ok [OF assms(1) _ al(2) assms(6), of b1] by (auto simp: b1_def)
  define b2 where "b2 = b1\<lparr>b_kern_brk := 0x7fc0002000, b_kern := v2, b_pml4 := 0x7fc0001007 # replicate 511 0\<rparr>"
  let ?b = "bset i (Vmcs_slot ''VMCS_GUEST_CR3'') 0x7fc0000000 (bset i (Vmcs_slot ''VMCS_GUEST_CR0'') 0x80000021 b2)"
  have "(b_pml4 b1)[0 := b_pml4 b1 ! 0 OR (0x7fc0001000 AND 0x000ffffffffff000)] = 0x7fc0001007 # replicate 511 0"
    using assms(4) by (simp add: b1_def pml4_def PTE_U_def PTE_W_def PTE_P_def)
  moreover have "b_pml4_ptr b1 = 0x7fc0000000" by (simp add: b1_def)
  moreover have on: "b_on i b2" using assms(2) by (simp add: b2_def b1_def)
  ultimately have run: "init_page h b = Inr ?b"
    using v1(1) v2(1) wr_vmcs_ok [OF assms(1), where i = i]
    by (simp add: init_page_def Let_def b1_def [symmetric] b2_def [symmetric])
  have "tables_at h ?b"
    using v1(3) v2(3) by (auto simp: tables_at_def b2_def mapped_def in_range_def)
  moreover have "kern_at 0x7fc0002000 ?b" using v2(2) by (simp add: b2_def)
  ultimately show ?thesis using run on by (intro that [of ?b]) (simp_all add: b2_def b1_def)
qed

lemma init_special_regs_ok:
  assumes "hv_boots h" "b_on i b" "slot_at i b (Vmcs_slot ''VMCS_GUEST_CR0'') = 0x80000021"
  obtains b' where "init_special_regs h b = Inr b'" "b_on i b'" "b_kern b' = b_kern b" "b_kern_brk b' = b_kern_brk b"
    "b_pml4 b' = b_pml4 b" "b_gdt_ptr b' = b_gdt_ptr b" "v_vcpus (b_vmm b') = v_vcpus (b_vmm b)"
    "slot_at i b' (Vmcs_slot ''VMCS_GUEST_CR0'') = 0x80000023"
    "slot_at i b' (Vmcs_slot ''VMCS_GUEST_CR3'') = slot_at i b (Vmcs_slot ''VMCS_GUEST_CR3'')"
    "slot_at i b' (Vmcs_slot ''VMCS_CTRL_EXC_BITMAP'') = slot_at i b (Vmcs_slot ''VMCS_CTRL_EXC_BITMAP'')"
    "slot_at i b' (Vmcs_slot ''VMCS_GUEST_CR4'') = slot_at i b (Vmcs_slot ''VMCS_GUEST_CR4'') OR 0x42620"
    "slot_at i b' (Vmcs_slot ''VMCS_GUEST_IA32_EFER'') = slot_at i b (Vmcs_slot ''VMCS_GUEST_IA32_EFER'') OR 0x500"
proof -
  let ?c = "Vmcs_slot ''VMCS_GUEST_CR0''" and ?d = "Vmcs_slot ''VMCS_GUEST_CR4''" and ?e = "Vmcs_slot ''VMCS_GUEST_IA32_EFER''"
  let ?b = "bset i ?e (slot_at i b ?e OR 0x500) (bset i ?d (slot_at i b ?d OR 0x42620) (bset i ?c 0x80000023 b))"
  have "init_special_regs h b = Inr ?b"
    using assms(2,3) mod_vmcs_ok [OF assms(1), where i = i] by (simp add: init_special_regs_def)
  then show ?thesis using assms(2) by (intro that [of ?b]) simp_all
qed

lemma kmap_more:
  assumes "hv_boots h" "b_on i b" "kern_at brk b" "is_page_aligned brk PAGE_4KB" "is_page_aligned ptr PAGE_4KB"
    and "0x7fc0002000 \<le> unat brk" "unat brk + 0x1000 < 2 ^ 64" "tables_at h b"
  obtains v where "boot_kmap ptr h b = Inr (brk, b\<lparr>b_kern_brk := brk + 0x1000, b_kern := v\<rparr>)"
    "kern_at (brk + 0x1000) (b\<lparr>b_kern_brk := brk + 0x1000, b_kern := v\<rparr>)"
    "tables_at h (b\<lparr>b_kern_brk := brk + 0x1000, b_kern := v\<rparr>)"
proof -
  have "brk \<noteq> 0" using assms(6) by auto
  then obtain v where v: "boot_kmap ptr h b = Inr (brk, b\<lparr>b_kern_brk := brk + 0x1000, b_kern := v\<rparr>)"
      "kern_at (brk + 0x1000) (b\<lparr>b_kern_brk := brk + 0x1000, b_kern := v\<rparr>)"
      "view (vm_mm v) = mapped brk 0x1000 ptr 3 (- 1) (- 1) (kview b)"
    using boot_kmap_ok [OF assms(1,3,4,5) _ assms(7)] by blast
  have "view (vm_mm v) a = kview b a" if "unat a < 0x7fc0002000" for a
    using that assms(6) unfolding v(3) by (simp add: mapped_def in_range_def)
  then have "tables_at h (b\<lparr>b_kern_brk := brk + 0x1000, b_kern := v\<rparr>)"
    using assms(8) by (simp add: tables_at_def in_range_def)
  then show ?thesis using v that by blast
qed

lemma still_tables: "still i b b' \<Longrightarrow> tables_at h b' = tables_at h b" "still i b b' \<Longrightarrow> kern_at brk b' = kern_at brk b"
  by (simp_all add: still_def tables_at_def kern_at_def)

lemma still_upd: "still i (b\<lparr>b_kern_brk := x, b_kern := v\<rparr>) b' \<Longrightarrow> f \<in> mode_fields \<Longrightarrow>
    slot_at i b' (Vmcs_slot f) = slot_at i b (Vmcs_slot f)"
  by (simp add: still_def)

lemma init_segment_ok:
  assumes "hv_boots h" "regs_apart h" "b_on i b" "kern_at 0x7fc0002000 b" "tables_at h b" "is_page_aligned (bh_gdt h) PAGE_4KB"
  obtains b' where "init_segment h b = Inr b'" "b_on i b'" "kern_at 0x7fc0003000 b'" "tables_at h b'"
    "v_vcpus (b_vmm b') = v_vcpus (b_vmm b)"
    "\<And>f. f \<in> mode_fields \<Longrightarrow> slot_at i b' (Vmcs_slot f) = slot_at i b (Vmcs_slot f)"
proof -
  have al: "is_page_aligned (0x7fc0002000 :: 64 word) PAGE_4KB" by (simp add: is_page_aligned_def)
  obtain v where v: "boot_kmap (bh_gdt h) h b = Inr (0x7fc0002000, b\<lparr>b_kern_brk := 0x7fc0003000, b_kern := v\<rparr>)"
      "kern_at 0x7fc0003000 (b\<lparr>b_kern_brk := 0x7fc0003000, b_kern := v\<rparr>)"
      "tables_at h (b\<lparr>b_kern_brk := 0x7fc0003000, b_kern := v\<rparr>)"
    using kmap_more [OF assms(1,3,4) al assms(6) _ _ assms(5)] by auto
  let ?b = "b\<lparr>b_kern_brk := 0x7fc0003000, b_kern := v\<rparr>"
  have "\<exists>b'. init_segment h b = Inr b' \<and> still i ?b b'"
    unfolding init_segment_def v(1) bind_run.simps prod.case Let_def
    by (rule quiet_run)
      (use assms(3) in \<open>simp_all add: quiet_vmcs [OF assms(1)] quiet_reg [OF assms(1,2)] mode_fields_def boot_regs_def\<close>)
  then obtain b' where "init_segment h b = Inr b'" "still i ?b b'" by blast
  then show ?thesis
    using v(2,3) still_tables [of i ?b b'] still_upd [where b = b and v = v and b' = b'] by (intro that [of b']) (auto simp: still_def)
qed

lemma init_idt_ok:
  assumes "hv_boots h" "b_on i b" "kern_at 0x7fc0003000 b" "tables_at h b" "is_page_aligned (bh_idt h) PAGE_4KB"
  obtains b' where "init_idt h b = Inr b'" "b_on i b'" "tables_at h b'" "v_vcpus (b_vmm b') = v_vcpus (b_vmm b)"
    "\<And>f. f \<in> mode_fields \<Longrightarrow> slot_at i b' (Vmcs_slot f) = slot_at i b (Vmcs_slot f)"
proof -
  have al: "is_page_aligned (0x7fc0003000 :: 64 word) PAGE_4KB" by (simp add: is_page_aligned_def)
  obtain v where v: "boot_kmap (bh_idt h) h b = Inr (0x7fc0003000, b\<lparr>b_kern_brk := 0x7fc0004000, b_kern := v\<rparr>)"
      "tables_at h (b\<lparr>b_kern_brk := 0x7fc0004000, b_kern := v\<rparr>)"
    using kmap_more [OF assms(1,2,3) al assms(5) _ _ assms(4)] by auto
  let ?b = "b\<lparr>b_kern_brk := 0x7fc0004000, b_kern := v, b_idt_ptr := 0x7fc0003000\<rparr>"
  let ?b' = "bset i (Vmcs_slot ''VMCS_GUEST_IDTR_LIMIT'') 0x1000 (bset i (Vmcs_slot ''VMCS_GUEST_IDTR_BASE'') 0x7fc0003000 ?b)"
  have "init_idt h b = Inr ?b'"
    using assms(2) wr_vmcs_ok [OF assms(1), where i = i] by (simp add: init_idt_def v(1) Let_def)
  moreover have "tables_at h ?b'" using v(2) by (simp add: tables_at_def)
  ultimately show ?thesis
    using assms(2) by (intro that [of ?b']) (auto simp: mode_fields_def)
qed

section \<open>The walk through the tables\<close>

lemma mask9: "unat (x AND 0x1ff :: 64 word) < 512"
proof -
  have "x AND 0x1ff \<le> (0x1ff :: 64 word)" by (rule word_and_le1)
  then show ?thesis by (simp add: word_le_nat_alt)
qed

lemma entry_offset:
  assumes "unat (k :: 64 word) < 512"
  shows "unat (8 * k) = 8 * unat k" "8 * k < 0x1000"
proof -
  show u: "unat (8 * k) = 8 * unat k" using assms by (simp add: unat_word_ariths)
  show "8 * k < 0x1000" unfolding word_less_nat_alt u using assms by simp
qed

lemma phys_pml4:
  assumes "tables_at h b" "unat k < 512"
  shows "phys_entry h b (0x7fc0000000 + 8 * k) = (if k = 0 then 0x7fc0001007 else 0)"
proof -
  have "unat (0x7fc0000000 + 8 * k :: 64 word) = 0x7fc0000000 + 8 * unat k"
    using entry_offset [OF assms(2)] assms(2) by (subst unat_end) simp_all
  then have "in_range (0x7fc0000000 + 8 * k) 0x7fc0000000 0x1000"
    using assms(2) by (simp add: in_range_def)
  then have "kview b (0x7fc0000000 + 8 * k) = Some (bh_pml4 h + 8 * k, 3, - 1, - 1)"
    using assms(1) by (simp add: tables_at_def)
  then have "phys_entry h b (0x7fc0000000 + 8 * k) = b_pml4 b ! unat k"
    using entry_offset [OF assms(2)] by (simp add: phys_entry_def host_entry_def)
  then show ?thesis
    using assms by (simp add: tables_at_def nth_Cons unat_eq_zero split: nat.split)
qed

lemma neg_room:
  assumes "n \<le> unat (- d :: 64 word)" "0 < n"
  shows "unat d + n \<le> 2 ^ 64"
proof -
  have "(unat d + unat (- d)) mod 2 ^ 64 = unat (d + - d)" unfolding unat_word_ariths by simp
  then have "2 ^ 64 dvd unat d + unat (- d)" by (simp add: dvd_eq_mod_eq_0)
  then have "2 ^ 64 \<le> unat d + unat (- d)" using assms by (intro dvd_imp_le) auto
  moreover have "unat d < 2 ^ 64" "unat (- d) < 2 ^ 64" using unsigned_less [of d] unsigned_less [of "- d"] by simp_all
  moreover have "unat d + unat (- d) = 2 ^ 64"
    using \<open>2 ^ 64 dvd unat d + unat (- d)\<close> calculation by (auto elim!: dvdE)
  ultimately show ?thesis using assms(1) by simp
qed

lemma phys_pdp:
  assumes "tables_at h b" "unat k < 512" "0x1000 \<le> bh_pdp h - bh_pml4 h" "0x1000 \<le> bh_pml4 h - bh_pdp h"
  shows "phys_entry h b (0x7fc0001000 + 8 * k) = pdp ! unat k"
proof -
  have "unat (0x7fc0001000 + 8 * k :: 64 word) = 0x7fc0001000 + 8 * unat k"
    using entry_offset [OF assms(2)] assms(2) by (subst unat_end) simp_all
  then have "in_range (0x7fc0001000 + 8 * k) 0x7fc0001000 0x1000"
    using assms(2) by (simp add: in_range_def)
  then have v: "kview b (0x7fc0001000 + 8 * k) = Some (bh_pdp h + 8 * k, 3, - 1, - 1)"
    using assms(1) by (simp add: tables_at_def)
  have "\<not> bh_pdp h + 8 * k - bh_pml4 h < 0x1000"
  proof
    assume *: "bh_pdp h + 8 * k - bh_pml4 h < 0x1000"
    define d where "d = bh_pdp h - bh_pml4 h"
    have e: "bh_pdp h + 8 * k - bh_pml4 h = d + 8 * k" "bh_pml4 h - bh_pdp h = - d" by (simp_all add: d_def)
    have d: "unat (d + 8 * k) < 0x1000" "0x1000 \<le> unat d" "0x1000 \<le> unat (- d)"
      using * assms(3,4) unfolding e by (simp_all add: word_less_nat_alt word_le_nat_alt d_def [symmetric])
    have "unat d < 2 ^ 64 - 0xfff" using neg_room [OF d(3)] by simp
    then have "unat (d + 8 * k) = unat d + 8 * unat k"
      using entry_offset [OF assms(2)] assms(2) by (subst unat_end) simp_all
    then show False using d(1,2) by simp
  qed
  then show ?thesis
    using v entry_offset [OF assms(2)] by (simp add: phys_entry_def host_entry_def)
qed

lemma unat_drop_bit_div: "unat (drop_bit n va :: 64 word) = unat va div 2 ^ n"
  unfolding unat_drop_bit_eq by (rule drop_bit_eq_div)

lemma bits_lt: "bit (va :: 64 word) n \<Longrightarrow> unat va < 2 ^ k \<Longrightarrow> n < k"
  by (metis bit_take_bit_iff take_bit_nat_eq_self unsigned_take_bit_eq unsigned_word_eqI)

lemma page_masks:
  "(0x000fffffc0000000 :: 64 word) = push_bit 30 (mask 22)" "(0x3fffffff :: 64 word) = mask 30"
  "bit (0x87 :: 64 word) n \<Longrightarrow> n < 8"
proof -
  show "(0x000fffffc0000000 :: 64 word) = push_bit 30 (mask 22)" "(0x3fffffff :: 64 word) = mask 30"
    by (simp_all add: mask_eq_exp_minus_1 push_bit_eq_mult)
  have "(0x87 :: 64 word) = 0x87 AND mask 8" by (simp add: mask_eq_exp_minus_1)
  then show "bit (0x87 :: 64 word) n \<Longrightarrow> n < 8" by (metis bit_and_iff bit_mask_iff)
qed

lemma page_address:
  assumes "unat (va :: 64 word) < 2 ^ 39"
  shows "((push_bit 30 (drop_bit 30 va) OR 0x87) AND 0x000fffffc0000000) OR (va AND 0x3fffffff) = va"
proof (rule bit_word_eqI)
  fix n assume "n < LENGTH(64)"
  have "bit va n \<Longrightarrow> n < 39" using bits_lt assms by blast
  moreover have "bit (0x87 :: 64 word) n \<Longrightarrow> n < 8" by (rule page_masks(3))
  ultimately show "bit (((push_bit 30 (drop_bit 30 va) OR 0x87) AND 0x000fffffc0000000) OR (va AND 0x3fffffff)) n = bit va n"
    unfolding page_masks(1,2) by (auto simp: bit_simps)
qed

lemma low_bits:
  fixes a e :: "64 word"
  shows "(push_bit 30 a OR e) AND PTE_P = e AND PTE_P" "(push_bit 30 a OR e) AND PTE_PS = e AND PTE_PS"
    "(push_bit 30 a OR e) AND PTE_U = e AND PTE_U"
proof -
  have "push_bit 30 a AND m = 0" if "unat (m :: 64 word) < 2 ^ 30" for m
    using bits_lt [OF _ that] by (intro bit_word_eqI) (fastforce simp: bit_simps)
  then have z: "push_bit 30 a AND PTE_P = 0" "push_bit 30 a AND PTE_PS = 0" "push_bit 30 a AND PTE_U = 0"
    by (simp_all add: PTE_P_def PTE_PS_def PTE_U_def)
  then show "(push_bit 30 a OR e) AND PTE_P = e AND PTE_P" "(push_bit 30 a OR e) AND PTE_PS = e AND PTE_PS"
      "(push_bit 30 a OR e) AND PTE_U = e AND PTE_U"
    by (simp_all only: and.commute [of _ PTE_P] and.commute [of _ PTE_PS] and.commute [of _ PTE_U] bit.conj_disj_distrib or.left_neutral)
qed

lemma index_low: "unat va < 2 ^ 39 \<Longrightarrow> drop_bit 30 va AND 0x1ff = (drop_bit 30 va :: 64 word)"
  "unat va < 2 ^ 39 \<Longrightarrow> drop_bit 39 va AND 0x1ff = (0 :: 64 word)"
  "unat va < 2 ^ 48 \<Longrightarrow> 2 ^ 39 \<le> unat va \<Longrightarrow> drop_bit 39 va AND 0x1ff \<noteq> (0 :: 64 word)"
proof -
  have m: "(0x1ff :: 64 word) = mask 9" by (simp add: mask_eq_exp_minus_1)
  { assume va: "unat va < 2 ^ 39"
    show "drop_bit 30 va AND 0x1ff = drop_bit 30 va"
      unfolding m using bits_lt [OF _ va] by (intro bit_word_eqI) (fastforce simp: bit_simps)
    show "drop_bit 39 va AND 0x1ff = 0"
      unfolding m using bits_lt [OF _ va] by (intro bit_word_eqI) (fastforce simp: bit_simps) }
  assume va: "unat va < 2 ^ 48" "2 ^ 39 \<le> unat va"
  have "unat (drop_bit 39 va) = unat va div 2 ^ 39" by (rule unat_drop_bit_div)
  moreover have "0 < unat va div 2 ^ 39" using va(2) by (simp add: div_greater_zero_iff)
  moreover have "drop_bit 39 va AND 0x1ff = drop_bit 39 va"
    unfolding m using bits_lt [OF _ va(1)] by (intro bit_word_eqI) (fastforce simp: bit_simps)
  ultimately show "drop_bit 39 va AND 0x1ff \<noteq> 0" by (metis less_numeral_extra(3) unat_0)
qed

text \<open>The physical address and the right that the tables give to an address.\<close>

definition guest_page :: "gaddr \<Rightarrow> (gaddr \<times> bool) option" where
  "guest_page va =
    (if va < user_addr_max then Some (va, True)
     else if unat va < 2 ^ 39 then Some (va - user_addr_max, False) else None)"

lemma page_walk_low:
  assumes "unat va < 2 ^ 39" "e = pdp ! unat (drop_bit 30 va)"
  shows "(if e AND PTE_P = 0 \<or> e AND PTE_PS = 0 then None
      else Some ((e AND 0x000fffffc0000000) OR (va AND 0x3fffffff), 0x7fc0001007 AND e AND PTE_U \<noteq> 0)) = guest_page va"
proof (cases "va < user_addr_max")
  case True
  have d: "unat (drop_bit 30 va) = unat va div 2 ^ 30" by (rule unat_drop_bit_div)
  have "unat va < 0x7fc0000000" using True by (simp add: user_addr_max_def word_less_nat_alt)
  then have "unat (drop_bit 30 va) < 511" unfolding d by (simp add: less_mult_imp_div_less)
  then have "e = pdp_page (of_nat (unat (drop_bit 30 va)) * 0x40000000)" using assms(2) pdp_nth(1) by simp
  then have e: "e = push_bit 30 (drop_bit 30 va) OR 0x87"
    by (simp add: pdp_page_def PTE_PS_def PTE_U_def PTE_W_def PTE_P_def push_bit_eq_mult or.assoc)
  have "e AND PTE_P \<noteq> 0" "e AND PTE_PS \<noteq> 0" "e AND PTE_U = 4"
    unfolding e low_bits by (simp_all add: PTE_P_def PTE_PS_def PTE_U_def)
  moreover have "0x7fc0001007 AND e AND PTE_U = 0x7fc0001007 AND 4" using calculation(3) by simp
  moreover have "(e AND 0x000fffffc0000000) OR (va AND 0x3fffffff) = va"
    unfolding e by (rule page_address [OF assms(1)])
  ultimately show ?thesis using True by (simp add: guest_page_def)
next
  case False
  have d: "unat (drop_bit 30 va) = unat va div 2 ^ 30" by (rule unat_drop_bit_div)
  have "0x7fc0000000 \<le> unat va" using False by (simp add: user_addr_max_def word_le_nat_alt not_less)
  then have q: "unat va div 2 ^ 30 = 511" using assms(1) by (intro div_nat_eqI) simp_all
  then have e: "e = 0x83" using assms(2) d pdp_nth(2) by simp
  have "unat (va AND mask 30) = unat va mod 2 ^ 30"
    unfolding take_bit_eq_mask [symmetric] unsigned_take_bit_eq by (rule take_bit_eq_mod)
  moreover have "unat (va - user_addr_max) = unat va - 0x7fc0000000"
    using False by (subst unat_diff) (simp_all add: user_addr_max_def not_less word_le_nat_alt)
  moreover have "unat va mod 2 ^ 30 = unat va - 0x7fc0000000"
    using q div_mult_mod_eq [of "unat va" "2 ^ 30"] by simp
  ultimately have "va AND 0x3fffffff = va - user_addr_max"
    unfolding page_masks(2) by (metis unsigned_word_eqI)
  then show ?thesis using False assms(1) unfolding e by (simp add: guest_page_def PTE_P_def PTE_PS_def PTE_U_def)
qed

lemma page_walk_booted:
  assumes "tables_at h b" "0x1000 \<le> bh_pdp h - bh_pml4 h" "0x1000 \<le> bh_pml4 h - bh_pdp h" "unat va < 2 ^ 48"
  shows "page_walk (phys_entry h b) 0x7fc0000000 va = guest_page va"
proof (cases "unat va < 2 ^ 39")
  case True
  have k: "unat (drop_bit 30 va) < 512" using mask9 [of "drop_bit 30 va"] index_low(1) [OF True] by simp
  show ?thesis
    using phys_pml4 [OF assms(1), of 0] phys_pdp [OF assms(1) k assms(2,3)] page_walk_low [OF True refl] index_low(1,2) [OF True]
    by (simp add: page_walk_def Let_def PTE_P_def)
next
  case False
  then have "phys_entry h b (0x7fc0000000 + 8 * (drop_bit 39 va AND 0x1ff)) = 0"
    using phys_pml4 [OF assms(1) mask9, of "drop_bit 39 va"] index_low(3) [OF assms(4)] by simp
  moreover have "\<not> va < user_addr_max" using False by (auto simp: user_addr_max_def word_less_nat_alt)
  ultimately show ?thesis using False by (simp add: page_walk_def guest_page_def)
qed

section \<open>Starting\<close>

lemma init_mm_kern:
  assumes "b_kern_brk b = brk"
  shows "kern_at brk (b\<lparr>b_kern := (b_kern b)\<lparr>vm_mm := init_mm (vm_mm (b_kern b))\<rparr>\<rparr>)"
  using assms
  by (simp add: kern_at_def init_mm_def init_mmap_def mm_inv_def rb_tree_ok_def regions_def regions_ok_def regions_small_def
      view_def find_region_def)

lemma create_ok:
  assumes "hv_boots h" "v_vcpu (b_vmm b) = None"
  obtains s i where "on_vmm vmm_create h b = Inr (b\<lparr>b_vmm := s\<rparr>)" "runs_on s i" "length (v_vcpus s) = 1"
proof -
  let ?hv = "bh_hv h" and ?s0 = "(b_vmm b)\<lparr>v_vcpus := [], v_nr_vcpus := 0\<rparr>"
  have "\<exists>s i. vmm_create ?hv (b_vmm b) = Inr s \<and> runs_on s i \<and> length (v_vcpus s) = 1"
    using assms
    by (simp add: vmm_create_def vmm_create_vcpu_def new_vcpu_def hv_boots_def hv_says_def v_emit_def Let_def runs_on_def this_vcpu_def)
  then show ?thesis using that by (auto simp: on_vmm_def)
qed

text \<open>
  C15: The start of the machine succeeds on a hypervisor that grants the calls.  The processor is then
  in long mode with paging and the error reporting of the floating point unit on, every exception
  leaves the guest, and the walk through the page tables that \<open>kmap\<close> has put into the guest's physical
  memory takes every address below the limit of the user's memory to itself, with user rights; the
  last GiB goes to the start of physical memory without user rights, and nothing above is mapped.  So no
  address of the guest reaches the kernel's tables.
\<close>

theorem boot_address_space:
  assumes h: "hv_boots h" "regs_apart h"
    and al: "is_page_aligned (bh_pml4 h) PAGE_4KB" "is_page_aligned (bh_pdp h) PAGE_4KB"
      "is_page_aligned (bh_gdt h) PAGE_4KB" "is_page_aligned (bh_idt h) PAGE_4KB"
    and apart: "0x1000 \<le> bh_pdp h - bh_pml4 h" "0x1000 \<le> bh_pml4 h - bh_pdp h"
    and init: "v_vcpu (b_vmm b) = None" "b_kern_brk b = user_addr_max" "b_pml4 b = pml4"
  shows "\<exists>b' i. boot_machine h b = Inr b' \<and> this_vcpu (b_vmm b') = Inr i \<and> length (v_vcpus (b_vmm b')) = 1 \<and>
      slot_at i b' (Vmcs_slot ''VMCS_GUEST_CR0'') = 0x80000023 \<and>
      slot_at i b' (Vmcs_slot ''VMCS_GUEST_CR4'') AND 0x42620 = 0x42620 \<and>
      slot_at i b' (Vmcs_slot ''VMCS_GUEST_IA32_EFER'') AND 0x500 = 0x500 \<and>
      slot_at i b' (Vmcs_slot ''VMCS_CTRL_EXC_BITMAP'') = 0xffffffff \<and>
      (\<forall>va. unat va < 2 ^ 48 \<longrightarrow>
        page_walk (phys_entry h b') (slot_at i b' (Vmcs_slot ''VMCS_GUEST_CR3'')) va = guest_page va) \<and>
      (\<forall>va g u. page_walk (phys_entry h b') (slot_at i b' (Vmcs_slot ''VMCS_GUEST_CR3'')) va = Some (g, u) \<and>
        unat va < 2 ^ 48 \<longrightarrow> g < user_addr_max)"
proof -
  obtain s i where s: "on_vmm vmm_create h b = Inr (b\<lparr>b_vmm := s\<rparr>)" "runs_on s i" "length (v_vcpus s) = 1"
    using create_ok [OF h(1) init(1)] .
  obtain p where p: "bh_arena h = Some p" using h(1) by (auto simp: hv_boots_def)
  define b0 where "b0 = b\<lparr>b_vmm := s, b_kern := (b_kern b)\<lparr>vm_mm := init_mm (vm_mm (b_kern b))\<rparr>,
      b_arena := Some \<lparr>ma_start = p, ma_base = (0, 0), ma_freep = 0, ma_brkp = p + 232\<rparr>\<rparr>"
  have b0: "b_on i b0" "kern_at user_addr_max b0" "b_pml4 b0 = pml4" "length (v_vcpus (b_vmm b0)) = 1"
    using s(2,3) init(3) init_mm_kern [of "b\<lparr>b_vmm := s\<rparr>"] init(2) by (simp_all add: b0_def b_on_def kern_at_def)
  obtain b1 where b1: "init_vmcs h b0 = Inr b1" "b_on i b1" "slot_at i b1 (Vmcs_slot ''VMCS_CTRL_EXC_BITMAP'') = 0xffffffff"
      "b_kern b1 = b_kern b0" "b_kern_brk b1 = b_kern_brk b0" "b_pml4 b1 = b_pml4 b0" "v_vcpus (b_vmm b1) = v_vcpus (b_vmm b0)"
    using init_vmcs_ok [OF h(1) b0(1)] by metis
  obtain b2 where b2: "boot_msr h b1 = Inr b2" "still i b1 b2" using quietD [OF quiet_msr [OF h(1)] b1(2)] .
  have "b_on i b2" "kern_at user_addr_max b2" "b_pml4 b2 = pml4"
    using b2(2) b1 b0 by (simp_all add: still_def kern_at_def)
  then obtain b3 where b3: "init_page h b2 = Inr b3" "b_on i b3" "kern_at 0x7fc0002000 b3" "tables_at h b3"
      "slot_at i b3 (Vmcs_slot ''VMCS_GUEST_CR0'') = 0x80000021" "slot_at i b3 (Vmcs_slot ''VMCS_GUEST_CR3'') = 0x7fc0000000"
      "slot_at i b3 (Vmcs_slot ''VMCS_CTRL_EXC_BITMAP'') = slot_at i b2 (Vmcs_slot ''VMCS_CTRL_EXC_BITMAP'')"
      "v_vcpus (b_vmm b3) = v_vcpus (b_vmm b2)"
    using init_page_ok [OF h(1) _ _ _ al(1,2), of i b2] by metis
  obtain b4 where b4: "init_special_regs h b3 = Inr b4" "b_on i b4" "b_kern b4 = b_kern b3" "b_kern_brk b4 = b_kern_brk b3"
      "b_pml4 b4 = b_pml4 b3" "v_vcpus (b_vmm b4) = v_vcpus (b_vmm b3)" "slot_at i b4 (Vmcs_slot ''VMCS_GUEST_CR0'') = 0x80000023"
      "slot_at i b4 (Vmcs_slot ''VMCS_GUEST_CR3'') = slot_at i b3 (Vmcs_slot ''VMCS_GUEST_CR3'')"
      "slot_at i b4 (Vmcs_slot ''VMCS_CTRL_EXC_BITMAP'') = slot_at i b3 (Vmcs_slot ''VMCS_CTRL_EXC_BITMAP'')"
      "slot_at i b4 (Vmcs_slot ''VMCS_GUEST_CR4'') = slot_at i b3 (Vmcs_slot ''VMCS_GUEST_CR4'') OR 0x42620"
      "slot_at i b4 (Vmcs_slot ''VMCS_GUEST_IA32_EFER'') = slot_at i b3 (Vmcs_slot ''VMCS_GUEST_IA32_EFER'') OR 0x500"
    using init_special_regs_ok [OF h(1) b3(2,5)] by metis
  have "kern_at 0x7fc0002000 b4" "tables_at h b4" using b3(3,4) b4(3-5) by (simp_all add: kern_at_def tables_at_def)
  then obtain b5 where b5: "init_segment h b4 = Inr b5" "b_on i b5" "kern_at 0x7fc0003000 b5" "tables_at h b5"
      "v_vcpus (b_vmm b5) = v_vcpus (b_vmm b4)"
      "\<And>f. f \<in> mode_fields \<Longrightarrow> slot_at i b5 (Vmcs_slot f) = slot_at i b4 (Vmcs_slot f)"
    using init_segment_ok [OF h b4(2) _ _ al(3)] by metis
  obtain b6 where b6: "init_idt h b5 = Inr b6" "b_on i b6" "tables_at h b6" "v_vcpus (b_vmm b6) = v_vcpus (b_vmm b5)"
      "\<And>f. f \<in> mode_fields \<Longrightarrow> slot_at i b6 (Vmcs_slot f) = slot_at i b5 (Vmcs_slot f)"
    using init_idt_ok [OF h(1) b5(2-4) al(4)] by metis
  obtain b8 where b8: "b_seq [init_regs, init_fpu] h b6 = Inr b8" "still i b6 b8"
    using quiet_run [of "[init_regs, init_fpu]" i h b6] quiet_regs [OF h] quiet_fpu [OF h(1)] b6(2) by auto
  have run: "boot_machine h b = Inr b8"
    using b8(1) by (simp add: boot_machine_def s(1) init_vkernel_def init_shm_malloc_def p b0_def [symmetric] b1(1) b2(1) b3(1) b4(1) b5(1) b6(1))
  have same: "slot_at i b8 (Vmcs_slot f) = slot_at i b4 (Vmcs_slot f)" if "f \<in> mode_fields" for f
    using that b8(2) b6(5) b5(6) by (simp add: still_def)
  have cr3: "slot_at i b8 (Vmcs_slot ''VMCS_GUEST_CR3'') = 0x7fc0000000"
    using same [of "''VMCS_GUEST_CR3''"] b4(8) b3(6) by (simp add: mode_fields_def)
  have walk: "page_walk (phys_entry h b8) 0x7fc0000000 va = guest_page va" if "unat va < 2 ^ 48" for va
    using page_walk_booted [OF _ apart that] b6(3) still_tables(1) [OF b8(2)] by blast
  have "g < user_addr_max" if "guest_page va = Some (g, u)" for va g u
    using that by (auto simp: guest_page_def user_addr_max_def word_less_nat_alt word_le_nat_alt not_less unat_diff split: if_splits)
  moreover have "this_vcpu (b_vmm b8) = Inr i" "length (v_vcpus (b_vmm b8)) = 1"
    using b8(2) b6(4) b5(5) b4(6) b3(8) b2(2) b1(7) b0(4) by (simp_all add: still_def b_on_def runs_on_def)
  moreover have "slot_at i b2 (Vmcs_slot ''VMCS_CTRL_EXC_BITMAP'') = 0xffffffff"
    using b2(2) b1(3) by (simp add: still_def mode_fields_def)
  moreover have "(x OR 0x42620) AND 0x42620 = (0x42620 :: 64 word)" "(x OR 0x500) AND 0x500 = (0x500 :: 64 word)" for x
    by (simp_all add: bit.conj_disj_distrib2)
  ultimately show ?thesis
    using run walk same b4 b3 unfolding cr3 [symmetric]
    by (intro exI [of _ b8] exI [of _ i]) (auto simp: mode_fields_def cr3)
qed

text \<open>A hypervisor whose segment selectors are fields, and the state before the start.\<close>

definition ex_boot_host :: boot_host where
  "ex_boot_host = \<lparr>bh_hv = ex_hv\<lparr>hv_answer := \<lambda>_ _. HV_SUCCESS\<rparr>, bh_map = (\<lambda>_ _ _ _. True), bh_pml4 = 0x10000, bh_pdp = 0x11000,
     bh_gdt = 0x12000, bh_idt = 0x13000, bh_capability = (\<lambda>_. 0xffffffff00000000), bh_cpuid_0d = 7, bh_stack = [],
     bh_arena = Some 0x7000000\<rparr>"

definition ex_boot :: boot where
  "ex_boot = \<lparr>b_vmm = ex_vmm\<lparr>v_vcpu := None\<rparr>, b_kern = ex_vm, b_kern_brk = user_addr_max, b_pml4 = pml4, b_pml4_ptr = 0,
     b_gdt_ptr = 0, b_idt_ptr = 0, b_arena = None\<rparr>"

lemma ex_boot_good: "hv_boots ex_boot_host" "regs_apart ex_boot_host"
  by (simp_all add: hv_boots_def regs_apart_def ex_boot_host_def ex_hv_def boot_regs_def mode_fields_def)

theorem boot_address_space_witness:
  "\<exists>b' i. boot_machine ex_boot_host ex_boot = Inr b' \<and>
      slot_at i b' (Vmcs_slot ''VMCS_GUEST_CR0'') = 0x80000023 \<and>
      page_walk (phys_entry ex_boot_host b') (slot_at i b' (Vmcs_slot ''VMCS_GUEST_CR3'')) 0x123456789 = Some (0x123456789, True) \<and>
      page_walk (phys_entry ex_boot_host b') (slot_at i b' (Vmcs_slot ''VMCS_GUEST_CR3'')) 0x7fc0000010 = Some (0x10, False) \<and>
      page_walk (phys_entry ex_boot_host b') (slot_at i b' (Vmcs_slot ''VMCS_GUEST_CR3'')) 0x8000000000 = None"
proof -
  have "guest_page 0x123456789 = Some (0x123456789, True)" "guest_page 0x7fc0000010 = Some (0x10, False)"
    "guest_page 0x8000000000 = None"
    by (simp_all add: guest_page_def user_addr_max_def)
  moreover have "unat (0x123456789 :: gaddr) < 2 ^ 48" "unat (0x7fc0000010 :: gaddr) < 2 ^ 48" "unat (0x8000000000 :: gaddr) < 2 ^ 48"
    by simp_all
  moreover have "is_page_aligned (bh_pml4 ex_boot_host) PAGE_4KB" "is_page_aligned (bh_pdp ex_boot_host) PAGE_4KB"
      "is_page_aligned (bh_gdt ex_boot_host) PAGE_4KB" "is_page_aligned (bh_idt ex_boot_host) PAGE_4KB"
      "0x1000 \<le> bh_pdp ex_boot_host - bh_pml4 ex_boot_host" "0x1000 \<le> bh_pml4 ex_boot_host - bh_pdp ex_boot_host"
      "v_vcpu (b_vmm ex_boot) = None" "b_kern_brk ex_boot = user_addr_max" "b_pml4 ex_boot = pml4"
    by (simp_all add: ex_boot_host_def ex_boot_def is_page_aligned_def)
  ultimately show ?thesis using boot_address_space [OF ex_boot_good, of ex_boot] by metis
qed

end
