(* ===== verification/Clone.thy ===== *)
theory Clone
  imports Process VmmProps
begin

text \<open>
  New processes and threads, \<open>src/proc/fork.c\<close>.  The hypervisor gives a process one machine, so a
  process is made by taking a snapshot of the machine, destroying it, calling the host's \<open>fork\<close> and
  building the machine again on both sides; the two returns of \<open>fork\<close> are two answers of the host.  A
  thread is a thread of the host with a processor of its own; the new thread runs up to the signal that it
  gives while its parent waits for it.  What the parent and the new thread share and what is
  thread-local is one record, so a new thread is a second state that differs in the thread-local members.
\<close>

section \<open>State\<close>

record clone_state =
  cl_vmm :: vmm
  cl_proc :: proc_state
  cl_tasks :: "nat list"
  cl_sigmask :: l_sigset
  cl_sigpending :: "64 word"
  cl_set_child_tid :: gaddr

record clone_host =
  ch_hv :: hv
  ch_fork :: "int \<times> int"
  ch_pid :: int
  ch_thread_id :: "64 word"
  ch_task :: nat

definition LINUX_CLONE_VM :: "64 word" where "LINUX_CLONE_VM = 0x100"
definition LINUX_CLONE_FS :: "64 word" where "LINUX_CLONE_FS = 0x200"
definition LINUX_CLONE_FILES :: "64 word" where "LINUX_CLONE_FILES = 0x400"
definition LINUX_CLONE_SIGHAND :: "64 word" where "LINUX_CLONE_SIGHAND = 0x800"
definition LINUX_CLONE_THREAD :: "64 word" where "LINUX_CLONE_THREAD = 0x10000"
definition LINUX_CLONE_SYSVSEM :: "64 word" where "LINUX_CLONE_SYSVSEM = 0x40000"
definition LINUX_CLONE_SETTLS :: "64 word" where "LINUX_CLONE_SETTLS = 0x80000"
definition LINUX_CLONE_PARENT_SETTID :: "64 word" where "LINUX_CLONE_PARENT_SETTID = 0x100000"
definition LINUX_CLONE_CHILD_CLEARTID :: "64 word" where "LINUX_CLONE_CHILD_CLEARTID = 0x200000"
definition LINUX_CLONE_DETACHED :: "64 word" where "LINUX_CLONE_DETACHED = 0x400000"
definition LINUX_CLONE_CHILD_SETTID :: "64 word" where "LINUX_CLONE_CHILD_SETTID = 0x1000000"

abbreviation (input) LINUX_SIGCHLD :: "64 word" where "LINUX_SIGCHLD \<equiv> 17"

lemmas clone_flags_defs = LINUX_CLONE_VM_def LINUX_CLONE_FS_def LINUX_CLONE_FILES_def LINUX_CLONE_SIGHAND_def
  LINUX_CLONE_THREAD_def LINUX_CLONE_SYSVSEM_def LINUX_CLONE_SETTLS_def LINUX_CLONE_PARENT_SETTID_def
  LINUX_CLONE_CHILD_CLEARTID_def LINUX_CLONE_DETACHED_def LINUX_CLONE_CHILD_SETTID_def

definition cl_user :: "clone_state \<Rightarrow> user_mem" where
  "cl_user st = fx_user (p_fx (cl_proc st))"

definition cl_store :: "gaddr \<Rightarrow> byte list \<Rightarrow> clone_state \<Rightarrow> bool \<times> clone_state" where
  "cl_store a bs st = (case p_store a bs (cl_proc st) of (fine, p) \<Rightarrow> (fine, st\<lparr>cl_proc := p\<rparr>))"

definition on_machine :: "(vmm \<Rightarrow> vmm run) \<Rightarrow> clone_state \<Rightarrow> clone_state run" where
  "on_machine f st = bind_run (f (cl_vmm st)) (\<lambda>s. Inr (st\<lparr>cl_vmm := s\<rparr>))"

section \<open>The new task\<close>

text \<open>The number of a task is stored as an \<open>int\<close>; a failing copy is asserted not to happen.\<close>

definition init_task :: "clone_host \<Rightarrow> 64 word \<Rightarrow> gaddr \<Rightarrow> gaddr \<Rightarrow> clone_state \<Rightarrow> clone_state run" where
  "init_task h clone_flags child_tid tls st0 =
    (let tid = (if clone_flags AND LINUX_CLONE_THREAD \<noteq> 0 then ch_thread_id h else of_int (ch_pid h));
         set_tid = (if clone_flags AND LINUX_CLONE_CHILD_SETTID \<noteq> 0 then child_tid else 0);
         clear_tid = (if clone_flags AND LINUX_CLONE_CHILD_CLEARTID \<noteq> 0 then child_tid else 0);
         st = st0\<lparr>cl_sigmask := 0, cl_sigpending := 0, cl_set_child_tid := set_tid,
                  cl_proc := (cl_proc st0)\<lparr>p_tid := tid, p_clear_child_tid := clear_tid\<rparr>\<rparr>
     in bind_run
          (if set_tid \<noteq> 0
           then (case cl_store set_tid (le_bytes 4 (ucast tid :: 32 word)) st of
                   (True, st) \<Rightarrow> Inr st | (False, st) \<Rightarrow> Inl Assert_failed)
           else Inr st) (\<lambda>st.
        if clone_flags AND LINUX_CLONE_SETTLS \<noteq> 0
        then on_machine (vmm_write_vmcs (ch_hv h) ''VMCS_GUEST_FS_BASE'' tls) st else Inr st))"

section \<open>Processes\<close>

text \<open>The new stack pointer is not used.\<close>

definition do_clone_process ::
  "clone_host \<Rightarrow> 64 word \<Rightarrow> 64 word \<Rightarrow> gaddr \<Rightarrow> gaddr \<Rightarrow> gaddr \<Rightarrow> clone_state \<Rightarrow> (int \<times> clone_state) run" where
  "do_clone_process h clone_flags newsp parent_tid child_tid tls st =
    bind_run (vmm_snapshot (ch_hv h) (cl_vmm st)) (\<lambda>sn.
    bind_run (vmm_destroy (ch_hv h) (cl_vmm st)) (\<lambda>s1.
    let ret = syswrap (fst (ch_fork h)) (snd (ch_fork h)) in
    bind_run (vmm_reentry (ch_hv h) sn (um_kern (cl_user st)) (um_proc (cl_user st)) s1) (\<lambda>s2.
    let st = st\<lparr>cl_vmm := s2\<rparr> in
    if ret < 0 then Inr (ret, st)
    else if ret = 0 then bind_run (init_task h clone_flags child_tid tls st) (\<lambda>st. Inr (ret, st))
    else if clone_flags AND LINUX_CLONE_PARENT_SETTID \<noteq> 0
    then (case cl_store parent_tid (le_bytes 4 (word_of_int ret :: 32 word)) st of
            (True, st) \<Rightarrow> Inr (ret, st) | (False, st) \<Rightarrow> Inr (- LINUX_EFAULT, st))
    else Inr (ret, st))))"

section \<open>Threads\<close>

record clone_thread_arg =
  ta_clone_flags :: "64 word"
  ta_newsp :: "64 word"
  ta_parent_tid :: gaddr
  ta_child_tid :: gaddr
  ta_tls :: gaddr
  ta_vcpu_snapshot :: vcpu_snapshot

text \<open>
  The new thread up to its first run of the guest, on the state that it starts with.  The whole of
  \<open>task.tid\<close>, which has 64 bits, is copied out.
\<close>

definition start_thread :: "clone_host \<Rightarrow> clone_thread_arg \<Rightarrow> clone_state \<Rightarrow> clone_state run" where
  "start_thread h arg st =
    (let hv = ch_hv h in
     bind_run (on_machine (vmm_create_vcpu hv (Some (ta_vcpu_snapshot arg))) st) (\<lambda>st.
     bind_run (on_machine (vmm_write_register hv ''HV_X86_RAX'' 0) st) (\<lambda>st.
     bind_run (on_machine (vmm_write_register hv ''HV_X86_RSP'' (ta_newsp arg)) st) (\<lambda>st.
     bind_run (vmm_read_register hv ''HV_X86_RIP'' (cl_vmm st)) (\<lambda>rip.
     bind_run (on_machine (vmm_write_register hv ''HV_X86_RIP'' (rip + 2)) st) (\<lambda>st.
     let st = st\<lparr>cl_proc := (cl_proc st)\<lparr>p_nr_tasks := p_nr_tasks (cl_proc st) + 1\<rparr>,
                 cl_tasks := ch_task h # cl_tasks st, cl_sigpending := 0\<rparr> in
     bind_run (init_task h (ta_clone_flags arg) (ta_child_tid arg) (ta_tls arg) st) (\<lambda>st.
     if ta_clone_flags arg AND LINUX_CLONE_PARENT_SETTID \<noteq> 0
     then (case cl_store (ta_parent_tid arg) (le_bytes 8 (p_tid (cl_proc st))) st of
             (True, st) \<Rightarrow> Inr st | (False, st) \<Rightarrow> Inl Assert_failed)
     else Inr st)))))))"

text \<open>What a thread starts with: its parent's state, with the thread-local members empty.\<close>

definition fresh_thread :: "clone_state \<Rightarrow> clone_state" where
  "fresh_thread st = st\<lparr>cl_vmm := (cl_vmm st)\<lparr>v_vcpu := None\<rparr>, cl_sigmask := 0, cl_sigpending := 0, cl_set_child_tid := 0,
     cl_proc := (cl_proc st)\<lparr>p_tid := 0, p_clear_child_tid := 0, p_robust_list := 0\<rparr>\<rparr>"

text \<open>The parent after the wait: what is shared is as the new thread left it.\<close>

definition back_in_parent :: "clone_state \<Rightarrow> clone_state \<Rightarrow> clone_state" where
  "back_in_parent st new = new\<lparr>cl_vmm := (cl_vmm new)\<lparr>v_vcpu := v_vcpu (cl_vmm st)\<rparr>, cl_sigmask := cl_sigmask st,
     cl_sigpending := cl_sigpending st, cl_set_child_tid := cl_set_child_tid st,
     cl_proc := (cl_proc new)\<lparr>p_tid := p_tid (cl_proc st), p_clear_child_tid := p_clear_child_tid (cl_proc st),
       p_robust_list := p_robust_list (cl_proc st)\<rparr>\<rparr>"

definition do_clone_thread ::
  "clone_host \<Rightarrow> 64 word \<Rightarrow> 64 word \<Rightarrow> gaddr \<Rightarrow> gaddr \<Rightarrow> gaddr \<Rightarrow> clone_state \<Rightarrow> (int \<times> clone_state \<times> clone_state) run" where
  "do_clone_thread h clone_flags newsp parent_tid child_tid tls st =
    bind_run (vmm_snapshot_vcpu (ch_hv h) (cl_vmm st)) (\<lambda>sn.
    let arg = \<lparr>ta_clone_flags = clone_flags, ta_newsp = newsp, ta_parent_tid = parent_tid, ta_child_tid = child_tid,
               ta_tls = tls, ta_vcpu_snapshot = sn\<rparr> in
    bind_run (start_thread h arg (fresh_thread st)) (\<lambda>new.
    Inr (sint (ucast (ch_thread_id h) :: 32 word), back_in_parent st new, new)))"

section \<open>The system calls\<close>

text \<open>
  The flags that a thread needs are collected in a variable of the inner block, so the test sees the
  outer one, which is zero.  The result holds the state of the caller and that of a new thread.
\<close>

definition clone_implemented :: "64 word \<Rightarrow> 64 word" where
  "clone_implemented clone_flags =
    (let implemented = LINUX_CLONE_THREAD OR LINUX_CLONE_DETACHED OR LINUX_CLONE_SETTLS OR LINUX_CLONE_CHILD_SETTID OR
           LINUX_CLONE_CHILD_CLEARTID OR LINUX_CLONE_PARENT_SETTID
     in if clone_flags AND LINUX_CLONE_THREAD \<noteq> 0
        then implemented OR (LINUX_CLONE_VM OR LINUX_CLONE_FS OR LINUX_CLONE_FILES OR LINUX_CLONE_SIGHAND OR LINUX_CLONE_SYSVSEM)
        else implemented)"

definition do_clone ::
  "clone_host \<Rightarrow> 64 word \<Rightarrow> 64 word \<Rightarrow> gaddr \<Rightarrow> gaddr \<Rightarrow> gaddr \<Rightarrow> clone_state \<Rightarrow> (int \<times> clone_state \<times> clone_state option) run" where
  "do_clone h clone_flags0 newsp parent_tid child_tid tls st =
    (let sigtype = clone_flags0 AND 0xff; needed = 0 in
     if sigtype \<noteq> LINUX_SIGCHLD \<and> sigtype \<noteq> 0 then Inl Assert_failed
     else
       let clone_flags = clone_flags0 AND - 0x100 in
       if clone_flags AND NOT (clone_implemented clone_flags) \<noteq> 0 \<or> clone_flags AND needed \<noteq> needed
       then Inr (- LINUX_EINVAL, st, None)
       else if clone_flags AND LINUX_CLONE_THREAD \<noteq> 0
       then bind_run (do_clone_thread h clone_flags newsp parent_tid child_tid tls st)
         (\<lambda>(ret, st, new). Inr (ret, st, Some new))
       else bind_run (do_clone_process h clone_flags newsp parent_tid child_tid tls st) (\<lambda>(ret, st). Inr (ret, st, None)))"

definition sys_clone ::
  "clone_host \<Rightarrow> 64 word \<Rightarrow> 64 word \<Rightarrow> gaddr \<Rightarrow> gaddr \<Rightarrow> gaddr \<Rightarrow> clone_state \<Rightarrow> (int \<times> clone_state \<times> clone_state option) run" where
  "sys_clone = do_clone"

definition sys_fork :: "clone_host \<Rightarrow> clone_state \<Rightarrow> (int \<times> clone_state \<times> clone_state option) run" where
  "sys_fork h = do_clone h LINUX_SIGCHLD 0 0 0 0"

definition sys_vfork :: "clone_host \<Rightarrow> clone_state \<Rightarrow> (int \<times> clone_state \<times> clone_state option) run" where
  "sys_vfork h = do_clone h LINUX_SIGCHLD 0 0 0 0"

end
