(* ===== verification/CloneProps.thy ===== *)
theory CloneProps
  imports Clone ProcessProps
begin

text \<open>
  What \<open>fork\<close> and \<open>clone\<close> give to the two sides, and where they differ from what the guest expects.
\<close>

section \<open>Processes\<close>

lemma fork_one:
  assumes "hv_willing (ch_hv h)" "hv_works (ch_hv h)" "vmm_ok (cl_vmm st)" "v_vcpus (cl_vmm st) = [p]" "v_vcpu (cl_vmm st) = Some p"
    and "mm_inv (um_kern (cl_user st))" "mm_inv (um_proc (cl_user st))"
  defines "ret \<equiv> syswrap (fst (ch_fork h)) (snd (ch_fork h))"
  shows "\<exists>s2. sys_fork h st = Inr (ret,
        (if ret = 0
         then st\<lparr>cl_vmm := s2, cl_sigmask := 0, cl_sigpending := 0, cl_set_child_tid := 0,
                cl_proc := (cl_proc st)\<lparr>p_tid := of_int (ch_pid h), p_clear_child_tid := 0\<rparr>\<rparr>
         else st\<lparr>cl_vmm := s2\<rparr>), None) \<and>
      vmm_ok s2 \<and> same_machine (ch_hv h) (um_kern (cl_user st)) (um_proc (cl_user st)) (cl_vmm st) s2"
proof -
  obtain sn s1 s2 where s: "vmm_snapshot (ch_hv h) (cl_vmm st) = Inr sn" "vmm_destroy (ch_hv h) (cl_vmm st) = Inr s1"
      "vmm_reentry (ch_hv h) sn (um_kern (cl_user st)) (um_proc (cl_user st)) s1 = Inr s2" "vmm_ok s2"
      "same_machine (ch_hv h) (um_kern (cl_user st)) (um_proc (cl_user st)) (cl_vmm st) s2"
    using carry_over [OF assms(1-7)] .
  have f: "(0x11 :: 64 word) AND 0xff = 17" "(0x11 :: 64 word) AND - 0x100 = 0" by simp_all
  have "do_clone_process h 0 0 0 0 0 st = Inr (ret,
        (if ret = 0
         then st\<lparr>cl_vmm := s2, cl_sigmask := 0, cl_sigpending := 0, cl_set_child_tid := 0,
                cl_proc := (cl_proc st)\<lparr>p_tid := of_int (ch_pid h), p_clear_child_tid := 0\<rparr>\<rparr>
         else st\<lparr>cl_vmm := s2\<rparr>))"
    using s(1-3) by (simp add: do_clone_process_def init_task_def Let_def ret_def)
  then have "sys_fork h st = Inr (ret,
        (if ret = 0
         then st\<lparr>cl_vmm := s2, cl_sigmask := 0, cl_sigpending := 0, cl_set_child_tid := 0,
                cl_proc := (cl_proc st)\<lparr>p_tid := of_int (ch_pid h), p_clear_child_tid := 0\<rparr>\<rparr>
         else st\<lparr>cl_vmm := s2\<rparr>), None)"
    unfolding sys_fork_def do_clone_def f Let_def by simp
  then show ?thesis using s(4,5) by blast
qed

text \<open>
  C17: \<open>fork\<close> in a process with one processor returns what the host's \<open>fork\<close> returned, on both sides,
  with the memory as it was; the parent's state is otherwise unchanged, and the child has its own
  number, no address to clear and no pending or blocked signal.  The machine on either side is a new one
  with the registers, the writable fields, the floating point state and the page table of the old one,
  but with the model-specific registers of a new processor.  In a process with more than one processor
  \<open>fork\<close> ends the process.
\<close>

theorem fork_spec:
  assumes "hv_willing (ch_hv h)" "hv_works (ch_hv h)" "vmm_ok (cl_vmm st)" "v_vcpu (cl_vmm st) = Some p"
    and "mm_inv (um_kern (cl_user st))" "mm_inv (um_proc (cl_user st))"
  defines "ret \<equiv> syswrap (fst (ch_fork h)) (snd (ch_fork h))"
  shows "if 1 < length (v_vcpus (cl_vmm st)) then sys_fork h st = Inl Exited
    else \<exists>s2. sys_fork h st = Inr (ret,
        (if ret = 0
         then st\<lparr>cl_vmm := s2, cl_sigmask := 0, cl_sigpending := 0, cl_set_child_tid := 0,
                cl_proc := (cl_proc st)\<lparr>p_tid := of_int (ch_pid h), p_clear_child_tid := 0\<rparr>\<rparr>
         else st\<lparr>cl_vmm := s2\<rparr>), None) \<and>
      vmm_ok s2 \<and> same_machine (ch_hv h) (um_kern (cl_user st)) (um_proc (cl_user st)) (cl_vmm st) s2"
proof (cases "1 < length (v_vcpus (cl_vmm st))")
  case True
  then have "vmm_snapshot (ch_hv h) (cl_vmm st) = Inl Exited" using assms(3) by (simp add: vmm_snapshot_def vmm_ok_def)
  then show ?thesis using True by (simp add: sys_fork_def do_clone_def do_clone_process_def Let_def clone_implemented_def clone_flags_defs)
next
  case False
  have "p \<in> set (v_vcpus (cl_vmm st))" using assms(3,4) by (simp add: vmm_ok_def)
  then have "v_vcpus (cl_vmm st) = [p]" using False by (cases "v_vcpus (cl_vmm st)") auto
  then show ?thesis using False fork_one [OF assms(1-3) _ assms(4-6)] by (simp add: ret_def)
qed

definition ex_clone :: clone_state where
  "ex_clone = \<lparr>cl_vmm = ex_vmm, cl_proc = ex_proc 501 501 501, cl_tasks = [0], cl_sigmask = 4, cl_sigpending = 2,
     cl_set_child_tid = 0\<rparr>"

definition ex_ch :: "int \<Rightarrow> clone_host" where
  "ex_ch r = \<lparr>ch_hv = ex_hv, ch_fork = (r, 0), ch_pid = 77, ch_thread_id = 0x500000123, ch_task = 1\<rparr>"

lemma ex_clone_mm: "mm_inv (um_kern (cl_user ex_clone))" "mm_inv (um_proc (cl_user ex_clone))"
  using ex_um_ok by (simp_all add: um_ok_def ex_clone_def cl_user_def ex_proc_def)

lemma ex_clone_vmm: "cl_vmm ex_clone = ex_vmm" "ch_hv (ex_ch r) = ex_hv"
  by (simp_all add: ex_clone_def ex_ch_def)

theorem fork_spec_witness:
  "\<exists>par child. sys_fork (ex_ch 77) ex_clone = Inr (77, par, None) \<and> cl_proc par = cl_proc ex_clone \<and> cl_sigmask par = 4 \<and>
      sys_fork (ex_ch 0) ex_clone = Inr (0, child, None) \<and> p_tid (cl_proc child) = 77 \<and> cl_sigmask child = 0 \<and>
      vmm_read_register ex_hv ''HV_X86_RIP'' (cl_vmm child) = Inr 0x400000"
proof -
  have rip: "vmm_read_register ex_hv ''HV_X86_RIP'' ex_vmm = Inr 0x400000"
    by (simp add: vmm_read_register_def this_vcpu_def ex_vmm_def ex_hv_def)
  have r: "syswrap (fst (ch_fork (ex_ch 77))) (snd (ch_fork (ex_ch 77))) = 77"
      "syswrap (fst (ch_fork (ex_ch 0))) (snd (ch_fork (ex_ch 0))) = 0"
    by (simp_all add: ex_ch_def syswrap_pos)
  note good = ex_hv_good ex_vmm_ok
  obtain s1 where "sys_fork (ex_ch 77) ex_clone = Inr (77, ex_clone\<lparr>cl_vmm := s1\<rparr>, None)"
    using fork_spec [of "ex_ch 77" ex_clone 0] good ex_clone_mm unfolding ex_clone_vmm r by auto
  moreover obtain s2 where "sys_fork (ex_ch 0) ex_clone = Inr (0, ex_clone\<lparr>cl_vmm := s2, cl_sigmask := 0, cl_sigpending := 0,
        cl_set_child_tid := 0, cl_proc := (cl_proc ex_clone)\<lparr>p_tid := of_int (ch_pid (ex_ch 0)), p_clear_child_tid := 0\<rparr>\<rparr>, None)"
      "same_machine ex_hv (um_kern (cl_user ex_clone)) (um_proc (cl_user ex_clone)) ex_vmm s2"
    using fork_spec [of "ex_ch 0" ex_clone 0] good ex_clone_mm unfolding ex_clone_vmm r by auto
  moreover have "vmm_read_register ex_hv ''HV_X86_RIP'' s2 = Inr 0x400000"
    using calculation(3) rip snap_regs_eval(1) unfolding same_machine_def by simp
  ultimately show ?thesis by (simp add: ex_clone_def) (simp add: ex_ch_def)
qed

section \<open>Threads\<close>















text \<open>
  The flags that a thread needs are never required: \<open>clone\<close> makes a thread for a caller that asks
  for a thread alone, without shared memory, files or signal handlers.
\<close>

theorem clone_flags_unchecked:
  "do_clone h LINUX_CLONE_THREAD newsp ptid ctid tls st =
    bind_run (do_clone_thread h LINUX_CLONE_THREAD newsp ptid ctid tls st) (\<lambda>(ret, st, new). Inr (ret, st, Some new))"
  by (simp add: do_clone_def clone_implemented_def clone_flags_defs)

end
