(* ===== verification/EptProps.thy ===== *)
theory EptProps
  imports VmmProps
begin

text \<open>
  The extended page table and the region index of a process in step: after a sequence of \<open>munmap\<close>,
  \<open>mmap\<close>, \<open>brk\<close> and \<open>mprotect\<close> that returns, the hypervisor maps to the guest what the index says and
  nothing else, so memory that was given back to the host is out of reach.
\<close>

section \<open>The effect of the memory calls\<close>

text \<open>What the hypervisor does with its page table; the calls to the host's own memory leave it alone.\<close>

fun shadow_step :: "ept \<Rightarrow> host_call \<Rightarrow> ept" where
  "shadow_step e (Hv_vm_map h g n p) = (\<lambda>a. if in_range a g n then Some (h + (a - g), p) else e a)"
| "shadow_step e (Hv_vm_unmap g n) = (\<lambda>a. if in_range a g n then None else e a)"
| "shadow_step e (Hv_vm_protect g n p) = (\<lambda>a. if in_range a g n then map_option (\<lambda>(h, _). (h, p)) (e a) else e a)"
| "shadow_step e _ = e"

definition shadow :: "ept \<Rightarrow> host_call list \<Rightarrow> ept" where
  "shadow e cs = foldl shadow_step e cs"

lemma shadow_append [simp]: "shadow e (cs @ ds) = foldl shadow_step (shadow e cs) ds"
  by (simp add: shadow_def)

text \<open>
  The table that \<open>base\<close> was before the calls of the process agrees with the index, but where the kernel
  has its own memory.
\<close>

definition in_step :: "ept \<Rightarrow> vm \<Rightarrow> bool" where
  "in_step base v \<longleftrightarrow> (\<forall>a. base a = None \<longrightarrow> shadow base (vm_calls v) a = region_ept (vm_mm v) a)"

lemma in_stepI: "(\<And>a. base a = None \<Longrightarrow> shadow base (vm_calls v) a = region_ept (vm_mm v) a) \<Longrightarrow> in_step base v"
  by (simp add: in_step_def)

lemma in_stepD: "in_step base v \<Longrightarrow> base a = None \<Longrightarrow> shadow base (vm_calls v) a = region_ept (vm_mm v) a"
  by (simp add: in_step_def)

lemma in_step_mm: "in_step base v \<Longrightarrow> view m = view (vm_mm v) \<Longrightarrow> in_step base (v\<lparr>vm_mm := m\<rparr>)"
  by (simp add: in_step_def region_ept_def)

lemma call_simps [simp]: "vm_mm (call c v) = vm_mm v" "vm_calls (call c v) = vm_calls v @ [c]"
  by (simp_all add: call_def)

section \<open>Unmapping\<close>

lemma unmap_in_step:
  assumes "in_step base v" "view m = (\<lambda>a. if contains r a then None else view (vm_mm v) a)"
  shows "in_step base (call (Host_munmap h n) (call (Hv_vm_unmap (r_gaddr r) (r_size r)) (v\<lparr>vm_mm := m\<rparr>)))"
  using assms by (auto simp: in_step_def region_ept_def in_range_contains)

lemma munmap_loop_in_step:
  assumes al: "is_page_aligned g PAGE_4KB" "is_page_aligned s PAGE_4KB"
    and rng: "unat g + unat s < 2 ^ 64" "0 < unat s"
  shows "\<lbrakk>mm_inv (vm_mm v); regions_small (regions (vm_mm v)); mm_regions (vm_mm v) = xs @ i # ys;
      unat g < region_end (mm_store (vm_mm v) i); in_step base v; munmap_loop n g s i v = Inr v'\<rbrakk> \<Longrightarrow> in_step base v'"
proof (induction n arbitrary: v xs i ys)
  case (Suc n)
  note pre = Suc.prems(1-4)
  show ?case
  proof (cases "unat (r_gaddr (mm_store (vm_mm v) i)) < unat g + unat s")
    case False
    have "region_ok (mm_store (vm_mm v) i)" using region_ok_of [OF pre(1)] pre(3) by simp
    then have "munmap_loop (Suc n) g s i v = Inr v"
      using False region_compare_nat [of "region_key g s" "mm_store (vm_mm v) i"] rng(1) pre(4) by simp
    then show ?thesis using Suc.prems(5,6) by simp
  next
    case True
    show ?thesis
    proof (rule munmap_pass [OF al rng pre True, of n], goal_cases)
      case (1 r m3 xs' ys')
      define v3 where "v3 = call (Host_munmap (r_haddr r) (r_size r)) (call (Hv_vm_unmap (r_gaddr r) (r_size r)) (v\<lparr>vm_mm := m3\<rparr>))"
      have step: "in_step base v3" unfolding v3_def by (rule unmap_in_step [OF Suc.prems(5) 1(6)])
      show ?case
      proof (cases ys')
        case Nil
        then have "v' = v3" using 1(1) Suc.prems(6) by (simp add: v3_def)
        then show ?thesis using step by simp
      next
        case (Cons k zs)
        note k = 1(12) [OF Cons]
        have "unat g < region_end (mm_store m3 k)" using k region_ok_pos [of "mm_store m3 k"] 1(7,8) by simp
        moreover have "munmap_loop n g s k v3 = Inr v'" using 1(1) Suc.prems(6) Cons by (simp add: v3_def)
        moreover have "vm_mm v3 = m3" by (simp add: v3_def)
        ultimately show ?thesis using Suc.IH [of v3 xs' k zs] 1(2-4) step unfolding Cons by simp
      qed
    qed
  qed
qed simp

lemma do_munmap_in_step:
  assumes st: "mm_state v" and sz: "sz \<noteq> 0" "unat g + unat sz + 4096 < 2 ^ 64"
    and step: "in_step base v" and run: "do_munmap g sz v = Inr (ret, v')"
  shows "in_step base v'"
proof (cases "is_page_aligned g PAGE_4KB \<and> find_region_range g (roundup sz 0x1000) (vm_mm v) \<noteq> None")
  case False
  then have "v' = v" using run by (cases "is_page_aligned g PAGE_4KB") (simp_all add: do_munmap_def PAGE_SIZEOF_4KB)
  then show ?thesis using step by simp
next
  case True
  let ?s = "roundup sz 0x1000"
  obtain i where i: "find_region_range g ?s (vm_mm v) = Some i" and al: "is_page_aligned g PAGE_4KB" using True by auto
  have r: "is_page_aligned ?s PAGE_4KB" "unat sz \<le> unat ?s" "unat ?s < unat sz + 4096"
    using roundup_is_aligned [of sz] sz(2) by simp_all
  have "0 < unat sz" using sz(1) by (simp add: unat_gt_0)
  then have s: "0 < unat ?s" "unat g + unat ?s < 2 ^ 64" using r(2,3) sz(2) by auto
  have inv: "mm_inv (vm_mm v)" "regions_small (regions (vm_mm v))" using st by (auto simp: mm_state_def)
  have o: "i \<in> set (mm_regions (vm_mm v))" "overlaps (mm_store (vm_mm v) i) g ?s"
    using find_region_range_some(1) [OF inv(1) s(2) i] by simp_all
  obtain xs ys where ids: "mm_regions (vm_mm v) = xs @ i # ys" using o(1) by (meson split_list)
  have "bind_run (munmap_loop (length (mm_regions (vm_mm v)) + 2) g ?s i v) (\<lambda>v'. Inr (0, v')) = Inr (ret, v')"
    using run al i unfolding do_munmap_def Let_def PAGE_SIZEOF_4KB by (simp only: if_False not_True_eq_False option.case)
  then have loop: "munmap_loop (length (mm_regions (vm_mm v)) + 2) g ?s i v = Inr v'"
    by (cases "munmap_loop (length (mm_regions (vm_mm v)) + 2) g ?s i v") simp_all
  have "unat g < region_end (mm_store (vm_mm v) i)" using o(2) by (simp add: overlaps_def)
  then show ?thesis by (rule munmap_loop_in_step [OF al r(1) s(2,1) inv ids _ step loop])
qed

text \<open>A state of the memory in step with the page table.\<close>

definition good :: "ept \<Rightarrow> vm \<Rightarrow> bool" where
  "good base v \<longleftrightarrow> mm_state v \<and> in_step base v"

lemma do_munmap_good:
  assumes good: "good base v" and sz: "sz \<noteq> 0" "unat g + unat sz + 4096 < 2 ^ 64"
  shows "\<exists>ret v'. do_munmap g sz v = Inr (ret, v') \<and> good base v'"
proof (cases "is_page_aligned g PAGE_4KB")
  case False
  then show ?thesis using good by (simp add: do_munmap_def)
next
  case True
  let ?s = "roundup sz 0x1000"
  have r: "is_page_aligned ?s PAGE_4KB" "unat sz \<le> unat ?s" "unat ?s < unat sz + 4096"
    using roundup_is_aligned [of sz] sz(2) by simp_all
  have "0 < unat sz" using sz(1) by (simp add: unat_gt_0)
  then have s: "?s \<noteq> 0" "unat g + unat ?s < 2 ^ 64" using r(2,3) sz(2) by auto
  have st: "mm_state v" "in_step base v" "mm_inv (vm_mm v)" "regions_small (regions (vm_mm v))"
    using good by (auto simp: good_def mm_state_def)
  have "\<exists>ret v'. do_munmap g sz v = Inr (ret, v') \<and> mm_state v'"
    using do_munmap_ok [OF st(3,4) True r(1) refl s] st(1)
    by (cases "find_region_range g ?s (vm_mm v)") (auto simp: mm_state_def)
  then show ?thesis using do_munmap_in_step [OF st(1) sz st(2)] by (auto simp: good_def)
qed

section \<open>Mapping\<close>

lemma bind_InrE: "bind_run m f = Inr y \<Longrightarrow> (\<And>x. m = Inr x \<Longrightarrow> f x = Inr y \<Longrightarrow> P) \<Longrightarrow> P"
  by (cases m) simp_all

lemma map_in_step:
  assumes "in_step base v" "view m = mapped g n h p f d (view (vm_mm v))"
  shows "in_step base (call (Hv_vm_map h g n (linux_mprot_to_hv_mflag p)) (call (Hv_vm_unmap g n) (v\<lparr>vm_mm := m\<rparr>)))"
  using assms by (auto simp: in_step_def region_ept_def mapped_def)

text \<open>A region is only recorded where there is none: the insertion panics when it meets one.\<close>

lemma record_region_free:
  assumes inv: "mm_inv m" and rng: "unat g + unat s < 2 ^ 64" and run: "record_region m h g s p f d po = Inr (j, m')"
  shows "g \<noteq> 0" and "in_range a g s \<Longrightarrow> view m a = None"
proof -
  show g: "g \<noteq> 0" using run by (auto simp: record_region_def split: if_splits)
  assume a: "in_range a g s"
  show "view m a = None"
  proof (rule ccontr)
    assume "view m a \<noteq> None"
    then obtain i where "find_region a m = Some i" by (auto simp: view_def)
    then have i: "i \<in> set (mm_regions m)" "contains (mm_store m i) a" using find_region_iff [OF inv] by auto
    then have over: "overlaps (mm_store m i) g s" using a by (auto simp: overlaps_def in_range_def contains_def)
    let ?n = "mm_fresh m" and ?m = "m\<lparr>mm_store := (mm_store m)(mm_fresh m := new_region h g s p f d po), mm_fresh := Suc (mm_fresh m)\<rparr>"
    have fresh: "?n \<notin> set (mm_regions m)" and io: "inorder (mm_region_tree m) = mm_regions m" using inv by (auto simp: mm_inv_def)
    have cmp: "region_cmp ?m ?n k = key_cmp m (region_key g s) k" if "k \<in> set (mm_regions m)" for k
      using that fresh by (auto simp: region_compare_def region_key_def new_region_def)
    have "rank_sorted (key_cmp m (region_key g s)) (mm_regions m)"
      using rank_sorted_key [of "regions m" "region_key g s"] inv rng by (simp add: mm_inv_def regions_def rank_sorted_map)
    then have "rank_sorted (region_cmp ?m ?n) (inorder (mm_region_tree m))" unfolding io by (rule rank_sorted_cong) (rule cmp)
    moreover have "region_cmp ?m ?n i = 0" using cmp [OF i(1)] overlaps_cmp [OF region_ok_of [OF inv i(1)] rng] over by simp
    ultimately obtain z where "rb_insert (region_cmp ?m) ?n (mm_region_tree m) = Some (Some z, mm_region_tree m)"
      using rb_insert_dup [of "region_cmp ?m" ?n "mm_region_tree m" i] i(1) io by auto
    then show False using run g unfolding record_region_def Let_def new_region_def by simp
  qed
qed

lemma do_mmap_in_step:
  fixes v addr0 len0 l_flags0
  defines "len \<equiv> roundup len0 0x1000" and "addr \<equiv> mmap_target l_flags0 addr0 v"
  assumes good: "good base v" and sz: "len0 \<noteq> 0" "unat len0 \<le> 2 ^ 31 - 4096" "unat addr + unat len0 + 8192 < 2 ^ 64"
    and run: "do_mmap host_mmap hv_vm_map addr0 len0 d_prot l_prot l_flags0 fd off v = Inr (ret, v')"
  shows "good base v'"
proof -
  define f where "f = mmap_flags l_flags0"
  define v1 where "v1 = (if f AND LINUX_MAP_FIXED = 0
      then v\<lparr>vm_mm := (vm_mm v)\<lparr>current_mmap_top := current_mmap_top (vm_mm v) + len\<rparr>\<rparr> else v)"
  have r: "is_page_aligned len PAGE_4KB" "unat len0 \<le> unat len" "unat len < unat len0 + 4096"
    using roundup_is_aligned [of len0] sz(2) unfolding len_def by simp_all
  have "0 < unat len0" using sz(1) by (simp add: unat_gt_0)
  then have len: "len \<noteq> 0" "0 < unat len" "unat addr + unat len < 2 ^ 64" "unat len \<le> 2 ^ 31" "unat addr + unat len + 4096 < 2 ^ 64"
    using r(2,3) sz(2,3) by auto
  have again: "roundup len 0x1000 = len" using roundup_aligned [OF r(1)] len(4) by simp
  have v1: "good base v1" using good by (auto simp: v1_def good_def mm_state_def in_step_def region_ept_def)
  have pick: "(if f AND LINUX_MAP_FIXED = 0 then alloc_region len v else (addr0, v)) = (addr, v1)"
    using again by (auto simp: addr_def mmap_target_def v1_def alloc_region_def Let_def f_def)
  consider "v' = v1" | ptr fd' off' ret2 v2 j m3 where "do_munmap addr len v1 = Inr (ret2, v2)"
      "record_region (vm_mm v2) ptr addr len l_prot f fd' off' = Inr (j, m3)"
      "vmm_mmap hv_vm_map addr len (linux_mprot_to_hv_mflag l_prot) ptr (v2\<lparr>vm_mm := m3\<rparr>) = Inr v'"
    using run pick unfolding do_mmap_def Let_def PAGE_SIZEOF_4KB mmap_flags_def [symmetric] f_def [symmetric] len_def [symmetric]
    by (auto split: if_splits sum.splits elim!: bind_InrE)
  then show ?thesis
  proof cases
    case 2
    have "good base v2" using do_munmap_good [OF v1 len(1,5)] 2(1) by auto
    then have u: "mm_inv (vm_mm v2)" "regions_small (regions (vm_mm v2))" "in_step base v2" by (auto simp: good_def mm_state_def)
    have v': "is_page_aligned addr PAGE_4KB"
        "v' = call (Hv_vm_map ptr addr len (linux_mprot_to_hv_mflag l_prot)) (call (Hv_vm_unmap addr len) (v2\<lparr>vm_mm := m3\<rparr>))"
      using 2(3) by (auto simp: vmm_mmap_def Let_def split: if_splits)
    note free = record_region_free [OF u(1) len(3) 2(2)]
    have m3: "mm_inv m3" "regions_small (regions m3)" "view m3 = mapped addr len ptr l_prot f fd' (view (vm_mm v2))"
      using record_region_view [OF u(1,2) len(4) free(1) v'(1) r(1) len(3,2) free(2), of ptr l_prot f fd' off'] 2(2) by auto
    show ?thesis using map_in_step [OF u(3) m3(3)] m3(1,2) by (simp add: v'(2) good_def mm_state_def)
  qed (simp add: v1)
qed

section \<open>Protection\<close>

lemma mprot_idem: "linux_mprot_to_hv_mflag (linux_mprot_to_hv_mflag p) = linux_mprot_to_hv_mflag p"
  by (simp add: linux_mprot_to_hv_mflag_def flag_if_def mman_flags)

lemma protect_good:
  assumes "good base v" "i \<in> set (mm_regions (vm_mm v))" "hvprot = linux_mprot_to_hv_mflag p"
  shows "good base (protect_region i hvprot prot v)"
proof -
  let ?r = "mm_store (vm_mm v) i"
  have st: "mm_state v" using assms(1) by (simp add: good_def)
  have "shadow base (vm_calls (protect_region i hvprot prot v)) a = region_ept (vm_mm (protect_region i hvprot prot v)) a"
    if "base a = None" for a
    using in_stepD [of base v a] that assms(1) protect_region_view(2) [OF st assms(2), of hvprot prot]
    by (cases "view (vm_mm v) a") (auto simp: good_def region_ept_def protect_region_def Let_def in_range_contains assms(3) mprot_idem split: prod.splits)
  then show ?thesis using protect_region_view(1) [OF st assms(2)] by (simp add: good_def in_step_def)
qed

lemma protect_regions [simp]: "mm_regions (vm_mm (protect_region i hvprot prot v)) = mm_regions (vm_mm v)"
  by (simp add: protect_region_def Let_def)

text \<open>The loop of \<open>mprotect\<close> goes down the list, so its fuel is enough.\<close>

lemma mprotect_loop_good:
  assumes "good base v" "mm_regions (vm_mm v) = xs @ i # ys" "length ys < n" and hv: "hvprot = linux_mprot_to_hv_mflag p"
  shows "\<exists>res. mprotect_loop n g_end hvprot prot i v = Inr res \<and> (case res of Inl v' \<Rightarrow> good base v'
    | Inr (j, v') \<Rightarrow> good base v' \<and> j \<in> set (mm_regions (vm_mm v')) \<and>
        \<not> r_gaddr (mm_store (vm_mm v') j) + r_size (mm_store (vm_mm v') j) \<le> g_end)"
  using assms(1-3)
proof (induction n arbitrary: xs i ys v)
  case (Suc n)
  let ?v = "protect_region i hvprot prot v"
  have mem: "i \<in> set (mm_regions (vm_mm v))" using Suc.prems(2) by simp
  have "i \<notin> set xs" using Suc.prems(1,2) by (auto simp: good_def mm_state_def mm_inv_def)
  then have nx: "list_next i (mm_regions (vm_mm ?v)) = (case ys of [] \<Rightarrow> None | k # _ \<Rightarrow> Some k)" using Suc.prems(2) by simp
  note good = protect_good [OF Suc.prems(1) mem hv, of prot]
  show ?case
  proof (cases "r_gaddr (mm_store (vm_mm v) i) + r_size (mm_store (vm_mm v) i) \<le> g_end")
    case False
    then show ?thesis using Suc.prems(1) mem by simp
  next
    case True
    show ?thesis
    proof (cases ys)
      case Nil
      then show ?thesis using True nx good by (simp add: Let_def)
    next
      case (Cons k zs)
      have "mm_regions (vm_mm ?v) = (xs @ [i]) @ k # zs" "length zs < n" using Suc.prems(2,3) Cons by simp_all
      from Suc.IH [OF good this] show ?thesis using True nx good Cons by (simp add: Let_def)
    qed
  qed
qed simp

lemma split_good:
  assumes "good base v" "i \<in> set (mm_regions (vm_mm v))" "is_page_aligned g PAGE_4KB" "inside g (mm_store (vm_mm v) i)"
  obtains m j where "split_region (vm_mm v) i g = Inr m" "good base (v\<lparr>vm_mm := m\<rparr>)" "i \<in> set (mm_regions m)"
    "list_next i (mm_regions m) = Some j" "j \<in> set (mm_regions m)"
proof -
  have st: "mm_inv (vm_mm v)" "regions_small (regions (vm_mm v))" using assms(1) by (auto simp: good_def mm_state_def)
  obtain xs ys where ids: "mm_regions (vm_mm v) = xs @ i # ys" using assms(2) by (meson split_list)
  have "i \<notin> set xs" using st(1) ids by (auto simp: mm_inv_def)
  obtain m where m: "split_region (vm_mm v) i g = Inr m" "mm_inv m" "regions_small (regions m)"
      "mm_regions m = xs @ i # mm_fresh (vm_mm v) # ys" "view m = view (vm_mm v)"
    using split_region_view [OF st(1) ids assms(3,4) st(2)] by blast
  have "good base (v\<lparr>vm_mm := m\<rparr>)" using m(2,3,5) assms(1) in_step_mm by (auto simp: good_def mm_state_def)
  then show ?thesis using that [OF m(1)] m(4) \<open>i \<notin> set xs\<close> by simp
qed

text \<open>The start of \<open>mprotect\<close>, which cuts the first region, and its end, which cuts the last one.\<close>

lemma mprotect_first:
  assumes good: "good base v" and i: "i \<in> set (mm_regions (vm_mm v))" "contains (mm_store (vm_mm v) i) addr"
    and al: "is_page_aligned addr PAGE_4KB" and hv: "hvprot = linux_mprot_to_hv_mflag p"
  shows "\<exists>i1 v1. (if r_gaddr (mm_store (vm_mm v) i) < addr then
      bind_run (split_region (vm_mm v) i addr) (\<lambda>m1.
      bind_run (deref (list_next i (mm_regions m1))) (\<lambda>j. Inr (j, protect_region j hvprot prot (v\<lparr>vm_mm := m1\<rparr>))))
    else Inr (i, v)) = Inr (i1, v1) \<and> good base v1 \<and> i1 \<in> set (mm_regions (vm_mm v1))"
proof (cases "r_gaddr (mm_store (vm_mm v) i) < addr")
  case True
  then have ins: "inside addr (mm_store (vm_mm v) i)" using i(2) by (simp add: inside_def contains_def word_less_nat_alt)
  show ?thesis
  proof (rule split_good [OF good i(1) al ins], goal_cases)
    case (1 m j)
    then show ?case using True protect_good [OF 1(2) _ hv, of j prot] by simp
  qed
qed (use good i in simp)

lemma mprotect_last:
  assumes good: "good base v" and j: "j \<in> set (mm_regions (vm_mm v))"
      "\<not> r_gaddr (mm_store (vm_mm v) j) + r_size (mm_store (vm_mm v) j) \<le> g_end"
    and al: "is_page_aligned g_end PAGE_4KB" and hv: "hvprot = linux_mprot_to_hv_mflag p"
  shows "\<exists>v'. (if r_gaddr (mm_store (vm_mm v) j) < g_end
      then bind_run (split_region (vm_mm v) j g_end) (\<lambda>m3. Inr (0 :: int, protect_region j hvprot prot (v\<lparr>vm_mm := m3\<rparr>)))
      else Inr (0, v)) = Inr (0, v') \<and> good base v'"
proof (cases "r_gaddr (mm_store (vm_mm v) j) < g_end")
  case True
  have ok: "region_ok (mm_store (vm_mm v) j)" using region_ok_of j(1) good by (auto simp: good_def mm_state_def)
  have ins: "inside g_end (mm_store (vm_mm v) j)"
    using True j(2) region_ok_end [OF ok] by (simp add: inside_def word_less_nat_alt word_le_nat_alt)
  show ?thesis
  proof (rule split_good [OF good j(1) al ins], goal_cases)
    case (1 m k)
    then show ?case using True protect_good [OF 1(2) _ hv, of j prot] by simp
  qed
qed (use good in simp)

lemma sys_mprotect_good:
  assumes good: "good base v" and sz: "unat addr + unat len0 + 4096 < 2 ^ 64"
  shows "\<exists>ret v'. sys_mprotect addr len0 prot v = Inr (ret, v') \<and> good base v'"
proof (cases "is_page_aligned addr PAGE_4KB \<and> len0 \<noteq> 0 \<and> find_region addr (vm_mm v) \<noteq> None")
  case False
  then show ?thesis using good by (auto simp: sys_mprotect_def Let_def)
next
  case True
  define hvprot where "hvprot = linux_mprot_to_hv_mflag prot"
  define g_end where "g_end = addr + roundup len0 0x1000"
  obtain i where i: "find_region addr (vm_mm v) = Some i" and al: "is_page_aligned addr PAGE_4KB" "len0 \<noteq> 0" using True by auto
  have inv: "mm_inv (vm_mm v)" using good by (simp add: good_def mm_state_def)
  have mem: "i \<in> set (mm_regions (vm_mm v))" "contains (mm_store (vm_mm v) i) addr" using find_region_iff [OF inv] i by auto
  have "is_page_aligned (roundup len0 0x1000) PAGE_4KB" "unat addr + unat (roundup len0 0x1000) < 2 ^ 64"
    using roundup_is_aligned [of len0] sz by simp_all
  then have ge: "is_page_aligned g_end PAGE_4KB" unfolding g_end_def by (intro range_aligned(1) [OF al(1)])
  obtain i1 v1 where one: "(if r_gaddr (mm_store (vm_mm v) i) < addr then
      bind_run (split_region (vm_mm v) i addr) (\<lambda>m1.
      bind_run (deref (list_next i (mm_regions m1))) (\<lambda>j. Inr (j, protect_region j hvprot prot (v\<lparr>vm_mm := m1\<rparr>))))
    else Inr (i, v)) = Inr (i1, v1)" "good base v1" "i1 \<in> set (mm_regions (vm_mm v1))"
    using mprotect_first [OF good mem al(1) hvprot_def, of prot] by blast
  obtain xs ys where ids: "mm_regions (vm_mm v1) = xs @ i1 # ys" using one(3) by (meson split_list)
  have "length ys < length (mm_regions (vm_mm v1)) + 1" using ids by simp
  from mprotect_loop_good [OF one(2) ids this hvprot_def, of g_end prot]
  obtain res where loop: "mprotect_loop (length (mm_regions (vm_mm v1)) + 1) g_end hvprot prot i1 v1 = Inr res"
      and lg: "case res of Inl v' \<Rightarrow> good base v'
        | Inr (j, v') \<Rightarrow> good base v' \<and> j \<in> set (mm_regions (vm_mm v')) \<and>
            \<not> r_gaddr (mm_store (vm_mm v') j) + r_size (mm_store (vm_mm v') j) \<le> g_end" by blast
  have run: "sys_mprotect addr len0 prot v = (case res of Inl v2 \<Rightarrow> Inr (- LINUX_ENOMEM, v2)
      | Inr (j, v2) \<Rightarrow> if r_gaddr (mm_store (vm_mm v2) j) < g_end
          then bind_run (split_region (vm_mm v2) j g_end) (\<lambda>m3. Inr (0, protect_region j hvprot prot (v2\<lparr>vm_mm := m3\<rparr>)))
          else Inr (0, v2))"
    using al i one(1) loop unfolding sys_mprotect_def Let_def PAGE_SIZEOF_4KB linux_mprot_to_hv_mflag_def [symmetric]
      hvprot_def [symmetric] g_end_def [symmetric] by (simp del: mprotect_loop.simps)
  show ?thesis
  proof (cases res)
    case (Inl v2)
    then show ?thesis using lg run by simp
  next
    case (Inr jv)
    obtain j v2 where jv: "jv = (j, v2)" by (cases jv)
    have "good base v2" "j \<in> set (mm_regions (vm_mm v2))"
        "\<not> r_gaddr (mm_store (vm_mm v2) j) + r_size (mm_store (vm_mm v2) j) \<le> g_end" using lg Inr jv by auto
    from mprotect_last [OF this ge hvprot_def, of prot] show ?thesis unfolding run Inr jv sum.case prod.case by blast
  qed
qed

section \<open>Sequences of memory calls\<close>

text \<open>
  What \<open>mmap\<close> asks of the host.  A call is sane when the host refuses it or it asks for some memory, less than
  2 GiB, at an address that does not wrap around.  It fits when moreover its address is aligned and its
  flags are known, and, if the host yields memory, the lookup finds the lowest region in the way and
  the hypervisor maps what the host yields.
\<close>

definition map_answer :: "host_mmap \<Rightarrow> 64 word \<Rightarrow> flags \<Rightarrow> flags \<Rightarrow> int \<Rightarrow> int \<Rightarrow> int + haddr" where
  "map_answer host_mmap len0 prot l_flags fd off =
    (let f = mmap_flags l_flags; anon = (f AND LINUX_MAP_ANON \<noteq> 0) in
     host_mmap (roundup len0 0x1000) prot (linux_to_darwin_mflags f) (if anon then - 1 else fd) (if anon then 0 else off))"

definition map_sane :: "host_mmap \<Rightarrow> gaddr \<Rightarrow> 64 word \<Rightarrow> flags \<Rightarrow> flags \<Rightarrow> int \<Rightarrow> int \<Rightarrow> vm \<Rightarrow> bool" where
  "map_sane host_mmap addr0 len0 prot l_flags fd off v \<longleftrightarrow>
    (case map_answer host_mmap len0 prot l_flags fd off of
       Inl errno \<Rightarrow> True
     | Inr ptr \<Rightarrow> len0 \<noteq> 0 \<and> unat len0 \<le> 2 ^ 31 - 4096 \<and> unat (mmap_target l_flags addr0 v) + unat len0 + 8192 < 2 ^ 64)"

definition map_fits :: "host_mmap \<Rightarrow> hv_map \<Rightarrow> gaddr \<Rightarrow> 64 word \<Rightarrow> flags \<Rightarrow> flags \<Rightarrow> int \<Rightarrow> int \<Rightarrow> vm \<Rightarrow> bool" where
  "map_fits host_mmap hv_vm_map addr0 len0 prot l_flags fd off v \<longleftrightarrow>
    map_sane host_mmap addr0 len0 prot l_flags fd off v \<and>
    is_page_aligned addr0 PAGE_4KB \<and> mmap_flags l_flags AND NOT mmap_known_flags = 0 \<and>
    (case map_answer host_mmap len0 prot l_flags fd off of
       Inl errno \<Rightarrow> True
     | Inr ptr \<Rightarrow>
         (let addr = mmap_target l_flags addr0 v; len = roundup len0 0x1000 in
          is_page_aligned addr PAGE_4KB \<and> addr \<noteq> 0 \<and> finds_lowest (vm_mm v) addr len \<and>
          is_page_aligned ptr PAGE_4KB \<and> hv_vm_map ptr addr len (linux_mprot_to_hv_mflag prot)))"

lemma do_mmap_refused:
  assumes "good base v" "map_answer host_mmap len0 d_prot l_flags fd off = Inl errno"
    and "do_mmap host_mmap hv_vm_map addr0 len0 d_prot l_prot l_flags fd off v = Inr (ret, v')"
  shows "good base v'"
proof -
  have "\<exists>t. v' = v\<lparr>vm_mm := (vm_mm v)\<lparr>current_mmap_top := t\<rparr>\<rparr>"
    using assms(2,3) unfolding do_mmap_def map_answer_def Let_def PAGE_SIZEOF_4KB mmap_flags_def alloc_region_def
    by (auto split: if_splits prod.splits intro: exI [of _ "current_mmap_top (vm_mm v)"])
  then show ?thesis using assms(1) by (auto simp: good_def mm_state_def in_step_def region_ept_def)
qed

lemma do_mmap_sane:
  assumes "good base v" "map_sane host_mmap addr0 len0 d_prot l_flags fd off v"
    and "do_mmap host_mmap hv_vm_map addr0 len0 d_prot l_prot l_flags fd off v = Inr (ret, v')"
  shows "good base v'"
proof (cases "map_answer host_mmap len0 d_prot l_flags fd off")
  case (Inl errno)
  then show ?thesis by (rule do_mmap_refused [OF assms(1) _ assms(3)])
next
  case (Inr ptr)
  then show ?thesis using assms(2) by (intro do_mmap_in_step [OF assms(1) _ _ _ assms(3)]) (simp_all add: map_sane_def)
qed

lemma do_mmap_returns:
  assumes good: "good base v" and fits: "map_fits host_mmap hv_vm_map addr0 len0 prot l_flags fd off v"
  shows "\<exists>ret v'. do_mmap host_mmap hv_vm_map addr0 len0 prot prot l_flags fd off v = Inr (ret, v')"
proof -
  define addr where "addr = mmap_target l_flags addr0 v"
  define len where "len = roundup len0 0x1000"
  define f where "f = mmap_flags l_flags"
  define fd' where "fd' = (if f AND LINUX_MAP_ANON \<noteq> 0 then - 1 else fd)"
  define off' where "off' = (if f AND LINUX_MAP_ANON \<noteq> 0 then 0 else off)"
  have ans: "map_answer host_mmap len0 prot l_flags fd off = host_mmap len prot (linux_to_darwin_mflags f) fd' off'"
    by (simp add: map_answer_def Let_def len_def f_def fd'_def off'_def)
  have c: "is_page_aligned addr0 PAGE_4KB" "f AND NOT mmap_known_flags = 0" using fits by (simp_all add: map_fits_def f_def)
  show ?thesis
  proof (cases "host_mmap len prot (linux_to_darwin_mflags f) fd' off'")
    case (Inl errno)
    then show ?thesis
      using c unfolding do_mmap_def Let_def aligned_mask PAGE_SIZEOF_4KB mmap_flags_def [symmetric]
        f_def [symmetric] len_def [symmetric] fd'_def [symmetric] off'_def [symmetric]
      by (auto split: prod.splits)
  next
    case (Inr ptr)
    then have d: "is_page_aligned addr PAGE_4KB" "addr \<noteq> 0" "finds_lowest (vm_mm v) addr len" "is_page_aligned ptr PAGE_4KB"
        "hv_vm_map ptr addr len (linux_mprot_to_hv_mflag prot)" "len0 \<noteq> 0" "unat len0 \<le> 2 ^ 31 - 4096"
        "unat addr + unat len0 + 8192 < 2 ^ 64"
      using fits unfolding map_fits_def map_sane_def Let_def ans addr_def len_def by simp_all
    have r: "is_page_aligned len PAGE_4KB" "unat len0 \<le> unat len" "unat len < unat len0 + 4096"
      using roundup_is_aligned [of len0] d(7) unfolding len_def by simp_all
    have "0 < unat len0" using d(6) by (simp add: unat_gt_0)
    then have len: "len \<noteq> 0" "unat addr + unat len < 2 ^ 64" "unat len \<le> 2 ^ 31" using r(2,3) d(7,8) by auto
    have "mm_state v" using good by (simp add: good_def)
    from do_mmap_ok [where host_mmap = host_mmap and hv_vm_map = hv_vm_map and d_prot = prot and l_prot = prot,
        OF this c(1) d(1) r(1) d(4) addr_def [symmetric] f_def [symmetric] len_def [symmetric]
        fd'_def off'_def d(2) len(1,3,2) c(2) d(3) Inr d(5)]
    show ?thesis by blast
  qed
qed

text \<open>\<open>brk\<close> to the current end asks for no memory, which the host refuses.\<close>

definition brk_if :: "(gaddr \<Rightarrow> 64 word \<Rightarrow> bool) \<Rightarrow> 64 word \<Rightarrow> vm \<Rightarrow> bool" where
  "brk_if map_ok brk0 v \<longleftrightarrow>
    (let brk = roundup brk0 0x1000; cur = current_brk (vm_mm v) in
     brk < start_brk (vm_mm v) \<or> brk < cur \<and> unat cur + 4096 < 2 ^ 64 \<or> cur \<le> brk \<and> map_ok cur (brk - cur))"

definition brk_sane :: "host_mmap \<Rightarrow> 64 word \<Rightarrow> vm \<Rightarrow> bool" where
  "brk_sane host_mmap brk0 v \<longleftrightarrow> brk_if (\<lambda>a n. map_sane host_mmap a n 3 0x32 (- 1) 0 v) brk0 v"

definition brk_fits :: "host_mmap \<Rightarrow> hv_map \<Rightarrow> 64 word \<Rightarrow> vm \<Rightarrow> bool" where
  "brk_fits host_mmap hv_vm_map brk0 v \<longleftrightarrow> brk_if (\<lambda>a n. map_fits host_mmap hv_vm_map a n 3 0x32 (- 1) 0 v) brk0 v"

lemma good_brk: "good base v \<Longrightarrow> good base (v\<lparr>vm_mm := (vm_mm v)\<lparr>current_brk := b\<rparr>\<rparr>)"
  by (simp add: good_def mm_state_def in_step_def region_ept_def)

lemma sys_brk_cases:
  fixes v brk0
  defines "brk \<equiv> roundup brk0 0x1000" and "cur \<equiv> current_brk (vm_mm v)"
  assumes good: "good base v" and ok: "brk_if map_ok brk0 v"
  obtains (kept) "sys_brk host_mmap hv_vm_map brk0 v = Inr (start_brk (vm_mm v), v)"
  | (less) ret v' where "sys_brk host_mmap hv_vm_map brk0 v = Inr (ret, v')" "good base v'"
  | (more) "map_ok cur (brk - cur)" "sys_brk host_mmap hv_vm_map brk0 v =
      bind_run (do_mmap host_mmap hv_vm_map cur (brk - cur) 3 3 0x32 (- 1) 0 v)
        (\<lambda>(_, v'). Inr (brk, v'\<lparr>vm_mm := (vm_mm v')\<lparr>current_brk := brk\<rparr>\<rparr>))"
proof -
  have e: "LINUX_PROT_READ OR LINUX_PROT_WRITE = 3" "LINUX_MAP_PRIVATE OR LINUX_MAP_FIXED OR LINUX_MAP_ANON = 0x32"
    by (simp_all add: mman_flags)
  note unf = sys_brk_def Let_def e PAGE_SIZEOF_4KB brk_def [symmetric] cur_def [symmetric]
  show thesis
  proof (cases "brk < start_brk (vm_mm v)")
    case True
    then show thesis by (intro kept) (simp add: unf)
  next
    case False
    then consider "brk < cur" "unat cur + 4096 < 2 ^ 64" | "cur \<le> brk" "map_ok cur (brk - cur)"
      using ok unfolding brk_if_def Let_def brk_def [symmetric] cur_def [symmetric] by blast
    then show thesis
    proof cases
      case 1
      then have "unat brk + unat (cur - brk) + 4096 < 2 ^ 64" "cur - brk \<noteq> 0"
        using unat_diff [of brk cur] by (auto simp: word_less_nat_alt)
      then obtain ret v' where "do_munmap brk (cur - brk) v = Inr (ret, v')" "good base v'"
        using do_munmap_good [OF good] by blast
      then show thesis using False 1(1) good_brk less unfolding unf by auto
    next
      case 2
      have "\<not> brk < cur" using 2(1) by simp
      then show thesis using False by (intro more 2(2)) (simp add: unf)
    qed
  qed
qed

lemma sys_brk_sane:
  assumes "good base v" "brk_sane host_mmap brk0 v" "sys_brk host_mmap hv_vm_map brk0 v = Inr (ret, v')"
  shows "good base v'"
proof (cases rule: sys_brk_cases [OF assms(1) assms(2) [unfolded brk_sane_def], where host_mmap = host_mmap and hv_vm_map = hv_vm_map])
  case more: 3
  obtain ret1 v1 where v1: "do_mmap host_mmap hv_vm_map (current_brk (vm_mm v))
      (roundup brk0 0x1000 - current_brk (vm_mm v)) 3 3 0x32 (- 1) 0 v = Inr (ret1, v1)"
      "v' = v1\<lparr>vm_mm := (vm_mm v1)\<lparr>current_brk := roundup brk0 0x1000\<rparr>\<rparr>"
    using assms(3) unfolding more(2) by (auto elim!: bind_InrE)
  show ?thesis unfolding v1(2) by (rule good_brk [OF do_mmap_sane [OF assms(1) more(1) v1(1)]])
qed (use assms in auto)

lemma sys_brk_returns:
  assumes "good base v" "brk_fits host_mmap hv_vm_map brk0 v"
  shows "\<exists>ret v'. sys_brk host_mmap hv_vm_map brk0 v = Inr (ret, v')"
proof (cases rule: sys_brk_cases [OF assms(1) assms(2) [unfolded brk_fits_def], where host_mmap = host_mmap and hv_vm_map = hv_vm_map])
  case more: 3
  then show ?thesis using do_mmap_returns [OF assms(1) more(1)] by auto
qed auto

datatype mem_op =
    Op_munmap gaddr "64 word"
  | Op_mmap host_mmap hv_map gaddr "64 word" flags flags int int
  | Op_brk host_mmap hv_map "64 word"
  | Op_mprotect gaddr "64 word" flags

fun mem_run :: "mem_op \<Rightarrow> vm \<Rightarrow> vm run" where
  "mem_run (Op_munmap g s) v = bind_run (sys_munmap g s v) (\<lambda>(_, v'). Inr v')"
| "mem_run (Op_mmap host_mmap hv_vm_map addr len prot flgs fd off) v =
    bind_run (sys_mmap host_mmap hv_vm_map addr len prot flgs fd off v) (\<lambda>(_, v'). Inr v')"
| "mem_run (Op_brk host_mmap hv_vm_map brk) v = bind_run (sys_brk host_mmap hv_vm_map brk v) (\<lambda>(_, v'). Inr v')"
| "mem_run (Op_mprotect addr len prot) v = bind_run (sys_mprotect addr len prot v) (\<lambda>(_, v'). Inr v')"

fun mem_sane :: "mem_op \<Rightarrow> vm \<Rightarrow> bool" where
  "mem_sane (Op_munmap g s) v \<longleftrightarrow> s \<noteq> 0 \<and> unat g + unat s + 4096 < 2 ^ 64"
| "mem_sane (Op_mmap host_mmap hv_vm_map addr len prot flgs fd off) v \<longleftrightarrow> map_sane host_mmap addr len prot flgs fd off v"
| "mem_sane (Op_brk host_mmap hv_vm_map brk) v \<longleftrightarrow> brk_sane host_mmap brk v"
| "mem_sane (Op_mprotect addr len prot) v \<longleftrightarrow> unat addr + unat len + 4096 < 2 ^ 64"

fun mem_fits :: "mem_op \<Rightarrow> vm \<Rightarrow> bool" where
  "mem_fits (Op_mmap host_mmap hv_vm_map addr len prot flgs fd off) v \<longleftrightarrow> map_fits host_mmap hv_vm_map addr len prot flgs fd off v"
| "mem_fits (Op_brk host_mmap hv_vm_map brk) v \<longleftrightarrow> brk_fits host_mmap hv_vm_map brk v"
| "mem_fits m v \<longleftrightarrow> mem_sane m v"

fun mem_runs :: "mem_op list \<Rightarrow> vm \<Rightarrow> vm run" where
  "mem_runs [] v = Inr v"
| "mem_runs (m # ms) v = bind_run (mem_run m v) (mem_runs ms)"

text \<open>Every call of the sequence is such in the state that it meets.\<close>

fun all_calls :: "(mem_op \<Rightarrow> vm \<Rightarrow> bool) \<Rightarrow> mem_op list \<Rightarrow> vm \<Rightarrow> bool" where
  "all_calls P [] v \<longleftrightarrow> True"
| "all_calls P (m # ms) v \<longleftrightarrow> P m v \<and> (case mem_run m v of Inl _ \<Rightarrow> True | Inr v' \<Rightarrow> all_calls P ms v')"

lemma mem_run_sane:
  assumes "good base v" "mem_sane m v" "mem_run m v = Inr v'"
  shows "good base v'"
proof (cases m)
  case (Op_munmap g s)
  then show ?thesis using do_munmap_good [OF assms(1), of s g] assms(2,3) by (auto simp: sys_munmap_def)
next
  case (Op_mmap host_mmap hv_vm_map addr len prot flgs fd off)
  then show ?thesis using do_mmap_sane [OF assms(1)] assms(2,3) by (auto simp: sys_mmap_def elim!: bind_InrE)
next
  case (Op_brk host_mmap hv_vm_map brk)
  then show ?thesis using sys_brk_sane [OF assms(1)] assms(2,3) by (auto elim!: bind_InrE)
next
  case (Op_mprotect addr len prot)
  then show ?thesis using sys_mprotect_good [OF assms(1), of addr len prot] assms(2,3) by auto
qed

lemma mem_run_returns:
  assumes "good base v" "mem_fits m v"
  shows "\<exists>v'. mem_run m v = Inr v'"
proof (cases m)
  case (Op_munmap g s)
  then show ?thesis using do_munmap_good [OF assms(1), of s g] assms(2) by (auto simp: sys_munmap_def)
next
  case (Op_mmap host_mmap hv_vm_map addr len prot flgs fd off)
  then have "map_fits host_mmap hv_vm_map addr len prot flgs fd off v" using assms(2) by simp
  from do_mmap_returns [OF assms(1) this] show ?thesis using Op_mmap by (auto simp: sys_mmap_def)
next
  case (Op_brk host_mmap hv_vm_map brk)
  then have "brk_fits host_mmap hv_vm_map brk v" using assms(2) by simp
  from sys_brk_returns [OF assms(1) this] show ?thesis using Op_brk by auto
next
  case (Op_mprotect addr len prot)
  then show ?thesis using sys_mprotect_good [OF assms(1), of addr len prot] assms(2) by auto
qed

lemma mem_runs_sane:
  "good base v \<Longrightarrow> all_calls mem_sane ms v \<Longrightarrow> mem_runs ms v = Inr v' \<Longrightarrow> good base v'"
proof (induction ms arbitrary: v)
  case (Cons m ms)
  then obtain v1 where "mem_run m v = Inr v1" "mem_runs ms v1 = Inr v'" by (auto elim!: bind_InrE)
  then show ?case using Cons mem_run_sane [of base v m v1] by simp
qed simp

lemma mem_runs_return:
  "good base v \<Longrightarrow> all_calls mem_sane ms v \<Longrightarrow> all_calls mem_fits ms v \<Longrightarrow> \<exists>v'. mem_runs ms v = Inr v'"
proof (induction ms arbitrary: v)
  case (Cons m ms)
  then obtain v1 where "mem_run m v = Inr v1" using mem_run_returns [of base v m] by auto
  then show ?case using Cons mem_run_sane [of base v m v1] by simp
qed simp

text \<open>
  C3: The page table of the guest and the region index stay in step.  From a state in which they agree, take a
  sequence of \<open>munmap\<close>, \<open>mmap\<close>, \<open>brk\<close> and \<open>mprotect\<close> whose ranges are not empty and do not wrap around
  and whose new mappings are below 2 GiB.  When it returns, the index is well formed and the hypervisor has
  exactly what it says: each address of the guest that is not the kernel's own has the host address
  and the protection of its region, and an address without a region is not mapped.  So the memory of the
  host that \<open>munmap\<close> gives back is out of reach for the guest, also where the lookup does not find the
  lowest region and \<open>munmap\<close> leaves pages behind.  The sequence returns when each of its new mappings has an
  aligned address and known flags, the lookup finds the lowest region in its way, and the hypervisor grants
  it; otherwise a mapping can fail an assertion or panic.
\<close>

theorem page_table_in_step:
  assumes "mm_state v" "in_step base v" "all_calls mem_sane ms v"
  shows "(\<forall>v'. mem_runs ms v = Inr v' \<longrightarrow> mm_state v' \<and> in_step base v') \<and>
    (all_calls mem_fits ms v \<longrightarrow> (\<exists>v'. mem_runs ms v = Inr v'))"
  using mem_runs_sane [of base v ms] mem_runs_return [of base v ms] assms by (auto simp: good_def)

text \<open>A process with nothing mapped, and three calls on overlapping ranges.\<close>

definition fresh_vm :: vm where
  "fresh_vm = \<lparr>vm_mm = \<lparr>mm_region_tree = Null, mm_regions = [], mm_store = ex_store, mm_fresh = 0, start_brk = 0x30000,
     current_brk = 0x30000, current_mmap_top = 0xc0000000\<rparr>, vm_calls = []\<rparr>"

definition fresh_ops :: "mem_op list" where
  "fresh_ops = [Op_mmap (\<lambda>_ _ _ _ _. Inr 0x500000) (\<lambda>_ _ _ _. True) 0x10000 0x4000 3 0x32 (- 1) 0,
     Op_mprotect 0x10000 0x1000 1, Op_munmap 0x11000 0x1000]"

lemma fresh_vm_good: "mm_state fresh_vm" "in_step (\<lambda>_. None) fresh_vm"
  by (simp_all add: fresh_vm_def region_eval in_step_def shadow_def region_ept_def view_def find_region_def)

lemma first_fits:
  "mem_sane (Op_mmap (\<lambda>_ _ _ _ _. Inr 0x500000) (\<lambda>_ _ _ _. True) 0x10000 0x4000 3 0x32 (- 1) 0) fresh_vm"
  "mem_fits (Op_mmap (\<lambda>_ _ _ _ _. Inr 0x500000) (\<lambda>_ _ _ _. True) 0x10000 0x4000 3 0x32 (- 1) 0) fresh_vm"
  by (simp_all add: map_sane_def map_fits_def map_answer_def fresh_vm_def region_eval mmap_target_def mmap_flags_def mmap_ignored_flags_def
      mmap_known_flags_def mman_flags)

lemma fresh_ops_fit: "all_calls mem_sane fresh_ops fresh_vm" "all_calls mem_fits fresh_ops fresh_vm"
  using first_fits unfolding fresh_ops_def
  by (auto simp: unat_gt_0 split: sum.split)

theorem page_table_in_step_witness:
  "\<exists>v'. mem_runs fresh_ops fresh_vm = Inr v' \<and> mm_state v' \<and> in_step (\<lambda>_. None) v'"
  using page_table_in_step [OF fresh_vm_good fresh_ops_fit(1)] fresh_ops_fit(2) by blast

end
