(* ===== verification/SysTime.thy ===== *)
theory SysTime
  imports FileIo
begin

text \<open>
  Time, \<open>src/sys/time.c\<close>, the system, \<open>src/sys/sys.c\<close>, and the calls between processes of
  \<open>src/ipc/sem.c\<close> and \<open>src/mm/shm.c\<close> that only reach the host, with \<open>src/proc/ptrace.c\<close>, on the state of
  the descriptors.  The structures that the host fills are read at Darwin's offsets from what it wrote.
\<close>

section \<open>Structures of the host\<close>

definition host_bytes :: "host \<Rightarrow> sys_call \<Rightarrow> nat \<Rightarrow> byte list" where
  "host_bytes h c n = filled h (out_bytes h (Sys c)) n"

definition host_word :: "host \<Rightarrow> sys_call \<Rightarrow> nat \<Rightarrow> 64 word" where
  "host_word h c i = le_word (get_field (8 * i) 8 (host_bytes h c (8 * i + 8)))"

text \<open>A \<open>struct timeval\<close> of Darwin has 16 bytes, of which the last four are not used.\<close>

definition host_timeval :: "host \<Rightarrow> sys_call \<Rightarrow> nat \<Rightarrow> timeval" where
  "host_timeval h c off =
    (let bs = host_bytes h c (off + 16) in (le_word (get_field off 8 bs), le_word (get_field (off + 8) 4 bs)))"

definition l_timeval_bytes :: "timeval \<Rightarrow> byte list" where
  "l_timeval_bytes t = le_bytes 8 (fst t) @ le_bytes 8 (scast (snd t) :: 64 word)"

definition decode_l_timeval :: "nat \<Rightarrow> byte list \<Rightarrow> timeval" where
  "decode_l_timeval off bs = (le_word (get_field off 8 bs), ucast (le_word (get_field (off + 8) 8 bs) :: 64 word))"

definition decode_timespec :: "nat \<Rightarrow> byte list \<Rightarrow> timespec" where
  "decode_timespec off bs = \<lparr>tv_sec = le_word (get_field off 8 bs), tv_nsec = le_word (get_field (off + 8) 8 bs)\<rparr>"

section \<open>The clock\<close>

definition sys_time :: "host \<Rightarrow> gaddr \<Rightarrow> int act" where
  "sys_time h tloc_ptr =
    act_bind (wide_call h (Sys Time)) (\<lambda>r.
      if r < 0 then act_ret r
      else if tloc_ptr \<noteq> 0 then store_result tloc_ptr (le_bytes 8 (host_word h Time 0)) r
      else act_ret r)"

text \<open>The time zone that the host reports is a pair of numbers.\<close>

definition sys_gettimeofday :: "host \<Rightarrow> gaddr \<Rightarrow> gaddr \<Rightarrow> int act" where
  "sys_gettimeofday h tp_ptr tzp_ptr =
    act_bind (raw_call h (Sys Gettimeofday)) (\<lambda>_.
    act_bind (if tp_ptr \<noteq> 0 then store tp_ptr (l_timeval_bytes (host_timeval h Gettimeofday 0)) else act_ret True) (\<lambda>fine.
      if \<not> fine then act_ret (- LINUX_EINVAL)
      else
        let (west, dst) = out_fds h (Sys Gettimeofday) in
        act_bind (if tzp_ptr \<noteq> 0
                  then store tzp_ptr (le_bytes 4 (word_of_int west :: 32 word) @ le_bytes 4 (word_of_int dst :: 32 word))
                  else act_ret True) (\<lambda>fine.
          act_ret (if fine then 0 else - LINUX_EINVAL))))"

definition sys_nanosleep :: "host \<Rightarrow> gaddr \<Rightarrow> gaddr \<Rightarrow> int act" where
  "sys_nanosleep h rqtp_ptr rmtp_ptr =
    act_bind (fetch rqtp_ptr 16) (\<lambda>rqtp. case rqtp of
      None \<Rightarrow> act_ret (- LINUX_EFAULT)
    | Some bs \<Rightarrow>
        let rq = decode_timespec 0 bs; c = Nanosleep (tv_sec rq) (tv_nsec rq) in
        act_bind (wrap_call h (Sys c)) (\<lambda>r.
          if r < 0 then act_ret r
          else if rmtp_ptr \<noteq> 0 then store_result rmtp_ptr (host_bytes h c 16) r
          else act_ret r))"

definition linux_to_darwin_clockid :: "32 word \<Rightarrow> int run" where
  "linux_to_darwin_clockid clockid =
    (if clockid = 0 \<or> clockid = 4 then Inr 0
     else if clockid = 1 \<or> clockid = 6 then Inr 6
     else if clockid = 2 then Inr 12
     else if clockid = 3 then Inr 16
     else Inl Panicked)"

definition sys_clock_gettime :: "host \<Rightarrow> 32 word \<Rightarrow> gaddr \<Rightarrow> int act" where
  "sys_clock_gettime h clockid spec_ptr =
    act_bind (look (\<lambda>_. linux_to_darwin_clockid clockid)) (\<lambda>clk.
    act_bind (wrap_call h (Sys (Clock_gettime clk))) (\<lambda>r.
      if r < 0 then act_ret r
      else if spec_ptr \<noteq> 0 then store_result spec_ptr (host_bytes h (Clock_gettime clk) 16) 0
      else act_ret 0))"

definition sys_clock_getres :: "host \<Rightarrow> 32 word \<Rightarrow> gaddr \<Rightarrow> int act" where
  "sys_clock_getres h clockid res_ptr =
    act_bind (look (\<lambda>_. linux_to_darwin_clockid clockid)) (\<lambda>clk.
    act_bind (wrap_call h (Sys (Clock_getres clk))) (\<lambda>r.
      if r < 0 then act_ret r
      else if res_ptr \<noteq> 0 then store_result res_ptr (host_bytes h (Clock_getres clk) 16) 0
      else act_ret 0))"

definition sys_fdatasync :: "host \<Rightarrow> int \<Rightarrow> int act" where
  "sys_fdatasync h fildes = wrap_call h (Io (Fsync fildes))"

section \<open>Timers\<close>

definition darwin_to_linux_itimerval :: "timeval \<Rightarrow> timeval \<Rightarrow> byte list" where
  "darwin_to_linux_itimerval interval value = l_timeval_bytes interval @ l_timeval_bytes value"

definition linux_to_darwin_itimerval :: "byte list \<Rightarrow> timeval \<times> timeval" where
  "linux_to_darwin_itimerval bs = (decode_l_timeval 0 bs, decode_l_timeval 16 bs)"

definition sys_getitimer :: "host \<Rightarrow> int \<Rightarrow> gaddr \<Rightarrow> int act" where
  "sys_getitimer h which ret_ptr =
    act_bind (wrap_call h (Sys (Getitimer which))) (\<lambda>r.
      if r < 0 then act_ret r
      else store_result ret_ptr
        (darwin_to_linux_itimerval (host_timeval h (Getitimer which) 0) (host_timeval h (Getitimer which) 16)) r)"

definition sys_setitimer :: "host \<Rightarrow> int \<Rightarrow> gaddr \<Rightarrow> gaddr \<Rightarrow> int act" where
  "sys_setitimer h which new_ptr old_ptr =
    (if new_ptr = 0 then sys_getitimer h which old_ptr
     else act_bind (fetch new_ptr 32) (\<lambda>l_newvalue. case l_newvalue of
       None \<Rightarrow> act_ret (- LINUX_EFAULT)
     | Some bs \<Rightarrow>
         let (interval, value) = linux_to_darwin_itimerval bs; c = Setitimer which interval value in
         act_bind (wrap_call h (Sys c)) (\<lambda>r.
           if r < 0 then act_ret r
           else if old_ptr \<noteq> 0
           then store_result old_ptr (darwin_to_linux_itimerval (host_timeval h c 0) (host_timeval h c 16)) r
           else act_ret r)))"

section \<open>The times of a file\<close>

abbreviation (input) LINUX_UTIME_NOW :: "64 word" where "LINUX_UTIME_NOW \<equiv> 0x3FFFFFFF"
abbreviation (input) LINUX_UTIME_OMIT :: "64 word" where "LINUX_UTIME_OMIT \<equiv> 0x3FFFFFFE"

text \<open>A quotient of C is rounded towards zero; \<open>tv_usec\<close> keeps 32 bits of it.\<close>

definition usec_of :: "64 word \<Rightarrow> 32 word" where
  "usec_of nsec = word_of_int (if sint nsec < 0 then - (- sint nsec div 1000) else sint nsec div 1000)"

definition timeval_of :: "timespec \<Rightarrow> timeval" where
  "timeval_of t = (tv_sec t, usec_of (tv_nsec t))"

text \<open>The two times for \<open>futimes\<close>: \<open>None\<close> when the file's own times were asked for and \<open>fstat\<close> failed.\<close>

definition file_times :: "host \<Rightarrow> int \<Rightarrow> timespec \<Rightarrow> timespec \<Rightarrow> (timeval \<times> timeval) option act" where
  "file_times h fd at mt =
    act_bind (if tv_nsec at = LINUX_UTIME_NOW \<or> tv_nsec mt = LINUX_UTIME_NOW
              then act_bind (raw_call h (Sys Gettimeofday)) (\<lambda>_. act_ret (host_timeval h Gettimeofday 0)) else act_ret (0, 0)) (\<lambda>t.
    let at0 = (if tv_nsec at = LINUX_UTIME_NOW then t else timeval_of at);
        mt0 = (if tv_nsec mt = LINUX_UTIME_NOW then t else timeval_of mt) in
    if tv_nsec at = LINUX_UTIME_OMIT \<or> tv_nsec mt = LINUX_UTIME_OMIT
    then act_bind (raw_call h (Io (Fstat fd))) (\<lambda>r.
      if r < 0 then act_ret None
      else
        let st = out_stat h (Io (Fstat fd)) in
        act_ret (Some (if tv_nsec at = LINUX_UTIME_OMIT then timeval_of (d_atimespec st) else at0,
                       if tv_nsec mt = LINUX_UTIME_OMIT then timeval_of (d_mtimespec st) else mt0)))
    else act_ret (Some (at0, mt0)))"

definition set_times :: "host \<Rightarrow> int \<Rightarrow> (timespec \<times> timespec) option \<Rightarrow> int act" where
  "set_times h fd l_times = (case l_times of
     None \<Rightarrow> wrap_call h (Sys (Futimes fd None))
   | Some (at, mt) \<Rightarrow> act_bind (file_times h fd at mt) (\<lambda>ts. case ts of
       None \<Rightarrow> act_ret (- LINUX_EPERM)
     | Some ts \<Rightarrow> wrap_call h (Sys (Futimes fd (Some ts)))))"

definition do_utimensat :: "host \<Rightarrow> int \<Rightarrow> path option \<Rightarrow> (timespec \<times> timespec) option \<Rightarrow> flags \<Rightarrow> int act" where
  "do_utimensat h dirfd name l_times flgs =
    act_bind (case name of
        None \<Rightarrow> act_ret dirfd
      | Some n \<Rightarrow> vkern_openat h dirfd n (if flgs AND LINUX_AT_SYMLINK_NOFOLLOW \<noteq> 0 then LINUX_O_NOFOLLOW OR LINUX_O_PATH else 0) 0) (\<lambda>fd.
      if name \<noteq> None \<and> fd < 0 then act_ret fd
      else act_bind (set_times h fd l_times) (\<lambda>r.
        act_bind (if fd \<noteq> dirfd then vkern_close h fd else act_ret 0) (\<lambda>_. act_ret r)))"

definition sys_utimensat :: "host \<Rightarrow> int \<Rightarrow> gaddr \<Rightarrow> gaddr \<Rightarrow> flags \<Rightarrow> int act" where
  "sys_utimensat h dirfd filename times_ptr flgs =
    (let go = (\<lambda>name.
       if times_ptr = 0 then do_utimensat h dirfd name None flgs
       else act_bind (fetch times_ptr 32) (\<lambda>l_times. case l_times of
         None \<Rightarrow> act_ret (- LINUX_EFAULT)
       | Some bs \<Rightarrow> do_utimensat h dirfd name (Some (decode_timespec 0 bs, decode_timespec 16 bs)) flgs)) in
     if filename = 0 then go None else checked_path_arg h filename (\<lambda>name. go (Some name)))"

definition sys_utimes :: "host \<Rightarrow> gaddr \<Rightarrow> gaddr \<Rightarrow> int act" where
  "sys_utimes h filename times_ptr = sys_utimensat h (sint LINUX_AT_FDCWD) filename times_ptr 0"

definition sys_utime :: "host \<Rightarrow> gaddr \<Rightarrow> gaddr \<Rightarrow> int act" where
  "sys_utime h path times_ptr =
    checked_path_arg h path (\<lambda>name.
      if times_ptr = 0 then do_utimensat h (sint LINUX_AT_FDCWD) (Some name) None 0
      else act_bind (fetch times_ptr 16) (\<lambda>buf. case buf of
        None \<Rightarrow> act_ret (- LINUX_EFAULT)
      | Some bs \<Rightarrow>
          do_utimensat h (sint LINUX_AT_FDCWD) (Some name)
            (Some (\<lparr>tv_sec = le_word (get_field 0 8 bs), tv_nsec = 0\<rparr>, \<lparr>tv_sec = le_word (get_field 8 8 bs), tv_nsec = 0\<rparr>)) 0))"

section \<open>The system\<close>

text \<open>
  \<open>struct l_sysinfo\<close> has 112 bytes.  What \<open>getloadavg\<close> wrote is taken in units of
  \<open>1 / LINUX_SYSINFO_LOADS_SCALE\<close>, cut to a whole number.
\<close>

definition sysinfo_bytes :: "host \<Rightarrow> byte list" where
  "sysinfo_bytes h =
    (let boottime = Sysctlbyname ''kern.boottime''; memsize = Sysctlbyname ''hw.memsize'';
         freepages = Sysctlbyname ''vm.page_free_count''; swapinfo = Sysctlbyname ''vm.swapusage'';
         swap = (\<lambda>i. le_word (get_field (8 * i) 8 (take 32 (out_bytes h (Sys swapinfo) @ replicate 32 0))) :: 64 word) in
     put_fields
      [(0, le_bytes 8 (host_word h boottime 0)),
       (8, le_bytes 8 (host_word h Getloadavg 0)), (16, le_bytes 8 (host_word h Getloadavg 1)), (24, le_bytes 8 (host_word h Getloadavg 2)),
       (32, le_bytes 8 (host_word h memsize 0)), (40, le_bytes 8 (host_word h freepages 0 * 0x1000)),
       (48, le_bytes 8 (0 :: 64 word)), (56, le_bytes 8 (0 :: 64 word)),
       (64, le_bytes 8 (swap 0)), (72, le_bytes 8 (if swap 3 = 0 then swap 2 else swap 1)),
       (80, le_bytes 2 (100 :: 16 word)), (88, le_bytes 8 (0 :: 64 word)), (96, le_bytes 8 (0 :: 64 word)),
       (104, le_bytes 4 (1 :: 32 word))] (uninit h 112))"

definition must_call :: "host \<Rightarrow> sys_call \<Rightarrow> crash \<Rightarrow> unit act" where
  "must_call h c e = act_bind (raw_call h (Sys c)) (\<lambda>r. if r < 0 then crash_with e else act_ret ())"

definition sys_sysinfo :: "host \<Rightarrow> gaddr \<Rightarrow> int act" where
  "sys_sysinfo h info_ptr =
    act_bind (must_call h (Sysctlbyname ''kern.boottime'') Exited) (\<lambda>_.
    act_bind (must_call h Getloadavg Panicked) (\<lambda>_.
    act_bind (must_call h (Sysctlbyname ''hw.memsize'') Exited) (\<lambda>_.
    act_bind (must_call h (Sysctlbyname ''vm.page_free_count'') Exited) (\<lambda>_.
    act_bind (must_call h (Sysctlbyname ''vm.swapusage'') Exited) (\<lambda>_.
    store_result info_ptr (sysinfo_bytes h) 0)))))"

abbreviation (input) GRND_NONBLOCK :: flags where "GRND_NONBLOCK \<equiv> 1"
abbreviation (input) GRND_RANDOM :: flags where "GRND_RANDOM \<equiv> 2"
abbreviation (input) O_NONBLOCK :: flags where "O_NONBLOCK \<equiv> 4"

definition sys_getrandom :: "host \<Rightarrow> gaddr \<Rightarrow> nat \<Rightarrow> flags \<Rightarrow> int act" where
  "sys_getrandom h buf_ptr count flgs =
    (if flgs AND NOT (GRND_RANDOM OR GRND_NONBLOCK) \<noteq> 0 then act_ret (- LINUX_EINVAL)
     else
       let c = Open_device (if flgs AND GRND_RANDOM \<noteq> 0 then ''/dev/random'' else ''/dev/urandom'')
                 (if flgs AND GRND_NONBLOCK \<noteq> 0 then O_NONBLOCK else 0) in
       act_bind (raw_call h (Sys c)) (\<lambda>fd.
         if fd < 0 then act_ret (- darwin_to_linux_errno (snd (answer h (Sys c))))
         else act_bind (wide_call h (Sys (Read_device fd count))) (\<lambda>r.
           if r < 0 then act_ret r
           else store_result buf_ptr (host_bytes h (Read_device fd count) count) r)))"

section \<open>Semaphores, shared memory and tracing\<close>

abbreviation (input) LINUX_IPC_CREAT :: flags where "LINUX_IPC_CREAT \<equiv> 0x200"
abbreviation (input) LINUX_IPC_EXCL :: flags where "LINUX_IPC_EXCL \<equiv> 0x400"
abbreviation (input) LINUX_IPC_NOWAIT :: flags where "LINUX_IPC_NOWAIT \<equiv> 0x800"
abbreviation (input) IPC_CREAT :: flags where "IPC_CREAT \<equiv> 0x200"
abbreviation (input) IPC_EXCL :: flags where "IPC_EXCL \<equiv> 0x400"
abbreviation (input) IPC_NOWAIT :: flags where "IPC_NOWAIT \<equiv> 0x800"

definition linux_to_darwin_semflg :: "flags \<Rightarrow> flags run" where
  "linux_to_darwin_semflg l_semflg =
    (if l_semflg AND NOT (LINUX_IPC_CREAT OR LINUX_IPC_EXCL OR LINUX_IPC_NOWAIT) \<noteq> 0 then Inl Assert_failed
     else Inr (flag_if l_semflg LINUX_IPC_NOWAIT IPC_NOWAIT
                (flag_if l_semflg LINUX_IPC_EXCL IPC_EXCL (flag_if l_semflg LINUX_IPC_CREAT IPC_CREAT 0))))"

definition sys_semget :: "host \<Rightarrow> int \<Rightarrow> int \<Rightarrow> flags \<Rightarrow> int act" where
  "sys_semget h key nsems semflg =
    act_bind (look (\<lambda>_. linux_to_darwin_semflg semflg)) (\<lambda>flg. wrap_call h (Sys (Semget key nsems flg)))"

text \<open>
  The operations are copied over the pointer \<open>l_tsops\<close> and not to where it points: once a byte is copied,
  whatever follows reads or frees through an address that the guest chose.
\<close>

definition sys_semop :: "host \<Rightarrow> int \<Rightarrow> gaddr \<Rightarrow> nat \<Rightarrow> int act" where
  "sys_semop h semid tsops_ptr nsops =
    (if nsops = 0 then wrap_call h (Sys (Semop semid []))
     else act_bind (fetch tsops_ptr 1) (\<lambda>b. case b of
       None \<Rightarrow> act_ret (- LINUX_EFAULT)
     | Some _ \<Rightarrow> crash_with Out_of_bounds))"

definition sys_semctl :: "int act" where
  "sys_semctl = act_ret (- LINUX_ENOSYS)"

definition sys_shmget :: "host \<Rightarrow> int \<Rightarrow> 64 word \<Rightarrow> flags \<Rightarrow> int act" where
  "sys_shmget h l_key sz l_shmflg =
    wrap_call h (Sys (Shmget l_key sz (flag_if l_shmflg LINUX_IPC_CREAT IPC_CREAT (flag_if l_shmflg LINUX_IPC_EXCL IPC_EXCL 0))))"

definition sys_shmctl :: "host \<Rightarrow> int \<Rightarrow> int \<Rightarrow> int act" where
  "sys_shmctl h shmid cmd = (if cmd = 0 then wrap_call h (Sys (Shmctl_rmid shmid)) else act_ret (- LINUX_ENOSYS))"

definition sys_ptrace :: "int act" where
  "sys_ptrace = act_ret (- LINUX_ENOSYS)"

end
