(* ===== verification/SysTimeProps.thy ===== *)
theory SysTimeProps
  imports SysTime FileProps
begin

text \<open>
  Properties of the calls on time, the system and between processes: which times \<open>utimensat\<close> sets and
  that it leaves no descriptor behind, and where a guest reaches past its own.
\<close>

section \<open>The times of a file\<close>

text \<open>A time that a caller asks for, with the current one and the file's own.\<close>

definition asked :: "timeval \<Rightarrow> timespec \<Rightarrow> timespec \<Rightarrow> timeval" where
  "asked now own t =
    (if tv_nsec t = LINUX_UTIME_NOW then now else if tv_nsec t = LINUX_UTIME_OMIT then timeval_of own else timeval_of t)"

definition time_queries :: "int \<Rightarrow> timespec list \<Rightarrow> event list" where
  "time_queries fd ts =
    (if list_ex (\<lambda>t. tv_nsec t = LINUX_UTIME_NOW) ts then [Call (Sys Gettimeofday)] else []) @
    (if list_ex (\<lambda>t. tv_nsec t = LINUX_UTIME_OMIT) ts then [Call (Io (Fstat fd))] else [])"

text \<open>
  Where the host knows the file, \<open>futimes\<close> is called once, with the current time for \<open>UTIME_NOW\<close>, the
  file's own for \<open>UTIME_OMIT\<close> and the given time cut to microseconds otherwise, for each of the two times by
  itself; nothing else changes.
\<close>

theorem set_times_spec:
  fixes h fd at mt
  assumes "0 \<le> fst (answer h (Io (Fstat fd)))"
  defines "c \<equiv> Sys (Futimes fd (Some (asked (host_timeval h Gettimeofday 0) (d_atimespec (out_stat h (Io (Fstat fd)))) at,
      asked (host_timeval h Gettimeofday 0) (d_mtimespec (out_stat h (Io (Fstat fd)))) mt)))"
  shows "set_times h fd (Some (at, mt)) s =
    Inr (syswrap (fst (answer h c)) (snd (answer h c)), s\<lparr>k_trace := k_trace s @ time_queries fd [at, mt] @ [Call c]\<rparr>)"
  using assms(1) by (simp add: set_times_def file_times_def c_def asked_def time_queries_def Let_def)

theorem set_times_spec_witness:
  "\<exists>s'. set_times ex_host 7 (Some (\<lparr>tv_sec = 5, tv_nsec = 2999\<rparr>, \<lparr>tv_sec = 0, tv_nsec = LINUX_UTIME_NOW\<rparr>)) ex_kern =
      Inr (fst (answer ex_host (Sys (Futimes 7 (Some ((5, 2), host_timeval ex_host Gettimeofday 0))))), s') \<and>
    k_trace s' = [Call (Sys Gettimeofday), Call (Sys (Futimes 7 (Some ((5, 2), host_timeval ex_host Gettimeofday 0))))]"
proof -
  have "usec_of 2999 = 2" by code_simp
  then show ?thesis
    using set_times_spec [of ex_host 7 "\<lparr>tv_sec = 5, tv_nsec = 2999\<rparr>" "\<lparr>tv_sec = 0, tv_nsec = LINUX_UTIME_NOW\<rparr>" ex_kern]
    by (simp add: asked_def time_queries_def timeval_of_def ex_host_def ex_kern_def syswrap_def)
qed

lemma set_times_files: "set_times h fd l_times s = Inr (r, s') \<Longrightarrow> k_files s' = k_files s"
  by (auto simp: set_times_def file_times_def Let_def split: option.splits if_splits)

text \<open>Opening for the kernel takes a free descriptor of its table.\<close>

lemma vkern_openat_files:
  assumes ok: "files_ok (k_files s)" and run: "vkern_openat h dirfd name flgs mode s = Inr (fd, s')"
  shows "fd < 0 \<and> k_files s' = k_files s \<or>
    (\<exists>t c. k_files s' = (k_files s)\<lparr>fi_vkern := t\<rparr> \<and> table_ok t \<and> ft_start t = ft_start (fi_vkern (k_files s)) \<and>
      in_table (fi_vkern (k_files s)) fd \<and> fd_view (fi_vkern (k_files s)) fd = None \<and>
      fd_view t = (fd_view (fi_vkern (k_files s)))(fd := Some c))"
proof -
  obtain fd0 s1 where o: "do_openat h dirfd name flgs mode (s\<lparr>k_trace := k_trace s @ [Wrlock]\<rparr>) = Inr (fd0, s1)"
    using run by (cases "do_openat h dirfd name flgs mode (s\<lparr>k_trace := k_trace s @ [Wrlock]\<rparr>)") (auto simp: vkern_openat_def)
  have f: "k_files s1 = k_files s" using confinedD [OF confined_do_openat o] by simp
  show ?thesis
  proof (cases "fd0 < 0")
    case True
    then show ?thesis using run o f by (auto simp: vkern_openat_def)
  next
    case False
    let ?t = "fi_vkern (k_files s)"
    have tok: "table_ok ?t" using ok by (simp add: files_ok_def)
    obtain r where r: "find_emptyfd ?t = Inr r" "r = - 1 \<or> in_table ?t r \<and> fd_view ?t r = None"
      using find_emptyfd_ok [OF tok] by blast
    have "r \<noteq> - 1" using run o f r(1) False by (auto simp: vkern_openat_def vkern_dup_fd_def)
    then have free: "in_table ?t r" "fd_view ?t r = None" using r(2) by auto
    obtain t where t: "mark_fd ?t r (flgs AND LINUX_O_CLOEXEC \<noteq> 0) = Inr t" "table_ok t" "ft_start t = ft_start ?t"
        "fd_view t = (fd_view ?t)(r := Some (flgs AND LINUX_O_CLOEXEC \<noteq> 0))"
      using mark_fd_ok [OF tok free(1)] by blast
    have "fd = r" "k_files s' = (k_files s)\<lparr>fi_vkern := t\<rparr>"
      using run o f r(1) \<open>r \<noteq> - 1\<close> t(1) False by (auto simp: vkern_openat_def vkern_dup_fd_def)
    then show ?thesis using t free by blast
  qed
qed

text \<open>
  C34: \<open>utimensat\<close> of a name leaves the tables of descriptors as they were: the descriptor that the kernel opens
  for it is closed again on every path, also where the times cannot be read.
\<close>

theorem utimensat_no_leak:
  assumes ok: "files_ok (k_files s)" and st: "0 \<le> ft_start (fi_vkern (k_files s))" "dirfd < ft_start (fi_vkern (k_files s))"
    and run: "do_utimensat h dirfd (Some name) l_times flgs s = Inr (r, s')"
  shows "files_ok (k_files s') \<and> fi_fdtable (k_files s') = fi_fdtable (k_files s) \<and>
    fd_view (fi_vkern (k_files s')) = fd_view (fi_vkern (k_files s))"
proof -
  let ?lf = "if flgs AND LINUX_AT_SYMLINK_NOFOLLOW \<noteq> 0 then LINUX_O_NOFOLLOW OR LINUX_O_PATH else 0"
  obtain fd s1 where one: "vkern_openat h dirfd name ?lf 0 s = Inr (fd, s1)"
    using run by (cases "vkern_openat h dirfd name ?lf 0 s") (auto simp: do_utimensat_def)
  from vkern_openat_files [OF ok one] show ?thesis
  proof (elim disjE conjE exE)
    assume "fd < 0" "k_files s1 = k_files s"
    then show ?thesis using run one ok by (auto simp: do_utimensat_def)
  next
    fix t c
    assume t: "k_files s1 = (k_files s)\<lparr>fi_vkern := t\<rparr>" "table_ok t" "ft_start t = ft_start (fi_vkern (k_files s))"
      "in_table (fi_vkern (k_files s)) fd" "fd_view (fi_vkern (k_files s)) fd = None"
      "fd_view t = (fd_view (fi_vkern (k_files s)))(fd := Some c)"
    then have fd: "\<not> fd < 0" "fd \<noteq> dirfd" using st by (auto simp: in_table_def)
    obtain x s2 where two: "set_times h fd l_times s1 = Inr (x, s2)"
      using run one fd by (cases "set_times h fd l_times s1") (auto simp: do_utimensat_def)
    have f2: "k_files s2 = k_files s1" by (rule set_times_files [OF two])
    let ?s = "s2\<lparr>k_trace := k_trace s2 @ [Wrlock]\<rparr>"
    have v: "table_ok (fi_vkern (k_files ?s))" "fd_view (fi_vkern (k_files ?s)) fd = Some c" using f2 t(1,2,6) by simp_all
    obtain t' where t': "do_close h fi_vkern put_vkern fd ?s =
          Inr (syswrap (fst (answer h (Fd (Close fd)))) (snd (answer h (Fd (Close fd)))),
            ?s\<lparr>k_files := put_vkern t' (k_files ?s), k_trace := k_trace ?s @ [Call (Fd (Close fd))]\<rparr>)"
        "table_ok t'" "fd_view t' = (fd_view t)(fd := None)"
      using do_close_open [where get = fi_vkern and put = put_vkern and h = h, OF v] f2 t(1) by auto
    have "k_files s' = put_vkern t' (k_files s1)"
      using run one fd two t'(1) f2 by (auto simp: do_utimensat_def vkern_close_def)
    moreover have "fd_view t' = fd_view (fi_vkern (k_files s))" using t'(3) t(5,6) by (auto simp: fun_eq_iff)
    ultimately show ?thesis using t'(2) t(1) ok by (simp add: put_vkern_def files_ok_def)
  qed
qed

lemma ex_utimensat: "\<exists>r s'. do_utimensat ex_host (sint LINUX_AT_FDCWD) (Some [SLASH]) None 0 ex_kern = Inr (r, s')"
  by (simp add: do_utimensat_def vkern_openat_def do_openat_def with_path_def vfs_grab_dir_def resolve_path.simps
      darwinfs_openat_def vkern_dup_fd_def ex_host_def ex_kern_def ex_files_def ex_table_def find_emptyfd_def ffs_all mark_fd_def
      set_fdbit_def clear_fdbit_def fdbit_index_def alloc_file_def file_index_def set_times_def vkern_close_def do_close_def
      test_fdbit_def do_get_file_def unmark_fd_def darwinfs_close_def syswrap_def put_vkern_def Let_def)

theorem utimensat_no_leak_witness:
  "\<exists>r s'. do_utimensat ex_host (sint LINUX_AT_FDCWD) (Some [SLASH]) None 0 ex_kern = Inr (r, s') \<and> files_ok (k_files s') \<and>
    fd_view (fi_vkern (k_files s')) = fd_view (fi_vkern ex_files)"
proof -
  obtain r s' where run: "do_utimensat ex_host (sint LINUX_AT_FDCWD) (Some [SLASH]) None 0 ex_kern = Inr (r, s')" using ex_utimensat by blast
  have "files_ok (k_files ex_kern)" "ft_start (fi_vkern (k_files ex_kern)) = 192" "sint LINUX_AT_FDCWD < 192"
    using ex_files_ok by (simp_all add: ex_kern_def ex_files_def)
  then show ?thesis using utimensat_no_leak [OF _ _ _ run] run by (simp add: ex_kern_def)
qed

section \<open>Past the guest's own\<close>

text \<open>
  With a null name, \<open>utimensat\<close> takes the number of the descriptor as it is: the host is asked to change
  the times of a file that only the kernel has open.  \<open>fdatasync\<close> does not look at its number either.
\<close>

theorem utimensat_reaches_kernel:
  assumes "\<not> guest_fd (k_files s) fd"
  shows "\<exists>s' e. sys_utimensat h fd 0 0 flgs s = Inr (syswrap (fst (answer h (Sys (Futimes fd None)))) (snd (answer h (Sys (Futimes fd None)))), s') \<and>
    k_trace s' = k_trace s @ [e] \<and> \<not> guest_event (k_files s) e"
  using assms by (simp add: sys_utimensat_def do_utimensat_def set_times_def)

theorem utimensat_reaches_kernel_witness:
  "\<exists>s' e. sys_utimensat ex_host 200 0 0 0 ex_kern = Inr (fst (answer ex_host (Sys (Futimes 200 None))), s') \<and>
    k_trace s' = [e] \<and> \<not> guest_event ex_files e"
proof -
  have "\<not> guest_fd (k_files ex_kern) 200" by (simp add: guest_fd_def ex_kern_def ex_files_def in_userfd_def ex_table_def)
  from utimensat_reaches_kernel [OF this, of ex_host 0] show ?thesis by (simp add: ex_kern_def ex_host_def syswrap_def)
qed

text \<open>
  What stops the whole kernel: permission bits for a new set of semaphores, any operation on semaphores
  that can be read, and a clock that the switch does not know, such as \<open>CLOCK_BOOTTIME\<close>.
\<close>

theorem guest_stops_kernel:
  "sys_semget h key nsems (0x200 OR 0x1B6) s = Inl Assert_failed"
  "nsops \<noteq> 0 \<Longrightarrow> fetch tsops_ptr 1 s = Inr (Some bs, s) \<Longrightarrow> sys_semop h semid tsops_ptr nsops s = Inl Out_of_bounds"
  "6 < clockid \<or> clockid = 5 \<Longrightarrow> sys_clock_gettime h clockid ptr s = Inl Panicked"
proof -
  show "sys_semget h key nsems (0x200 OR 0x1B6) s = Inl Assert_failed" by (simp add: sys_semget_def linux_to_darwin_semflg_def)
  show "sys_semop h semid tsops_ptr nsops s = Inl Out_of_bounds" if "nsops \<noteq> 0" "fetch tsops_ptr 1 s = Inr (Some bs, s)"
    using that by (simp add: sys_semop_def crash_with_def)
  show "sys_clock_gettime h clockid ptr s = Inl Panicked" if "6 < clockid \<or> clockid = 5"
    using that by (auto simp: sys_clock_gettime_def linux_to_darwin_clockid_def)
qed

text \<open>
  \<open>getrandom\<close> copies the whole buffer out, also the part that the host did not fill, and keeps the
  descriptor of the device open.
\<close>

theorem getrandom_leaks:
  assumes "flgs AND NOT 3 = 0" "0 \<le> fd" "0 \<le> n" "n < int count" "count < 2 ^ 31"
    and c: "c = Open_device (if flgs AND 2 \<noteq> 0 then ''/dev/random'' else ''/dev/urandom'') (if flgs AND 1 \<noteq> 0 then 4 else 0)"
    and "fst (answer h (Sys c)) = fd" "fst (answer h (Sys (Read_device fd count))) = n" "length (out_bytes h (Sys (Read_device fd count))) = nat n"
  shows "sys_getrandom h buf_ptr count flgs s =
      store_result buf_ptr (out_bytes h (Sys (Read_device fd count)) @ drop (nat n) (uninit h count)) n
        (s\<lparr>k_trace := k_trace s @ [Call (Sys c), Call (Sys (Read_device fd count))]\<rparr>)"
proof -
  have "to_cint n = n" using assms(3-5) by (intro to_cint_id) simp_all
  then show ?thesis using assms
    by (simp add: sys_getrandom_def Let_def wide_call_def syswrap_def host_bytes_def filled_def uninit_def)
qed

end
