(* ===== verification/FirstProc.thy ===== *)
theory FirstProc
  imports ExecProps BootProps
begin

text \<open>
  The first process of \<open>src/main.c\<close>: \<open>init_first_proc\<close>, the last step of \<open>init_vkernel\<close>, on the state
  that \<open>execve\<close> acts on afterwards.  What it sets up is where the runs of the descriptor calls, the signal calls,
  the futexes and the credentials start.
\<close>

section \<open>Definitions\<close>

text \<open>
  The answers of the host: whether there is memory for the structure \<open>mm\<close>, the result of opening the root directory,
  the limit of descriptors, and the numbers of the user and the process.
\<close>

record first_host =
  fh_exec :: exec_host
  fh_mm :: bool
  fh_root :: int
  fh_limit :: int
  fh_uid :: flags
  fh_euid :: flags
  fh_pid :: int

definition init_first_proc :: "first_host \<Rightarrow> exec_state \<Rightarrow> exec_state run" where
  "init_first_proc h st =
    (if \<not> fh_mm h then Inl Null_deref
     else let u = x_user st; u' = u\<lparr>um_proc := init_mm (um_proc u)\<rparr>; fs = xh_fs (fh_exec h) in
       bind_run (init_signal (xh_sig (fh_exec h)) 1 (x_sig st)) (\<lambda>sg.
       if fh_root h < 0 then Inl Exited
       else bind_run (on_kern (act_bind (init_fileinfo fs (fh_limit h) (fh_root h)) (\<lambda>_. raw_call fs (Fd (Close (fh_root h)))))
           ((set_user u' st)\<lparr>x_sig := sg\<rparr>)) (\<lambda>(_, st').
         Inr (st'\<lparr>x_proc := (x_proc st')
           \<lparr>p_nr_tasks := 1,
            p_fx := \<lparr>fx_lists = Map.empty, fx_mem = Map.empty, fx_user = u', fx_signalled = {}\<rparr>,
            p_cred := \<lparr>c_uid = fh_uid h, c_euid = fh_euid h, c_suid = fh_euid h\<rparr>,
            p_tid := of_int (fh_pid h)\<rparr>\<rparr>))))"

text \<open>The whole of \<open>init_vkernel\<close>, after \<open>vmm_create\<close>.\<close>

definition start_kernel :: "boot_host \<Rightarrow> first_host \<Rightarrow> boot \<times> exec_state \<Rightarrow> (boot \<times> exec_state) run" where
  "start_kernel bh h = (\<lambda>(b, st).
    bind_run (boot_machine bh b) (\<lambda>b'. bind_run (init_first_proc h st) (\<lambda>st'. Inr (b', st'))))"

section \<open>What the first process starts with\<close>

lemma init_mm_empty: "mm_inv (init_mm m)" "view (init_mm m) = Map.empty"
  by (simp_all add: init_mm_def init_mmap_def mm_inv_def rb_tree_ok_def regions_def regions_ok_def view_def find_region_def fun_eq_iff)

text \<open>Setting up the tables of descriptors leaves the memory of the guest alone.\<close>

definition keeps_mem :: "'a act \<Rightarrow> bool" where
  "keeps_mem m \<longleftrightarrow> (\<forall>s x s'. m s = Inr (x, s') \<longrightarrow> k_user s' = k_user s)"

lemma keeps_memD: "keeps_mem m \<Longrightarrow> m s = Inr (x, s') \<Longrightarrow> k_user s' = k_user s"
  by (simp add: keeps_mem_def)

lemma keeps_mem_bind: "keeps_mem m \<Longrightarrow> (\<And>x. keeps_mem (f x)) \<Longrightarrow> keeps_mem (act_bind m f)"
  by (auto simp: keeps_mem_def act_bind_def bind_run_def split: sum.splits)

lemma keeps_mem_steps: "keeps_mem (act_ret x)" "keeps_mem (raw_call h c)" "keeps_mem (look g)" "keeps_mem (with_files f)"
  "keeps_mem (act_register h fd cx)" "keeps_mem (\<lambda>s. Inl e)"
  by (auto simp: keeps_mem_def act_ret_def raw_call_def emit_def act_bind_def look_def with_files_def act_register_def bind_run_def
    split: sum.splits)

lemma keeps_mem_if: "keeps_mem m \<Longrightarrow> keeps_mem m' \<Longrightarrow> keeps_mem (if b then m else m')"
  by simp

lemma keeps_mem_init_fds: "keeps_mem (init_fds h rootfd is)"
  by (induction "is"; unfold init_fds.simps; intro keeps_mem_bind keeps_mem_if keeps_mem_steps; assumption?)

lemma keeps_mem_init_fileinfo: "keeps_mem (init_fileinfo h limit rootfd)"
  unfolding init_fileinfo_def vkern_dup_fd_def by (intro keeps_mem_bind keeps_mem_if keeps_mem_steps keeps_mem_init_fds)

theorem first_proc_starts_runs:
  assumes "init_first_proc h st = Inr st'" "64 \<le> fh_limit h" "host_ok (xh_fs (fh_exec h))" "sg_trace (x_sig st) = []"
    and "p_trace (x_proc st) = []"
  shows "fds_inv (fh_limit h - 64) (k_files (x_kern st')) \<and> sig_run (xh_sig (fh_exec h)) (x_sig st') \<and>
    futex_run (p_fx (x_proc st')) Map.empty \<and> in_step (fh_uid h, fh_euid h) (x_proc st') \<and>
    mm_inv (um_proc (x_user st')) \<and> view (um_proc (x_user st')) = Map.empty"
proof -
  let ?fs = "xh_fs (fh_exec h)"
  let ?u = "(x_user st)\<lparr>um_proc := init_mm (um_proc (x_user st))\<rparr>"
  obtain sg k where sg: "init_signal (xh_sig (fh_exec h)) 1 (x_sig st) = Inr sg"
    and k: "init_fileinfo ?fs (fh_limit h) (fh_root h) ((x_kern st)\<lparr>k_user := ?u\<rparr>) = Inr ((), k)"
    and st': "x_sig st' = sg" "k_files (x_kern st') = k_files k" "k_user (x_kern st') = k_user k"
      "p_fx (x_proc st') = \<lparr>fx_lists = Map.empty, fx_mem = Map.empty, fx_user = ?u, fx_signalled = {}\<rparr>"
      "p_cred (x_proc st') = \<lparr>c_uid = fh_uid h, c_euid = fh_euid h, c_suid = fh_euid h\<rparr>" "p_trace (x_proc st') = []"
    using assms(1,5)
    by (auto simp: init_first_proc_def Let_def on_kern_def set_user_def raw_call_def emit_def act_bind_def act_ret_def bind_run_def
      split: if_splits sum.splits)
  have "sg_trace sg = []" using sg assms(4) by (auto simp: init_signal_def Let_def split: if_splits)
  then have "sig_run (xh_sig (fh_exec h)) sg" using sg by (rule sig_run.start [rotated])
  moreover have "k_user k = ?u" using keeps_memD [OF keeps_mem_init_fileinfo k] by simp
  moreover have "fds_inv (fh_limit h - 64) (k_files k)" using assms(2,3) k by (rule init_fileinfo_inv)
  moreover have "futex_run (p_fx (x_proc st')) Map.empty" unfolding st'(4) by (rule futex_run.start)
  ultimately show ?thesis using st' init_mm_empty by (simp add: x_user_def in_step_def host_ids_def)
qed

end
