(* ===== verification/Spec2Isabelle.thy ===== *)
theory Spec2Isabelle
  imports UserMem ConvProps FileProps FutexProps KhashProps DispatchProps ExecProps NetProps BootProps CloneProps EptProps SysTimeProps
    FirstProc
begin

text \<open>
  \<^bold>\<open>A verification development for Noah.\<close>

  Noah runs Linux programs on Darwin.  A program of the guest runs in a virtual machine of the Darwin hypervisor
  without a Linux kernel in it.  A system call instruction leaves the machine, and a handler of Noah answers it with
  calls of the host.  The paths below are those of the repository, under \<^verbatim>\<open>src/\<close>.

  \<^bold>\<open>How the parts interact.\<close>  \<open>main\<close> makes the machine and the first process (\<open>init_vkernel\<close>), loads a program
  (\<open>do_exec\<close>) and runs \<open>main_loop\<close>.  Each turn of the loop delivers pending signals, runs the guest and handles
  its exit; a system call goes through the table of \<^verbatim>\<open>include/syscall.h\<close> to its handler.  Handlers read and write
  the memory of the guest through the region index of the process, keep two tables of descriptors (those of the guest,
  and those of the kernel above a border), and convert structures, flags and error numbers in both directions.

  \<^bold>\<open>Conventions.\<close>
  \<^item> A run of code is a value of \<open>crash + 'a\<close>.  A failed assertion, a panic, a dereference of \<open>NULL\<close>, an access
    outside of an array or to freed memory, \<open>exit\<close> and a signal that ends the process are the values of \<open>crash\<close>
    (theory \<^verbatim>\<open>Prelude\<close>).  So a theorem that a call returns says that none of them happens.
  \<^item> Integers have their C width as words where the width matters; addresses are words of 64 bits.  Structures
    in memory are byte lists at the offsets of the C compiler (\<^verbatim>\<open>Layout\<close>).
  \<^item> What the host or the hypervisor answers, which allocations succeed, what uninitialised memory holds and
    whether a signal is fatal are arguments: the records \<open>host\<close>, \<open>sig_host\<close> (\<open>sh_fatal\<close>), \<open>proc_host\<close>, \<open>exec_host\<close>,
    \<open>hv\<close>, \<open>boot_host\<close>, \<open>clone_host\<close> and \<open>first_host\<close>.  What a theorem needs of them is a hypothesis with a name, such as
    \<open>host_ok\<close>, \<open>links_ok\<close>, \<open>hv_willing\<close> or \<open>hv_boots\<close>.
  \<^item> Calls to the host are recorded in a trace, and so are the operations on \<open>fdtable_lock\<close> and on the lock of the signal
    actions.  A lock is recorded, not waited for; that a handler takes a lock it holds already is read off the trace.
    The other locks are held over a whole operation and are not part of a state.

  \<^bold>\<open>Library.\<close>
  \<^item> \<^verbatim>\<open>Prelude\<close>: types, crashes, rounding (\<^verbatim>\<open>include/util/misc.h\<close>, \<^verbatim>\<open>include/x86/vm.h\<close>), collections of rules.
  \<^item> \<^verbatim>\<open>Errno\<close>: the constant tables of \<^verbatim>\<open>include/linux/const.h\<close>, the error numbers and \<open>syswrap\<close>.
  \<^item> \<^verbatim>\<open>RBTree\<close>: the red-black trees of \<^verbatim>\<open>include/util/tree.h\<close>.  Insertion and removal keep the colours and the order and
    follow no \<open>NULL\<close> link; the locale \<open>ordered_index\<close> is what the region index relies on.
  \<^item> \<^verbatim>\<open>Khash\<close>, \<^verbatim>\<open>KhashProps\<close>: the hash tables of \<^verbatim>\<open>include/util/khash.h\<close>; the table of the futexes is a map.
  \<^item> \<^verbatim>\<open>Layout\<close>: images of C structures and the initial image of the floating point unit.

  \<^bold>\<open>Memory\<close> (\<^verbatim>\<open>src/mm\<close>, \<^verbatim>\<open>src/base.c\<close>).
  \<^item> \<^verbatim>\<open>Memory\<close>: \<open>struct mm\<close> and the lookups, splits and insertions of \<^verbatim>\<open>src/mm/mm.c\<close>, with the invariant \<open>mm_inv\<close>.
  \<^item> \<^verbatim>\<open>Mmap\<close>, \<^verbatim>\<open>MmapProps\<close>: \<^verbatim>\<open>src/mm/mmap.c\<close>, the memory calls of \<^verbatim>\<open>src/mm/mm.c\<close> and \<open>shmat\<close>.  The abstract view of an address space
    is \<open>view\<close>; \<open>munmap\<close> and \<open>mmap\<close> implement removal and update of it.
  \<^item> \<^verbatim>\<open>EptProps\<close>: the page table of the hypervisor stays in step with the region index.
  \<^item> \<^verbatim>\<open>UserMem\<close>: the copy and string routines of \<^verbatim>\<open>src/base.c\<close> against the byte behind each address.

  \<^bold>\<open>Files and sockets\<close> (\<^verbatim>\<open>src/fs/fs.c\<close>, \<^verbatim>\<open>src/net/net.c\<close>).
  \<^item> \<^verbatim>\<open>FdTable\<close>, \<^verbatim>\<open>FdCalls\<close>, \<^verbatim>\<open>FdProps\<close>: the tables of descriptors, the calls that change them and the start of a process.  The invariant
    \<open>files_ok\<close> holds in every reachable state; the calls are updates of the abstract map \<open>user_view\<close>; the locale
    \<open>descriptor_table\<close> holds the laws of marking and unmarking.
  \<^item> \<^verbatim>\<open>Vfs\<close>, \<^verbatim>\<open>VfsProps\<close>, \<^verbatim>\<open>PathCalls\<close>: path resolution and every call with a path.
  \<^item> \<^verbatim>\<open>FileIo\<close>, \<^verbatim>\<open>TtyPoll\<close>, \<^verbatim>\<open>FileProps\<close>: calls on open files, terminals and waiting; which descriptors reach the host.
  \<^item> \<^verbatim>\<open>Net\<close>, \<^verbatim>\<open>NetProps\<close>: the calls on sockets.
  \<^item> \<^verbatim>\<open>Conv\<close>, \<^verbatim>\<open>ConvProps\<close>: the conversions of \<^verbatim>\<open>src/conv.c\<close>; the locales \<open>flag_table\<close> and \<open>bit_table\<close> are interpreted
    for every table of flags.

  \<^bold>\<open>Processes\<close> (\<^verbatim>\<open>src/proc\<close>, \<^verbatim>\<open>src/ipc\<close>, \<^verbatim>\<open>src/sys\<close>).
  \<^item> \<^verbatim>\<open>Signal\<close>, \<^verbatim>\<open>SignalProps\<close>, \<^verbatim>\<open>SignalRuns\<close>: \<^verbatim>\<open>src/ipc/signal.c\<close>; frames and their return, delivery, masks as sets.
  \<^item> \<^verbatim>\<open>Futex\<close>, \<^verbatim>\<open>FutexProps\<close>: \<^verbatim>\<open>src/ipc/futex.c\<close>, with the sleep and the return of a waiter as two steps.
  \<^item> \<^verbatim>\<open>Process\<close>, \<^verbatim>\<open>ProcessProps\<close>: \<^verbatim>\<open>src/proc/process.c\<close> with the privileges of \<^verbatim>\<open>src/main.c\<close>.
  \<^item> \<^verbatim>\<open>Exec\<close>, \<^verbatim>\<open>ExecStack\<close>, \<^verbatim>\<open>ExecProps\<close>: \<^verbatim>\<open>src/proc/exec.c\<close>; segments, stack, what is reset.
  \<^item> \<^verbatim>\<open>Clone\<close>, \<^verbatim>\<open>CloneProps\<close>: \<^verbatim>\<open>src/proc/fork.c\<close>; the two sides of \<open>fork\<close> and of a new thread.
  \<^item> \<^verbatim>\<open>SysTime\<close>, \<^verbatim>\<open>SysTimeProps\<close>: \<^verbatim>\<open>src/sys\<close>, \<^verbatim>\<open>src/ipc/sem.c\<close>, \<^verbatim>\<open>src/mm/shm.c\<close> and \<^verbatim>\<open>src/proc/ptrace.c\<close>.

  \<^bold>\<open>The machine\<close> (\<^verbatim>\<open>lib/vmm.c\<close>, \<^verbatim>\<open>src/main.c\<close>).
  \<^item> \<^verbatim>\<open>Vmm\<close>, \<^verbatim>\<open>VmmProps\<close>: processors, registers and the snapshot that \<open>fork\<close> takes.  A snapshot has no contents of model-specific
    registers, and neither has the restored machine (\<open>same_machine\<close>).
  \<^item> \<^verbatim>\<open>Boot\<close>, \<^verbatim>\<open>BootProps\<close>: the arena of \<^verbatim>\<open>src/mm/malloc.c\<close>, page tables, segments, control fields and registers at the start.
  \<^item> \<^verbatim>\<open>FirstProc\<close>: \<open>init_first_proc\<close>, and that the runs of the other theories start in the state it leaves.
  \<^item> \<^verbatim>\<open>Dispatch\<close>, \<^verbatim>\<open>DispatchProps\<close>: the table of system calls, every exit reason of \<open>main_loop\<close>, \<open>check_vm_entry\<close> included.

  \<^bold>\<open>Bounds.\<close>  Most loops are recursions over a list or a number.  The others have fuel.
  \<^item> The loop of \<open>munmap\<close> gets the number of regions plus 2: a pass removes a region or ends the loop, and at most two splits
    add one.  The loop of \<open>mprotect\<close> gets the number of regions plus 1.  That the fuel is enough is part of \<open>munmap_safe\<close>
    and of \<open>page_table_in_step\<close>.
  \<^item> Probing in a hash table gets twice the number of buckets, since it visits all of them before it comes back, and a chain
    of moves one more than the number of buckets, since each empties one.  \<open>pfutex_table_is_map\<close> shows that it is enough.
  \<^item> \<open>do_exec\<close> and \<open>main_loop\<close> may run for ever in the code (a script that names itself, and every guest that does not end);
    their fuel is an argument, and the properties speak about one turn, \<open>exec_file\<close> and \<open>handle_exit\<close>.
  \<^item> Path resolution has the limit of the code on links; \<open>resolve_path_stops\<close> bounds its host calls by 21 times 4095.

  \<^bold>\<open>Not modelled.\<close>
  \<^item> \<open>main\<close> itself with its options and messages, and the tracing of \<^verbatim>\<open>src/meta_strace.c\<close> and \<^verbatim>\<open>src/debug.c\<close>: output only.
  \<^item> \<open>shm_malloc\<close>, \<open>shm_free\<close> and the splay trees of \<^verbatim>\<open>include/util/tree.h\<close>: no code calls them.
  \<^item> The linked lists of \<^verbatim>\<open>include/util/list.h\<close>: they are sequences in the parts that use them.
  \<^item> Threads that run at the same time: an operation under a lock is one step, and sleeping and waking of futexes, the
    arrival of a signal and the start of a thread are steps of their own.
  \<^item> The effect of the handlers on one common state: the dispatcher takes the handlers that do not act on signals as an
    argument, and each part has its own record.  \<open>exec_state\<close> and the state of \<open>clone\<close> put several of them together.
\<close>

end
